(* ===== verification/Cxy_Prelude.thy ===== *)
theory Cxy_Prelude
  imports Main "HOL-Library.Word"
begin

text \<open>
  Shared vocabulary of the development: the fixed-width integers of
  \<open>core/utils.h\<close>, NUL-terminated C strings and the character classes of
  \<open>ctype.h\<close> (in the C locale), \<open>strcmp\<close>-style comparison, and the
  lemmas about cyclic indices and list updates that several components use.

  A C string is modelled by the list of the bytes before its terminating NUL, and a
  pointer into it by the suffix it points at: \<open>cur p\<close> is the byte read by \<open>*p\<close>
  (NUL at the end) and \<open>tl p\<close> is \<open>p + 1\<close>.
\<close>

unbundle bit_operations_syntax

named_theorems word_defs \<open>definitions of the word-level operations\<close>

type_synonym u8 = "8 word"
type_synonym u16 = "16 word"
type_synonym u32 = "32 word"
type_synonym u64 = "64 word"
type_synonym u128 = "128 word"
type_synonym cstring = string

lemma unat_u32_less [simp]: "unat (x :: u32) < 4294967296"
  using unsigned_less [of x, where 'a = nat] by simp

section \<open>C strings and character classes\<close>

definition nul :: char where
  "nul = CHR 0x00"

definition cur :: "cstring \<Rightarrow> char" where
  "cur p = (case p of [] \<Rightarrow> nul | c # _ \<Rightarrow> c)"

lemma cur_simps [simp]: "cur [] = nul" "cur (c # cs) = c"
  by (simp_all add: cur_def)

abbreviation code :: "char \<Rightarrow> nat" where
  "code c \<equiv> of_char c"

definition in_range :: "char \<Rightarrow> char \<Rightarrow> char \<Rightarrow> bool" where
  "in_range lo hi c \<longleftrightarrow> code lo \<le> code c \<and> code c \<le> code hi"

definition isdigit :: "char \<Rightarrow> bool" where
  "isdigit c = in_range CHR ''0'' CHR ''9'' c"

definition islower :: "char \<Rightarrow> bool" where
  "islower c = in_range CHR ''a'' CHR ''z'' c"

definition isupper :: "char \<Rightarrow> bool" where
  "isupper c = in_range CHR ''A'' CHR ''Z'' c"

definition isalpha :: "char \<Rightarrow> bool" where
  "isalpha c = (islower c \<or> isupper c)"

definition isalnum :: "char \<Rightarrow> bool" where
  "isalnum c = (isalpha c \<or> isdigit c)"

definition isxdigit :: "char \<Rightarrow> bool" where
  "isxdigit c = (isdigit c \<or> in_range CHR ''a'' CHR ''f'' c \<or> in_range CHR ''A'' CHR ''F'' c)"

text \<open>\<open>isspace\<close>: space and the control characters 9 to 13.\<close>

definition isspace :: "char \<Rightarrow> bool" where
  "isspace c = (c = CHR '' '' \<or> in_range CHR 0x09 CHR 0x0D c)"

text \<open>\<open>ispunct\<close>: printable, neither a space nor alphanumeric.\<close>

definition ispunct :: "char \<Rightarrow> bool" where
  "ispunct c = (in_range CHR 0x21 CHR 0x7E c \<and> \<not> isalnum c)"

lemmas ctype_defs = isdigit_def islower_def isupper_def isalpha_def isalnum_def isxdigit_def
  isspace_def ispunct_def in_range_def

lemma isdigit_nul [simp]: "\<not> isdigit nul"
  by (simp add: ctype_defs nul_def)

lemma isspace_nul [simp]: "\<not> isspace nul"
  by (simp add: ctype_defs nul_def)

lemma isalnum_nul [simp]: "\<not> isalnum nul"
  by (simp add: ctype_defs nul_def)

definition digit_val :: "char \<Rightarrow> nat" where
  "digit_val c = code c - code CHR ''0''"

lemma digit_val_less: "isdigit c \<Longrightarrow> digit_val c < 10"
  by (auto simp: ctype_defs digit_val_def)

definition digit_char :: "nat \<Rightarrow> char" where
  "digit_char d = char_of (48 + d)"

lemma digit_char_digit [simp]: "d < 10 \<Longrightarrow> isdigit (digit_char d)"
  by (simp add: digit_char_def ctype_defs)

lemma digit_val_char [simp]: "d < 10 \<Longrightarrow> digit_val (digit_char d) = d"
  by (simp add: digit_char_def digit_val_def)

lemma digit_char_eval:
  "digit_char 0 = CHR ''0''" "digit_char 1 = CHR ''1''" "digit_char 2 = CHR ''2''"
  "digit_char 3 = CHR ''3''" "digit_char 4 = CHR ''4''" "digit_char 5 = CHR ''5''"
  "digit_char 6 = CHR ''6''" "digit_char 7 = CHR ''7''" "digit_char 8 = CHR ''8''"
  "digit_char 9 = CHR ''9''" "digit_char (Suc 0) = CHR ''1''"
  by (simp_all add: digit_char_def char_of_def bit_Suc_0_iff)

text \<open>The sign of \<open>strcmp\<close>: the first differing byte decides, as unsigned bytes.\<close>

fun strcmp_sgn :: "cstring \<Rightarrow> cstring \<Rightarrow> int" where
  "strcmp_sgn [] [] = 0"
| "strcmp_sgn [] (_ # _) = -1"
| "strcmp_sgn (_ # _) [] = 1"
| "strcmp_sgn (a # as) (b # bs) =
     (if code a < code b then -1 else if code b < code a then 1 else strcmp_sgn as bs)"

lemma strcmp_refl [simp]: "strcmp_sgn s s = 0"
  by (induction s) auto

lemma strcmp_eq_0: "strcmp_sgn a b = 0 \<longleftrightarrow> a = b"
  by (induction a b rule: strcmp_sgn.induct) (auto simp: linorder_not_less)

lemma strcmp_antisym: "strcmp_sgn b a = - strcmp_sgn a b"
  by (induction a b rule: strcmp_sgn.induct) auto

lemma strcmp_trans:
  "strcmp_sgn a b \<le> 0 \<Longrightarrow> strcmp_sgn b c \<le> 0 \<Longrightarrow> strcmp_sgn a c \<le> 0"
proof (induction a arbitrary: b c)
  case Nil
  then show ?case by (cases b; cases c) auto
next
  case (Cons x xs)
  then obtain y ys where b: "b = y # ys" by (cases b) auto
  with Cons.prems obtain z zs where c: "c = z # zs" by (cases c) auto
  from Cons.prems b c have le: "code x \<le> code y" "code y \<le> code z"
    by (simp_all split: if_splits)
  show ?case
  proof (cases "code x < code z")
    case True
    with c show ?thesis by simp
  next
    case False
    with le have "code x = code y" and "code y = code z" by linarith+
    with Cons b c show ?thesis by simp
  qed
qed

lemma strcmp_range: "strcmp_sgn a b \<in> {-1, 0, 1}"
  by (induction a b rule: strcmp_sgn.induct) auto

text \<open>Whether \<open>strncmp\<close> returns zero: the strings agree on the first \<open>n\<close> bytes, or end together
  before.\<close>

definition strncmp_eq :: "nat \<Rightarrow> cstring \<Rightarrow> cstring \<Rightarrow> bool" where
  "strncmp_eq n a b \<longleftrightarrow> take n a = take n b"

section \<open>Cyclic indices\<close>

text \<open>The index reached after \<open>k\<close> increments with wrap-around in an array of \<open>n\<close> slots,
  and the number of increments from one index to another.\<close>

definition cyc :: "nat \<Rightarrow> nat \<Rightarrow> nat \<Rightarrow> nat" where
  "cyc n i k = (i + k) mod n"

definition cdist :: "nat \<Rightarrow> nat \<Rightarrow> nat \<Rightarrow> nat" where
  "cdist n i j = (if i \<le> j then j - i else n - i + j)"

lemma cyc_less [simp]: "0 < n \<Longrightarrow> cyc n i k < n"
  by (simp add: cyc_def)

lemma cyc_0: "i < n \<Longrightarrow> cyc n i 0 = i"
  by (simp add: cyc_def)

lemma cyc_cyc: "cyc n (cyc n i j) k = cyc n i (j + k)"
  by (simp add: cyc_def mod_add_left_eq add.assoc)

lemma cyc_step: "cyc n (cyc n i (Suc 0)) k = cyc n i (Suc k)"
  by (simp add: cyc_cyc)

lemma cyc_cdist: "i < n \<Longrightarrow> j < n \<Longrightarrow> cyc n i (cdist n i j) = j"
  by (auto simp: cyc_def cdist_def)

lemma cdist_less: "i < n \<Longrightarrow> j < n \<Longrightarrow> cdist n i j < n"
  by (auto simp: cdist_def)

lemma cdist_self [simp]: "cdist n i i = 0"
  by (simp add: cdist_def)

lemma cdist_cyc: "i < n \<Longrightarrow> k < n \<Longrightarrow> cdist n i (cyc n i k) = k"
proof -
  assume a: "i < n" "k < n"
  show ?thesis
  proof (cases "i + k < n")
    case True
    then show ?thesis by (simp add: cyc_def cdist_def)
  next
    case False
    with a have "(i + k) mod n = i + k - n"
      by (simp add: le_mod_geq)
    with a False show ?thesis by (auto simp: cyc_def cdist_def)
  qed
qed

lemma cyc_covers: "i < n \<Longrightarrow> j < n \<Longrightarrow> \<exists>k<n. cyc n i k = j"
  using cyc_cdist cdist_less by blast

section \<open>Lists\<close>

lemma nth_list_update_if:
  "i < length xs \<Longrightarrow> xs[j := v] ! i = (if i = j then v else xs ! i)"
  by (simp add: nth_list_update)

lemma count_filter_update:
  "i < length xs \<Longrightarrow> length (filter P (xs[i := v])) + (if P (xs ! i) then 1 else 0)
     = length (filter P xs) + (if P v then 1 else 0)"
proof (induction xs arbitrary: i)
  case (Cons x xs)
  then show ?case by (cases i) auto
qed simp

lemma ex_unfiltered:
  assumes "length (filter P xs) < length xs"
  shows "\<exists>i<length xs. \<not> P (xs ! i)"
  by (metis assms filter_True in_set_conv_nth less_irrefl)

text \<open>The last place of a character in a string, as \<open>strrchr\<close> finds it.\<close>

definition strrchr :: "cstring \<Rightarrow> char \<Rightarrow> nat option" where
  "strrchr s c = (if c \<in> set s then Some (length s - 1 - length (takeWhile (\<lambda>x. x \<noteq> c) (rev s))) else None)"

lemma strrchr_Some:
  assumes "strrchr s c = Some i"
  shows "i < length s" "s ! i = c" "\<forall>j. i < j \<longrightarrow> j < length s \<longrightarrow> s ! j \<noteq> c"
proof -
  let ?k = "length (takeWhile (\<lambda>x. x \<noteq> c) (rev s))"
  have c: "c \<in> set s" and i: "i = length s - 1 - ?k" using assms by (auto simp: strrchr_def split: if_splits)
  have k: "?k < length (rev s)" using c length_takeWhile_le [of "\<lambda>x. x \<noteq> c" "rev s"]
    by (metis (mono_tags, lifting) le_neq_implies_less set_rev set_takeWhileD takeWhile_eq_take take_all_iff)
  then show "i < length s" using i by simp
  have "rev s ! ?k = c" using nth_length_takeWhile [of "\<lambda>x. x \<noteq> c" "rev s"] k by auto
  then show "s ! i = c" using k i by (simp add: rev_nth)
  show "\<forall>j. i < j \<longrightarrow> j < length s \<longrightarrow> s ! j \<noteq> c"
  proof (intro allI impI)
    fix j assume j: "i < j" "j < length s"
    then have "length s - Suc j < ?k" using i k by simp
    then have "rev s ! (length s - Suc j) \<noteq> c"
      using nth_mem [of "length s - Suc j" "takeWhile (\<lambda>x. x \<noteq> c) (rev s)"] takeWhile_nth [of "length s - Suc j" "\<lambda>x. x \<noteq> c" "rev s"]
        set_takeWhileD by fastforce
    then show "s ! j \<noteq> c" using j by (simp add: rev_nth)
  qed
qed

section \<open>Three-way comparison functions\<close>

text \<open>The contract of a \<open>strcmp\<close>-style comparison, which sorting and searching rely on:
  swapping the arguments negates the sign and the induced order is transitive.\<close>

locale comparator =
  fixes cmp :: "'a \<Rightarrow> 'a \<Rightarrow> int"
  assumes neg: "cmp b a = - cmp a b"
    and trans: "cmp a b \<le> 0 \<Longrightarrow> cmp b c \<le> 0 \<Longrightarrow> cmp a c \<le> 0"
begin

lemma self: "cmp a a = 0"
  using neg [of a a] by simp

lemma total: "cmp a b \<le> 0 \<or> cmp b a \<le> 0"
  using neg [of a b] by linarith

lemma strict_trans: "cmp a b < 0 \<Longrightarrow> cmp b c \<le> 0 \<Longrightarrow> cmp a c < 0"
  using trans [of a b c] trans [of b c a] neg [of a b] neg [of a c] by linarith

lemma eq_trans: "cmp a b = 0 \<Longrightarrow> cmp b c = 0 \<Longrightarrow> cmp a c = 0"
  using trans [of a b c] trans [of c b a] neg [of a b] neg [of b c] neg [of a c] by linarith

lemma comparator_on: "comparator (\<lambda>x y. cmp (k x) (k y))"
  by unfold_locales (rule neg, rule trans)

text \<open>Breaking ties with a second comparison.\<close>

lemma comparator_then:
  assumes "comparator g"
  shows "comparator (\<lambda>a b. if cmp a b \<noteq> 0 then cmp a b else g a b)"
proof (unfold_locales, goal_cases)
  case (1 b a)
  then show ?case using neg [of a b] comparator.neg [OF assms, of a b] by auto
next
  case (2 a b c)
  show ?case
  proof (cases "cmp a b = 0 \<and> cmp b c = 0")
    case True
    then show ?thesis using 2 eq_trans comparator.trans [OF assms, of a b c] by auto
  next
    case False
    with 2 have "cmp a b < 0 \<and> cmp b c \<le> 0 \<or> cmp a b \<le> 0 \<and> cmp b c < 0"
      by (auto split: if_splits)
    then have "cmp a c < 0"
      using strict_trans [of a b c] trans [of a b c] trans [of c a b] neg [of a c] neg [of b c] by linarith
    then show ?thesis by simp
  qed
qed

text \<open>The last element of a list sorted by \<open>cmp\<close> that satisfies a test is a greatest one.\<close>

lemma find_rev_greatest:
  assumes "sorted_wrt (\<lambda>a b. cmp a b \<le> 0) xs" and "List.find P (rev xs) = Some x"
    and "y \<in> set xs" "P y"
  shows "cmp y x \<le> 0"
  using assms
proof (induction xs rule: rev_induct)
  case (snoc z zs)
  show ?case
  proof (cases "P z")
    case True
    with snoc.prems have "x = z" by simp
    with snoc.prems self show ?thesis by (auto simp: sorted_wrt_append)
  next
    case False
    with snoc show ?thesis by (auto simp: sorted_wrt_append)
  qed
qed simp

end

interpretation strcmp: comparator strcmp_sgn
  by unfold_locales (rule strcmp_antisym, rule strcmp_trans)

end
