(* ===== verification/Cxy_SemVer.thy ===== *)
theory Cxy_SemVer
  imports Cxy_Prelude
begin

text \<open>
  Semantic versions and version constraints of the package manager
  (\<open>package/types.h\<close>, \<open>package/types.c\<close>): the number scanner, the version and
  constraint parsers, the comparison and the constraint test. Version components are
  32-bit words. A parser that reports an error and returns false is a value \<open>Inl\<close> of the
  reported error; \<open>NULL\<close> strings are \<open>None\<close>.
\<close>

record SemanticVersion =
  major :: u32
  minor :: u32
  patch :: u32
  prerelease :: "cstring option"
  build :: "cstring option"

datatype VersionConstraintType =
  vcExact | vcCaret | vcTilde | vcGreater | vcGreaterEq | vcLess | vcLessEq | vcWildcard | vcAny

record VersionConstraint =
  vc_type :: VersionConstraintType
  vc_version :: SemanticVersion
  vc_raw :: "cstring option"

datatype version_error =
  EmptyVersion | InvalidMajor | NoDotAfterMajor | InvalidMinor | NoDotAfterMinor | InvalidPatch | UnexpectedAfterPatch

definition zero_version :: SemanticVersion where
  "zero_version = \<lparr>major = 0, minor = 0, patch = 0, prerelease = None, build = None\<rparr>"

definition zero_constraint :: VersionConstraint where
  "zero_constraint = \<lparr>vc_type = vcExact, vc_version = zero_version, vc_raw = None\<rparr>"

text \<open>\<open>parseNumber\<close> returns whether it succeeded, the moved pointer and the number; on an
  overflow both are left where the loop stopped, and with no digit the number is kept.\<close>

fun parseNumberLoop :: "cstring \<Rightarrow> u32 \<Rightarrow> bool \<times> cstring \<times> u32" where
  "parseNumberLoop [] num = (True, [], num)"
| "parseNumberLoop (c # str) num =
     (if isdigit c
      then let digit = of_nat (digit_val c)
           in if num > (0xFFFFFFFF - digit) div 10 then (False, c # str, num)
              else parseNumberLoop str (num * 10 + digit)
      else (True, c # str, num))"

definition parseNumber :: "cstring \<Rightarrow> u32 \<Rightarrow> bool \<times> cstring \<times> u32" where
  "parseNumber str num =
     (if \<not> isdigit (cur str) then (False, str, num) else parseNumberLoop str 0)"

text \<open>The prerelease and build pointers are set into the string that is parsed: the
  prerelease runs to the end of the string, not to the \<open>+\<close>.\<close>

definition parseVersionTail :: "SemanticVersion \<Rightarrow> cstring \<Rightarrow> version_error + SemanticVersion" where
  "parseVersionTail version p =
     (if cur p \<noteq> nul \<and> cur p \<noteq> CHR ''-'' \<and> cur p \<noteq> CHR ''+'' then Inl UnexpectedAfterPatch
      else
        let (version, p) =
              (if cur p = CHR ''-''
               then (version\<lparr>prerelease := Some (tl p)\<rparr>, dropWhile (\<lambda>c. c \<noteq> nul \<and> c \<noteq> CHR ''+'') (tl p))
               else (version, p));
            version = (if cur p = CHR ''+'' then version\<lparr>build := Some (tl p)\<rparr> else version)
        in Inr version)"

definition parseSemanticVersion :: "cstring option \<Rightarrow> version_error + SemanticVersion" where
  "parseSemanticVersion str =
     (case str of
        None \<Rightarrow> Inl EmptyVersion
      | Some str \<Rightarrow>
          if cur str = nul then Inl EmptyVersion
          else let p = (if cur str = CHR ''v'' \<or> cur str = CHR ''V'' then tl str else str)
          in case parseNumber p 0 of (ok, p, mj) \<Rightarrow>
            if \<not> ok then Inl InvalidMajor
            else if cur p \<noteq> CHR ''.'' then Inl NoDotAfterMajor
            else case parseNumber (tl p) 0 of (ok, p, mn) \<Rightarrow>
              if \<not> ok then Inl InvalidMinor
              else if cur p \<noteq> CHR ''.'' then Inl NoDotAfterMinor
              else case parseNumber (tl p) 0 of (ok, p, pt) \<Rightarrow>
                if \<not> ok then Inl InvalidPatch
                else parseVersionTail (zero_version\<lparr>major := mj, minor := mn, patch := pt\<rparr>) p)"

text \<open>The operator in front of a constraint and the rest of the string; \<open>*\<close> is handled by
  the caller.\<close>

definition constraintOperator :: "cstring \<Rightarrow> VersionConstraintType \<times> cstring" where
  "constraintOperator p =
     (if cur p = CHR ''^'' then (vcCaret, tl p)
      else if cur p = CHR ''~'' then (vcTilde, tl p)
      else if cur p = CHR ''>''
      then (if cur (tl p) = CHR ''='' then (vcGreaterEq, tl (tl p)) else (vcGreater, tl p))
      else if cur p = CHR ''<''
      then (if cur (tl p) = CHR ''='' then (vcLessEq, tl (tl p)) else (vcLess, tl p))
      else if CHR ''x'' \<in> set p \<or> CHR ''X'' \<in> set p \<or> CHR ''*'' \<in> set p then (vcWildcard, p)
      else (vcExact, p))"

definition isWild :: "char \<Rightarrow> bool" where
  "isWild c \<longleftrightarrow> c = CHR ''x'' \<or> c = CHR ''X'' \<or> c = CHR ''*''"

text \<open>The best-effort parse of a wildcard, whose failures are ignored.\<close>

definition parseWildcard :: "SemanticVersion \<Rightarrow> cstring \<Rightarrow> SemanticVersion" where
  "parseWildcard version v =
     (case parseNumber v (major version) of (_, v, mj) \<Rightarrow>
        let version = version\<lparr>major := mj\<rparr> in
        if cur v = CHR ''.'' \<and> \<not> isWild (cur (tl v))
        then (case parseNumber (tl v) (minor version) of (_, v, mn) \<Rightarrow>
                let version = version\<lparr>minor := mn\<rparr> in
                if cur v = CHR ''.'' \<and> \<not> isWild (cur (tl v))
                then (case parseNumber (tl v) (patch version) of (_, v, pt) \<Rightarrow> version\<lparr>patch := pt\<rparr>)
                else version)
        else version)"

definition parseVersionConstraint ::
  "cstring option \<Rightarrow> VersionConstraint \<Rightarrow> version_error + VersionConstraint" where
  "parseVersionConstraint str constraint =
     (if (case str of None \<Rightarrow> True | Some s \<Rightarrow> cur s = nul)
      then Inr (constraint\<lparr>vc_type := vcAny, vc_raw := str\<rparr>)
      else
        let constraint = zero_constraint\<lparr>vc_raw := str\<rparr>;
            p = dropWhile isspace (the str)
        in if cur p = CHR ''*'' then Inr (constraint\<lparr>vc_type := vcAny\<rparr>)
           else
             let (ty, p) = constraintOperator p;
                 constraint = constraint\<lparr>vc_type := ty\<rparr>;
                 p = dropWhile isspace p
             in if ty = vcWildcard
                then Inr (constraint\<lparr>vc_version := parseWildcard (vc_version constraint) p\<rparr>)
                else (case parseSemanticVersion (Some p) of
                        Inl e \<Rightarrow> Inl e
                      | Inr v \<Rightarrow> Inr (constraint\<lparr>vc_version := v\<rparr>)))"

definition compareSemanticVersions :: "SemanticVersion \<Rightarrow> SemanticVersion \<Rightarrow> int" where
  "compareSemanticVersions a b =
     (if major a < major b then -1
      else if major a > major b then 1
      else if minor a < minor b then -1
      else if minor a > minor b then 1
      else if patch a < patch b then -1
      else if patch a > patch b then 1
      else case (prerelease a, prerelease b) of
             (None, Some _) \<Rightarrow> 1
           | (Some _, None) \<Rightarrow> -1
           | (Some p, Some q) \<Rightarrow>
               (let cmp = strcmp_sgn p q in if cmp \<noteq> 0 then (if cmp < 0 then -1 else 1) else 0)
           | (None, None) \<Rightarrow> 0)"

definition versionSatisfiesConstraint :: "SemanticVersion \<Rightarrow> VersionConstraint \<Rightarrow> bool" where
  "versionSatisfiesConstraint version constraint =
     (let c = vc_version constraint; cmp = compareSemanticVersions version c
      in case vc_type constraint of
           vcExact \<Rightarrow> cmp = 0
         | vcCaret \<Rightarrow>
             if cmp < 0 then False
             else if major c > 0 then major version = major c
             else if minor c > 0 then major version = 0 \<and> minor version = minor c
             else major version = 0 \<and> minor version = 0 \<and> patch version = patch c
         | vcTilde \<Rightarrow>
             if cmp < 0 then False
             else major version = major c \<and> minor version = minor c
         | vcGreater \<Rightarrow> cmp > 0
         | vcGreaterEq \<Rightarrow> cmp \<ge> 0
         | vcLess \<Rightarrow> cmp < 0
         | vcLessEq \<Rightarrow> cmp \<le> 0
         | vcWildcard \<Rightarrow>
             if major version \<noteq> major c then False
             else if minor c > 0 then minor version = minor c
             else True
         | vcAny \<Rightarrow> True)"

section \<open>Scanning decimal numbers\<close>

definition dec_val :: "nat \<Rightarrow> cstring \<Rightarrow> nat" where
  "dec_val n ds = foldl (\<lambda>n c. n * 10 + digit_val c) n ds"

lemma dec_val_simps [simp]:
  "dec_val n [] = n" "dec_val n (c # ds) = dec_val (n * 10 + digit_val c) ds"
  by (simp_all add: dec_val_def)

lemma dec_val_mono: "n \<le> dec_val n ds"
proof (induction ds arbitrary: n)
  case (Cons c ds)
  have "n \<le> n * 10 + digit_val c" by simp
  also have "\<dots> \<le> dec_val (n * 10 + digit_val c) ds" by (rule Cons.IH)
  finally show ?case by simp
qed simp

lemma unat_digit: "isdigit c \<Longrightarrow> unat (of_nat (digit_val c) :: u32) = digit_val c"
  using digit_val_less [of c] by (simp add: unat_of_nat)

text \<open>The overflow test of the C code is exact.\<close>

lemma overflow_test:
  assumes "d < 10"
  shows "(num :: u32) > (0xFFFFFFFF - of_nat d) div 10 \<longleftrightarrow> unat num * 10 + d \<ge> 2 ^ 32"
proof -
  have d: "unat (of_nat d :: u32) = d" using assms by (simp add: unat_of_nat)
  then have le: "(of_nat d :: u32) \<le> 0xFFFFFFFF" using assms by (simp add: word_le_nat_alt)
  have "unat ((0xFFFFFFFF - of_nat d :: u32) div 10) = (4294967295 - d) div 10"
    using unat_sub [OF le] d by (simp add: unat_div)
  then have "num > (0xFFFFFFFF - of_nat d) div 10 \<longleftrightarrow> unat num > (4294967295 - d) div 10"
    by (simp add: word_less_nat_alt)
  then show ?thesis using assms by auto
qed

lemma unat_shift_digit:
  assumes "unat (num :: u32) * 10 + d < 2 ^ 32" "d < 10"
  shows "unat (num * 10 + of_nat d) = unat num * 10 + d"
  using assms by (simp add: unat_word_ariths unat_of_nat)

lemma parseNumberLoop_digits:
  assumes "\<And>c. c \<in> set ds \<Longrightarrow> isdigit c" and "\<not> isdigit (cur rest)"
  shows "if dec_val (unat num) ds < 2 ^ 32
         then parseNumberLoop (ds @ rest) num = (True, rest, of_nat (dec_val (unat num) ds))
         else fst (parseNumberLoop (ds @ rest) num) = False"
  using assms
proof (induction ds arbitrary: num)
  case Nil
  then show ?case by (cases rest) (auto simp: unat_of_nat)
next
  case (Cons c ds)
  then have c: "isdigit c" "digit_val c < 10" by (auto intro: digit_val_less)
  note test = overflow_test [OF c(2), of num]
  show ?case
  proof (cases "unat num * 10 + digit_val c < 2 ^ 32")
    case True
    note u = unat_shift_digit [OF True c(2)]
    from Cons.IH [of "num * 10 + of_nat (digit_val c)"] Cons.prems True test c u show ?thesis
      by (simp add: Let_def)
  next
    case False
    then have "\<not> dec_val (unat num * 10 + digit_val c) ds < 2 ^ 32"
      using dec_val_mono [of "unat num * 10 + digit_val c" ds] by linarith
    with False test c show ?thesis by (simp add: Let_def)
  qed
qed

lemma parseNumber_digits:
  assumes "ds \<noteq> []" "\<And>c. c \<in> set ds \<Longrightarrow> isdigit c" "\<not> isdigit (cur rest)" "dec_val 0 ds < 2 ^ 32"
  shows "parseNumber (ds @ rest) n = (True, rest, of_nat (dec_val 0 ds))"
  using parseNumberLoop_digits [of ds rest 0] assms by (cases ds) (auto simp: parseNumber_def)

text \<open>What \<open>printf\<close> writes for an unsigned number.\<close>

fun showu :: "nat \<Rightarrow> cstring" where
  "showu n = (if n < 10 then [digit_char n] else showu (n div 10) @ [digit_char (n mod 10)])"

declare showu.simps [simp del]

lemma showu_digits: "c \<in> set (showu n) \<Longrightarrow> isdigit c"
proof (induction n rule: showu.induct)
  case (1 n)
  then show ?case by (subst (asm) (2) showu.simps) (auto split: if_splits)
qed

lemma showu_nonempty [simp]: "showu n \<noteq> []"
  by (subst showu.simps) simp

lemma dec_val_append: "dec_val n (xs @ ys) = dec_val (dec_val n xs) ys"
  by (induction xs arbitrary: n) auto

lemma dec_val_showu [simp]: "dec_val 0 (showu n) = n"
proof (induction n rule: showu.induct)
  case (1 n)
  then show ?case by (subst showu.simps) (auto simp: dec_val_append)
qed

lemma parseNumber_showu:
  "\<not> isdigit (cur rest) \<Longrightarrow> parseNumber (showu (unat (x :: u32)) @ rest) n = (True, rest, x)"
  using parseNumber_digits [of "showu (unat x)" rest n] showu_digits [of _ "unat x"] by auto

section \<open>The comparison is a comparator\<close>

definition cmp_word :: "u32 \<Rightarrow> u32 \<Rightarrow> int" where
  "cmp_word a b = (if a < b then -1 else if a > b then 1 else 0)"

definition cmp_pre :: "cstring option \<Rightarrow> cstring option \<Rightarrow> int" where
  "cmp_pre a b = (case (a, b) of (None, Some _) \<Rightarrow> 1 | (Some _, None) \<Rightarrow> -1
     | (Some p, Some q) \<Rightarrow> strcmp_sgn p q | (None, None) \<Rightarrow> 0)"

interpretation word_cmp: comparator cmp_word
  by unfold_locales (auto simp: cmp_word_def split: if_splits)

interpretation pre_cmp: comparator cmp_pre
proof (unfold_locales, goal_cases)
  case (1 b a)
  show ?case by (cases a; cases b) (auto simp: cmp_pre_def intro: strcmp.neg)
next
  case (2 a b c)
  then show ?case by (auto simp: cmp_pre_def split: option.splits intro: strcmp.trans)
qed

definition cmp_then :: "int \<Rightarrow> int \<Rightarrow> int" where
  "cmp_then x y = (if x \<noteq> 0 then x else y)"

lemma strcmp_norm:
  "(let cmp = strcmp_sgn p q in if cmp \<noteq> 0 then (if cmp < 0 then -1 else 1) else 0) = strcmp_sgn p q"
  using strcmp_range [of p q] by auto

lemma compareSemanticVersions_lex:
  "compareSemanticVersions a b =
     cmp_then (cmp_word (major a) (major b))
      (cmp_then (cmp_word (minor a) (minor b))
        (cmp_then (cmp_word (patch a) (patch b)) (cmp_pre (prerelease a) (prerelease b))))"
proof -
  have "cmp_pre x y = (case (x, y) of (None, Some _) \<Rightarrow> 1 | (Some _, None) \<Rightarrow> -1
     | (Some p, Some q) \<Rightarrow> (let cmp = strcmp_sgn p q in if cmp \<noteq> 0 then (if cmp < 0 then -1 else 1) else 0)
     | (None, None) \<Rightarrow> 0)" for x y
    unfolding strcmp_norm by (simp add: cmp_pre_def)
  then show ?thesis
    unfolding compareSemanticVersions_def cmp_then_def cmp_word_def by simp
qed

interpretation version_cmp: comparator compareSemanticVersions
proof -
  have "comparator (\<lambda>a b :: SemanticVersion.
     cmp_then (cmp_word (major a) (major b))
      (cmp_then (cmp_word (minor a) (minor b))
        (cmp_then (cmp_word (patch a) (patch b)) (cmp_pre (prerelease a) (prerelease b)))))"
    unfolding cmp_then_def
    by (intro comparator.comparator_then word_cmp.comparator_on pre_cmp.comparator_on)
  then show "comparator compareSemanticVersions"
    by (simp add: compareSemanticVersions_lex [abs_def])
qed

lemma cmp_word_eq_0 [simp]: "cmp_word a b = 0 \<longleftrightarrow> a = b"
  by (auto simp: cmp_word_def)

lemma cmp_pre_eq_0 [simp]: "cmp_pre a b = 0 \<longleftrightarrow> a = b"
  by (auto simp: cmp_pre_def strcmp_eq_0 split: option.splits)

lemma compareSemanticVersions_eq_0:
  "compareSemanticVersions a b = 0 \<longleftrightarrow>
     major a = major b \<and> minor a = minor b \<and> patch a = patch b \<and> prerelease a = prerelease b"
  by (simp add: compareSemanticVersions_lex cmp_then_def)

lemma compareSemanticVersions_range: "compareSemanticVersions a b \<in> {-1, 0, 1}"
  using strcmp_range
  by (auto simp: compareSemanticVersions_lex cmp_then_def cmp_word_def cmp_pre_def split: option.splits)

section \<open>Properties\<close>

text \<open>C20: the version comparison is a total order: swapping the arguments negates the result,
  it is transitive, it answers 0 exactly for versions with the same numbers and
  prerelease, and a release is above its prereleases.\<close>

theorem compareSemanticVersions_total_order:
  "compareSemanticVersions b a = - compareSemanticVersions a b \<and>
   (compareSemanticVersions a b \<le> 0 \<and> compareSemanticVersions b c \<le> 0 \<longrightarrow> compareSemanticVersions a c \<le> 0) \<and>
   (compareSemanticVersions a b = 0 \<longleftrightarrow>
      major a = major b \<and> minor a = minor b \<and> patch a = patch b \<and> prerelease a = prerelease b) \<and>
   compareSemanticVersions a b \<in> {-1, 0, 1} \<and>
   compareSemanticVersions (a\<lparr>prerelease := Some p\<rparr>) (a\<lparr>prerelease := None\<rparr>) = -1"
proof (intro conjI)
  show "compareSemanticVersions b a = - compareSemanticVersions a b" by (rule version_cmp.neg)
  show "compareSemanticVersions a b \<le> 0 \<and> compareSemanticVersions b c \<le> 0 \<longrightarrow> compareSemanticVersions a c \<le> 0"
    using version_cmp.trans by blast
  show "compareSemanticVersions (a\<lparr>prerelease := Some p\<rparr>) (a\<lparr>prerelease := None\<rparr>) = -1"
    by (simp add: compareSemanticVersions_def)
qed (rule compareSemanticVersions_eq_0 compareSemanticVersions_range)+

theorem compareSemanticVersions_total_order_witness:
  "compareSemanticVersions (zero_version\<lparr>major := 1\<rparr>) (zero_version\<lparr>major := 3\<rparr>) \<le> 0"
proof -
  have "compareSemanticVersions (zero_version\<lparr>major := 1\<rparr>) (zero_version\<lparr>major := 2\<rparr>) \<le> 0"
      "compareSemanticVersions (zero_version\<lparr>major := 2\<rparr>) (zero_version\<lparr>major := 3\<rparr>) \<le> 0"
    by (simp_all add: compareSemanticVersions_def zero_version_def)
  then show ?thesis
    using compareSemanticVersions_total_order
      [where a = "zero_version\<lparr>major := 1\<rparr>" and b = "zero_version\<lparr>major := 2\<rparr>" and c = "zero_version\<lparr>major := 3\<rparr>"]
    by blast
qed

text \<open>The numbers of a version as a triple, and their lexicographic order.\<close>

definition numbers :: "SemanticVersion \<Rightarrow> nat \<times> nat \<times> nat" where
  "numbers v = (unat (major v), unat (minor v), unat (patch v))"

fun before :: "nat \<times> nat \<times> nat \<Rightarrow> nat \<times> nat \<times> nat \<Rightarrow> bool" where
  "before (a, b, c) (a', b', c') \<longleftrightarrow> a < a' \<or> a = a' \<and> (b < b' \<or> b = b' \<and> c < c')"

text \<open>The exclusive upper bounds that the comments of \<open>versionSatisfiesConstraint\<close> give.\<close>

definition caret_bound :: "SemanticVersion \<Rightarrow> nat \<times> nat \<times> nat" where
  "caret_bound c =
     (if major c > 0 then (unat (major c) + 1, 0, 0)
      else if minor c > 0 then (0, unat (minor c) + 1, 0)
      else (0, 0, unat (patch c) + 1))"

definition tilde_bound :: "SemanticVersion \<Rightarrow> nat \<times> nat \<times> nat" where
  "tilde_bound c = (unat (major c), unat (minor c) + 1, 0)"

definition wildcard_bound :: "SemanticVersion \<Rightarrow> nat \<times> nat \<times> nat" where
  "wildcard_bound c =
     (if minor c > 0 then (unat (major c), unat (minor c) + 1, 0) else (unat (major c) + 1, 0, 0))"

text \<open>The order of versions: by the numbers, then a prerelease before its release, then the
  prereleases in the dictionary order of their bytes.\<close>

definition precedes :: "SemanticVersion \<Rightarrow> SemanticVersion \<Rightarrow> bool" where
  "precedes a b \<longleftrightarrow> before (numbers a) (numbers b) \<or>
     numbers a = numbers b \<and>
       (case (prerelease a, prerelease b) of
          (Some p, Some q) \<Rightarrow> (p, q) \<in> lexord {(x, y). code x < (code y :: nat)}
        | (Some p, None) \<Rightarrow> True
        | _ \<Rightarrow> False)"

lemma strcmp_less_lexord: "strcmp_sgn p q < 0 \<longleftrightarrow> (p, q) \<in> lexord {(x, y). code x < (code y :: nat)}"
proof (induction p q rule: strcmp_sgn.induct)
  case (4 a as b bs)
  have "code a = (code b :: nat) \<longleftrightarrow> a = b" by simp
  with 4 show ?case by (auto simp: linorder_neq_iff)
qed auto

lemma compareSemanticVersions_precedes: "compareSemanticVersions a b < 0 \<longleftrightarrow> precedes a b"
  unfolding precedes_def numbers_def compareSemanticVersions_lex cmp_then_def cmp_word_def cmp_pre_def
  by (auto simp: word_less_nat_alt strcmp_less_lexord not_less split: option.splits)

lemma compareSemanticVersions_follows: "0 < compareSemanticVersions a b \<longleftrightarrow> precedes b a"
  using compareSemanticVersions_precedes [of b a] version_cmp.neg [of a b] by simp

lemma not_precedes_numbers: "\<not> precedes v c \<Longrightarrow> \<not> before (numbers v) (numbers c)"
  by (auto simp: precedes_def)

text \<open>C21: what every constraint operator accepts. No operator: the version with the same
  numbers and prerelease. The four comparisons: the versions on that side in the order of
  versions. A caret: the versions not below its version whose numbers are below the next
  breaking release (the next major, or the next minor under \<open>0.y\<close>, or the next patch under
  \<open>0.0.z\<close>). A tilde: those not below its version and below the next minor. A wildcard: the
  versions with its major and minor number, except that with minor number 0 every minor
  number is accepted (the comment in the code says \<open>1.0.x\<close> stops before 1.1.0). A star:
  every version.\<close>

theorem constraint_ranges:
  "versionSatisfiesConstraint v \<lparr>vc_type = ty, vc_version = c, vc_raw = r\<rparr> \<longleftrightarrow>
     (case ty of
        vcExact \<Rightarrow> numbers v = numbers c \<and> prerelease v = prerelease c
      | vcCaret \<Rightarrow> \<not> precedes v c \<and> before (numbers v) (caret_bound c)
      | vcTilde \<Rightarrow> \<not> precedes v c \<and> before (numbers v) (tilde_bound c)
      | vcGreater \<Rightarrow> precedes c v
      | vcGreaterEq \<Rightarrow> \<not> precedes v c
      | vcLess \<Rightarrow> precedes v c
      | vcLessEq \<Rightarrow> \<not> precedes c v
      | vcWildcard \<Rightarrow> \<not> before (numbers v) (unat (major c), unat (minor c), 0) \<and> before (numbers v) (wildcard_bound c)
      | vcAny \<Rightarrow> True)"
proof -
  note cmp = compareSemanticVersions_precedes compareSemanticVersions_follows
  have eq: "(x = y) = (unat x = unat y)" for x y :: u32 by (rule word_unat_eq_iff)
  have pos: "(0 < x) = (0 < unat x)" for x :: u32 by (simp add: word_less_nat_alt)
  have z: "(x = 0) = (unat x = 0)" for x :: u32 by (simp add: word_unat_eq_iff)
  have le: "(0 \<le> compareSemanticVersions v c) = (\<not> precedes v c)" "(compareSemanticVersions v c \<le> 0) = (\<not> precedes c v)"
    using cmp [of v c] by linarith+
  have up: "\<not> precedes v c \<Longrightarrow> \<not> before (numbers v) (numbers c)" by (rule not_precedes_numbers)
  note words = z eq [of "major v" "major c"] eq [of "minor v" "minor c"] eq [of "patch v" "patch c"]
  show ?thesis
  proof (cases ty)
    case vcExact
    then show ?thesis
      by (auto simp: versionSatisfiesConstraint_def compareSemanticVersions_eq_0 numbers_def word_unat_eq_iff)
  next
    case vcCaret
    then show ?thesis using up
      by (cases "precedes v c") (simp_all add: versionSatisfiesConstraint_def cmp numbers_def caret_bound_def pos words
          Let_def del: unat_eq_zero, linarith)
  next
    case vcTilde
    then show ?thesis using up
      by (cases "precedes v c") (simp_all add: versionSatisfiesConstraint_def cmp numbers_def tilde_bound_def pos words
          Let_def del: unat_eq_zero, linarith)
  next
    case vcWildcard
    then show ?thesis
      by (simp add: versionSatisfiesConstraint_def numbers_def wildcard_bound_def pos words Let_def del: unat_eq_zero) linarith
  qed (simp_all add: versionSatisfiesConstraint_def cmp le)
qed

text \<open>The number scanner is exact at 32 bits. On a non-empty run of digits followed by
  something else it succeeds exactly when the decimal value fits in 32 bits, and then
  returns that value and stops at the first non-digit; it never returns a wrapped value.\<close>

theorem parseNumber_exact:
  assumes "ds \<noteq> []" and "\<forall>c\<in>set ds. isdigit c" and "\<not> isdigit (cur rest)"
  shows "(fst (parseNumber (ds @ rest) n) \<longleftrightarrow> dec_val 0 ds < 2 ^ 32) \<and>
     (dec_val 0 ds < 2 ^ 32 \<longrightarrow>
        parseNumber (ds @ rest) n = (True, rest, of_nat (dec_val 0 ds)) \<and>
        unat (snd (snd (parseNumber (ds @ rest) n))) = dec_val 0 ds)"
proof -
  have "isdigit (cur (ds @ rest))" using assms by (cases ds) auto
  then have "parseNumber (ds @ rest) n = parseNumberLoop (ds @ rest) 0" by (simp add: parseNumber_def)
  with parseNumberLoop_digits [of ds rest 0] assms show ?thesis
    by (auto simp: unat_of_nat split: if_splits)
qed

theorem parseNumber_exact_witness:
  "parseNumber ''4294967295.1'' 0 = (True, ''.1'', 4294967295) \<and> \<not> fst (parseNumber ''4294967296.1'' 0)"
proof -
  have "fst (parseNumber (''4294967296'' @ ''.1'') 0) \<longleftrightarrow> dec_val 0 ''4294967296'' < 2 ^ 32"
    using parseNumber_exact [of "''4294967296''" "''.1''" 0] by (simp add: ctype_defs)
  moreover have "parseNumber (''4294967295'' @ ''.1'') 0 = (True, ''.1'', of_nat (dec_val 0 ''4294967295''))"
    using parseNumber_exact [of "''4294967295''" "''.1''" 0] by (simp add: ctype_defs digit_val_def)
  ultimately show ?thesis by (simp add: digit_val_def)
qed

text \<open>A version as text: the three numbers, then the optional parts.\<close>

definition formatNumbers :: "SemanticVersion \<Rightarrow> cstring" where
  "formatNumbers v = showu (unat (major v)) @ ''.'' @ showu (unat (minor v)) @ ''.'' @ showu (unat (patch v))"

definition formatVersion :: "SemanticVersion \<Rightarrow> cstring" where
  "formatVersion v = formatNumbers v @
     (case prerelease v of None \<Rightarrow> [] | Some p \<Rightarrow> CHR ''-'' # p) @
     (case build v of None \<Rightarrow> [] | Some b \<Rightarrow> CHR ''+'' # b)"

lemma cur_showu: "isdigit (cur (showu n @ r))"
  using showu_digits [of "cur (showu n @ r)" n] showu_nonempty [of n] by (cases "showu n") auto

lemma digit_not: "isdigit c \<Longrightarrow> c \<noteq> nul \<and> c \<noteq> CHR ''v'' \<and> c \<noteq> CHR ''V''"
  by (auto simp: ctype_defs nul_def)

lemma parse_numbers:
  assumes "\<not> isdigit (cur rest)"
  shows "parseSemanticVersion (Some (formatNumbers v @ rest)) =
     parseVersionTail (zero_version\<lparr>major := major v, minor := minor v, patch := patch v\<rparr>) rest"
proof -
  let ?s = "formatNumbers v @ rest"
  have "isdigit (cur ?s)" unfolding formatNumbers_def append_assoc by (rule cur_showu)
  then have ne: "cur ?s \<noteq> nul" "cur ?s \<noteq> CHR ''v''" "cur ?s \<noteq> CHR ''V''" using digit_not by blast+
  have dot: "\<not> isdigit (cur (''.'' @ x))" for x by (simp add: ctype_defs)
  have "parseNumber ?s 0 = (True, ''.'' @ showu (unat (minor v)) @ ''.'' @ showu (unat (patch v)) @ rest, major v)"
    unfolding formatNumbers_def append_assoc by (rule parseNumber_showu [OF dot])
  moreover have "parseNumber (showu (unat (minor v)) @ ''.'' @ showu (unat (patch v)) @ rest) 0
      = (True, ''.'' @ showu (unat (patch v)) @ rest, minor v)"
    by (rule parseNumber_showu [OF dot])
  moreover have "parseNumber (showu (unat (patch v)) @ rest) 0 = (True, rest, patch v)"
    by (rule parseNumber_showu [OF assms])
  ultimately show ?thesis using ne by (simp add: parseSemanticVersion_def Let_def)
qed

lemma parse_printed_version:
  assumes "prerelease v = None \<or> build v = None"
    and "\<forall>p. prerelease v = Some p \<longrightarrow> CHR ''+'' \<notin> set p \<and> nul \<notin> set p"
  shows "parseSemanticVersion (Some (formatVersion v)) = Inr v"
proof -
  let ?rest = "(case prerelease v of None \<Rightarrow> [] | Some p \<Rightarrow> CHR ''-'' # p) @
     (case build v of None \<Rightarrow> [] | Some b \<Rightarrow> CHR ''+'' # b)"
  have "\<not> isdigit (cur ?rest)"
    by (auto simp: ctype_defs nul_def split: option.splits)
  from parse_numbers [OF this] have "parseSemanticVersion (Some (formatVersion v))
      = parseVersionTail (zero_version\<lparr>major := major v, minor := minor v, patch := patch v\<rparr>) ?rest"
    by (simp add: formatVersion_def)
  also have "\<dots> = Inr v"
  proof (cases "prerelease v")
    case None
    then show ?thesis
      by (cases "build v") (auto simp: parseVersionTail_def zero_version_def nul_def)
  next
    case (Some p)
    with assms have plain: "CHR ''+'' \<notin> set p" "nul \<notin> set p" and none: "build v = None" by simp_all
    from plain have dw: "dropWhile (\<lambda>c. c \<noteq> nul \<and> c \<noteq> CHR ''+'') p = []"
      by (induction p) auto
    have "nul \<noteq> CHR ''+''" by (simp add: nul_def)
    with Some none show ?thesis by (simp add: parseVersionTail_def zero_version_def dw)
  qed
  finally show ?thesis .
qed

text \<open>C22: printing a version whose prerelease has no plus and no NUL byte and parsing it back
  gives the version, for all 32-bit numbers, unless it has both a prerelease and build
  metadata: then the numbers and the build metadata come back, and the prerelease comes back
  with the plus and the build metadata behind it, since the parser does not cut it there.\<close>

theorem parse_formatVersion:
  assumes "\<forall>p. prerelease v = Some p \<longrightarrow> CHR ''+'' \<notin> set p \<and> nul \<notin> set p"
  shows "parseSemanticVersion (Some (formatVersion v)) =
     (case (prerelease v, build v) of
        (Some p, Some b) \<Rightarrow> Inr (v\<lparr>prerelease := Some (p @ CHR ''+'' # b)\<rparr>)
      | _ \<Rightarrow> Inr v)"
proof (cases "prerelease v = None \<or> build v = None")
  case True
  from parse_printed_version [OF this assms] True show ?thesis by (auto split: option.splits)
next
  case False
  then obtain p b where pb: "prerelease v = Some p" "build v = Some b" by auto
  with assms have "dropWhile (\<lambda>c. c \<noteq> nul \<and> c \<noteq> CHR ''+'') (p @ CHR ''+'' # b) = CHR ''+'' # b"
    by (subst dropWhile_append2) auto
  moreover have "nul \<noteq> CHR ''+''" "\<not> isdigit CHR ''-''" by (simp_all add: nul_def ctype_defs)
  ultimately show ?thesis
    using pb parse_numbers [of "CHR ''-'' # p @ CHR ''+'' # b" v]
    by (simp add: formatVersion_def parseVersionTail_def zero_version_def)
qed

theorem parse_formatVersion_witness:
  "parseSemanticVersion (Some ''1.2.3-rc+7'') =
     Inr \<lparr>major = 1, minor = 2, patch = 3, prerelease = Some ''rc+7'', build = Some ''7''\<rparr>"
proof -
  let ?v = "\<lparr>major = 1, minor = 2, patch = 3, prerelease = Some ''rc'', build = Some ''7''\<rparr>"
  have "formatVersion ?v = ''1.2.3-rc+7''"
    by (simp add: formatVersion_def formatNumbers_def showu.simps digit_char_eval)
  then show ?thesis using parse_formatVersion [of ?v] by (simp add: nul_def)
qed

text \<open>Build metadata is not ignored when a prerelease is present: the prerelease pointer
  is not cut at the plus, so two versions that differ only in build metadata compare as
  different.\<close>

theorem build_metadata_after_prerelease_is_compared:
  "parseSemanticVersion (Some ''1.0.0-rc+1'') =
     Inr \<lparr>major = 1, minor = 0, patch = 0, prerelease = Some ''rc+1'', build = Some ''1''\<rparr> \<and>
   (\<exists>a b. parseSemanticVersion (Some ''1.0.0-rc+1'') = Inr a \<and>
          parseSemanticVersion (Some ''1.0.0-rc+2'') = Inr b \<and> compareSemanticVersions a b = -1)"
  by (simp add: parseSemanticVersion_def parseNumber_def parseVersionTail_def ctype_defs nul_def
      zero_version_def digit_val_def Let_def compareSemanticVersions_def)

section \<open>Parsing constraints\<close>

text \<open>The operators and the constraint types they stand for.\<close>

definition operators :: "(cstring \<times> VersionConstraintType) list" where
  "operators = [(''^'', vcCaret), (''~'', vcTilde), (''>='', vcGreaterEq), (''>'', vcGreater),
     (''<='', vcLessEq), (''<'', vcLess)]"

lemma dropWhile_spaces:
  "(\<And>c. c \<in> set sp \<Longrightarrow> isspace c) \<Longrightarrow> \<not> isspace (cur r) \<Longrightarrow> dropWhile isspace (sp @ r) = r"
  by (induction sp) (cases r, auto)

lemma constraintOperator_op:
  assumes "(op, ty) \<in> set operators" "cur r \<noteq> CHR ''=''"
  shows "constraintOperator (op @ r) = (ty, r)"
proof -
  have "\<forall>(op, ty) \<in> set operators. \<forall>r. cur r \<noteq> CHR ''='' \<longrightarrow> constraintOperator (op @ r) = (ty, r)"
    by (simp add: operators_def constraintOperator_def)
  with assms show ?thesis by blast
qed

lemma operators_start:
  assumes "(op, ty) \<in> set operators"
  shows "\<not> isspace (cur (op @ r))" "cur (op @ r) \<noteq> CHR ''*''" "cur (op @ r) \<noteq> nul" "ty \<noteq> vcWildcard" "op \<noteq> []"
proof -
  have "\<forall>(op, ty) \<in> set operators. \<not> isspace (cur op) \<and> cur op \<noteq> CHR ''*'' \<and> cur op \<noteq> nul \<and> ty \<noteq> vcWildcard \<and> op \<noteq> []"
    by (simp add: operators_def isspace_def in_range_def nul_def)
  with assms have "\<not> isspace (cur op) \<and> cur op \<noteq> CHR ''*'' \<and> cur op \<noteq> nul \<and> ty \<noteq> vcWildcard \<and> op \<noteq> []"
    by auto
  moreover from this have "cur (op @ r) = cur op" by (cases op) auto
  ultimately show "\<not> isspace (cur (op @ r))" "cur (op @ r) \<noteq> CHR ''*''" "cur (op @ r) \<noteq> nul" "ty \<noteq> vcWildcard" "op \<noteq> []"
    by simp_all
qed

text \<open>A constraint written as optional white space, one of the six operators, optional
  white space and a printed version (with at most one of prerelease and build metadata) is
  parsed to that operator and that version.\<close>

theorem parseVersionConstraint_operator:
  assumes op: "(op, ty) \<in> set operators"
    and sp: "\<forall>c\<in>set sp. isspace c" "\<forall>c\<in>set sp'. isspace c"
    and v: "prerelease v = None \<or> build v = None"
      "\<forall>p. prerelease v = Some p \<longrightarrow> CHR ''+'' \<notin> set p \<and> nul \<notin> set p"
  shows "parseVersionConstraint (Some (sp @ op @ sp' @ formatVersion v)) k =
     Inr \<lparr>vc_type = ty, vc_version = v, vc_raw = Some (sp @ op @ sp' @ formatVersion v)\<rparr>"
proof -
  let ?s = "sp @ op @ sp' @ formatVersion v"
  note st = operators_start [OF op]
  have d: "isdigit (cur (formatVersion v))"
    unfolding formatVersion_def formatNumbers_def append_assoc by (rule cur_showu)
  then have nsp: "\<not> isspace (cur (formatVersion v))" by (auto simp: ctype_defs)
  have eq: "\<not> isdigit CHR ''=''" "\<not> isspace CHR ''=''" by (simp_all add: ctype_defs)
  have start: "cur (sp' @ formatVersion v) \<noteq> CHR ''=''"
  proof (cases sp')
    case Nil
    with d eq show ?thesis by (metis append_Nil)
  next
    case (Cons c cs)
    with sp(2) eq show ?thesis by (metis append_Cons cur_simps(2) list.set_intros(1))
  qed
  have dw: "dropWhile isspace ?s = op @ sp' @ formatVersion v"
    using sp st by (intro dropWhile_spaces) auto
  have dw': "dropWhile isspace (sp' @ formatVersion v) = formatVersion v"
    using sp nsp by (intro dropWhile_spaces) auto
  have ne: "(cur ?s = nul) = False" using st sp(1) by (cases sp) auto
  have star: "(cur (op @ sp' @ formatVersion v) = CHR ''*'') = False" and ty: "(ty = vcWildcard) = False"
    using st by auto
  show ?thesis
    unfolding parseVersionConstraint_def option.case ne if_False Let_def option.sel dw star
      constraintOperator_op [OF op start] prod.case dw' ty parse_printed_version [OF v] sum.case
    by (simp add: zero_constraint_def)
qed

theorem parseVersionConstraint_operator_witness:
  "parseVersionConstraint (Some ('' >= 1.2.0'')) zero_constraint =
     Inr \<lparr>vc_type = vcGreaterEq,
          vc_version = \<lparr>major = 1, minor = 2, patch = 0, prerelease = None, build = None\<rparr>,
          vc_raw = Some '' >= 1.2.0''\<rparr>"
proof -
  let ?v = "\<lparr>major = 1, minor = 2, patch = 0, prerelease = None, build = None\<rparr>"
  have "formatVersion ?v = ''1.2.0''"
    by (simp add: formatVersion_def formatNumbers_def showu.simps digit_char_eval)
  then show ?thesis
    using parseVersionConstraint_operator [of "''>=''" vcGreaterEq "'' ''" "'' ''" ?v zero_constraint]
    by (simp add: operators_def ctype_defs)
qed

lemmas version_eval = parseVersionConstraint_def constraintOperator_def parseWildcard_def
  parseSemanticVersion_def parseNumber_def parseVersionTail_def isWild_def ctype_defs nul_def
  zero_version_def zero_constraint_def digit_val_def Let_def compareSemanticVersions_def
  versionSatisfiesConstraint_def

text \<open>A wildcard under minor version 0 accepts every minor version: \<open>1.0.x\<close> is meant as
  \<open>>=1.0.0 <1.1.0\<close> but accepts 1.9.0.\<close>

theorem wildcard_minor_zero_accepts_all:
  "\<exists>k. parseVersionConstraint (Some ''1.0.x'') zero_constraint = Inr k \<and> vc_type k = vcWildcard \<and>
     (\<forall>v. versionSatisfiesConstraint v k \<longleftrightarrow> major v = 1)"
  by (simp add: version_eval)

text \<open>An exact constraint whose prerelease contains the letter x is read as a wildcard:
  \<open>1.0.0-next\<close> accepts every version with major number 1, not only itself.\<close>

theorem exact_constraint_with_x_is_wildcard:
  "\<exists>k. parseVersionConstraint (Some ''1.0.0-next'') zero_constraint = Inr k \<and> vc_type k = vcWildcard \<and>
     (\<forall>v. versionSatisfiesConstraint v k \<longleftrightarrow> major v = 1)"
  by (simp add: version_eval)

end
