(* ===== verification/Cxy_Resolver.thy ===== *)
theory Cxy_Resolver
  imports Cxy_SemVer "HOL-Library.Multiset"
begin

text \<open>
  Dependency resolution of the package manager (\<open>package/resolver.c\<close> and the tag listing
  of \<open>package/gitops.c\<close>): the parsing and sorting of the tags of a repository, the choice of
  a version, the recursive resolution with its conflict records, and the lock file, whose YAML
  events are handed to libyaml's emitter and read back from its parser by a state machine.

  What the code obtains from outside is a record of functions: the package file found at a
  path, the output of \<open>git ls-remote\<close> for a repository, and the C library's \<open>qsort\<close>, of
  which only the documented contract is used (a sorted permutation, in no particular order
  on ties); for the lock file, whether it can be created and libyaml's emitter and parser.
  The prerelease and build parts of a parsed version are pointers into the text parsed. For
  the tags and for the versions of a lock file that text is freed before they are read, so
  what is found behind such a pointer is a function of the environment too. The recursion over local packages follows files that may refer to each other, so
  it takes fuel; \<open>None\<close> is running out of it.
\<close>

record PackageDependency =
  dep_name :: cstring
  dep_repository :: "cstring option"
  dep_version :: "cstring option"
  dep_tag :: "cstring option"
  dep_branch :: "cstring option"
  dep_path :: "cstring option"
  dep_isDev :: bool

text \<open>The fields of \<open>PackageMetadata\<close> that the resolution reads.\<close>

record PackageMetadata =
  meta_name :: cstring
  meta_dependencies :: "PackageDependency list"
  meta_devDependencies :: "PackageDependency list"

record GitTag =
  tag_name :: cstring
  tag_commit :: cstring
  tag_version :: SemanticVersion

record ResolvedDependency =
  rd_name :: "cstring option"
  rd_repository :: "cstring option"
  rd_version :: SemanticVersion
  rd_tag :: "cstring option"
  rd_commit :: "cstring option"
  rd_checksum :: "cstring option"
  rd_isDev :: bool

record VersionConflict =
  packageName :: cstring
  constraints :: "VersionConstraint list"
  requestedBy :: "cstring list"

record ResolverContext =
  resolved :: "ResolvedDependency list"
  conflicts :: "VersionConflict list"
  allowPrerelease :: bool
  allowDevDeps :: bool

datatype resolver_error =
  InvalidConstraint cstring
| Conflicting cstring
| NoRepository cstring
| NoVersion cstring
| ConflictsRecorded

record resolver_env =
  findAndLoadCxyfile :: "cstring \<Rightarrow> PackageMetadata option"
  lsRemoteTags :: "cstring \<Rightarrow> cstring option"
  qsortTags :: "GitTag list \<Rightarrow> GitTag list"
  freedText :: "cstring \<Rightarrow> cstring"

definition initResolverContext :: ResolverContext where
  "initResolverContext = \<lparr>resolved = [], conflicts = [], allowPrerelease = False, allowDevDeps = True\<rparr>"

section \<open>Tags\<close>

definition compareGitTagsByVersion :: "GitTag \<Rightarrow> GitTag \<Rightarrow> int" where
  "compareGitTagsByVersion a b = compareSemanticVersions (tag_version a) (tag_version b)"

interpretation tag_cmp: comparator compareGitTagsByVersion
  unfolding compareGitTagsByVersion_def by (rule version_cmp.comparator_on)

text \<open>The tokens of \<open>strtok\<close> with the newline as the only delimiter.\<close>

function strtokLines :: "cstring \<Rightarrow> cstring list" where
  "strtokLines s =
     (let s = dropWhile (\<lambda>c. c = CHR 0x0A) s
      in if s = [] then []
         else takeWhile (\<lambda>c. c \<noteq> CHR 0x0A) s # strtokLines (dropWhile (\<lambda>c. c \<noteq> CHR 0x0A) s))"
  by pat_completeness auto
termination
proof (relation "measure length", goal_cases)
  case (2 s x)
  then have "hd x \<noteq> CHR 0x0A" using hd_dropWhile [of "\<lambda>c. c = CHR 0x0A" s] by simp
  moreover obtain y ys where "x = y # ys" using 2(2) by (cases x) simp_all
  ultimately have "length (dropWhile (\<lambda>c. c \<noteq> CHR 0x0A) x) < length x"
    by (simp add: le_imp_less_Suc length_dropWhile_le)
  with 2 show ?case using length_dropWhile_le [of "\<lambda>c. c = CHR 0x0A" s] by simp
qed simp

declare strtokLines.simps [simp del]

text \<open>One line of the listing: the commit, a tab, and the reference.\<close>

definition parseTagLine :: "cstring \<Rightarrow> GitTag option" where
  "parseTagLine line =
     (if CHR 0x09 \<notin> set line then None
      else let commit = takeWhile (\<lambda>c. c \<noteq> CHR 0x09) line;
               ref = tl (dropWhile (\<lambda>c. c \<noteq> CHR 0x09) line)
           in if take 10 ref \<noteq> ''refs/tags/'' then None
              else let tagName = drop 10 ref;
                       versionStr = (if cur tagName = CHR ''v'' \<or> cur tagName = CHR ''V'' then tl tagName else tagName)
                   in case parseSemanticVersion (Some versionStr) of
                        Inl _ \<Rightarrow> None
                      | Inr version \<Rightarrow> Some \<lparr>tag_name = tagName, tag_commit = commit, tag_version = version\<rparr>)"

definition parseTags :: "cstring \<Rightarrow> GitTag list" where
  "parseTags output = List.map_filter parseTagLine (strtokLines output)"

text \<open>A version whose text has been freed: what is read through its pointers is no longer the
  text that was there.\<close>

definition staleVersion :: "(cstring \<Rightarrow> cstring) \<Rightarrow> SemanticVersion \<Rightarrow> SemanticVersion" where
  "staleVersion freed v = v\<lparr>prerelease := map_option freed (prerelease v), build := map_option freed (build v)\<rparr>"

definition gitFetchTags :: "resolver_env \<Rightarrow> cstring \<Rightarrow> GitTag list option" where
  "gitFetchTags env repositoryUrl =
     (if cur repositoryUrl = nul then None
      else case lsRemoteTags env repositoryUrl of
             None \<Rightarrow> None
           | Some output \<Rightarrow>
               let tags = map (\<lambda>tag. tag\<lparr>tag_version := staleVersion (freedText env) (tag_version tag)\<rparr>) (parseTags output)
               in Some (if length tags > 1 then qsortTags env tags else tags))"

definition gitGetLatestTag :: "resolver_env \<Rightarrow> cstring \<Rightarrow> GitTag option" where
  "gitGetLatestTag env repositoryUrl =
     (case gitFetchTags env repositoryUrl of
        None \<Rightarrow> None
      | Some tags \<Rightarrow> if tags = [] then None else Some (tags ! (length tags - 1)))"

section \<open>Choosing a version\<close>

fun isDependencyResolved :: "ResolvedDependency list \<Rightarrow> cstring \<Rightarrow> ResolvedDependency option" where
  "isDependencyResolved [] name = None"
| "isDependencyResolved (dep # deps) name =
     (if rd_name dep = Some name then Some dep else isDependencyResolved deps name)"

fun satisfiesAll :: "SemanticVersion \<Rightarrow> VersionConstraint list \<Rightarrow> bool" where
  "satisfiesAll version [] = True"
| "satisfiesAll version (constraint # cs) =
     (if vc_type constraint = vcAny then satisfiesAll version cs
      else if \<not> versionSatisfiesConstraint version constraint then False
      else satisfiesAll version cs)"

text \<open>The loop from the last tag down: \<open>i\<close> is one more than the index of the tag tried next.\<close>

fun selectTag :: "GitTag list \<Rightarrow> VersionConstraint list \<Rightarrow> nat \<Rightarrow> GitTag option" where
  "selectTag tags cs 0 = None"
| "selectTag tags cs (Suc i) =
     (let tag = tags ! i in if satisfiesAll (tag_version tag) cs then Some tag else selectTag tags cs i)"

definition findBestMatchingVersion :: "resolver_env \<Rightarrow> cstring \<Rightarrow> VersionConstraint list \<Rightarrow> GitTag option" where
  "findBestMatchingVersion env repository cs =
     (case gitFetchTags env repository of
        None \<Rightarrow> None
      | Some tags \<Rightarrow> if length tags = 0 then None else selectTag tags cs (length tags))"

fun addToConflict ::
  "VersionConflict list \<Rightarrow> cstring \<Rightarrow> VersionConstraint \<Rightarrow> cstring \<Rightarrow> VersionConflict list option" where
  "addToConflict [] name constraint requester = None"
| "addToConflict (conflict # cs) name constraint requester =
     (if packageName conflict = name
      then Some (conflict\<lparr>constraints := constraints conflict @ [constraint],
                          requestedBy := requestedBy conflict @ [requester]\<rparr> # cs)
      else map_option ((#) conflict) (addToConflict cs name constraint requester))"

definition addVersionConflict ::
  "ResolverContext \<Rightarrow> cstring \<Rightarrow> VersionConstraint \<Rightarrow> cstring \<Rightarrow> ResolverContext" where
  "addVersionConflict ctx name constraint requester =
     (case addToConflict (conflicts ctx) name constraint requester of
        Some cs \<Rightarrow> ctx\<lparr>conflicts := cs\<rparr>
      | None \<Rightarrow> ctx\<lparr>conflicts := conflicts ctx @
          [\<lparr>packageName = name, constraints = [constraint], requestedBy = [requester]\<rparr>]\<rparr>)"

section \<open>Resolution\<close>

definition present :: "cstring option \<Rightarrow> bool" where
  "present s \<longleftrightarrow> s \<noteq> None \<and> s \<noteq> Some []"

definition pushResolved :: "ResolverContext \<Rightarrow> ResolvedDependency \<Rightarrow> ResolverContext" where
  "pushResolved ctx r = ctx\<lparr>resolved := resolved ctx @ [r]\<rparr>"

type_synonym resolve_result = "(resolver_error \<times> ResolverContext + ResolverContext) option"

text \<open>The branches of \<open>resolveDependency\<close> after the one for a local path.\<close>

definition resolveRemote ::
  "resolver_env \<Rightarrow> ResolverContext \<Rightarrow> PackageDependency \<Rightarrow> VersionConstraint
     \<Rightarrow> resolver_error \<times> ResolverContext + ResolverContext" where
  "resolveRemote env ctx dep constraint =
     (if \<not> present (dep_repository dep) then Inl (NoRepository (dep_name dep), ctx)
      else if present (dep_tag dep)
      then Inr (pushResolved ctx \<lparr>rd_name = Some (dep_name dep), rd_repository = dep_repository dep,
             rd_version = (case parseSemanticVersion (dep_tag dep) of Inl _ \<Rightarrow> zero_version | Inr v \<Rightarrow> v),
             rd_tag = dep_tag dep, rd_commit = None, rd_checksum = None, rd_isDev = dep_isDev dep\<rparr>)
      else (case findBestMatchingVersion env (the (dep_repository dep)) [constraint] of
              None \<Rightarrow> Inl (NoVersion (dep_name dep), ctx)
            | Some bestTag \<Rightarrow>
                Inr (pushResolved ctx \<lparr>rd_name = Some (dep_name dep), rd_repository = dep_repository dep,
                  rd_version = tag_version bestTag, rd_tag = Some (tag_name bestTag),
                  rd_commit = Some (tag_commit bestTag), rd_checksum = None, rd_isDev = dep_isDev dep\<rparr>)))"

text \<open>The three loops over dependencies (of a loaded package file, and the regular and the
  development dependencies of the package itself) have the same body, \<open>resolveLoop\<close>. The
  constraint is an uninitialised local of the loop body; the parser leaves its version
  unset only for \<open>vcAny\<close>, for which nothing reads it.\<close>

fun resolveDependency ::
    "resolver_env \<Rightarrow> nat \<Rightarrow> ResolverContext \<Rightarrow> PackageDependency \<Rightarrow> cstring \<Rightarrow> VersionConstraint \<Rightarrow> resolve_result"
  and resolveTransitiveDependencies ::
    "resolver_env \<Rightarrow> nat \<Rightarrow> ResolverContext \<Rightarrow> cstring \<Rightarrow> cstring \<Rightarrow> resolve_result"
  and resolveLoop ::
    "resolver_env \<Rightarrow> nat \<Rightarrow> ResolverContext \<Rightarrow> PackageDependency list \<Rightarrow> cstring \<Rightarrow> resolve_result" where
  "resolveDependency env fuel ctx dep requester constraint =
     (case isDependencyResolved (resolved ctx) (dep_name dep) of
        Some existing \<Rightarrow>
          if vc_type constraint \<noteq> vcAny \<and> \<not> versionSatisfiesConstraint (rd_version existing) constraint
          then Some (Inl (Conflicting (dep_name dep), addVersionConflict ctx (dep_name dep) constraint requester))
          else Some (Inr ctx)
      | None \<Rightarrow>
          if present (dep_path dep)
          then resolveTransitiveDependencies env fuel
                 (pushResolved ctx \<lparr>rd_name = Some (dep_name dep), rd_repository = None, rd_version = zero_version,
                    rd_tag = None, rd_commit = None, rd_checksum = None, rd_isDev = dep_isDev dep\<rparr>)
                 (the (dep_path dep)) (dep_name dep)
          else Some (resolveRemote env ctx dep constraint))"
| "resolveTransitiveDependencies env 0 ctx packagePath name = None"
| "resolveTransitiveDependencies env (Suc fuel) ctx packagePath name =
     (case findAndLoadCxyfile env packagePath of
        None \<Rightarrow> Some (Inr ctx)
      | Some meta \<Rightarrow> resolveLoop env fuel ctx (meta_dependencies meta) name)"
| "resolveLoop env fuel ctx [] requester = Some (Inr ctx)"
| "resolveLoop env fuel ctx (dep # deps) requester =
     (case parseVersionConstraint (dep_version dep) zero_constraint of
        Inl _ \<Rightarrow> Some (Inl (InvalidConstraint (dep_name dep), ctx))
      | Inr constraint \<Rightarrow>
          (case resolveDependency env fuel ctx dep requester constraint of
             Some (Inr ctx) \<Rightarrow> resolveLoop env fuel ctx deps requester
           | r \<Rightarrow> r))"

declare resolveDependency.simps [simp del]

definition resolveDependencies :: "resolver_env \<Rightarrow> nat \<Rightarrow> ResolverContext \<Rightarrow> PackageMetadata \<Rightarrow> resolve_result" where
  "resolveDependencies env fuel ctx meta =
     (case resolveLoop env fuel ctx (meta_dependencies meta) (meta_name meta) of
        Some (Inr ctx) \<Rightarrow>
          (case (if allowDevDeps ctx then resolveLoop env fuel ctx (meta_devDependencies meta) (meta_name meta)
                 else Some (Inr ctx)) of
             Some (Inr ctx) \<Rightarrow>
               if length (conflicts ctx) > 0 then Some (Inl (ConflictsRecorded, ctx)) else Some (Inr ctx)
           | r \<Rightarrow> r)
      | r \<Rightarrow> r)"

section \<open>The lock file\<close>

text \<open>The YAML events handed to the emitter and returned by the parser of libyaml. A stream
  that ends without \<open>StreamEnd\<close> stands for one at whose end the parser reports an error.\<close>

datatype yaml_event =
  StreamStart | StreamEnd | DocumentStart | DocumentEnd | MappingStart | MappingEnd
| SequenceStart | SequenceEnd | Scalar cstring | Alias cstring

definition emitOptional :: "cstring \<Rightarrow> cstring option \<Rightarrow> yaml_event list" where
  "emitOptional key field = (case field of None \<Rightarrow> [] | Some value \<Rightarrow> [Scalar key, Scalar value])"

text \<open>The name is not tested for \<open>NULL\<close>.\<close>

definition emitResolvedDependency :: "ResolvedDependency \<Rightarrow> yaml_event list" where
  "emitResolvedDependency dep =
     [MappingStart, Scalar ''name'', Scalar (the (rd_name dep))] @
     emitOptional ''repository'' (rd_repository dep) @
     [Scalar ''version'', Scalar (formatNumbers (rd_version dep))] @
     emitOptional ''tag'' (rd_tag dep) @
     emitOptional ''commit'' (rd_commit dep) @
     emitOptional ''checksum'' (rd_checksum dep) @
     [MappingEnd]"

definition lockEvents :: "ResolverContext \<Rightarrow> yaml_event list" where
  "lockEvents ctx =
     [StreamStart, DocumentStart, MappingStart, Scalar ''dependencies'', SequenceStart] @
     concat (map emitResolvedDependency (filter (\<lambda>dep. \<not> rd_isDev dep) (resolved ctx))) @
     [SequenceEnd] @
     (if list_ex rd_isDev (resolved ctx)
      then [Scalar ''devDependencies'', SequenceStart] @
           concat (map emitResolvedDependency (filter rd_isDev (resolved ctx))) @ [SequenceEnd]
      else []) @
     [MappingEnd, DocumentEnd, StreamEnd]"

text \<open>The file system and libyaml, as far as the lock file needs them: whether \<open>fopen\<close> can
  create a file, whether the emitter accepts all of a sequence of events and the text it has
  then written, the events the parser reads from a text, and what is found behind a pointer
  into a scalar whose event was deleted.\<close>

record lock_env =
  canCreate :: "cstring \<Rightarrow> bool"
  emitYaml :: "yaml_event list \<Rightarrow> bool \<times> cstring"
  parseYaml :: "cstring \<Rightarrow> yaml_event list"
  freedScalar :: "cstring \<Rightarrow> cstring"

text \<open>The files by path, with their texts.\<close>

type_synonym files = "cstring \<rightharpoonup> cstring"

definition generateLockFile :: "lock_env \<Rightarrow> files \<Rightarrow> ResolverContext \<Rightarrow> cstring \<Rightarrow> bool \<times> files" where
  "generateLockFile lenv files ctx lockFilePath =
     (if \<not> canCreate lenv lockFilePath then (False, files)
      else case emitYaml lenv (lockEvents ctx) of (ok, written) \<Rightarrow> (ok, files(lockFilePath \<mapsto> written)))"

text \<open>What a failing \<open>parseSemanticVersion\<close> leaves in the version it was given.\<close>

definition versionAfterFailure :: "SemanticVersion \<Rightarrow> cstring \<Rightarrow> SemanticVersion" where
  "versionAfterFailure version str =
     (if cur str = nul then version
      else let p = (if cur str = CHR ''v'' \<or> cur str = CHR ''V'' then tl str else str)
      in case parseNumber p 0 of (ok, p, mj) \<Rightarrow>
        let version = zero_version\<lparr>major := mj\<rparr>
        in if \<not> ok \<or> cur p \<noteq> CHR ''.'' then version
           else case parseNumber (tl p) 0 of (ok, p, mn) \<Rightarrow>
             let version = version\<lparr>minor := mn\<rparr>
             in if \<not> ok \<or> cur p \<noteq> CHR ''.'' then version
                else case parseNumber (tl p) 0 of (ok, p, pt) \<Rightarrow> version\<lparr>patch := pt\<rparr>)"

record lock_state =
  inDependencies :: bool
  inDevDependencies :: bool
  inDependencyMap :: bool
  currentDep :: ResolvedDependency
  currentKey :: "cstring option"
  loaded :: "ResolvedDependency list"

definition emptyDep :: "bool \<Rightarrow> ResolvedDependency" where
  "emptyDep dev = \<lparr>rd_name = None, rd_repository = None, rd_version = zero_version, rd_tag = None,
     rd_commit = None, rd_checksum = None, rd_isDev = dev\<rparr>"

definition setLockField ::
  "(cstring \<Rightarrow> cstring) \<Rightarrow> cstring \<Rightarrow> cstring \<Rightarrow> ResolvedDependency \<Rightarrow> ResolvedDependency" where
  "setLockField freed key value dep =
     (if key = ''name'' then dep\<lparr>rd_name := Some value\<rparr>
      else if key = ''repository'' then dep\<lparr>rd_repository := Some value\<rparr>
      else if key = ''version''
      then dep\<lparr>rd_version := (case parseSemanticVersion (Some value) of
                                 Inl _ \<Rightarrow> versionAfterFailure (rd_version dep) value
                               | Inr v \<Rightarrow> staleVersion freed v)\<rparr>
      else if key = ''tag'' then dep\<lparr>rd_tag := Some value\<rparr>
      else if key = ''commit'' then dep\<lparr>rd_commit := Some value\<rparr>
      else if key = ''checksum'' then dep\<lparr>rd_checksum := Some value\<rparr>
      else dep)"

fun lockEvent :: "(cstring \<Rightarrow> cstring) \<Rightarrow> yaml_event \<Rightarrow> lock_state \<Rightarrow> lock_state" where
  "lockEvent freed MappingStart st =
     (if inDependencies st \<or> inDevDependencies st
      then st\<lparr>inDependencyMap := True, currentDep := emptyDep (inDevDependencies st)\<rparr>
      else st)"
| "lockEvent freed MappingEnd st =
     (if inDependencyMap st then st\<lparr>loaded := loaded st @ [currentDep st], inDependencyMap := False\<rparr> else st)"
| "lockEvent freed SequenceEnd st =
     (if inDependencies st then st\<lparr>inDependencies := False\<rparr>
      else if inDevDependencies st then st\<lparr>inDevDependencies := False\<rparr>
      else st)"
| "lockEvent freed (Scalar value) st =
     (if \<not> inDependencies st \<and> \<not> inDevDependencies st
      then (if value = ''dependencies'' then st\<lparr>inDependencies := True\<rparr>
            else if value = ''devDependencies'' then st\<lparr>inDevDependencies := True\<rparr>
            else st)
      else if inDependencyMap st
      then (case currentKey st of
              None \<Rightarrow> st\<lparr>currentKey := Some value\<rparr>
            | Some key \<Rightarrow> st\<lparr>currentDep := setLockField freed key value (currentDep st), currentKey := None\<rparr>)
      else st)"
| "lockEvent freed _ st = st"

fun lockLoop :: "(cstring \<Rightarrow> cstring) \<Rightarrow> yaml_event list \<Rightarrow> lock_state \<Rightarrow> bool \<times> lock_state" where
  "lockLoop freed [] st = (False, st)"
| "lockLoop freed (event # events) st = (if event = StreamEnd then (True, st) else lockLoop freed events (lockEvent freed event st))"

text \<open>The result is the returned flag and the context; a file that cannot be opened is no file.\<close>

definition loadLockFile :: "lock_env \<Rightarrow> files \<Rightarrow> cstring \<Rightarrow> ResolverContext \<Rightarrow> bool \<times> ResolverContext" where
  "loadLockFile lenv files lockFilePath ctx =
     (case files lockFilePath of
        None \<Rightarrow> (False, ctx)
      | Some contents \<Rightarrow>
          (case lockLoop (freedScalar lenv) (parseYaml lenv contents)
                  \<lparr>inDependencies = False, inDevDependencies = False, inDependencyMap = False,
                   currentDep = emptyDep False, currentKey = None, loaded = resolved ctx\<rparr> of
             (success, st) \<Rightarrow> (success, ctx\<lparr>resolved := loaded st\<rparr>)))"

text \<open>The state of the installed packages: the directories, the package files, and what git
  and the checksum of the contents say; the latter two may fail.\<close>

record install_env =
  isDirectory :: "cstring \<Rightarrow> bool"
  isRegularFile :: "cstring \<Rightarrow> bool"
  gitGetCurrentCommit :: "cstring \<Rightarrow> cstring option"
  gitCalculateChecksum :: "cstring \<Rightarrow> cstring option"

definition verifyInstalledPackage :: "install_env \<Rightarrow> ResolvedDependency \<Rightarrow> cstring \<Rightarrow> bool" where
  "verifyInstalledPackage ienv dep packagesDir =
     (let packagePath = take 1023 (packagesDir @ ''/'' @ the (rd_name dep));
          cxyfilePath = take 1023 (packagePath @ ''/Cxyfile.yaml'')
      in if \<not> isDirectory ienv packagePath then False
         else if \<not> isRegularFile ienv cxyfilePath then False
         else
           let verified = True;
               verified = (if rd_commit dep \<noteq> None \<and> rd_repository dep \<noteq> None
                           then (case gitGetCurrentCommit ienv packagePath of
                                   Some actual \<Rightarrow> if rd_commit dep \<noteq> Some actual then False else verified
                                 | None \<Rightarrow> verified)
                           else verified);
               verified = (if rd_checksum dep \<noteq> None
                           then (case gitCalculateChecksum ienv packagePath of
                                   Some actual \<Rightarrow> if rd_checksum dep \<noteq> Some actual then False else verified
                                 | None \<Rightarrow> verified)
                           else verified)
           in verified)"

fun verifyLoop :: "install_env \<Rightarrow> cstring \<Rightarrow> ResolvedDependency list \<Rightarrow> bool \<Rightarrow> bool" where
  "verifyLoop ienv packagesDir [] allVerified = allVerified"
| "verifyLoop ienv packagesDir (dep # deps) allVerified =
     verifyLoop ienv packagesDir deps
       (if verifyInstalledPackage ienv dep packagesDir then allVerified else False)"

definition verifyLockFile :: "lock_env \<Rightarrow> files \<Rightarrow> install_env \<Rightarrow> cstring \<Rightarrow> cstring \<Rightarrow> bool" where
  "verifyLockFile lenv files ienv lockFilePath packagesDir =
     (case loadLockFile lenv files lockFilePath initResolverContext of (ok, ctx) \<Rightarrow>
        if \<not> ok then False
        else if length (resolved ctx) = 0 then True
        else verifyLoop ienv packagesDir (resolved ctx) True)"

section \<open>The chosen version is the greatest that satisfies the constraints\<close>

text \<open>What the C standard promises of \<open>qsort\<close>.\<close>

definition sorts :: "('a \<Rightarrow> 'a \<Rightarrow> int) \<Rightarrow> ('a list \<Rightarrow> 'a list) \<Rightarrow> bool" where
  "sorts cmp q \<longleftrightarrow> (\<forall>xs. mset (q xs) = mset xs \<and> sorted_wrt (\<lambda>a b. cmp a b \<le> 0) (q xs))"

text \<open>A listing in which no version has a prerelease or build part holds no pointer that
  outlives the listing.\<close>

definition releases_only :: "cstring \<Rightarrow> bool" where
  "releases_only listing \<longleftrightarrow>
     (\<forall>t\<in>set (parseTags listing). prerelease (tag_version t) = None \<and> build (tag_version t) = None)"

lemma staleVersion_release [simp]: "prerelease v = None \<Longrightarrow> build v = None \<Longrightarrow> staleVersion freed v = v"
  by (cases v) (simp add: staleVersion_def)

lemma stale_releases:
  "releases_only listing \<Longrightarrow> map (\<lambda>tag. tag\<lparr>tag_version := staleVersion freed (tag_version tag)\<rparr>) (parseTags listing) = parseTags listing"
  by (intro map_idI) (simp add: releases_only_def)

lemma gitFetchTags_sorted:
  assumes "sorts compareGitTagsByVersion (qsortTags env)" "lsRemoteTags env repo = Some out" "releases_only out"
    "gitFetchTags env repo = Some tags"
  shows "set tags = set (parseTags out)" "sorted_wrt (\<lambda>a b. compareGitTagsByVersion a b \<le> 0) tags"
proof -
  from assms(2,4) have t: "tags = (if length (parseTags out) > 1 then qsortTags env (parseTags out) else parseTags out)"
    by (auto simp: gitFetchTags_def Let_def stale_releases [OF assms(3)] split: if_splits)
  have "sorted_wrt P ts" if "\<not> length ts > 1" for ts :: "GitTag list" and P
    using that by (cases ts) (auto simp: Suc_le_eq)
  moreover have "mset (qsortTags env xs) = mset xs \<and> sorted_wrt (\<lambda>a b. compareGitTagsByVersion a b \<le> 0) (qsortTags env xs)" for xs
    using assms(1) by (simp add: sorts_def)
  then have "set (qsortTags env xs) = set xs \<and> sorted_wrt (\<lambda>a b. compareGitTagsByVersion a b \<le> 0) (qsortTags env xs)" for xs
    by (metis set_mset_mset)
  ultimately show "set tags = set (parseTags out)" "sorted_wrt (\<lambda>a b. compareGitTagsByVersion a b \<le> 0) tags"
    unfolding t by (cases "length (parseTags out) > 1"; simp)+
qed

lemma satisfiesAll_iff:
  "satisfiesAll v cs \<longleftrightarrow> (\<forall>c\<in>set cs. versionSatisfiesConstraint v c)"
  by (induction cs) (auto simp: versionSatisfiesConstraint_def Let_def)

lemma selectTag_find:
  "i \<le> length tags \<Longrightarrow> selectTag tags cs i = List.find (\<lambda>t. satisfiesAll (tag_version t) cs) (rev (take i tags))"
  by (induction i) (auto simp: take_Suc_conv_app_nth Let_def)

lemma findBestMatchingVersion_find:
  assumes "gitFetchTags env repo = Some tags"
  shows "findBestMatchingVersion env repo cs = List.find (\<lambda>t. satisfiesAll (tag_version t) cs) (rev tags)"
  using assms selectTag_find [of "length tags" tags cs] by (auto simp: findBestMatchingVersion_def)

lemma findBestMatchingVersion_satisfies:
  assumes "findBestMatchingVersion env repo cs = Some tag"
  shows "satisfiesAll (tag_version tag) cs"
proof -
  from assms obtain tags where "gitFetchTags env repo = Some tags"
    by (auto simp: findBestMatchingVersion_def split: option.splits)
  from findBestMatchingVersion_find [OF this] assms show ?thesis by (auto simp: find_Some_iff)
qed

lemma bestVersion_greatest:
  assumes "sorts compareGitTagsByVersion (qsortTags env)"
    and "cur repo \<noteq> nul" "lsRemoteTags env repo = Some out"
    and "\<forall>t\<in>set (parseTags out). prerelease (tag_version t) = None \<and> build (tag_version t) = None"
  shows "case findBestMatchingVersion env repo cs of
      None \<Rightarrow> \<not> (\<exists>t\<in>set (parseTags out). satisfiesAll (tag_version t) cs)
    | Some tag \<Rightarrow> tag \<in> set (parseTags out) \<and>
        (\<forall>c\<in>set cs. versionSatisfiesConstraint (tag_version tag) c) \<and>
        (\<forall>t\<in>set (parseTags out). (\<forall>c\<in>set cs. versionSatisfiesConstraint (tag_version t) c) \<longrightarrow>
           compareSemanticVersions (tag_version t) (tag_version tag) \<le> 0)"
proof -
  from assms obtain tags where tags: "gitFetchTags env repo = Some tags" by (auto simp: gitFetchTags_def Let_def)
  have "releases_only out" using assms(4) by (simp add: releases_only_def)
  note set = gitFetchTags_sorted(1) [OF assms(1,3) this tags] and sorted = gitFetchTags_sorted(2) [OF assms(1,3) this tags]
  show ?thesis
  proof (cases "findBestMatchingVersion env repo cs")
    case None
    with findBestMatchingVersion_find [OF tags, of cs] have "\<not> (\<exists>t\<in>set tags. satisfiesAll (tag_version t) cs)"
      by (auto simp: find_None_iff dest: sym)
    with None set show ?thesis by simp
  next
    case (Some tag)
    then have find: "List.find (\<lambda>t. satisfiesAll (tag_version t) cs) (rev tags) = Some tag"
      using findBestMatchingVersion_find [OF tags, of cs] by simp
    have "tag \<in> set tags" using find by (auto simp: find_Some_iff) (metis length_rev nth_mem set_rev)
    moreover note findBestMatchingVersion_satisfies [OF Some]
    moreover have "compareGitTagsByVersion t tag \<le> 0" if "t \<in> set tags" "satisfiesAll (tag_version t) cs" for t
      using tag_cmp.find_rev_greatest [OF sorted find that(1)] that(2) by simp
    ultimately show ?thesis using Some set by (auto simp: satisfiesAll_iff compareGitTagsByVersion_def)
  qed
qed

text \<open>C25: in a repository whose version tags have no prerelease and no build part, a version is
  found exactly when some tag that parses as a semantic version satisfies every constraint,
  and then the tag found is one of the listed tags, satisfies every constraint and is not
  older than any tag that does. (With a prerelease among the tags the code compares text that
  it has already freed.)\<close>

theorem findBestMatchingVersion_greatest:
  assumes "sorts compareGitTagsByVersion (qsortTags env)"
    and "cur repo \<noteq> nul" "lsRemoteTags env repo = Some out"
    and "\<forall>t\<in>set (parseTags out). prerelease (tag_version t) = None \<and> build (tag_version t) = None"
  shows "case findBestMatchingVersion env repo cs of
      None \<Rightarrow> \<not> (\<exists>t\<in>set (parseTags out). satisfiesAll (tag_version t) cs)
    | Some tag \<Rightarrow> tag \<in> set (parseTags out) \<and>
        (\<forall>c\<in>set cs. versionSatisfiesConstraint (tag_version tag) c) \<and>
        (\<forall>t\<in>set (parseTags out). (\<forall>c\<in>set cs. versionSatisfiesConstraint (tag_version t) c) \<longrightarrow>
           compareSemanticVersions (tag_version t) (tag_version tag) \<le> 0)"
  by (rule bestVersion_greatest [OF assms])

text \<open>A sorting function to stand for the C library's.\<close>

fun insert_by :: "('a \<Rightarrow> 'a \<Rightarrow> int) \<Rightarrow> 'a \<Rightarrow> 'a list \<Rightarrow> 'a list" where
  "insert_by cmp x [] = [x]"
| "insert_by cmp x (y # ys) = (if cmp x y \<le> 0 then x # y # ys else y # insert_by cmp x ys)"

definition insertion_sort :: "('a \<Rightarrow> 'a \<Rightarrow> int) \<Rightarrow> 'a list \<Rightarrow> 'a list" where
  "insertion_sort cmp xs = foldr (insert_by cmp) xs []"

context comparator
begin

lemma insert_by_mset: "mset (insert_by cmp x ys) = add_mset x (mset ys)"
  by (induction ys) auto

lemma insert_by_sorted:
  "sorted_wrt (\<lambda>a b. cmp a b \<le> 0) ys \<Longrightarrow> sorted_wrt (\<lambda>a b. cmp a b \<le> 0) (insert_by cmp x ys)"
proof (induction ys)
  case (Cons y ys)
  have "set (insert_by cmp x ys) = insert x (set ys)"
    using insert_by_mset [of x ys] by (metis set_mset_add_mset_insert set_mset_mset)
  with Cons show ?case using total [of x y] trans [of x y] by auto
qed simp

lemma insertion_sort_sorts: "sorts cmp (insertion_sort cmp)"
proof -
  have "mset (insertion_sort cmp xs) = mset xs \<and> sorted_wrt (\<lambda>a b. cmp a b \<le> 0) (insertion_sort cmp xs)" for xs
    by (induction xs) (simp_all add: insertion_sort_def insert_by_mset insert_by_sorted)
  then show ?thesis by (simp add: sorts_def)
qed

end

definition demo_listing :: cstring where
  "demo_listing = ''a'' @ [CHR 0x09] @ ''refs/tags/v1.2.0'' @ [CHR 0x0A] @
     ''b'' @ [CHR 0x09] @ ''refs/tags/v1.10.0'' @ [CHR 0x0A] @ ''c'' @ [CHR 0x09] @ ''refs/tags/v2.0.0'' @ [CHR 0x0A]"

definition demo_dep :: "cstring \<Rightarrow> cstring option \<Rightarrow> cstring option \<Rightarrow> PackageDependency" where
  "demo_dep name version path = \<lparr>dep_name = name, dep_repository = Some ''r'', dep_version = version, dep_tag = None,
     dep_branch = None, dep_path = path, dep_isDev = False\<rparr>"

definition demo_env :: resolver_env where
  "demo_env = \<lparr>findAndLoadCxyfile = (\<lambda>p. if p = ''../util''
       then Some \<lparr>meta_name = ''util'', meta_dependencies = [demo_dep ''json'' (Some ''^1.0.0'') None],
         meta_devDependencies = []\<rparr> else None),
     lsRemoteTags = (\<lambda>r. Some demo_listing),
     qsortTags = insertion_sort compareGitTagsByVersion, freedText = (\<lambda>t. '''')\<rparr>"

definition demo_constraint :: VersionConstraint where
  "demo_constraint = \<lparr>vc_type = vcCaret, vc_version = zero_version\<lparr>major := 1\<rparr>, vc_raw = Some ''^1.0.0''\<rparr>"

lemma demo_env_sorts: "sorts compareGitTagsByVersion (qsortTags demo_env)"
  by (simp add: demo_env_def tag_cmp.insertion_sort_sorts)

lemma demo_listing_releases:
  "\<forall>t\<in>set (parseTags demo_listing). prerelease (tag_version t) = None \<and> build (tag_version t) = None"
proof -
  have "list_all (\<lambda>t. prerelease (tag_version t) = None \<and> build (tag_version t) = None) (parseTags demo_listing)"
    by code_simp
  then show ?thesis by (simp only: list_all_iff)
qed

theorem findBestMatchingVersion_greatest_witness:
  "\<exists>tag. findBestMatchingVersion demo_env ''r'' [demo_constraint] = Some tag \<and> tag_name tag = ''v1.10.0'' \<and>
     tag \<in> set (parseTags demo_listing) \<and> versionSatisfiesConstraint (tag_version tag) demo_constraint"
proof -
  have "map_option tag_name (findBestMatchingVersion demo_env ''r'' [demo_constraint]) = Some ''v1.10.0''"
    by code_simp
  then obtain tag where tag: "findBestMatchingVersion demo_env ''r'' [demo_constraint] = Some tag" "tag_name tag = ''v1.10.0''"
    by auto
  moreover have "lsRemoteTags demo_env ''r'' = Some demo_listing" by (simp add: demo_env_def)
  ultimately show ?thesis
    using findBestMatchingVersion_greatest [OF demo_env_sorts, of "''r''" demo_listing "[demo_constraint]"] demo_listing_releases
    by (auto simp: nul_def)
qed

text \<open>With prereleases among the tags, the tag chosen depends on what is left in the freed
  output: the same listing gives the later or the earlier prerelease.\<close>

definition pre_listing :: cstring where
  "pre_listing = ''a'' @ [CHR 0x09] @ ''refs/tags/v1.0.0-alpha'' @ [CHR 0x0A] @
     ''b'' @ [CHR 0x09] @ ''refs/tags/v1.0.0-beta'' @ [CHR 0x0A]"

definition pre_env :: "(cstring \<Rightarrow> cstring) \<Rightarrow> resolver_env" where
  "pre_env freed = demo_env\<lparr>lsRemoteTags := (\<lambda>r. Some pre_listing), freedText := freed\<rparr>"

theorem freed_prerelease_decides:
  "map_option tag_name (findBestMatchingVersion (pre_env (\<lambda>t. t)) ''r'' []) = Some ''v1.0.0-beta'' \<and>
   map_option tag_name (findBestMatchingVersion (pre_env (\<lambda>t. if t = ''beta'' then [] else t)) ''r'' []) = Some ''v1.0.0-alpha''"
  by code_simp

section \<open>What a successful resolution guarantees\<close>

lemma isDependencyResolved_eq: "isDependencyResolved rs name = List.find (\<lambda>r. rd_name r = Some name) rs"
  by (induction rs) auto


lemma isDependencyResolved_None:
  "isDependencyResolved rs name = None \<longleftrightarrow> Some name \<notin> rd_name ` set rs"
  by (force simp: isDependencyResolved_eq find_None_iff)

text \<open>Contexts only grow, and a package is entered once.\<close>

definition extends :: "ResolverContext \<Rightarrow> ResolverContext \<Rightarrow> bool" where
  "extends ctx ctx' \<longleftrightarrow> set (resolved ctx) \<subseteq> set (resolved ctx') \<and>
     (distinct (map rd_name (resolved ctx)) \<longrightarrow> distinct (map rd_name (resolved ctx'))) \<and>
     allowDevDeps ctx' = allowDevDeps ctx"

lemma extends_refl [simp]: "extends ctx ctx"
  by (simp add: extends_def)

lemma extends_trans: "extends a b \<Longrightarrow> extends b c \<Longrightarrow> extends a c"
  by (auto simp: extends_def)

lemma extends_push:
  "rd_name r = Some name \<Longrightarrow> isDependencyResolved (resolved ctx) name = None \<Longrightarrow> extends ctx (pushResolved ctx r)"
  by (auto simp: extends_def pushResolved_def isDependencyResolved_None)

lemma extends_conflict [simp]: "extends ctx (addVersionConflict ctx name c req)"
  by (simp add: extends_def addVersionConflict_def split: option.splits)

text \<open>What the resolution gives a dependency: an entry of its name with a version that satisfies
  its constraint; or, for a local path, the entry of a local package, whose version is taken
  to be 0.0.0 and not checked; or, for a dependency that names a tag, the entry of that tag of
  its repository, with the version the tag spells, again not checked.\<close>

definition honoured :: "ResolverContext \<Rightarrow> PackageDependency \<Rightarrow> VersionConstraint \<Rightarrow> bool" where
  "honoured ctx dep c \<longleftrightarrow> (\<exists>r\<in>set (resolved ctx). rd_name r = Some (dep_name dep) \<and>
     (versionSatisfiesConstraint (rd_version r) c \<or>
      present (dep_path dep) \<and> rd_repository r = None \<and> rd_tag r = None \<and> rd_version r = zero_version \<or>
      \<not> present (dep_path dep) \<and> present (dep_tag dep) \<and> present (dep_repository dep) \<and>
        rd_repository r = dep_repository dep \<and> rd_tag r = dep_tag dep \<and>
        rd_version r = (case parseSemanticVersion (dep_tag dep) of Inl _ \<Rightarrow> zero_version | Inr v \<Rightarrow> v)))"


text \<open>A step that succeeds extends the context and records no conflict.\<close>

definition good :: "ResolverContext \<Rightarrow> resolve_result \<Rightarrow> bool" where
  "good ctx r \<longleftrightarrow> (\<forall>ctx'. r = Some (Inr ctx') \<longrightarrow> extends ctx ctx' \<and> conflicts ctx' = conflicts ctx)"

lemma resolveRemote_ok:
  assumes "resolveRemote env ctx dep c = Inr ctx'" "isDependencyResolved (resolved ctx) (dep_name dep) = None"
    "\<not> present (dep_path dep)"
  shows "extends ctx ctx'" "conflicts ctx' = conflicts ctx" "honoured ctx' dep c"
    "rd_name ` set (resolved ctx') = insert (Some (dep_name dep)) (rd_name ` set (resolved ctx))"
proof -
  from assms(1) obtain r where r: "ctx' = pushResolved ctx r" "rd_name r = Some (dep_name dep)"
      "satisfiesAll (rd_version r) [c] \<or> present (dep_tag dep) \<and> present (dep_repository dep) \<and>
        rd_repository r = dep_repository dep \<and> rd_tag r = dep_tag dep \<and>
        rd_version r = (case parseSemanticVersion (dep_tag dep) of Inl _ \<Rightarrow> zero_version | Inr v \<Rightarrow> v)"
    by (auto simp: resolveRemote_def split: if_splits option.splits dest: findBestMatchingVersion_satisfies)
  with assms(2) show "extends ctx ctx'" by (simp add: extends_push)
  from r assms(3) show "conflicts ctx' = conflicts ctx" "honoured ctx' dep c"
      "rd_name ` set (resolved ctx') = insert (Some (dep_name dep)) (rd_name ` set (resolved ctx))"
    by (auto simp: pushResolved_def honoured_def satisfiesAll_iff)
qed

lemma resolveLoop_ConsE:
  assumes "resolveLoop env fuel ctx (dep # deps) req = Some (Inr ctx')"
  obtains c ctx1 where "parseVersionConstraint (dep_version dep) zero_constraint = Inr c"
    "resolveDependency env fuel ctx dep req c = Some (Inr ctx1)" "resolveLoop env fuel ctx1 deps req = Some (Inr ctx')"
  using assms by (auto split: sum.splits option.splits)

lemma resolve_good:
  "good ctx (resolveDependency env fuel ctx dep req c)"
  "good ctx (resolveTransitiveDependencies env fuel ctx path name)"
  "good ctx (resolveLoop env fuel ctx deps req)"
proof (induction env fuel ctx dep req c and env fuel ctx path name and env fuel ctx deps req
    rule: resolveDependency_resolveTransitiveDependencies_resolveLoop.induct)
  case (1 env fuel ctx dep req c)
  show ?case
  proof (cases "isDependencyResolved (resolved ctx) (dep_name dep)")
    case None
    show ?thesis
    proof (cases "present (dep_path dep)")
      case True
      define r where "r = \<lparr>rd_name = Some (dep_name dep), rd_repository = None, rd_version = zero_version,
                    rd_tag = None, rd_commit = None, rd_checksum = None, rd_isDev = dep_isDev dep\<rparr>"
      have "extends ctx (pushResolved ctx r)" using None by (simp add: extends_push r_def)
      moreover from 1 None True have "good (pushResolved ctx r) (resolveDependency env fuel ctx dep req c)"
        by (simp add: r_def resolveDependency.simps)
      ultimately show ?thesis by (auto simp: good_def pushResolved_def intro: extends_trans)
    next
      case False
      with None resolveRemote_ok show ?thesis by (auto simp: good_def resolveDependency.simps)
    qed
  qed (auto simp: good_def resolveDependency.simps)
next
  case (5 env fuel ctx dep deps req)
  show ?case unfolding good_def
  proof (intro allI impI)
    fix ctx'
    assume "resolveLoop env fuel ctx (dep # deps) req = Some (Inr ctx')"
    then obtain c ctx1 where s: "parseVersionConstraint (dep_version dep) zero_constraint = Inr c"
        "resolveDependency env fuel ctx dep req c = Some (Inr ctx1)" "resolveLoop env fuel ctx1 deps req = Some (Inr ctx')"
      by (rule resolveLoop_ConsE)
    from 5(1) [OF s(1)] 5(2) [OF s(1) s(2)] s show "extends ctx ctx' \<and> conflicts ctx' = conflicts ctx"
      by (auto simp: good_def intro: extends_trans)
  qed
qed (auto simp: good_def split: option.splits)












section \<open>Enough fuel\<close>

lemma resolve_terminates:
  assumes "finite N" "\<And>p m. findAndLoadCxyfile env p = Some m \<Longrightarrow> dep_name ` set (meta_dependencies m) \<subseteq> N"
  shows
  "dep_name dep \<in> N \<Longrightarrow> card {n\<in>N. Some n \<notin> rd_name ` set (resolved ctx)} \<le> fuel \<Longrightarrow>
     resolveDependency env fuel ctx dep req c \<noteq> None"
  "card {n\<in>N. Some n \<notin> rd_name ` set (resolved ctx)} < fuel \<Longrightarrow>
     resolveTransitiveDependencies env fuel ctx path name \<noteq> None"
  "dep_name ` set deps \<subseteq> N \<Longrightarrow> card {n\<in>N. Some n \<notin> rd_name ` set (resolved ctx)} \<le> fuel \<Longrightarrow>
     resolveLoop env fuel ctx deps req \<noteq> None"
  using assms(2)
proof (induction env fuel ctx dep req c and env fuel ctx path name and env fuel ctx deps req
    rule: resolveDependency_resolveTransitiveDependencies_resolveLoop.induct)
  case (1 env fuel ctx dep req c)
  show ?case
  proof (cases "isDependencyResolved (resolved ctx) (dep_name dep) = None \<and> present (dep_path dep)")
    case True
    let ?left = "\<lambda>ctx. {n\<in>N. Some n \<notin> rd_name ` set (resolved ctx)}"
    have "?left (pushResolved ctx r) \<subset> ?left ctx" if "rd_name r = Some (dep_name dep)" for r
      using that True 1(2) by (auto simp: pushResolved_def isDependencyResolved_None)
    then have "card (?left (pushResolved ctx r)) < card (?left ctx)" if "rd_name r = Some (dep_name dep)" for r
      using that assms(1) by (intro psubset_card_mono) auto
    then have "card (?left (pushResolved ctx r)) < fuel" if "rd_name r = Some (dep_name dep)" for r
      using that 1(3) less_le_trans by blast
    with 1 True show ?thesis by (simp add: resolveDependency.simps)
  qed (auto simp: resolveDependency.simps split: option.splits)
next
  case (5 env fuel ctx dep deps req)
  have "card {n\<in>N. Some n \<notin> rd_name ` set (resolved ctx')} \<le> fuel"
    if "resolveDependency env fuel ctx dep req c = Some (Inr ctx')" for ctx' c
  proof -
    from that resolve_good(1) have "extends ctx ctx'" by (auto simp: good_def)
    then have "{n\<in>N. Some n \<notin> rd_name ` set (resolved ctx')} \<subseteq> {n\<in>N. Some n \<notin> rd_name ` set (resolved ctx)}"
      by (auto simp: extends_def)
    then have "card {n\<in>N. Some n \<notin> rd_name ` set (resolved ctx')} \<le> card {n\<in>N. Some n \<notin> rd_name ` set (resolved ctx)}"
      using assms(1) by (intro card_mono) auto
    with 5(4) show ?thesis by linarith
  qed
  note less = this
  show ?case
  proof (cases "parseVersionConstraint (dep_version dep) zero_constraint")
    case (Inr c)
    from 5(1) [OF Inr] 5(3,4,5) obtain r where r: "resolveDependency env fuel ctx dep req c = Some r" by auto
    show ?thesis
    proof (cases r)
      case (Inr ctx')
      with r have "resolveDependency env fuel ctx dep req c = Some (Inr ctx')" by simp
      with 5(2) [OF \<open>parseVersionConstraint _ _ = Inr c\<close> r Inr] less [OF this] 5(3,5) \<open>parseVersionConstraint _ _ = Inr c\<close>
      show ?thesis by simp
    qed (use Inr r in simp)
  qed simp
qed (auto split: option.splits)

lemma resolve_more_fuel:
  "resolveDependency env fuel ctx dep req c = Some r \<Longrightarrow> fuel \<le> fuel' \<Longrightarrow> resolveDependency env fuel' ctx dep req c = Some r"
  "resolveTransitiveDependencies env fuel ctx path name = Some r \<Longrightarrow> fuel \<le> fuel' \<Longrightarrow>
     resolveTransitiveDependencies env fuel' ctx path name = Some r"
  "resolveLoop env fuel ctx deps req = Some r \<Longrightarrow> fuel \<le> fuel' \<Longrightarrow> resolveLoop env fuel' ctx deps req = Some r"
proof (induction env fuel ctx dep req c and env fuel ctx path name and env fuel ctx deps req
    arbitrary: fuel' r and fuel' r and fuel' r rule: resolveDependency_resolveTransitiveDependencies_resolveLoop.induct)
  case (1 env fuel ctx dep req c)
  show ?case
  proof (cases "isDependencyResolved (resolved ctx) (dep_name dep) = None \<and> present (dep_path dep)")
    case True
    with 1(2) have "resolveTransitiveDependencies env fuel
                 (pushResolved ctx \<lparr>rd_name = Some (dep_name dep), rd_repository = None, rd_version = zero_version,
                    rd_tag = None, rd_commit = None, rd_checksum = None, rd_isDev = dep_isDev dep\<rparr>)
                 (the (dep_path dep)) (dep_name dep) = Some r"
      by (simp add: resolveDependency.simps)
    from 1(1) [OF _ _ this 1(3)] True show ?thesis by (simp add: resolveDependency.simps)
  next
    case False
    with 1(2) show ?thesis by (auto simp: resolveDependency.simps split: option.splits)
  qed
next
  case (3 env fuel ctx path name)
  then obtain n where n: "fuel' = Suc n" "fuel \<le> n" by (cases fuel') auto
  show ?case
  proof (cases "findAndLoadCxyfile env path")
    case None
    with 3 n show ?thesis by simp
  next
    case (Some m)
    with 3(2) have "resolveLoop env fuel ctx (meta_dependencies m) name = Some r" by simp
    from 3(1) [OF Some this n(2)] Some n show ?thesis by simp
  qed
next
  case (5 env fuel ctx dep deps req)
  show ?case
  proof (cases "parseVersionConstraint (dep_version dep) zero_constraint")
    case (Inl e)
    with 5(3) show ?thesis by simp
  next
    case (Inr c)
    with 5(3) obtain x where x: "resolveDependency env fuel ctx dep req c = Some x" by (auto split: option.splits)
    note x' = 5(1) [OF Inr x 5(4)]
    show ?thesis
    proof (cases x)
      case (Inl e)
      with 5(3) Inr x x' show ?thesis by auto
    next
      case (Inr c1)
      with 5(3) \<open>parseVersionConstraint _ _ = Inr c\<close> x have "resolveLoop env fuel c1 deps req = Some r" by simp
      from 5(2) [OF \<open>parseVersionConstraint _ _ = Inr c\<close> x Inr this 5(4)] \<open>parseVersionConstraint _ _ = Inr c\<close> x' Inr
      show ?thesis by simp
    qed
  qed
qed simp_all

text \<open>C33: resolution ends. When the names of the dependencies that the package and the package
  files mention are among finitely many, as many levels of recursion as there are names are
  enough to reach a result, and more do not change it: mutually dependent local packages are
  no exception.\<close>

theorem resolveDependencies_terminates:
  assumes "finite N" "\<forall>p m. findAndLoadCxyfile env p = Some m \<longrightarrow> dep_name ` set (meta_dependencies m) \<subseteq> N"
    and "dep_name ` set (meta_dependencies meta @ meta_devDependencies meta) \<subseteq> N"
  shows "\<exists>r. \<forall>fuel\<ge>card N. resolveDependencies env fuel ctx meta = Some r"
proof -
  let ?n = "card N"
  have few: "card {n\<in>N. Some n \<notin> rd_name ` set (resolved c)} \<le> ?n" for c :: ResolverContext
    using assms(1) by (intro card_mono) auto
  have loop: "\<exists>r. \<forall>fuel\<ge>?n. resolveLoop env fuel c deps req = Some r"
    if "dep_name ` set deps \<subseteq> N" for c :: ResolverContext and deps req
  proof -
    have "resolveLoop env ?n c deps req \<noteq> None"
      by (rule resolve_terminates(3) [OF assms(1) _ that few]) (use assms(2) in blast)
    then obtain r where "resolveLoop env ?n c deps req = Some r" by blast
    with resolve_more_fuel(3) show ?thesis by blast
  qed
  from assms(3) have sub: "dep_name ` set (meta_dependencies meta) \<subseteq> N" "dep_name ` set (meta_devDependencies meta) \<subseteq> N"
    by auto
  from loop [OF sub(1)] obtain r where
      r: "\<forall>fuel\<ge>?n. resolveLoop env fuel ctx (meta_dependencies meta) (meta_name meta) = Some r"
    by blast
  show ?thesis
  proof (cases r)
    case (Inl e)
    with r show ?thesis by (auto simp: resolveDependencies_def)
  next
    case (Inr c1)
    from loop [OF sub(2)] obtain r2 where
        "\<forall>fuel\<ge>?n. resolveLoop env fuel c1 (meta_devDependencies meta) (meta_name meta) = Some r2"
      by blast
    with r Inr show ?thesis
      by (cases r2) (auto simp: resolveDependencies_def)
  qed
qed

definition demo_meta :: PackageMetadata where
  "demo_meta = \<lparr>meta_name = ''app'', meta_dependencies = [demo_dep ''util'' None (Some ''../util''),
     demo_dep ''json'' (Some ''>=1.3.0'') None], meta_devDependencies = []\<rparr>"

theorem resolveDependencies_terminates_witness:
  "\<exists>r. resolveDependencies demo_env 2 initResolverContext demo_meta = Some r"
proof -
  have "\<exists>r. \<forall>fuel\<ge>card {''util'', ''json''}. resolveDependencies demo_env fuel initResolverContext demo_meta = Some r"
    by (rule resolveDependencies_terminates) (auto simp: demo_env_def demo_meta_def demo_dep_def split: if_splits)
  then show ?thesis by auto
qed

definition demo_resolved :: ResolverContext where
  "demo_resolved = (case resolveDependencies demo_env 2 initResolverContext demo_meta of Some (Inr ctx) \<Rightarrow> ctx | _ \<Rightarrow> initResolverContext)"



section \<open>The lock file round trip\<close>

text \<open>What the lock file keeps of an entry: everything but the prerelease and build parts of
  the version.\<close>

definition locked :: "ResolvedDependency \<Rightarrow> ResolvedDependency" where
  "locked r = r\<lparr>rd_version := (rd_version r)\<lparr>prerelease := None, build := None\<rparr>\<rparr>"

lemma parse_formatNumbers:
  "parseSemanticVersion (Some (formatNumbers v)) = Inr (v\<lparr>prerelease := None, build := None\<rparr>)"
proof -
  have "parseSemanticVersion (Some (formatNumbers v @ [])) =
      parseVersionTail (zero_version\<lparr>major := major v, minor := minor v, patch := patch v\<rparr>) []"
    by (rule parse_numbers) simp
  then show ?thesis by (simp add: parseVersionTail_def zero_version_def nul_def)
qed

text \<open>Inside a dependency mapping, a key and a value set a field.\<close>

lemma lockLoop_field:
  assumes "inDependencies st \<or> inDevDependencies st" "inDependencyMap st" "currentKey st = None"
  shows "lockLoop freed (Scalar key # Scalar v # evs) st = lockLoop freed evs (st\<lparr>currentDep := setLockField freed key v (currentDep st)\<rparr>)"
  using assms by (cases st; cases "inDependencies st") simp_all

lemma lockLoop_start:
  "lockLoop freed (MappingStart # evs) st = lockLoop freed evs (if inDependencies st \<or> inDevDependencies st
     then st\<lparr>inDependencyMap := True, currentDep := emptyDep (inDevDependencies st)\<rparr> else st)"
  "lockLoop freed (MappingEnd # evs) st = lockLoop freed evs (if inDependencyMap st
     then st\<lparr>loaded := loaded st @ [currentDep st], inDependencyMap := False\<rparr> else st)"
  by simp_all

lemma setLockField_keys:
  "setLockField freed ''name'' v dep = dep\<lparr>rd_name := Some v\<rparr>"
  "setLockField freed ''repository'' v dep = dep\<lparr>rd_repository := Some v\<rparr>"
  "setLockField freed ''version'' (formatNumbers ver) dep = dep\<lparr>rd_version := ver\<lparr>prerelease := None, build := None\<rparr>\<rparr>"
  "setLockField freed ''tag'' v dep = dep\<lparr>rd_tag := Some v\<rparr>"
  "setLockField freed ''commit'' v dep = dep\<lparr>rd_commit := Some v\<rparr>"
  "setLockField freed ''checksum'' v dep = dep\<lparr>rd_checksum := Some v\<rparr>"
  by (simp_all add: setLockField_def parse_formatNumbers staleVersion_def)

lemma field_kept:
  "rd_repository (currentDep st) = None \<Longrightarrow> st\<lparr>currentDep := (currentDep st)\<lparr>rd_repository := None\<rparr>\<rparr> = st"
  "rd_tag (currentDep st) = None \<Longrightarrow> st\<lparr>currentDep := (currentDep st)\<lparr>rd_tag := None\<rparr>\<rparr> = st"
  "rd_commit (currentDep st) = None \<Longrightarrow> st\<lparr>currentDep := (currentDep st)\<lparr>rd_commit := None\<rparr>\<rparr> = st"
  "rd_checksum (currentDep st) = None \<Longrightarrow> st\<lparr>currentDep := (currentDep st)\<lparr>rd_checksum := None\<rparr>\<rparr> = st"
  by (cases st; cases "currentDep st"; simp)+

lemma lockLoop_optional:
  assumes "inDependencies st \<or> inDevDependencies st" "inDependencyMap st" "currentKey st = None"
  shows "rd_repository (currentDep st) = None \<Longrightarrow> lockLoop freed (emitOptional ''repository'' f @ evs) st
      = lockLoop freed evs (st\<lparr>currentDep := (currentDep st)\<lparr>rd_repository := f\<rparr>\<rparr>)"
    "rd_tag (currentDep st) = None \<Longrightarrow> lockLoop freed (emitOptional ''tag'' f @ evs) st
      = lockLoop freed evs (st\<lparr>currentDep := (currentDep st)\<lparr>rd_tag := f\<rparr>\<rparr>)"
    "rd_commit (currentDep st) = None \<Longrightarrow> lockLoop freed (emitOptional ''commit'' f @ evs) st
      = lockLoop freed evs (st\<lparr>currentDep := (currentDep st)\<lparr>rd_commit := f\<rparr>\<rparr>)"
    "rd_checksum (currentDep st) = None \<Longrightarrow> lockLoop freed (emitOptional ''checksum'' f @ evs) st
      = lockLoop freed evs (st\<lparr>currentDep := (currentDep st)\<lparr>rd_checksum := f\<rparr>\<rparr>)"
  using assms
  by (cases f; simp add: emitOptional_def lockLoop_field setLockField_keys field_kept del: lockLoop.simps)+

lemma lockLoop_dependency:
  assumes "inDependencies st \<or> inDevDependencies st" "\<not> inDependencyMap st" "currentKey st = None"
    "rd_name dep \<noteq> None" "rd_isDev dep = inDevDependencies st"
  shows "lockLoop freed (emitResolvedDependency dep @ evs) st
    = lockLoop freed evs (st\<lparr>currentDep := locked dep, loaded := loaded st @ [locked dep]\<rparr>)"
proof -
  have "lockLoop freed (emitResolvedDependency dep @ evs) st = lockLoop freed evs (st\<lparr>currentDep := \<lparr>rd_name = rd_name dep, rd_repository = rd_repository dep,
        rd_version = rd_version dep\<lparr>prerelease := None, build := None\<rparr>, rd_tag = rd_tag dep, rd_commit = rd_commit dep,
        rd_checksum = rd_checksum dep, rd_isDev = rd_isDev dep\<rparr>,
      loaded := loaded st @ [\<lparr>rd_name = rd_name dep, rd_repository = rd_repository dep,
        rd_version = rd_version dep\<lparr>prerelease := None, build := None\<rparr>, rd_tag = rd_tag dep, rd_commit = rd_commit dep,
        rd_checksum = rd_checksum dep, rd_isDev = rd_isDev dep\<rparr>], inDependencyMap := False\<rparr>)"
    using assms
    by (simp add: emitResolvedDependency_def lockLoop_start lockLoop_field lockLoop_optional setLockField_keys emptyDep_def
        del: lockLoop.simps)
  moreover have "\<lparr>rd_name = rd_name dep, rd_repository = rd_repository dep,
        rd_version = rd_version dep\<lparr>prerelease := None, build := None\<rparr>, rd_tag = rd_tag dep, rd_commit = rd_commit dep,
        rd_checksum = rd_checksum dep, rd_isDev = rd_isDev dep\<rparr> = locked dep"
    by (simp add: locked_def)
  moreover have "st\<lparr>currentDep := d, loaded := l, inDependencyMap := False\<rparr> = st\<lparr>currentDep := d, loaded := l\<rparr>" for d l
    using assms(2) by (cases st) simp
  ultimately show ?thesis by simp
qed

lemma lockLoop_dependencies:
  assumes "inDependencies st \<or> inDevDependencies st" "\<not> inDependencyMap st" "currentKey st = None"
    "\<forall>dep\<in>set deps. rd_name dep \<noteq> None \<and> rd_isDev dep = inDevDependencies st"
  shows "\<exists>cd. lockLoop freed (concat (map emitResolvedDependency deps) @ evs) st
    = lockLoop freed evs (st\<lparr>currentDep := cd, loaded := loaded st @ map locked deps\<rparr>)"
  using assms
proof (induction deps arbitrary: st)
  case Nil
  then show ?case by (intro exI [of _ "currentDep st"]) simp
next
  case (Cons dep deps)
  then show ?case
    using Cons.IH [of "st\<lparr>currentDep := locked dep, loaded := loaded st @ [locked dep]\<rparr>"]
    by (simp add: lockLoop_dependency)
qed

lemma load_events:
  assumes "\<forall>dep\<in>set (resolved ctx). rd_name dep \<noteq> None" "files path = Some contents" "parseYaml lenv contents = lockEvents ctx"
  shows "loadLockFile lenv files path ctx0 = (True, ctx0\<lparr>resolved := resolved ctx0 @
     map locked (filter (\<lambda>r. \<not> rd_isDev r) (resolved ctx)) @ map locked (filter rd_isDev (resolved ctx))\<rparr>)"
proof -
  let ?lock = "lockLoop (freedScalar lenv)"
  let ?st = "\<lparr>inDependencies = True, inDevDependencies = False, inDependencyMap = False,
                  currentDep = emptyDep False, currentKey = None, loaded = resolved ctx0\<rparr>"
  let ?reg = "filter (\<lambda>d. \<not> rd_isDev d) (resolved ctx)" and ?dev = "filter rd_isDev (resolved ctx)"
  let ?tail = "[MappingEnd, DocumentEnd, StreamEnd]"
  have reg: "\<And>evs. \<exists>cd. ?lock (concat (map emitResolvedDependency ?reg) @ evs) ?st
       = ?lock evs (?st\<lparr>currentDep := cd, loaded := resolved ctx0 @ map locked ?reg\<rparr>)"
    using lockLoop_dependencies [of ?st ?reg] assms(1) by auto
  have dev: "\<exists>cd'. ?lock (concat (map emitResolvedDependency ?dev) @ evs)
        (?st\<lparr>inDependencies := False, inDevDependencies := True, currentDep := cd, loaded := l\<rparr>)
      = ?lock evs (?st\<lparr>inDependencies := False, inDevDependencies := True, currentDep := cd', loaded := l @ map locked ?dev\<rparr>)" for cd l evs
    using lockLoop_dependencies [of "?st\<lparr>inDependencies := False, inDevDependencies := True, currentDep := cd, loaded := l\<rparr>" ?dev] assms(1)
    by auto
  show ?thesis
  proof (cases "list_ex rd_isDev (resolved ctx)")
    case True
    obtain cd where "?lock (concat (map emitResolvedDependency ?reg) @ SequenceEnd # Scalar ''devDependencies'' # SequenceStart #
        concat (map emitResolvedDependency ?dev) @ SequenceEnd # ?tail) ?st
        = ?lock (SequenceEnd # Scalar ''devDependencies'' # SequenceStart # concat (map emitResolvedDependency ?dev) @ SequenceEnd # ?tail)
          (?st\<lparr>currentDep := cd, loaded := resolved ctx0 @ map locked ?reg\<rparr>)"
      using reg by blast
    moreover obtain cd' where "?lock (concat (map emitResolvedDependency ?dev) @ SequenceEnd # ?tail)
        (?st\<lparr>inDependencies := False, inDevDependencies := True, currentDep := cd, loaded := resolved ctx0 @ map locked ?reg\<rparr>)
      = ?lock (SequenceEnd # ?tail) (?st\<lparr>inDependencies := False, inDevDependencies := True, currentDep := cd',
          loaded := (resolved ctx0 @ map locked ?reg) @ map locked ?dev\<rparr>)"
      using dev by blast
    ultimately show ?thesis using True by (simp add: loadLockFile_def lockEvents_def assms(2,3))
  next
    case False
    then have "?dev = []" by (simp add: filter_empty_conv list_ex_iff)
    moreover obtain cd where "?lock (concat (map emitResolvedDependency ?reg) @ SequenceEnd # ?tail) ?st
        = ?lock (SequenceEnd # ?tail) (?st\<lparr>currentDep := cd, loaded := resolved ctx0 @ map locked ?reg\<rparr>)"
      using reg by blast
    ultimately show ?thesis using False by (simp add: loadLockFile_def lockEvents_def assms(2,3))
  qed
qed

text \<open>What is relied on of libyaml: it accepts a sequence of events, and reads them back from
  the text it has written for them.\<close>

definition reads_back :: "lock_env \<Rightarrow> yaml_event list \<Rightarrow> bool" where
  "reads_back lenv events \<longleftrightarrow> fst (emitYaml lenv events) \<and> parseYaml lenv (snd (emitYaml lenv events)) = events"

lemma generated_lock_file:
  assumes "canCreate lenv path" "reads_back lenv (lockEvents ctx)"
  obtains contents where "generateLockFile lenv files ctx path = (True, files(path \<mapsto> contents))"
    "parseYaml lenv contents = lockEvents ctx"
  using assms by (cases "emitYaml lenv (lockEvents ctx)") (auto simp: generateLockFile_def reads_back_def)

text \<open>C34: when the lock file can be created and libyaml reads back the events it has written
  for it, writing the lock file of a context whose entries have names succeeds, changes no
  other file, and loading it appends to a context first the regular and then the development
  entries, in their order and with all fields, except that the versions have lost their
  prerelease and build parts, which are not stored.\<close>

theorem lock_file_roundtrip:
  assumes "\<forall>dep\<in>set (resolved ctx). rd_name dep \<noteq> None"
    and "canCreate lenv path" "reads_back lenv (lockEvents ctx)"
  shows "\<exists>files'. generateLockFile lenv files ctx path = (True, files') \<and> (\<forall>p. p \<noteq> path \<longrightarrow> files' p = files p) \<and>
     loadLockFile lenv files' path ctx0 =
       (True, ctx0\<lparr>resolved := resolved ctx0 @
          map (\<lambda>r. r\<lparr>rd_version := (rd_version r)\<lparr>prerelease := None, build := None\<rparr>\<rparr>)
            (filter (\<lambda>r. \<not> rd_isDev r) (resolved ctx) @ filter rd_isDev (resolved ctx))\<rparr>)"
proof -
  obtain contents where g: "generateLockFile lenv files ctx path = (True, files(path \<mapsto> contents))"
      "parseYaml lenv contents = lockEvents ctx"
    by (rule generated_lock_file [OF assms(2,3)])
  have l: "locked = (\<lambda>r. r\<lparr>rd_version := (rd_version r)\<lparr>prerelease := None, build := None\<rparr>\<rparr>)"
    by (simp add: fun_eq_iff locked_def)
  have "loadLockFile lenv (files(path \<mapsto> contents)) path ctx0 = (True, ctx0\<lparr>resolved := resolved ctx0 @
     map locked (filter (\<lambda>r. \<not> rd_isDev r) (resolved ctx)) @ map locked (filter rd_isDev (resolved ctx))\<rparr>)"
    using g(2) by (intro load_events [OF assms(1)]) simp
  with g(1) show ?thesis by (intro exI [of _ "files(path \<mapsto> contents)"]) (simp add: l)
qed

text \<open>A text format for events that can stand for libyaml's: one event on a line.\<close>

fun eventLine :: "yaml_event \<Rightarrow> cstring" where
  "eventLine (Scalar v) = ''='' @ v @ [CHR 0x0A]"
| "eventLine (Alias v) = ''*'' @ v @ [CHR 0x0A]"
| "eventLine StreamStart = ''+STR'' @ [CHR 0x0A]"
| "eventLine StreamEnd = ''-STR'' @ [CHR 0x0A]"
| "eventLine DocumentStart = ''+DOC'' @ [CHR 0x0A]"
| "eventLine DocumentEnd = ''-DOC'' @ [CHR 0x0A]"
| "eventLine MappingStart = ''+MAP'' @ [CHR 0x0A]"
| "eventLine MappingEnd = ''-MAP'' @ [CHR 0x0A]"
| "eventLine SequenceStart = ''+SEQ'' @ [CHR 0x0A]"
| "eventLine SequenceEnd = ''-SEQ'' @ [CHR 0x0A]"

definition lineEvent :: "cstring \<Rightarrow> yaml_event" where
  "lineEvent l =
     (if cur l = CHR ''='' then Scalar (tl l)
      else if cur l = CHR ''*'' then Alias (tl l)
      else if l = ''+STR'' then StreamStart else if l = ''-STR'' then StreamEnd
      else if l = ''+DOC'' then DocumentStart else if l = ''-DOC'' then DocumentEnd
      else if l = ''+MAP'' then MappingStart else if l = ''-MAP'' then MappingEnd
      else if l = ''+SEQ'' then SequenceStart else SequenceEnd)"

definition demo_lock :: lock_env where
  "demo_lock = \<lparr>canCreate = (\<lambda>p. True), emitYaml = (\<lambda>events. (True, concat (map eventLine events))),
     parseYaml = (\<lambda>contents. map lineEvent (strtokLines contents)), freedScalar = (\<lambda>t. [])\<rparr>"

lemma demo_lock_reads_back: "reads_back demo_lock (lockEvents demo_resolved)"
  by code_simp

lemma demo_resolved_named: "\<forall>dep\<in>set (resolved demo_resolved). rd_name dep \<noteq> None"
proof -
  have "list_all (\<lambda>dep. rd_name dep \<noteq> None) (resolved demo_resolved)" by code_simp
  then show ?thesis by (simp only: list_all_iff)
qed

theorem lock_file_roundtrip_witness:
  "\<exists>files' ctx'. generateLockFile demo_lock Map.empty demo_resolved ''Cxyfile.lock'' = (True, files') \<and>
     loadLockFile demo_lock files' ''Cxyfile.lock'' initResolverContext = (True, ctx') \<and>
     map rd_name (resolved ctx') = [Some ''util'', Some ''json'']"
proof -
  have "canCreate demo_lock ''Cxyfile.lock''" by (simp add: demo_lock_def)
  from lock_file_roundtrip [OF demo_resolved_named this demo_lock_reads_back, of Map.empty initResolverContext]
  obtain files' where f: "generateLockFile demo_lock Map.empty demo_resolved ''Cxyfile.lock'' = (True, files')"
      "loadLockFile demo_lock files' ''Cxyfile.lock'' initResolverContext = (True, initResolverContext\<lparr>resolved := resolved initResolverContext @
          map (\<lambda>r. r\<lparr>rd_version := (rd_version r)\<lparr>prerelease := None, build := None\<rparr>\<rparr>)
            (filter (\<lambda>r. \<not> rd_isDev r) (resolved demo_resolved) @ filter rd_isDev (resolved demo_resolved))\<rparr>)"
    by blast
  moreover have "map rd_name (map (\<lambda>r. r\<lparr>rd_version := (rd_version r)\<lparr>prerelease := None, build := None\<rparr>\<rparr>)
            (filter (\<lambda>r. \<not> rd_isDev r) (resolved demo_resolved) @ filter rd_isDev (resolved demo_resolved))) = [Some ''util'', Some ''json'']"
    by code_simp
  ultimately show ?thesis by (simp add: initResolverContext_def)
qed

section \<open>Verification against the lock file\<close>

lemma verifyLoop_eq:
  "verifyLoop ienv dir deps ok \<longleftrightarrow> ok \<and> (\<forall>dep\<in>set deps. verifyInstalledPackage ienv dep dir)"
  by (induction deps arbitrary: ok) auto

text \<open>What is detected of an installed package: that its directory or package file is missing,
  that git knows its commit and it is another one than recorded for its repository, or that
  its checksum can be calculated and is another one than recorded.\<close>

definition deviates :: "install_env \<Rightarrow> cstring \<Rightarrow> ResolvedDependency \<Rightarrow> bool" where
  "deviates ienv path r \<longleftrightarrow>
     \<not> isDirectory ienv path \<or> \<not> isRegularFile ienv (take 1023 (path @ ''/Cxyfile.yaml'')) \<or>
     (\<exists>recorded repo actual. rd_commit r = Some recorded \<and> rd_repository r = Some repo \<and>
        gitGetCurrentCommit ienv path = Some actual \<and> actual \<noteq> recorded) \<or>
     (\<exists>recorded actual. rd_checksum r = Some recorded \<and>
        gitCalculateChecksum ienv path = Some actual \<and> actual \<noteq> recorded)"

lemma verifyInstalledPackage_deviates:
  "verifyInstalledPackage ienv r dir \<longleftrightarrow> \<not> deviates ienv (take 1023 (dir @ ''/'' @ the (rd_name r))) r"
proof -
  define path where "path = take 1023 (dir @ ''/'' @ the (rd_name r))"
  have commit: "(if rd_commit r \<noteq> None \<and> rd_repository r \<noteq> None
       then (case gitGetCurrentCommit ienv path of Some actual \<Rightarrow> if rd_commit r \<noteq> Some actual then False else True | None \<Rightarrow> True)
       else True) \<longleftrightarrow> \<not> (\<exists>recorded repo actual. rd_commit r = Some recorded \<and> rd_repository r = Some repo \<and>
        gitGetCurrentCommit ienv path = Some actual \<and> actual \<noteq> recorded)"
    by (cases "gitGetCurrentCommit ienv path") auto
  have sum: "(if rd_checksum r \<noteq> None
       then (case gitCalculateChecksum ienv path of Some actual \<Rightarrow> if rd_checksum r \<noteq> Some actual then False else v | None \<Rightarrow> v)
       else v) \<longleftrightarrow> v \<and> \<not> (\<exists>recorded actual. rd_checksum r = Some recorded \<and>
        gitCalculateChecksum ienv path = Some actual \<and> actual \<noteq> recorded)" for v
    by (cases "gitCalculateChecksum ienv path") auto
  show ?thesis
    unfolding verifyInstalledPackage_def deviates_def path_def [symmetric] Let_def commit sum
    by (simp only: if_bool_eq_conj simp_thms) blast
qed

text \<open>C35: verification against the lock file written after a resolution (when libyaml reads
  back what it wrote) fails exactly when the directory or the package file of some resolved
  package is missing, or git reports another commit than the one recorded with its
  repository, or the checksum calculated differs from the recorded one. A commit or checksum
  that cannot be determined is no failure, and nothing of the version is checked.\<close>

theorem verify_generated_lock_file:
  assumes "\<forall>dep\<in>set (resolved ctx). rd_name dep \<noteq> None"
    and "canCreate lenv lockPath" "reads_back lenv (lockEvents ctx)"
  shows "\<exists>files'. generateLockFile lenv files ctx lockPath = (True, files') \<and>
     (verifyLockFile lenv files' ienv lockPath dir \<longleftrightarrow>
        \<not> (\<exists>r\<in>set (resolved ctx). \<exists>path. path = take 1023 (dir @ ''/'' @ the (rd_name r)) \<and>
             (\<not> isDirectory ienv path \<or> \<not> isRegularFile ienv (take 1023 (path @ ''/Cxyfile.yaml'')) \<or>
              (\<exists>recorded repo actual. rd_commit r = Some recorded \<and> rd_repository r = Some repo \<and>
                 gitGetCurrentCommit ienv path = Some actual \<and> actual \<noteq> recorded) \<or>
              (\<exists>recorded actual. rd_checksum r = Some recorded \<and>
                 gitCalculateChecksum ienv path = Some actual \<and> actual \<noteq> recorded))))"
proof -
  obtain contents where g: "generateLockFile lenv files ctx lockPath = (True, files(lockPath \<mapsto> contents))"
      "parseYaml lenv contents = lockEvents ctx"
    by (rule generated_lock_file [OF assms(2,3)])
  define rs where "rs = map locked (filter (\<lambda>r. \<not> rd_isDev r) (resolved ctx)) @ map locked (filter rd_isDev (resolved ctx))"
  have "loadLockFile lenv (files(lockPath \<mapsto> contents)) lockPath initResolverContext = (True, initResolverContext\<lparr>resolved := rs\<rparr>)"
    using load_events [OF assms(1), of "files(lockPath \<mapsto> contents)" lockPath contents lenv initResolverContext] g(2)
    by (simp add: rs_def initResolverContext_def)
  then have v: "verifyLockFile lenv (files(lockPath \<mapsto> contents)) ienv lockPath dir \<longleftrightarrow>
      (\<forall>r\<in>set rs. \<not> deviates ienv (take 1023 (dir @ ''/'' @ the (rd_name r))) r)"
    by (auto simp: verifyLockFile_def verifyLoop_eq verifyInstalledPackage_deviates)
  have set: "set rs = locked ` set (resolved ctx)" by (auto simp: rs_def)
  have same: "deviates ienv path (locked r) \<longleftrightarrow> deviates ienv path r" "rd_name (locked r) = rd_name r" for path r
    by (simp_all add: deviates_def locked_def)
  have "verifyLockFile lenv (files(lockPath \<mapsto> contents)) ienv lockPath dir \<longleftrightarrow>
      \<not> (\<exists>r\<in>set (resolved ctx). \<exists>path. path = take 1023 (dir @ ''/'' @ the (rd_name r)) \<and> deviates ienv path r)"
    unfolding v set by (simp add: same)
  with g(1) show ?thesis unfolding deviates_def by blast
qed

definition demo_install :: install_env where
  "demo_install = \<lparr>isDirectory = (\<lambda>p. True), isRegularFile = (\<lambda>p. True),
     gitGetCurrentCommit = (\<lambda>p. Some ''x''), gitCalculateChecksum = (\<lambda>p. None)\<rparr>"

text \<open>The second package of the resolution above was resolved to commit \<open>b\<close>; an installation at
  another commit is reported.\<close>

theorem verify_generated_lock_file_witness:
  "\<exists>files'. generateLockFile demo_lock Map.empty demo_resolved ''Cxyfile.lock'' = (True, files') \<and>
     \<not> verifyLockFile demo_lock files' demo_install ''Cxyfile.lock'' ''pkgs''"
proof -
  have c: "canCreate demo_lock ''Cxyfile.lock''" by (simp add: demo_lock_def)
  have "list_ex (\<lambda>r. rd_commit r = Some ''b'' \<and> rd_repository r = Some ''r'') (resolved demo_resolved)" by code_simp
  then obtain r where r: "r \<in> set (resolved demo_resolved)" "rd_commit r = Some ''b''" "rd_repository r = Some ''r''"
    by (auto simp: list_ex_iff)
  have other: "deviates demo_install path r" for path
    using r by (simp add: deviates_def demo_install_def)
  obtain files' where f: "generateLockFile demo_lock Map.empty demo_resolved ''Cxyfile.lock'' = (True, files')"
      "verifyLockFile demo_lock files' demo_install ''Cxyfile.lock'' ''pkgs'' \<longleftrightarrow> \<not> (\<exists>r\<in>set (resolved demo_resolved).
         \<exists>path. path = take 1023 (''pkgs'' @ ''/'' @ the (rd_name r)) \<and> deviates demo_install path r)"
    using verify_generated_lock_file [OF demo_resolved_named c demo_lock_reads_back,
        of Map.empty demo_install "''pkgs''", folded deviates_def] by blast
  from f(2) r(1) other have "\<not> verifyLockFile demo_lock files' demo_install ''Cxyfile.lock'' ''pkgs''" by auto
  with f(1) show ?thesis by blast
qed

end
