(* ===== verification/Cxy_Scripts.thy ===== *)
theory Cxy_Scripts
  imports Cxy_Prelude
begin

text \<open>
  Package scripts and their dependencies (\<open>package/types.c\<close>): the lookup of a script, the
  recursive dependency resolution with cycle detection, and the validation of the scripts
  of a package. Dynamic arrays of strings are lists. The resolution pushes the current
  script on \<open>visiting\<close> and pops it when its dependencies are done, so \<open>visiting\<close> is an
  argument of the recursion; on an error every caller returns at once and the array is
  freed, so its content no longer matters. Errors are the logged diagnostics.
\<close>

record PackageScript =
  script_name :: cstring
  command :: "cstring option"
  dependencies :: "cstring list"
  inputs :: "cstring list"
  outputs :: "cstring list"

datatype script_error =
  CircularDependency cstring
| UndefinedScript cstring
| ScriptNameRequired
| MissingCommand cstring
| DependsOnUndefined cstring cstring

fun findScript :: "PackageScript list \<Rightarrow> cstring \<Rightarrow> PackageScript option" where
  "findScript [] name = None"
| "findScript (script # scripts) name =
     (if strcmp_sgn (script_name script) name = 0 then Some script else findScript scripts name)"

lemma findScript_eq: "findScript scripts name = List.find (\<lambda>s. script_name s = name) scripts"
  by (induction scripts) (auto simp: strcmp_eq_0)

lemma findScript_name:
  assumes "findScript scripts name = Some script"
  shows "script \<in> set scripts" "script_name script = name"
  using assms by (auto simp: findScript_eq find_Some_iff)

lemma findScript_measure:
  assumes "findScript scripts name = Some script" "name \<notin> set visiting"
  shows "card (script_name ` set scripts - set (visiting @ [name])) < card (script_name ` set scripts - set visiting)"
  using findScript_name [OF assms(1)] assms(2) by (intro psubset_card_mono) auto

text \<open>The state is the execution order and the visited scripts.\<close>

function (sequential) resolveScriptDepsRecursive ::
    "PackageScript list \<Rightarrow> cstring \<Rightarrow> cstring list \<Rightarrow> cstring list \<times> cstring list
       \<Rightarrow> script_error + cstring list \<times> cstring list"
  and resolveScriptDepsLoop ::
    "PackageScript list \<Rightarrow> cstring list \<Rightarrow> cstring list \<Rightarrow> cstring list \<times> cstring list
       \<Rightarrow> script_error + cstring list \<times> cstring list" where
  "resolveScriptDepsRecursive scripts scriptName visiting (executionOrder, visited) =
     (if scriptName \<in> set visited then Inr (executionOrder, visited)
      else if scriptName \<in> set visiting then Inl (CircularDependency scriptName)
      else case findScript scripts scriptName of
             None \<Rightarrow> Inl (UndefinedScript scriptName)
           | Some script \<Rightarrow>
               (case resolveScriptDepsLoop scripts (dependencies script) (visiting @ [scriptName])
                       (executionOrder, visited) of
                  Inl e \<Rightarrow> Inl e
                | Inr (executionOrder, visited) \<Rightarrow>
                    Inr (executionOrder @ [scriptName], visited @ [scriptName])))"
| "resolveScriptDepsLoop scripts [] visiting st = Inr st"
| "resolveScriptDepsLoop scripts (depName # deps) visiting st =
     (case resolveScriptDepsRecursive scripts depName visiting st of
        Inl e \<Rightarrow> Inl e
      | Inr st \<Rightarrow> resolveScriptDepsLoop scripts deps visiting st)"
  by pat_completeness auto
termination
  by (relation "measures [\<lambda>x. case x of
        Inl (scripts, _, visiting, _) \<Rightarrow> card (script_name ` set scripts - set visiting)
      | Inr (scripts, _, visiting, _) \<Rightarrow> card (script_name ` set scripts - set visiting),
      \<lambda>x. case x of Inl _ \<Rightarrow> 0 | Inr (_, deps, _, _) \<Rightarrow> Suc (length deps)]")
    (use findScript_measure in auto)

declare resolveScriptDepsRecursive.simps [simp del]

definition resolveScriptDependencies :: "PackageScript list \<Rightarrow> cstring \<Rightarrow> script_error + cstring list" where
  "resolveScriptDependencies scripts scriptName =
     (case resolveScriptDepsRecursive scripts scriptName [] ([], []) of
        Inl e \<Rightarrow> Inl e
      | Inr (executionOrder, _) \<Rightarrow> Inr executionOrder)"

text \<open>The diagnostics of one iteration of the first loop of \<open>validateScripts\<close>.\<close>

definition validateScript :: "PackageScript list \<Rightarrow> PackageScript \<Rightarrow> script_error list" where
  "validateScript scripts script =
     (if script_name script = [] then [ScriptNameRequired]
      else (case command script of
              None \<Rightarrow> [MissingCommand (script_name script)]
            | Some c \<Rightarrow> if c = [] then [MissingCommand (script_name script)] else []) @
           map (DependsOnUndefined (script_name script))
             (filter (\<lambda>depName. findScript scripts depName = None) (dependencies script)))"

text \<open>The second loop stops at the first script whose dependencies do not resolve.\<close>

fun checkCycles :: "PackageScript list \<Rightarrow> PackageScript list \<Rightarrow> script_error list" where
  "checkCycles scripts [] = []"
| "checkCycles scripts (script # rest) =
     (case resolveScriptDepsRecursive scripts (script_name script) [] ([], []) of
        Inl e \<Rightarrow> [e]
      | Inr _ \<Rightarrow> checkCycles scripts rest)"

text \<open>The returned flag and the logged diagnostics.\<close>

definition validateScripts :: "PackageScript list \<Rightarrow> bool \<times> script_error list" where
  "validateScripts scripts =
     (let errors = concat (map (validateScript scripts) scripts)
      in if errors \<noteq> [] then (False, errors)
         else let errors = checkCycles scripts scripts in (errors = [], errors))"

section \<open>The dependency graph\<close>

definition defined :: "PackageScript list \<Rightarrow> cstring \<Rightarrow> bool" where
  "defined scripts n \<longleftrightarrow> findScript scripts n \<noteq> None"

definition dep :: "PackageScript list \<Rightarrow> (cstring \<times> cstring) set" where
  "dep scripts = {(a, b). \<exists>s. findScript scripts a = Some s \<and> b \<in> set (dependencies s)}"

text \<open>An execution order: every script is defined, occurs once, and comes after the scripts it
  depends on.\<close>

fun topo :: "PackageScript list \<Rightarrow> cstring list \<Rightarrow> cstring list \<Rightarrow> bool" where
  "topo scripts done [] = True"
| "topo scripts done (n # ns) =
     (n \<notin> set done \<and> defined scripts n \<and> {b. (n, b) \<in> dep scripts} \<subseteq> set done \<and> topo scripts (done @ [n]) ns)"

lemma topo_append: "topo scripts d (xs @ ys) \<longleftrightarrow> topo scripts d xs \<and> topo scripts (d @ xs) ys"
  by (induction xs arbitrary: d) auto

lemma topo_distinct: "topo scripts d xs \<Longrightarrow> distinct xs \<and> set xs \<inter> set d = {}"
  by (induction xs arbitrary: d) fastforce+

lemma topo_closed:
  "topo scripts d xs \<Longrightarrow> n \<in> set xs \<Longrightarrow> (n, b) \<in> dep scripts \<Longrightarrow> b \<in> set d \<union> set xs"
  by (induction xs arbitrary: d) fastforce+

lemma topo_defined: "topo scripts d xs \<Longrightarrow> n \<in> set xs \<Longrightarrow> defined scripts n"
  by (induction xs arbitrary: d) auto

text \<open>A topological order has no cycle.\<close>

lemma topo_trancl:
  assumes "topo scripts [] xs" "(a, b) \<in> (dep scripts)\<^sup>+" "xs = ys @ a # zs"
  shows "b \<in> set ys"
  using assms(2,1,3)
proof (induction arbitrary: ys zs rule: converse_trancl_induct)
  case (base a)
  then show ?case by (auto simp: topo_append)
next
  case (step a c)
  then have "c \<in> set ys" by (auto simp: topo_append)
  then obtain us vs where ys: "ys = us @ c # vs" by (auto simp: in_set_conv_decomp)
  with step have "b \<in> set us" by simp
  with ys show ?case by simp
qed

lemma topo_acyclic:
  assumes "topo scripts [] xs" "a \<in> set xs"
  shows "(a, a) \<notin> (dep scripts)\<^sup>+"
proof
  assume c: "(a, a) \<in> (dep scripts)\<^sup>+"
  from assms(2) obtain ys zs where "xs = ys @ a # zs" by (auto simp: in_set_conv_decomp)
  with topo_trancl [OF assms(1) c this] topo_distinct [OF assms(1)] show False by auto
qed

section \<open>Soundness and completeness of the resolution\<close>

lemma resolve_sound:
  "resolveScriptDepsRecursive scripts name visiting (ord, vis) = Inr (ord', vis') \<Longrightarrow>
   ord = vis \<Longrightarrow> topo scripts [] ord \<Longrightarrow> set visiting \<inter> set vis = {} \<Longrightarrow>
   \<exists>ext. ord' = ord @ ext \<and> vis' = ord' \<and> topo scripts [] ord' \<and> set visiting \<inter> set vis' = {} \<and>
     name \<in> set ord' \<and> (\<forall>x\<in>set ext. (name, x) \<in> (dep scripts)\<^sup>*) \<and> (name \<notin> set ord \<longrightarrow> ext \<noteq> [] \<and> last ext = name)"
  "resolveScriptDepsLoop scripts deps visiting st = Inr st' \<Longrightarrow>
   fst st = snd st \<Longrightarrow> topo scripts [] (fst st) \<Longrightarrow> set visiting \<inter> set (snd st) = {} \<Longrightarrow>
   \<exists>ext. fst st' = fst st @ ext \<and> snd st' = fst st' \<and> topo scripts [] (fst st') \<and> set visiting \<inter> set (snd st') = {} \<and>
     set deps \<subseteq> set (fst st') \<and> (\<forall>x\<in>set ext. \<exists>d\<in>set deps. (d, x) \<in> (dep scripts)\<^sup>*)"
proof (induction scripts name visiting "(ord, vis)" and scripts deps visiting st
    arbitrary: ord vis ord' vis' and st' rule: resolveScriptDepsRecursive_resolveScriptDepsLoop.induct)
  case (1 scripts name visiting ord vis)
  show ?case
  proof (cases "name \<in> set vis")
    case True
    with "1.prems" show ?thesis by (intro exI [of _ "[]"]) (auto simp: resolveScriptDepsRecursive.simps)
  next
    case new: False
    from "1.prems"(1) new obtain script where s: "name \<notin> set visiting" "findScript scripts name = Some script"
      by (auto simp: resolveScriptDepsRecursive.simps split: if_splits option.splits)
    from "1.prems"(1) new s obtain o1 v1 where
        r: "resolveScriptDepsLoop scripts (dependencies script) (visiting @ [name]) (ord, vis) = Inr (o1, v1)"
      and fin: "ord' = o1 @ [name]" "vis' = v1 @ [name]"
      by (auto simp: resolveScriptDepsRecursive.simps split: sum.splits)
    from "1.hyps" [OF new s r] "1.prems" new obtain ext where ext: "o1 = ord @ ext" "v1 = o1" "topo scripts [] o1"
        "set (visiting @ [name]) \<inter> set v1 = {}" "set (dependencies script) \<subseteq> set o1"
        "\<forall>x\<in>set ext. \<exists>d\<in>set (dependencies script). (d, x) \<in> (dep scripts)\<^sup>*"
      by auto
    have out: "{b. (name, b) \<in> dep scripts} = set (dependencies script)" using s by (auto simp: dep_def)
    then have "topo scripts [] ord'"
      using ext s fin by (auto simp: topo_append defined_def)
    moreover have "(name, x) \<in> (dep scripts)\<^sup>*" if "x \<in> set (ext @ [name])" for x
      using that ext(6) out by (fastforce intro: converse_rtrancl_into_rtrancl)
    ultimately show ?thesis
      using ext fin s "1.prems"(4) by (intro exI [of _ "ext @ [name]"]) auto
  qed
next
  case (2 scripts visiting st)
  then show ?case by auto
next
  case (3 scripts depName deps visiting st)
  obtain o0 v0 where st: "st = (o0, v0)" by force
  from "3.prems"(1) st obtain o1 v1 where r: "resolveScriptDepsRecursive scripts depName visiting (o0, v0) = Inr (o1, v1)"
      "resolveScriptDepsLoop scripts deps visiting (o1, v1) = Inr st'"
    by (auto split: sum.splits)
  from "3.hyps"(1) [OF st r(1)] "3.prems" st obtain e1 where e1: "o1 = o0 @ e1" "v1 = o1" "topo scripts [] o1"
      "set visiting \<inter> set v1 = {}" "depName \<in> set o1" "\<forall>x\<in>set e1. (depName, x) \<in> (dep scripts)\<^sup>*"
    by auto
  from "3.hyps"(2) [OF _ r(2)] r(1) e1 st obtain e2 where e2: "fst st' = o1 @ e2" "snd st' = fst st'"
      "topo scripts [] (fst st')" "set visiting \<inter> set (snd st') = {}" "set deps \<subseteq> set (fst st')"
      "\<forall>x\<in>set e2. \<exists>d\<in>set deps. (d, x) \<in> (dep scripts)\<^sup>*"
    by auto
  from e1 e2 st show ?case by (intro exI [of _ "e1 @ e2"]) auto
qed

text \<open>What each diagnostic says about the graph below a script.\<close>

fun blames :: "PackageScript list \<Rightarrow> cstring \<Rightarrow> script_error \<Rightarrow> bool" where
  "blames scripts name (CircularDependency n) \<longleftrightarrow> (name, n) \<in> (dep scripts)\<^sup>* \<and> (n, n) \<in> (dep scripts)\<^sup>+"
| "blames scripts name (UndefinedScript n) \<longleftrightarrow> (name, n) \<in> (dep scripts)\<^sup>* \<and> \<not> defined scripts n"
| "blames scripts name _ \<longleftrightarrow> False"

lemma blames_step: "(a, b) \<in> dep scripts \<Longrightarrow> blames scripts b e \<Longrightarrow> blames scripts a e"
  by (cases e) (auto intro: converse_rtrancl_into_rtrancl)

lemma resolve_errors:
  "resolveScriptDepsRecursive scripts name visiting ov = Inl e \<Longrightarrow>
   \<forall>v\<in>set visiting. (v, name) \<in> (dep scripts)\<^sup>+ \<Longrightarrow> blames scripts name e"
  "resolveScriptDepsLoop scripts deps visiting st = Inl e \<Longrightarrow>
   \<forall>v\<in>set visiting. \<forall>d\<in>set deps. (v, d) \<in> (dep scripts)\<^sup>+ \<Longrightarrow> \<exists>d\<in>set deps. blames scripts d e"
proof (induction scripts name visiting ov and scripts deps visiting st
    rule: resolveScriptDepsRecursive_resolveScriptDepsLoop.induct)
  case (1 scripts name visiting ord vis)
  from "1.prems"(1) have new: "name \<notin> set vis" by (auto simp: resolveScriptDepsRecursive.simps)
  show ?case
  proof (cases "name \<in> set visiting")
    case True
    with 1 new show ?thesis by (auto simp: resolveScriptDepsRecursive.simps)
  next
    case nv: False
    show ?thesis
    proof (cases "findScript scripts name")
      case None
      with 1 new nv show ?thesis by (auto simp: resolveScriptDepsRecursive.simps defined_def)
    next
      case (Some script)
      then have d: "(name, x) \<in> dep scripts" if "x \<in> set (dependencies script)" for x
        using that by (auto simp: dep_def)
      from "1.prems"(1) new nv Some
      have "resolveScriptDepsLoop scripts (dependencies script) (visiting @ [name]) (ord, vis) = Inl e"
        by (auto simp: resolveScriptDepsRecursive.simps split: sum.splits)
      moreover have "\<forall>v\<in>set (visiting @ [name]). \<forall>x\<in>set (dependencies script). (v, x) \<in> (dep scripts)\<^sup>+"
        using "1.prems"(2) d by (auto intro: trancl_into_trancl)
      ultimately show ?thesis using "1.IH" [OF new nv Some] d blames_step by blast
    qed
  qed
next
  case (3 scripts depName deps visiting st)
  then show ?case by (cases "resolveScriptDepsRecursive scripts depName visiting st") auto
qed auto

lemma resolve_from_scratch:
  assumes "resolveScriptDepsRecursive scripts name [] ([], []) = Inr (ord, vis)"
  shows "topo scripts [] ord" "ord \<noteq> []" "last ord = name" "set ord = {x. (name, x) \<in> (dep scripts)\<^sup>*}"
proof -
  from resolve_sound(1) [OF assms] show t: "topo scripts [] ord" and "ord \<noteq> []" "last ord = name" by auto
  from resolve_sound(1) [OF assms] have n: "name \<in> set ord" and r: "\<forall>x\<in>set ord. (name, x) \<in> (dep scripts)\<^sup>*" by auto
  have "x \<in> set ord" if "(name, x) \<in> (dep scripts)\<^sup>*" for x
    using that by (induction rule: rtrancl_induct) (use n topo_closed [OF t] in auto)
  with r show "set ord = {x. (name, x) \<in> (dep scripts)\<^sup>*}" by auto
qed

lemma rtrancl_undefined: "(n, x) \<in> (dep scripts)\<^sup>* \<Longrightarrow> \<not> defined scripts n \<Longrightarrow> x = n"
  by (erule converse_rtranclE) (auto simp: dep_def defined_def)

lemma resolve_ok_iff:
  "(\<exists>st. resolveScriptDepsRecursive scripts name [] ([], []) = Inr st) \<longleftrightarrow>
   (\<forall>x. (name, x) \<in> (dep scripts)\<^sup>* \<longrightarrow> defined scripts x \<and> (x, x) \<notin> (dep scripts)\<^sup>+)"
proof (cases "resolveScriptDepsRecursive scripts name [] ([], [])")
  case (Inl e)
  then have "blames scripts name e" using resolve_errors(1) by fastforce
  with Inl show ?thesis by (cases e) auto
next
  case (Inr st)
  then obtain ord vis where "resolveScriptDepsRecursive scripts name [] ([], []) = Inr (ord, vis)" by (cases st) auto
  from resolve_from_scratch [OF this] Inr topo_acyclic topo_defined show ?thesis by blast
qed

text \<open>C23: resolving a script that resolves returns its execution order: the script itself last, exactly
  the scripts it reaches through dependencies, each once and after all the scripts it depends
  on. A failure names its reason truthfully: a reachable script on a dependency cycle, or a
  reachable name that no script has.\<close>

theorem resolveScriptDependencies_correct:
  "case resolveScriptDependencies scripts name of
     Inr order \<Rightarrow> topo scripts [] order \<and> distinct order \<and> order \<noteq> [] \<and> last order = name \<and>
       set order = {x. (name, x) \<in> (dep scripts)\<^sup>*}
   | Inl e \<Rightarrow> blames scripts name e"
proof (cases "resolveScriptDepsRecursive scripts name [] ([], [])")
  case (Inl e)
  then show ?thesis using resolve_errors(1) by (fastforce simp: resolveScriptDependencies_def)
next
  case (Inr st)
  then obtain ord vis where "resolveScriptDepsRecursive scripts name [] ([], []) = Inr (ord, vis)" by (cases st) auto
  from resolve_from_scratch [OF this] topo_distinct show ?thesis
    using \<open>_ = Inr (ord, vis)\<close> by (auto simp: resolveScriptDependencies_def)
qed

section \<open>Validation of the scripts of a package\<close>

lemma checkCycles_Nil:
  "checkCycles scripts rest = [] \<longleftrightarrow>
   (\<forall>s\<in>set rest. \<exists>st. resolveScriptDepsRecursive scripts (script_name s) [] ([], []) = Inr st)"
  by (induction rest) (auto split: sum.splits)

definition well_formed_script :: "PackageScript list \<Rightarrow> PackageScript \<Rightarrow> bool" where
  "well_formed_script scripts s \<longleftrightarrow> script_name s \<noteq> [] \<and> command s \<noteq> None \<and> command s \<noteq> Some [] \<and>
     (\<forall>d\<in>set (dependencies s). defined scripts d)"

lemma validateScript_Nil: "validateScript scripts s = [] \<longleftrightarrow> well_formed_script scripts s"
  by (auto simp: validateScript_def well_formed_script_def defined_def filter_empty_conv split: option.splits)

lemma reach_defined:
  assumes "\<forall>s\<in>set scripts. well_formed_script scripts s" "(n, x) \<in> (dep scripts)\<^sup>*" "defined scripts n"
  shows "defined scripts x"
  using assms(2,3)
proof (induction rule: rtrancl_induct)
  case (step y z)
  then show ?case using assms(1) findScript_name(1) by (fastforce simp: dep_def well_formed_script_def)
qed

lemma script_name_defined: "s \<in> set scripts \<Longrightarrow> defined scripts (script_name s)"
  by (auto simp: defined_def findScript_eq find_None_iff)

text \<open>C24: a package's scripts are accepted exactly when each has a name, a command and only
  dependencies that exist, and the dependency graph has no cycle; then every script of the
  package resolves to an execution order.\<close>

theorem validateScripts_iff:
  "fst (validateScripts scripts) \<longleftrightarrow>
     (\<forall>s\<in>set scripts. well_formed_script scripts s) \<and> acyclic (dep scripts)"
proof (cases "\<forall>s\<in>set scripts. well_formed_script scripts s")
  case wf: True
  have "concat (map (validateScript scripts) scripts) = []"
    using wf by (simp add: validateScript_Nil)
  then have "fst (validateScripts scripts) \<longleftrightarrow>
      (\<forall>s\<in>set scripts. \<forall>x. (script_name s, x) \<in> (dep scripts)\<^sup>* \<longrightarrow> defined scripts x \<and> (x, x) \<notin> (dep scripts)\<^sup>+)"
    by (simp only: validateScripts_def checkCycles_Nil resolve_ok_iff Let_def if_False simp_thms fst_conv)
  moreover have "\<exists>s\<in>set scripts. script_name s = x" if "(x, x) \<in> (dep scripts)\<^sup>+" for x
    using tranclD [OF that] by (auto simp: dep_def dest: findScript_name)
  ultimately show ?thesis
    using wf reach_defined [OF wf] script_name_defined by (fastforce simp: acyclic_def)
next
  case False
  then have "concat (map (validateScript scripts) scripts) \<noteq> []" by (auto simp: validateScript_Nil)
  with False show ?thesis by (simp add: validateScripts_def)
qed

definition demo_scripts :: "PackageScript list" where
  "demo_scripts = [\<lparr>script_name = ''test'', command = Some ''run'', dependencies = [''build''], inputs = [], outputs = []\<rparr>,
     \<lparr>script_name = ''build'', command = Some ''make'', dependencies = [], inputs = [], outputs = []\<rparr>]"

theorem validateScripts_iff_witness: "fst (validateScripts demo_scripts) \<and> acyclic (dep demo_scripts)"
proof -
  have "fst (validateScripts demo_scripts)" by code_simp
  with validateScripts_iff [of demo_scripts] show ?thesis by blast
qed

end
