(* ===== verification/Cxy_Validators.thy ===== *)
theory Cxy_Validators
  imports Cxy_SemVer "HOL-Library.Sublist"
begin

text \<open>
  The validators of the package manager (\<open>package/validators.c\<close>): package names, versions,
  repositories and license identifiers. Each returns the message that rejects its argument,
  a value of a datatype here, or \<open>NULL\<close> (\<open>None\<close>) when it accepts.
\<close>

datatype validation_error =
  NameEmpty | NameTooLong | NameStart | NameDots | NameCharacter | NameConsecutive | NameEnd
| VersionEmpty | VersionPrefix | VersionStart | VersionLeadingZero | VersionFormat | VersionMinor | VersionPatch
| PrereleaseEmpty | PrereleaseCharacter | BuildEmpty | BuildCharacter | VersionInvalid
| RepositoryEmpty | RepositoryWhitespace | MissingHost | MissingPath | SshFormat | SshPath
| ShortMissing | ShortFormat | RepositoryInvalid
| LicenseFileEmpty | LicenseInvalid

section \<open>Package names\<close>

fun nameLoop :: "char \<Rightarrow> cstring \<Rightarrow> validation_error option" where
  "nameLoop prev [] = None"
| "nameLoop prev (c # cs) =
     (if \<not> islower c \<and> \<not> isdigit c \<and> c \<noteq> CHR ''-'' \<and> c \<noteq> CHR ''_'' then Some NameCharacter
      else if c = CHR ''-'' \<and> prev = CHR ''-'' \<or> c = CHR ''_'' \<and> prev = CHR ''_'' then Some NameConsecutive
      else nameLoop c cs)"

definition validatePackageName :: "cstring option \<Rightarrow> validation_error option" where
  "validatePackageName name =
     (case name of
        None \<Rightarrow> Some NameEmpty
      | Some name \<Rightarrow>
          if cur name = nul then Some NameEmpty
          else if length name > 214 then Some NameTooLong
          else if \<not> islower (cur name) then Some NameStart
          else if strcmp_sgn name ''.'' = 0 \<or> strcmp_sgn name ''..'' = 0 then Some NameDots
          else case nameLoop (cur name) (tl name) of
                 Some e \<Rightarrow> Some e
               | None \<Rightarrow>
                   let c = name ! (length name - 1)
                   in if c = CHR ''-'' \<or> c = CHR ''_'' then Some NameEnd else None)"

section \<open>Versions\<close>

text \<open>The first character is a digit where \<open>strtoul\<close> is called, so it only moves over digits;
  the numbers it returns are not used.\<close>

definition strtoul_end :: "cstring \<Rightarrow> cstring" where
  "strtoul_end p = dropWhile isdigit p"

definition isIdentChar :: "char \<Rightarrow> bool" where
  "isIdentChar c \<longleftrightarrow> isalnum c \<or> c = CHR ''.'' \<or> c = CHR ''-''"

text \<open>The two loops over the prerelease and the build metadata: the first character that is
  not allowed, or the position where the loop ends.\<close>

fun prereleaseLoop :: "cstring \<Rightarrow> validation_error + cstring" where
  "prereleaseLoop [] = Inr []"
| "prereleaseLoop (c # p) =
     (if c = CHR ''+'' then Inr (c # p)
      else if \<not> isIdentChar c then Inl PrereleaseCharacter
      else prereleaseLoop p)"

fun buildLoop :: "cstring \<Rightarrow> validation_error + cstring" where
  "buildLoop [] = Inr []"
| "buildLoop (c # p) = (if \<not> isIdentChar c then Inl BuildCharacter else buildLoop p)"

definition validateBuild :: "cstring \<Rightarrow> validation_error option" where
  "validateBuild p =
     (case (if cur p = CHR ''+''
            then if cur (tl p) = nul then Inl BuildEmpty else buildLoop (tl p)
            else Inr p) of
        Inl e \<Rightarrow> Some e
      | Inr p \<Rightarrow> if cur p \<noteq> nul then Some VersionInvalid else None)"

definition validateVersionTail :: "cstring \<Rightarrow> validation_error option" where
  "validateVersionTail p =
     (if cur p = nul then None
      else case (if cur p = CHR ''-''
                 then if cur (tl p) = nul \<or> cur (tl p) = CHR ''+'' then Inl PrereleaseEmpty
                      else prereleaseLoop (tl p)
                 else Inr p) of
             Inl e \<Rightarrow> Some e
           | Inr p \<Rightarrow> validateBuild p)"

definition validateSemanticVersion :: "cstring option \<Rightarrow> validation_error option" where
  "validateSemanticVersion version =
     (case version of
        None \<Rightarrow> Some VersionEmpty
      | Some p \<Rightarrow>
          if cur p = nul then Some VersionEmpty
          else if cur p = CHR ''v'' \<or> cur p = CHR ''V'' then Some VersionPrefix
          else if \<not> isdigit (cur p) then Some VersionStart
          else if cur p = CHR ''0'' \<and> isdigit (cur (tl p)) then Some VersionLeadingZero
          else let p = strtoul_end p
          in if cur p \<noteq> CHR ''.'' then Some VersionFormat
          else let p = tl p
          in if \<not> isdigit (cur p) then Some VersionMinor
          else if cur p = CHR ''0'' \<and> isdigit (cur (tl p)) then Some VersionLeadingZero
          else let p = strtoul_end p
          in if cur p \<noteq> CHR ''.'' then Some VersionFormat
          else let p = tl p
          in if \<not> isdigit (cur p) then Some VersionPatch
          else if cur p = CHR ''0'' \<and> isdigit (cur (tl p)) then Some VersionLeadingZero
          else validateVersionTail (strtoul_end p))"

section \<open>Repositories\<close>

text \<open>\<open>strchr\<close>: the suffix at the first occurrence, or \<open>None\<close>.\<close>

definition strchr :: "cstring \<Rightarrow> char \<Rightarrow> cstring option" where
  "strchr s c = (if c \<in> set s then Some (dropWhile (\<lambda>x. x \<noteq> c) s) else None)"

definition validateHostPath :: "cstring \<Rightarrow> validation_error option" where
  "validateHostPath host =
     (if cur host = nul \<or> cur host = CHR ''/'' then Some MissingHost
      else case strchr host (CHR ''/'') of
             None \<Rightarrow> Some MissingPath
           | Some path \<Rightarrow> if cur (tl path) = nul then Some MissingPath else None)"

definition platforms :: "cstring list" where
  "platforms = [''github'', ''gitlab'', ''bitbucket'']"

definition validateGitRepository :: "cstring option \<Rightarrow> validation_error option" where
  "validateGitRepository repository =
     (case repository of
        None \<Rightarrow> Some RepositoryEmpty
      | Some repository \<Rightarrow>
          if cur repository = nul then Some RepositoryEmpty
          else if list_ex isspace repository then Some RepositoryWhitespace
          else if strncmp_eq 8 repository ''https://'' \<or> strncmp_eq 7 repository ''http://''
          then validateHostPath (drop 3 (the (strchr repository (CHR '':''))))
          else if strncmp_eq 6 repository ''git://'' then validateHostPath (drop 6 repository)
          else if strncmp_eq 4 repository ''git@''
          then (case strchr repository (CHR '':'') of
                  None \<Rightarrow> Some SshFormat
                | Some colon \<Rightarrow>
                    if length repository - length colon = 4 then Some SshFormat
                    else if cur (tl colon) = nul then Some SshPath
                    else None)
          else if strncmp_eq 6 repository ''ssh://'' then validateHostPath (drop 6 repository)
          else case strchr repository (CHR '':'') of
                 None \<Rightarrow> Some RepositoryInvalid
               | Some colon \<Rightarrow>
                   let prefix_len = length repository - length colon
                   in if list_ex (\<lambda>pl. strncmp_eq prefix_len repository pl \<and> length pl = prefix_len) platforms
                      then let path = tl colon
                           in if cur path = nul then Some ShortMissing
                              else (case strchr path (CHR ''/'') of
                                      None \<Rightarrow> Some ShortFormat
                                    | Some slash \<Rightarrow>
                                        if slash = path \<or> cur (tl slash) = nul then Some ShortFormat else None)
                      else Some RepositoryInvalid)"

section \<open>Licenses\<close>

definition tolower :: "char \<Rightarrow> char" where
  "tolower c = (if isupper c then char_of (code c + 32) else c)"

definition strcasecmp_eq :: "cstring \<Rightarrow> cstring \<Rightarrow> bool" where
  "strcasecmp_eq a b \<longleftrightarrow> map tolower a = map tolower b"

definition strncasecmp_eq :: "nat \<Rightarrow> cstring \<Rightarrow> cstring \<Rightarrow> bool" where
  "strncasecmp_eq n a b \<longleftrightarrow> map tolower (take n a) = map tolower (take n b)"

definition common_licenses :: "cstring list" where
  "common_licenses = [''MIT'', ''Apache-2.0'', ''GPL-2.0'', ''GPL-2.0-only'', ''GPL-2.0-or-later'', ''GPL-3.0'',
     ''GPL-3.0-only'', ''GPL-3.0-or-later'', ''LGPL-2.1'', ''LGPL-2.1-only'', ''LGPL-2.1-or-later'', ''LGPL-3.0'',
     ''LGPL-3.0-only'', ''LGPL-3.0-or-later'', ''BSD-2-Clause'', ''BSD-3-Clause'', ''BSD-4-Clause'', ''ISC'',
     ''MPL-2.0'', ''AGPL-3.0'', ''AGPL-3.0-only'', ''AGPL-3.0-or-later'', ''Unlicense'', ''CC0-1.0'', ''CC-BY-4.0'',
     ''CC-BY-SA-4.0'', ''WTFPL'', ''Zlib'', ''Artistic-2.0'', ''EPL-2.0'', ''BSL-1.0'', ''PostgreSQL'', ''0BSD'']"

definition validateLicenseIdentifier :: "cstring option \<Rightarrow> validation_error option" where
  "validateLicenseIdentifier license =
     (case license of
        None \<Rightarrow> None
      | Some license \<Rightarrow>
          if cur license = nul then None
          else if strcasecmp_eq license ''UNLICENSED'' \<or> strcasecmp_eq license ''PROPRIETARY'' then None
          else if strncasecmp_eq 15 license ''SEE LICENSE IN ''
          then if length license = 15 then Some LicenseFileEmpty else None
          else if list_ex (strcasecmp_eq license) common_licenses then None
          else Some LicenseInvalid)"

section \<open>What is accepted\<close>

definition isNameChar :: "char \<Rightarrow> bool" where
  "isNameChar c \<longleftrightarrow> islower c \<or> isdigit c \<or> c = CHR ''-'' \<or> c = CHR ''_''"

lemma nameLoop_None:
  "nameLoop prev cs = None \<longleftrightarrow> list_all isNameChar cs \<and> \<not> sublist ''--'' (prev # cs) \<and> \<not> sublist ''__'' (prev # cs)"
  by (induction prev cs rule: nameLoop.induct) (auto simp: sublist_Cons_right isNameChar_def)

lemma islower_not: "islower c \<Longrightarrow> isNameChar c \<and> c \<noteq> nul \<and> c \<noteq> CHR ''.'' \<and> c \<noteq> CHR ''-'' \<and> c \<noteq> CHR ''_''"
  by (auto simp: ctype_defs nul_def isNameChar_def)

text \<open>C39: a package name is accepted exactly when it has at most 214 characters, starts with a
  lowercase letter, consists of lowercase letters, digits, hyphens and underscores, does not
  end in a hyphen or underscore, and has no two adjacent hyphens or underscores.\<close>

theorem validatePackageName_iff:
  "validatePackageName (Some name) = None \<longleftrightarrow>
     name \<noteq> [] \<and> length name \<le> 214 \<and> islower (hd name) \<and> list_all isNameChar name \<and>
     last name \<notin> {CHR ''-'', CHR ''_''} \<and> \<not> sublist ''--'' name \<and> \<not> sublist ''__'' name"
proof (cases name)
  case Nil
  then show ?thesis by (simp add: validatePackageName_def)
next
  case (Cons c cs)
  have last: "name ! (length name - 1) = last name" using Cons by (simp add: last_conv_nth)
  show ?thesis
  proof (cases "islower c")
    case True
    have "strcmp_sgn name ''.'' \<noteq> 0" "strcmp_sgn name ''..'' \<noteq> 0"
      using islower_not [OF True] Cons unfolding strcmp_eq_0 by auto
    then show ?thesis
      using True islower_not [OF True] Cons last nameLoop_None [of c cs]
      by (auto simp: validatePackageName_def Let_def split: option.splits)
  next
    case False
    then show ?thesis using Cons by (simp add: validatePackageName_def)
  qed
qed

text \<open>The digits of the three numbers of a version.\<close>

definition components :: "cstring \<Rightarrow> cstring list" where
  "components s =
     (let p = tl (strtoul_end s); q = tl (strtoul_end p)
      in [takeWhile isdigit s, takeWhile isdigit p, takeWhile isdigit q])"

lemma parseNumber_scan:
  assumes "isdigit (cur p)"
  shows "dec_val 0 (takeWhile isdigit p) < 2 ^ 32 \<Longrightarrow>
      parseNumber p n = (True, strtoul_end p, of_nat (dec_val 0 (takeWhile isdigit p)))"
    and "\<not> dec_val 0 (takeWhile isdigit p) < 2 ^ 32 \<Longrightarrow> \<not> fst (parseNumber p n)"
proof -
  let ?ds = "takeWhile isdigit p"
  have p: "p = ?ds @ strtoul_end p" by (simp add: strtoul_end_def)
  have ds: "?ds \<noteq> []" "\<And>c. c \<in> set ?ds \<Longrightarrow> isdigit c"
    using assms by (cases p; auto dest: set_takeWhileD)+
  have rest: "\<not> isdigit (cur (strtoul_end p))"
    unfolding strtoul_end_def by (induction p) auto
  show "dec_val 0 ?ds < 2 ^ 32 \<Longrightarrow> parseNumber p n = (True, strtoul_end p, of_nat (dec_val 0 ?ds))"
    using parseNumber_digits [OF ds rest, of n] p by simp
  show "\<not> dec_val 0 ?ds < 2 ^ 32 \<Longrightarrow> \<not> fst (parseNumber p n)"
    using parseNumberLoop_digits [of ?ds "strtoul_end p" 0, OF ds(2) rest] p assms by (simp add: parseNumber_def)
qed

lemma validateVersionTail_start: "validateVersionTail p = None \<Longrightarrow> cur p = nul \<or> cur p = CHR ''-'' \<or> cur p = CHR ''+''"
  by (auto simp: validateVersionTail_def validateBuild_def split: if_splits)

lemma valid_version_parses:
  assumes "validateSemanticVersion (Some s) = None"
  shows "(\<exists>v. parseSemanticVersion (Some s) = Inr v) \<longleftrightarrow> list_all (\<lambda>ds. dec_val 0 ds < 2 ^ 32) (components s)"
proof -
  define p where "p = tl (strtoul_end s)"
  define q where "q = tl (strtoul_end p)"
  have d: "isdigit (cur s)" "isdigit (cur p)" "isdigit (cur q)"
    and dot: "cur (strtoul_end s) = CHR ''.''" "cur (strtoul_end p) = CHR ''.''"
    and tail: "validateVersionTail (strtoul_end q) = None" and v: "cur s \<noteq> nul" "cur s \<noteq> CHR ''v''" "cur s \<noteq> CHR ''V''"
    using assms by (auto simp: validateSemanticVersion_def p_def q_def Let_def split: if_splits)
  have ok: "\<exists>v'. parseVersionTail v (strtoul_end q) = Inr v'" for v
    using validateVersionTail_start [OF tail] by (auto simp: parseVersionTail_def Let_def)
  note scan = parseNumber_scan [OF d(1), of 0] parseNumber_scan [OF d(2), of 0] parseNumber_scan [OF d(3), of 0]
  consider "dec_val 0 (takeWhile isdigit s) < 2 ^ 32" "dec_val 0 (takeWhile isdigit p) < 2 ^ 32" "dec_val 0 (takeWhile isdigit q) < 2 ^ 32"
    | "\<not> dec_val 0 (takeWhile isdigit s) < 2 ^ 32"
    | "dec_val 0 (takeWhile isdigit s) < 2 ^ 32" "\<not> dec_val 0 (takeWhile isdigit p) < 2 ^ 32"
    | "dec_val 0 (takeWhile isdigit s) < 2 ^ 32" "dec_val 0 (takeWhile isdigit p) < 2 ^ 32" "\<not> dec_val 0 (takeWhile isdigit q) < 2 ^ 32"
    by blast
  then have "(\<exists>v. parseSemanticVersion (Some s) = Inr v) \<longleftrightarrow> dec_val 0 (takeWhile isdigit s) < 2 ^ 32 \<and>
      dec_val 0 (takeWhile isdigit p) < 2 ^ 32 \<and> dec_val 0 (takeWhile isdigit q) < 2 ^ 32"
  proof cases
    case 1
    with scan ok v dot show ?thesis by (simp add: parseSemanticVersion_def p_def [symmetric] q_def [symmetric])
  next
    case 2
    with scan(2) v show ?thesis
      by (cases "parseNumber s 0") (auto simp: parseSemanticVersion_def)
  next
    case 3
    with scan(1,4) v dot show ?thesis
      by (cases "parseNumber p 0") (auto simp: parseSemanticVersion_def p_def [symmetric])
  next
    case 4
    with scan(1,3,6) v dot show ?thesis
      by (cases "parseNumber q 0") (auto simp: parseSemanticVersion_def p_def [symmetric] q_def [symmetric])
  qed
  then show ?thesis by (simp add: components_def p_def q_def Let_def)
qed

text \<open>A version that passes the validator is parsed by the semantic version parser exactly
  when each of its three numbers fits 32 bits, which the validator does not check.\<close>

theorem validated_version_parses:
  assumes "validateSemanticVersion (Some s) = None"
  shows "(\<exists>v. parseSemanticVersion (Some s) = Inr v) \<longleftrightarrow> list_all (\<lambda>ds. dec_val 0 ds < 2 ^ 32) (components s)"
  by (rule valid_version_parses [OF assms])

theorem validated_version_parses_witness:
  "\<exists>v. parseSemanticVersion (Some ''1.20.3-rc.1'') = Inr v"
proof -
  have "validateSemanticVersion (Some ''1.20.3-rc.1'') = None" by code_simp
  moreover have "list_all (\<lambda>ds. dec_val 0 ds < 2 ^ 32) (components ''1.20.3-rc.1'')"
    by (simp add: components_def strtoul_end_def ctype_defs digit_val_def)
  ultimately show ?thesis using validated_version_parses by blast
qed

lemma showu_leading_zero: "0 < n \<Longrightarrow> cur (showu n) \<noteq> CHR ''0''"
proof (induction n rule: showu.induct)
  case (1 n)
  show ?case
  proof (cases "n < 10")
    case True
    have "digit_char n \<noteq> digit_char 0"
      using 1(2) True digit_val_char [of n] digit_val_char [of 0] by force
    with True show ?thesis by (subst showu.simps) (simp add: digit_char_eval)
  next
    case False
    with 1 have "cur (showu (n div 10)) \<noteq> CHR ''0''" by simp
    moreover have "cur (showu (n div 10) @ [digit_char (n mod 10)]) = cur (showu (n div 10))"
      by (cases "showu (n div 10)") (use showu_nonempty in auto)
    ultimately show ?thesis using False by (subst showu.simps) simp
  qed
qed

lemma showu_number:
  assumes "\<not> isdigit (cur r)"
  shows "isdigit (cur (showu n @ r))" "strtoul_end (showu n @ r) = r"
    "\<not> (cur (showu n @ r) = CHR ''0'' \<and> isdigit (cur (tl (showu n @ r))))"
proof -
  show "isdigit (cur (showu n @ r))" by (rule cur_showu)
  have "dropWhile isdigit r = r" using assms by (cases r) auto
  then show "strtoul_end (showu n @ r) = r"
    using showu_digits [of _ n] by (simp add: strtoul_end_def)
  show "\<not> (cur (showu n @ r) = CHR ''0'' \<and> isdigit (cur (tl (showu n @ r))))"
  proof (cases "n = 0")
    case True
    have "showu 0 = ''0''" by (subst showu.simps) (simp add: digit_char_eval)
    with True assms show ?thesis by simp
  next
    case False
    then show ?thesis using showu_leading_zero [of n] showu_nonempty [of n] by (cases "showu n") auto
  qed
qed

lemma prereleaseLoop_ident: "list_all isIdentChar p \<Longrightarrow> cur r = CHR ''+'' \<or> r = [] \<Longrightarrow> prereleaseLoop (p @ r) = Inr r"
  by (induction p) (cases r; auto simp: isIdentChar_def ctype_defs)+

lemma buildLoop_ident: "list_all isIdentChar p \<Longrightarrow> buildLoop p = Inr []"
  by (induction p) auto

lemma ident_start: "list_all isIdentChar p \<Longrightarrow> p \<noteq> [] \<Longrightarrow> cur (p @ r) \<noteq> nul \<and> cur (p @ r) \<noteq> CHR ''+''"
  by (cases p) (auto simp: isIdentChar_def ctype_defs nul_def)

definition ident_option :: "cstring option \<Rightarrow> bool" where
  "ident_option x = (case x of None \<Rightarrow> True | Some p \<Rightarrow> p \<noteq> [] \<and> list_all isIdentChar p)"

text \<open>The validator accepts the text of every version whose prerelease and build metadata,
  if present, are nonempty words of letters, digits, dots and hyphens.\<close>

theorem formatVersion_validates:
  assumes "ident_option (prerelease v)" "ident_option (build v)"
  shows "validateSemanticVersion (Some (formatVersion v)) = None"
proof -
  let ?b = "case build v of None \<Rightarrow> [] | Some b \<Rightarrow> CHR ''+'' # b"
  let ?t = "(case prerelease v of None \<Rightarrow> [] | Some p \<Rightarrow> CHR ''-'' # p) @ ?b"
  have b: "validateBuild ?b = None"
    using assms(2) ident_start [of "the (build v)" "[]"]
    by (auto simp: validateBuild_def ident_option_def buildLoop_ident nul_def split: option.splits)
  have bc: "cur ?b = CHR ''+'' \<or> ?b = []" by (auto split: option.splits)
  have t: "validateVersionTail ?t = None"
  proof (cases "prerelease v")
    case None
    with b show ?thesis by (cases "build v") (auto simp: validateVersionTail_def)
  next
    case (Some p)
    with assms(1) ident_start [of p ?b] prereleaseLoop_ident [OF _ bc, of p] b show ?thesis
      by (auto simp: validateVersionTail_def ident_option_def nul_def)
  qed
  have nd: "\<not> isdigit (cur ?t)" by (auto simp: ctype_defs nul_def split: option.splits)
  have dot: "\<not> isdigit (cur (''.'' @ x))" for x by (simp add: ctype_defs)
  have f: "formatVersion v = showu (unat (major v)) @ ''.'' @ showu (unat (minor v)) @ ''.'' @ showu (unat (patch v)) @ ?t"
    by (simp add: formatVersion_def formatNumbers_def)
  note s1 = showu_number [OF dot, of "unat (major v)" "showu (unat (minor v)) @ ''.'' @ showu (unat (patch v)) @ ?t"]
  note s2 = showu_number [OF dot, of "unat (minor v)" "showu (unat (patch v)) @ ?t"]
  note s3 = showu_number [OF nd, of "unat (patch v)"]
  show ?thesis
    unfolding f validateSemanticVersion_def option.case Let_def s1(2)
    using s1 s2 s3 t digit_not [OF s1(1)] by simp
qed

theorem formatVersion_validates_witness:
  "validateSemanticVersion (Some (formatVersion
     \<lparr>major = 1, minor = 0, patch = 3, prerelease = Some ''rc.1'', build = Some ''7''\<rparr>)) = None"
  by (rule formatVersion_validates) code_simp+

section \<open>Accepted repositories\<close>

definition host_path :: "cstring \<Rightarrow> bool" where
  "host_path t \<longleftrightarrow> (\<exists>host path. t = host @ ''/'' @ path \<and> host \<noteq> [] \<and> CHR ''/'' \<notin> set host \<and> path \<noteq> [])"

definition ssh_form :: "cstring \<Rightarrow> bool" where
  "ssh_form r \<longleftrightarrow> (\<exists>h p. r = ''git@'' @ h @ '':'' @ p \<and> h \<noteq> [] \<and> CHR '':'' \<notin> set h \<and> p \<noteq> [])"

definition short_form :: "cstring \<Rightarrow> bool" where
  "short_form r \<longleftrightarrow> (\<exists>pl t. pl \<in> set platforms \<and> r = pl @ '':'' @ t \<and> host_path t)"

definition schemes :: "cstring list" where
  "schemes = [''https://'', ''http://'', ''git://'', ''ssh://'']"

definition url_form :: "cstring \<Rightarrow> bool" where
  "url_form r \<longleftrightarrow> (\<exists>scheme t. scheme \<in> set schemes \<and> r = scheme @ t \<and> host_path t)"

lemma strchr_None: "strchr s c = None \<longleftrightarrow> c \<notin> set s"
  by (simp add: strchr_def)

lemma strchr_app: "c \<notin> set a \<Longrightarrow> strchr (a @ c # b) c = Some (c # b)"
  by (induction a) (auto simp: strchr_def)

lemma strchr_cases:
  obtains "c \<notin> set s" "strchr s c = None" | a b where "s = a @ c # b" "c \<notin> set a" "strchr s c = Some (c # b)"
proof (cases "c \<in> set s")
  case True
  then obtain a b where "s = a @ c # b" "c \<notin> set a" by (auto dest: split_list_first)
  with that(2) strchr_app show thesis by blast
next
  case False
  then show thesis by (rule that(1)) (simp add: False strchr_None)
qed

lemma cur_nul: "nul \<notin> set p \<Longrightarrow> cur p = nul \<longleftrightarrow> p = []"
  by (cases p) auto

lemma split_first_unique:
  "c \<notin> set a \<Longrightarrow> c \<notin> set a' \<Longrightarrow> a @ c # b = a' @ c # b' \<Longrightarrow> a = a' \<and> b = b'"
  by (induction a arbitrary: a') (auto simp: Cons_eq_append_conv)

lemma host_path_app: "CHR ''/'' \<notin> set a \<Longrightarrow> host_path (a @ CHR ''/'' # b) \<longleftrightarrow> a \<noteq> [] \<and> b \<noteq> []"
  unfolding host_path_def by (auto dest: split_first_unique)

lemma host_path_no_slash: "CHR ''/'' \<notin> set t \<Longrightarrow> \<not> host_path t"
  by (auto simp: host_path_def)

lemma validateHostPath_iff:
  assumes "nul \<notin> set t"
  shows "validateHostPath t = None \<longleftrightarrow> host_path t"
proof (cases rule: strchr_cases [of "CHR ''/''" t])
  case 1
  then show ?thesis using host_path_no_slash by (simp add: validateHostPath_def)
next
  case (2 a b)
  then have "cur t = CHR ''/'' \<longleftrightarrow> a = []" by (cases a) auto
  moreover have "cur t \<noteq> nul" "cur b = nul \<longleftrightarrow> b = []" using assms 2 cur_nul [of t] cur_nul [of b] by auto
  ultimately show ?thesis using 2 host_path_app [of a b] by (simp add: validateHostPath_def)
qed

lemma strncmp_prefix:
  "strncmp_eq 8 r ''https://'' \<longleftrightarrow> prefix ''https://'' r" "strncmp_eq 7 r ''http://'' \<longleftrightarrow> prefix ''http://'' r"
  "strncmp_eq 6 r ''git://'' \<longleftrightarrow> prefix ''git://'' r" "strncmp_eq 6 r ''ssh://'' \<longleftrightarrow> prefix ''ssh://'' r"
  "strncmp_eq 4 r ''git@'' \<longleftrightarrow> prefix ''git@'' r"
proof -
  have gen: "strncmp_eq (length p) r p \<longleftrightarrow> prefix p r" for p
    unfolding strncmp_eq_def by (metis append_eq_conv_conj prefix_def take_all_iff order_refl)
  show "strncmp_eq 8 r ''https://'' \<longleftrightarrow> prefix ''https://'' r" "strncmp_eq 7 r ''http://'' \<longleftrightarrow> prefix ''http://'' r"
    "strncmp_eq 6 r ''git://'' \<longleftrightarrow> prefix ''git://'' r" "strncmp_eq 6 r ''ssh://'' \<longleftrightarrow> prefix ''ssh://'' r"
    "strncmp_eq 4 r ''git@'' \<longleftrightarrow> prefix ''git@'' r"
    using gen [of "''https://''"] gen [of "''http://''"] gen [of "''git://''"] gen [of "''ssh://''"] gen [of "''git@''"]
    by (simp_all add: eval_nat_numeral)
qed

lemma validate_short:
  assumes "r = a @ CHR '':'' # t" "CHR '':'' \<notin> set a" "nul \<notin> set r"
  shows "(if list_ex (\<lambda>pl. strncmp_eq (length r - length (CHR '':'' # t)) r pl \<and> length pl = length r - length (CHR '':'' # t)) platforms
      then let path = t
           in if cur path = nul then Some ShortMissing
              else (case strchr path (CHR ''/'') of None \<Rightarrow> Some ShortFormat
                    | Some slash \<Rightarrow> if slash = path \<or> cur (tl slash) = nul then Some ShortFormat else None)
      else Some RepositoryInvalid) = None \<longleftrightarrow> short_form r"
proof -
  have "list_ex (\<lambda>pl. strncmp_eq (length r - length (CHR '':'' # t)) r pl \<and> length pl = length r - length (CHR '':'' # t)) platforms
      \<longleftrightarrow> a \<in> set platforms"
    using assms(1) by (auto simp: list_ex_iff strncmp_eq_def intro!: bexI [of _ a])
  moreover have "short_form r \<longleftrightarrow> a \<in> set platforms \<and> host_path t"
  proof -
    have "pl \<in> set platforms \<Longrightarrow> CHR '':'' \<notin> set pl" for pl by (auto simp: platforms_def)
    then have "a = pl \<and> t = ta" if "pl \<in> set platforms" "a @ CHR '':'' # t = pl @ CHR '':'' # ta" for pl ta
      using split_first_unique [OF assms(2) _ that(2)] that(1) by blast
    then show ?thesis using assms(1) unfolding short_form_def by fastforce
  qed
  moreover have "(let path = t
           in if cur path = nul then Some ShortMissing
              else (case strchr path (CHR ''/'') of None \<Rightarrow> Some ShortFormat
                    | Some slash \<Rightarrow> if slash = path \<or> cur (tl slash) = nul then Some ShortFormat else None)) = None \<longleftrightarrow> host_path t"
  proof (cases rule: strchr_cases [of "CHR ''/''" t])
    case 1
    then show ?thesis using host_path_no_slash by simp
  next
    case (2 u v)
    moreover have "cur t \<noteq> nul" "cur v = nul \<longleftrightarrow> v = []" using assms 2 cur_nul [of t] cur_nul [of v] by auto
    ultimately show ?thesis using host_path_app [of u v] by auto
  qed
  ultimately show ?thesis by simp
qed

lemma validate_ssh:
  assumes "r = ''git@'' @ t" "nul \<notin> set r"
  shows "(case strchr r (CHR '':'') of None \<Rightarrow> Some SshFormat
           | Some colon \<Rightarrow> if length r - length colon = 4 then Some SshFormat
                           else if cur (tl colon) = nul then Some SshPath else None) = None \<longleftrightarrow> ssh_form r"
proof (cases rule: strchr_cases [of "CHR '':''" t])
  case 1
  then show ?thesis using assms by (auto simp: strchr_def ssh_form_def)
next
  case (2 a b)
  have r: "strchr r (CHR '':'') = Some (CHR '':'' # b)"
    using strchr_app [of "CHR '':''" "''git@'' @ a" b] 2 assms by simp
  have "cur b = nul \<longleftrightarrow> b = []" using assms 2 cur_nul [of b] by auto
  moreover have "ssh_form r \<longleftrightarrow> a \<noteq> [] \<and> b \<noteq> []"
    using assms 2 unfolding ssh_form_def by (auto dest: split_first_unique)
  ultimately show ?thesis using r assms 2 by simp
qed

lemma scheme_iff:
  "url_form r \<longleftrightarrow>
     (\<exists>t. r = ''https://'' @ t \<and> host_path t) \<or> (\<exists>t. r = ''http://'' @ t \<and> host_path t) \<or>
     (\<exists>t. r = ''git://'' @ t \<and> host_path t) \<or> (\<exists>t. r = ''ssh://'' @ t \<and> host_path t)"
  unfolding url_form_def schemes_def list.set by blast

lemma short_form_iff:
  "short_form r \<longleftrightarrow> (\<exists>t. r = ''github'' @ '':'' @ t \<and> host_path t) \<or> (\<exists>t. r = ''gitlab'' @ '':'' @ t \<and> host_path t) \<or>
     (\<exists>t. r = ''bitbucket'' @ '':'' @ t \<and> host_path t)"
  unfolding short_form_def platforms_def list.set by blast

lemma validate_url:
  assumes "nul \<notin> set r" "\<not> list_ex isspace r" "cur r \<noteq> nul" "r = sch @ t"
    "sch \<in> {''https://'', ''http://'', ''git://'', ''ssh://''}"
  shows "validateGitRepository (Some r) = None \<longleftrightarrow> url_form r \<or> ssh_form r \<or> short_form r"
proof -
  have "validateHostPath t = None \<longleftrightarrow> host_path t" using validateHostPath_iff assms(1,4) by simp
  moreover from assms(5) consider "sch = ''https://''" | "sch = ''http://''" | "sch = ''git://''" | "sch = ''ssh://''" by blast
  then show ?thesis
    by cases (use assms calculation in
      \<open>simp_all add: validateGitRepository_def strncmp_prefix scheme_iff ssh_form_def short_form_iff strchr_def\<close>)
qed

lemma validate_colon:
  assumes "nul \<notin> set r" "\<not> list_ex isspace r" "cur r \<noteq> nul"
    and no: "\<not> prefix ''https://'' r" "\<not> prefix ''http://'' r" "\<not> prefix ''git://'' r" "\<not> prefix ''git@'' r" "\<not> prefix ''ssh://'' r"
  shows "validateGitRepository (Some r) = None \<longleftrightarrow> short_form r"
proof (cases rule: strchr_cases [of "CHR '':''" r])
  case 1
  then have "\<not> short_form r" by (auto simp: short_form_def)
  with 1 assms show ?thesis by (simp add: validateGitRepository_def strncmp_prefix)
next
  case (2 a t)
  with assms show ?thesis
    using validate_short [OF 2(1,2) assms(1)]
    by (simp add: validateGitRepository_def strncmp_prefix Let_def split: if_splits)
qed

text \<open>A repository is accepted exactly when it has no white space and is a URL of one of the
  four schemes with a nonempty host and path, or has the form git@host:path, or the short
  form platform:user/repo with one of the three known platforms.\<close>

theorem validateGitRepository_iff:
  assumes "nul \<notin> set r"
  shows "validateGitRepository (Some r) = None \<longleftrightarrow>
    \<not> list_ex isspace r \<and> (url_form r \<or> ssh_form r \<or> short_form r)"
proof (cases "r = [] \<or> list_ex isspace r")
  case True
  then show ?thesis by (auto simp: validateGitRepository_def scheme_iff ssh_form_def short_form_def)
next
  case ns: False
  with assms cur_nul have c: "cur r \<noteq> nul" by blast
  have sp: "\<not> list_ex isspace r" using ns by simp
  consider (url) sch t where "r = sch @ t" "sch \<in> {''https://'', ''http://'', ''git://'', ''ssh://''}"
    | (ssh) t where "r = ''git@'' @ t"
    | (colon) "\<not> prefix ''https://'' r" "\<not> prefix ''http://'' r" "\<not> prefix ''git://'' r" "\<not> prefix ''git@'' r" "\<not> prefix ''ssh://'' r"
    unfolding prefix_def by blast
  then show ?thesis
  proof cases
    case (url sch t)
    show ?thesis using validate_url [OF assms sp c url] sp by simp
  next
    case (ssh t)
    then have "prefix ''git@'' r" "\<not> prefix ''https://'' r" "\<not> prefix ''http://'' r" "\<not> prefix ''git://'' r"
      "\<not> url_form r" "\<not> short_form r"
      by (simp_all add: scheme_iff short_form_iff)
    with ns c validate_ssh [OF ssh assms] show ?thesis by (simp add: validateGitRepository_def strncmp_prefix)
  next
    case colon
    then have "\<not> url_form r" "\<not> ssh_form r" by (auto simp: scheme_iff ssh_form_def prefix_def)
    with validate_colon [OF assms sp c colon] sp show ?thesis by simp
  qed
qed

theorem validateGitRepository_iff_witness:
  "short_form ''github:suilteam/cxy''"
proof -
  have "validateGitRepository (Some ''github:suilteam/cxy'') = None" by code_simp
  with validateGitRepository_iff [of "''github:suilteam/cxy''"] show ?thesis
    by (auto simp: nul_def scheme_iff ssh_form_def)
qed

section \<open>Licenses\<close>

lemma tolower_idem [simp]: "tolower (tolower c) = tolower c"
proof (cases "isupper c")
  case True
  then have "code c + 32 < 256" "\<not> isupper (char_of (code c + 32))" by (auto simp: ctype_defs)
  with True show ?thesis by (simp add: tolower_def)
qed (simp add: tolower_def)

lemma tolower_nul: "tolower c = nul \<longleftrightarrow> c = nul"
proof (cases "isupper c")
  case True
  then have u: "code c + 32 < 256" "0 < code c" by (auto simp: ctype_defs)
  then have "code (char_of (code c + 32)) = code c + 32" by simp
  moreover have "code nul = 0" by (simp add: nul_def)
  ultimately have "char_of (code c + 32) \<noteq> nul" by (metis add_is_0 zero_neq_numeral)
  moreover have "c \<noteq> nul" using u by (auto simp: nul_def)
  ultimately show ?thesis using True by (simp add: tolower_def)
qed (simp add: tolower_def)

text \<open>The verdict on a license identifier does not depend on the case of its letters.\<close>

theorem validateLicenseIdentifier_case_insensitive:
  "validateLicenseIdentifier (Some (map tolower s)) = validateLicenseIdentifier (Some s)"
proof -
  have "strcasecmp_eq (map tolower s) = strcasecmp_eq s"
    by (simp add: strcasecmp_eq_def fun_eq_iff comp_def)
  moreover have "strncasecmp_eq n (map tolower s) = strncasecmp_eq n s" for n
    by (simp add: strncasecmp_eq_def fun_eq_iff take_map comp_def)
  moreover have "cur (map tolower s) = nul \<longleftrightarrow> cur s = nul" by (cases s) (auto simp: tolower_nul)
  ultimately show ?thesis by (simp add: validateLicenseIdentifier_def)
qed

end
