(* ===== verification/Cxy_Hash.thy ===== *)
theory Cxy_Hash
  imports Cxy_Prelude
begin

text \<open>
  The FNV-1a hash of \<open>core/hash.c\<close>. A hash code is a 32-bit word and every operation
  is the C expression at that width.
\<close>

type_synonym HashCode = u32

definition hashInit :: HashCode where
  "hashInit = 0x811c9dc5"

definition hashUint8 :: "HashCode \<Rightarrow> u8 \<Rightarrow> HashCode" where
  "hashUint8 h x = (h XOR ucast x) * 0x01000193"

definition hashUint16 :: "HashCode \<Rightarrow> u16 \<Rightarrow> HashCode" where
  "hashUint16 h x = hashUint8 (hashUint8 h (ucast x)) (ucast (drop_bit 8 x))"

definition hashUint32 :: "HashCode \<Rightarrow> u32 \<Rightarrow> HashCode" where
  "hashUint32 h x = hashUint16 (hashUint16 h (ucast x)) (ucast (drop_bit 16 x))"

definition hashUint64 :: "HashCode \<Rightarrow> u64 \<Rightarrow> HashCode" where
  "hashUint64 h x = hashUint32 (hashUint32 h (ucast x)) (ucast (drop_bit 32 x))"

definition hashUint128 :: "HashCode \<Rightarrow> u128 \<Rightarrow> HashCode" where
  "hashUint128 h x = hashUint64 (hashUint64 h (ucast (x AND 0xFFFFFFFFFFFFFFFF))) (ucast (drop_bit 64 x))"

text \<open>A pointer is hashed by its address.\<close>

definition hashPtr :: "HashCode \<Rightarrow> u64 \<Rightarrow> HashCode" where
  "hashPtr h ptr = hashUint64 h ptr"

definition byte_of :: "char \<Rightarrow> u8" where
  "byte_of c = of_nat (code c)"

text \<open>The loop \<open>while (*str) h = hashUint8(h, *(str++))\<close>.\<close>

fun hashStr :: "HashCode \<Rightarrow> cstring \<Rightarrow> HashCode" where
  "hashStr h [] = h"
| "hashStr h (c # str) = (if c = nul then h else hashStr (hashUint8 h (byte_of c)) str)"

text \<open>The counted loop over \<open>size\<close> bytes; \<open>ptr\<close> holds at least that many.\<close>

fun hashRawBytes :: "HashCode \<Rightarrow> u8 list \<Rightarrow> nat \<Rightarrow> HashCode" where
  "hashRawBytes h ptr 0 = h"
| "hashRawBytes h ptr (Suc n) = hashRawBytes (hashUint8 h (hd ptr)) (tl ptr) n"

lemmas hash_defs = hashInit_def hashUint8_def hashUint16_def hashUint32_def hashUint64_def
  hashUint128_def hashPtr_def byte_of_def

section \<open>The byte-wise hash is the hash of the little-endian bytes\<close>

lemma hashRawBytes_fold:
  "n \<le> length bs \<Longrightarrow> hashRawBytes h bs n = foldl hashUint8 h (take n bs)"
proof (induction n arbitrary: h bs)
  case (Suc n)
  then show ?case by (cases bs) auto
qed simp

lemma hashStr_fold: "nul \<notin> set s \<Longrightarrow> hashStr h s = foldl hashUint8 h (map byte_of s)"
  by (induction s arbitrary: h) (auto simp: hashStr.simps)

lemma hashStr_hashRawBytes:
  "nul \<notin> set s \<Longrightarrow> hashStr h s = hashRawBytes h (map byte_of s) (length s)"
  by (simp add: hashStr_fold hashRawBytes_fold)

definition le_bytes :: "nat \<Rightarrow> 'a::len word \<Rightarrow> u8 list" where
  "le_bytes n x = map (\<lambda>i. ucast (drop_bit (8 * i) x)) [0..<n]"

section \<open>The step is a permutation of the hash codes\<close>

text \<open>The FNV prime is odd, hence invertible modulo \<open>2 ^ 32\<close>.\<close>

lemma fnv_prime_inverse: "(0x01000193 :: u32) * 0x359c449b = 1"
  by simp

lemma fnv_mult_inj: "(a :: u32) * 0x01000193 = b * 0x01000193 \<longleftrightarrow> a = b"
proof
  assume "a * 0x01000193 = b * 0x01000193"
  then have "a * (0x01000193 * 0x359c449b) = b * (0x01000193 * 0x359c449b)"
    by (simp only: mult.assoc [symmetric])
  then show "a = b" by (simp only: fnv_prime_inverse mult_1_right)
qed simp

lemma ucast_u8_u32_u8: "(ucast (ucast (x :: u8) :: u32) :: u8) = x"
  by (rule bit_word_eqI) (simp add: bit_ucast_iff)

lemma ucast_u8_u32_inj: "(ucast (x :: u8) :: u32) = ucast y \<longleftrightarrow> x = y"
  by (metis ucast_u8_u32_u8)

lemma xor_cancel: "(a :: u32) XOR (a XOR b) = b"
  by (simp add: xor.assoc [symmetric])

lemma xor_left_cancel: "((a :: u32) XOR b = a XOR c) = (b = c)"
  by (metis xor_cancel)

lemma xor_right_cancel: "((b :: u32) XOR a = c XOR a) = (b = c)"
  by (metis xor_left_cancel xor.commute)

lemma hashUint8_inj_hash: "hashUint8 h x = hashUint8 h' x \<longleftrightarrow> h = h'"
  by (simp add: hashUint8_def fnv_mult_inj xor_right_cancel)

lemma hashUint8_inj_byte: "hashUint8 h x = hashUint8 h y \<longleftrightarrow> x = y"
  by (simp add: hashUint8_def fnv_mult_inj xor_left_cancel ucast_u8_u32_inj)

lemma foldl_hash_inj: "foldl hashUint8 h bs = foldl hashUint8 h' bs \<longleftrightarrow> h = h'"
  by (induction bs arbitrary: h h') (auto simp: hashUint8_inj_hash)

lemma foldl_hash_one_byte:
  "foldl hashUint8 h (xs @ a # ys) = foldl hashUint8 h (xs @ b # ys) \<longleftrightarrow> a = b"
  by (simp add: foldl_hash_inj hashUint8_inj_byte)

section \<open>Properties\<close>

lemma hashUint16_le: "hashUint16 h x = foldl hashUint8 h (le_bytes 2 x)"
  by (simp add: hashUint16_def le_bytes_def upt_rec)

lemma ucast_drop_ucast:
  "8 * i + 8 \<le> LENGTH('b) \<Longrightarrow>
   (ucast (drop_bit (8 * i) (ucast (x :: 'a::len word) :: 'b::len word)) :: u8) = ucast (drop_bit (8 * i) x)"
  by (rule bit_word_eqI) (auto simp: bit_ucast_iff bit_drop_bit_eq dest: bit_imp_le_length)

lemma le_bytes_ucast:
  assumes "8 * n \<le> LENGTH('b)"
  shows "le_bytes n (ucast (x :: 'a::len word) :: 'b::len word) = le_bytes n x"
  using assms by (auto simp: le_bytes_def intro!: ucast_drop_ucast)

lemma le_bytes_add:
  "le_bytes (m + n) (x :: 'a::len word) = le_bytes m x @ le_bytes n (drop_bit (8 * m) x)"
  by (rule nth_equalityI) (auto simp: le_bytes_def nth_append drop_bit_drop_bit algebra_simps)

lemma hashUint32_le: "hashUint32 h x = foldl hashUint8 h (le_bytes 4 x)"
  using le_bytes_add [of 2 2 x]
  by (simp add: hashUint32_def hashUint16_le le_bytes_ucast)

lemma hashUint64_le: "hashUint64 h x = foldl hashUint8 h (le_bytes 8 x)"
  using le_bytes_add [of 4 4 x]
  by (simp add: hashUint64_def hashUint32_le le_bytes_ucast)

lemma ucast_mask64: "(ucast ((x :: u128) AND 0xFFFFFFFFFFFFFFFF) :: u64) = ucast x"
proof -
  have m: "(0xFFFFFFFFFFFFFFFF :: u128) = mask 64"
    by (simp add: mask_eq_exp_minus_1)
  show ?thesis unfolding m
    by (rule bit_word_eqI) (simp add: bit_ucast_iff bit_and_iff bit_mask_iff)
qed

lemma hashUint128_le: "hashUint128 h x = foldl hashUint8 h (le_bytes 16 x)"
  using le_bytes_add [of 8 8 x]
  by (simp add: hashUint128_def hashUint64_le le_bytes_ucast ucast_mask64)

lemma length_le_bytes [simp]: "length (le_bytes n x) = n"
  by (simp add: le_bytes_def)

text \<open>Hashing an integer of any of the four widths is hashing its bytes in
  little-endian order, and hashing a C string is hashing its bytes up to the NUL; so the
  typed entry points and \<open>hashRawBytes\<close> agree on the same data.\<close>

theorem hash_integers_are_bytes:
  "hashUint16 h x = hashRawBytes h (le_bytes 2 x) 2 \<and>
   hashUint32 h y = hashRawBytes h (le_bytes 4 y) 4 \<and>
   hashUint64 h z = hashRawBytes h (le_bytes 8 z) 8 \<and>
   hashUint128 h w = hashRawBytes h (le_bytes 16 w) 16 \<and>
   hashStr h s = hashRawBytes h (map byte_of (takeWhile (\<lambda>c. c \<noteq> nul) s)) (length (takeWhile (\<lambda>c. c \<noteq> nul) s))"
proof -
  have "hashStr h s = foldl hashUint8 h (map byte_of (takeWhile (\<lambda>c. c \<noteq> nul) s))"
    by (induction s arbitrary: h) auto
  then show ?thesis
    by (simp add: hashRawBytes_fold hashUint16_le hashUint32_le hashUint64_le hashUint128_le)
qed

text \<open>Two byte strings of the same length that differ in exactly one byte never
  collide, whatever the starting hash.\<close>

theorem hash_one_byte_no_collision:
  assumes "length xs = length ys" and "i < length xs" and "xs ! i \<noteq> ys ! i"
    and "\<And>j. j < length xs \<Longrightarrow> j \<noteq> i \<Longrightarrow> xs ! j = ys ! j"
  shows "hashRawBytes h xs (length xs) \<noteq> hashRawBytes h ys (length ys)"
proof -
  have ys: "ys = xs[i := ys ! i]"
    using assms by (intro nth_equalityI) (auto simp: nth_list_update)
  have "xs = take i xs @ xs ! i # drop (Suc i) xs"
    using assms by (simp add: id_take_nth_drop)
  moreover from ys have "ys = take i xs @ ys ! i # drop (Suc i) xs"
    using assms by (metis upd_conv_take_nth_drop)
  ultimately have "foldl hashUint8 h xs \<noteq> foldl hashUint8 h ys"
    using assms(3) foldl_hash_one_byte by metis
  then show ?thesis by (simp add: hashRawBytes_fold)
qed

theorem hash_one_byte_no_collision_witness:
  "hashRawBytes hashInit [97, 98, 99] 3 \<noteq> hashRawBytes hashInit [97, 100, 99] 3"
proof -
  have "hashRawBytes hashInit [97, 98, 99] (length [97, 98, 99 :: u8])
      \<noteq> hashRawBytes hashInit [97, 100, 99] (length [97, 100, 99 :: u8])"
    by (rule hash_one_byte_no_collision [of _ _ 1]) (auto simp: less_Suc_eq nth_Cons')
  then show ?thesis by (simp add: numeral_3_eq_3 del: hashRawBytes.simps)
qed

end
