(* ===== verification/Cxy_Primes.thy ===== *)
theory Cxy_Primes
  imports Cxy_Prelude
begin

text \<open>
  The table of hash-table capacities of \<open>core/primes.h\<close>, the binary search
  \<open>nextPrime\<close> and the switch \<open>modPrime\<close>.
\<close>

definition MAX_PRIME :: nat where
  "MAX_PRIME = 1048583"

definition primes :: "nat list" where
  "primes = [7, 17, 31, 67, 257, 1031, 4093, 8191, 16381, 32381, 65539, 131071, 262147, 524287, 1048583]"

definition prime_count :: nat where
  "prime_count = length primes"

function nextPrimeLoop :: "nat \<Rightarrow> nat \<Rightarrow> nat \<Rightarrow> nat" where
  "nextPrimeLoop i j k =
     (if j < k
      then let m = (j + k) div 2; p = primes ! m
           in if p \<le> i then nextPrimeLoop i (m + 1) k else nextPrimeLoop i j m
      else k)"
  by pat_completeness auto
termination
  by (relation "measure (\<lambda>(i, j, k). k - j)") auto

declare nextPrimeLoop.simps [simp del]

definition nextPrime :: "nat \<Rightarrow> nat" where
  "nextPrime i =
     (let k = nextPrimeLoop i 0 prime_count
      in primes ! (if k \<ge> prime_count then prime_count - 1 else k))"

text \<open>One \<open>case\<close> of the switch per prime of the table, \<open>default\<close> otherwise.\<close>

definition modPrime :: "nat \<Rightarrow> nat \<Rightarrow> nat" where
  "modPrime i p = (case List.find (\<lambda>x. x = p) primes of Some x \<Rightarrow> i mod x | None \<Rightarrow> i mod p)"

lemma modPrime_mod [simp]: "modPrime i p = i mod p"
  by (auto simp: modPrime_def find_Some_iff split: option.splits)

lemma sorted_primes: "sorted primes"
  by (simp add: primes_def)

lemma nextPrimeLoop_partition:
  assumes "j \<le> k" and "k \<le> length primes"
    and "\<And>m. m < j \<Longrightarrow> primes ! m \<le> i"
    and "\<And>m. k \<le> m \<Longrightarrow> m < length primes \<Longrightarrow> i < primes ! m"
  defines "r \<equiv> nextPrimeLoop i j k"
  shows "r \<le> length primes \<and> (\<forall>m<r. primes ! m \<le> i) \<and> (\<forall>m. r \<le> m \<and> m < length primes \<longrightarrow> i < primes ! m)"
  using assms(1-4) unfolding r_def
proof (induction i j k rule: nextPrimeLoop.induct)
  case (1 i j k)
  let ?m = "(j + k) div 2"
  show ?case
  proof (cases "j < k")
    case True
    then have m: "?m < k" "j \<le> ?m" by auto
    then have ml: "?m < length primes" using "1.prems" by simp
    show ?thesis
    proof (cases "primes ! ?m \<le> i")
      case le: True
      have below: "primes ! x \<le> i" if "x < ?m + 1" for x
        using that le sorted_nth_mono [OF sorted_primes, of x ?m] ml by linarith
      have eq: "nextPrimeLoop i j k = nextPrimeLoop i (?m + 1) k"
        using True le by (subst nextPrimeLoop.simps) (simp add: Let_def)
      show ?thesis unfolding eq
        using m "1.prems" by (intro "1.IH"(1) [OF True refl refl le] below) simp_all
    next
      case gt: False
      have above: "i < primes ! x" if "?m \<le> x" "x < length primes" for x
        using that gt sorted_nth_mono [OF sorted_primes, of ?m x] by linarith
      have eq: "nextPrimeLoop i j k = nextPrimeLoop i j ?m"
        using True gt by (subst nextPrimeLoop.simps) (simp add: Let_def)
      show ?thesis unfolding eq
        using m "1.prems" by (intro "1.IH"(2) [OF True refl refl gt] above) simp_all
    qed
  next
    case False
    then have "nextPrimeLoop i j k = k" by (subst nextPrimeLoop.simps) simp
    then show ?thesis using "1.prems" False by auto
  qed
qed

lemma primes_nonempty [simp]: "0 < length primes"
  by (simp add: primes_def)

lemma last_primes: "primes ! (length primes - Suc 0) = MAX_PRIME"
  by (simp add: primes_def MAX_PRIME_def)

lemma nextPrime_in: "nextPrime i \<in> set primes"
  unfolding nextPrime_def Let_def prime_count_def
  by (rule nth_mem) (use primes_nonempty in \<open>simp del: primes_nonempty\<close>)

lemma nextPrime_find: "nextPrime i = (case List.find (\<lambda>p. i < p) primes of Some p \<Rightarrow> p | None \<Rightarrow> MAX_PRIME)"
proof -
  define k where "k = nextPrimeLoop i 0 prime_count"
  have k: "k \<le> length primes" "\<forall>m<k. primes ! m \<le> i" "\<forall>m. k \<le> m \<and> m < length primes \<longrightarrow> i < primes ! m"
    using nextPrimeLoop_partition [of 0 prime_count i] by (auto simp: k_def prime_count_def)
  show ?thesis
  proof (cases "k < length primes")
    case True
    with k have "List.find (\<lambda>p. i < p) primes = Some (primes ! k)"
      by (auto simp: find_Some_iff linorder_not_less intro!: exI [of _ k])
    with True show ?thesis by (simp add: nextPrime_def prime_count_def k_def Let_def)
  next
    case False
    with k have "List.find (\<lambda>p. i < p) primes = None"
      by (auto simp: find_None_iff in_set_conv_nth linorder_not_less)
    with False show ?thesis
      by (simp add: nextPrime_def prime_count_def k_def Let_def last_primes)
  qed
qed

lemma nextPrime_pos [simp]: "0 < nextPrime i"
  using nextPrime_in [of i] by (auto simp: primes_def)

lemma nextPrime_le_MAX: "nextPrime i \<le> MAX_PRIME"
  using nextPrime_in [of i] by (auto simp: primes_def MAX_PRIME_def)

lemma nextPrime_gt: "i < MAX_PRIME \<Longrightarrow> i < nextPrime i"
  unfolding nextPrime_find
  by (auto split: option.splits simp: find_None_iff find_Some_iff primes_def MAX_PRIME_def)

lemma nextPrime_MAX: "MAX_PRIME \<le> i \<Longrightarrow> nextPrime i = MAX_PRIME"
  unfolding nextPrime_find by (simp add: primes_def MAX_PRIME_def)

text \<open>The binary search returns the least prime of the table above its argument, and
  \<open>MAX_PRIME\<close> when there is none.\<close>

theorem nextPrime_least:
  "nextPrime i \<in> set primes \<and>
   (i < MAX_PRIME \<longrightarrow> i < nextPrime i \<and> (\<forall>p\<in>set primes. i < p \<longrightarrow> nextPrime i \<le> p)) \<and>
   (MAX_PRIME \<le> i \<longrightarrow> nextPrime i = MAX_PRIME)"
proof -
  have "\<forall>p\<in>set primes. i < p \<longrightarrow> nextPrime i \<le> p"
    unfolding nextPrime_find
    by (simp add: primes_def MAX_PRIME_def)
  then show ?thesis
    using nextPrime_in nextPrime_gt nextPrime_MAX by blast
qed

theorem nextPrime_least_witness:
  "nextPrime 24 = 31 \<and> 24 < nextPrime 24 \<and> nextPrime (MAX_PRIME + 5) = MAX_PRIME"
proof -
  have "nextPrime 24 \<le> 31" "24 < nextPrime 24" "nextPrime 24 \<in> set primes"
    using nextPrime_least [of 24] by (auto simp: primes_def MAX_PRIME_def)
  moreover have "nextPrime (MAX_PRIME + 5) = MAX_PRIME"
    using nextPrime_least [of "MAX_PRIME + 5"] by simp
  ultimately show ?thesis by (auto simp: primes_def)
qed

end
