(* ===== verification/Cxy_HashTable.thy ===== *)
theory Cxy_HashTable
  imports Cxy_Hash Cxy_Primes "HOL-Library.Multiset"
begin

text \<open>
  The open-addressing hash table of \<open>core/htable.c\<close>. A table has \<open>capacity\<close>
  buckets; bucket \<open>i\<close> has a stored hash, whose top bit says that the bucket is
  occupied, and an element. Memory that was never written is \<open>None\<close>. Capacities and
  sizes are \<open>nat\<close>: a table whose \<open>size * 100\<close> overflows \<open>size_t\<close> does not fit
  in memory. Pointers to elements are bucket indices. A probing loop that never meets a
  free bucket does not return; the loops are therefore \<open>partial_function (option)\<close>
  definitions and \<open>None\<close> is divergence.
\<close>

record 'e HashTable =
  ht_capacity :: nat
  ht_size :: nat
  ht_hashes :: "HashCode list"
  ht_elems :: "'e option list"

definition OCCUPIED_MASK :: u32 where
  "OCCUPIED_MASK = 0x80000000"

definition DEFAULT_HASH_TABLE_CAPACITY :: nat where
  "DEFAULT_HASH_TABLE_CAPACITY = 4"

definition MAX_LOAD_FACTOR :: nat where
  "MAX_LOAD_FACTOR = 70"

definition incrementWrap :: "nat \<Rightarrow> nat \<Rightarrow> nat" where
  "incrementWrap cap index = (if index + 1 \<ge> cap then 0 else index + 1)"

definition needsRehash :: "'e HashTable \<Rightarrow> bool" where
  "needsRehash ht \<longleftrightarrow> ht_size ht * 100 \<ge> ht_capacity ht * MAX_LOAD_FACTOR"

definition allocElems :: "nat \<Rightarrow> 'e option list" where
  "allocElems cap = replicate cap None"

definition allocHashes :: "nat \<Rightarrow> HashCode list" where
  "allocHashes cap = replicate cap 0"

definition newHashTableWithCapacity :: "nat \<Rightarrow> 'e HashTable" where
  "newHashTableWithCapacity cap =
     (let cap = nextPrime cap
      in \<lparr>ht_capacity = cap, ht_size = 0, ht_hashes = allocHashes cap, ht_elems = allocElems cap\<rparr>)"

definition newHashTable :: "'e HashTable" where
  "newHashTable = newHashTableWithCapacity DEFAULT_HASH_TABLE_CAPACITY"

text \<open>After \<open>freeHashTable\<close> the arrays must not be read; the model drops them.\<close>

definition freeHashTable :: "'e HashTable \<Rightarrow> 'e HashTable" where
  "freeHashTable ht = ht\<lparr>ht_capacity := 0, ht_size := 0, ht_hashes := [], ht_elems := []\<rparr>"

definition isOccupiedHash :: "HashCode \<Rightarrow> bool" where
  "isOccupiedHash h \<longleftrightarrow> h AND OCCUPIED_MASK \<noteq> 0"

definition isBucketOccupied :: "'e HashTable \<Rightarrow> nat \<Rightarrow> bool" where
  "isBucketOccupied ht i = isOccupiedHash (ht_hashes ht ! i)"

text \<open>The probing loop \<open>while (!stop(index)) index = incrementWrap(capacity, index)\<close> that
  lookup, insertion and rehashing share, each with its own exit condition.\<close>

partial_function (option) probeLoop :: "(nat \<Rightarrow> bool) \<Rightarrow> nat \<Rightarrow> nat \<Rightarrow> nat option" where
  "probeLoop stop cap index =
     (if stop index then Some index else probeLoop stop cap (incrementWrap cap index))"

text \<open>One iteration of the loop of \<open>rehashTable\<close> and the loop over the old buckets.\<close>

definition rehashBucket ::
  "'e HashTable \<Rightarrow> nat \<Rightarrow> nat \<Rightarrow> HashCode list \<times> 'e option list \<Rightarrow> (HashCode list \<times> 'e option list) option" where
  "rehashBucket ht new_capacity i st =
     (let (new_hashes, new_elems) = st; hash = ht_hashes ht ! i
      in if \<not> isOccupiedHash hash then Some (new_hashes, new_elems)
         else case probeLoop (\<lambda>index. \<not> isOccupiedHash (new_hashes ! index)) new_capacity
                     (modPrime (unat hash) new_capacity) of
                None \<Rightarrow> None
              | Some index \<Rightarrow> Some (new_hashes[index := hash], new_elems[index := ht_elems ht ! i]))"

fun rehashBuckets ::
  "'e HashTable \<Rightarrow> nat \<Rightarrow> nat list \<Rightarrow> HashCode list \<times> 'e option list \<Rightarrow> (HashCode list \<times> 'e option list) option" where
  "rehashBuckets ht new_capacity [] st = Some st"
| "rehashBuckets ht new_capacity (i # is) st =
     (case rehashBucket ht new_capacity i st of
        None \<Rightarrow> None
      | Some st' \<Rightarrow> rehashBuckets ht new_capacity is st')"

definition rehashTable :: "'e HashTable \<Rightarrow> 'e HashTable option" where
  "rehashTable ht =
     (let new_capacity = nextPrime (ht_capacity ht);
          new_capacity = (if new_capacity \<le> ht_capacity ht then ht_capacity ht * 2 + 1 else new_capacity)
      in case rehashBuckets ht new_capacity [0..<ht_capacity ht]
                (allocHashes new_capacity, allocElems new_capacity) of
           None \<Rightarrow> None
         | Some (new_hashes, new_elems) \<Rightarrow>
             Some (ht\<lparr>ht_hashes := new_hashes, ht_elems := new_elems, ht_capacity := new_capacity\<rparr>))"

text \<open>\<open>compare(elemAt(elems, index), elem)\<close>, with the searched element already applied.\<close>

definition bucketMatches :: "'e HashTable \<Rightarrow> ('e \<Rightarrow> bool) \<Rightarrow> HashCode \<Rightarrow> nat \<Rightarrow> bool" where
  "bucketMatches ht compare hash index \<longleftrightarrow>
     ht_hashes ht ! index = hash \<and>
     (case ht_elems ht ! index of None \<Rightarrow> False | Some target \<Rightarrow> compare target)"

definition insertInHashTable ::
  "'e HashTable \<Rightarrow> 'e \<Rightarrow> HashCode \<Rightarrow> ('e \<Rightarrow> bool) \<Rightarrow> (bool \<times> 'e HashTable) option" where
  "insertInHashTable ht elem hash compare =
     (let hash = hash OR OCCUPIED_MASK;
          index = modPrime (unat hash) (ht_capacity ht)
      in case probeLoop (\<lambda>index. \<not> isBucketOccupied ht index \<or> bucketMatches ht compare hash index)
                (ht_capacity ht) index of
           None \<Rightarrow> None
         | Some index \<Rightarrow>
             if isBucketOccupied ht index then Some (False, ht)
             else let ht = ht\<lparr>ht_elems := (ht_elems ht)[index := Some elem],
                              ht_hashes := (ht_hashes ht)[index := hash],
                              ht_size := ht_size ht + 1\<rparr>
                  in if needsRehash ht
                     then (case rehashTable ht of None \<Rightarrow> None | Some ht \<Rightarrow> Some (True, ht))
                     else Some (True, ht))"

text \<open>The inner option is the returned pointer: the bucket, or \<open>NULL\<close>.\<close>

definition findInHashTable ::
  "'e HashTable \<Rightarrow> HashCode \<Rightarrow> ('e \<Rightarrow> bool) \<Rightarrow> nat option option" where
  "findInHashTable ht hash compare =
     (let hash = hash OR OCCUPIED_MASK;
          index = modPrime (unat hash) (ht_capacity ht)
      in case probeLoop (\<lambda>index. \<not> isBucketOccupied ht index \<or> bucketMatches ht compare hash index)
                (ht_capacity ht) index of
           None \<Rightarrow> None
         | Some index \<Rightarrow> Some (if isBucketOccupied ht index then Some index else None))"

text \<open>\<open>enumerateHashTable\<close> calls the callback on the occupied buckets in order until it
  returns false; the model threads the callback's state.\<close>

fun enumerateFrom ::
  "'e HashTable \<Rightarrow> ('c \<Rightarrow> 'e option \<Rightarrow> bool \<times> 'c) \<Rightarrow> nat list \<Rightarrow> 'c \<Rightarrow> 'c" where
  "enumerateFrom ht with [] ctx = ctx"
| "enumerateFrom ht with (i # is) ctx =
     (if \<not> isOccupiedHash (ht_hashes ht ! i) then enumerateFrom ht with is ctx
      else case with ctx (ht_elems ht ! i) of
             (False, ctx) \<Rightarrow> ctx
           | (True, ctx) \<Rightarrow> enumerateFrom ht with is ctx)"

definition enumerateHashTable ::
  "'e HashTable \<Rightarrow> 'c \<Rightarrow> ('c \<Rightarrow> 'e option \<Rightarrow> bool \<times> 'c) \<Rightarrow> 'c" where
  "enumerateHashTable ht ctx with = enumerateFrom ht with [0..<ht_capacity ht] ctx"

text \<open>The iterator is its position \<open>it->i\<close>. \<open>hashTableItNext\<close> returns the bucket of the
  next element and the position after it; \<open>hashTableItHasNext\<close> also moves the position.\<close>

function hashTableItSkip :: "'e HashTable \<Rightarrow> nat \<Rightarrow> nat" where
  "hashTableItSkip ht i =
     (if i < ht_capacity ht \<and> \<not> isOccupiedHash (ht_hashes ht ! i) then hashTableItSkip ht (Suc i) else i)"
  by pat_completeness auto
termination
  by (relation "measure (\<lambda>(ht, i). ht_capacity ht - i)") auto

declare hashTableItSkip.simps [simp del]

definition hashTableItNext :: "'e HashTable \<Rightarrow> nat \<Rightarrow> nat option \<times> nat" where
  "hashTableItNext ht i =
     (let i = hashTableItSkip ht i
      in if i < ht_capacity ht then (Some i, Suc i) else (None, i))"

definition hashTableItHasNext :: "'e HashTable \<Rightarrow> nat \<Rightarrow> bool \<times> nat" where
  "hashTableItHasNext ht i =
     (let i = hashTableItSkip ht i in (i < ht_capacity ht, i))"

text \<open>The back-shifting loop of \<open>removeFromHashTable\<close>, over the two arrays, the hole
  \<open>index\<close> and the scanning position \<open>next_index\<close>.\<close>

partial_function (option) removeLoop ::
  "nat \<Rightarrow> HashCode list \<Rightarrow> 'e option list \<Rightarrow> nat \<Rightarrow> nat \<Rightarrow> (HashCode list \<times> 'e option list \<times> nat) option" where
  "removeLoop cap hashes elems index next_index =
     (if isOccupiedHash (hashes ! next_index)
      then let next_hash = hashes ! next_index;
               desired_index = modPrime (unat next_hash) cap
           in if desired_index \<le> index \<or> desired_index > next_index
              then removeLoop cap (hashes[index := next_hash]) (elems[index := elems ! next_index])
                     next_index (incrementWrap cap next_index)
              else removeLoop cap hashes elems index (incrementWrap cap next_index)
      else Some (hashes, elems, index))"

definition removeFromHashTable :: "'e HashTable \<Rightarrow> nat \<Rightarrow> 'e HashTable option" where
  "removeFromHashTable ht index =
     (case removeLoop (ht_capacity ht) (ht_hashes ht) (ht_elems ht) index
             (incrementWrap (ht_capacity ht) index) of
        None \<Rightarrow> None
      | Some (hashes, elems, index) \<Rightarrow>
          Some (ht\<lparr>ht_hashes := hashes[index := 0], ht_elems := elems, ht_size := ht_size ht - 1\<rparr>))"

definition clearHashTable :: "'e HashTable \<Rightarrow> 'e HashTable" where
  "clearHashTable ht =
     (if ht_size ht = 0 then ht
      else ht\<lparr>ht_size := 0, ht_hashes := replicate (ht_capacity ht) 0\<rparr>)"

section \<open>The occupied bit\<close>

lemma bit_OCCUPIED_MASK: "bit OCCUPIED_MASK n \<longleftrightarrow> n = 31"
proof -
  have m: "OCCUPIED_MASK = 2 ^ 31" by (simp add: OCCUPIED_MASK_def)
  show ?thesis unfolding m bit_exp_iff by auto
qed

lemma isOccupiedHash_bit: "isOccupiedHash h \<longleftrightarrow> bit h 31"
proof
  assume "isOccupiedHash h"
  then obtain n where "bit (h AND OCCUPIED_MASK) n"
    unfolding isOccupiedHash_def by (metis bit_eq_iff bit_0_eq bot_apply bot_bool_def)
  then show "bit h 31" by (auto simp: bit_and_iff bit_OCCUPIED_MASK)
next
  assume "bit h 31"
  then have "bit (h AND OCCUPIED_MASK) 31" by (simp add: bit_and_iff bit_OCCUPIED_MASK)
  then show "isOccupiedHash h" by (auto simp: isOccupiedHash_def)
qed

lemma isOccupiedHash_0 [simp]: "\<not> isOccupiedHash 0"
  by (simp add: isOccupiedHash_def)

lemma isOccupiedHash_mask [simp]: "isOccupiedHash (h OR OCCUPIED_MASK)"
  by (simp add: isOccupiedHash_bit bit_or_iff bit_OCCUPIED_MASK)

lemma mask_idem: "isOccupiedHash h \<Longrightarrow> h OR OCCUPIED_MASK = h"
  by (rule bit_word_eqI) (auto simp: bit_or_iff bit_OCCUPIED_MASK isOccupiedHash_bit)

section \<open>The probing loop\<close>

lemma incrementWrap_cyc: "i < n \<Longrightarrow> incrementWrap n i = cyc n i (Suc 0)"
  by (cases "Suc i = n") (auto simp: incrementWrap_def cyc_def)

lemma incrementWrap_less [simp]: "0 < n \<Longrightarrow> incrementWrap n i < n"
  by (simp add: incrementWrap_def)

lemma probeLoop_run:
  "i < n \<Longrightarrow> (\<And>j. j < k \<Longrightarrow> \<not> stop (cyc n i j)) \<Longrightarrow> stop (cyc n i k) \<Longrightarrow>
   probeLoop stop n i = Some (cyc n i k)"
proof (induction k arbitrary: i)
  case 0
  then show ?case by (subst probeLoop.simps) (simp add: cyc_0)
next
  case (Suc k)
  have "\<not> stop i" using Suc.prems(2) [of 0] Suc.prems(1) by (simp add: cyc_0)
  moreover have "probeLoop stop n (cyc n i (Suc 0)) = Some (cyc n (cyc n i (Suc 0)) k)"
  proof (rule Suc.IH)
    show "cyc n i (Suc 0) < n" using Suc.prems(1) by simp
    show "\<not> stop (cyc n (cyc n i (Suc 0)) j)" if "j < k" for j
      using Suc.prems(2) [of "Suc j"] that by (simp add: cyc_step)
    show "stop (cyc n (cyc n i (Suc 0)) k)" using Suc.prems(3) by (simp add: cyc_step)
  qed
  ultimately show ?case
    using Suc.prems(1) by (subst probeLoop.simps) (simp add: incrementWrap_cyc cyc_step)
qed

lemma probeLoop_first:
  assumes "i < n" and "x < n" and "stop x"
  obtains k where "k \<le> cdist n i x" and "probeLoop stop n i = Some (cyc n i k)"
    and "stop (cyc n i k)" and "\<And>j. j < k \<Longrightarrow> \<not> stop (cyc n i j)"
proof -
  let ?k = "LEAST k. stop (cyc n i k)"
  have ex: "stop (cyc n i (cdist n i x))" using assms by (simp add: cyc_cdist)
  have "stop (cyc n i ?k)" by (rule LeastI [of "\<lambda>k. stop (cyc n i k)", OF ex])
  moreover have "?k \<le> cdist n i x" by (rule Least_le [of "\<lambda>k. stop (cyc n i k)", OF ex])
  moreover have "\<not> stop (cyc n i j)" if "j < ?k" for j using not_less_Least [OF that] .
  moreover from calculation have "probeLoop stop n i = Some (cyc n i ?k)"
    by (intro probeLoop_run assms(1)) blast+
  ultimately show thesis by (intro that [of ?k])
qed

text \<open>A loop with no exit bucket does not return.\<close>

lemma probeLoop_diverges:
  assumes "\<And>x. x < n \<Longrightarrow> \<not> stop x" and "i < n"
  shows "probeLoop stop n i = None"
proof (rule ccontr)
  assume "probeLoop stop n i \<noteq> None"
  then obtain r where ret: "probeLoop stop n i = Some r" by blast
  have "i < n \<longrightarrow> (\<exists>x<n. stop x)"
  proof (rule probeLoop.raw_induct [where P = "\<lambda>stop n i r. i < n \<longrightarrow> (\<exists>x<n. stop x)", OF _ ret])
    fix loop and stop :: "nat \<Rightarrow> bool" and n i r
    assume "\<And>stop n i r. loop stop n i = Some r \<Longrightarrow> i < n \<longrightarrow> (\<exists>x<n. stop x)"
      and "(if stop i then Some i else loop stop n (incrementWrap n i)) = Some r"
    then show "i < n \<longrightarrow> (\<exists>x<n. stop x)"
      by (metis incrementWrap_less not_less_zero linorder_neqE_nat)
  qed
  with assms show False by blast
qed

text \<open>Conditional forms of the loop equation, for evaluation.\<close>

lemma probeLoop_stop: "stop i \<Longrightarrow> probeLoop stop n i = Some i"
  by (subst probeLoop.simps) simp

lemma probeLoop_next: "\<not> stop i \<Longrightarrow> probeLoop stop n i = probeLoop stop n (incrementWrap n i)"
  by (subst probeLoop.simps) simp

section \<open>The invariant\<close>

text \<open>Over the two arrays: every bucket on the probing path from the home position of a
  stored hash to the bucket that stores it is occupied.\<close>

abbreviation home :: "nat \<Rightarrow> HashCode \<Rightarrow> nat" where
  "home n h \<equiv> unat h mod n"

abbreviation occ :: "HashCode list \<Rightarrow> nat \<Rightarrow> bool" where
  "occ hs i \<equiv> isOccupiedHash (hs ! i)"

definition path_occ :: "nat \<Rightarrow> HashCode list \<Rightarrow> HashCode \<Rightarrow> nat \<Rightarrow> bool" where
  "path_occ n hs h i \<longleftrightarrow> (\<forall>k<cdist n (home n h) i. occ hs (cyc n (home n h) k))"

definition chained :: "nat \<Rightarrow> HashCode list \<Rightarrow> bool" where
  "chained n hs \<longleftrightarrow> (\<forall>i<n. occ hs i \<longrightarrow> path_occ n hs (hs ! i) i)"

definition entry_list :: "HashCode list \<Rightarrow> 'e option list \<Rightarrow> (HashCode \<times> 'e option) list" where
  "entry_list hs es = filter (\<lambda>(h, _). isOccupiedHash h) (zip hs es)"

definition entries :: "'e HashTable \<Rightarrow> (HashCode \<times> 'e option) multiset" where
  "entries ht = mset (entry_list (ht_hashes ht) (ht_elems ht))"

definition arrays_ok :: "nat \<Rightarrow> HashCode list \<Rightarrow> 'e option list \<Rightarrow> bool" where
  "arrays_ok n hs es \<longleftrightarrow> 0 < n \<and> length hs = n \<and> length es = n \<and> chained n hs \<and>
     (\<forall>i<n. occ hs i \<longrightarrow> es ! i \<noteq> None)"

text \<open>The table invariant: well-formed arrays, \<open>size\<close> counts the occupied buckets, and the
  load is below \<open>MAX_LOAD_FACTOR\<close> percent, so a free bucket is always there.\<close>

definition ht_inv :: "'e HashTable \<Rightarrow> bool" where
  "ht_inv ht \<longleftrightarrow> arrays_ok (ht_capacity ht) (ht_hashes ht) (ht_elems ht) \<and>
     ht_size ht = size (entries ht) \<and>
     ht_size ht * 100 < ht_capacity ht * MAX_LOAD_FACTOR \<and>
     (ht_capacity ht \<in> set primes \<or> MAX_PRIME \<le> ht_capacity ht)"

lemma entry_list_iff:
  "length hs = length es \<Longrightarrow>
   (h, e) \<in> set (entry_list hs es) \<longleftrightarrow> (\<exists>i<length hs. occ hs i \<and> hs ! i = h \<and> es ! i = e)"
  by (auto simp: entry_list_def set_zip)

lemma in_entries_iff:
  "arrays_ok (ht_capacity ht) (ht_hashes ht) (ht_elems ht) \<Longrightarrow>
   (h, e) \<in># entries ht \<longleftrightarrow> (\<exists>i<ht_capacity ht. isBucketOccupied ht i \<and> ht_hashes ht ! i = h \<and> ht_elems ht ! i = e)"
  by (auto simp: entries_def entry_list_iff arrays_ok_def isBucketOccupied_def)

lemma entry_list_update:
  assumes "i < length hs" "length es = length hs"
  shows "mset (entry_list (hs[i := h]) (es[i := e])) + (if occ hs i then {#(hs ! i, es ! i)#} else {#})
       = mset (entry_list hs es) + (if isOccupiedHash h then {#(h, e)#} else {#})"
  using assms
proof (induction hs es arbitrary: i rule: list_induct2')
  case (4 x xs y ys)
  show ?case
  proof (cases i)
    case 0
    then show ?thesis by (auto simp: entry_list_def)
  next
    case (Suc j)
    then show ?thesis using "4.IH" [of j] "4.prems" by (auto simp: entry_list_def split: if_splits)
  qed
qed auto

lemma entry_list_length:
  "length hs = length es \<Longrightarrow> length (entry_list hs es) = length (filter isOccupiedHash hs)"
  by (induction hs es rule: list_induct2) (auto simp: entry_list_def)

lemma free_bucket:
  assumes "length hs = length es" "length (entry_list hs es) < length hs"
  obtains i where "i < length hs" "\<not> occ hs i"
  using ex_unfiltered [of isOccupiedHash hs] assms by (auto simp: entry_list_length)

section \<open>Placing a hash in the bucket found by probing\<close>

lemma path_occ_update:
  assumes "path_occ n hs h i" and "0 < n" and "length hs = n" and "isOccupiedHash g"
  shows "path_occ n (hs[j := g]) h i"
  using assms by (auto simp: path_occ_def nth_list_update_if)

lemma chained_place:
  assumes "chained n hs" "length hs = n" "i < n" "isOccupiedHash h" "path_occ n hs h i"
  shows "chained n (hs[i := h])"
  using assms path_occ_update [of n hs _ _ h i]
  by (auto simp: chained_def nth_list_update_if)

lemma arrays_ok_place:
  assumes "arrays_ok n hs es" "i < n" "isOccupiedHash h" "path_occ n hs h i"
  shows "arrays_ok n (hs[i := h]) (es[i := Some e])"
  using assms by (auto simp: arrays_ok_def chained_place nth_list_update_if)

lemma probe_path:
  assumes "arrays_ok n hs es" and "i = cyc n (home n h) k" and "k < n"
    and "\<And>j. j < k \<Longrightarrow> occ hs (cyc n (home n h) j)"
  shows "i < n" and "path_occ n hs h i"
  using assms by (auto simp: arrays_ok_def path_occ_def cdist_cyc)

lemma home_less [simp]: "0 < n \<Longrightarrow> home n h < n"
  by simp

section \<open>Rehashing\<close>

lemma rehashBucket_ok:
  assumes ok: "arrays_ok n hs es" and room: "length (entry_list hs es) < n"
    and elem: "isOccupiedHash (ht_hashes ht ! i) \<Longrightarrow> ht_elems ht ! i \<noteq> None"
  obtains hs' es' where "rehashBucket ht n i (hs, es) = Some (hs', es')" and "arrays_ok n hs' es'"
    and "mset (entry_list hs' es') = mset (entry_list hs es)
           + (if isOccupiedHash (ht_hashes ht ! i) then {#(ht_hashes ht ! i, ht_elems ht ! i)#} else {#})"
proof (cases "isOccupiedHash (ht_hashes ht ! i)")
  case False
  then show thesis using that [of hs es] ok by (simp add: rehashBucket_def)
next
  case True
  let ?h = "ht_hashes ht ! i"
  from elem True obtain e where e: "ht_elems ht ! i = Some e" by blast
  have n: "0 < n" "length hs = n" "length es = n" using ok by (auto simp: arrays_ok_def)
  from free_bucket [of hs es] room n obtain x where x: "x < n" "\<not> occ hs x" by auto
  obtain k where k: "k \<le> cdist n (home n ?h) x"
      "probeLoop (\<lambda>i. \<not> occ hs i) n (home n ?h) = Some (cyc n (home n ?h) k)"
      "\<not> occ hs (cyc n (home n ?h) k)" "\<And>j. j < k \<Longrightarrow> occ hs (cyc n (home n ?h) j)"
    using probeLoop_first [of "home n ?h" n x "\<lambda>i. \<not> occ hs i"] n x by auto
  define y where "y = cyc n (home n ?h) k"
  have kn: "k < n" using k(1) cdist_less [of "home n ?h" n x] n x by simp
  have y: "y < n" "path_occ n hs ?h y" using probe_path [OF ok y_def kn k(4)] by auto
  show thesis
  proof (rule that)
    show "rehashBucket ht n i (hs, es) = Some (hs[y := ?h], es[y := Some e])"
      using True k(2) e by (simp add: rehashBucket_def y_def Let_def)
    show "arrays_ok n (hs[y := ?h]) (es[y := Some e])"
      by (rule arrays_ok_place [OF ok y(1) True y(2)])
    show "mset (entry_list (hs[y := ?h]) (es[y := Some e])) = mset (entry_list hs es)
           + (if isOccupiedHash ?h then {#(?h, ht_elems ht ! i)#} else {#})"
      using entry_list_update [of y hs es ?h "Some e"] y n k(3) True e by (simp add: y_def)
  qed
qed

lemma rehashBuckets_ok:
  assumes "arrays_ok n hs es"
    and "length (entry_list hs es) + length (filter (\<lambda>i. occ (ht_hashes ht) i) is) < n"
    and "\<And>i. i \<in> set is \<Longrightarrow> occ (ht_hashes ht) i \<Longrightarrow> ht_elems ht ! i \<noteq> None"
  shows "\<exists>hs' es'. rehashBuckets ht n is (hs, es) = Some (hs', es') \<and> arrays_ok n hs' es' \<and>
     mset (entry_list hs' es') = mset (entry_list hs es)
       + mset (map (\<lambda>i. (ht_hashes ht ! i, ht_elems ht ! i)) (filter (\<lambda>i. occ (ht_hashes ht) i) is))"
  using assms
proof (induction "is" arbitrary: hs es)
  case (Cons i "is")
  from Cons.prems have room: "length (entry_list hs es) < n" by simp
  obtain hs' es' where st: "rehashBucket ht n i (hs, es) = Some (hs', es')" "arrays_ok n hs' es'"
      "mset (entry_list hs' es') = mset (entry_list hs es)
           + (if occ (ht_hashes ht) i then {#(ht_hashes ht ! i, ht_elems ht ! i)#} else {#})"
    using rehashBucket_ok [OF Cons.prems(1) room] Cons.prems(3) by (metis list.set_intros(1))
  from arg_cong [OF st(3), of size] have "length (entry_list hs' es') = length (entry_list hs es) + (if occ (ht_hashes ht) i then 1 else 0)"
    by (simp split: if_splits)
  with Cons.prems have "length (entry_list hs' es') + length (filter (\<lambda>i. occ (ht_hashes ht) i) is) < n"
    by (simp split: if_splits)
  from Cons.IH [OF st(2) this] Cons.prems(3) st show ?case
    by (auto split: if_splits)
qed simp

lemma entry_list_map:
  assumes "length hs = n" "length es = n"
  shows "entry_list hs es = map (\<lambda>i. (hs ! i, es ! i)) (filter (\<lambda>i. occ hs i) [0..<n])"
proof -
  have "zip hs es = map (\<lambda>i. (hs ! i, es ! i)) [0..<n]"
    using assms by (intro nth_equalityI) auto
  then show ?thesis by (simp add: entry_list_def filter_map o_def)
qed

lemma arrays_ok_empty: "0 < n \<Longrightarrow> arrays_ok n (replicate n 0) es \<longleftrightarrow> length es = n"
  by (auto simp: arrays_ok_def chained_def)

lemma entry_list_empty [simp]: "entry_list (replicate n 0) es = []"
  by (auto simp: entry_list_def filter_empty_conv set_zip)

definition new_capacity :: "nat \<Rightarrow> nat" where
  "new_capacity cap = (if nextPrime cap \<le> cap then cap * 2 + 1 else nextPrime cap)"

lemma new_capacity_gt: "cap < new_capacity cap"
  by (simp add: new_capacity_def)

lemma prime_gap: "p \<in> set primes \<Longrightarrow> p < MAX_PRIME \<Longrightarrow> p + 10 \<le> nextPrime p"
  unfolding nextPrime_find by (auto simp: primes_def MAX_PRIME_def)

lemma new_capacity_ok:
  assumes "cap \<in> set primes \<or> MAX_PRIME \<le> cap"
  shows "cap + 10 \<le> new_capacity cap"
    and "new_capacity cap \<in> set primes \<or> MAX_PRIME \<le> new_capacity cap"
proof -
  have "cap + 10 \<le> new_capacity cap \<and> (new_capacity cap \<in> set primes \<or> MAX_PRIME \<le> new_capacity cap)"
  proof (cases "cap < MAX_PRIME")
    case True
    with assms have p: "cap \<in> set primes" by simp
    with True prime_gap [of cap] nextPrime_in [of cap] show ?thesis
      by (auto simp: new_capacity_def)
  next
    case False
    then have "new_capacity cap = cap * 2 + 1"
      using nextPrime_le_MAX [of cap] by (simp add: new_capacity_def)
    with False show ?thesis by (simp add: MAX_PRIME_def)
  qed
  then show "cap + 10 \<le> new_capacity cap"
    and "new_capacity cap \<in> set primes \<or> MAX_PRIME \<le> new_capacity cap" by auto
qed

lemma rehashTable_ok:
  assumes ok: "arrays_ok (ht_capacity ht) (ht_hashes ht) (ht_elems ht)"
    and size: "size (entries ht) < new_capacity (ht_capacity ht)"
  obtains ht' where "rehashTable ht = Some ht'" and "entries ht' = entries ht"
    and "ht_capacity ht' = new_capacity (ht_capacity ht)" and "ht_size ht' = ht_size ht"
    and "arrays_ok (ht_capacity ht') (ht_hashes ht') (ht_elems ht')"
proof -
  let ?n = "new_capacity (ht_capacity ht)"
  let ?hs = "replicate ?n 0 :: HashCode list" and ?es = "replicate ?n None :: 'a option list"
  have n: "0 < ?n" using new_capacity_gt [of "ht_capacity ht"] by simp
  have lens: "length (ht_hashes ht) = ht_capacity ht" "length (ht_elems ht) = ht_capacity ht"
    using ok by (auto simp: arrays_ok_def)
  note el = entry_list_map [OF lens]
  have "\<exists>hs' es'. rehashBuckets ht ?n [0..<ht_capacity ht] (?hs, ?es) = Some (hs', es') \<and> arrays_ok ?n hs' es' \<and>
     mset (entry_list hs' es') = mset (entry_list ?hs ?es) + mset (entry_list (ht_hashes ht) (ht_elems ht))"
    unfolding el
  proof (rule rehashBuckets_ok)
    show "arrays_ok ?n ?hs ?es" using n by (simp add: arrays_ok_empty)
    show "length (entry_list ?hs ?es) + length (filter (\<lambda>i. occ (ht_hashes ht) i) [0..<ht_capacity ht]) < ?n"
      using size by (simp only: entries_def size_mset el length_map entry_list_empty list.size add_0)
    show "\<And>i. i \<in> set [0..<ht_capacity ht] \<Longrightarrow> occ (ht_hashes ht) i \<Longrightarrow> ht_elems ht ! i \<noteq> None"
      using ok by (auto simp: arrays_ok_def)
  qed
  then obtain hs' es' where r: "rehashBuckets ht ?n [0..<ht_capacity ht] (?hs, ?es) = Some (hs', es')"
      "arrays_ok ?n hs' es'" "mset (entry_list hs' es') = entries ht"
    by (auto simp: entries_def)
  show thesis
  proof (rule that)
    show "rehashTable ht = Some (ht\<lparr>ht_hashes := hs', ht_elems := es', ht_capacity := ?n\<rparr>)"
      using r(1) by (simp add: rehashTable_def Let_def new_capacity_def allocHashes_def allocElems_def split del: if_split)
  qed (use r in \<open>auto simp: entries_def\<close>)
qed

section \<open>Lookup and insertion\<close>

lemma ht_inv_arrays: "ht_inv ht \<Longrightarrow> arrays_ok (ht_capacity ht) (ht_hashes ht) (ht_elems ht)"
  by (simp add: ht_inv_def)

lemma ht_inv_free:
  assumes "ht_inv ht"
  obtains x where "x < ht_capacity ht" "\<not> isBucketOccupied ht x"
proof -
  have "size (entries ht) < ht_capacity ht" using assms by (simp add: ht_inv_def MAX_LOAD_FACTOR_def)
  then show thesis
    using assms that free_bucket [of "ht_hashes ht" "ht_elems ht"]
    by (auto simp: ht_inv_def arrays_ok_def entries_def isBucketOccupied_def)
qed

text \<open>What the shared probing loop of lookup and insertion finds.\<close>

lemma probe_key:
  fixes ht :: "'e HashTable" and hash :: HashCode
  assumes inv: "ht_inv ht"
  defines "n \<equiv> ht_capacity ht" and "h \<equiv> hash OR OCCUPIED_MASK"
  obtains y where "probeLoop (\<lambda>i. \<not> isBucketOccupied ht i \<or> bucketMatches ht compare h i) n (modPrime (unat h) n) = Some y"
    and "y < n" and "path_occ n (ht_hashes ht) h y"
    and "isBucketOccupied ht y \<Longrightarrow> bucketMatches ht compare h y"
    and "\<not> isBucketOccupied ht y \<Longrightarrow> \<forall>x<n. isBucketOccupied ht x \<longrightarrow> \<not> bucketMatches ht compare h x"
proof -
  let ?stop = "\<lambda>i. \<not> isBucketOccupied ht i \<or> bucketMatches ht compare h i"
  have ok: "arrays_ok n (ht_hashes ht) (ht_elems ht)" using inv by (simp add: ht_inv_def n_def)
  then have n: "0 < n" by (simp add: arrays_ok_def)
  obtain x where x: "x < n" "\<not> isBucketOccupied ht x" using ht_inv_free [OF inv] by (auto simp: n_def)
  have hm: "home n h < n" using n by simp
  obtain k where k: "k \<le> cdist n (home n h) x" "probeLoop ?stop n (home n h) = Some (cyc n (home n h) k)"
      "?stop (cyc n (home n h) k)" "\<And>j. j < k \<Longrightarrow> \<not> ?stop (cyc n (home n h) j)"
    using probeLoop_first [of "home n h" n x ?stop] hm x by blast
  define y where "y = cyc n (home n h) k"
  have "k < n" using k(1) cdist_less [of "home n h" n x] hm x by simp
  with k(4) have y: "y < n" "path_occ n (ht_hashes ht) h y"
    by (auto intro: probe_path [OF ok y_def] simp: isBucketOccupied_def)
  have none: "\<not> bucketMatches ht compare h z"
    if free: "\<not> isBucketOccupied ht y" and z: "z < n" "isBucketOccupied ht z" for z
  proof
    assume m: "bucketMatches ht compare h z"
    then have "ht_hashes ht ! z = h" by (simp add: bucketMatches_def)
    with ok z have path: "path_occ n (ht_hashes ht) h z"
      by (auto simp: arrays_ok_def chained_def isBucketOccupied_def)
    have "?stop (cyc n (home n h) (cdist n (home n h) z))" using m z hm by (simp add: cyc_cdist)
    with k(4) have "k \<le> cdist n (home n h) z" by (meson linorder_not_less)
    moreover have "\<not> k < cdist n (home n h) z"
      using path free by (auto simp: path_occ_def y_def isBucketOccupied_def)
    ultimately have "y = z" using hm z by (simp add: y_def cyc_cdist)
    with free z show False by simp
  qed
  show thesis
    by (rule that [of y]) (use k y none in \<open>auto simp: y_def\<close>)
qed

lemma bucketMatches_entry:
  "bucketMatches ht compare h x \<Longrightarrow> \<exists>e. ht_hashes ht ! x = h \<and> ht_elems ht ! x = Some e \<and> compare e"
  by (auto simp: bucketMatches_def split: option.splits)

lemma no_match_entries:
  assumes "ht_inv ht" and "\<forall>x<ht_capacity ht. isBucketOccupied ht x \<longrightarrow> \<not> bucketMatches ht compare h x"
    and "(h, Some e) \<in># entries ht"
  shows "\<not> compare e"
  using assms in_entries_iff [OF ht_inv_arrays [OF assms(1)]]
  by (auto simp: bucketMatches_def)

lemma findInHashTable_cases:
  assumes "ht_inv ht"
  obtains (hit) i e where "findInHashTable ht hash compare = Some (Some i)" "i < ht_capacity ht"
      "isBucketOccupied ht i" "ht_hashes ht ! i = hash OR OCCUPIED_MASK" "ht_elems ht ! i = Some e" "compare e"
  | (miss) "findInHashTable ht hash compare = Some None"
      "\<And>e. (hash OR OCCUPIED_MASK, Some e) \<in># entries ht \<Longrightarrow> \<not> compare e"
proof -
  let ?h = "hash OR OCCUPIED_MASK"
  obtain y where y: "probeLoop (\<lambda>i. \<not> isBucketOccupied ht i \<or> bucketMatches ht compare ?h i) (ht_capacity ht)
        (modPrime (unat ?h) (ht_capacity ht)) = Some y" "y < ht_capacity ht"
      "path_occ (ht_capacity ht) (ht_hashes ht) ?h y"
      "isBucketOccupied ht y \<Longrightarrow> bucketMatches ht compare ?h y"
      "\<not> isBucketOccupied ht y \<Longrightarrow> \<forall>x<ht_capacity ht. isBucketOccupied ht x \<longrightarrow> \<not> bucketMatches ht compare ?h x"
    by (rule probe_key [OF assms]) (rule that)
  show thesis
  proof (cases "isBucketOccupied ht y")
    case True
    with y(4) obtain e where "ht_hashes ht ! y = ?h" "ht_elems ht ! y = Some e" "compare e"
      using bucketMatches_entry by blast
    with True y(1,2) show thesis by (intro hit [of y e]) (simp_all add: findInHashTable_def)
  next
    case False
    then show thesis
      using miss y(1) no_match_entries [OF assms y(5)] by (simp add: findInHashTable_def)
  qed
qed

lemma insertInHashTable_cases:
  assumes inv: "ht_inv ht"
  obtains (dup) e where "insertInHashTable ht elem hash compare = Some (False, ht)"
      "(hash OR OCCUPIED_MASK, Some e) \<in># entries ht" "compare e"
  | (new) ht' where "insertInHashTable ht elem hash compare = Some (True, ht')" "ht_inv ht'"
      "entries ht' = add_mset (hash OR OCCUPIED_MASK, Some elem) (entries ht)"
      "\<And>e. (hash OR OCCUPIED_MASK, Some e) \<in># entries ht \<Longrightarrow> \<not> compare e"
proof -
  let ?h = "hash OR OCCUPIED_MASK" and ?n = "ht_capacity ht"
  note ok = ht_inv_arrays [OF inv]
  obtain y where y: "probeLoop (\<lambda>i. \<not> isBucketOccupied ht i \<or> bucketMatches ht compare ?h i) ?n
        (modPrime (unat ?h) ?n) = Some y" "y < ?n" "path_occ ?n (ht_hashes ht) ?h y"
      "isBucketOccupied ht y \<Longrightarrow> bucketMatches ht compare ?h y"
      "\<not> isBucketOccupied ht y \<Longrightarrow> \<forall>x<?n. isBucketOccupied ht x \<longrightarrow> \<not> bucketMatches ht compare ?h x"
    by (rule probe_key [OF inv]) (rule that)
  show thesis
  proof (cases "isBucketOccupied ht y")
    case True
    with y(4) obtain e where "ht_hashes ht ! y = ?h" "ht_elems ht ! y = Some e" "compare e"
      using bucketMatches_entry by blast
    with True y(1,2) show thesis
      by (intro dup [of e]) (auto simp: insertInHashTable_def in_entries_iff [OF ok])
  next
    case False
    let ?ht = "ht\<lparr>ht_elems := (ht_elems ht)[y := Some elem], ht_hashes := (ht_hashes ht)[y := ?h],
                  ht_size := ht_size ht + 1\<rparr>"
    have lens: "length (ht_hashes ht) = ?n" "length (ht_elems ht) = ?n" using ok by (auto simp: arrays_ok_def)
    have ok': "arrays_ok (ht_capacity ?ht) (ht_hashes ?ht) (ht_elems ?ht)"
      using arrays_ok_place [OF ok y(2) isOccupiedHash_mask y(3)] by simp
    have ent: "entries ?ht = add_mset (?h, Some elem) (entries ht)"
      using entry_list_update [of y "ht_hashes ht" "ht_elems ht" ?h "Some elem"] y(2) lens False
      by (simp add: entries_def isBucketOccupied_def)
    have sz: "ht_size ?ht = size (entries ?ht)"
      unfolding ent using inv by (simp add: ht_inv_def)
    have nomatch: "\<And>e. (?h, Some e) \<in># entries ht \<Longrightarrow> \<not> compare e"
      using no_match_entries [OF inv y(5) [OF False]] by blast
    show thesis
    proof (cases "needsRehash ?ht")
      case True
      have cap: "?n \<in> set primes \<or> MAX_PRIME \<le> ?n" and load: "ht_size ht * 100 < ?n * 70"
        using inv by (auto simp: ht_inv_def MAX_LOAD_FACTOR_def)
      then have "size (entries ?ht) < new_capacity (ht_capacity ?ht)"
        using sz new_capacity_ok(1) [OF cap] by simp
      then obtain ht' where r: "rehashTable ?ht = Some ht'" "entries ht' = entries ?ht"
          "ht_capacity ht' = new_capacity ?n" "ht_size ht' = ht_size ?ht"
          "arrays_ok (ht_capacity ht') (ht_hashes ht') (ht_elems ht')"
        using rehashTable_ok [OF ok'] by auto
      have "ht_inv ht'"
        using r sz new_capacity_ok [OF cap] load by (simp add: ht_inv_def MAX_LOAD_FACTOR_def)
      with False True y(1) r ent nomatch show thesis
        by (intro new [of ht']) (simp_all add: insertInHashTable_def)
    next
      case nore: False
      then have "ht_inv ?ht"
        using inv ok' sz by (simp add: ht_inv_def needsRehash_def)
      with False nore y(1) ent nomatch show thesis
        by (intro new [of ?ht]) (simp_all add: insertInHashTable_def)
    qed
  qed
qed

lemma newHashTableWithCapacity_inv:
  "ht_inv (newHashTableWithCapacity c :: 'e HashTable) \<and> entries (newHashTableWithCapacity c :: 'e HashTable) = {#}"
  using nextPrime_in [of c]
  by (simp add: newHashTableWithCapacity_def ht_inv_def entries_def allocHashes_def allocElems_def
      Let_def arrays_ok_empty MAX_LOAD_FACTOR_def)

section \<open>The interface the clients rely on\<close>

text \<open>
  What a component that keeps elements by hash expects of the table: \<open>mem t h e\<close> says
  that \<open>e\<close> was inserted under \<open>h\<close> (hashes are compared after \<open>norm\<close>, which sets the
  occupied bit), a lookup returns, finds an element exactly when one matches, and an
  insertion adds one element unless a matching one is there.
\<close>

locale hashed_store =
  fixes invar :: "'t \<Rightarrow> bool"
    and mem :: "'t \<Rightarrow> 'h \<Rightarrow> 'e \<Rightarrow> bool"
    and norm :: "'h \<Rightarrow> 'h"
    and find :: "'t \<Rightarrow> 'h \<Rightarrow> ('e \<Rightarrow> bool) \<Rightarrow> 'p option option"
    and deref :: "'t \<Rightarrow> 'p \<Rightarrow> 'e option"
    and insert :: "'t \<Rightarrow> 'e \<Rightarrow> 'h \<Rightarrow> ('e \<Rightarrow> bool) \<Rightarrow> (bool \<times> 't) option"
  assumes find_returns: "invar t \<Longrightarrow> find t h compare \<noteq> None"
    and find_hit: "invar t \<Longrightarrow> find t h compare = Some (Some p) \<Longrightarrow>
          \<exists>e. deref t p = Some e \<and> compare e \<and> mem t h e"
    and find_miss: "invar t \<Longrightarrow> find t h compare = Some None \<Longrightarrow> mem t h e \<Longrightarrow> \<not> compare e"
    and insert_dup: "invar t \<Longrightarrow> mem t h e' \<Longrightarrow> compare e' \<Longrightarrow> insert t e h compare = Some (False, t)"
    and insert_new: "invar t \<Longrightarrow> (\<And>e'. mem t h e' \<Longrightarrow> \<not> compare e') \<Longrightarrow>
          \<exists>t'. insert t e h compare = Some (True, t') \<and> invar t' \<and>
            (\<forall>h2 e2. mem t' h2 e2 \<longleftrightarrow> mem t h2 e2 \<or> norm h2 = norm h \<and> e2 = e)"
begin

lemma find_mem:
  assumes "invar t" "mem t h e" "compare e"
  obtains p e' where "find t h compare = Some (Some p)" "deref t p = Some e'" "compare e'" "mem t h e'"
proof -
  from find_returns [OF assms(1)] obtain r where r: "find t h compare = Some r" by blast
  with find_miss [OF assms(1) _ assms(2)] assms(3) obtain p where "r = Some p" by (cases r) auto
  with r find_hit [OF assms(1)] that show thesis by blast
qed

lemma insert_returns: "invar t \<Longrightarrow> \<exists>b t'. insert t e h compare = Some (b, t') \<and> invar t'"
  by (metis insert_dup insert_new)

lemma insert_keeps_mem:
  assumes "invar t" "insert t e h compare = Some (b, t')" "mem t h2 e2"
  shows "mem t' h2 e2"
proof (cases "\<exists>e'. mem t h e' \<and> compare e'")
  case True
  then show ?thesis using assms insert_dup by force
next
  case False
  then show ?thesis using assms insert_new [of t h compare e] by auto
qed

lemma insert_true_mem:
  assumes "invar t" "insert t e h compare = Some (True, t')"
  shows "mem t' h e"
proof -
  have "\<not> (mem t h e' \<and> compare e')" for e' using assms insert_dup [of t h e' compare e] by auto
  then show ?thesis using assms insert_new [of t h compare e] by auto
qed

text \<open>After an insertion the element is found, and inserting it again changes nothing.\<close>

lemma insert_then_find:
  assumes "invar t" "insert t e h compare = Some (True, t')" "compare' e"
  obtains p e' where "find t' h compare' = Some (Some p)" "deref t' p = Some e'" "compare' e'"
proof -
  have "invar t'" using insert_returns [OF assms(1), of e h compare] assms(2) by auto
  from this insert_true_mem [OF assms(1,2)] show thesis
    by (rule find_mem [where compare = compare', OF _ _ assms(3)]) (rule that)
qed

lemma insert_idem:
  assumes "invar t" "insert t e h compare = Some (True, t')" "compare e"
  shows "insert t' e2 h compare = Some (False, t')"
proof (rule insert_dup)
  show "invar t'" using insert_returns [OF assms(1), of e h compare] assms(2) by auto
qed (use assms insert_true_mem in auto)

end

definition ht_mem :: "'e HashTable \<Rightarrow> HashCode \<Rightarrow> 'e \<Rightarrow> bool" where
  "ht_mem ht h e \<longleftrightarrow> (h OR OCCUPIED_MASK, Some e) \<in># entries ht"

text \<open>Reading the element a returned pointer points at.\<close>

definition ht_deref :: "'e HashTable \<Rightarrow> nat \<Rightarrow> 'e option" where
  "ht_deref ht i = (if i < ht_capacity ht \<and> isBucketOccupied ht i then ht_elems ht ! i else None)"

interpretation ht: hashed_store ht_inv ht_mem "\<lambda>h. h OR OCCUPIED_MASK" findInHashTable ht_deref insertInHashTable
proof (unfold_locales, goal_cases)
  case (1 t h compare)
  then show ?case by (cases rule: findInHashTable_cases [of t h compare]) auto
next
  case (2 t h compare p)
  from 2(1) show ?case
  proof (cases rule: findInHashTable_cases [of t h compare])
    case (hit i e)
    with 2 show ?thesis
      by (auto simp: ht_deref_def ht_mem_def in_entries_iff [OF ht_inv_arrays])
  qed (use 2 in auto)
next
  case (3 t h compare e)
  from 3(1) show ?case
    by (cases rule: findInHashTable_cases [of t h compare]) (use 3 in \<open>auto simp: ht_mem_def\<close>)
next
  case (4 t h e' compare e)
  from 4(1) show ?case
    by (cases rule: insertInHashTable_cases [of t e h compare]) (use 4 in \<open>auto simp: ht_mem_def\<close>)
next
  case (5 t h compare e)
  from 5(1) show ?case
    by (cases rule: insertInHashTable_cases [of t e h compare]) (use 5 in \<open>auto simp: ht_mem_def\<close>)
qed

section \<open>Clearing, enumeration and iteration\<close>

lemma clearHashTable_inv:
  assumes "ht_inv ht"
  shows "ht_inv (clearHashTable ht) \<and> entries (clearHashTable ht) = {#}"
proof (cases "ht_size ht = 0")
  case True
  then show ?thesis using assms by (auto simp: clearHashTable_def ht_inv_def)
next
  case False
  have "0 < ht_capacity ht" "length (ht_elems ht) = ht_capacity ht"
    using assms by (auto simp: ht_inv_def arrays_ok_def)
  then show ?thesis using assms False
    by (simp add: clearHashTable_def ht_inv_def entries_def arrays_ok_empty MAX_LOAD_FACTOR_def)
qed

lemma hashTableItSkip_drop:
  "filter (isBucketOccupied ht) [i..<ht_capacity ht] =
     (let j = hashTableItSkip ht i
      in if j < ht_capacity ht then j # filter (isBucketOccupied ht) [Suc j..<ht_capacity ht] else [])"
proof (induction ht i rule: hashTableItSkip.induct)
  case (1 ht i)
  show ?case
  proof (cases "i < ht_capacity ht \<and> \<not> isOccupiedHash (ht_hashes ht ! i)")
    case True
    then have "hashTableItSkip ht i = hashTableItSkip ht (Suc i)" by (subst hashTableItSkip.simps) simp
    with True 1 show ?thesis by (simp add: upt_conv_Cons isBucketOccupied_def)
  next
    case False
    then have "hashTableItSkip ht i = i" by (subst hashTableItSkip.simps) auto
    with False show ?thesis
      by (cases "i < ht_capacity ht") (simp_all add: upt_conv_Cons isBucketOccupied_def [abs_def])
  qed
qed

text \<open>Running the iterator to its end, as its clients do; \<open>fuel\<close> bounds the number of calls.\<close>

fun hashTableItAll :: "nat \<Rightarrow> 'e HashTable \<Rightarrow> nat \<Rightarrow> nat list option" where
  "hashTableItAll 0 ht i = None"
| "hashTableItAll (Suc fuel) ht i =
     (case hashTableItNext ht i of
        (None, _) \<Rightarrow> Some []
      | (Some b, i') \<Rightarrow> map_option (Cons b) (hashTableItAll fuel ht i'))"

lemma hashTableItAll_filter:
  "length (filter (isBucketOccupied ht) [i..<ht_capacity ht]) < fuel \<Longrightarrow>
   hashTableItAll fuel ht i = Some (filter (isBucketOccupied ht) [i..<ht_capacity ht])"
proof (induction fuel arbitrary: i)
  case (Suc fuel)
  let ?j = "hashTableItSkip ht i"
  note d = hashTableItSkip_drop [of ht i, unfolded Let_def]
  show ?case
  proof (cases "?j < ht_capacity ht")
    case True
    with d have eq: "filter (isBucketOccupied ht) [i..<ht_capacity ht]
        = ?j # filter (isBucketOccupied ht) [Suc ?j..<ht_capacity ht]" by simp
    show ?thesis
      unfolding eq using True Suc.IH [of "Suc ?j"] Suc.prems [unfolded eq]
      by (simp add: hashTableItNext_def Let_def)
  next
    case False
    with d show ?thesis by (simp add: hashTableItNext_def Let_def)
  qed
qed simp

lemma enumerateFrom_fold:
  assumes "\<And>ctx e. fst (with ctx e)"
  shows "enumerateFrom ht with is ctx =
     foldl (\<lambda>ctx i. snd (with ctx (ht_elems ht ! i))) ctx (filter (isBucketOccupied ht) is)"
proof (induction "is" arbitrary: ctx)
  case (Cons i "is")
  have "with ctx (ht_elems ht ! i) = (True, snd (with ctx (ht_elems ht ! i)))"
    using assms [of ctx "ht_elems ht ! i"] by (simp add: prod_eq_iff)
  then show ?case using Cons.IH
    by (auto simp: isBucketOccupied_def split: prod.splits bool.splits)
qed simp

section \<open>Removal\<close>

lemma path_occ_between:
  assumes "home n h < n" "x < n"
  shows "path_occ n hs h x \<longleftrightarrow> (\<forall>y<n. cdist n (home n h) y < cdist n (home n h) x \<longrightarrow> occ hs y)"
proof
  assume "path_occ n hs h x"
  then show "\<forall>y<n. cdist n (home n h) y < cdist n (home n h) x \<longrightarrow> occ hs y"
    using assms by (metis path_occ_def cyc_cdist)
next
  assume a: "\<forall>y<n. cdist n (home n h) y < cdist n (home n h) x \<longrightarrow> occ hs y"
  have "occ hs (cyc n (home n h) k)" if "k < cdist n (home n h) x" for k
  proof -
    have "k < n" using that cdist_less [OF assms] by simp
    then show ?thesis using a that assms by (simp add: cdist_cyc)
  qed
  then show "path_occ n hs h x" by (simp add: path_occ_def)
qed

text \<open>
  The loop invariant of a removal whose cluster ends at the free bucket \<open>m\<close> before the end
  of the array: \<open>p\<close> is the hole, \<open>q\<close> the scanning position; the entries without the hole
  are the ones that stay, and a probing path crosses the hole only towards a bucket that
  is still to be scanned.
\<close>

definition through :: "nat \<Rightarrow> nat \<Rightarrow> HashCode \<Rightarrow> nat \<Rightarrow> bool" where
  "through n p h x \<longleftrightarrow> cdist n (home n h) p < cdist n (home n h) x"

definition rm_inv :: "nat \<Rightarrow> nat \<Rightarrow> (HashCode \<times> 'e option) multiset \<Rightarrow> HashCode list \<Rightarrow> 'e option list \<Rightarrow> nat \<Rightarrow> nat \<Rightarrow> bool" where
  "rm_inv n m keep hs es p q \<longleftrightarrow> p < q \<and> q \<le> m \<and> m < n \<and> length hs = n \<and> length es = n \<and>
     \<not> occ hs m \<and> (\<forall>x. p \<le> x \<and> x < m \<longrightarrow> occ hs x) \<and>
     (\<forall>x<n. occ hs x \<longrightarrow> es ! x \<noteq> None) \<and>
     (\<forall>x<n. occ hs x \<and> x \<noteq> p \<longrightarrow> path_occ n hs (hs ! x) x \<and> (through n p (hs ! x) x \<longrightarrow> q \<le> x \<and> x < m)) \<and>
     mset (entry_list (hs[p := 0]) es) = keep"

lemma rm_invI:
  assumes "p < q" "q \<le> m" "m < n" "length hs = n" "length es = n" "\<not> occ hs m"
    and "\<And>x. p \<le> x \<Longrightarrow> x < m \<Longrightarrow> occ hs x"
    and "\<And>x. x < n \<Longrightarrow> occ hs x \<Longrightarrow> es ! x \<noteq> None"
    and "\<And>x. x < n \<Longrightarrow> occ hs x \<Longrightarrow> x \<noteq> p \<Longrightarrow> path_occ n hs (hs ! x) x"
    and "\<And>x. x < n \<Longrightarrow> occ hs x \<Longrightarrow> x \<noteq> p \<Longrightarrow> through n p (hs ! x) x \<Longrightarrow> q \<le> x \<and> x < m"
    and "mset (entry_list (hs[p := 0]) es) = keep"
  shows "rm_inv n m keep hs es p q"
  unfolding rm_inv_def using assms by blast

lemma rm_invD:
  assumes "rm_inv n m keep hs es p q"
  shows "p < q" "q \<le> m" "m < n" "length hs = n" "length es = n" "\<not> occ hs m"
    and "\<And>x. p \<le> x \<Longrightarrow> x < m \<Longrightarrow> occ hs x"
    and "\<And>x. x < n \<Longrightarrow> occ hs x \<Longrightarrow> es ! x \<noteq> None"
    and "\<And>x. x < n \<Longrightarrow> occ hs x \<Longrightarrow> x \<noteq> p \<Longrightarrow> path_occ n hs (hs ! x) x"
    and "\<And>x. x < n \<Longrightarrow> occ hs x \<Longrightarrow> x \<noteq> p \<Longrightarrow> through n p (hs ! x) x \<Longrightarrow> q \<le> x \<and> x < m"
    and "mset (entry_list (hs[p := 0]) es) = keep"
  using assms unfolding rm_inv_def by blast+

lemma not_through_free:
  assumes "path_occ n hs h x" "m < n" "x < n" "\<not> occ hs m"
  shows "\<not> through n m h x"
proof -
  have "home n h < n" using assms(2) by simp
  from path_occ_between [OF this assms(3)] assms show ?thesis by (auto simp only: through_def)
qed

lemma rm_inv_skip:
  assumes inv: "rm_inv n m keep hs es p q" and q: "q < m"
    and stay: "\<not> (home n (hs ! q) \<le> p \<or> home n (hs ! q) > q)"
  shows "rm_inv n m keep hs es p (Suc q)"
proof (rule rm_invI)
  fix x
  assume x: "x < n" "occ hs x" "x \<noteq> p" "through n p (hs ! x) x"
  have "\<not> through n p (hs ! q) q"
    using stay rm_invD(1,3) [OF inv] q by (auto simp: through_def cdist_def)
  with x rm_invD(10) [OF inv x] show "Suc q \<le> x \<and> x < m" by (cases "x = q") auto
qed (use rm_invD [OF inv] q in auto)

lemma cdist_move:
  "d < n \<Longrightarrow> p < q \<Longrightarrow> q < n \<Longrightarrow> d \<le> p \<or> d > q \<Longrightarrow> cdist n d p < cdist n d q"
  by (auto simp: cdist_def)

lemma cdist_window:
  assumes "d < n" "p < m" "m < n" "x < n" "x \<noteq> m" "\<not> cdist n d m < cdist n d x" "cdist n d p < cdist n d x"
  shows "p < x \<and> x < m"
  using assms by (cases "d \<le> x"; cases "d \<le> m"; cases "d \<le> p") (simp_all add: cdist_def, linarith+)

lemma rm_inv_move:
  assumes inv: "rm_inv n m keep hs es p q" and q: "q < m"
    and move: "home n (hs ! q) \<le> p \<or> home n (hs ! q) > q"
  shows "rm_inv n m keep (hs[p := hs ! q]) (es[p := es ! q]) q (Suc q)"
proof -
  let ?hs = "hs[p := hs ! q]"
  note b = rm_invD(1,3-6) [OF inv]
  have oq: "occ hs q" "occ hs p" using rm_invD(7) [OF inv] b(1) q by auto
  have upd: "?hs ! x = (if x = p then hs ! q else hs ! x)" if "x < n" for x
    using that b by (simp add: nth_list_update_if)
  have same: "occ ?hs x = occ hs x" if "x < n" for x
    using upd [OF that] oq by simp
  have hm: "home n h < n" for h :: HashCode using b(2) by simp
  have keep_path: "path_occ n hs h x \<Longrightarrow> path_occ n ?hs h x" for h x
    using path_occ_update [of n hs h x "hs ! q" p] b oq by simp
  have hole: "cdist n (home n (hs ! q)) p < cdist n (home n (hs ! q)) q"
    and avoid: "\<not> through n q (hs ! q) p"
    using cdist_move [OF hm b(1) _ move] b(2) q by (simp_all add: through_def)
  have pp: "path_occ n hs (hs ! q) p"
    using rm_invD(9) [OF inv, of q] hole b oq q by (auto simp: path_occ_def)
  have other: "path_occ n hs (hs ! x) x \<and> (through n q (hs ! x) x \<longrightarrow> Suc q \<le> x \<and> x < m)"
    if x: "x < n" "occ hs x" "x \<noteq> p" "x \<noteq> q" for x
  proof -
    note px = rm_invD(9) [OF inv x(1-3)]
    have "\<not> through n m (hs ! x) x" by (rule not_through_free [OF px b(2) x(1) b(5)])
    moreover have "x \<noteq> m" using x b by auto
    ultimately have "through n q (hs ! x) x \<longrightarrow> Suc q \<le> x \<and> x < m"
      using cdist_window [OF hm q b(2) x(1)] by (auto simp: through_def Suc_le_eq)
    with px show ?thesis by blast
  qed
  have "mset (entry_list (?hs[q := 0]) (es[p := es ! q])) = keep"
  proof -
    have "?hs[q := 0] = (hs[p := 0])[q := 0, p := hs ! q]" 
      using b by (intro nth_equalityI) (auto simp: nth_list_update_if)
    moreover have "mset (entry_list ((hs[p := 0])[q := 0]) es) + {#(hs ! q, es ! q)#} = keep"
      using entry_list_update [of q "hs[p := 0]" es 0 "es ! q"] rm_invD(11) [OF inv] b q oq by simp
    moreover have "mset (entry_list ((hs[p := 0])[q := 0, p := hs ! q]) (es[p := es ! q]))
        = mset (entry_list ((hs[p := 0])[q := 0]) es) + {#(hs ! q, es ! q)#}"
      using entry_list_update [of p "(hs[p := 0])[q := 0]" es "hs ! q" "es ! q"] b q oq by simp
    ultimately show ?thesis by simp
  qed
  moreover have "es[p := es ! q] ! x \<noteq> None" if "x < n" "occ ?hs x" for x
    using rm_invD(8) [OF inv] that same [OF that(1)] b q oq by (simp add: nth_list_update_if)
  moreover have "path_occ n ?hs (?hs ! x) x \<and> (through n q (?hs ! x) x \<longrightarrow> Suc q \<le> x \<and> x < m)"
    if "x < n" "occ ?hs x" "x \<noteq> q" for x
  proof (cases "x = p")
    case True
    with upd [OF that(1)] avoid keep_path [OF pp] show ?thesis by simp
  next
    case False
    with upd [OF that(1)] same [OF that(1)] other [of x] that keep_path show ?thesis by simp
  qed
  moreover have "occ ?hs x" if "q \<le> x" "x < m" for x
    using rm_invD(7) [OF inv, of x] that same [of x] b by simp
  ultimately show ?thesis
    using b q same [of m] by (intro rm_invI) simp_all
qed

lemma removeLoop_ok:
  "rm_inv n m keep hs es p q \<Longrightarrow>
   \<exists>hs' es' p'. removeLoop n hs es p q = Some (hs', es', p') \<and> rm_inv n m keep hs' es' p' m"
proof (induction "m - q" arbitrary: hs es p q)
  case 0
  then have "q = m" using rm_invD(2) [OF 0(2)] by simp
  with rm_invD(6) [OF 0(2)] 0(2) show ?case by (subst removeLoop.simps) auto
next
  case (Suc d)
  then have q: "q < m" by simp
  then have wrap: "incrementWrap n q = Suc q" and oq: "occ hs q"
    using rm_invD(1,3,7) [OF Suc.prems] by (auto simp: incrementWrap_def)
  have d: "d = m - Suc q" using Suc.hyps(2) by simp
  show ?case
    using Suc.hyps(1) [OF d rm_inv_skip [OF Suc.prems q]] Suc.hyps(1) [OF d rm_inv_move [OF Suc.prems q]] wrap oq
    by (subst removeLoop.simps) (simp add: Let_def)
qed

text \<open>A removal whose cluster ends before the end of the array keeps the invariant and
  removes exactly the entry of the given bucket.\<close>

lemma removeFromHashTable_ok:
  assumes inv: "ht_inv ht" and i: "isBucketOccupied ht i" and m: "i < m" "m < ht_capacity ht"
    and free: "\<not> isBucketOccupied ht m" and cluster: "\<And>x. i < x \<Longrightarrow> x < m \<Longrightarrow> isBucketOccupied ht x"
  shows "\<exists>ht'. removeFromHashTable ht i = Some ht' \<and> ht_inv ht' \<and>
     add_mset (ht_hashes ht ! i, ht_elems ht ! i) (entries ht') = entries ht"
proof -
  let ?n = "ht_capacity ht" and ?hs = "ht_hashes ht" and ?es = "ht_elems ht"
  have ok: "arrays_ok ?n ?hs ?es" by (rule ht_inv_arrays [OF inv])
  have lens: "length ?hs = ?n" "length ?es = ?n" using ok by (auto simp: arrays_ok_def)
  define keep where "keep = mset (entry_list (?hs[i := 0]) ?es)"
  have "rm_inv ?n m keep ?hs ?es i (Suc i)"
  proof (rule rm_invI)
    fix x
    assume x: "x < ?n" "occ ?hs x" "x \<noteq> i" "through ?n i (?hs ! x) x"
    then have px: "path_occ ?n ?hs (?hs ! x) x" using ok by (auto simp: arrays_ok_def chained_def)
    have "\<not> through ?n m (?hs ! x) x"
      by (rule not_through_free [OF px m(2) x(1)]) (use free in \<open>simp add: isBucketOccupied_def\<close>)
    moreover have "home ?n (?hs ! x) < ?n" using m by simp
    moreover have "x \<noteq> m" using x free by (auto simp: isBucketOccupied_def)
    ultimately show "Suc i \<le> x \<and> x < m"
      using cdist_window [OF _ m x(1)] x(4) unfolding through_def Suc_le_eq by blast
  next
    show "occ ?hs x" if "i \<le> x" "x < m" for x
      using that i cluster [of x] by (cases "x = i") (auto simp: isBucketOccupied_def)
  qed (use m ok free in \<open>auto simp: arrays_ok_def chained_def keep_def isBucketOccupied_def\<close>)
  then obtain hs' es' p' where r: "removeLoop ?n ?hs ?es i (Suc i) = Some (hs', es', p')"
      "rm_inv ?n m keep hs' es' p' m"
    using removeLoop_ok by blast
  let ?ht = "ht\<lparr>ht_hashes := hs'[p' := 0], ht_elems := es', ht_size := ht_size ht - 1\<rparr>"
  note d = rm_invD [OF r(2)]
  have "incrementWrap ?n i = Suc i" using m by (simp add: incrementWrap_def)
  with r(1) have run: "removeFromHashTable ht i = Some ?ht" by (simp add: removeFromHashTable_def)
  have ent: "entries ?ht = keep" using d(11) by (simp add: entries_def)
  have "add_mset (?hs ! i, ?es ! i) keep = entries ht"
    using entry_list_update [of i ?hs ?es 0 "?es ! i"] lens m i
    by (simp add: keep_def entries_def isBucketOccupied_def)
  moreover have "arrays_ok ?n (hs'[p' := 0]) es'"
  proof -
    have "path_occ ?n (hs'[p' := 0]) (hs' ! x) x" if x: "x < ?n" "occ hs' x" "x \<noteq> p'" for x
    proof -
      have hx: "home ?n (hs' ! x) < ?n" using m by simp
      have nt: "\<not> through ?n p' (hs' ! x) x" using d(10) [OF x] d(1) by auto
      have "occ (hs'[p' := 0]) y" if "y < ?n" "cdist ?n (home ?n (hs' ! x)) y < cdist ?n (home ?n (hs' ! x)) x" for y
        using that d(9) [OF x] path_occ_between [OF hx x(1)] nt d(4)
        by (auto simp: nth_list_update_if through_def)
      then show ?thesis using path_occ_between [OF hx x(1)] by blast
    qed
    then show ?thesis using d m by (auto simp: arrays_ok_def chained_def nth_list_update_if)
  qed
  moreover have "ht_size ht = Suc (size keep)"
    using arg_cong [OF calculation(1), of size] inv by (simp add: ht_inv_def)
  ultimately show ?thesis
    using run ent inv by (auto simp: ht_inv_def)
qed

section \<open>Properties\<close>

text \<open>A lookup in a well-formed table returns; it returns a bucket exactly when some stored
  element with that hash matches, and the bucket's element is such an element.\<close>

theorem findInHashTable_correct:
  assumes "ht_inv ht"
  shows "\<exists>r. findInHashTable ht hash compare = Some r \<and>
     (r \<noteq> None \<longleftrightarrow> (\<exists>e. (hash OR OCCUPIED_MASK, Some e) \<in># entries ht \<and> compare e)) \<and>
     (\<forall>i. r = Some i \<longrightarrow> (\<exists>e. ht_deref ht i = Some e \<and> compare e \<and> (hash OR OCCUPIED_MASK, Some e) \<in># entries ht))"
  using assms
proof (cases rule: findInHashTable_cases [of ht hash compare])
  case (hit i e)
  then show ?thesis
    using assms by (auto simp: ht_deref_def in_entries_iff [OF ht_inv_arrays])
qed auto

text \<open>An insertion into a well-formed table returns. When a stored element with that hash
  matches it answers false and changes nothing; otherwise it answers true, keeps the
  invariant (the load stays below 70 percent, growing the table when needed) and adds
  exactly the new entry.\<close>

theorem insertInHashTable_correct:
  assumes "ht_inv ht"
  shows "if \<exists>e. (hash OR OCCUPIED_MASK, Some e) \<in># entries ht \<and> compare e
     then insertInHashTable ht elem hash compare = Some (False, ht)
     else \<exists>ht'. insertInHashTable ht elem hash compare = Some (True, ht') \<and> ht_inv ht' \<and>
            entries ht' = add_mset (hash OR OCCUPIED_MASK, Some elem) (entries ht)"
  using assms by (cases rule: insertInHashTable_cases [of ht elem hash compare]) auto

text \<open>A table filled by a sequence of insertions, each with the comparison \<open>compare\<close> of the
  client (\<open>compare stored searched\<close>).\<close>

fun insertAll :: "('e \<Rightarrow> 'e \<Rightarrow> bool) \<Rightarrow> 'e HashTable \<Rightarrow> (HashCode \<times> 'e) list \<Rightarrow> 'e HashTable option" where
  "insertAll compare ht [] = Some ht"
| "insertAll compare ht ((h, e) # xs) =
     (case insertInHashTable ht e h (\<lambda>stored. compare stored e) of
        None \<Rightarrow> None
      | Some (_, ht') \<Rightarrow> insertAll compare ht' xs)"

lemma insertAll_ok:
  assumes "ht_inv ht"
  shows "\<exists>ht'. insertAll (=) ht xs = Some ht' \<and> ht_inv ht' \<and>
     (\<forall>h e. ht_mem ht' h e \<longleftrightarrow> ht_mem ht h e \<or> (\<exists>h'. (h', e) \<in> set xs \<and> h OR OCCUPIED_MASK = h' OR OCCUPIED_MASK))"
  using assms
proof (induction xs arbitrary: ht)
  case (Cons x xs)
  obtain g d where x: "x = (g, d)" by force
  show ?case
  proof (cases "ht_mem ht g d")
    case True
    then have "insertInHashTable ht d g (\<lambda>stored. stored = d) = Some (False, ht)"
      using ht.insert_dup [OF Cons.prems, of g d] by auto
    with Cons.IH [OF Cons.prems] True x show ?thesis by (auto simp: ht_mem_def)
  next
    case False
    then obtain t where t: "insertInHashTable ht d g (\<lambda>stored. stored = d) = Some (True, t)" "ht_inv t"
        "\<And>h e. ht_mem t h e \<longleftrightarrow> ht_mem ht h e \<or> h OR OCCUPIED_MASK = g OR OCCUPIED_MASK \<and> e = d"
      using ht.insert_new [OF Cons.prems, of g "\<lambda>stored. stored = d" d] by auto
    with Cons.IH [OF t(2)] x show ?thesis by auto
  qed
qed auto

text \<open>C12: the table as a set. Inserting any sequence of elements into a fresh table returns,
  and afterwards a lookup of an element under a hash finds it exactly when it was inserted
  under a hash that agrees on the low 31 bits; the load factor is below 70 percent.\<close>

theorem insertAll_then_find:
  fixes xs :: "(HashCode \<times> 'e) list"
  shows "\<exists>ht. insertAll (=) (newHashTableWithCapacity c) xs = Some ht \<and>
     (\<forall>h e. (\<exists>i. findInHashTable ht h (\<lambda>stored. stored = e) = Some (Some i)) \<longleftrightarrow>
            (\<exists>h'. (h', e) \<in> set xs \<and> h OR OCCUPIED_MASK = h' OR OCCUPIED_MASK)) \<and>
     ht_size ht * 100 < ht_capacity ht * 70"
proof -
  note new = newHashTableWithCapacity_inv [of c, where 'e = 'e]
  have nomem: "\<not> ht_mem (newHashTableWithCapacity c :: 'e HashTable) h e" for h e
    using new by (simp add: ht_mem_def)
  obtain ht :: "'e HashTable" where ht: "insertAll (=) (newHashTableWithCapacity c) xs = Some ht" "ht_inv ht"
      "\<And>h e. ht_mem ht h e \<longleftrightarrow> (\<exists>h'. (h', e) \<in> set xs \<and> h OR OCCUPIED_MASK = h' OR OCCUPIED_MASK)"
    using insertAll_ok [OF conjunct1 [OF new], of xs] nomem by auto
  have "(\<exists>i. findInHashTable ht h (\<lambda>stored. stored = e) = Some (Some i)) \<longleftrightarrow> ht_mem ht h e" for h e
    using ht.find_mem [OF ht(2), of h e "\<lambda>stored. stored = e"] ht.find_hit [OF ht(2), of h "\<lambda>stored. stored = e"]
    by blast
  with ht show ?thesis by (auto simp: ht_inv_def MAX_LOAD_FACTOR_def)
qed

text \<open>C18: removing the element of a bucket whose run of occupied buckets ends before the end
  of the array keeps the table well-formed and removes exactly that entry.\<close>

theorem removeFromHashTable_correct:
  assumes "ht_inv ht" "isBucketOccupied ht i" "i < m" "m < ht_capacity ht" "\<not> isBucketOccupied ht m"
    and "\<And>x. i < x \<Longrightarrow> x < m \<Longrightarrow> isBucketOccupied ht x"
  shows "\<exists>ht'. removeFromHashTable ht i = Some ht' \<and> ht_inv ht' \<and>
     add_mset (ht_hashes ht ! i, ht_elems ht ! i) (entries ht') = entries ht"
  by (rule removeFromHashTable_ok) (use assms in auto)

text \<open>Two elements of a fresh table of 7 buckets: 10 under hash 4 has home bucket 6, and 20
  under hash 5 has home bucket 0.\<close>

definition two_elements :: "nat HashTable" where
  "two_elements =
     \<lparr>ht_capacity = 7, ht_size = 2,
      ht_hashes = [0x80000005, 0, 0, 0, 0, 0, 0x80000004],
      ht_elems = [Some 20, None, None, None, None, None, Some 10]\<rparr>"

lemmas ht_eval = insertInHashTable_def findInHashTable_def newHashTableWithCapacity_def
  allocHashes_def allocElems_def isBucketOccupied_def isOccupiedHash_def OCCUPIED_MASK_def
  bucketMatches_def needsRehash_def MAX_LOAD_FACTOR_def incrementWrap_def probeLoop_stop probeLoop_next

lemma nextPrime_0: "nextPrime 0 = 7"
  by (simp add: nextPrime_find primes_def)

lemma replicate_7: "replicate 7 x = [x, x, x, x, x, x, x]"
  by (simp add: numeral_eq_Suc)

lemma two_elements_insertAll: "insertAll (=) (newHashTableWithCapacity 0) [(4, 10), (5, 20)] = Some two_elements"
  by (simp add: ht_eval nextPrime_0 two_elements_def replicate_7)

lemma two_elements_inv: "ht_inv two_elements"
  using insertAll_ok [OF conjunct1 [OF newHashTableWithCapacity_inv], of 0 "[(4, 10 :: nat), (5, 20)]"]
    two_elements_insertAll by (auto simp del: insertAll.simps)

theorem findInHashTable_correct_witness:
  "\<exists>r. findInHashTable two_elements 5 (\<lambda>e. e = 20) = Some r \<and> r \<noteq> None"
proof -
  have "(5 OR OCCUPIED_MASK, Some 20) \<in># entries two_elements"
    by (simp add: entries_def entry_list_def two_elements_def isOccupiedHash_def OCCUPIED_MASK_def)
  then show ?thesis
    using findInHashTable_correct [OF two_elements_inv, of 5 "\<lambda>e. e = 20"] by blast
qed

theorem insertInHashTable_correct_witness:
  "insertInHashTable two_elements 20 5 (\<lambda>e. e = 20) = Some (False, two_elements)"
proof -
  have "(5 OR OCCUPIED_MASK, Some 20) \<in># entries two_elements"
    by (simp add: entries_def entry_list_def two_elements_def isOccupiedHash_def OCCUPIED_MASK_def)
  then show ?thesis
    using insertInHashTable_correct [OF two_elements_inv, of 5 "\<lambda>e. e = 20" 20] by (meson)
qed

theorem removeFromHashTable_correct_witness:
  "\<exists>ht'. removeFromHashTable two_elements 0 = Some ht' \<and> ht_inv ht' \<and>
     add_mset (0x80000005, Some 20) (entries ht') = entries two_elements"
proof -
  have "\<exists>ht'. removeFromHashTable two_elements 0 = Some ht' \<and> ht_inv ht' \<and>
     add_mset (ht_hashes two_elements ! 0, ht_elems two_elements ! 0) (entries ht') = entries two_elements"
    by (rule removeFromHashTable_correct [of _ _ 1])
      (auto simp: two_elements_inv, auto simp: two_elements_def isBucketOccupied_def isOccupiedHash_def OCCUPIED_MASK_def)
  then show ?thesis by (simp add: two_elements_def)
qed

text \<open>C19: the removal is wrong when the run of occupied buckets wraps around the end of the
  array. In the table of the two elements above, removing 10 (bucket 6) moves 20 from its
  home bucket 0 to bucket 6, where a lookup never finds it, although its entry is still in
  the table.\<close>

theorem removeFromHashTable_wrap_loses:
  "ht_inv two_elements \<and>
   findInHashTable two_elements 4 (\<lambda>e. e = 10) = Some (Some 6) \<and>
   findInHashTable two_elements 5 (\<lambda>e. e = 20) = Some (Some 0) \<and>
   (\<exists>ht. removeFromHashTable two_elements 6 = Some ht \<and>
      ht_mem ht 5 20 \<and> findInHashTable ht 5 (\<lambda>e. e = 20) = Some None \<and> \<not> ht_inv ht)"
proof -
  let ?ht = "\<lparr>ht_capacity = 7, ht_size = 1, ht_hashes = [0, 0, 0, 0, 0, 0, 0x80000005],
      ht_elems = [Some 20, None, None, None, None, None, Some (20 :: nat)]\<rparr>"
  have "removeLoop 7 [0x80000005, 0, 0, 0, 0, 0, 0x80000004] [Some 20, None, None, None, None, None, Some (10 :: nat)] 6 0
      = Some ([0x80000005, 0, 0, 0, 0, 0, 0x80000005], [Some 20, None, None, None, None, None, Some 20], 0)"
    by (subst removeLoop.simps, subst removeLoop.simps)
      (simp add: isOccupiedHash_def OCCUPIED_MASK_def incrementWrap_def)
  then have run: "removeFromHashTable two_elements 6 = Some ?ht"
    by (simp add: removeFromHashTable_def two_elements_def incrementWrap_def)
  have lost: "findInHashTable ?ht 5 (\<lambda>e. e = 20) = Some None"
    by (simp add: ht_eval)
  have mem: "ht_mem ?ht 5 20"
    by (simp add: ht_mem_def entries_def entry_list_def isOccupiedHash_def OCCUPIED_MASK_def)
  have "\<not> ht_inv ?ht"
    using ht.find_miss [OF _ lost mem] by blast
  moreover have "findInHashTable two_elements 4 (\<lambda>e. e = 10) = Some (Some 6)"
      "findInHashTable two_elements 5 (\<lambda>e. e = 20) = Some (Some 0)"
    by (simp_all add: ht_eval two_elements_def)
  ultimately show ?thesis using run lost mem two_elements_inv by blast
qed

text \<open>Running the iterator to its end visits every occupied bucket exactly once, in
  increasing order; as many calls as the table has elements, and one more, are enough. An
  enumeration whose callback never stops visits the same buckets in the same order.\<close>

theorem hashTable_iteration_complete:
  assumes "ht_inv ht" and "\<And>ctx e. fst (with ctx e)"
  shows "hashTableItAll (Suc (ht_size ht)) ht 0 = Some (filter (isBucketOccupied ht) [0..<ht_capacity ht]) \<and>
     enumerateHashTable ht ctx with =
       foldl (\<lambda>ctx i. snd (with ctx (ht_elems ht ! i))) ctx (filter (isBucketOccupied ht) [0..<ht_capacity ht])"
proof -
  have "length (ht_hashes ht) = ht_capacity ht" "length (ht_elems ht) = ht_capacity ht"
    using assms by (auto simp: ht_inv_def arrays_ok_def)
  from entry_list_map [OF this] have "ht_size ht = length (filter (isBucketOccupied ht) [0..<ht_capacity ht])"
    using assms(1) by (simp only: ht_inv_def entries_def size_mset length_map isBucketOccupied_def [abs_def])
  then show ?thesis
    using hashTableItAll_filter [of ht 0 "Suc (ht_size ht)"] enumerateFrom_fold [of "with", OF assms(2)]
    by (simp add: enumerateHashTable_def del: hashTableItAll.simps)
qed

theorem hashTable_iteration_complete_witness:
  "hashTableItAll 3 two_elements 0 = Some [0, 6] \<and>
   enumerateHashTable two_elements [] (\<lambda>ctx e. (True, ctx @ [e])) = [Some 20, Some 10]"
proof -
  have f: "filter (isBucketOccupied two_elements) [0..<ht_capacity two_elements] = [0, 6]"
    by (simp add: two_elements_def isBucketOccupied_def isOccupiedHash_def OCCUPIED_MASK_def upt_rec)
  show ?thesis
    using hashTable_iteration_complete [OF two_elements_inv, of "\<lambda>ctx e. (True, ctx @ [e])" "[]"]
    unfolding f by (simp add: two_elements_def numeral_3_eq_3 del: hashTableItAll.simps)
qed

end
