(* ===== verification/Cxy_StrPool.thy ===== *)
theory Cxy_StrPool
  imports Cxy_HashTable Cxy_SemVer
begin

text \<open>
  The string pool of \<open>core/strpool.c\<close>. An interned string is a pair of its address, the
  number of strings allocated before it, and its characters; the table stores such pairs.
  The static counter of \<open>makeAnonymousVariable\<close> is part of the state. \<open>None\<close> stands for a
  call that does not return, because an assertion fails or a buffer of fixed size is
  overrun. Strings have no NUL among their characters. \<open>makeStringf\<close> formats with the C
  library and is not modelled.
\<close>

type_synonym interned = "nat \<times> cstring"

record StrPool =
  str_table :: "interned HashTable"
  str_count :: nat
  postfix :: nat

definition MAX_ANONYMOUS_PREFIX_SIZE :: nat where
  "MAX_ANONYMOUS_PREFIX_SIZE = 256"

definition PATH_MAX :: nat where
  "PATH_MAX = 4096"

definition newStrPool :: StrPool where
  "newStrPool = \<lparr>str_table = newHashTable, str_count = 0, postfix = 0\<rparr>"

definition freeStrPool :: "StrPool \<Rightarrow> StrPool" where
  "freeStrPool pool = pool\<lparr>str_table := freeHashTable (str_table pool)\<rparr>"

definition compareStrFind :: "cstring \<Rightarrow> nat \<Rightarrow> interned \<Rightarrow> bool" where
  "compareStrFind s len stored = strncmp_eq len (snd stored) s"

definition compareStrInsert :: "cstring \<Rightarrow> nat \<Rightarrow> interned \<Rightarrow> bool" where
  "compareStrInsert s len stored = strncmp_eq len (snd stored) s"

definition makeStringSized :: "StrPool \<Rightarrow> cstring option \<Rightarrow> nat \<Rightarrow> (interned option \<times> StrPool) option" where
  "makeStringSized pool str len =
     (case str of
        None \<Rightarrow> Some (None, pool)
      | Some str \<Rightarrow>
          let hash = hashRawBytes hashInit (map byte_of str) len
          in case findInHashTable (str_table pool) hash (compareStrFind str len) of
               None \<Rightarrow> None
             | Some (Some strPtr) \<Rightarrow> Some (ht_deref (str_table pool) strPtr, pool)
             | Some None \<Rightarrow>
                 let newStr = (str_count pool, take len str);
                     pool = pool\<lparr>str_count := str_count pool + 1\<rparr>
                 in case insertInHashTable (str_table pool) newStr hash (compareStrInsert (snd newStr) len) of
                      None \<Rightarrow> None
                    | Some (inserted, table) \<Rightarrow>
                        if \<not> inserted then None else Some (Some newStr, pool\<lparr>str_table := table\<rparr>))"

definition makeString :: "StrPool \<Rightarrow> cstring option \<Rightarrow> (interned option \<times> StrPool) option" where
  "makeString pool str =
     (case str of None \<Rightarrow> Some (None, pool) | Some s \<Rightarrow> makeStringSized pool (Some s) (length s))"

text \<open>The first word of the string.\<close>

definition makeTrimmedString :: "StrPool \<Rightarrow> cstring option \<Rightarrow> (interned option \<times> StrPool) option" where
  "makeTrimmedString pool str =
     (case str of
        None \<Rightarrow> Some (None, pool)
      | Some s \<Rightarrow>
          let str = dropWhile isspace s; word = takeWhile (\<lambda>c. \<not> isspace c) str
          in makeStringSized pool (Some str) (length word))"

text \<open>What a buffer holds as a C string.\<close>

definition cstr :: "char list \<Rightarrow> cstring" where
  "cstr buf = takeWhile (\<lambda>c. c \<noteq> nul) buf"

text \<open>The default prefix has 17 characters, but 19 bytes are copied: its terminator and the byte
  \<open>behind\<close> it.\<close>

definition makeAnonymousVariable :: "char \<Rightarrow> StrPool \<Rightarrow> cstring option \<Rightarrow> (interned option \<times> StrPool) option" where
  "makeAnonymousVariable behind pool prefix =
     (let (bytes, len) = (case prefix of
                            None \<Rightarrow> (''cxy_anonymous_var'' @ [nul, behind], 19)
                          | Some p \<Rightarrow> (p, length p))
      in if \<not> len < MAX_ANONYMOUS_PREFIX_SIZE then None
         else let variable = take len bytes @ showu (postfix pool)
              in makeString (pool\<lparr>postfix := postfix pool + 1\<rparr>) (Some (cstr variable)))"

text \<open>The assertion in the loop tests the length before the copy, which can overrun the buffer.\<close>

fun concatLoop :: "cstring \<Rightarrow> cstring list \<Rightarrow> cstring option" where
  "concatLoop variable [] = Some variable"
| "concatLoop variable (s # ss) =
     (if \<not> length variable < MAX_ANONYMOUS_PREFIX_SIZE then None
      else if length variable + length s > MAX_ANONYMOUS_PREFIX_SIZE + 32 then None
      else concatLoop (variable @ s) ss)"

definition makeStringConcat :: "StrPool \<Rightarrow> cstring \<Rightarrow> cstring list \<Rightarrow> (interned option \<times> StrPool) option" where
  "makeStringConcat pool s1 ss =
     (if \<not> length s1 < MAX_ANONYMOUS_PREFIX_SIZE then None
      else case concatLoop s1 ss of
             None \<Rightarrow> None
           | Some variable \<Rightarrow>
               if \<not> length variable < MAX_ANONYMOUS_PREFIX_SIZE + 32 then None
               else makeString pool (Some variable))"

fun joinLoop :: "cstring \<Rightarrow> cstring list \<Rightarrow> cstring option" where
  "joinLoop path [] = Some path"
| "joinLoop path (s # ss) =
     (if length s > 0
      then if \<not> length s + length path < PATH_MAX then None
           else let path = path @ s
                in joinLoop (if ss \<noteq> [] \<and> last s \<noteq> CHR ''/'' then path @ ''/'' else path) ss
      else joinLoop path ss)"

definition joinPath :: "StrPool \<Rightarrow> cstring list \<Rightarrow> (interned option \<times> StrPool) option" where
  "joinPath pool parts =
     (case joinLoop [] parts of
        None \<Rightarrow> None
      | Some path \<Rightarrow> if \<not> length path < PATH_MAX then None else makeString pool (Some path))"

section \<open>The invariant\<close>

declare split_paired_All [simp del] split_paired_Ex [simp del]

definition strHash :: "cstring \<Rightarrow> HashCode" where
  "strHash s = hashRawBytes hashInit (map byte_of s) (length s) OR OCCUPIED_MASK"

definition stored :: "StrPool \<Rightarrow> interned \<Rightarrow> bool" where
  "stored pool x \<longleftrightarrow> ht_mem (str_table pool) (strHash (snd x)) x"

definition sp_inv :: "StrPool \<Rightarrow> bool" where
  "sp_inv pool \<longleftrightarrow> ht_inv (str_table pool) \<and>
     (\<forall>h x. ht_mem (str_table pool) h x \<longrightarrow> h OR OCCUPIED_MASK = strHash (snd x) \<and> fst x < str_count pool) \<and>
     (\<forall>x y. stored pool x \<and> stored pool y \<and> (fst x = fst y \<or> snd x = snd y) \<longrightarrow> x = y)"

lemma or_mask_idem: "(h OR OCCUPIED_MASK) OR OCCUPIED_MASK = h OR OCCUPIED_MASK"
  by (simp add: or.assoc)

lemma ht_mem_mask: "ht_mem t (h OR OCCUPIED_MASK) x \<longleftrightarrow> ht_mem t h x"
  by (simp add: ht_mem_def or_mask_idem)

lemma hashRawBytes_strHash:
  "hashRawBytes hashInit (map byte_of str) len OR OCCUPIED_MASK = strHash (take len str)" if "len \<le> length str"
  using that by (simp add: strHash_def hashRawBytes_fold take_map)

lemma newStrPool_inv: "sp_inv newStrPool"
proof -
  have "ht_inv (newHashTable :: interned HashTable)" "entries (newHashTable :: interned HashTable) = {#}"
    using newHashTableWithCapacity_inv by (auto simp: newHashTable_def)
  then show ?thesis by (simp add: sp_inv_def stored_def newStrPool_def ht_mem_def)
qed

lemma newStrPool_empty: "\<not> stored newStrPool y"
proof -
  have "entries (newHashTable :: interned HashTable) = {#}"
    using newHashTableWithCapacity_inv by (auto simp: newHashTable_def)
  then show ?thesis by (simp add: stored_def ht_mem_def newStrPool_def)
qed

text \<open>The outcome of interning the string \<open>s\<close>: the returned string begins with it, and is it
  unless a longer string with the same 31 bits of hash was stored before; the pool gains
  nothing else.\<close>

definition intern_result :: "StrPool \<Rightarrow> cstring \<Rightarrow> interned \<Rightarrow> StrPool \<Rightarrow> bool" where
  "intern_result pool s x pool' \<longleftrightarrow> sp_inv pool' \<and> stored pool' x \<and> (\<forall>y. stored pool' y \<longleftrightarrow> stored pool y \<or> y = x) \<and>
     take (length s) (snd x) = s \<and> strHash (snd x) = strHash s \<and>
     (stored pool x \<or> x = (str_count pool, s) \<and>
        \<not> (\<exists>y. stored pool y \<and> strHash (snd y) = strHash s \<and> take (length s) (snd y) = s))"

lemma makeStringSized_ok:
  assumes inv: "sp_inv pool" and len: "len \<le> length str"
  shows "\<exists>x pool'. makeStringSized pool (Some str) len = Some (Some x, pool') \<and> intern_result pool (take len str) x pool'"
proof -
  define h where "h = hashRawBytes hashInit (map byte_of str) len"
  have hm: "h OR OCCUPIED_MASK = strHash (take len str)" using hashRawBytes_strHash [OF len] by (simp add: h_def)
  have ht: "ht_inv (str_table pool)" using inv by (simp add: sp_inv_def)
  have mem: "ht_mem (str_table pool) h x \<Longrightarrow> strHash (snd x) = strHash (take len str) \<and> stored pool x" for x
  proof -
    assume x: "ht_mem (str_table pool) h x"
    with inv have "h OR OCCUPIED_MASK = strHash (snd x)" unfolding sp_inv_def by blast
    with hm x ht_mem_mask [of "str_table pool" h x] show ?thesis by (simp add: stored_def)
  qed
  show ?thesis
  proof (cases "findInHashTable (str_table pool) h (compareStrFind str len)")
    case None
    with ht.find_returns [OF ht] show ?thesis by blast
  next
    case (Some r)
    show ?thesis
    proof (cases r)
      case (Some p)
      with \<open>_ = Some r\<close> ht.find_hit [OF ht] obtain x where
        x: "ht_deref (str_table pool) p = Some x" "compareStrFind str len x" "ht_mem (str_table pool) h x" by blast
      then have "makeStringSized pool (Some str) len = Some (Some x, pool)"
        using Some \<open>_ = Some r\<close> by (simp add: makeStringSized_def h_def [symmetric])
      moreover have "intern_result pool (take len str) x pool"
        using x mem inv len by (auto simp: intern_result_def compareStrFind_def strncmp_eq_def)
      ultimately show ?thesis by blast
    next
      case None
      let ?x = "(str_count pool, take len str)"
      have miss: "ht_mem (str_table pool) h y \<Longrightarrow> \<not> strncmp_eq len (snd y) str" for y
        using ht.find_miss [OF ht, of h "compareStrFind str len" y] None \<open>_ = Some r\<close> by (simp add: compareStrFind_def)
      then have no: "ht_mem (str_table pool) h y \<Longrightarrow> \<not> compareStrInsert (take len str) len y" for y
        by (auto simp: compareStrInsert_def strncmp_eq_def)
      from ht.insert_new [of "str_table pool" h "compareStrInsert (take len str) len" ?x, OF ht no] obtain t where
        t: "insertInHashTable (str_table pool) ?x h (compareStrInsert (take len str) len) = Some (True, t)" "ht_inv t"
          "\<And>h2 y. ht_mem t h2 y \<longleftrightarrow> ht_mem (str_table pool) h2 y \<or> h2 OR OCCUPIED_MASK = h OR OCCUPIED_MASK \<and> y = ?x"
        by blast
      define pool' where "pool' = pool\<lparr>str_count := str_count pool + 1, str_table := t\<rparr>"
      have make: "makeStringSized pool (Some str) len = Some (Some ?x, pool')"
        using None \<open>_ = Some r\<close> t(1) by (simp add: makeStringSized_def h_def [symmetric] pool'_def Let_def)
      have st: "stored pool' y \<longleftrightarrow> stored pool y \<or> y = ?x" for y
        using hm by (auto simp: stored_def pool'_def t(3) or_mask_idem strHash_def)
      have id: "fst y < str_count pool" if "stored pool y" for y
        using that inv by (auto simp: sp_inv_def stored_def)
      have fresh: "\<not> (\<exists>y. stored pool y \<and> strHash (snd y) = strHash (take len str) \<and> take len (snd y) = take len str)"
        using miss hm ht_mem_mask [of "str_table pool" h] by (auto simp: stored_def strncmp_eq_def)
      then have new: "\<not> (stored pool y \<and> (fst y = str_count pool \<or> snd y = take len str))" for y
        using id [of y] by (metis nat_less_le take_take min.idem)
      have "sp_inv pool'" unfolding sp_inv_def
      proof (intro conjI allI impI)
        show "ht_inv (str_table pool')" using t(2) by (simp add: pool'_def)
        fix g y
        assume "ht_mem (str_table pool') g y"
        then have "ht_mem (str_table pool) g y \<or> g OR OCCUPIED_MASK = h OR OCCUPIED_MASK \<and> y = ?x"
          by (simp add: pool'_def t(3))
        then show "g OR OCCUPIED_MASK = strHash (snd y)" "fst y < str_count pool'"
          using inv hm by (auto simp: sp_inv_def pool'_def less_Suc_eq)
      next
        fix x y
        assume a: "stored pool' x \<and> stored pool' y \<and> (fst x = fst y \<or> snd x = snd y)"
        have "stored pool x \<and> stored pool y \<longrightarrow> x = y" using inv a unfolding sp_inv_def by blast
        with a st [of x] st [of y] new [of x] new [of y] show "x = y" by (metis fst_conv snd_conv)
      qed
      then have "intern_result pool (take len str) ?x pool'"
        using st len fresh by (auto simp: intern_result_def)
      with make show ?thesis by blast
    qed
  qed
qed

lemma makeString_ok:
  assumes "sp_inv pool"
  shows "\<exists>x pool'. makeString pool (Some s) = Some (Some x, pool') \<and> intern_result pool s x pool'"
  using makeStringSized_ok [OF assms, of "length s" s] by (simp add: makeString_def)

section \<open>Interning\<close>

fun makeAll :: "StrPool \<Rightarrow> cstring list \<Rightarrow> (interned list \<times> StrPool) option" where
  "makeAll pool [] = Some ([], pool)"
| "makeAll pool (s # ss) =
     (case makeString pool (Some s) of
        None \<Rightarrow> None
      | Some (x, pool) \<Rightarrow> (case makeAll pool ss of None \<Rightarrow> None | Some (xs, pool) \<Rightarrow> Some (the x # xs, pool)))"

text \<open>No string is a proper prefix of another with the same 31 bits of hash.\<close>

definition no_prefix_collision :: "cstring set \<Rightarrow> bool" where
  "no_prefix_collision S \<longleftrightarrow> (\<forall>s\<in>S. \<forall>t\<in>S. strHash s = strHash t \<and> take (length s) t = s \<longrightarrow> s = t)"

lemma makeAll_ok:
  "sp_inv pool \<Longrightarrow> \<forall>y. stored pool y \<longrightarrow> snd y \<in> S \<Longrightarrow> no_prefix_collision S \<Longrightarrow> set ss \<subseteq> S \<Longrightarrow>
   \<exists>xs pool'. makeAll pool ss = Some (xs, pool') \<and> sp_inv pool' \<and> map snd xs = ss \<and>
     (\<forall>y. stored pool y \<or> y \<in> set xs \<longrightarrow> stored pool' y)"
proof (induction ss arbitrary: pool)
  case (Cons s ss)
  from makeString_ok [OF Cons.prems(1), of s] obtain x p1 where
    m: "makeString pool (Some s) = Some (Some x, p1)" "intern_result pool s x p1" by blast
  then have inv: "sp_inv p1" and st: "\<forall>y. stored p1 y \<longleftrightarrow> stored pool y \<or> y = x" by (auto simp: intern_result_def)
  have x: "snd x = s"
  proof (cases "stored pool x")
    case True
    with Cons.prems(2,4) have "snd x \<in> S" "s \<in> S" by (blast, simp)
    with m(2) Cons.prems(3) show ?thesis by (fastforce simp: intern_result_def no_prefix_collision_def)
  next
    case False
    with m(2) show ?thesis by (simp add: intern_result_def)
  qed
  have "\<forall>y. stored p1 y \<longrightarrow> snd y \<in> S" using st x Cons.prems(2,4) by auto
  with Cons.IH [OF inv] Cons.prems(3,4) obtain xs p2 where
    r: "makeAll p1 ss = Some (xs, p2)" "sp_inv p2" "map snd xs = ss" "\<forall>y. stored p1 y \<or> y \<in> set xs \<longrightarrow> stored p2 y"
    by auto
  with m(1) st x show ?case by auto
qed simp

text \<open>C36: interning any strings in a new pool, none of which is a proper prefix of another with the
  same 31 bits of hash, returns each string itself, and two of them have the same address
  exactly when they are equal.\<close>

theorem makeString_interns:
  assumes "no_prefix_collision (set ss)"
  shows "\<exists>xs pool. makeAll newStrPool ss = Some (xs, pool) \<and> map snd xs = ss \<and>
    (\<forall>x\<in>set xs. \<forall>y\<in>set xs. fst x = fst y \<longleftrightarrow> snd x = snd y)"
proof -
  note none = newStrPool_empty
  with makeAll_ok [OF newStrPool_inv _ assms subset_refl] obtain xs pool where
    r: "makeAll newStrPool ss = Some (xs, pool)" "sp_inv pool" "map snd xs = ss" "\<forall>y\<in>set xs. stored pool y"
    by blast
  have "fst x = fst y \<longleftrightarrow> snd x = snd y" if "x \<in> set xs" "y \<in> set xs" for x y
    using r(2,4) that unfolding sp_inv_def by blast
  with r show ?thesis by blast
qed

theorem makeString_interns_witness:
  "\<exists>xs pool. makeAll newStrPool [''let'', ''x'', ''let''] = Some (xs, pool) \<and> map snd xs = [''let'', ''x'', ''let'']"
proof -
  have "no_prefix_collision (set [''let'', ''x'', ''let''])" by (auto simp: no_prefix_collision_def)
  from makeString_interns [OF this] show ?thesis by (elim exE conjE, intro exI conjI) assumption+
qed

lemma intern_again:
  assumes "intern_result newStrPool t x p1" "strHash (snd x) = strHash s" "take (length s) (snd x) = s"
    "intern_result p s y p2" "\<forall>z. stored p z \<longleftrightarrow> stored p1 z"
  shows "y = x"
proof -
  note none = newStrPool_empty
  with assms(1,5) have "stored p z \<longleftrightarrow> z = x" for z by (auto simp: intern_result_def)
  with assms(2-4) show ?thesis by (auto simp: intern_result_def)
qed

lemma collision: "strHash ''xefjsxia'' = strHash ''x''"
  by code_simp

text \<open>The pool does not keep strings apart. The comparison only looks at as many characters as
  the string sought has, so a stored longer string with the same 31 bits of hash that begins
  with it is returned instead: after \<open>xefjsxia\<close>, interning \<open>x\<close> returns \<open>xefjsxia\<close>.\<close>

theorem makeString_prefix_collision:
  "\<exists>x p1 p2. makeString newStrPool (Some ''xefjsxia'') = Some (Some x, p1) \<and> snd x = ''xefjsxia'' \<and>
     makeString p1 (Some ''x'') = Some (Some x, p2)"
proof -
  note none = newStrPool_empty
  obtain x p1 where 1: "makeString newStrPool (Some ''xefjsxia'') = Some (Some x, p1)" "intern_result newStrPool ''xefjsxia'' x p1"
    using makeString_ok [OF newStrPool_inv] by blast
  then have x: "snd x = ''xefjsxia''" and inv: "sp_inv p1" using none by (auto simp: intern_result_def)
  obtain y p2 where 2: "makeString p1 (Some ''x'') = Some (Some y, p2)" "intern_result p1 ''x'' y p2"
    using makeString_ok [OF inv] by blast
  have "y = x" by (rule intern_again [OF 1(2) _ _ 2(2)]) (simp_all add: x collision)
  with 1 2 x show ?thesis by blast
qed

lemma stored_postfix [simp]: "stored (p\<lparr>postfix := n\<rparr>) y = stored p y"
  by (simp add: stored_def)

lemma sp_inv_postfix [simp]: "sp_inv (p\<lparr>postfix := n\<rparr>) = sp_inv p"
  by (simp add: sp_inv_def)

text \<open>Anonymous variables without a prefix are not distinct. The copy of the default prefix
  includes its terminator, so the counter written behind it is cut off and two calls return
  the same string.\<close>

theorem makeAnonymousVariable_not_unique:
  "\<exists>x p1 p2. makeAnonymousVariable behind newStrPool None = Some (Some x, p1) \<and>
     makeAnonymousVariable behind p1 None = Some (Some x, p2) \<and> postfix p1 = 1"
proof -
  let ?v = "''cxy_anonymous_var''"
  have cut: "cstr (?v @ [nul, behind] @ ds) = ?v" for ds by (simp add: cstr_def nul_def)
  have anon: "makeAnonymousVariable behind p None = makeString (p\<lparr>postfix := postfix p + 1\<rparr>) (Some ?v)" for p
    using cut [of "showu (postfix p)"] by (simp add: makeAnonymousVariable_def MAX_ANONYMOUS_PREFIX_SIZE_def)
  have keep: "postfix p' = postfix p" if "makeString p (Some s) = Some (x, p')" for p s x p'
    using that by (auto simp: makeString_def makeStringSized_def Let_def split: option.splits if_splits prod.splits)
  let ?p0 = "newStrPool\<lparr>postfix := 1\<rparr>"
  obtain x p1 where 1: "makeString ?p0 (Some ?v) = Some (Some x, p1)" "intern_result ?p0 ?v x p1"
    using makeString_ok [of ?p0 ?v] newStrPool_inv by (metis sp_inv_postfix)
  have x: "snd x = ?v" "sp_inv p1" "\<And>z. stored p1 z \<longleftrightarrow> z = x" "postfix p1 = 1"
    using 1 keep [OF 1(1)] newStrPool_empty by (auto simp: intern_result_def)
  let ?p1 = "p1\<lparr>postfix := 2\<rparr>"
  obtain y p2 where 2: "makeString ?p1 (Some ?v) = Some (Some y, p2)" "intern_result ?p1 ?v y p2"
    using makeString_ok [of ?p1 ?v] x(2) by (metis sp_inv_postfix)
  have "y = x" using 2(2) x by (auto simp: intern_result_def)
  moreover have "makeAnonymousVariable behind newStrPool None = Some (Some x, p1)"
    using anon [of newStrPool] 1(1) by (simp add: newStrPool_def)
  moreover have "makeAnonymousVariable behind p1 None = Some (Some y, p2)"
    using anon [of p1] 2(1) x(4) by (simp add: numeral_2_eq_2)
  ultimately show ?thesis using x(4) by blast
qed

end
