(* ===== verification/Cxy_MemPool.thy ===== *)
theory Cxy_MemPool
  imports Cxy_Prelude
begin

text \<open>
  The block allocator of \<open>core/mempool.c\<close>. The blocks are a list, in the order of their
  \<open>next\<close> pointers, and \<open>cur\<close> is an index into it; a pointer into the pool is a block index
  and an offset. A \<open>size_t\<close> is a natural number below \<open>size_range\<close>, and every sum and product
  of sizes is reduced modulo it, as C does. \<open>malloc\<close> is taken to serve every request
  (\<open>mallocOrDie\<close> ends the process otherwise); a block records how many bytes it asked for.
  The contents of the memory is not modelled. A failed \<open>assert\<close> is \<open>None\<close>.

  The caches of freed nodes are queues of pointers. The tracked allocations are a list of
  items with the size they record and the number of bytes requested from the C allocator for
  them; a reallocation is taken to stay at its address.
\<close>

definition size_range :: nat where
  "size_range = 2 ^ 64"

text \<open>A block; \<open>mb_heap\<close> is the number of bytes obtained for it from \<open>malloc\<close>, its header
  included.\<close>

record MemBlock =
  mb_size :: nat
  mb_capacity :: nat
  mb_heap :: nat

type_synonym ptr = "nat \<times> nat"

datatype MemPoolCacheId = memAstNode | memType | memIrValue

record MemPoolCache =
  items :: "(ptr \<times> nat) list"
  allocs :: nat
  returns :: nat

record TrackedMemoryItem =
  tm_size :: nat
  tm_heap :: nat

record MemPool =
  blocks :: "MemBlock list"
  current :: "nat option"
  caches :: "MemPoolCacheId \<Rightarrow> MemPoolCache"
  trackedItems :: "TrackedMemoryItem list"
  trackedAllocated :: nat
  totalAllocated :: nat
  totalUsed :: nat
  numberOfBlocks :: nat

definition MIN_MEM_BLOCK_CAPACITY :: nat where
  "MIN_MEM_BLOCK_CAPACITY = 1024"

text \<open>\<open>sizeof (max_align_t)\<close>, \<open>sizeof (MemBlock)\<close> (three words, padded to the alignment of the
  data) and \<open>sizeof (TrackedMemoryItem)\<close> on a 64-bit platform.\<close>

definition max_align :: nat where "max_align = 32"

definition block_header :: nat where "block_header = 32"

definition tracked_header :: nat where "tracked_header = 24"

definition emptyCache :: MemPoolCache where
  "emptyCache = \<lparr>items = [], allocs = 0, returns = 0\<rparr>"

definition newMemPool :: MemPool where
  "newMemPool = \<lparr>blocks = [], current = None, caches = (\<lambda>_. emptyCache), trackedItems = [], trackedAllocated = 0,
     totalAllocated = 0, totalUsed = 0, numberOfBlocks = 0\<rparr>"

definition remainingMem :: "MemBlock \<Rightarrow> nat option" where
  "remainingMem block = (if mb_capacity block \<ge> mb_size block then Some (mb_capacity block - mb_size block) else None)"

text \<open>The new block is linked behind the last one.\<close>

definition allocMemBlock :: "MemPool \<Rightarrow> nat \<Rightarrow> MemPool" where
  "allocMemBlock pool capacity =
     (let capacity = (if capacity < MIN_MEM_BLOCK_CAPACITY then MIN_MEM_BLOCK_CAPACITY else capacity)
      in pool\<lparr>blocks := blocks pool @ [\<lparr>mb_size = 0, mb_capacity = capacity, mb_heap = (block_header + capacity) mod size_range\<rparr>],
              totalAllocated := (totalAllocated pool + capacity) mod size_range,
              numberOfBlocks := (numberOfBlocks pool + 1) mod size_range\<rparr>)"

definition alignTo :: "nat \<Rightarrow> nat \<Rightarrow> nat" where
  "alignTo sz align = (let offset = sz mod align in if offset \<noteq> 0 then (sz + align - offset) mod size_range else sz)"

text \<open>The search for a block with room, from the current one on.\<close>

function findBlock :: "MemPool \<Rightarrow> nat \<Rightarrow> nat \<Rightarrow> MemPool option" where
  "findBlock pool c sz =
     (case remainingMem (blocks pool ! c) of
        None \<Rightarrow> None
      | Some r \<Rightarrow>
          if r < sz
          then if \<not> Suc c < length (blocks pool)
               then let pool = allocMemBlock pool sz in Some (pool\<lparr>current := Some (length (blocks pool) - 1)\<rparr>)
               else if mb_size (blocks pool ! Suc c) \<noteq> 0 then None
               else findBlock pool (Suc c) sz
          else Some (pool\<lparr>current := Some c\<rparr>))"
  by pat_completeness auto
termination
  by (relation "measure (\<lambda>(pool, c, sz). length (blocks pool) - c)") auto

declare findBlock.simps [simp del]

definition allocFromMemPool :: "MemPool \<Rightarrow> nat \<Rightarrow> (ptr option \<times> MemPool) option" where
  "allocFromMemPool pool sz =
     (if sz = 0 then Some (None, pool)
      else
        let sz = alignTo sz max_align
        in case (case current pool of
                   None \<Rightarrow> (let pool = allocMemBlock pool sz in Some (pool\<lparr>current := Some (length (blocks pool) - 1)\<rparr>))
                 | Some c \<Rightarrow> findBlock pool c sz) of
             None \<Rightarrow> None
           | Some pool \<Rightarrow>
               let c = the (current pool); block = blocks pool ! c
               in case remainingMem block of
                    None \<Rightarrow> None
                  | Some r \<Rightarrow>
                      if \<not> r \<ge> sz then None
                      else Some (Some (c, mb_size block),
                             pool\<lparr>blocks := (blocks pool)[c := block\<lparr>mb_size := (mb_size block + sz) mod size_range\<rparr>],
                                  totalUsed := (totalUsed pool + sz) mod size_range\<rparr>))"

definition callocFromMemPool :: "MemPool \<Rightarrow> nat \<Rightarrow> nat \<Rightarrow> (ptr option \<times> MemPool) option" where
  "callocFromMemPool pool count sz = allocFromMemPool pool (count * sz mod size_range)"

definition allocTrackedMem :: "MemPool \<Rightarrow> nat \<Rightarrow> nat \<times> MemPool" where
  "allocTrackedMem pool sz =
     (length (trackedItems pool),
      pool\<lparr>trackedItems := trackedItems pool @ [\<lparr>tm_size = sz, tm_heap = (sz + tracked_header) mod size_range\<rparr>],
           trackedAllocated := (trackedAllocated pool + sz) mod size_range\<rparr>)"

text \<open>The reallocation requests the new size without the header.\<close>

definition reallocTrackedMem :: "MemPool \<Rightarrow> nat \<Rightarrow> nat \<Rightarrow> MemPool" where
  "reallocTrackedMem pool i sz =
     (let item = trackedItems pool ! i;
          allocated = (trackedAllocated pool + size_range - tm_size item) mod size_range
      in pool\<lparr>trackedItems := (trackedItems pool)[i := \<lparr>tm_size = sz, tm_heap = sz\<rparr>],
              trackedAllocated := (allocated + sz) mod size_range\<rparr>)"

definition allocFromCacheOrPool :: "MemPool \<Rightarrow> MemPoolCacheId \<Rightarrow> nat \<Rightarrow> (ptr option \<times> MemPool) option" where
  "allocFromCacheOrPool pool cache sz =
     (let poolCache = (caches pool cache)\<lparr>allocs := (allocs (caches pool cache) + 1) mod size_range\<rparr>
      in case items poolCache of
           [] \<Rightarrow> allocFromMemPool (pool\<lparr>caches := (caches pool)(cache := poolCache)\<rparr>) sz
         | (p, _) # rest \<Rightarrow>
             Some (Some p, pool\<lparr>caches := (caches pool)(cache := poolCache\<lparr>items := rest\<rparr>)\<rparr>))"

definition freeMemToPoolCache :: "MemPool \<Rightarrow> MemPoolCacheId \<Rightarrow> ptr \<Rightarrow> nat \<Rightarrow> MemPool" where
  "freeMemToPoolCache pool cache p sz =
     (let poolCache = caches pool cache
      in pool\<lparr>caches := (caches pool)(cache := poolCache\<lparr>returns := (returns poolCache + 1) mod size_range,
                items := items poolCache @ [(p, sz)]\<rparr>)\<rparr>)"

definition resetMemPool :: "MemPool \<Rightarrow> MemPool" where
  "resetMemPool pool =
     pool\<lparr>blocks := map (\<lambda>b. b\<lparr>mb_size := 0\<rparr>) (blocks pool),
          current := (if blocks pool = [] then None else Some 0)\<rparr>"

definition freeMemPool :: "MemPool \<Rightarrow> MemPool" where
  "freeMemPool pool =
     pool\<lparr>blocks := [], current := None, caches := (\<lambda>_. emptyCache), trackedItems := [], trackedAllocated := 0\<rparr>"

text \<open>The total of the allocated blocks, the memory in use and the number of blocks.\<close>

definition getMemPoolStats :: "MemPool \<Rightarrow> nat \<times> nat \<times> nat" where
  "getMemPoolStats pool = (totalAllocated pool, (totalUsed pool + trackedAllocated pool) mod size_range, numberOfBlocks pool)"

section \<open>The invariant\<close>

type_synonym region = "nat \<times> nat \<times> nat"

definition disjoint_regions :: "region \<Rightarrow> region \<Rightarrow> bool" where
  "disjoint_regions r s = (case (r, s) of ((b, o1, l1), (c, o2, l2)) \<Rightarrow> b \<noteq> c \<or> o1 + l1 \<le> o2 \<or> o2 + l2 \<le> o1)"

definition region_in :: "MemPool \<Rightarrow> region \<Rightarrow> bool" where
  "region_in pool r = (case r of (b, off, l) \<Rightarrow> b < length (blocks pool) \<and> off mod max_align = 0 \<and>
     off + l \<le> mb_size (blocks pool ! b))"

definition block_ok :: "MemBlock \<Rightarrow> bool" where
  "block_ok b \<longleftrightarrow> mb_size b \<le> mb_capacity b \<and> mb_size b mod max_align = 0 \<and>
     block_header + mb_capacity b = mb_heap b \<and> mb_heap b < size_range"

definition blocks_ok :: "MemPool \<Rightarrow> bool" where
  "blocks_ok pool \<longleftrightarrow>
     (\<forall>b\<in>set (blocks pool). block_ok b) \<and>
     (case current pool of
        None \<Rightarrow> blocks pool = []
      | Some c \<Rightarrow> c < length (blocks pool) \<and> (\<forall>j. c < j \<and> j < length (blocks pool) \<longrightarrow> mb_size (blocks pool ! j) = 0))"

definition mp_inv :: "MemPool \<Rightarrow> region list \<Rightarrow> bool" where
  "mp_inv pool rs \<longleftrightarrow> blocks_ok pool \<and> (\<forall>r\<in>set rs. region_in pool r) \<and> sorted_wrt disjoint_regions rs"

text \<open>A request is representable if it leaves room for the alignment and the block header.\<close>

definition fits :: "nat \<Rightarrow> bool" where
  "fits n \<longleftrightarrow> n + max_align + block_header \<le> size_range"

lemma alignTo_props:
  assumes "fits n"
  shows "n \<le> alignTo n max_align" "alignTo n max_align mod max_align = 0"
    "block_header + alignTo n max_align < size_range"
proof -
  define q where "q = n div max_align"
  have n: "n = q * max_align + n mod max_align" by (simp add: q_def)
  have m: "n mod max_align < max_align" by (simp add: max_align_def)
  have fit: "n + 64 \<le> size_range" using assms by (simp add: fits_def max_align_def block_header_def)
  have up: "n + max_align - n mod max_align = q * max_align + max_align" using n by linarith
  have lt: "q * max_align + max_align < size_range" using fit n by (simp add: max_align_def)
  have "alignTo n max_align = (if n mod max_align \<noteq> 0 then q * max_align + max_align else q * max_align)"
    using up lt n by (simp add: alignTo_def Let_def)
  then show "n \<le> alignTo n max_align" "alignTo n max_align mod max_align = 0" "block_header + alignTo n max_align < size_range"
    using m n fit by (auto simp: block_header_def max_align_def)
qed

lemma blocks_okD: "blocks_ok pool \<Longrightarrow> c < length (blocks pool) \<Longrightarrow> block_ok (blocks pool ! c)"
  by (simp add: blocks_ok_def)

lemma remainingMem_ok: "mb_size b \<le> mb_capacity b \<Longrightarrow> remainingMem b = Some (mb_capacity b - mb_size b)"
  by (simp add: remainingMem_def)

text \<open>After the search, the current block has room, and nothing but the list of blocks grew.\<close>

definition found :: "MemPool \<Rightarrow> MemPool \<Rightarrow> nat \<Rightarrow> bool" where
  "found pool pool' sz \<longleftrightarrow> blocks_ok pool' \<and> (\<exists>c. current pool' = Some c \<and>
       sz \<le> mb_capacity (blocks pool' ! c) - mb_size (blocks pool' ! c)) \<and>
     (\<exists>new. blocks pool' = blocks pool @ new)"

lemma allocMemBlock_found:
  assumes "blocks_ok pool" "block_header + sz < size_range"
  shows "found pool ((allocMemBlock pool sz)\<lparr>current := Some (length (blocks (allocMemBlock pool sz)) - 1)\<rparr>) sz"
proof -
  define cap where "cap = (if sz < MIN_MEM_BLOCK_CAPACITY then MIN_MEM_BLOCK_CAPACITY else sz)"
  have "block_header + cap < size_range" "sz \<le> cap"
    using assms(2) by (auto simp: cap_def MIN_MEM_BLOCK_CAPACITY_def block_header_def size_range_def)
  then have "block_ok \<lparr>mb_size = 0, mb_capacity = cap, mb_heap = (block_header + cap) mod size_range\<rparr>" "sz \<le> cap"
    by (simp_all add: block_ok_def)
  with assms(1) show ?thesis
    by (auto simp: found_def blocks_ok_def allocMemBlock_def Let_def cap_def [symmetric] nth_append)
qed

lemma findBlock_found:
  "blocks_ok pool \<Longrightarrow> block_header + sz < size_range \<Longrightarrow> c < length (blocks pool) \<Longrightarrow> \<forall>j. c < j \<and> j < length (blocks pool) \<longrightarrow> mb_size (blocks pool ! j) = 0 \<Longrightarrow>
   \<exists>pool'. findBlock pool c sz = Some pool' \<and> found pool pool' sz"
proof (induction pool c sz rule: findBlock.induct)
  case (1 pool c sz)
  from "1.prems" have r: "remainingMem (blocks pool ! c) = Some (mb_capacity (blocks pool ! c) - mb_size (blocks pool ! c))"
    by (intro remainingMem_ok) (auto simp: block_ok_def dest: blocks_okD)
  consider "sz \<le> mb_capacity (blocks pool ! c) - mb_size (blocks pool ! c)"
    | "\<not> sz \<le> mb_capacity (blocks pool ! c) - mb_size (blocks pool ! c)" "\<not> Suc c < length (blocks pool)"
    | "\<not> sz \<le> mb_capacity (blocks pool ! c) - mb_size (blocks pool ! c)" "Suc c < length (blocks pool)"
    by linarith
  then show ?case
  proof cases
    case 1
    have "found pool (pool\<lparr>current := Some c\<rparr>) sz"
      using "1.prems" 1 by (auto simp: found_def blocks_ok_def)
    with 1 r show ?thesis by (simp add: findBlock.simps [of pool c sz])
  next
    case 2
    with r allocMemBlock_found [OF "1.prems"(1,2)] show ?thesis
      by (simp add: findBlock.simps [of pool c sz] Let_def)
  next
    case 3
    then have "mb_size (blocks pool ! Suc c) = 0" using "1.prems"(4) by simp
    with 3 r "1.IH" [OF r] "1.prems" show ?thesis by (simp add: findBlock.simps [of pool c sz])
  qed
qed

lemma region_in_extend:
  "region_in pool r \<Longrightarrow> blocks pool' = blocks pool @ new \<Longrightarrow> region_in pool' r"
  by (auto simp: region_in_def nth_append)

lemma block_ok_bump:
  assumes "block_ok b" "sz \<le> mb_capacity b - mb_size b" "sz mod max_align = 0"
  shows "block_ok (b\<lparr>mb_size := (mb_size b + sz) mod size_range\<rparr>)" "(mb_size b + sz) mod size_range = mb_size b + sz"
proof -
  have "mb_size b + sz < size_range" using assms(1,2) by (auto simp: block_ok_def)
  then show s: "(mb_size b + sz) mod size_range = mb_size b + sz" by simp
  have "(mb_size b + sz) mod max_align = 0"
    using assms(1,3) by (simp add: block_ok_def mod_add_eq [symmetric])
  with assms(1,2) show "block_ok (b\<lparr>mb_size := (mb_size b + sz) mod size_range\<rparr>)"
    unfolding s by (auto simp: block_ok_def)
qed

lemma blocks_ok_bump:
  assumes "blocks_ok pool" "current pool = Some c" "sz \<le> mb_capacity (blocks pool ! c) - mb_size (blocks pool ! c)"
    "sz mod max_align = 0" "current pool' = Some c"
    "blocks pool' = (blocks pool)[c := (blocks pool ! c)\<lparr>mb_size := (mb_size (blocks pool ! c) + sz) mod size_range\<rparr>]"
  shows "blocks_ok pool'"
proof -
  from assms(1,2) have c: "c < length (blocks pool)" by (simp add: blocks_ok_def)
  have "block_ok b" if "b \<in> set (blocks pool')" for b
  proof -
    from that assms(6) set_update_subset_insert have "b \<in> set (blocks pool) \<or>
        b = (blocks pool ! c)\<lparr>mb_size := (mb_size (blocks pool ! c) + sz) mod size_range\<rparr>" by fastforce
    with assms(1) block_ok_bump(1) [OF blocks_okD [OF assms(1) c] assms(3,4)] show ?thesis
      by (auto simp: blocks_ok_def)
  qed
  with assms c show ?thesis by (auto simp: blocks_ok_def nth_list_update)
qed

lemma alloc_ok:
  assumes "mp_inv pool rs" "0 < n" "fits n"
  shows "\<exists>b off pool'. allocFromMemPool pool n = Some (Some (b, off), pool') \<and> mp_inv pool' (rs @ [(b, off, n)])"
proof -
  define sz where "sz = alignTo n max_align"
  have sz: "n \<le> sz" "sz mod max_align = 0" "block_header + sz < size_range" using alignTo_props [OF assms(3)] by (simp_all add: sz_def)
  have ok: "blocks_ok pool" using assms(1) by (simp add: mp_inv_def)
  have "\<exists>p1. (case current pool of
       None \<Rightarrow> (let pool = allocMemBlock pool sz in Some (pool\<lparr>current := Some (length (blocks pool) - 1)\<rparr>))
     | Some c \<Rightarrow> findBlock pool c sz) = Some p1 \<and> found pool p1 sz"
  proof (cases "current pool")
    case None
    with allocMemBlock_found [OF ok sz(3)] show ?thesis by (simp add: Let_def)
  next
    case (Some c)
    with ok sz(3) findBlock_found [of pool sz c] show ?thesis by (auto simp: blocks_ok_def)
  qed
  then obtain p1 where p1: "(case current pool of
       None \<Rightarrow> (let pool = allocMemBlock pool sz in Some (pool\<lparr>current := Some (length (blocks pool) - 1)\<rparr>))
     | Some c \<Rightarrow> findBlock pool c sz) = Some p1" "found pool p1 sz" by blast
  from p1(2) obtain c new where f: "blocks_ok p1" "current p1 = Some c"
      "sz \<le> mb_capacity (blocks p1 ! c) - mb_size (blocks p1 ! c)" "blocks p1 = blocks pool @ new"
    by (auto simp: found_def)
  let ?b = "blocks p1 ! c"
  have c: "c < length (blocks p1)" "mb_size ?b \<le> mb_capacity ?b" "mb_size ?b mod max_align = 0"
    using f(1,2) blocks_okD [OF f(1), of c] by (auto simp: blocks_ok_def block_ok_def)
  note bump = block_ok_bump [OF blocks_okD [OF f(1) c(1)] f(3) sz(2)]
  define p2 where "p2 = p1\<lparr>blocks := (blocks p1)[c := ?b\<lparr>mb_size := (mb_size ?b + sz) mod size_range\<rparr>],
    totalUsed := (totalUsed p1 + sz) mod size_range\<rparr>"
  have eq: "allocFromMemPool pool n = Some (Some (c, mb_size ?b), p2)"
    using assms(2) p1(1) f(2,3) remainingMem_ok [OF c(2)]
    by (simp add: allocFromMemPool_def sz_def [symmetric] Let_def p2_def)
  have "blocks_ok p2" by (rule blocks_ok_bump [OF f(1,2,3) sz(2)]) (simp_all add: p2_def f(2))
  moreover have old: "region_in p1 r" if "r \<in> set rs" for r
    using assms(1) that by (intro region_in_extend [OF _ f(4)]) (simp add: mp_inv_def)
  moreover have "region_in p2 r" if "region_in p1 r" for r
    using that c(1) bump(2) by (auto simp: region_in_def p2_def nth_list_update split: prod.splits)
  moreover have "region_in p2 (c, mb_size ?b, n)" using c sz bump(2) by (simp add: region_in_def p2_def)
  moreover have "disjoint_regions r (c, mb_size ?b, n)" if "r \<in> set rs" for r
    using old [OF that] by (auto simp: region_in_def disjoint_regions_def)
  ultimately have "mp_inv p2 (rs @ [(c, mb_size ?b, n)])"
    using assms(1) by (auto simp: mp_inv_def sorted_wrt_append)
  with eq show ?thesis by blast
qed

section \<open>Allocations never overlap\<close>

fun allocAll :: "MemPool \<Rightarrow> nat list \<Rightarrow> (region list \<times> MemPool) option" where
  "allocAll pool [] = Some ([], pool)"
| "allocAll pool (n # ns) =
     (case allocFromMemPool pool n of
        None \<Rightarrow> None
      | Some (p, pool) \<Rightarrow>
          (case allocAll pool ns of
             None \<Rightarrow> None
           | Some (rs, pool) \<Rightarrow> Some ((case p of None \<Rightarrow> [] | Some (b, off) \<Rightarrow> [(b, off, n)]) @ rs, pool)))"

lemma allocAll_ok:
  "mp_inv pool rs \<Longrightarrow> \<forall>n\<in>set ns. fits n \<Longrightarrow> \<exists>new pool'. allocAll pool ns = Some (new, pool') \<and> mp_inv pool' (rs @ new) \<and>
     map (\<lambda>(b, off, l). l) new = filter (\<lambda>n. 0 < n) ns"
proof (induction ns arbitrary: pool rs)
  case (Cons n ns)
  show ?case
  proof (cases "n = 0")
    case True
    with Cons.IH [OF Cons.prems(1)] Cons.prems(2) show ?thesis by (auto simp: allocFromMemPool_def)
  next
    case False
    then obtain b off p1 where a: "allocFromMemPool pool n = Some (Some (b, off), p1)" "mp_inv p1 (rs @ [(b, off, n)])"
      using alloc_ok [OF Cons.prems(1), of n] Cons.prems(2) by (meson gr0I list.set_intros(1))
    from Cons.IH [OF a(2)] Cons.prems(2) a(1) False show ?thesis by auto
  qed
qed simp

lemma newMemPool_inv: "mp_inv newMemPool []"
  by (simp add: mp_inv_def blocks_ok_def newMemPool_def)

text \<open>C37: for every sequence of requests to a new memory pool, each at least 64 bytes (the
  alignment and the block header) below the end of the 64-bit range, no assertion of the
  allocator fails, every request of a positive size is served, and the served regions are
  aligned, do not overlap and lie inside their blocks, behind the header of the memory that
  was obtained for the block.\<close>

theorem allocFromMemPool_disjoint:
  assumes "\<forall>n\<in>set ns. n + 64 \<le> 2 ^ 64"
  shows "\<exists>rs pool. allocAll newMemPool ns = Some (rs, pool) \<and> map (\<lambda>(b, off, l). l) rs = filter (\<lambda>n. 0 < n) ns \<and>
     sorted_wrt disjoint_regions rs \<and>
     list_all (\<lambda>(b, off, l). b < length (blocks pool) \<and> off mod max_align = 0 \<and>
       off + l \<le> mb_capacity (blocks pool ! b) \<and> block_header + off + l \<le> mb_heap (blocks pool ! b)) rs"
proof -
  have "\<forall>n\<in>set ns. fits n" using assms by (simp add: fits_def max_align_def block_header_def size_range_def)
  from allocAll_ok [OF newMemPool_inv this] obtain rs pool where
    a: "allocAll newMemPool ns = Some (rs, pool)" "mp_inv pool rs" "map (\<lambda>(b, off, l). l) rs = filter (\<lambda>n. 0 < n) ns"
    by auto
  have "b < length (blocks pool) \<and> off mod max_align = 0 \<and> off + l \<le> mb_capacity (blocks pool ! b) \<and>
      block_header + off + l \<le> mb_heap (blocks pool ! b)" if "(b, off, l) \<in> set rs" for b off l
  proof -
    from a(2) that have r: "b < length (blocks pool)" "off mod max_align = 0" "off + l \<le> mb_size (blocks pool ! b)"
      and "block_ok (blocks pool ! b)"
      by (auto simp: mp_inv_def region_in_def intro: blocks_okD)
    then show ?thesis by (auto simp: block_ok_def)
  qed
  with a show ?thesis by (auto simp: mp_inv_def list_all_iff)
qed

theorem allocFromMemPool_disjoint_witness:
  "(100 :: nat) + 64 \<le> 2 ^ 64 \<and> (2000 :: nat) + 64 \<le> 2 ^ 64 \<and>
   (\<exists>rs pool. allocAll newMemPool [100, 2000] = Some (rs, pool) \<and> sorted_wrt disjoint_regions rs \<and> length rs = 2)"
proof -
  obtain rs pool where r: "allocAll newMemPool [100, 2000] = Some (rs, pool)"
      "map (\<lambda>(b, off, l). l) rs = filter (\<lambda>n. 0 < n) [100, 2000]" "sorted_wrt disjoint_regions rs"
    using allocFromMemPool_disjoint [of "[100, 2000]"] by auto
  from r(2) have "length rs = 2" by (metis filter.simps length_Cons length_map list.size(3) numeral_2_eq_2 zero_less_numeral)
  with r show ?thesis by simp
qed

text \<open>A request close to the end of the range is not refused: its size is aligned to 0, so a
  block of the minimal size serves it, and the next such request gets the same address.\<close>

theorem alignTo_wraps:
  "\<exists>p1 p2. allocFromMemPool newMemPool (2 ^ 64 - 1) = Some (Some (0, 0), p1) \<and>
     allocFromMemPool p1 (2 ^ 64 - 1) = Some (Some (0, 0), p2) \<and> map mb_capacity (blocks p2) = [1024]"
  by (simp add: allocFromMemPool_def newMemPool_def allocMemBlock_def alignTo_def max_align_def MIN_MEM_BLOCK_CAPACITY_def
      size_range_def remainingMem_def findBlock.simps Let_def)

text \<open>Resetting a pool keeps the caches, whose pointers then refer to memory that is handed
  out again: a node returned to the cache before the reset and allocated from it afterwards
  overlaps the first allocation after the reset.\<close>

theorem resetMemPool_keeps_caches:
  "\<exists>p1 q2 p2 q3 p3. allocFromMemPool newMemPool 64 = Some (Some (0, 0), p1) \<and>
     allocFromMemPool (resetMemPool (freeMemToPoolCache p1 memAstNode (0, 0) 64)) 64 = Some (Some q2, p2) \<and>
     allocFromCacheOrPool p2 memAstNode 64 = Some (Some q3, p3) \<and> q2 = q3"
  by (simp add: allocFromMemPool_def newMemPool_def allocMemBlock_def alignTo_def max_align_def MIN_MEM_BLOCK_CAPACITY_def
      size_range_def remainingMem_def resetMemPool_def freeMemToPoolCache_def allocFromCacheOrPool_def findBlock.simps emptyCache_def Let_def)

text \<open>A reallocation of tracked memory requests only the new size from the C allocator, not
  the header in front of the data, so fewer bytes than recorded are usable.\<close>

theorem reallocTrackedMem_undersized:
  "let (i, pool) = allocTrackedMem pool0 n; item = trackedItems (reallocTrackedMem pool i m) ! i
   in tm_heap (trackedItems pool ! i) = (n + tracked_header) mod size_range \<and> tm_size item = m \<and> tm_heap item < m + tracked_header"
  by (simp add: allocTrackedMem_def reallocTrackedMem_def tracked_header_def Let_def nth_append)

end
