(* ===== verification/Cxy_Numbers.thy ===== *)
theory Cxy_Numbers
  imports Cxy_SemVer
begin

text \<open>
  Number conversion and searching of \<open>core/utils.c\<close>: \<open>strtou128\<close>, the decimal printers
  \<open>formatu128\<close> and \<open>formati128\<close> with their bounded buffer, and \<open>binarySearch\<close> with
  \<open>compareStrings\<close>. 128-bit values are words, signed ones in two's complement.
\<close>

section \<open>Reading\<close>

datatype errno = EINVAL | ERANGE

text \<open>The digit of a character, below 36, or none.\<close>

definition digitOf :: "char \<Rightarrow> nat option" where
  "digitOf c =
     (if in_range CHR ''0'' CHR ''9'' c then Some (code c - code CHR ''0'')
      else if in_range CHR ''a'' CHR ''z'' c then Some (code c - code CHR ''a'' + 10)
      else if in_range CHR ''A'' CHR ''Z'' c then Some (code c - code CHR ''A'' + 10)
      else None)"

text \<open>The loop returns whether it overflowed, the number so far and the position.\<close>

fun strtouLoop :: "nat \<Rightarrow> u128 \<Rightarrow> cstring \<Rightarrow> bool \<times> u128 \<times> cstring" where
  "strtouLoop base result [] = (False, result, [])"
| "strtouLoop base result (c # str) =
     (case digitOf c of
        None \<Rightarrow> (False, result, c # str)
      | Some digit \<Rightarrow>
          if digit \<ge> base then (False, result, c # str)
          else
            let max_val = - 1; cutoff = max_val div of_nat base; cutlim = unat (max_val mod of_nat base :: u128)
            in if result > cutoff \<or> result = cutoff \<and> digit > cutlim then (True, result, c # str)
               else strtouLoop base (result * of_nat base + of_nat digit) str)"

text \<open>The base and the position after an optional prefix. The test of the base at the start of
  \<open>strtou128\<close> rejects 0, so the detection of the base is never reached.\<close>

definition skipPrefix :: "nat \<Rightarrow> cstring \<Rightarrow> nat \<times> cstring" where
  "skipPrefix base str =
     (if base = 0
      then (if cur str = CHR ''0''
            then (if cur (tl str) = CHR ''x'' \<or> cur (tl str) = CHR ''X'' then (16, drop 2 str)
                  else if cur (tl str) = CHR ''b'' \<or> cur (tl str) = CHR ''B'' then (2, drop 2 str)
                  else (8, tl str))
            else (10, str))
      else if base = 16 \<and> cur str = CHR ''0'' \<and> (cur (tl str) = CHR ''x'' \<or> cur (tl str) = CHR ''X'')
      then (base, drop 2 str)
      else if base = 2 \<and> cur str = CHR ''0'' \<and> (cur (tl str) = CHR ''b'' \<or> cur (tl str) = CHR ''B'')
      then (base, drop 2 str)
      else (base, str))"

text \<open>The result: the number, the end position and the error, if one is reported.\<close>

definition strtou128 :: "cstring option \<Rightarrow> nat \<Rightarrow> u128 \<times> cstring option \<times> errno option" where
  "strtou128 str base =
     (if str = None \<or> base < 2 \<or> base > 36 then (0, str, Some EINVAL)
      else
        let s = dropWhile isspace (the str)
        in if cur s = nul then (0, Some s, None)
           else if cur s = CHR ''-'' then (0, Some s, Some ERANGE)
           else
             let s = (if cur s = CHR ''+'' then tl s else s);
                 (base, s) = skipPrefix base s
             in case strtouLoop base 0 s of (overflow, result, rest) \<Rightarrow>
                  if overflow then (- 1, Some rest, Some ERANGE) else (result, Some rest, None))"

section \<open>Printing\<close>

text \<open>What \<open>snprintf\<close> prints for \<open>%019\<close>: padded with zeros to 19 digits.\<close>

definition pad :: "nat \<Rightarrow> nat \<Rightarrow> cstring" where
  "pad k n = replicate (k - length (showu n)) CHR ''0'' @ showu n"

text \<open>Printing into the rest of the buffer: what is before the position, and the space left.
  When the text fills the space exactly, its last character is replaced by the terminator.\<close>

definition bufferPut :: "cstring \<Rightarrow> cstring \<times> nat \<Rightarrow> cstring \<times> nat" where
  "bufferPut s st =
     (case st of (buf, remaining) \<Rightarrow>
        if 0 < length s \<and> length s \<le> remaining
        then (buf @ (if length s < remaining then s else take (remaining - 1) s @ [nul]), remaining - length s)
        else (buf, remaining))"

definition pu64_to_buffer :: "u64 \<Rightarrow> cstring \<times> nat \<Rightarrow> cstring \<times> nat" where
  "pu64_to_buffer u st = bufferPut (showu (unat u)) st"

definition pu640_to_buffer :: "u64 \<Rightarrow> cstring \<times> nat \<Rightarrow> cstring \<times> nat" where
  "pu640_to_buffer u st = bufferPut (pad 19 (unat u)) st"

definition d19 :: u128 where "d19 = 10000000000000000000"

definition d38 :: u128 where "d38 = d19 * d19"

text \<open>The written text and the returned length.\<close>

definition formatu128 :: "u128 \<Rightarrow> nat \<Rightarrow> cstring \<times> nat" where
  "formatu128 u buffer_size =
     (if buffer_size = 0 then ([], 0)
      else
        let st = ([], buffer_size);
            (buf, remaining) =
              (if u < d19 then pu64_to_buffer (ucast u) st
               else if u < d38
               then pu640_to_buffer (ucast (u mod d19)) (pu64_to_buffer (ucast (u div d19)) st)
               else let st = pu64_to_buffer (ucast (u div d38)) st; u = u mod d38
                    in pu640_to_buffer (ucast (u mod d19)) (pu640_to_buffer (ucast (u div d19)) st))
        in (buf, buffer_size - remaining))"

text \<open>The length returned for a negative number counts the sign.\<close>

definition formati128 :: "u128 \<Rightarrow> nat \<Rightarrow> cstring \<times> nat" where
  "formati128 i buffer_size =
     (if buffer_size = 0 then ([], 0)
      else if sint i < 0
      then if buffer_size < 2 then ([], 0)
           else let (buf, n) = (if i = push_bit 127 1 then formatu128 (push_bit 127 1) (buffer_size - 1)
                                else formatu128 (- i) (buffer_size - 1))
                in (CHR ''-'' # buf, n + 1)
      else formatu128 i buffer_size)"

section \<open>Searching\<close>

function binarySearchLoop :: "('a \<Rightarrow> 'b \<Rightarrow> int) \<Rightarrow> 'a \<Rightarrow> 'b list \<Rightarrow> int \<Rightarrow> int \<Rightarrow> int" where
  "binarySearchLoop compare x arr lower upper =
     (if lower \<le> upper
      then let mid = lower + (upper - lower) div 2; res = compare x (arr ! nat mid)
           in if res = 0 then mid
              else if res > 0 then binarySearchLoop compare x arr (mid + 1) upper
              else binarySearchLoop compare x arr lower (mid - 1)
      else - 1)"
  by pat_completeness auto
termination
  by (relation "measure (\<lambda>(compare, x, arr, lower, upper). nat (upper - lower + 1))") auto

declare binarySearchLoop.simps [simp del]

definition binarySearch :: "('a \<Rightarrow> 'b \<Rightarrow> int) \<Rightarrow> 'a \<Rightarrow> 'b list \<Rightarrow> int" where
  "binarySearch compare x arr = binarySearchLoop compare x arr 0 (int (length arr) - 1)"

definition compareStrings :: "cstring \<Rightarrow> cstring \<Rightarrow> int" where
  "compareStrings lhs rhs = strcmp_sgn lhs rhs"

section \<open>The value read\<close>

definition digits_val :: "nat \<Rightarrow> nat \<Rightarrow> cstring \<Rightarrow> nat" where
  "digits_val b n ds = foldl (\<lambda>n c. n * b + the (digitOf c)) n ds"

lemma digits_val_simps [simp]:
  "digits_val b n [] = n" "digits_val b n (c # ds) = digits_val b (n * b + the (digitOf c)) ds"
  by (simp_all add: digits_val_def)

lemma digits_val_mono: "1 \<le> b \<Longrightarrow> n \<le> digits_val b n ds"
proof (induction ds arbitrary: n)
  case (Cons c ds)
  have "n \<le> n * b + the (digitOf c)" using Cons.prems by (simp add: trans_le_add1)
  also have "\<dots> \<le> digits_val b (n * b + the (digitOf c)) ds" using Cons by simp
  finally show ?case by simp
qed simp

text \<open>The test before a multiplication is exact.\<close>

lemma u128_overflow_test:
  assumes "2 \<le> b" "b \<le> 36" "d < b"
  shows "(r :: u128) > - 1 div of_nat b \<or> r = - 1 div of_nat b \<and> d > unat (- 1 mod of_nat b :: u128)
    \<longleftrightarrow> unat r * b + d \<ge> 2 ^ 128"
proof -
  let ?M = "2 ^ 128 - 1 :: nat"
  have b: "unat (of_nat b :: u128) = b" using assms by (simp add: unat_of_nat)
  have M: "unat (- 1 :: u128) = ?M" by (simp add: unsigned_minus_1_eq_mask mask_eq_exp_minus_1)
  have q: "unat (- 1 div of_nat b :: u128) = ?M div b" and m: "unat (- 1 mod of_nat b :: u128) = ?M mod b"
    by (simp_all only: unat_div unat_mod b M)
  have split: "?M = ?M div b * b + ?M mod b" by simp
  have mb: "?M mod b < b" using assms by simp
  have "unat r > ?M div b \<or> unat r = ?M div b \<and> d > ?M mod b \<longleftrightarrow> unat r * b + d > ?M"
  proof (cases "unat r" "?M div b" rule: linorder_cases)
    case less
    then have "Suc (unat r) * b \<le> ?M div b * b" by (intro mult_right_mono) auto
    moreover have "Suc (unat r) * b = unat r * b + b" by simp
    ultimately have "unat r * b + d < ?M div b * b" using assms(3) by linarith
    then have "\<not> unat r * b + d > ?M" using split by linarith
    with less show ?thesis by linarith
  next
    case equal
    then have "unat r * b + d > ?M \<longleftrightarrow> d > ?M mod b" using split by (metis add_less_cancel_left)
    with equal show ?thesis by simp
  next
    case greater
    then have "Suc (?M div b) * b \<le> unat r * b" by (intro mult_right_mono) auto
    moreover have "Suc (?M div b) * b = ?M div b * b + b" by simp
    ultimately have "unat r * b + d > ?M" using split mb by linarith
    with greater show ?thesis by simp
  qed
  moreover have "r > - 1 div of_nat b \<longleftrightarrow> unat r > ?M div b" by (simp only: word_less_nat_alt q)
  moreover have "r = - 1 div of_nat b \<longleftrightarrow> unat r = ?M div b" by (simp only: word_unat_eq_iff q)
  moreover have "x > ?M \<longleftrightarrow> x \<ge> 2 ^ 128" for x by auto
  ultimately show ?thesis using m by (simp only:)
qed

lemma strtouLoop_step:
  assumes "2 \<le> b" "b \<le> 36" "digitOf c = Some d" "d < b"
  shows "strtouLoop b r (c # s) =
     (if unat r * b + d \<ge> 2 ^ 128 then (True, r, c # s) else strtouLoop b (r * of_nat b + of_nat d) s)"
  using assms u128_overflow_test [OF assms(1,2,4), of r] by (simp add: Let_def)

lemma unat_shift_digit_128:
  assumes "unat (r :: u128) * b + d < 2 ^ 128" "2 \<le> b" "b \<le> 36" "d < b"
  shows "unat (r * of_nat b + of_nat d) = unat r * b + d"
  using assms by (simp add: unat_word_ariths unat_of_nat)

definition digit_in :: "nat \<Rightarrow> char \<Rightarrow> bool" where
  "digit_in b c \<longleftrightarrow> (\<exists>d. digitOf c = Some d \<and> d < b)"

lemma digit_in_code [code]: "digit_in b c = (case digitOf c of None \<Rightarrow> False | Some d \<Rightarrow> d < b)"
  by (auto simp: digit_in_def split: option.splits)

lemma strtouLoop_stop: "\<not> digit_in b (cur rest) \<or> rest = [] \<Longrightarrow> strtouLoop b r rest = (False, r, rest)"
  by (cases rest) (auto simp: digit_in_def split: option.splits)

lemma strtouLoop_digits:
  assumes "2 \<le> b" "b \<le> 36" "list_all (digit_in b) ds" "\<not> digit_in b (cur rest) \<or> rest = []"
  shows "if digits_val b (unat r) ds < 2 ^ 128
     then strtouLoop b r (ds @ rest) = (False, of_nat (digits_val b (unat r) ds), rest)
     else fst (strtouLoop b r (ds @ rest))"
  using assms(3)
proof (induction ds arbitrary: r)
  case Nil
  then show ?case using strtouLoop_stop [OF assms(4)] unsigned_less [of r, where 'a = nat] by simp
next
  case (Cons c ds)
  then obtain d where d: "digitOf c = Some d" "d < b" by (auto simp: digit_in_def)
  note step = strtouLoop_step [OF assms(1,2) d, of r "ds @ rest"]
  show ?case
  proof (cases "unat r * b + d < 2 ^ 128")
    case True
    with Cons.IH [of "r * of_nat b + of_nat d"] Cons.prems step d unat_shift_digit_128 [OF True assms(1,2) d(2)]
    show ?thesis by simp
  next
    case False
    with digits_val_mono [of b "unat r * b + d" ds] assms(1) have "\<not> digits_val b (unat r * b + d) ds < 2 ^ 128"
      by linarith
    with False step d show ?thesis by simp
  qed
qed

lemma digit_in_char:
  "digit_in b c \<Longrightarrow> \<not> isspace c \<and> c \<noteq> nul \<and> c \<noteq> CHR ''-'' \<and> c \<noteq> CHR ''+''"
  by (auto simp: digit_in_def digitOf_def ctype_defs nul_def split: if_splits)

lemma strtou128_digits:
  assumes "2 \<le> b" "b \<le> 36" "ds \<noteq> []" "list_all (digit_in b) ds"
    and "rest = [] \<or> \<not> digit_in b (cur rest) \<and> cur rest \<notin> {CHR ''x'', CHR ''X'', CHR ''b'', CHR ''B''}"
  shows "if digits_val b 0 ds < 2 ^ 128
     then strtou128 (Some (ds @ rest)) b = (of_nat (digits_val b 0 ds), Some rest, None)
     else fst (strtou128 (Some (ds @ rest)) b) = - 1 \<and> snd (snd (strtou128 (Some (ds @ rest)) b)) = Some ERANGE"
proof -
  let ?s = "ds @ rest"
  obtain c ds' where ds: "ds = c # ds'" using assms(3) by (cases ds) auto
  with assms(4) have c: "\<not> isspace c" "c \<noteq> nul" "c \<noteq> CHR ''-''" "c \<noteq> CHR ''+''" using digit_in_char by auto
  have nd: "\<not> (b = 16 \<and> x \<in> {CHR ''x'', CHR ''X''} \<or> b = 2 \<and> x \<in> {CHR ''b'', CHR ''B''})" if "digit_in b x" for x
    using that by (auto simp: digit_in_def digitOf_def in_range_def)
  have "cur rest \<notin> {CHR ''x'', CHR ''X'', CHR ''b'', CHR ''B''}"
    by (rule disjE [OF assms(5)]) (simp_all add: nul_def)
  moreover have "digit_in b (cur (tl ?s)) \<or> cur (tl ?s) = cur rest" using assms(4) ds by (cases ds') auto
  ultimately have "\<not> (b = 16 \<and> cur (tl ?s) \<in> {CHR ''x'', CHR ''X''} \<or> b = 2 \<and> cur (tl ?s) \<in> {CHR ''b'', CHR ''B''})"
    using nd [of "cur (tl ?s)"] by (elim disjE) simp_all
  then have "skipPrefix b ?s = (b, ?s)" using assms(1) by (auto simp: skipPrefix_def)
  then have eq: "strtou128 (Some ?s) b = (case strtouLoop b 0 ?s of (overflow, result, rest) \<Rightarrow>
      if overflow then (- 1, Some rest, Some ERANGE) else (result, Some rest, None))"
    using assms(1,2) c ds by (simp add: strtou128_def Let_def)
  have "\<not> digit_in b (cur rest) \<or> rest = []" using assms(5) by auto
  from strtouLoop_digits [OF assms(1,2,4) this, of 0] eq show ?thesis
    by (auto split: prod.splits if_splits)
qed

text \<open>Reading digits of a base from 2 to 36, up to the first character that is not one,
  returns their value exactly when it fits 128 bits; otherwise the greatest value and
  \<open>ERANGE\<close>. A base prefix is not part of the digits.\<close>

theorem strtou128_value:
  assumes "2 \<le> b" "b \<le> 36" "ds \<noteq> []" "list_all (digit_in b) ds"
    and "rest = [] \<or> \<not> digit_in b (cur rest) \<and> cur rest \<notin> {CHR ''x'', CHR ''X'', CHR ''b'', CHR ''B''}"
  shows "if digits_val b 0 ds < 2 ^ 128
     then strtou128 (Some (ds @ rest)) b = (of_nat (digits_val b 0 ds), Some rest, None)
     else fst (strtou128 (Some (ds @ rest)) b) = - 1 \<and> snd (snd (strtou128 (Some (ds @ rest)) b)) = Some ERANGE"
  by (rule strtou128_digits [OF assms])

theorem strtou128_value_witness: "strtou128 (Some ''ff;'') 16 = (255, Some '';'', None)"
proof -
  have "list_all (digit_in 16) ''ff''" "\<not> digit_in 16 CHR '';''" "digits_val 16 0 ''ff'' = 255"
    by (simp_all add: digit_in_def digitOf_def in_range_def)
  with strtou128_value [of 16 "''ff''" "'';''"] show ?thesis by simp
qed

section \<open>The text printed\<close>

lemma showu_small: "n < 10 \<Longrightarrow> showu n = [digit_char n]"
  by (subst showu.simps) simp

lemma showu_big: "10 \<le> n \<Longrightarrow> showu n = showu (n div 10) @ [digit_char (n mod 10)]"
  by (subst showu.simps) simp

lemma length_showu: "n < 10 ^ k \<Longrightarrow> 0 < k \<Longrightarrow> length (showu n) \<le> k"
proof (induction k arbitrary: n)
  case (Suc k)
  show ?case
  proof (cases "n < 10")
    case False
    with Suc.prems have "0 < k" by (cases k) auto
    with False Suc show ?thesis by (simp add: showu_big less_mult_imp_div_less mult.commute)
  qed (simp add: showu_small)
qed simp

lemma pad_Suc:
  assumes "r < 10 ^ Suc k" "0 < k"
  shows "pad (Suc k) r = pad k (r div 10) @ [digit_char (r mod 10)]"
proof (cases "r < 10")
  case True
  then have "replicate k CHR ''0'' = replicate (k - 1) CHR ''0'' @ [CHR ''0'']"
    using assms(2) by (metis Suc_diff_1 replicate_Suc replicate_append_same)
  with True show ?thesis by (simp add: pad_def showu_small digit_char_eval)
next
  case False
  then show ?thesis by (simp add: pad_def showu_big)
qed

lemma showu_split: "0 < q \<Longrightarrow> 0 < k \<Longrightarrow> r < 10 ^ k \<Longrightarrow> showu (q * 10 ^ k + r) = showu q @ pad k r"
proof (induction k arbitrary: r)
  case (Suc k)
  let ?n = "q * 10 ^ Suc k + r"
  have n: "10 \<le> ?n"
  proof -
    have "(10 :: nat) \<le> 10 ^ Suc k" by simp
    also have "\<dots> \<le> q * 10 ^ Suc k" using Suc.prems(1) by simp
    finally show ?thesis by (rule trans_le_add1)
  qed
  have div: "?n div 10 = q * 10 ^ k + r div 10" by simp
  have mod: "?n mod 10 = r mod 10"
    by (metis (no_types, lifting) mod_mult_self4 mult.left_commute power_Suc)
  show ?case
  proof (cases "k = 0")
    case True
    with Suc.prems have "r < 10" by simp
    then show ?thesis using showu_big [OF n] True by (simp add: pad_def showu_small)
  next
    case False
    with Suc have "showu (q * 10 ^ k + r div 10) = showu q @ pad k (r div 10)"
      by (simp add: less_mult_imp_div_less mult.commute)
    with showu_big [OF n] div mod pad_Suc [OF Suc.prems(3)] False show ?thesis by simp
  qed
qed simp

lemma length_pad: "n < 10 ^ k \<Longrightarrow> 0 < k \<Longrightarrow> length (pad k n) = k"
  using length_showu [of n k] by (simp add: pad_def)

lemma bufferPut_fits:
  "s \<noteq> [] \<Longrightarrow> length s < rem \<Longrightarrow> bufferPut s (buf, rem) = (buf @ s, rem - length s)"
  by (simp add: bufferPut_def)

lemma unat_d19: "unat d19 = 10 ^ 19"
  by (simp add: d19_def)

lemma unat_d38: "unat d38 = 10 ^ 38"
  by (simp add: d38_def d19_def)

lemma unat_u64_of_u128: "unat (x :: u128) < 10 ^ 19 \<Longrightarrow> unat (ucast x :: u64) = unat x"
  by (simp add: unsigned_ucast_eq take_bit_nat_eq_self)

lemma u128_bound: "unat (u :: u128) < 4 * 10 ^ 38"
  using unsigned_less [of u, where 'a = nat] by simp

lemma formatu128_showu:
  assumes "40 \<le> sz"
  shows "formatu128 u sz = (showu (unat u), length (showu (unat u)))"
proof -
  let ?n = "unat u"
  consider "?n < 10 ^ 19" | "10 ^ 19 \<le> ?n" "?n < 10 ^ 38" | "10 ^ 38 \<le> ?n" by linarith
  then show ?thesis
  proof cases
    case 1
    then have "u < d19" by (simp add: word_less_nat_alt unat_d19)
    moreover have "length (showu ?n) \<le> 19" using 1 by (intro length_showu) auto
    ultimately show ?thesis
      using assms 1 by (simp add: formatu128_def pu64_to_buffer_def unat_u64_of_u128 bufferPut_fits)
  next
    case 2
    then have c: "\<not> u < d19" "u < d38" by (simp_all add: word_less_nat_alt unat_d19 unat_d38)
    have q: "?n div 10 ^ 19 < 10 ^ 19" "0 < ?n div 10 ^ 19"
      using 2 by (simp_all add: less_mult_imp_div_less div_greater_zero_iff)
    have u: "unat (ucast (u div d19) :: u64) = ?n div 10 ^ 19" "unat (ucast (u mod d19) :: u64) = ?n mod 10 ^ 19"
      using q by (simp_all add: unat_u64_of_u128 unat_div unat_mod unat_d19)
    have split: "showu ?n = showu (?n div 10 ^ 19) @ pad 19 (?n mod 10 ^ 19)"
      using showu_split [OF q(2), of 19 "?n mod 10 ^ 19"] by simp
    have len: "length (showu (?n div 10 ^ 19)) \<le> 19" "length (pad 19 (?n mod 10 ^ 19)) = 19"
      using q by (simp_all add: length_showu length_pad)
    then have ne: "pad 19 (?n mod 10 ^ 19) \<noteq> []" by auto
    show ?thesis
      using assms len ne
      by (simp add: formatu128_def c pu64_to_buffer_def pu640_to_buffer_def u split bufferPut_fits
          del: power_Suc power_numeral)
  next
    case 3
    then have c: "\<not> u < d19" "\<not> u < d38" by (simp_all add: word_less_nat_alt unat_d19 unat_d38)
    let ?q = "?n div 10 ^ 38" and ?m = "?n mod 10 ^ 38"
    have q: "?q < 10" "0 < ?q" using 3 u128_bound [of u]
      by (simp_all add: less_mult_imp_div_less div_greater_zero_iff)
    have m: "?m div 10 ^ 19 < 10 ^ 19" by (simp add: less_mult_imp_div_less)
    have u: "unat (ucast (u div d38) :: u64) = ?q" "unat (ucast (u mod d38 div d19) :: u64) = ?m div 10 ^ 19"
        "unat (ucast (u mod d38 mod d19) :: u64) = ?m mod 10 ^ 19"
      using q m by (simp_all add: unat_u64_of_u128 unat_div unat_mod unat_d19 unat_d38)
    have "?n = (?q * 10 ^ 19 + ?m div 10 ^ 19) * 10 ^ 19 + ?m mod 10 ^ 19" by simp
    then have split: "showu ?n = showu ?q @ pad 19 (?m div 10 ^ 19) @ pad 19 (?m mod 10 ^ 19)"
      using showu_split [of "?q * 10 ^ 19 + ?m div 10 ^ 19" 19 "?m mod 10 ^ 19"]
        showu_split [OF q(2), of 19 "?m div 10 ^ 19"] m q by simp
    have len: "length (showu ?q) = 1" "length (pad 19 (?m div 10 ^ 19)) = 19" "length (pad 19 (?m mod 10 ^ 19)) = 19"
      using q m by (simp_all add: showu_small length_pad)
    then have ne: "pad 19 (?m div 10 ^ 19) \<noteq> []" "pad 19 (?m mod 10 ^ 19) \<noteq> []" by auto
    show ?thesis
      using assms len ne
      by (simp add: formatu128_def c pu64_to_buffer_def pu640_to_buffer_def u split bufferPut_fits Let_def
          del: power_Suc power_numeral)
  qed
qed

lemma isdigit_digitOf: "isdigit c \<Longrightarrow> digitOf c = Some (digit_val c) \<and> digit_in 10 c"
  using digit_val_less [of c] by (auto simp: digit_in_def digitOf_def isdigit_def digit_val_def)

lemma digits_val_dec: "(\<And>c. c \<in> set ds \<Longrightarrow> isdigit c) \<Longrightarrow> digits_val 10 n ds = dec_val n ds"
  by (induction ds arbitrary: n) (simp_all add: isdigit_digitOf)

lemma read_showu: "strtou128 (Some (showu (unat (u :: u128)))) 10 = (u, Some [], None)"
proof -
  let ?ds = "showu (unat u)"
  have d: "\<And>c. c \<in> set ?ds \<Longrightarrow> isdigit c" by (rule showu_digits)
  then have "list_all (digit_in 10) ?ds" by (auto simp: list_all_iff isdigit_digitOf)
  moreover have "digits_val 10 0 ?ds = unat u" using digits_val_dec [OF d] by simp
  moreover have "unat u < 2 ^ 128" using unsigned_less [of u, where 'a = nat] by simp
  ultimately show ?thesis using strtou128_digits [of 10 ?ds "[]"] by simp
qed

text \<open>Printing a 128-bit number into a buffer of at least 40 bytes writes its decimal digits
  without loss, returns their count, and reading them back gives the number.\<close>

theorem formatu128_roundtrip:
  assumes "40 \<le> sz"
  shows "formatu128 u sz = (showu (unat u), length (showu (unat u)))
    \<and> strtou128 (Some (fst (formatu128 u sz))) 10 = (u, Some [], None)"
  using formatu128_showu [OF assms] read_showu by simp

theorem formatu128_roundtrip_witness:
  "strtou128 (Some (fst (formatu128 (- 1) 64))) 10 = (- 1, Some [], None)"
  by (rule conjunct2 [OF formatu128_roundtrip]) simp

lemma neg_word_value: "sint (i :: u128) < 0 \<Longrightarrow> unat (- i) = nat (- sint i)"
proof -
  assume neg: "sint i < 0"
  have lo: "- (2 ^ 127) \<le> sint i" using sint_ge [of i] by simp
  have "- i = word_of_int (- sint i)" by simp
  then have "uint (- i) = take_bit 128 (- sint i)" by (simp only: uint_word_of_int_eq len_num1 len_bit0 mult_2 [symmetric]) simp
  also have "\<dots> = - sint i" using neg lo by (simp add: take_bit_int_eq_self_iff)
  finally show ?thesis by (metis nat_uint_eq)
qed

lemma nonneg_word_value: "\<not> sint (i :: u128) < 0 \<Longrightarrow> unat i = nat (sint i)"
proof -
  assume pos: "\<not> sint i < 0"
  have hi: "sint i < 2 ^ 127" using sint_lt [of i] by simp
  have "i = word_of_int (sint i)" by simp
  then have "uint i = take_bit 128 (sint i)"
    using uint_word_of_int_eq [of "sint i", where 'a = 128] by simp
  also have "\<dots> = sint i" using pos hi by (simp add: take_bit_int_eq_self_iff)
  finally show ?thesis by (metis nat_uint_eq)
qed

text \<open>Printing a signed 128-bit number into a buffer of at least 41 bytes writes a minus sign
  exactly for the negative ones and the digits of the magnitude, the least number included.\<close>

theorem formati128_correct:
  assumes "41 \<le> sz"
  shows "fst (formati128 i sz) =
    (if sint i < 0 then CHR ''-'' # showu (nat (- sint i)) else showu (nat (sint i)))
    \<and> snd (formati128 i sz) = length (fst (formati128 i sz))"
proof (cases "sint i < 0")
  case True
  have "(push_bit 127 1 + push_bit 127 1 :: u128) = 0" by simp
  then have least: "- (push_bit 127 1 :: u128) = push_bit 127 1" by (rule minus_unique)
  have "(if i = push_bit 127 1 then formatu128 (push_bit 127 1) (sz - 1) else formatu128 (- i) (sz - 1)) = formatu128 (- i) (sz - 1)"
    using least by (cases "i = push_bit 127 1") (simp_all only: if_cancel if_False)
  with True assms neg_word_value [OF True] formatu128_showu [of "sz - 1" "- i"] show ?thesis
    by (simp add: formati128_def split: prod.splits)
next
  case False
  then have "unat i = nat (sint i)" by (rule nonneg_word_value)
  with False assms formatu128_showu [of sz i] show ?thesis by (simp add: formati128_def)
qed

theorem formati128_correct_witness:
  "fst (formati128 (- 12) 64) = ''-12''"
proof -
  have s: "sint (- 12 :: u128) = - 12" by simp
  have "showu 12 = ''12''" by (simp add: showu_big showu_small digit_char_eval)
  with formati128_correct [of 64 "- 12"] s show ?thesis by simp
qed

section \<open>Binary search\<close>

text \<open>What a search in an array has to return: an index where the comparison is zero, or -1 when
  there is none.\<close>

definition search_result :: "('a \<Rightarrow> 'b \<Rightarrow> int) \<Rightarrow> 'a \<Rightarrow> 'b list \<Rightarrow> int \<Rightarrow> bool" where
  "search_result compare x arr r \<longleftrightarrow>
     (if r = - 1 then list_all (\<lambda>y. compare x y \<noteq> 0) arr
      else 0 \<le> r \<and> nat r < length arr \<and> compare x (arr ! nat r) = 0)"

context comparator
begin

lemma binarySearchLoop_correct:
  assumes sorted: "sorted_wrt (\<lambda>a b. cmp a b \<le> 0) arr"
  shows "0 \<le> lower \<Longrightarrow> upper < int (length arr) \<Longrightarrow>
    (\<And>k. k < length arr \<Longrightarrow> cmp x (arr ! k) = 0 \<Longrightarrow> lower \<le> int k \<and> int k \<le> upper) \<Longrightarrow>
    search_result cmp x arr (binarySearchLoop cmp x arr lower upper)"
proof (induction "nat (upper - lower + 1)" arbitrary: lower upper rule: less_induct)
  case less
  show ?case
  proof (cases "lower \<le> upper")
    case False
    then have "list_all (\<lambda>y. cmp x y \<noteq> 0) arr" using less.prems(3) by (fastforce simp: list_all_length)
    with False show ?thesis by (simp add: binarySearchLoop.simps [of _ _ _ lower] search_result_def)
  next
    case True
    define mid where "mid = lower + (upper - lower) div 2"
    have mid: "lower \<le> mid" "mid \<le> upper" "0 \<le> mid" "nat mid < length arr"
      using True less.prems(1,2) by (auto simp: mid_def)
    have le: "cmp (arr ! i) (arr ! j) \<le> 0" if "i < j" "j < length arr" for i j
      using sorted_wrt_nth_less [OF sorted that] .
    have step: "binarySearchLoop cmp x arr lower upper =
        (if cmp x (arr ! nat mid) = 0 then mid
         else if cmp x (arr ! nat mid) > 0 then binarySearchLoop cmp x arr (mid + 1) upper
         else binarySearchLoop cmp x arr lower (mid - 1))"
      using True by (subst binarySearchLoop.simps) (simp add: mid_def Let_def)
    consider "cmp x (arr ! nat mid) = 0" | "cmp x (arr ! nat mid) > 0" | "cmp x (arr ! nat mid) < 0" by linarith
    then show ?thesis
    proof cases
      case 1
      with step mid show ?thesis by (simp add: search_result_def)
    next
      case 2
      have "mid + 1 \<le> int k" if "k < length arr" "cmp x (arr ! k) = 0" for k
      proof (rule ccontr)
        assume "\<not> ?thesis"
        then have "k < nat mid \<or> k = nat mid" using mid by linarith
        then have "cmp (arr ! k) (arr ! nat mid) \<le> 0" using le mid self by fastforce
        then have "cmp x (arr ! nat mid) \<le> 0" using trans [of x "arr ! k"] that by simp
        with 2 show False by simp
      qed
      with less.hyps [of upper "mid + 1"] less.prems mid step 2 show ?thesis by auto
    next
      case 3
      have "int k \<le> mid - 1" if "k < length arr" "cmp x (arr ! k) = 0" for k
      proof (rule ccontr)
        assume "\<not> ?thesis"
        then have "nat mid < k \<or> k = nat mid" using mid by linarith
        then have "cmp (arr ! nat mid) (arr ! k) \<le> 0" using le that self by fastforce
        moreover have "cmp (arr ! k) x \<le> 0" using neg [of x "arr ! k"] that by simp
        ultimately have "cmp (arr ! nat mid) x \<le> 0" using trans by blast
        with 3 neg [of x "arr ! nat mid"] show False by simp
      qed
      with less.hyps [of "mid - 1" lower] less.prems mid step 3 show ?thesis by auto
    qed
  qed
qed

lemma binarySearch_sorted:
  "sorted_wrt (\<lambda>a b. cmp a b \<le> 0) arr \<Longrightarrow> search_result cmp x arr (binarySearch cmp x arr)"
  unfolding binarySearch_def by (rule binarySearchLoop_correct) auto

end

interpretation compare_strings: comparator compareStrings
  unfolding compareStrings_def by (rule strcmp.comparator_axioms)

text \<open>Binary search over sorted strings ends and returns an index of the string sought, or -1
  exactly when the array does not contain it.\<close>

theorem binarySearch_strings:
  assumes "sorted_wrt (\<lambda>a b. compareStrings a b \<le> 0) arr"
  shows "if x \<in> set arr then 0 \<le> binarySearch compareStrings x arr \<and>
      nat (binarySearch compareStrings x arr) < length arr \<and> arr ! nat (binarySearch compareStrings x arr) = x
    else binarySearch compareStrings x arr = - 1"
  using compare_strings.binarySearch_sorted [OF assms, of x]
  by (auto simp: search_result_def list_all_iff compareStrings_def strcmp_eq_0 split: if_splits) (metis nth_mem)

theorem binarySearch_strings_witness:
  "nat (binarySearch compareStrings ''for'' [''case'', ''for'', ''while'']) < 3
    \<and> [''case'', ''for'', ''while''] ! nat (binarySearch compareStrings ''for'' [''case'', ''for'', ''while'']) = ''for''"
proof -
  have "sorted_wrt (\<lambda>a b. compareStrings a b \<le> 0) [''case'', ''for'', ''while'']" by (simp add: compareStrings_def)
  from binarySearch_strings [OF this, of "''for''"] show ?thesis by simp
qed

end
