(* ===== verification/Cxy_Chars.thy ===== *)
theory Cxy_Chars
  imports Cxy_Numbers
begin

text \<open>
  Characters and escape sequences of \<open>core/utils.c\<close> and \<open>core/sb.c\<close>: UTF-8 encoding
  (\<open>wcharToStr\<close>) and decoding (\<open>convertStrToUtf32\<close>), the reader of escape sequences
  (\<open>convertEscapeSeq\<close>, \<open>readChar\<close>) and \<open>escapeString\<close>. A failed assertion, which
  aborts the program, is \<open>None\<close>. Reading past the given length reads the characters that
  follow, and NUL at the end of the string.
\<close>

text \<open>A byte as an unsigned number, and the conversion of a number to \<open>char\<close>, which keeps the
  low eight bits.\<close>

definition byteOf :: "char \<Rightarrow> u32" where
  "byteOf c = of_nat (code c)"

definition toByte :: "u32 \<Rightarrow> char" where
  "toByte x = char_of (unat x)"

section \<open>UTF-8\<close>

definition wcharToStr :: "u32 \<Rightarrow> cstring option" where
  "wcharToStr chr =
     (if chr < 0x80 then Some [toByte chr]
      else if chr < 0x800
      then Some [toByte (0xC0 OR drop_bit 6 chr), toByte (0x80 OR (chr AND 0x3F))]
      else if chr < 0x10000
      then Some [toByte (0xE0 OR drop_bit 12 chr), toByte (0x80 OR (drop_bit 6 chr AND 0x3F)),
                 toByte (0x80 OR (chr AND 0x3F))]
      else if chr < 0x200000
      then Some [toByte (0xF0 OR drop_bit 18 chr), toByte (0x80 OR (drop_bit 12 chr AND 0x3F)),
                 toByte (0x80 OR (drop_bit 6 chr AND 0x3F)), toByte (0x80 OR (chr AND 0x3F))]
      else None)"

text \<open>The number of leading one bits of a byte, despite the name.\<close>

fun clzLoop :: "char \<Rightarrow> nat \<Rightarrow> nat" where
  "clzLoop c 0 = 8"
| "clzLoop c (Suc i) = (if \<not> bit (byteOf c) i then 7 - i else clzLoop c i)"

definition countLeadingZeros :: "char \<Rightarrow> nat" where
  "countLeadingZeros c = clzLoop c 8"

definition at :: "cstring \<Rightarrow> nat \<Rightarrow> char" where
  "at s i = cur (drop i s)"

text \<open>The length and the code point.\<close>

definition convertStrToUtf32 :: "cstring \<Rightarrow> nat \<Rightarrow> (nat \<times> u32) option" where
  "convertStrToUtf32 s count =
     (let len = countLeadingZeros (at s 0); b = (\<lambda>i. byteOf (at s i))
      in if len = 0 then Some (1, b 0)
         else if \<not> count \<le> len then None
         else if len = 2 then Some (2, push_bit 6 (b 0 AND 0x1F) OR (b 1 AND 0x3F))
         else if len = 3
         then Some (3, push_bit 12 (b 0 AND 0xF) OR push_bit 6 (b 1 AND 0x3F) OR (b 2 AND 0x3F))
         else if len = 4
         then Some (4, push_bit 18 (b 0 AND 0x7) OR push_bit 12 (b 1 AND 0x3F) OR push_bit 6 (b 2 AND 0x3F) OR (b 3 AND 0x3F))
         else None)"

section \<open>Escape sequences\<close>

definition isodigit :: "char \<Rightarrow> bool" where
  "isodigit c = in_range CHR ''0'' CHR ''7'' c"

text \<open>\<open>strtoul\<close> of the C library for bases 8, 10 and 16 on a 64-bit \<open>unsigned long\<close>: the
  value, the number of characters consumed and whether the range was exceeded.\<close>

definition strtoul :: "cstring \<Rightarrow> nat \<Rightarrow> u64 \<times> nat \<times> bool" where
  "strtoul str base =
     (let s = dropWhile isspace str;
          negative = (cur s = CHR ''-'');
          s = (if cur s = CHR ''-'' \<or> cur s = CHR ''+'' then tl s else s);
          s = (if base = 16 \<and> cur s = CHR ''0'' \<and> (at s 1 = CHR ''x'' \<or> at s 1 = CHR ''X'') \<and> isxdigit (at s 2)
               then drop 2 s else s);
          ds = takeWhile (digit_in base) s; v = digits_val base 0 ds
      in if ds = [] then (0, 0, False)
         else if v \<ge> 2 ^ 64 then (- 1, length str - length s + length ds, True)
         else (if negative then - of_nat v else of_nat v, length str - length s + length ds, False))"

text \<open>The number of characters consumed and the character.\<close>

definition convertStrToCharOrd :: "cstring \<Rightarrow> nat \<Rightarrow> nat \<times> u32" where
  "convertStrToCharOrd ptr base =
     (case strtoul ptr base of (v, consumed, erange) \<Rightarrow>
        let ord = (ucast v :: u32) in (if ord \<le> 255 \<and> \<not> erange then consumed else 0, ord))"

definition hexVal :: "char \<Rightarrow> u32" where
  "hexVal c =
     (if in_range CHR ''0'' CHR ''9'' c then of_nat (code c - code CHR ''0'')
      else if in_range CHR ''a'' CHR ''f'' c then of_nat (code c - code CHR ''a'' + 10)
      else if in_range CHR ''A'' CHR ''F'' c then of_nat (code c - code CHR ''A'' + 10)
      else 0)"

text \<open>The loop over the hexadecimal digits: whether it met another character, and the result.\<close>

fun unicodeLoop :: "cstring \<Rightarrow> nat \<Rightarrow> nat \<Rightarrow> u32 \<Rightarrow> bool \<times> u32" where
  "unicodeLoop ptr i 0 res = (True, res)"
| "unicodeLoop ptr i (Suc k) res =
     (let c = at ptr (2 + i)
      in if \<not> isxdigit c then (False, res) else unicodeLoop ptr (Suc i) k (push_bit 4 res + hexVal c))"

text \<open>The number of characters consumed (0 is an error) and the value left in \<open>res\<close>.\<close>

definition parseUnicodeEscape :: "cstring \<Rightarrow> nat \<Rightarrow> nat \<Rightarrow> u32 \<Rightarrow> nat \<times> u32" where
  "parseUnicodeEscape ptr n digits res =
     (if n < digits + 2 then (0, res)
      else case unicodeLoop ptr 0 digits 0 of (ok, res) \<Rightarrow>
             if \<not> ok then (0, res)
             else if res > 0x10FFFF \<or> res \<ge> 0xD800 \<and> res \<le> 0xDFFF then (0, res)
             else (2 + digits, res))"

definition simpleEscapes :: "(char \<times> char) list" where
  "simpleEscapes =
     [(CHR ''n'', CHR 0x0A), (CHR ''t'', CHR 0x09), (CHR ''v'', CHR 0x0B), (CHR ''r'', CHR 0x0D),
      (CHR ''a'', CHR 0x07), (CHR ''b'', CHR 0x08), (CHR ''f'', CHR 0x0C), (CHR ''$'', CHR ''$''),
      (CHR 0x22, CHR 0x22), (CHR 0x27, CHR 0x27), (CHR 0x5C, CHR 0x5C)]"

definition convertEscapeSeq :: "cstring \<Rightarrow> nat \<Rightarrow> u32 \<Rightarrow> (nat \<times> u32) option" where
  "convertEscapeSeq ptr n res =
     (if n = 0 then Some (0, res)
      else if at ptr 0 = CHR 0x5C
      then if n \<le> 1 then Some (0, res)
           else case map_of simpleEscapes (at ptr 1) of
                  Some c \<Rightarrow> Some (2, byteOf c)
                | None \<Rightarrow>
                    if at ptr 1 = CHR ''x''
                    then if n \<le> 2 then Some (0, res)
                         else (case convertStrToCharOrd (drop 2 ptr) 16 of (k, res) \<Rightarrow> Some (2 + k, res))
                    else if at ptr 1 = CHR ''0''
                    then if \<not> isodigit (at ptr 2) \<or> \<not> isodigit (at ptr 3) then Some (2, 0)
                         else (case convertStrToCharOrd (drop 1 ptr) 8 of (k, res) \<Rightarrow> Some (1 + k, res))
                    else if at ptr 1 = CHR ''u''
                    then Some (if n < 6 then (0, res) else parseUnicodeEscape ptr n 4 res)
                    else if at ptr 1 = CHR ''U''
                    then Some (if n < 10 then (0, res) else parseUnicodeEscape ptr n 8 res)
                    else if isdigit (at ptr 1)
                    then (case convertStrToCharOrd (drop 1 ptr) 8 of (k, res) \<Rightarrow> Some (1 + k, res))
                    else Some (0, res)
      else if byteOf (at ptr 0) \<ge> 0x80 then convertStrToUtf32 ptr n
      else Some (1, byteOf (at ptr 0)))"

definition readChar :: "cstring \<Rightarrow> nat \<Rightarrow> u32 \<Rightarrow> (nat \<times> u32) option" where
  "readChar str len res =
     (if byteOf (at str 0) \<ge> 0x80
      then let tmp = countLeadingZeros (at str 0)
           in if \<not> tmp \<le> len then None else convertEscapeSeq str tmp res
      else convertEscapeSeq str len res)"

text \<open>The loop of \<open>escapeString\<close> over the \<open>n\<close> characters of the argument, of which \<open>s\<close> are
  left; \<open>after\<close> is the character that follows them. The case for \<open>0\<close> falls through to
  the one for the backslash when a digit follows.\<close>

fun escapeLoop :: "char \<Rightarrow> cstring \<Rightarrow> cstring" where
  "escapeLoop after [] = []"
| "escapeLoop after (c # s) =
     (if c \<noteq> CHR 0x5C then c # escapeLoop after s
      else case s of
             [] \<Rightarrow> []
           | e # t \<Rightarrow>
               if e = CHR ''n'' then CHR 0x0A # escapeLoop after t
               else if e = CHR ''t'' then CHR 0x09 # escapeLoop after t
               else if e = CHR ''v'' then CHR 0x0B # escapeLoop after t
               else if e = CHR ''r'' then CHR 0x0D # escapeLoop after t
               else if e = CHR ''a'' then CHR 0x07 # escapeLoop after t
               else if e = CHR ''b'' then CHR 0x08 # escapeLoop after t
               else if e = CHR ''$'' then CHR ''$'' # escapeLoop after t
               else if e = CHR 0x22 then CHR 0x22 # escapeLoop after t
               else if e = CHR ''0'' \<and> \<not> isdigit (case t of [] \<Rightarrow> after | d # _ \<Rightarrow> d) then nul # escapeLoop after t
               else if e = CHR ''0'' \<or> e = CHR 0x5C then CHR 0x5C # escapeLoop after t
               else CHR 0x5C # escapeLoop after s)"

text \<open>The bytes written to the destination, the terminator included, and the returned length.\<close>

definition escapeString :: "cstring \<Rightarrow> nat \<Rightarrow> nat \<Rightarrow> (cstring \<times> nat) option" where
  "escapeString str n dst_size =
     (if \<not> dst_size \<ge> n then None
      else let out = escapeLoop (at str n) (take n str) in Some (out @ [nul], length out))"

section \<open>Encoding and decoding\<close>

lemma byteOf_toByte: "byteOf (toByte x) = take_bit 8 x"
proof -
  have "code (toByte x) = unat x mod 256" by (simp add: toByte_def)
  then have "unat (byteOf (toByte x)) = unat x mod 256" by (simp add: byteOf_def unat_of_nat)
  moreover have "unat (take_bit 8 x) = unat x mod 256" by (simp add: take_bit_eq_mod unat_mod)
  ultimately show ?thesis by (simp add: word_unat_eq_iff)
qed

lemma bit_byteOf_toByte: "bit (byteOf (toByte x)) i \<longleftrightarrow> i < 8 \<and> bit x i"
  by (simp add: byteOf_toByte bit_take_bit_iff)

lemma bit_below: "w < 2 ^ k \<Longrightarrow> k < 32 \<Longrightarrow> bit (w :: u32) n \<Longrightarrow> n < k"
proof -
  assume a: "w < 2 ^ k" "k < 32" "bit w n"
  moreover from a(2) have "(2 :: nat) ^ k < 2 ^ 32" by (intro power_strict_increasing) auto
  then have "unat (of_nat (2 ^ k) :: u32) = 2 ^ k" unfolding unat_of_nat by simp
  then have "unat (2 ^ k :: u32) = 2 ^ k" by simp
  ultimately have "unat w < 2 ^ k" by (simp add: word_less_nat_alt)
  then have "take_bit k w = w" by (simp add: word_unat_eq_iff unsigned_take_bit_eq take_bit_nat_eq_self)
  with a(3) show "n < k" by (metis bit_take_bit_iff)
qed

text \<open>The constants of the encoding as shifted masks.\<close>

lemma utf8_masks:
  "(0xC0 :: u32) = push_bit 6 (mask 2)" "(0xE0 :: u32) = push_bit 5 (mask 3)" "(0xF0 :: u32) = push_bit 4 (mask 4)"
  "(0x80 :: u32) = push_bit 7 (mask 1)" "(0x3F :: u32) = mask 6" "(0x1F :: u32) = mask 5" "(0xF :: u32) = mask 4"
  "(0x7 :: u32) = mask 3"
  by (simp_all add: mask_eq_exp_minus_1 push_bit_eq_mult)

lemmas utf8_bits = bit_byteOf_toByte bit_or_iff bit_and_iff bit_push_bit_iff bit_drop_bit_eq bit_mask_iff bit_take_bit_iff

lemma clz_bits:
  assumes "bit (byteOf c) 7" "bit (byteOf c) 6"
  shows "\<not> bit (byteOf c) 5 \<Longrightarrow> countLeadingZeros c = 2"
    "bit (byteOf c) 5 \<Longrightarrow> \<not> bit (byteOf c) 4 \<Longrightarrow> countLeadingZeros c = 3"
    "bit (byteOf c) 5 \<Longrightarrow> bit (byteOf c) 4 \<Longrightarrow> \<not> bit (byteOf c) 3 \<Longrightarrow> countLeadingZeros c = 4"
  using assms by (simp_all add: countLeadingZeros_def numeral_eq_Suc)

lemma byte_high: "bit (byteOf c) 7 \<Longrightarrow> byteOf c \<ge> 0x80"
proof (rule ccontr)
  assume "bit (byteOf c) 7" "\<not> byteOf c \<ge> 0x80"
  with bit_below [of "byteOf c" 7 7] show False by (simp add: not_le)
qed

lemma at_simps [simp]: "at (c # s) 0 = c" "at (c # s) (Suc i) = at s i"
  by (simp_all add: at_def)

lemma decode2:
  assumes "w < 0x800" "\<not> w < 0x80"
  shows "readChar (toByte (0xC0 OR drop_bit 6 w) # toByte (0x80 OR (w AND 0x3F)) # rest) (2 + k) res = Some (2, w)"
proof -
  let ?c = "toByte (0xC0 OR drop_bit 6 w)" and ?d = "toByte (0x80 OR (w AND 0x3F))"
  have hi: "bit w n \<Longrightarrow> n < 11" for n using bit_below [of w 11 n] assms by simp
  have b: "bit (byteOf ?c) 7" "bit (byteOf ?c) 6" "\<not> bit (byteOf ?c) 5"
    using hi [of 11] unfolding utf8_masks utf8_bits by auto
  have clz: "countLeadingZeros ?c = 2" using clz_bits(1) [OF b] .
  have "push_bit 6 (byteOf ?c AND 0x1F) OR (byteOf ?d AND 0x3F) = w"
  proof (rule bit_word_eqI)
    fix n
    assume "n < LENGTH(32)"
    consider "n < 6" | "6 \<le> n" "n < 11" | "11 \<le> n" by linarith
    then show "bit (push_bit 6 (byteOf ?c AND 0x1F) OR (byteOf ?d AND 0x3F)) n \<longleftrightarrow> bit w n"
    proof cases
      case 1
      then show ?thesis unfolding utf8_masks utf8_bits by auto
    next
      case 2
      then show ?thesis using \<open>n < LENGTH(32)\<close> unfolding utf8_masks utf8_bits by auto
    next
      case 3
      then show ?thesis using hi [of n] unfolding utf8_masks utf8_bits by auto
    qed
  qed
  moreover have "?c \<noteq> CHR 0x5C" using b by (auto simp: byteOf_def)
  ultimately show ?thesis
    using byte_high [OF b(1)] clz by (simp add: readChar_def convertEscapeSeq_def convertStrToUtf32_def)
qed

lemma decode3:
  assumes "w < 0x10000"
  shows "readChar (toByte (0xE0 OR drop_bit 12 w) # toByte (0x80 OR (drop_bit 6 w AND 0x3F)) #
    toByte (0x80 OR (w AND 0x3F)) # rest) (3 + k) res = Some (3, w)"
proof -
  let ?c = "toByte (0xE0 OR drop_bit 12 w)" and ?d = "toByte (0x80 OR (drop_bit 6 w AND 0x3F))"
    and ?e = "toByte (0x80 OR (w AND 0x3F))"
  have hi: "bit w n \<Longrightarrow> n < 16" for n using bit_below [of w 16 n] assms by simp
  have b: "bit (byteOf ?c) 7" "bit (byteOf ?c) 6" "bit (byteOf ?c) 5" "\<not> bit (byteOf ?c) 4"
    using hi [of 16] unfolding utf8_masks utf8_bits by auto
  have clz: "countLeadingZeros ?c = 3" using clz_bits(2) [OF b] .
  have "push_bit 12 (byteOf ?c AND 0xF) OR push_bit 6 (byteOf ?d AND 0x3F) OR (byteOf ?e AND 0x3F) = w"
  proof (rule bit_word_eqI)
    fix n
    assume n: "n < LENGTH(32)"
    consider "n < 6" | "6 \<le> n" "n < 12" | "12 \<le> n" "n < 16" | "16 \<le> n" by linarith
    then show "bit (push_bit 12 (byteOf ?c AND 0xF) OR push_bit 6 (byteOf ?d AND 0x3F) OR (byteOf ?e AND 0x3F)) n \<longleftrightarrow> bit w n"
      by cases (use n hi [of n] in \<open>unfold utf8_masks utf8_bits, auto\<close>)
  qed
  moreover have "?c \<noteq> CHR 0x5C" using b by (auto simp: byteOf_def)
  ultimately show ?thesis
    using byte_high [OF b(1)] clz
    by (simp add: readChar_def convertEscapeSeq_def convertStrToUtf32_def numeral_2_eq_2 or.assoc)
qed

lemma decode4:
  assumes "w < 0x200000"
  shows "readChar (toByte (0xF0 OR drop_bit 18 w) # toByte (0x80 OR (drop_bit 12 w AND 0x3F)) #
    toByte (0x80 OR (drop_bit 6 w AND 0x3F)) # toByte (0x80 OR (w AND 0x3F)) # rest) (4 + k) res = Some (4, w)"
proof -
  let ?c = "toByte (0xF0 OR drop_bit 18 w)" and ?d = "toByte (0x80 OR (drop_bit 12 w AND 0x3F))"
    and ?e = "toByte (0x80 OR (drop_bit 6 w AND 0x3F))" and ?f = "toByte (0x80 OR (w AND 0x3F))"
  have hi: "bit w n \<Longrightarrow> n < 21" for n using bit_below [of w 21 n] assms by simp
  have b: "bit (byteOf ?c) 7" "bit (byteOf ?c) 6" "bit (byteOf ?c) 5" "bit (byteOf ?c) 4" "\<not> bit (byteOf ?c) 3"
    using hi [of 21] unfolding utf8_masks utf8_bits by auto
  have clz: "countLeadingZeros ?c = 4" using clz_bits(3) [OF b] .
  have "push_bit 18 (byteOf ?c AND 0x7) OR push_bit 12 (byteOf ?d AND 0x3F) OR push_bit 6 (byteOf ?e AND 0x3F)
      OR (byteOf ?f AND 0x3F) = w"
  proof (rule bit_word_eqI)
    fix n
    assume n: "n < LENGTH(32)"
    consider "n < 6" | "6 \<le> n" "n < 12" | "12 \<le> n" "n < 18" | "18 \<le> n" "n < 21" | "21 \<le> n" by linarith
    then show "bit (push_bit 18 (byteOf ?c AND 0x7) OR push_bit 12 (byteOf ?d AND 0x3F) OR push_bit 6 (byteOf ?e AND 0x3F)
        OR (byteOf ?f AND 0x3F)) n \<longleftrightarrow> bit w n"
      by cases (use n hi [of n] in \<open>unfold utf8_masks utf8_bits, auto\<close>)
  qed
  moreover have "?c \<noteq> CHR 0x5C" using b by (auto simp: byteOf_def)
  ultimately show ?thesis
    using byte_high [OF b(1)] clz
    by (simp add: readChar_def convertEscapeSeq_def convertStrToUtf32_def numeral_2_eq_2 numeral_3_eq_3 or.assoc)
qed

text \<open>C38: every code point below 0x200000 except the backslash is encoded by \<open>wcharToStr\<close> as one to
  four bytes from which \<open>readChar\<close>, given at least that many, reads the same code point and
  length, whatever follows.\<close>

theorem utf8_roundtrip:
  assumes "w < 0x200000" "w \<noteq> 0x5C"
  shows "\<exists>bs. wcharToStr w = Some bs \<and> length bs \<in> {1..4} \<and>
    (\<forall>rest k res. readChar (bs @ rest) (length bs + k) res = Some (length bs, w))"
proof -
  consider "w < 0x80" | "\<not> w < 0x80" "w < 0x800" | "\<not> w < 0x800" "w < 0x10000" | "\<not> w < 0x10000" by blast
  then show ?thesis
  proof cases
    case 1
    have b: "byteOf (toByte w) = w" using 1
      by (simp add: byteOf_toByte word_unat_eq_iff unsigned_take_bit_eq take_bit_nat_eq_self word_less_nat_alt)
    then have "toByte w \<noteq> CHR 0x5C" using assms(2) by (auto simp: byteOf_def)
    with 1 b show ?thesis by (auto simp: wcharToStr_def readChar_def convertEscapeSeq_def not_le)
  next
    case 2
    with decode2 [of w] show ?thesis by (auto simp: wcharToStr_def)
  next
    case 3
    then have "\<not> w < 0x80" by (auto simp: word_less_nat_alt)
    with 3 decode3 [of w] show ?thesis by (auto simp: wcharToStr_def eval_nat_numeral)
  next
    case 4
    then have "\<not> w < 0x80" "\<not> w < 0x800" by (auto simp: word_less_nat_alt)
    with 4 assms decode4 [of w] show ?thesis by (auto simp: wcharToStr_def eval_nat_numeral)
  qed
qed

theorem utf8_roundtrip_witness:
  "\<exists>bs. wcharToStr 0x20AC = Some bs \<and> length bs = 3 \<and> readChar (bs @ ''x'') 4 0 = Some (3, 0x20AC)"
proof -
  obtain bs where bs: "wcharToStr 0x20AC = Some bs"
    "\<forall>rest k res. readChar (bs @ rest) (length bs + k) res = Some (length bs, 0x20AC)"
    using utf8_roundtrip [of "0x20AC"] by auto
  then have "length bs = 3" by (auto simp: wcharToStr_def)
  moreover have "readChar (bs @ ''x'') (length bs + 1) 0 = Some (length bs, 0x20AC)" using bs(2) by blast
  ultimately show ?thesis using bs(1) by simp
qed

section \<open>Unescaping\<close>

text \<open>Writing a string with escapes: a backslash and a letter for the characters that have one.\<close>

definition quoteChar :: "char \<Rightarrow> cstring" where
  "quoteChar c =
     (if c = CHR 0x0A then [CHR 0x5C, CHR ''n''] else if c = CHR 0x09 then [CHR 0x5C, CHR ''t'']
      else if c = CHR 0x0B then [CHR 0x5C, CHR ''v''] else if c = CHR 0x0D then [CHR 0x5C, CHR ''r'']
      else if c = CHR 0x07 then [CHR 0x5C, CHR ''a''] else if c = CHR 0x08 then [CHR 0x5C, CHR ''b'']
      else if c = CHR ''$'' then [CHR 0x5C, CHR ''$''] else if c = CHR 0x22 then [CHR 0x5C, CHR 0x22]
      else if c = CHR 0x5C then [CHR 0x5C, CHR 0x5C] else [c])"

lemma escapeLoop_quote: "escapeLoop after (quoteChar c @ s) = c # escapeLoop after s"
  by (simp add: quoteChar_def)

lemma escapeLoop_backslash:
  "(\<exists>x. escapeLoop after (CHR 0x5C # e # t) = x # escapeLoop after t) \<or>
   escapeLoop after (CHR 0x5C # e # t) = CHR 0x5C # escapeLoop after (e # t)"
  unfolding escapeLoop.simps(2) [of after "CHR 0x5C"] by simp

lemma escapeLoop_length: "length (escapeLoop after s) \<le> length s"
proof (induction s rule: length_induct)
  case (1 s)
  show ?case
  proof (cases s)
    case (Cons c t)
    show ?thesis
    proof (cases "c = CHR 0x5C \<and> t \<noteq> []")
      case True
      then obtain e u where t: "t = e # u" by (cases t) auto
      from 1 [rule_format, of u] 1 [rule_format, of "e # u"] Cons t
      have "length (escapeLoop after u) \<le> length u" "length (escapeLoop after (e # u)) \<le> length (e # u)"
        by (simp_all del: escapeLoop.simps)
      with escapeLoop_backslash [of after e u] Cons t True show ?thesis by (auto simp del: escapeLoop.simps)
    next
      case False
      with 1 Cons show ?thesis by auto
    qed
  qed simp
qed

text \<open>Unescaping a string in which newlines, tabs, quotes, dollar signs, backslashes and the
  other characters with a letter escape were escaped gives the string back, and for every
  argument the result with its terminator fits one byte more than the argument's length.\<close>

theorem escapeString_roundtrip:
  "escapeString (concat (map quoteChar s)) (length (concat (map quoteChar s))) (length (concat (map quoteChar s)))
     = Some (s @ [nul], length s)
   \<and> (case escapeString str n n of None \<Rightarrow> False | Some (bytes, len) \<Rightarrow> length bytes \<le> n + 1 \<and> len + 1 = length bytes)"
proof -
  have "escapeLoop after (concat (map quoteChar s)) = s" for after
    by (induction s) (simp_all add: escapeLoop_quote)
  moreover have "length (escapeLoop after (take n str)) \<le> n" for after
    using escapeLoop_length [of after "take n str"] by simp
  ultimately show ?thesis by (simp add: escapeString_def Let_def)
qed

text \<open>A backslash and a zero before a digit is not unescaped as an octal escape, nor kept: the
  case for the zero falls through to the one for the backslash, which writes a backslash and
  drops the zero.\<close>

theorem escapeString_zero_digit_drops:
  "escapeString [CHR 0x5C, CHR ''0'', CHR ''1'', CHR ''2''] 4 4 = Some ([CHR 0x5C, CHR ''1'', CHR ''2'', nul], 3)"
  by (simp add: escapeString_def ctype_defs)

end
