(* ===== verification/Cxy_Buffers.thy ===== *)
theory Cxy_Buffers
  imports Cxy_Chars
begin

text \<open>
  The growable buffers of the compiler: the dynamic array of \<open>core/array.c\<close> and the string
  builder of \<open>core/sb.c\<close>, \<open>core/sb.h\<close>. Memory obtained from the allocator is a list whose
  cells hold \<open>None\<close> until they are written; an allocation that fails ends the program
  (\<open>mallocOrDie\<close>) and is not modelled. Both buffers provide the same interface, a contents
  to which something is appended, which is a locale here.
\<close>

definition realloc :: "'a option list \<Rightarrow> nat \<Rightarrow> 'a option list" where
  "realloc mem n = take n (mem @ replicate n None)"

lemma length_realloc [simp]: "length (realloc mem n) = n"
  by (simp add: realloc_def)

lemma take_realloc: "k \<le> n \<Longrightarrow> k \<le> length mem \<Longrightarrow> take k (realloc mem n) = take k mem"
  by (simp add: realloc_def min_def)

section \<open>The interface\<close>

fun addAll :: "('s \<Rightarrow> 'x \<Rightarrow> 's option) \<Rightarrow> 's \<Rightarrow> 'x list \<Rightarrow> 's option" where
  "addAll add s [] = Some s"
| "addAll add s (x # xs) = (case add s x of None \<Rightarrow> None | Some s \<Rightarrow> addAll add s xs)"

locale appendable =
  fixes inv :: "'s \<Rightarrow> bool"
    and contents :: "'s \<Rightarrow> 'c list"
    and add :: "'s \<Rightarrow> 'x \<Rightarrow> 's option"
    and enc :: "'x \<Rightarrow> 'c list"
  assumes add_ok: "inv s \<Longrightarrow> \<exists>s'. add s x = Some s' \<and> inv s' \<and> contents s' = contents s @ enc x"
begin

lemma addAll_ok:
  "inv s \<Longrightarrow> \<exists>s'. addAll add s xs = Some s' \<and> inv s' \<and> contents s' = contents s @ concat (map enc xs)"
proof (induction xs arbitrary: s)
  case (Cons x xs)
  from add_ok [OF Cons.prems, of x] obtain s1 where s1: "add s x = Some s1" "inv s1" "contents s1 = contents s @ enc x"
    by blast
  from Cons.IH [OF s1(2)] s1 show ?case by auto
qed simp

end

section \<open>Dynamic arrays\<close>

record 'a DynArray =
  da_size :: nat
  da_capacity :: nat
  da_elems :: "'a option list"

definition DEFAULT_CAPACITY :: nat where
  "DEFAULT_CAPACITY = 4"

definition newDynArrayWithCapacity :: "nat \<Rightarrow> 'a DynArray" where
  "newDynArrayWithCapacity capacity = \<lparr>da_size = 0, da_capacity = capacity, da_elems = replicate capacity None\<rparr>"

definition newDynArray :: "'a DynArray" where
  "newDynArray = newDynArrayWithCapacity DEFAULT_CAPACITY"

definition newDynArrayWithSize :: "nat \<Rightarrow> 'a DynArray" where
  "newDynArrayWithSize sz = (newDynArrayWithCapacity sz)\<lparr>da_size := sz\<rparr>"

definition newDynArrayFromDataExplicit :: "'a list \<Rightarrow> 'a DynArray" where
  "newDynArrayFromDataExplicit data = (newDynArrayWithSize (length data))\<lparr>da_elems := map Some data\<rparr>"

definition growDynArray :: "'a DynArray \<Rightarrow> nat \<Rightarrow> 'a DynArray" where
  "growDynArray array capacity =
     (let double_capacity = da_capacity array * 2;
          capacity = (if double_capacity > capacity then double_capacity else capacity)
      in array\<lparr>da_capacity := capacity, da_elems := realloc (da_elems array) capacity\<rparr>)"

text \<open>The array and the index of the returned pointer, which is behind the new element.\<close>

definition pushOnDynArrayExplicit :: "'a DynArray \<Rightarrow> 'a \<Rightarrow> 'a DynArray \<times> nat" where
  "pushOnDynArrayExplicit array elem =
     (let array = (if da_size array \<ge> da_capacity array then growDynArray array (da_size array + 1) else array);
          array = array\<lparr>da_elems := (da_elems array)[da_size array := Some elem]\<rparr>;
          array = array\<lparr>da_size := da_size array + 1\<rparr>
      in (array, da_size array))"

text \<open>The loop reads the elements of another array, whose cells below its size are written.\<close>

definition copyDynArray :: "'a DynArray \<Rightarrow> 'a DynArray \<Rightarrow> 'a DynArray" where
  "copyDynArray dst src =
     (if da_size src = 0 then dst
      else fold (\<lambda>i dst. fst (pushOnDynArrayExplicit dst (the (da_elems src ! i)))) [0..<da_size src] dst)"

definition popDynArray :: "'a DynArray \<Rightarrow> 'a option option \<times> 'a DynArray" where
  "popDynArray arr =
     (if da_size arr > 0
      then let arr = arr\<lparr>da_size := da_size arr - 1\<rparr> in (Some (da_elems arr ! da_size arr), arr)
      else (None, arr))"

definition resizeDynArrayExplicit :: "'a DynArray \<Rightarrow> nat \<Rightarrow> 'a DynArray" where
  "resizeDynArrayExplicit array sz =
     (let array = (if sz > da_capacity array then growDynArray array sz else array)
      in array\<lparr>da_size := sz\<rparr>)"

definition clearDynArray :: "'a DynArray \<Rightarrow> 'a DynArray" where
  "clearDynArray array = array\<lparr>da_size := 0\<rparr>"

definition freeDynArray :: "'a DynArray \<Rightarrow> 'a DynArray" where
  "freeDynArray array = \<lparr>da_size = 0, da_capacity = 0, da_elems = []\<rparr>"

definition da_inv :: "'a DynArray \<Rightarrow> bool" where
  "da_inv a \<longleftrightarrow> length (da_elems a) = da_capacity a \<and> da_size a \<le> da_capacity a"

definition da_contents :: "'a DynArray \<Rightarrow> 'a option list" where
  "da_contents a = take (da_size a) (da_elems a)"

lemma growDynArray_ok:
  assumes "da_inv a" "da_size a \<le> n"
  shows "da_inv (growDynArray a n)" "n \<le> da_capacity (growDynArray a n)"
    "da_contents (growDynArray a n) = da_contents a" "da_size (growDynArray a n) = da_size a"
  using assms by (auto simp: growDynArray_def da_inv_def da_contents_def Let_def take_realloc)

lemma push_ok:
  assumes "da_inv a"
  shows "da_inv (fst (pushOnDynArrayExplicit a x))"
    "da_contents (fst (pushOnDynArrayExplicit a x)) = da_contents a @ [Some x]"
    "snd (pushOnDynArrayExplicit a x) = da_size a + 1" "da_size (fst (pushOnDynArrayExplicit a x)) = da_size a + 1"
proof -
  define b where "b = (if da_size a \<ge> da_capacity a then growDynArray a (da_size a + 1) else a)"
  have b: "da_inv b" "da_size b < da_capacity b" "da_contents b = da_contents a" "da_size b = da_size a"
    using assms growDynArray_ok [of a "da_size a + 1"] by (auto simp: b_def)
  have push: "pushOnDynArrayExplicit a x = (b\<lparr>da_elems := (da_elems b)[da_size b := Some x], da_size := da_size b + 1\<rparr>, da_size b + 1)"
    by (simp add: pushOnDynArrayExplicit_def b_def Let_def)
  show "da_inv (fst (pushOnDynArrayExplicit a x))" using b by (simp add: push da_inv_def)
  have "take (Suc (da_size b)) ((da_elems b)[da_size b := Some x]) = take (da_size b) (da_elems b) @ [Some x]"
    using b by (simp add: take_Suc_conv_app_nth da_inv_def)
  then show "da_contents (fst (pushOnDynArrayExplicit a x)) = da_contents a @ [Some x]"
    using b(3) by (simp add: push da_contents_def)
  show "snd (pushOnDynArrayExplicit a x) = da_size a + 1" "da_size (fst (pushOnDynArrayExplicit a x)) = da_size a + 1"
    using b by (simp_all add: push)
qed

interpretation da: appendable da_inv da_contents "\<lambda>a x. Some (fst (pushOnDynArrayExplicit a x))" "\<lambda>x. [Some x]"
  by unfold_locales (simp add: push_ok)

section \<open>The string builder\<close>

record StringBuilder =
  sb_capacity :: nat
  sb_size :: nat
  sb_data :: "char option list option"

definition sb_DEFAULT_CAPACITY :: nat where
  "sb_DEFAULT_CAPACITY = 32"

text \<open>The doubling loop, which does not end for a capacity of zero.\<close>

partial_function (option) growLoop :: "nat \<Rightarrow> nat \<Rightarrow> nat option" where
  "growLoop capacity need = (if capacity < need then growLoop (capacity * 2) need else Some capacity)"

definition stringBuilderGrow :: "StringBuilder \<Rightarrow> nat \<Rightarrow> StringBuilder option" where
  "stringBuilderGrow sb sz =
     (case sb_data sb of
        None \<Rightarrow> Some (sb\<lparr>sb_data := Some (replicate (sz + 1) None), sb_capacity := sz\<rparr>)
      | Some data \<Rightarrow>
          if sz > sb_capacity sb - sb_size sb
          then (case growLoop (sb_capacity sb) (sb_size sb + sz) of
                  None \<Rightarrow> None
                | Some capacity \<Rightarrow> Some (sb\<lparr>sb_capacity := capacity, sb_data := Some (realloc data (capacity + 1))\<rparr>))
          else Some sb)"

definition stringBuilderInit :: "StringBuilder \<Rightarrow> StringBuilder option" where
  "stringBuilderInit sb = stringBuilderGrow sb sb_DEFAULT_CAPACITY"

definition emptyBuilder :: StringBuilder where
  "emptyBuilder = \<lparr>sb_capacity = 0, sb_size = 0, sb_data = None\<rparr>"

definition stringBuilderNew :: "StringBuilder option" where
  "stringBuilderNew = stringBuilderInit emptyBuilder"

definition stringBuilderDeinit :: "StringBuilder \<Rightarrow> StringBuilder" where
  "stringBuilderDeinit sb = emptyBuilder"

text \<open>\<open>memmove\<close> of a text to an offset of the memory.\<close>

definition memmove :: "char option list \<Rightarrow> nat \<Rightarrow> cstring \<Rightarrow> char option list" where
  "memmove mem off cstr = take off mem @ map Some cstr @ drop (off + length cstr) mem"

definition stringBuilderAppendCstr0 :: "StringBuilder \<Rightarrow> cstring \<Rightarrow> StringBuilder option" where
  "stringBuilderAppendCstr0 sb cstr =
     (case stringBuilderGrow sb (length cstr) of
        None \<Rightarrow> None
      | Some sb \<Rightarrow>
          let data = memmove (the (sb_data sb)) (sb_size sb) cstr;
              sz = sb_size sb + length cstr
          in Some (sb\<lparr>sb_size := sz, sb_data := Some (data[sz := Some nul])\<rparr>))"

definition stringBuilderAppendInt :: "StringBuilder \<Rightarrow> u128 \<Rightarrow> StringBuilder option" where
  "stringBuilderAppendInt sb num = (case formati128 num 64 of (data, len) \<Rightarrow> stringBuilderAppendCstr0 sb (take len data))"

definition stringBuilderAppendUInt :: "StringBuilder \<Rightarrow> u128 \<Rightarrow> StringBuilder option" where
  "stringBuilderAppendUInt sb num = (case formatu128 num 64 of (data, len) \<Rightarrow> stringBuilderAppendCstr0 sb (take len data))"

definition stringBuilderAppendBool :: "StringBuilder \<Rightarrow> bool \<Rightarrow> StringBuilder option" where
  "stringBuilderAppendBool sb v =
     (if v then stringBuilderAppendCstr0 sb ''true'' else stringBuilderAppendCstr0 sb ''false'')"

text \<open>\<open>None\<close> also stands for the abort on an invalid code point.\<close>

definition stringBuilderAppendChar :: "StringBuilder \<Rightarrow> u32 \<Rightarrow> StringBuilder option" where
  "stringBuilderAppendChar sb c =
     (case wcharToStr c of None \<Rightarrow> None | Some s \<Rightarrow> stringBuilderAppendCstr0 sb s)"

definition stringBuilderRelease :: "StringBuilder \<Rightarrow> char option list option \<times> StringBuilder" where
  "stringBuilderRelease sb = (sb_data sb, stringBuilderDeinit (sb\<lparr>sb_data := None\<rparr>))"

definition sb_inv :: "StringBuilder \<Rightarrow> bool" where
  "sb_inv sb \<longleftrightarrow> (\<exists>data. sb_data sb = Some data \<and> length data = sb_capacity sb + 1) \<and>
     sb_size sb \<le> sb_capacity sb \<and> 0 < sb_capacity sb"

definition sb_contents :: "StringBuilder \<Rightarrow> char option list" where
  "sb_contents sb = take (sb_size sb) (the (sb_data sb))"

lemma growLoop_ends:
  "0 < capacity \<Longrightarrow> \<exists>c. growLoop capacity need = Some c \<and> need \<le> c \<and> capacity \<le> c"
proof (induction "need - capacity" arbitrary: capacity rule: less_induct)
  case less
  show ?case
  proof (cases "capacity < need")
    case True
    with less.prems have "need - capacity * 2 < need - capacity" "0 < capacity * 2" by auto
    from less.hyps [OF this] obtain c where "growLoop (capacity * 2) need = Some c" "need \<le> c" "capacity * 2 \<le> c" by blast
    with True show ?thesis by (subst growLoop.simps) simp
  next
    case False
    then show ?thesis by (subst growLoop.simps) simp
  qed
qed

lemma growLoop_result:
  assumes "growLoop capacity need = Some c"
  shows "need \<le> c \<and> (\<exists>k. c = capacity * 2 ^ k)"
proof (rule growLoop.raw_induct [where P = "\<lambda>capacity need c. need \<le> c \<and> (\<exists>k. c = capacity * 2 ^ k)", OF _ assms])
  fix rec :: "nat \<Rightarrow> nat \<Rightarrow> nat option" and capacity need c
  assume ih: "\<And>capacity need c. rec capacity need = Some c \<Longrightarrow> need \<le> c \<and> (\<exists>k. c = capacity * 2 ^ k)"
    and step: "(if capacity < need then rec (capacity * 2) need else Some capacity) = Some c"
  show "need \<le> c \<and> (\<exists>k. c = capacity * 2 ^ k)"
  proof (cases "capacity < need")
    case True
    with ih [of "capacity * 2" need c] step obtain k where "need \<le> c" "c = capacity * 2 * 2 ^ k" by auto
    then have "need \<le> c" "c = capacity * 2 ^ Suc k" by simp_all
    then show ?thesis by blast
  next
    case False
    with step show ?thesis by (auto intro: exI [of _ 0])
  qed
qed

lemma growLoop_zero: "0 < need \<Longrightarrow> growLoop 0 need = None"
  using growLoop_result [of 0 need] by (cases "growLoop 0 need") auto

lemma memmove_props:
  assumes "off + length cstr \<le> length mem"
  shows "length (memmove mem off cstr) = length mem"
    "take (off + length cstr) (memmove mem off cstr) = take off mem @ map Some cstr"
  using assms by (auto simp: memmove_def)

lemma stringBuilderGrow_ok:
  assumes "sb_inv sb"
  obtains sb' where "stringBuilderGrow sb n = Some sb'" "sb_inv sb'" "sb_size sb' = sb_size sb"
    "sb_size sb + n \<le> sb_capacity sb'" "sb_contents sb' = sb_contents sb"
proof -
  from assms obtain data where d: "sb_data sb = Some data" "length data = sb_capacity sb + 1" "sb_size sb \<le> sb_capacity sb"
    "0 < sb_capacity sb" by (auto simp: sb_inv_def)
  show thesis
  proof (cases "n > sb_capacity sb - sb_size sb")
    case True
    obtain c where c: "growLoop (sb_capacity sb) (sb_size sb + n) = Some c" "sb_size sb + n \<le> c" "sb_capacity sb \<le> c"
      using growLoop_ends [OF d(4)] by blast
    let ?sb = "sb\<lparr>sb_capacity := c, sb_data := Some (realloc data (c + 1))\<rparr>"
    have "stringBuilderGrow sb n = Some ?sb" using d True c by (simp add: stringBuilderGrow_def)
    moreover have "sb_inv ?sb" "sb_contents ?sb = sb_contents sb"
      using d c by (auto simp: sb_inv_def sb_contents_def take_realloc)
    ultimately show thesis using that c by simp
  next
    case False
    then have "stringBuilderGrow sb n = Some sb" using d by (simp add: stringBuilderGrow_def)
    with that assms False d show thesis by simp
  qed
qed

lemma stringBuilderAppend_ok:
  assumes "sb_inv sb"
  shows "\<exists>sb'. stringBuilderAppendCstr0 sb s = Some sb' \<and> sb_inv sb' \<and> sb_contents sb' = sb_contents sb @ map Some s \<and>
    sb_size sb' = sb_size sb + length s \<and> the (sb_data sb') ! sb_size sb' = Some nul"
proof -
  from assms obtain sb1 where g: "stringBuilderGrow sb (length s) = Some sb1" "sb_inv sb1" "sb_size sb1 = sb_size sb"
    "sb_size sb + length s \<le> sb_capacity sb1" "sb_contents sb1 = sb_contents sb" by (rule stringBuilderGrow_ok)
  from g(2) obtain data where d: "sb_data sb1 = Some data" "length data = sb_capacity sb1 + 1" by (auto simp: sb_inv_def)
  let ?n = "sb_size sb + length s"
  let ?mem = "(memmove data (sb_size sb) s)[?n := Some nul]"
  have fits: "sb_size sb + length s \<le> length data" using d g by simp
  note m = memmove_props [OF fits]
  have "take ?n ?mem = sb_contents sb @ map Some s" "length ?mem = length data" "?mem ! ?n = Some nul"
    using m g d by (auto simp: sb_contents_def)
  moreover have "stringBuilderAppendCstr0 sb s = Some (sb1\<lparr>sb_size := ?n, sb_data := Some ?mem\<rparr>)"
    using g d by (simp add: stringBuilderAppendCstr0_def Let_def)
  moreover have "sb_inv (sb1\<lparr>sb_size := ?n, sb_data := Some ?mem\<rparr>)"
    using g d calculation(2) by (auto simp: sb_inv_def)
  ultimately show ?thesis by (auto simp: sb_contents_def)
qed

interpretation sb: appendable sb_inv sb_contents stringBuilderAppendCstr0 "map Some"
  by unfold_locales (use stringBuilderAppend_ok in blast)

section \<open>What the buffers guarantee\<close>

fun popAll :: "nat \<Rightarrow> 'a DynArray \<Rightarrow> 'a option option list" where
  "popAll 0 a = []"
| "popAll (Suc n) a = (case popDynArray a of (x, a) \<Rightarrow> x # popAll n a)"

lemma pop_ok:
  assumes "da_inv a" "da_contents a = xs @ [x]"
  shows "popDynArray a = (Some x, a\<lparr>da_size := da_size a - 1\<rparr>)" "da_inv (a\<lparr>da_size := da_size a - 1\<rparr>)"
    "da_contents (a\<lparr>da_size := da_size a - 1\<rparr>) = xs"
proof -
  from assms have len: "da_size a = length xs + 1"
    by (metis da_contents_def da_inv_def length_append_singleton length_take min.absorb2 Suc_eq_plus1)
  have "da_elems a ! length xs = x"
    by (metis assms(2) da_contents_def len less_add_one nth_append_length nth_take)
  with len show "popDynArray a = (Some x, a\<lparr>da_size := da_size a - 1\<rparr>)" by (simp add: popDynArray_def Let_def)
  show "da_inv (a\<lparr>da_size := da_size a - 1\<rparr>)" using assms(1) by (auto simp: da_inv_def)
  have "take (length xs) (da_contents a) = take (length xs) (da_elems a)" by (simp add: da_contents_def len)
  with assms(2) len show "da_contents (a\<lparr>da_size := da_size a - 1\<rparr>) = xs" by (simp add: da_contents_def)
qed

lemma popAll_ok: "da_inv a \<Longrightarrow> da_contents a = xs \<Longrightarrow> popAll (length xs) a = map Some (rev xs)"
proof (induction xs arbitrary: a rule: rev_induct)
  case (snoc x xs)
  from pop_ok [OF snoc.prems] snoc.IH [of "a\<lparr>da_size := da_size a - 1\<rparr>"] show ?case by simp
qed simp

lemma newDynArray_inv: "da_inv newDynArray" "da_contents newDynArray = []"
  by (simp_all add: newDynArray_def newDynArrayWithCapacity_def da_inv_def da_contents_def)

text \<open>Pushing any number of elements on a new dynamic array stores them in order, through
  every growth, and popping them returns them in the opposite order.\<close>

theorem dynArray_push_pop:
  "\<exists>a. addAll (\<lambda>a x. Some (fst (pushOnDynArrayExplicit a x))) newDynArray xs = Some a \<and>
     da_size a = length xs \<and> da_contents a = map Some xs \<and> popAll (length xs) a = map (\<lambda>x. Some (Some x)) (rev xs)"
proof -
  from da.addAll_ok [OF newDynArray_inv(1), of xs] obtain a where
    a: "addAll (\<lambda>a x. Some (fst (pushOnDynArrayExplicit a x))) newDynArray xs = Some a" "da_inv a"
      "da_contents a = concat (map (\<lambda>x. [Some x]) xs)"
    by (auto simp: newDynArray_inv)
  have c: "da_contents a = map Some xs" using a(3) by (simp add: concat_map_singleton)
  moreover have "da_size a = length (da_contents a)" using a(2) by (auto simp: da_inv_def da_contents_def)
  moreover have "popAll (length (map Some xs)) a = map Some (rev (map Some xs))" by (rule popAll_ok [OF a(2) c])
  ultimately show ?thesis using a(1) by (auto simp: rev_map)
qed

lemma stringBuilderNew_ok: "\<exists>sb. stringBuilderNew = Some sb \<and> sb_inv sb \<and> sb_contents sb = []"
  by (auto simp: stringBuilderNew_def stringBuilderInit_def stringBuilderGrow_def emptyBuilder_def sb_inv_def
      sb_contents_def sb_DEFAULT_CAPACITY_def)

lemma addAll_append: "addAll add s (xs @ ys) = (case addAll add s xs of None \<Rightarrow> None | Some s \<Rightarrow> addAll add s ys)"
  by (induction xs arbitrary: s) (auto split: option.splits)

text \<open>Appending chunks to a new string builder ends, never writes outside the memory it
  holds, and leaves their concatenation followed by a terminating NUL.\<close>

theorem stringBuilder_appends:
  "\<exists>sb0 sb data. stringBuilderNew = Some sb0 \<and> addAll stringBuilderAppendCstr0 sb0 (chunks @ [c]) = Some sb \<and>
     sb_data sb = Some data \<and> sb_size sb = length (concat chunks @ c) \<and> sb_size sb < length data \<and>
     take (sb_size sb + 1) data = map Some (concat chunks @ c) @ [Some nul]"
proof -
  obtain sb0 where sb0: "stringBuilderNew = Some sb0" "sb_inv sb0" "sb_contents sb0 = []" using stringBuilderNew_ok by blast
  from sb.addAll_ok [OF sb0(2), of chunks] sb0(3) obtain sb1 where
    sb1: "addAll stringBuilderAppendCstr0 sb0 chunks = Some sb1" "sb_inv sb1" "sb_contents sb1 = map Some (concat chunks)"
    by (auto simp: map_concat)
  from stringBuilderAppend_ok [OF sb1(2), of c] obtain sb where
    sb: "stringBuilderAppendCstr0 sb1 c = Some sb" "sb_inv sb" "sb_contents sb = sb_contents sb1 @ map Some c"
      "the (sb_data sb) ! sb_size sb = Some nul" by blast
  from sb(2) obtain data where d: "sb_data sb = Some data" "sb_size sb < length data" by (auto simp: sb_inv_def)
  have "take (sb_size sb + 1) data = sb_contents sb @ [Some nul]"
    using sb(4) d by (simp add: take_Suc_conv_app_nth sb_contents_def)
  moreover have "length (sb_contents sb) = sb_size sb" using d by (simp add: sb_contents_def)
  moreover have "sb_contents sb = map Some (concat chunks @ c)" using sb(3) sb1(3) by simp
  moreover from this have "length (sb_contents sb) = length (concat chunks @ c)" by simp
  ultimately show ?thesis using sb0 sb1(1) sb(1) d by (auto simp: addAll_append)
qed

text \<open>On a builder without memory, as \<open>stringBuilderRelease\<close> leaves it, an empty first append
  sets the capacity to zero, and then the doubling loop of the next append never ends.\<close>

theorem stringBuilder_zero_capacity_hangs:
  "\<exists>sb. stringBuilderAppendCstr0 (snd (stringBuilderRelease sb0)) [] = Some sb \<and>
     stringBuilderAppendCstr0 sb (c # cs) = None"
  using growLoop_zero [of "Suc (length cs)"]
  by (simp add: stringBuilderRelease_def stringBuilderDeinit_def emptyBuilder_def stringBuilderAppendCstr0_def
      stringBuilderGrow_def memmove_def Let_def)

end
