(* ===== verification/Cxy_Lexer.thy ===== *)
theory Cxy_Lexer
  imports Cxy_Chars Cxy_HashTable
begin

text \<open>
  The lexer of \<open>lang/frontend/lexer.c\<close> with the tokens of \<open>lang/frontend/token.h\<close>. The
  buffers are a stack, the current one first, each with its position; buffers that were left
  are kept, with their position, as the code does. A buffer is named by a number.

  At the end of the input \<open>getCurChar\<close> returns the character -1. The loops that test for the
  end of the input are total functions; those that do not, for string and character literals,
  are partial functions whose value is \<open>None\<close> when they do not end. The value of a float
  literal is the text given to \<open>strtod\<close>. Diagnostics are part of the error token.
\<close>

section \<open>Tokens\<close>

text \<open>The symbols and keywords of the X-macro lists are identified by their text.\<close>

datatype TokenTag =
  tokSymbol cstring
| tokKeyword cstring
| tokIdent | tokIntLiteral | tokFloatLiteral | tokCharLiteral | tokStringLiteral | tokLString | tokRString | tokLStrFmt
| tokEoF | tokError

definition symbolList :: "cstring list" where
  "symbolList = [''('', '')'', ''['', '']'', ''{'', ''}'', ''@'', ''#'', ''!'', ''~'', ''.'', ''..'', ''...'', ''?'',
     '','', '':'', ''::'', '';'', ''='', ''=='', ''!='', ''=>'', ''->'', ''<'', ''<='', ''<<'', ''<<='', ''>'', ''>='',
     ''>>'', ''>>='', ''+'', ''-'', ''*'', ''/'', ''%'', ''&'', ''^'', ''|'', ''&&'', ''||'', ''++'', ''--'', ''+='',
     ''-='', ''*='', ''/='', ''%='', ''&='', ''&.'', ''^='', ''|='', [CHR 0x60], ''#{'', ''.['', ''()'', ''[]'',
     ''[]='', ''#.'', ''##'', ''!:'']"

definition keywordList :: "cstring list" where
  "keywordList = [''virtual'', ''auto'', ''true'', ''false'', ''null'', ''if'', ''else'', ''match'', ''for'', ''in'',
     ''is'', ''while'', ''break'', ''return'', ''yield'', ''continue'', ''func'', ''var'', ''const'', ''type'',
     ''native'', ''extern'', ''exception'', ''struct'', ''enum'', ''pub'', ''opaque'', ''catch'', ''raise'', ''async'',
     ''launch'', ''ptrof'', ''await'', ''delete'', ''discard'', ''switch'', ''case'', ''default'', ''defer'',
     ''macro'', ''void'', ''string'', ''range'', ''module'', ''package'', ''import'', ''export'', ''include'',
     ''cDefine'', ''cInclude'', ''cSources'', ''as'', ''asm'', ''from'', ''unsafe'', ''interface'', ''this'',
     ''This'', ''super'', ''class'', ''defined'', ''test'', ''plugin'', ''new'', ''__cc'', ''bool'', ''wchar'',
     ''char'', ''u8'', ''u16'', ''u32'', ''u64'', ''u128'', ''i8'', ''i16'', ''i32'', ''i64'', ''i128'', ''f32'', ''f64'']"

record FilePos =
  row :: u32
  col :: u32
  byteOffset :: nat

datatype token_value = NoValue | IntValue u128 | FloatText cstring | CharValue u32

datatype lexer_error =
  UnterminatedMultilineString | UnterminatedBlockComment | UnterminatedString | InvalidCharacterLiteral
| NestedStringExpr | InvalidBinaryDigit | InvalidHexDigit | InvalidOctalDigit | InvalidToken

record Token =
  tok_tag :: TokenTag
  tok_value :: token_value
  tok_error :: "lexer_error option"
  tok_buffer :: nat
  tok_file :: cstring
  tok_begin :: FilePos
  tok_end :: FilePos

section \<open>The lexer state\<close>

record LexerBuffer =
  buf_id :: nat
  fileName :: cstring
  fileData :: cstring
  filePos :: FilePos
  baseOffset :: nat

record Lexer =
  buffers :: "LexerBuffer list"
  cleanup :: "LexerBuffer list"
  lx_flags :: u32

definition lxNone :: u32 where "lxNone = 0"
definition lxEnterStringExpr :: u32 where "lxEnterStringExpr = 1"
definition lxContinueStringExpr :: u32 where "lxContinueStringExpr = 2"
definition lxExitStringExpr :: u32 where "lxExitStringExpr = 4"
definition lxReturnLStrFmt :: u32 where "lxReturnLStrFmt = 8"
definition lxMaybeNotFloat :: u32 where "lxMaybeNotFloat = 16"

lemmas lx_defs = lxNone_def lxEnterStringExpr_def lxContinueStringExpr_def lxExitStringExpr_def lxReturnLStrFmt_def
  lxMaybeNotFloat_def

definition hasFlag :: "Lexer \<Rightarrow> u32 \<Rightarrow> bool" where
  "hasFlag L f \<longleftrightarrow> lx_flags L AND f \<noteq> 0"

definition setFlag :: "u32 \<Rightarrow> Lexer \<Rightarrow> Lexer" where
  "setFlag f L = L\<lparr>lx_flags := lx_flags L OR f\<rparr>"

definition clearFlag :: "u32 \<Rightarrow> Lexer \<Rightarrow> Lexer" where
  "clearFlag f L = L\<lparr>lx_flags := lx_flags L AND NOT f\<rparr>"

abbreviation buffer :: "Lexer \<Rightarrow> LexerBuffer" where
  "buffer L \<equiv> hd (buffers L)"

abbreviation pos :: "Lexer \<Rightarrow> FilePos" where
  "pos L \<equiv> filePos (buffer L)"

text \<open>A buffer that may have been left since.\<close>

definition bufferOf :: "Lexer \<Rightarrow> nat \<Rightarrow> LexerBuffer" where
  "bufferOf L i = hd (filter (\<lambda>b. buf_id b = i) (buffers L @ cleanup L))"

definition newOffsetLexer :: "cstring \<Rightarrow> cstring \<Rightarrow> FilePos \<Rightarrow> Lexer" where
  "newOffsetLexer name data offset =
     \<lparr>buffers = [\<lparr>buf_id = 0, fileName = name, fileData = data, filePos = offset\<lparr>byteOffset := 0\<rparr>,
                  baseOffset = byteOffset offset\<rparr>],
      cleanup = [], lx_flags = lxNone\<rparr>"

definition newLexer :: "cstring \<Rightarrow> cstring \<Rightarrow> Lexer" where
  "newLexer name data = newOffsetLexer name data \<lparr>row = 1, col = 1, byteOffset = 0\<rparr>"

text \<open>A buffer for an included file; the base offset of such a buffer is not set by the code and
  is taken as 0.\<close>

definition lexerPush :: "Lexer \<Rightarrow> cstring \<Rightarrow> cstring \<Rightarrow> Lexer" where
  "lexerPush L name data =
     L\<lparr>buffers := \<lparr>buf_id = length (buffers L) + length (cleanup L), fileName = name, fileData = data,
         filePos = \<lparr>row = 1, col = 1, byteOffset = 0\<rparr>, baseOffset = 0\<rparr> # buffers L\<rparr>"

definition freeLexer :: "Lexer \<Rightarrow> Lexer" where
  "freeLexer L = L\<lparr>buffers := [], cleanup := []\<rparr>"

definition popBuffer :: "Lexer \<Rightarrow> Lexer" where
  "popBuffer L =
     (case buffers L of
        b # p # rest \<Rightarrow> L\<lparr>buffers := p # rest, cleanup := b # cleanup L\<rparr>
      | _ \<Rightarrow> L)"

definition hasPrev :: "Lexer \<Rightarrow> bool" where
  "hasPrev L \<longleftrightarrow> length (buffers L) > 1"

definition isEofReached :: "Lexer \<Rightarrow> bool" where
  "isEofReached L \<longleftrightarrow> length (fileData (buffer L)) \<le> byteOffset (pos L)"

definition EOF :: char where
  "EOF = CHR 0xFF"

definition getCurChar :: "Lexer \<Rightarrow> char" where
  "getCurChar L = (if isEofReached L then EOF else fileData (buffer L) ! byteOffset (pos L))"

fun peekNext :: "LexerBuffer list \<Rightarrow> char" where
  "peekNext [] = EOF"
| "peekNext (b # prev) =
     (if length (fileData b) = 1 + byteOffset (filePos b)
      then (if prev \<noteq> [] then peekNext prev else EOF)
      else at (fileData b) (byteOffset (filePos b) + 1))"

definition peekNextChar :: "Lexer \<Rightarrow> char" where
  "peekNextChar L = peekNext (buffers L)"

definition advancePos :: "char \<Rightarrow> FilePos \<Rightarrow> FilePos" where
  "advancePos c p =
     (if c = CHR 0x0A then p\<lparr>row := row p + 1, col := 1, byteOffset := byteOffset p + 1\<rparr>
      else p\<lparr>col := col p + 1, byteOffset := byteOffset p + 1\<rparr>)"

definition skipChar :: "Lexer \<Rightarrow> Lexer" where
  "skipChar L =
     (let b = buffer L;
          L = L\<lparr>buffers := b\<lparr>filePos := advancePos (getCurChar L) (filePos b)\<rparr> # tl (buffers L)\<rparr>
      in if isEofReached L \<and> hasPrev L then popBuffer L else L)"

definition acceptChar :: "Lexer \<Rightarrow> char \<Rightarrow> Lexer option" where
  "acceptChar L c = (if \<not> isEofReached L \<and> getCurChar L = c then Some (skipChar L) else None)"

text \<open>The characters left in all buffers.\<close>

definition remaining :: "Lexer \<Rightarrow> nat" where
  "remaining L = sum_list (map (\<lambda>b. length (fileData b) - byteOffset (filePos b)) (buffers L))"

definition valid :: "Lexer \<Rightarrow> bool" where
  "valid L \<longleftrightarrow> buffers L \<noteq> []"

lemma skipChar_buffers:
  assumes "buffers L = b # bs"
  shows "buffers (skipChar L) =
     (let b' = b\<lparr>filePos := advancePos (getCurChar L) (filePos b)\<rparr>
      in if length (fileData b) \<le> Suc (byteOffset (filePos b)) \<and> bs \<noteq> [] then bs else b' # bs)"
  using assms by (cases bs) (auto simp: skipChar_def isEofReached_def hasPrev_def popBuffer_def advancePos_def Let_def)

lemma skipChar_valid [simp]: "valid L \<Longrightarrow> valid (skipChar L)"
  by (cases "buffers L") (auto simp: valid_def skipChar_buffers Let_def)

lemma skipChar_depth: "valid L \<Longrightarrow> length (buffers (skipChar L)) \<le> length (buffers L)"
  by (cases "buffers L") (auto simp: valid_def skipChar_buffers Let_def)

lemma skipChar_remaining:
  assumes "valid L" "\<not> isEofReached L"
  shows "Suc (remaining (skipChar L)) = remaining L"
proof -
  obtain b bs where b: "buffers L = b # bs" using assms(1) by (cases "buffers L") (auto simp: valid_def)
  with assms(2) show ?thesis
    by (auto simp: remaining_def skipChar_buffers [OF b] isEofReached_def advancePos_def Let_def)
qed

lemma skipChar_less: "valid L \<Longrightarrow> \<not> isEofReached L \<Longrightarrow> remaining (skipChar L) < remaining L"
  using skipChar_remaining [of L] by simp

lemma acceptChar_cases:
  assumes "acceptChar L c = Some L'" "valid L"
  shows "valid L'" "remaining L' < remaining L" "length (buffers L') \<le> length (buffers L)"
  using assms skipChar_less [of L] skipChar_depth [of L] by (auto simp: acceptChar_def split: if_splits)

lemma acceptChar_twice:
  assumes "acceptChar L c = Some L1" "acceptChar L1 d = Some L2" "valid L"
  shows "remaining L2 < remaining L"
  using acceptChar_cases [OF assms(1,3)] acceptChar_cases [OF assms(2)] by simp

section \<open>Spaces and comments\<close>

text \<open>The loop that skips characters while they satisfy a test. Loops without a test for the end
  of the input are of this form too, when their test fails for the character -1.\<close>

function skipWhile :: "(char \<Rightarrow> bool) \<Rightarrow> Lexer \<Rightarrow> Lexer" where
  "skipWhile P L = (if valid L \<and> \<not> isEofReached L \<and> P (getCurChar L) then skipWhile P (skipChar L) else L)"
  by auto
termination
  by (relation "measure (\<lambda>(P, L). remaining L)") (auto simp: skipChar_less)

declare skipWhile.simps [simp del]

lemma skipWhile_mono:
  "valid L \<Longrightarrow> valid (skipWhile P L) \<and> remaining (skipWhile P L) \<le> remaining L \<and>
     length (buffers (skipWhile P L)) \<le> length (buffers L)"
proof (induction P L rule: skipWhile.induct)
  case (1 P L)
  show ?case
  proof (cases "\<not> isEofReached L \<and> P (getCurChar L)")
    case True
    with 1 have "skipWhile P L = skipWhile P (skipChar L)" by (subst skipWhile.simps) simp
    with 1 True skipChar_less [of L] skipChar_depth [of L] show ?thesis by force
  next
    case False
    with 1 have "skipWhile P L = L" by (subst skipWhile.simps) auto
    with 1 show ?thesis by simp
  qed
qed

definition skipSpaces :: "Lexer \<Rightarrow> Lexer" where
  "skipSpaces = skipWhile isspace"

definition isSpaceOrPunctuation :: "char \<Rightarrow> bool" where
  "isSpaceOrPunctuation c \<longleftrightarrow> c \<noteq> CHR ''_'' \<and> (isspace c \<or> ispunct c)"

definition skipUntilSpaceOrPunctuation :: "Lexer \<Rightarrow> Lexer" where
  "skipUntilSpaceOrPunctuation = skipWhile (\<lambda>c. \<not> isSpaceOrPunctuation c)"

definition skipSingleLineComment :: "Lexer \<Rightarrow> Lexer" where
  "skipSingleLineComment = skipWhile (\<lambda>c. c \<noteq> CHR 0x0A)"

text \<open>The result is whether the comment is closed.\<close>

function skipMultiLineComment :: "Lexer \<Rightarrow> nat \<Rightarrow> bool \<times> Lexer" where
  "skipMultiLineComment L nest =
     (if nest > 0 \<and> valid L \<and> \<not> isEofReached L
      then (case acceptChar L CHR ''/'' of
              Some L1 \<Rightarrow>
                (case acceptChar L1 CHR ''*'' of
                   Some L2 \<Rightarrow> skipMultiLineComment L2 (nest + 1)
                 | None \<Rightarrow> skipMultiLineComment L1 nest)
            | None \<Rightarrow>
                (case acceptChar L CHR ''*'' of
                   Some L1 \<Rightarrow>
                     (case acceptChar L1 CHR ''/'' of
                        Some L2 \<Rightarrow> skipMultiLineComment L2 (nest - 1)
                      | None \<Rightarrow> skipMultiLineComment L1 nest)
                 | None \<Rightarrow> skipMultiLineComment (skipChar L) nest))
      else (nest = 0, L))"
  by auto
termination
  by (relation "measure (\<lambda>(L, nest). remaining L)")
    (auto simp: skipChar_less intro: acceptChar_cases(2) acceptChar_twice)

declare skipMultiLineComment.simps [simp del]

section \<open>Making tokens\<close>

definition addOffset :: "nat \<Rightarrow> FilePos \<Rightarrow> FilePos" where
  "addOffset base p = p\<lparr>byteOffset := byteOffset p + base\<rparr>"

definition makeToken_between :: "Lexer \<Rightarrow> LexerBuffer \<Rightarrow> FilePos \<Rightarrow> FilePos \<Rightarrow> TokenTag \<Rightarrow> Token" where
  "makeToken_between L buf begin end tag =
     \<lparr>tok_tag = tag, tok_value = NoValue, tok_error = None, tok_buffer = buf_id buf, tok_file = fileName (buffer L),
      tok_begin = addOffset (baseOffset buf) begin, tok_end = addOffset (baseOffset buf) end\<rparr>"

definition makeToken_in :: "Lexer \<Rightarrow> LexerBuffer \<Rightarrow> FilePos \<Rightarrow> TokenTag \<Rightarrow> Token" where
  "makeToken_in L buf begin tag = makeToken_between L buf begin (filePos buf) tag"

definition makeToken :: "Lexer \<Rightarrow> FilePos \<Rightarrow> TokenTag \<Rightarrow> Token" where
  "makeToken L begin tag = makeToken_in L (buffer L) begin tag"

definition makeIntLiteral :: "Lexer \<Rightarrow> FilePos \<Rightarrow> u128 \<Rightarrow> Token" where
  "makeIntLiteral L begin iVal = (makeToken L begin tokIntLiteral)\<lparr>tok_value := IntValue iVal\<rparr>"

definition makeFloatLiteral :: "Lexer \<Rightarrow> FilePos \<Rightarrow> cstring \<Rightarrow> Token" where
  "makeFloatLiteral L begin fVal = (makeToken L begin tokFloatLiteral)\<lparr>tok_value := FloatText fVal\<rparr>"

definition makeInvalidToken :: "Lexer \<Rightarrow> FilePos \<Rightarrow> lexer_error \<Rightarrow> Token" where
  "makeInvalidToken L begin err = (makeToken L begin tokError)\<lparr>tok_error := Some err\<rparr>"

text \<open>What one pass of the main loop does: it returns a token, goes round again, or fails: an
  assertion of \<open>convertEscapeSeq\<close> does not hold, or two pointers into different objects are
  subtracted.\<close>

datatype lex_outcome = Emit Token Lexer | Again Lexer | Abort

section \<open>Symbols\<close>

text \<open>The nested tests \<open>if (acceptChar(lexer, c)) \<dots>\<close>: at a node, the accepted character leads to
  the next one; when none is accepted the node's own token is made.\<close>

datatype symbol_tree = Node cstring "(char \<times> symbol_tree) list"

abbreviation leaf :: "char \<Rightarrow> char \<Rightarrow> char \<times> symbol_tree" where
  "leaf p c \<equiv> (c, Node [p, c] [])"

definition punctuationSymbols :: "(char \<times> symbol_tree) list" where
  "punctuationSymbols =
     [(CHR ''('', Node ''('' []),
      (CHR '')'', Node '')'' []),
      (CHR ''['', Node ''['' []),
      (CHR '']'', Node '']'' []),
      (CHR ''{'', Node ''{'' []),
      (CHR ''.'', Node ''.'' [(CHR ''.'', Node ''..'' [(CHR ''.'', Node ''...'' [])]),
                              (CHR ''['', Node ''.['' [])]),
      (CHR '','', Node '','' []),
      (CHR '':'', Node '':'' [(CHR '':'', Node ''::'' [])]),
      (CHR '';'', Node '';'' []),
      (CHR ''#'', Node ''#'' [(CHR ''{'', Node ''#{'' []), (CHR ''.'', Node ''#.'' []), (CHR ''#'', Node ''##'' [])]),
      (CHR 0x60, Node [CHR 0x60] []),
      (CHR ''@'', Node ''@'' []),
      (CHR ''?'', Node ''?'' [])]"

definition operatorSymbols :: "(char \<times> symbol_tree) list" where
  "operatorSymbols =
     [(CHR ''!'', Node ''!'' [(CHR ''='', Node ''!='' []), (CHR '':'', Node ''!:'' [])]),
      (CHR ''~'', Node ''~'' []),
      (CHR ''+'', Node ''+'' [(CHR ''+'', Node ''++'' []), (CHR ''='', Node ''+='' [])]),
      (CHR ''-'', Node ''-'' [(CHR ''-'', Node ''--'' []), (CHR ''='', Node ''-='' []), (CHR ''>'', Node ''->'' [])]),
      (CHR ''*'', Node ''*'' [(CHR ''='', Node ''*='' [])]),
      (CHR ''%'', Node ''%'' [(CHR ''='', Node ''%='' [])]),
      (CHR ''&'', Node ''&'' [(CHR ''&'', Node ''&&'' []), (CHR ''='', Node ''&='' []), (CHR ''.'', Node ''&.'' [])]),
      (CHR ''|'', Node ''|'' [(CHR ''|'', Node ''||'' []), (CHR ''='', Node ''|='' [])]),
      (CHR ''^'', Node ''^'' [(CHR ''='', Node ''^='' [])]),
      (CHR ''<'', Node ''<'' [(CHR ''<'', Node ''<<'' [(CHR ''='', Node ''<<='' [])]), (CHR ''='', Node ''<='' [])]),
      (CHR ''>'', Node ''>'' [(CHR ''>'', Node ''>>'' [(CHR ''='', Node ''>>='' [])]), (CHR ''='', Node ''>='' [])]),
      (CHR ''='', Node ''='' [(CHR ''='', Node ''=='' []), (CHR ''>'', Node ''=>'' [])])]"

fun lexTree :: "Lexer \<Rightarrow> symbol_tree \<Rightarrow> cstring \<times> Lexer"
  and lexAlternatives :: "Lexer \<Rightarrow> (char \<times> symbol_tree) list \<Rightarrow> (cstring \<times> Lexer) option" where
  "lexTree L (Node s alts) = (case lexAlternatives L alts of None \<Rightarrow> (s, L) | Some r \<Rightarrow> r)"
| "lexAlternatives L [] = None"
| "lexAlternatives L ((c, t) # alts) =
     (case acceptChar L c of Some L' \<Rightarrow> Some (lexTree L' t) | None \<Rightarrow> lexAlternatives L alts)"

definition lexSymbol :: "(char \<times> symbol_tree) list \<Rightarrow> FilePos \<Rightarrow> Lexer \<Rightarrow> lex_outcome option" where
  "lexSymbol alts begin L =
     (case lexAlternatives L alts of
        None \<Rightarrow> None
      | Some (s, L) \<Rightarrow>
          let L = (if s = ''.'' then setFlag lxMaybeNotFloat L else L)
          in Some (Emit (makeToken L begin (tokSymbol s)) L))"

text \<open>After a \<open>/\<close>.\<close>

definition lexSlash :: "FilePos \<Rightarrow> Lexer \<Rightarrow> lex_outcome" where
  "lexSlash begin L =
     (case acceptChar L CHR ''/'' of
        Some L \<Rightarrow> Again (skipSingleLineComment L)
      | None \<Rightarrow>
     (case acceptChar L CHR ''*'' of
        Some L \<Rightarrow> (case skipMultiLineComment L 1 of (closed, L) \<Rightarrow>
                     if closed then Again L else Emit (makeInvalidToken L begin UnterminatedBlockComment) L)
      | None \<Rightarrow>
     (case acceptChar L CHR ''='' of
        Some L \<Rightarrow> Emit (makeToken L begin (tokSymbol ''/='')) L
      | None \<Rightarrow> Emit (makeToken L begin (tokSymbol ''/'')) L)))"

section \<open>String and character literals\<close>

abbreviation quote :: char where
  "quote \<equiv> CHR 0x22"

abbreviation backslash :: char where
  "backslash \<equiv> CHR 0x5C"

function multilineLoop :: "LexerBuffer \<Rightarrow> FilePos \<Rightarrow> Lexer \<Rightarrow> Token \<times> Lexer" where
  "multilineLoop buf begin L =
     (if valid L \<and> \<not> isEofReached L
      then let end = pos L
           in case acceptChar L quote of
                Some L1 \<Rightarrow>
                  if getCurChar L1 = quote \<and> peekNextChar L1 = quote
                  then let L2 = skipChar (skipChar L1)
                       in (makeToken_between L2 buf begin end tokStringLiteral, L2)
                  else multilineLoop buf begin L1
              | None \<Rightarrow> multilineLoop buf begin (skipChar L)
      else (makeInvalidToken L begin UnterminatedMultilineString, L))"
  by auto
termination
  by (relation "measure (\<lambda>(buf, begin, L). remaining L)") (auto simp: skipChar_less intro: acceptChar_cases(2))

declare multilineLoop.simps [simp del]

definition multilineString :: "Lexer \<Rightarrow> Token \<times> Lexer" where
  "multilineString L = (let L = skipChar L in multilineLoop (buffer L) (pos L) L)"

text \<open>The loop over the characters of a string: it ends before the closing quote, after a newline,
  or before the \<open>{\<close> of an embedded expression (\<open>True\<close>).\<close>

partial_function (option) stringLoop :: "bool \<Rightarrow> Lexer \<Rightarrow> (bool \<times> Lexer) option" where
  "stringLoop parsingStringLiteral L =
     (if getCurChar L = quote then Some (False, L)
      else case acceptChar L CHR 0x0A of
        Some L1 \<Rightarrow> (case acceptChar L1 backslash of
                      Some L2 \<Rightarrow> stringLoop parsingStringLiteral L2
                    | None \<Rightarrow> Some (False, L1))
      | None \<Rightarrow>
          if getCurChar L = backslash then stringLoop parsingStringLiteral (skipChar (skipChar L))
          else if \<not> parsingStringLiteral \<and> hasFlag L lxContinueStringExpr \<and>
                  getCurChar L = CHR ''{'' \<and> peekNextChar L \<noteq> CHR ''{''
          then Some (True, L)
          else stringLoop parsingStringLiteral (skipChar L))"

definition lexString :: "bool \<Rightarrow> nat \<Rightarrow> Lexer \<Rightarrow> lex_outcome option" where
  "lexString parsingStringLiteral buf L =
     (let begin = pos L
      in case stringLoop parsingStringLiteral L of
           None \<Rightarrow> None
         | Some (expr, L) \<Rightarrow>
             let end = pos L
             in if expr
                then let tok = makeToken_between L (bufferOf L buf) begin end tokStringLiteral
                     in Some (Emit tok (skipChar (setFlag lxReturnLStrFmt L)))
                else let L = (if parsingStringLiteral then L
                              else setFlag lxExitStringExpr (clearFlag lxContinueStringExpr L))
                     in case acceptChar L quote of
                          None \<Rightarrow> Some (Emit (makeInvalidToken L begin UnterminatedString) L)
                        | Some L \<Rightarrow> Some (Emit (makeToken_between L (bufferOf L buf) begin end tokStringLiteral) L))"

text \<open>The loop over the characters of a character literal, with the number of characters.\<close>

partial_function (option) charLoop :: "Lexer \<Rightarrow> nat \<Rightarrow> (nat \<times> Lexer) option" where
  "charLoop L charCount =
     (if getCurChar L \<noteq> CHR 0x27 \<and> getCurChar L \<noteq> CHR 0x0A
      then if getCurChar L = backslash then charLoop (skipChar (skipChar L)) (charCount + 2)
           else charLoop (skipChar L) (charCount + 1)
      else Some (charCount, L))"

text \<open>After the opening quote. The length given to \<open>convertEscapeSeq\<close> is a difference of two
  pointers, which is defined only when both point into the same buffer; at the end of the
  input the second one points at a variable of its own.\<close>

definition lexCharLiteral :: "FilePos \<Rightarrow> Lexer \<Rightarrow> lex_outcome option" where
  "lexCharLiteral begin L =
     (let b = buffer L; off = byteOffset (pos L)
      in case charLoop L 0 of
           None \<Rightarrow> None
         | Some (charCount, L) \<Rightarrow>
             let token = makeToken L begin tokCharLiteral
             in case acceptChar L CHR 0x27 of
                  None \<Rightarrow> Some (Emit token L)
                | Some L \<Rightarrow>
                    if isEofReached L \<or> buf_id (buffer L) \<noteq> buf_id b then Some Abort
                    else case convertEscapeSeq (drop off (fileData b)) (byteOffset (pos L) - off - 1) 0 of
                           None \<Rightarrow> Some Abort
                         | Some (consumed, cVal) \<Rightarrow>
                             if consumed \<noteq> charCount
                             then Some (Emit (makeInvalidToken L begin InvalidCharacterLiteral) L)
                             else Some (Emit (token\<lparr>tok_value := CharValue cVal\<rparr>) L))"

section \<open>Keywords and identifiers\<close>

record Keyword =
  kw_name :: cstring
  kw_len :: nat
  kw_tag :: TokenTag

definition compareKeywords :: "Keyword \<Rightarrow> Keyword \<Rightarrow> bool" where
  "compareKeywords left right \<longleftrightarrow>
     kw_len left = kw_len right \<and> take (kw_len left) (kw_name left) = take (kw_len left) (kw_name right)"

definition keywordOf :: "cstring \<Rightarrow> Keyword" where
  "keywordOf str = \<lparr>kw_name = str, kw_len = length str, kw_tag = tokKeyword str\<rparr>"

fun registerAll :: "Keyword HashTable \<Rightarrow> cstring list \<Rightarrow> Keyword HashTable option" where
  "registerAll ht [] = Some ht"
| "registerAll ht (str # strs) =
     (case insertInHashTable ht (keywordOf str) (hashStr hashInit str)
             (\<lambda>stored. compareKeywords stored (keywordOf str)) of
        None \<Rightarrow> None
      | Some (_, ht) \<Rightarrow> registerAll ht strs)"

definition registerKeywords :: "Keyword HashTable \<Rightarrow> Keyword HashTable option" where
  "registerKeywords ht = registerAll ht keywordList"

text \<open>The capacity passed is the size of a \<open>Keyword\<close>, 24: the arguments are exchanged.\<close>

definition LEXER_KEYWORDS :: "Keyword HashTable option" where
  "LEXER_KEYWORDS = registerKeywords (newHashTableWithCapacity 24)"

definition lookupKeyword :: "cstring \<Rightarrow> nat \<Rightarrow> TokenTag option option" where
  "lookupKeyword name len =
     (case LEXER_KEYWORDS of
        None \<Rightarrow> None
      | Some ht \<Rightarrow>
          (case findInHashTable ht (hashRawBytes hashInit (map byte_of name) len)
                  (\<lambda>stored. compareKeywords stored \<lparr>kw_name = name, kw_len = len, kw_tag = tokEoF\<rparr>) of
             None \<Rightarrow> None
           | Some None \<Rightarrow> Some None
           | Some (Some i) \<Rightarrow> Some (map_option kw_tag (ht_deref ht i))))"

definition isIdentStart :: "char \<Rightarrow> bool" where
  "isIdentStart c \<longleftrightarrow> c = CHR ''_'' \<or> isalpha c"

definition isIdentChar :: "char \<Rightarrow> bool" where
  "isIdentChar c \<longleftrightarrow> c = CHR ''_'' \<or> isalnum c"

definition lexIdent :: "nat \<Rightarrow> FilePos \<Rightarrow> Lexer \<Rightarrow> lex_outcome option" where
  "lexIdent buf begin L =
     (let L = skipWhile isIdentChar (skipChar L);
          b = bufferOf L buf;
          name = drop (byteOffset begin) (fileData b);
          len = byteOffset (filePos b) - byteOffset begin
      in case lookupKeyword name len of
           None \<Rightarrow> None
         | Some (Some tag) \<Rightarrow> Some (Emit (makeToken L begin tag) L)
         | Some None \<Rightarrow> Some (Emit (makeToken_in L b begin tokIdent) L))"

section \<open>Numbers\<close>

text \<open>The text a pointer into the buffer points at; at the end of the input the code points at
  the character -1.\<close>

definition getCurPtr :: "Lexer \<Rightarrow> cstring" where
  "getCurPtr L = (if isEofReached L then [EOF] else drop (byteOffset (pos L)) (fileData (buffer L)))"

text \<open>A literal with a base prefix, after the prefix.\<close>

definition lexBased :: "(char \<Rightarrow> bool) \<Rightarrow> nat \<Rightarrow> lexer_error \<Rightarrow> FilePos \<Rightarrow> Lexer \<Rightarrow> lex_outcome" where
  "lexBased isDigit base err begin L =
     (let ptr = getCurPtr L;
          L = skipWhile isDigit L
      in if \<not> isEofReached L \<and> \<not> isSpaceOrPunctuation (getCurChar L)
         then let L = skipUntilSpaceOrPunctuation L in Emit (makeInvalidToken L begin err) L
         else Emit (makeIntLiteral L begin (fst (strtou128 (Some ptr) base))) L)"

text \<open>An optional exponent, after the fraction.\<close>

definition skipExponent :: "Lexer \<Rightarrow> Lexer" where
  "skipExponent L =
     (case acceptChar L CHR ''e'' of
        None \<Rightarrow> L
      | Some L \<Rightarrow>
          let L = (case acceptChar L CHR ''+'' of
                     Some L \<Rightarrow> L
                   | None \<Rightarrow> (case acceptChar L CHR ''-'' of Some L \<Rightarrow> L | None \<Rightarrow> L))
          in skipWhile isdigit L)"

definition lexDecimal :: "cstring \<Rightarrow> FilePos \<Rightarrow> Lexer \<Rightarrow> lex_outcome" where
  "lexDecimal ptr begin L =
     (let L = skipWhile isdigit L
      in if getCurChar L = CHR ''.'' \<and> isdigit (peekNextChar L) \<and> peekNextChar L \<noteq> CHR ''.'' \<and>
            peekNextChar L \<noteq> CHR ''['' \<and> \<not> hasFlag L lxMaybeNotFloat
         then let L = skipExponent (skipWhile isdigit (skipChar L))
              in Emit (makeFloatLiteral L begin ptr) L
         else Emit (makeIntLiteral L begin (fst (strtou128 (Some ptr) 10))) L)"

definition lexNumber :: "FilePos \<Rightarrow> Lexer \<Rightarrow> lex_outcome" where
  "lexNumber begin L =
     (let wasZero = (getCurChar L = CHR ''0'');
          ptr = getCurPtr L;
          L = skipChar L
      in case (if wasZero then acceptChar L CHR ''b'' else None) of
           Some L \<Rightarrow> lexBased (\<lambda>c. c = CHR ''0'' \<or> c = CHR ''1'') 2 InvalidBinaryDigit begin L
         | None \<Rightarrow>
        (case (if wasZero then acceptChar L CHR ''x'' else None) of
           Some L \<Rightarrow> lexBased isxdigit 16 InvalidHexDigit begin L
         | None \<Rightarrow>
        (case (if wasZero then acceptChar L CHR ''o'' else None) of
           Some L \<Rightarrow> lexBased isodigit 8 InvalidOctalDigit begin L
         | None \<Rightarrow> lexDecimal ptr begin L)))"

section \<open>The main loop\<close>

function popFinished :: "Lexer \<Rightarrow> Lexer" where
  "popFinished L = (if isEofReached L \<and> hasPrev L then popFinished (skipSpaces (popBuffer L)) else L)"
  by auto
termination
proof (relation "measure (\<lambda>L. length (buffers L))", simp, goal_cases)
  case (1 L)
  then have "valid (popBuffer L)" "length (buffers (popBuffer L)) < length (buffers L)"
    by (auto simp: popBuffer_def hasPrev_def valid_def split: list.splits)
  then show ?case using skipWhile_mono [of "popBuffer L" isspace] by (simp add: skipSpaces_def)
qed

declare popFinished.simps [simp del]

text \<open>The tests after the comments: string, character, \<open>f"\<close>, identifier and number literals.\<close>

definition lexLiteral :: "nat \<Rightarrow> FilePos \<Rightarrow> Lexer \<Rightarrow> lex_outcome option" where
  "lexLiteral buf begin L =
     (case acceptChar L quote of
        Some L \<Rightarrow>
          if getCurChar L = quote \<and> peekNextChar L = quote
          then (case multilineString (skipChar L) of (tok, L) \<Rightarrow> Some (Emit tok L))
          else lexString True buf L
      | None \<Rightarrow>
     (case acceptChar L CHR 0x27 of
        Some L \<Rightarrow> lexCharLiteral begin L
      | None \<Rightarrow>
          if getCurChar L = CHR ''f'' \<and> peekNextChar L = quote
          then let L = skipChar L
               in if hasFlag L (lxEnterStringExpr OR lxContinueStringExpr)
                  then Some (Emit (makeInvalidToken L begin NestedStringExpr) L)
                  else let L = setFlag lxEnterStringExpr L in Some (Emit (makeToken L begin tokLString) L)
          else let begin = filePos (bufferOf L buf)
               in if isIdentStart (getCurChar L) then lexIdent buf begin L
                  else if isdigit (getCurChar L) then Some (lexNumber begin L)
                  else let L = skipChar L in Some (Emit (makeInvalidToken L begin InvalidToken) L)))"

definition lexToken :: "FilePos \<Rightarrow> Lexer \<Rightarrow> lex_outcome option" where
  "lexToken begin L =
     (let buf = buf_id (buffer L)
      in case lexSymbol punctuationSymbols begin L of
           Some r \<Rightarrow> Some r
         | None \<Rightarrow>
        (case acceptChar L CHR ''}'' of
           Some L \<Rightarrow>
             if hasFlag L lxContinueStringExpr then lexString False buf L
             else Some (Emit (makeToken L begin (tokSymbol ''}'')) L)
         | None \<Rightarrow>
        (case lexSymbol operatorSymbols begin L of
           Some r \<Rightarrow> Some r
         | None \<Rightarrow>
        (case acceptChar L CHR ''/'' of
           Some L \<Rightarrow> Some (lexSlash begin L)
         | None \<Rightarrow> lexLiteral buf begin L))))"

definition lexOnce :: "Lexer \<Rightarrow> lex_outcome option" where
  "lexOnce L =
     (if hasFlag L lxEnterStringExpr
      then let L = skipChar (setFlag lxContinueStringExpr (clearFlag lxEnterStringExpr L))
           in lexString False (buf_id (buffer L)) L
      else let L = skipSpaces L;
               begin = pos L;
               L = popFinished L
           in if isEofReached L then Some (Emit (makeToken L begin tokEoF) L)
              else lexToken begin L)"

partial_function (option) lexLoop :: "Lexer \<Rightarrow> lex_outcome option" where
  "lexLoop L =
     (case lexOnce L of
        None \<Rightarrow> None
      | Some (Again L) \<Rightarrow> lexLoop L
      | Some (Emit tok L) \<Rightarrow> Some (Emit tok L)
      | Some Abort \<Rightarrow> Some Abort)"

definition advanceLexer :: "Lexer \<Rightarrow> lex_outcome option" where
  "advanceLexer L =
     (if hasFlag L lxExitStringExpr
      then let L = clearFlag lxExitStringExpr L in Some (Emit (makeToken L (pos L) tokRString) L)
      else if hasFlag L lxReturnLStrFmt
      then let L = clearFlag lxReturnLStrFmt L in Some (Emit (makeToken L (pos L) tokLStrFmt) L)
      else if hasFlag L lxMaybeNotFloat \<and> \<not> isdigit (getCurChar L) \<and> getCurChar L \<noteq> CHR ''.''
      then lexLoop (clearFlag lxMaybeNotFloat L)
      else lexLoop L)"

declare stringLoop.simps [code] charLoop.simps [code] lexLoop.simps [code]

text \<open>The tokens up to the end of the file, at most \<open>n\<close>: what the parser's token stream reads.\<close>

fun lexAll :: "nat \<Rightarrow> Lexer \<Rightarrow> Token list option" where
  "lexAll 0 L = None"
| "lexAll (Suc n) L =
     (case advanceLexer L of
        Some (Emit tok L) \<Rightarrow>
          if tok_tag tok = tokEoF then Some []
          else (case lexAll n L of None \<Rightarrow> None | Some toks \<Rightarrow> Some (tok # toks))
      | _ \<Rightarrow> None)"

end
