(* ===== verification/Cxy_LexerProps.thy ===== *)
theory Cxy_LexerProps
  imports Cxy_Lexer "HOL-Library.Sublist"
begin

text \<open>
  The lexer on a single buffer: its operations seen as functions of the text that is left. The
  symbols are read by maximal munch, words are keywords exactly when they are in the keyword
  list, integer literals have their value, and a file without quotes is read to its end. A
  string literal without closing quote on the last line keeps the lexer running for ever.
\<close>

section \<open>The text that is left\<close>

definition single :: "Lexer \<Rightarrow> bool" where
  "single L \<longleftrightarrow> (\<exists>b. buffers L = [b])"

definition rest :: "Lexer \<Rightarrow> cstring" where
  "rest L = drop (byteOffset (pos L)) (fileData (buffer L))"

definition skipN :: "nat \<Rightarrow> Lexer \<Rightarrow> Lexer" where
  "skipN n L = (skipChar ^^ n) L"

lemma single_valid [simp]: "single L \<Longrightarrow> valid L"
  by (auto simp: single_def valid_def)

lemma single_eof: "single L \<Longrightarrow> isEofReached L \<longleftrightarrow> rest L = []"
  by (auto simp: single_def isEofReached_def rest_def)

lemma single_cur: "single L \<Longrightarrow> getCurChar L = (case rest L of [] \<Rightarrow> EOF | c # _ \<Rightarrow> c)"
  by (auto simp: getCurChar_def single_eof rest_def hd_drop_conv_nth isEofReached_def split: list.splits)
    (metis hd_drop_conv_nth list.sel(1) list.discI drop_eq_Nil linorder_not_le)+

lemma single_skipChar:
  assumes "single L"
  shows "single (skipChar L)" "rest (skipChar L) = tl (rest L)" "lx_flags (skipChar L) = lx_flags L"
    "fileData (buffer (skipChar L)) = fileData (buffer L)" "buf_id (buffer (skipChar L)) = buf_id (buffer L)"
    "baseOffset (buffer (skipChar L)) = baseOffset (buffer L)" "fileName (buffer (skipChar L)) = fileName (buffer L)"
    "byteOffset (pos (skipChar L)) = Suc (byteOffset (pos L))"
  using assms
  by (auto simp: single_def skipChar_def isEofReached_def hasPrev_def rest_def advancePos_def Let_def drop_Suc tl_drop)

lemma skipN_0 [simp]: "skipN 0 L = L"
  by (simp add: skipN_def)

lemma skipN_Suc: "skipN (Suc n) L = skipN n (skipChar L)"
  by (simp add: skipN_def funpow_swap1)

lemma skipN_add: "skipN m (skipN n L) = skipN (n + m) L"
  by (simp add: skipN_def add.commute [of n] funpow_add)

lemma skipChar_skipN: "skipChar (skipN n L) = skipN (Suc n) L"
  by (simp add: skipN_def)

lemma single_skipN:
  assumes "single L"
  shows "single (skipN n L)" "rest (skipN n L) = drop n (rest L)" "lx_flags (skipN n L) = lx_flags L"
    "fileData (buffer (skipN n L)) = fileData (buffer L)" "buf_id (buffer (skipN n L)) = buf_id (buffer L)"
    "baseOffset (buffer (skipN n L)) = baseOffset (buffer L)" "fileName (buffer (skipN n L)) = fileName (buffer L)"
    "byteOffset (pos (skipN n L)) = byteOffset (pos L) + n"
  using assms
  by (induction n arbitrary: L) (simp_all add: skipN_Suc single_skipChar drop_Suc)

lemma single_accept:
  "single L \<Longrightarrow> acceptChar L c = (case rest L of [] \<Rightarrow> None | d # _ \<Rightarrow> if d = c then Some (skipN 1 L) else None)"
  by (auto simp: acceptChar_def single_eof single_cur skipN_Suc split: list.splits)

lemma single_peek:
  assumes "single L" "rest L = c # s"
  shows "peekNextChar L = (case s of [] \<Rightarrow> EOF | d # _ \<Rightarrow> d)"
proof -
  obtain b where b: "buffers L = [b]" using assms(1) by (auto simp: single_def)
  let ?o = "byteOffset (filePos b)"
  have d: "drop ?o (fileData b) = c # s" using assms(2) b by (simp add: rest_def)
  have s: "drop (Suc ?o) (fileData b) = s" using arg_cong [OF d, of tl] by (simp add: drop_Suc tl_drop)
  have "?o < length (fileData b)" using d by (metis drop_eq_Nil list.discI not_le)
  then have "length (fileData b) = Suc ?o + length s" using arg_cong [OF d, of length] by simp
  with s b show ?thesis by (cases s) (simp_all add: peekNextChar_def at_def cur_def)
qed

lemma single_skipWhile:
  "single L \<Longrightarrow> skipWhile P L = skipN (length (takeWhile P (rest L))) L"
proof (induction "rest L" arbitrary: L)
  case Nil
  then show ?case by (subst skipWhile.simps) (simp add: single_eof)
next
  case (Cons c s)
  have "skipWhile P L = (if P c then skipWhile P (skipChar L) else L)"
    using Cons.hyps(2) [symmetric] Cons.prems by (subst skipWhile.simps) (simp add: single_eof single_cur)
  with Cons.hyps(1) [of "skipChar L"] Cons.hyps(2) [symmetric] Cons.prems show ?case
    by (simp add: single_skipChar skipN_Suc)
qed

lemmas single_view = single_skipN single_eof

lemma plain_tokens: "single L \<Longrightarrow> bufferOf (skipN n L) (buf_id (buffer L)) = buffer (skipN n L)"
  using single_skipN [of L n] by (auto simp: single_def bufferOf_def)

lemma flag_ops [simp]:
  "rest (setFlag f L) = rest L" "rest (clearFlag f L) = rest L"
  "single (setFlag f L) = single L" "single (clearFlag f L) = single L"
  "buffers (setFlag f L) = buffers L" "buffers (clearFlag f L) = buffers L"
  by (auto simp: setFlag_def clearFlag_def rest_def single_def)

section \<open>Symbols\<close>

text \<open>A tree in which every node carries the characters that lead to it.\<close>

fun labels :: "symbol_tree \<Rightarrow> cstring list" where
  "labels (Node s alts) = s # concat (map (\<lambda>(c, t). labels t) alts)"

fun wf_tree :: "cstring \<Rightarrow> symbol_tree \<Rightarrow> bool" where
  "wf_tree p (Node s alts) \<longleftrightarrow> s = p \<and> distinct (map fst alts) \<and> list_all (\<lambda>(c, t). wf_tree (p @ [c]) t) alts"

definition munch :: "cstring \<Rightarrow> cstring list \<Rightarrow> Lexer \<Rightarrow> cstring \<times> Lexer \<Rightarrow> bool" where
  "munch p ls L r \<longleftrightarrow> (\<exists>n. fst r = p @ take n (rest L) \<and> n \<le> length (rest L) \<and> snd r = skipN n L \<and> fst r \<in> set ls \<and>
     (\<forall>l\<in>set ls. prefix l (p @ rest L) \<longrightarrow> length l \<le> length (fst r)))"

lemma labels_prefix: "wf_tree p t \<Longrightarrow> l \<in> set (labels t) \<Longrightarrow> prefix p l"
proof (induction t arbitrary: p)
  case (Node s alts)
  then show ?case by (fastforce simp: list_all_iff dest: append_prefixD)
qed

lemma alternatives_prefix:
  assumes "list_all (\<lambda>(c, t). wf_tree (p @ [c]) t) alts" "(c, t) \<in> set alts" "l \<in> set (labels t)"
  shows "prefix (p @ [c]) l"
  using assms by (auto simp: list_all_iff intro: labels_prefix)

lemma lexTree_munch:
  "wf_tree p t \<Longrightarrow> single L \<Longrightarrow> munch p (labels t) L (lexTree L t)"
  "list_all (\<lambda>(c, t). wf_tree (p @ [c]) t) alts \<Longrightarrow> distinct (map fst alts) \<Longrightarrow> single L \<Longrightarrow>
     (case lexAlternatives L alts of
        None \<Rightarrow> rest L = [] \<or> hd (rest L) \<notin> fst ` set alts
      | Some r \<Rightarrow> \<exists>t. (hd (rest L), t) \<in> set alts \<and> rest L \<noteq> [] \<and>
           munch (p @ [hd (rest L)]) (labels t) (skipN 1 L) r)"
proof (induction L t and L alts arbitrary: p and p rule: lexTree_lexAlternatives.induct)
  case (1 L s alts)
  note wf = 1(2) [unfolded wf_tree.simps]
  have IH: "case lexAlternatives L alts of
        None \<Rightarrow> rest L = [] \<or> hd (rest L) \<notin> fst ` set alts
      | Some r \<Rightarrow> \<exists>t. (hd (rest L), t) \<in> set alts \<and> rest L \<noteq> [] \<and>
           munch (p @ [hd (rest L)]) (labels t) (skipN 1 L) r"
    using 1(1) [of p] wf 1(3) by blast
  show ?case
  proof (cases "lexAlternatives L alts")
    case None
    have "length l \<le> length p" if "l \<in> set (labels (Node s alts))" "prefix l (p @ rest L)" for l
    proof (rule ccontr)
      assume "\<not> length l \<le> length p"
      with that wf obtain c t where ct: "(c, t) \<in> set alts" "l \<in> set (labels t)" by auto
      then have "prefix (p @ [c]) (p @ rest L)"
        using alternatives_prefix [of p alts c t l] wf that(2) prefix_order.order_trans by blast
      with None IH ct(1) show False by (cases "rest L") force+
    qed
    with None wf show ?thesis by (auto simp: munch_def intro!: exI [of _ 0])
  next
    case (Some r)
    with IH obtain t where t: "(hd (rest L), t) \<in> set alts" "rest L \<noteq> []"
        "munch (p @ [hd (rest L)]) (labels t) (skipN 1 L) r" by auto
    then obtain n where n: "fst r = p @ [hd (rest L)] @ take n (tl (rest L))" "n \<le> length (tl (rest L))"
        "snd r = skipN (Suc n) L" "fst r \<in> set (labels t)"
        "\<And>l. l \<in> set (labels t) \<Longrightarrow> prefix l (p @ rest L) \<Longrightarrow> length l \<le> length (fst r)"
      using single_skipN [OF 1(3), of 1] by (auto simp: munch_def skipN_add drop_Suc)
    have "length l \<le> length (fst r)" if l: "l \<in> set (labels (Node s alts))" "prefix l (p @ rest L)" for l
    proof (cases "l = p")
      case True
      then show ?thesis using n(1) by simp
    next
      case False
      with l wf obtain c t' where ct: "(c, t') \<in> set alts" "l \<in> set (labels t')" by auto
      then have "prefix (p @ [c]) (p @ rest L)"
        using alternatives_prefix [of p alts c t' l] wf l(2) prefix_order.order_trans by blast
      then have "c = hd (rest L)" using t(2) by (cases "rest L") auto
      with ct t(1) wf have "t' = t" by (meson eq_key_imp_eq_value)
      with n(5) ct l show ?thesis by simp
    qed
    moreover have "fst r = p @ take (Suc n) (rest L)" using n(1) t(2) by (cases "rest L") auto
    moreover have "fst r \<in> set (labels (Node s alts))" using n(4) t(1) by (auto intro!: bexI [of _ "(hd (rest L), t)"])
    moreover have "Suc n \<le> length (rest L)" using n(2) t(2) by (cases "rest L") auto
    moreover have "lexTree L (Node s alts) = r" using Some by simp
    ultimately show ?thesis unfolding munch_def using n(3) by blast
  qed
next
  case (2 L)
  then show ?case by simp
next
  case (3 L c t alts)
  show ?case
  proof (cases "rest L \<noteq> [] \<and> hd (rest L) = c")
    case True
    then have "acceptChar L c = Some (skipN 1 L)" using 3(5) by (auto simp: single_accept split: list.splits)
    with 3(2) [OF this] 3(3,5) True show ?thesis by (auto simp: single_skipN)
  next
    case False
    then have "acceptChar L c = None" using 3(5) by (auto simp: single_accept split: list.splits)
    moreover from 3(3,4) have "list_all (\<lambda>(c, t). wf_tree (p @ [c]) t) alts" "distinct (map fst alts)" by auto
    ultimately show ?thesis using 3(1) [of p, OF _ _ _ 3(5)] False
      by (cases "lexAlternatives L alts") auto
  qed
qed

lemma symbol_trees:
  "list_all (\<lambda>(c, t). wf_tree ([] @ [c]) t) punctuationSymbols" "distinct (map fst punctuationSymbols)"
  "list_all (\<lambda>(c, t). wf_tree ([] @ [c]) t) operatorSymbols" "distinct (map fst operatorSymbols)"
  by code_simp+

text \<open>The symbols the lexer produces: those of the list but the three names of operators that can
  be overridden.\<close>

definition lexedSymbols :: "cstring list" where
  "lexedSymbols = filter (\<lambda>s. s \<notin> {''()'', ''[]'', ''[]=''}) symbolList"

lemma symbols_in_trees:
  "list_all (\<lambda>s. list_all (\<lambda>(c, t). hd s = c \<longrightarrow> s \<in> set (labels t)) (punctuationSymbols @ operatorSymbols)) lexedSymbols"
  "list_all (\<lambda>(c, t). list_all (\<lambda>l. l \<in> set lexedSymbols) (labels t)) (punctuationSymbols @ operatorSymbols)"
  "list_all (\<lambda>s. s \<noteq> [] \<and> (hd s \<in> fst ` set punctuationSymbols \<or> hd s \<in> fst ` set operatorSymbols \<or>
      s = ''}'' \<or> s = ''/'' \<or> s = ''/='')) lexedSymbols"
  by code_simp+

lemma lexAlternatives_symbol:
  assumes "alts = punctuationSymbols \<or> alts = operatorSymbols" "single L" "rest L = s @ t" "s \<in> set lexedSymbols"
    and longest: "\<And>s'. s' \<in> set lexedSymbols \<Longrightarrow> prefix s' (s @ t) \<Longrightarrow> length s' \<le> length s"
    and "hd s \<in> fst ` set alts"
  shows "lexAlternatives L alts = Some (s, skipN (length s) L)"
proof -
  have ne: "s \<noteq> []" using assms(4) symbols_in_trees(3) by (auto simp: list_all_iff)
  then have hd: "hd (rest L) = hd s" "rest L \<noteq> []" using assms(3) by auto
  have "list_all (\<lambda>(c, t). wf_tree ([] @ [c]) t) alts" "distinct (map fst alts)"
    using assms(1) symbol_trees by blast+
  from lexTree_munch(2) [OF this assms(2)] assms(6) hd obtain r tr where
    r: "lexAlternatives L alts = Some r" "(hd s, tr) \<in> set alts" "munch [hd s] (labels tr) (skipN 1 L) r"
    by (cases "lexAlternatives L alts") auto
  have tr: "(hd s, tr) \<in> set (punctuationSymbols @ operatorSymbols)" using r(2) assms(1) by auto
  have eq: "[hd s] @ rest (skipN 1 L) = s @ t" using ne assms(2,3) by (cases s) (simp_all add: single_skipN)
  from r(3) obtain n where n: "fst r = [hd s] @ take n (rest (skipN 1 L))" "snd r = skipN n (skipN 1 L)"
      "n \<le> length (rest (skipN 1 L))" "fst r \<in> set (labels tr)"
      "\<And>l. l \<in> set (labels tr) \<Longrightarrow> prefix l (s @ t) \<Longrightarrow> length l \<le> length (fst r)"
    by (auto simp: munch_def eq [simplified])
  have pr: "prefix (fst r) (s @ t)" unfolding n(1) eq [symmetric] by (simp add: take_is_prefix)
  have "s \<in> set (labels tr)" using symbols_in_trees(1) tr assms(4) by (fastforce simp: list_all_iff)
  then have "length s \<le> length (fst r)" using n(5) by simp
  moreover have "fst r \<in> set lexedSymbols" using symbols_in_trees(2) tr n(4) by (fastforce simp: list_all_iff)
  then have "length (fst r) \<le> length s" using longest pr by blast
  ultimately have "fst r = s" using pr by (metis prefix_length_prefix prefix_order.antisym prefixI order_refl prefix_length_le)
  moreover from this n(1,3) have "Suc n = length s" by (metis One_nat_def Suc_eq_plus1 length_append length_take list.size(3,4) min.absorb2 plus_1_eq_Suc)
  ultimately show ?thesis using r(1) n(2) by (cases r) (simp add: skipN_add)
qed

lemma lexAlternatives_none:
  assumes "alts = punctuationSymbols \<or> alts = operatorSymbols" "single L" "hd (rest L) \<notin> fst ` set alts"
  shows "lexAlternatives L alts = None"
proof -
  have "list_all (\<lambda>(c, t). wf_tree ([] @ [c]) t) alts" "distinct (map fst alts)"
    using assms(1) symbol_trees by blast+
  from lexTree_munch(2) [OF this assms(2)] assms(3) show ?thesis
    by (cases "lexAlternatives L alts") force+
qed

section \<open>The prelude of a call\<close>

text \<open>A lexer on one buffer with no token pending from a string expression.\<close>

definition plain :: "Lexer \<Rightarrow> bool" where
  "plain L \<longleftrightarrow> single L \<and> \<not> hasFlag L lxEnterStringExpr \<and> \<not> hasFlag L lxExitStringExpr \<and> \<not> hasFlag L lxReturnLStrFmt"

lemma plain_single: "plain L \<Longrightarrow> single L"
  by (simp add: plain_def)

lemma hasFlag_skipN [simp]: "single L \<Longrightarrow> hasFlag (skipN n L) f = hasFlag L f"
  by (simp add: hasFlag_def single_skipN)

lemma hasFlag_other:
  assumes "f \<in> {lxEnterStringExpr, lxContinueStringExpr, lxExitStringExpr, lxReturnLStrFmt}"
  shows "hasFlag (clearFlag lxMaybeNotFloat L) f = hasFlag L f" "hasFlag (setFlag lxMaybeNotFloat L) f = hasFlag L f"
proof -
  have "NOT lxMaybeNotFloat AND f = f" "lxMaybeNotFloat AND f = 0" using assms by (auto simp: lx_defs)
  then show "hasFlag (clearFlag lxMaybeNotFloat L) f = hasFlag L f"
    "hasFlag (setFlag lxMaybeNotFloat L) f = hasFlag L f"
    by (simp_all add: hasFlag_def clearFlag_def setFlag_def and.assoc bit.conj_disj_distrib2)
qed

lemma hasFlag_cleared: "\<not> hasFlag (clearFlag f L) f"
  by (simp add: hasFlag_def clearFlag_def and.assoc)

text \<open>The state in which the main loop starts: the flag for member access is dropped unless a
  number or another dot follows.\<close>

definition entry :: "Lexer \<Rightarrow> Lexer" where
  "entry L = (if hasFlag L lxMaybeNotFloat \<and> \<not> isdigit (getCurChar L) \<and> getCurChar L \<noteq> CHR ''.''
      then clearFlag lxMaybeNotFloat L else L)"

lemma advanceLexer_plain: "plain L \<Longrightarrow> advanceLexer L = lexLoop (entry L)"
  by (simp add: advanceLexer_def plain_def entry_def)

lemma entry_same:
  "buffers (entry L) = buffers L" "rest (entry L) = rest L" "plain (entry L) = plain L"
  "hasFlag (entry L) lxContinueStringExpr = hasFlag L lxContinueStringExpr"
  "hasFlag (entry L) lxMaybeNotFloat \<Longrightarrow> hasFlag L lxMaybeNotFloat"
  by (auto simp: entry_def plain_def hasFlag_other hasFlag_cleared split: if_splits)

lemma popFinished_single: "single L \<Longrightarrow> popFinished L = L"
  by (subst popFinished.simps) (auto simp: single_def hasPrev_def)

lemma takeWhile_spaces: "list_all isspace ws \<Longrightarrow> s = [] \<or> \<not> isspace (hd s) \<Longrightarrow> takeWhile isspace (ws @ s) = ws"
  by (induction ws) (auto simp: takeWhile_eq_Nil_iff)

lemma lexOnce_plain:
  assumes "plain L" "rest L = ws @ s" "list_all isspace ws" "s = [] \<or> \<not> isspace (hd s)"
  shows "lexOnce L = (let L1 = skipN (length ws) L
     in if s = [] then Some (Emit (makeToken L1 (pos L1) tokEoF) L1) else lexToken (pos L1) L1)"
proof -
  have "skipSpaces L = skipN (length ws) L"
    using assms by (simp add: skipSpaces_def single_skipWhile plain_single takeWhile_spaces)
  moreover have "popFinished (skipN (length ws) L) = skipN (length ws) L"
    "isEofReached (skipN (length ws) L) \<longleftrightarrow> s = []"
    using assms(2) single_skipN [OF plain_single [OF assms(1)], of "length ws"]
    by (simp_all add: popFinished_single single_eof)
  ultimately show ?thesis using assms(1) by (simp add: lexOnce_def plain_def Let_def)
qed

lemma lexLoop_emit: "lexOnce L = Some (Emit tok L') \<Longrightarrow> lexLoop L = Some (Emit tok L')"
  by (subst lexLoop.simps) simp

text \<open>A call whose main loop reads a token after white space.\<close>

lemma advanceLexer_token:
  assumes "plain L" "rest L = ws @ s" "list_all isspace ws" "s \<noteq> []" "\<not> isspace (hd s)"
    and "\<And>L1. L1 = skipN (length ws) (entry L) \<Longrightarrow> single L1 \<Longrightarrow> rest L1 = s \<Longrightarrow> lexToken (pos L1) L1 = Some (Emit tok L')"
  shows "advanceLexer L = Some (Emit tok L')"
proof -
  have e: "plain (entry L)" "single (entry L)" "rest (entry L) = ws @ s"
    using assms(1,2) by (auto simp: entry_same plain_single)
  then have "lexOnce (entry L) = Some (Emit tok L')"
    using assms(3-6) single_skipN [OF e(2), of "length ws"] by (simp add: lexOnce_plain [OF e(1,3)] Let_def)
  then show ?thesis using assms(1) by (simp add: advanceLexer_plain lexLoop_emit)
qed

text \<open>The token covers the \<open>n\<close> characters after the next \<open>i\<close>.\<close>

definition spans :: "Token \<Rightarrow> Lexer \<Rightarrow> nat \<Rightarrow> nat \<Rightarrow> bool" where
  "spans tok L i n \<longleftrightarrow>
     byteOffset (tok_begin tok) = byteOffset (pos L) + i + baseOffset (buffer L) \<and>
     byteOffset (tok_end tok) = byteOffset (pos L) + i + n + baseOffset (buffer L) \<and>
     tok_buffer tok = buf_id (buffer L) \<and> tok_file tok = fileName (buffer L)"

lemma makeToken_spans:
  assumes "single L" "buffers L' = buffers (skipN n (skipN i L))"
  shows "spans (makeToken L' (pos (skipN i L)) tag) L i n"
  using assms by (simp add: spans_def makeToken_def makeToken_in_def makeToken_between_def addOffset_def single_skipN)

lemma rest_cong: "buffers L = buffers L' \<Longrightarrow> rest L = rest L'"
  by (simp add: rest_def)

lemma single_cong: "buffers L = buffers L' \<Longrightarrow> single L = single L'"
  by (simp add: single_def)

lemma symbols_not_space: "list_all (\<lambda>s. \<not> isspace (hd s)) lexedSymbols"
  by code_simp

lemma first_chars:
  "CHR ''}'' \<notin> fst ` set punctuationSymbols" "CHR ''}'' \<notin> fst ` set operatorSymbols"
  "CHR ''/'' \<notin> fst ` set punctuationSymbols" "CHR ''/'' \<notin> fst ` set operatorSymbols"
  "fst ` set punctuationSymbols \<inter> fst ` set operatorSymbols = {}"
  by code_simp+

lemma lexSymbol_result:
  assumes "lexAlternatives L alts = Some (s, L1)"
  obtains L' where "lexSymbol alts begin L = Some (Emit (makeToken L' begin (tokSymbol s)) L')" "buffers L' = buffers L1"
  using assms by (auto simp: lexSymbol_def Let_def)

lemma lexToken_symbol:
  assumes L: "single L" "rest L = s @ t" "s \<in> set lexedSymbols"
    and longest: "\<And>s'. s' \<in> set lexedSymbols \<union> {''//'', ''/*''} \<Longrightarrow> prefix s' (s @ t) \<Longrightarrow> length s' \<le> length s"
    and "s = ''}'' \<Longrightarrow> \<not> hasFlag L lxContinueStringExpr"
  shows "\<exists>L'. lexToken begin L = Some (Emit (makeToken L' begin (tokSymbol s)) L') \<and> buffers L' = buffers (skipN (length s) L)"
proof -
  have ne: "s \<noteq> []" using L(3) symbols_in_trees(3) by (auto simp: list_all_iff)
  then have hd: "hd (rest L) = hd s" "rest L = hd s # tl s @ t" using L(2) by auto
  have none: "lexSymbol alts begin L = None" if "alts = punctuationSymbols \<or> alts = operatorSymbols" "hd s \<notin> fst ` set alts" for alts
    using lexAlternatives_none [OF that(1) L(1)] that(2) hd by (simp add: lexSymbol_def)
  note some = lexAlternatives_symbol [OF _ L longest [OF UnI1]]
  consider (punct) "hd s \<in> fst ` set punctuationSymbols" | (oper) "hd s \<in> fst ` set operatorSymbols" "hd s \<notin> fst ` set punctuationSymbols"
    | (brace) "s = ''}''" | (slash) "s = ''/''" | (diveq) "s = ''/=''"
    using L(3) symbols_in_trees(3) by (auto simp: list_all_iff)
  then show ?thesis
  proof cases
    case punct
    from some [of punctuationSymbols] punct have "lexAlternatives L punctuationSymbols = Some (s, skipN (length s) L)" by blast
    then obtain L' where "lexSymbol punctuationSymbols begin L = Some (Emit (makeToken L' begin (tokSymbol s)) L')"
        "buffers L' = buffers (skipN (length s) L)" by (rule lexSymbol_result)
    then show ?thesis by (auto simp: lexToken_def)
  next
    case oper
    have "hd s \<noteq> CHR ''}''" using oper first_chars(2) by metis
    then have "acceptChar L CHR ''}'' = None" using hd L(1) by (simp add: single_accept)
    moreover from some [of operatorSymbols] oper(1) have "lexAlternatives L operatorSymbols = Some (s, skipN (length s) L)" by blast
    then obtain L' where "lexSymbol operatorSymbols begin L = Some (Emit (makeToken L' begin (tokSymbol s)) L')"
        "buffers L' = buffers (skipN (length s) L)" by (rule lexSymbol_result)
    ultimately show ?thesis using none [of punctuationSymbols] oper(2) by (auto simp: lexToken_def)
  next
    case brace
    then show ?thesis
      using none [of punctuationSymbols] first_chars(1) L assms(5) by (simp add: lexToken_def single_accept)
  next
    case slash
    have no: "t = [] \<or> hd t \<notin> {CHR ''/'', CHR ''*'', CHR ''=''}"
      using longest [of "''//''"] longest [of "''/*''"] longest [of "''/=''"] slash
      by (cases t) (auto simp: lexedSymbols_def symbolList_def)
    have "single (skipN 1 L)" "rest (skipN 1 L) = t" using L slash by (simp_all add: single_skipN)
    then have "lexSlash begin (skipN 1 L) = Emit (makeToken (skipN 1 L) begin (tokSymbol s)) (skipN 1 L)"
      using no slash by (auto simp: lexSlash_def single_accept split: list.splits)
    then show ?thesis using none [of punctuationSymbols] none [of operatorSymbols] first_chars L slash
      by (simp add: lexToken_def single_accept)
  next
    case diveq
    have "single (skipN 1 L)" "rest (skipN 1 L) = CHR ''='' # t" using L diveq by (simp_all add: single_skipN)
    then have "lexSlash begin (skipN 1 L) = Emit (makeToken (skipN 2 L) begin (tokSymbol s)) (skipN 2 L)"
      using diveq by (simp add: lexSlash_def single_accept skipN_add numeral_2_eq_2)
    then show ?thesis using none [of punctuationSymbols] none [of operatorSymbols] first_chars L diveq
      by (simp add: lexToken_def single_accept numeral_2_eq_2)
  qed
qed

text \<open>C1: symbols are read by maximal munch. On one buffer with no pending token, when the text
  after white space begins with a symbol that no longer symbol or comment opener extends, the
  next token is that symbol, it covers exactly its characters, and they are consumed. A closing
  brace inside a string expression continues the string instead.\<close>

theorem symbol_maximal_munch:
  assumes "plain L" "rest L = ws @ s @ t" "list_all isspace ws" "s \<in> set lexedSymbols"
    and longest: "\<And>s'. s' \<in> set lexedSymbols \<union> {''//'', ''/*''} \<Longrightarrow> prefix s' (s @ t) \<Longrightarrow> length s' \<le> length s"
    and "s = ''}'' \<Longrightarrow> \<not> hasFlag L lxContinueStringExpr"
  shows "\<exists>tok L'. advanceLexer L = Some (Emit tok L') \<and> tok_tag tok = tokSymbol s \<and>
     spans tok L (length ws) (length s) \<and> single L' \<and> rest L' = t"
proof -
  let ?L1 = "skipN (length ws) (entry L)"
  have ne: "s \<noteq> []" "\<not> isspace (hd s)" using assms(4) symbols_in_trees(3) symbols_not_space by (auto simp: list_all_iff)
  have e: "single (entry L)" using assms(1) by (simp add: entry_same plain_single)
  then have 1: "single ?L1" "rest ?L1 = s @ t" using assms(2) by (simp_all add: single_skipN entry_same)
  then obtain L' where L': "lexToken (pos ?L1) ?L1 = Some (Emit (makeToken L' (pos ?L1) (tokSymbol s)) L')"
      "buffers L' = buffers (skipN (length s) ?L1)"
    using lexToken_symbol [OF 1 assms(4) longest, of "pos ?L1"] assms(6) e by (auto simp: entry_same)
  then have "advanceLexer L = Some (Emit (makeToken L' (pos ?L1) (tokSymbol s)) L')"
    by (intro advanceLexer_token [OF assms(1,2,3)]) (use ne in auto)
  moreover have "spans (makeToken L' (pos ?L1) (tokSymbol s)) L (length ws) (length s)"
    using makeToken_spans [OF e L'(2)] by (simp add: spans_def entry_same)
  ultimately show ?thesis
    using rest_cong [OF L'(2)] single_cong [OF L'(2)] 1
    by (auto simp: single_skipN makeToken_def makeToken_in_def makeToken_between_def)
qed

lemma newLexer_plain:
  "plain (newLexer name data)" "rest (newLexer name data) = data" "\<not> hasFlag (newLexer name data) f"
  by (simp_all add: plain_def single_def rest_def hasFlag_def newLexer_def newOffsetLexer_def lxNone_def)

theorem symbol_maximal_munch_witness:
  "\<exists>tok L'. advanceLexer (newLexer ''a.cxy'' '' <<=x'') = Some (Emit tok L') \<and> tok_tag tok = tokSymbol ''<<='' \<and>
     spans tok (newLexer ''a.cxy'' '' <<=x'') 1 3 \<and> single L' \<and> rest L' = ''x''"
proof -
  have "list_all (\<lambda>s'. prefix s' ''<<=x'' \<longrightarrow> length s' \<le> 3) (''//'' # ''/*'' # lexedSymbols)"
    "''<<='' \<in> set lexedSymbols" "isspace CHR '' ''" by code_simp+
  then have "\<And>s'. s' \<in> set lexedSymbols \<union> {''//'', ''/*''} \<Longrightarrow> prefix s' (''<<='' @ ''x'') \<Longrightarrow> length s' \<le> length ''<<=''"
    by (auto simp: list_all_iff)
  from symbol_maximal_munch [OF newLexer_plain(1) _ _ \<open>''<<='' \<in> set lexedSymbols\<close> this, of "''a.cxy''" "'' <<=x''" "'' ''"]
  show ?thesis using \<open>isspace CHR '' ''\<close> by (auto simp: newLexer_plain numeral_3_eq_3)
qed

section \<open>Keywords and identifiers\<close>

lemma compareKeywords_keyword:
  "compareKeywords (keywordOf str) \<lparr>kw_name = w @ t, kw_len = length w, kw_tag = tag\<rparr> \<longleftrightarrow> str = w"
  "compareKeywords (keywordOf str) (keywordOf w) \<longleftrightarrow> str = w"
  by (auto simp: compareKeywords_def keywordOf_def)

lemma registerAll_ok:
  assumes "ht_inv ht" "\<And>h e. ht_mem ht h e \<Longrightarrow> \<exists>str. e = keywordOf str"
  shows "\<exists>ht'. registerAll ht strs = Some ht' \<and> ht_inv ht' \<and>
     (\<forall>h e. ht_mem ht' h e \<longleftrightarrow> ht_mem ht h e \<or>
        (\<exists>str\<in>set strs. e = keywordOf str \<and> h OR OCCUPIED_MASK = hashStr hashInit str OR OCCUPIED_MASK))"
  using assms
proof (induction strs arbitrary: ht)
  case (Cons str strs)
  let ?h = "hashStr hashInit str" and ?cmp = "\<lambda>stored. compareKeywords stored (keywordOf str)"
  have match: "ht_mem ht ?h (keywordOf str)" if "ht_mem ht ?h e" "?cmp e" for e
    using that Cons.prems(2) [OF that(1)] by (auto simp: compareKeywords_keyword)
  show ?case
  proof (cases "ht_mem ht ?h (keywordOf str)")
    case True
    then have "insertInHashTable ht (keywordOf str) ?h ?cmp = Some (False, ht)"
      using ht.insert_dup [OF Cons.prems(1) True] by (simp add: compareKeywords_keyword)
    moreover obtain t where "registerAll ht strs = Some t" "ht_inv t"
        "\<And>h e. ht_mem t h e \<longleftrightarrow> ht_mem ht h e \<or>
          (\<exists>str\<in>set strs. e = keywordOf str \<and> h OR OCCUPIED_MASK = hashStr hashInit str OR OCCUPIED_MASK)"
      using Cons.IH [OF Cons.prems(1)] Cons.prems(2) by blast
    moreover have "ht_mem ht h (keywordOf str)" if "h OR OCCUPIED_MASK = ?h OR OCCUPIED_MASK" for h
      using True that by (simp add: ht_mem_def)
    ultimately show ?thesis by auto
  next
    case False
    with match ht.insert_new [OF Cons.prems(1), of ?h ?cmp "keywordOf str"] obtain t where t:
        "insertInHashTable ht (keywordOf str) ?h ?cmp = Some (True, t)" "ht_inv t"
        "\<And>h e. ht_mem t h e \<longleftrightarrow> ht_mem ht h e \<or> h OR OCCUPIED_MASK = ?h OR OCCUPIED_MASK \<and> e = keywordOf str"
      by auto
    then have "\<exists>str. e = keywordOf str" if "ht_mem t h e" for h e using that Cons.prems(2) by blast
    with Cons.IH [OF t(2)] obtain u where "registerAll t strs = Some u" "ht_inv u"
        "\<And>h e. ht_mem u h e \<longleftrightarrow> ht_mem t h e \<or>
          (\<exists>str\<in>set strs. e = keywordOf str \<and> h OR OCCUPIED_MASK = hashStr hashInit str OR OCCUPIED_MASK)"
      by blast
    with t show ?thesis by auto
  qed
qed auto

lemma LEXER_KEYWORDS_ok:
  obtains ht where "LEXER_KEYWORDS = Some ht" "ht_inv ht"
    "\<And>h e. ht_mem ht h e \<longleftrightarrow>
        (\<exists>str\<in>set keywordList. e = keywordOf str \<and> h OR OCCUPIED_MASK = hashStr hashInit str OR OCCUPIED_MASK)"
proof -
  note new = newHashTableWithCapacity_inv [of 24, where 'e = Keyword]
  then have "\<not> ht_mem (newHashTableWithCapacity 24 :: Keyword HashTable) h e" for h e by (simp add: ht_mem_def)
  with registerAll_ok [OF conjunct1 [OF new], of keywordList] that show thesis
    by (auto simp: LEXER_KEYWORDS_def registerKeywords_def)
qed

lemma keywords_no_nul: "list_all (\<lambda>w. nul \<notin> set w) keywordList"
  by code_simp

lemma lookupKeyword_ok:
  "lookupKeyword (w @ t) (length w) = Some (if w \<in> set keywordList then Some (tokKeyword w) else None)"
proof -
  let ?h = "hashRawBytes hashInit (map byte_of (w @ t)) (length w)"
  let ?cmp = "\<lambda>stored. compareKeywords stored \<lparr>kw_name = w @ t, kw_len = length w, kw_tag = tokEoF\<rparr>"
  obtain ht where ht: "LEXER_KEYWORDS = Some ht" "ht_inv ht"
      "\<And>h e. ht_mem ht h e \<longleftrightarrow>
        (\<exists>str\<in>set keywordList. e = keywordOf str \<and> h OR OCCUPIED_MASK = hashStr hashInit str OR OCCUPIED_MASK)"
    using LEXER_KEYWORDS_ok by blast
  have h: "?h = hashStr hashInit w" if "w \<in> set keywordList"
    using that keywords_no_nul by (auto simp: list_all_iff hashStr_fold hashRawBytes_fold)
  have eq: "e = keywordOf w \<and> w \<in> set keywordList" if "ht_mem ht ?h e" "?cmp e" for e
    using that ht(3) by (auto simp: compareKeywords_keyword)
  show ?thesis
  proof (cases "w \<in> set keywordList")
    case True
    then have "ht_mem ht ?h (keywordOf w)" using ht(3) h by auto
    then obtain p e' where "findInHashTable ht ?h ?cmp = Some (Some p)" "ht_deref ht p = Some e'" "?cmp e'" "ht_mem ht ?h e'"
      using ht.find_mem [OF ht(2), of ?h "keywordOf w" ?cmp] by (auto simp: compareKeywords_keyword)
    with eq [of e'] have "findInHashTable ht ?h ?cmp = Some (Some p)" "ht_deref ht p = Some (keywordOf w)" by auto
    with True show ?thesis unfolding lookupKeyword_def ht(1) by (simp add: keywordOf_def del: map_append)
  next
    case False
    from ht.find_returns [OF ht(2), of ?h ?cmp] obtain r where r: "findInHashTable ht ?h ?cmp = Some r" by auto
    then have "r = None" using ht.find_hit [OF ht(2), of ?h ?cmp] eq False by (cases r) blast+
    with r False show ?thesis unfolding lookupKeyword_def ht(1) by (simp del: map_append)
  qed
qed

lemma takeWhile_word: "list_all P w \<Longrightarrow> t = [] \<or> \<not> P (hd t) \<Longrightarrow> takeWhile P (w @ t) = w"
  by (induction w) (auto simp: takeWhile_eq_Nil_iff)

lemma lexIdent_word:
  assumes "single L" "rest L = w @ t" "w \<noteq> []" "list_all isIdentChar w" "t = [] \<or> \<not> isIdentChar (hd t)"
  shows "lexIdent (buf_id (buffer L)) (pos L) L =
     (let L' = skipN (length w) L
      in Some (Emit (makeToken L' (pos L) (if w \<in> set keywordList then tokKeyword w else tokIdent)) L'))"
proof -
  obtain c w' where w: "w = c # w'" using assms(3) by (cases w) auto
  have "skipWhile isIdentChar (skipChar L) = skipN (length w') (skipChar L)"
    using assms w by (simp add: single_skipWhile single_skipChar takeWhile_word)
  then have sk: "skipWhile isIdentChar (skipChar L) = skipN (length w) L" using w by (simp add: skipN_Suc)
  have d: "drop (byteOffset (pos L)) (fileData (buffer L)) = w @ t" using assms(2) by (simp add: rest_def)
  show ?thesis
    unfolding lexIdent_def sk Let_def plain_tokens [OF assms(1)]
    using assms(1) d by (simp add: single_skipN lookupKeyword_ok makeToken_def)
qed

lemma ident_first:
  assumes "isIdentStart c"
  shows "c \<notin> fst ` set punctuationSymbols" "c \<notin> fst ` set operatorSymbols" "c \<noteq> CHR ''}''" "c \<noteq> CHR ''/''"
    "c \<noteq> quote" "c \<noteq> CHR 0x27" "\<not> isspace c"
proof -
  have "list_all (\<lambda>c. \<not> isIdentStart c) (map fst punctuationSymbols @ map fst operatorSymbols @ [CHR ''}'', CHR ''/'', quote, CHR 0x27])"
    by code_simp
  with assms show "c \<notin> fst ` set punctuationSymbols" "c \<notin> fst ` set operatorSymbols" "c \<noteq> CHR ''}''" "c \<noteq> CHR ''/''"
    "c \<noteq> quote" "c \<noteq> CHR 0x27" by (auto simp: list_all_iff)
  show "\<not> isspace c" using assms by (auto simp: isIdentStart_def ctype_defs)
qed

text \<open>The tests before the literals fail for a character that starts none of the symbols.\<close>

lemma lexToken_literal:
  assumes "single L" "rest L = c # s" "c \<notin> fst ` set punctuationSymbols" "c \<notin> fst ` set operatorSymbols"
    "c \<noteq> CHR ''}''" "c \<noteq> CHR ''/''"
  shows "lexToken begin L = lexLiteral (buf_id (buffer L)) begin L"
  using assms lexAlternatives_none [of punctuationSymbols L] lexAlternatives_none [of operatorSymbols L]
  by (simp add: lexToken_def lexSymbol_def single_accept)

lemma bufferOf_single: "single L \<Longrightarrow> bufferOf L (buf_id (buffer L)) = buffer L"
  by (auto simp: single_def bufferOf_def)

text \<open>C2: a word, a letter or underscore and the letters, digits and underscores after it, is read
  as one token; it is a keyword exactly when it is in the keyword list (looked up in the hash
  table the lexer fills at its first use) and an identifier otherwise. An \<open>f\<close> directly before a
  double quote starts a string expression instead.\<close>

theorem word_is_keyword_or_identifier:
  assumes "plain L" "rest L = ws @ w @ t" "list_all isspace ws" "w \<noteq> []" "isIdentStart (hd w)" "list_all isIdentChar w"
    "t = [] \<or> \<not> isIdentChar (hd t)" "\<not> (w = ''f'' \<and> t \<noteq> [] \<and> hd t = quote)"
  shows "\<exists>tok L'. advanceLexer L = Some (Emit tok L') \<and>
     tok_tag tok = (if w \<in> set keywordList then tokKeyword w else tokIdent) \<and>
     spans tok L (length ws) (length w) \<and> plain L' \<and> rest L' = t"
proof -
  let ?L1 = "skipN (length ws) (entry L)" and ?tag = "if w \<in> set keywordList then tokKeyword w else tokIdent"
  let ?L' = "skipN (length w) ?L1"
  let ?tok = "makeToken ?L' (pos ?L1) ?tag"
  have e: "plain (entry L)" "single (entry L)" using assms(1) by (auto simp: entry_same plain_single)
  then have 1: "single ?L1" "rest ?L1 = w @ t" using assms(2) by (simp_all add: single_skipN entry_same)
  obtain c w' where w: "w = c # w'" using assms(4) by (cases w) auto
  note first = ident_first [OF assms(5)]
  have nf: "\<not> (getCurChar ?L1 = CHR ''f'' \<and> peekNextChar ?L1 = quote)"
  proof
    assume f: "getCurChar ?L1 = CHR ''f'' \<and> peekNextChar ?L1 = quote"
    moreover have "\<not> isIdentChar quote" by code_simp
    ultimately show False
      using 1 w assms(6,8) single_peek [OF 1(1), of c "w' @ t"]
      by (cases w'; cases t) (auto simp: single_cur EOF_def)
  qed
  have "isIdentStart (getCurChar ?L1)" using 1 w assms(5) by (simp add: single_cur)
  moreover have "lexToken (pos ?L1) ?L1 = lexLiteral (buf_id (buffer ?L1)) (pos ?L1) ?L1"
    using 1 w first by (intro lexToken_literal [OF 1(1), of c "w' @ t"]) auto
  moreover have "acceptChar ?L1 quote = None" "acceptChar ?L1 CHR 0x27 = None"
    using 1 w first by (simp_all add: single_accept)
  ultimately have "lexToken (pos ?L1) ?L1 = Some (Emit ?tok ?L')"
    using nf lexIdent_word [OF 1 assms(4,6,7)]
    by (simp add: lexLiteral_def bufferOf_single [OF 1(1)] Let_def)
  then have "advanceLexer L = Some (Emit ?tok ?L')"
    by (intro advanceLexer_token [OF assms(1,2,3)]) (use assms(4) first in auto)
  moreover have "spans ?tok L (length ws) (length w)"
    using makeToken_spans [OF e(2) refl] by (simp add: spans_def entry_same)
  moreover have "plain ?L'" "rest ?L' = t" using e(1) 1 by (simp_all add: plain_def single_skipN)
  ultimately show ?thesis by (auto simp: makeToken_def makeToken_in_def makeToken_between_def)
qed

theorem word_is_keyword_or_identifier_witness:
  "\<exists>tok L'. advanceLexer (newLexer ''a.cxy'' ''func f'') = Some (Emit tok L') \<and> tok_tag tok = tokKeyword ''func'' \<and>
     spans tok (newLexer ''a.cxy'' ''func f'') 0 4 \<and> plain L' \<and> rest L' = '' f''"
proof -
  have "list_all isIdentChar ''func''" "isIdentStart (hd ''func'')" "\<not> isIdentChar (hd '' f'')" "''func'' \<in> set keywordList"
    by code_simp+
  then show ?thesis
    using word_is_keyword_or_identifier [OF newLexer_plain(1), of "''a.cxy''" "''func f''" "[]" "''func''" "'' f''"]
    by (simp add: newLexer_plain eval_nat_numeral)
qed

section \<open>Integer literals\<close>

lemma char_code_iff: "c = d \<longleftrightarrow> code c = code d"
  by simp

lemma digit_tests:
  "digit_in 2 c \<longleftrightarrow> c = CHR ''0'' \<or> c = CHR ''1''" "digit_in 8 c \<longleftrightarrow> isodigit c"
  "digit_in 10 c \<longleftrightarrow> isdigit c" "digit_in 16 c \<longleftrightarrow> isxdigit c"
  by (auto simp: digit_in_def digitOf_def isodigit_def isxdigit_def isdigit_def in_range_def char_code_iff [of c] split: if_splits)

lemma digit_in_16: "b \<le> 16 \<Longrightarrow> digit_in b c \<Longrightarrow> digit_in 16 c"
  by (auto simp: digit_in_def)

lemma after_literal: "isSpaceOrPunctuation c \<Longrightarrow> \<not> isIdentChar c"
  by (auto simp: isSpaceOrPunctuation_def isIdentChar_def ctype_defs)

lemma ident_digit: "isxdigit c \<Longrightarrow> isIdentChar c" "digit_in 16 c \<Longrightarrow> isIdentChar c"
  by (auto simp: digit_tests isIdentChar_def ctype_defs)

definition saturated :: "nat \<Rightarrow> u128" where
  "saturated n = (if n < 2 ^ 128 then of_nat n else - 1)"

lemma strtou128_literal:
  assumes "b \<in> {2, 8, 10, 16}" "ds \<noteq> []" "list_all (digit_in b) ds" "t = [] \<or> isSpaceOrPunctuation (hd t)"
  shows "fst (strtou128 (Some (ds @ t)) b) = saturated (digits_val b 0 ds)"
proof -
  have "digit_in b c \<Longrightarrow> digit_in 16 c" for c using assms(1) digit_in_16 [of b c] by auto
  moreover have "isIdentChar CHR ''x''" "isIdentChar CHR ''X''" "isIdentChar CHR ''b''" "isIdentChar CHR ''B''" by code_simp+
  ultimately have "t = [] \<or> \<not> digit_in b (cur t) \<and> cur t \<notin> {CHR ''x'', CHR ''X'', CHR ''b'', CHR ''B''}"
    using assms(4) after_literal ident_digit(2) by (cases t) auto
  moreover have "2 \<le> b" "b \<le> 36" using assms(1) by auto
  ultimately show ?thesis using strtou128_digits [of b ds t] assms(2,3) by (auto simp: saturated_def split: if_splits)
qed

lemma lexBased_value:
  assumes "single L" "rest L = ds @ t" "b \<in> {2, 8, 16}" "ds \<noteq> []" "list_all (digit_in b) ds"
    "t = [] \<or> isSpaceOrPunctuation (hd t)" "P = digit_in b"
  shows "lexBased P b err begin L =
     Emit (makeIntLiteral (skipN (length ds) L) begin (saturated (digits_val b 0 ds))) (skipN (length ds) L)"
proof -
  have "\<not> digit_in b (hd t)" if "t \<noteq> []"
    using that assms(3,6) after_literal [of "hd t"] ident_digit(2) [of "hd t"] digit_in_16 [of b "hd t"] by auto
  then have "t = [] \<or> \<not> digit_in b (hd t)" by blast
  with assms(1,2,5,7) have "skipWhile P L = skipN (length ds) L" by (simp add: single_skipWhile takeWhile_word)
  moreover have "getCurPtr L = ds @ t" using assms(1,2,4) by (simp add: getCurPtr_def single_eof) (simp add: rest_def)
  moreover have "t = [] \<or> isSpaceOrPunctuation (getCurChar (skipN (length ds) L))" "isEofReached (skipN (length ds) L) \<longleftrightarrow> t = []"
    using assms(1,2,6) by (auto simp: single_cur single_eof single_skipN split: list.splits)
  moreover have "b \<in> {2, 8, 10, 16}" using assms(3) by auto
  ultimately show ?thesis
    using strtou128_literal [OF _ assms(4,5,6)] by (auto simp: lexBased_def Let_def)
qed

definition isFraction :: "cstring \<Rightarrow> bool" where
  "isFraction t \<longleftrightarrow> (case t of c # d # _ \<Rightarrow> c = CHR ''.'' \<and> isdigit d | _ \<Rightarrow> False)"

lemma lexDecimal_value:
  assumes "single L" "rest L = ds @ t" "list_all isdigit ds" "list_all isdigit ds0" "ds0 @ ds \<noteq> []"
    "t = [] \<or> isSpaceOrPunctuation (hd t)" "\<not> isFraction t \<or> hasFlag L lxMaybeNotFloat"
  shows "lexDecimal (ds0 @ ds @ t) begin L =
     Emit (makeIntLiteral (skipN (length ds) L) begin (saturated (digits_val 10 0 (ds0 @ ds)))) (skipN (length ds) L)"
proof -
  let ?L1 = "skipN (length ds) L"
  have 1: "single ?L1" "rest ?L1 = t" using assms(1,2) by (simp_all add: single_skipN)
  have "\<not> isdigit (hd t)" if "t \<noteq> []"
    using that assms(6) after_literal ident_digit(1) by (auto simp: ctype_defs)
  then have "t = [] \<or> \<not> isdigit (hd t)" by blast
  with assms(1-3) have "skipWhile isdigit L = ?L1" by (simp add: single_skipWhile takeWhile_word)
  moreover have "\<not> (getCurChar ?L1 = CHR ''.'' \<and> isdigit (peekNextChar ?L1) \<and> \<not> hasFlag ?L1 lxMaybeNotFloat)"
    using 1 assms(1,7) single_peek [OF 1(1)]
    by (auto simp: single_cur isFraction_def EOF_def ctype_defs split: list.splits)
  moreover have "list_all (digit_in 10) (ds0 @ ds)" using assms(3,4) by (auto simp: digit_tests list_all_iff)
  ultimately show ?thesis
    using strtou128_literal [of 10 "ds0 @ ds" t] assms(5,6) unfolding lexDecimal_def Let_def by auto
qed

text \<open>The prefixes of integer literals, with their bases.\<close>

definition literalPrefixes :: "(cstring \<times> nat) list" where
  "literalPrefixes = [([], 10), (''0b'', 2), (''0o'', 8), (''0x'', 16)]"

lemma lexNumber_value:
  assumes "single L" "rest L = p @ ds @ t" "(p, b) \<in> set literalPrefixes" "ds \<noteq> []" "list_all (digit_in b) ds"
    "t = [] \<or> isSpaceOrPunctuation (hd t)" "p = [] \<Longrightarrow> \<not> isFraction t \<or> hasFlag L lxMaybeNotFloat"
  shows "lexNumber begin L = (let L' = skipN (length p + length ds) L
     in Emit (makeIntLiteral L' begin (saturated (digits_val b 0 ds))) L')"
proof -
  let ?L1 = "skipChar L"
  have 1: "single ?L1" "rest ?L1 = tl (p @ ds @ t)" using assms(1,2) by (simp_all add: single_skipChar)
  have 2: "single (skipN 1 ?L1)" "rest (skipN 1 ?L1) = tl (tl (p @ ds @ t))" using 1 by (simp_all add: single_skipN drop_Suc)
  have sk: "skipN n (skipN 1 ?L1) = skipN (2 + n) L" for n by (simp add: skipN_Suc skipN_add numeral_2_eq_2)
  note based = lexBased_value [OF 2(1) _ _ assms(4,5,6)]
  note ev = lexNumber_def single_cur single_accept digit_tests fun_eq_iff sk [simplified] Let_def
  consider (bin) "p = ''0b''" "b = 2" | (oct) "p = ''0o''" "b = 8" | (hex) "p = ''0x''" "b = 16" | (dec) "p = []" "b = 10"
    using assms(3) by (auto simp: literalPrefixes_def)
  then show ?thesis
  proof cases
    case bin
    then show ?thesis using based [where P = "\<lambda>c. c = CHR ''0'' \<or> c = CHR ''1''"] 1 2(2) assms(1,2) by (simp add: ev)
  next
    case oct
    then show ?thesis using based [where P = isodigit] 1 2(2) assms(1,2) by (simp add: ev)
  next
    case hex
    then show ?thesis using based [where P = isxdigit] 1 2(2) assms(1,2) by (simp add: ev)
  next
    case dec
    obtain c ds' where ds: "ds = c # ds'" using assms(4) by (cases ds) auto
    have dig: "isdigit c" "list_all isdigit ds'" using assms(5) ds dec by (auto simp: digit_tests list_all_iff)
    have r1: "rest ?L1 = ds' @ t" using 1 ds dec by simp
    have "isIdentChar CHR ''b''" "isIdentChar CHR ''x''" "isIdentChar CHR ''o''" by code_simp+
    moreover have "\<not> isdigit CHR ''b''" "\<not> isdigit CHR ''x''" "\<not> isdigit CHR ''o''" by code_simp+
    ultimately have "rest ?L1 = [] \<or> hd (rest ?L1) \<notin> {CHR ''b'', CHR ''x'', CHR ''o''}"
      using r1 dig(2) assms(6) after_literal [of "hd t"] by (cases ds'; cases t) auto
    then have no: "acceptChar ?L1 CHR ''b'' = None" "acceptChar ?L1 CHR ''x'' = None" "acceptChar ?L1 CHR ''o'' = None"
      using 1(1) by (auto simp: single_accept split: list.splits)
    have ptr: "getCurPtr L = [c] @ ds' @ t" using assms(1,2) ds dec by (simp add: getCurPtr_def single_eof) (simp add: rest_def)
    have "hasFlag ?L1 lxMaybeNotFloat = hasFlag L lxMaybeNotFloat" using assms(1) by (simp add: hasFlag_def single_skipChar)
    then have "lexDecimal ([c] @ ds' @ t) begin ?L1 =
        Emit (makeIntLiteral (skipN (length ds') ?L1) begin (saturated (digits_val 10 0 ([c] @ ds')))) (skipN (length ds') ?L1)"
      using dig assms(6,7) dec by (intro lexDecimal_value [OF 1(1) r1]) auto
    with no ptr ds dec show ?thesis unfolding lexNumber_def Let_def by (simp add: skipN_Suc)
  qed
qed

lemma digit_first:
  assumes "isdigit c"
  shows "c \<notin> fst ` set punctuationSymbols" "c \<notin> fst ` set operatorSymbols" "c \<noteq> CHR ''}''" "c \<noteq> CHR ''/''"
    "c \<noteq> quote" "c \<noteq> CHR 0x27" "\<not> isspace c" "\<not> isIdentStart c" "c \<noteq> CHR ''f''"
proof -
  have "list_all (\<lambda>c. \<not> isdigit c) (map fst punctuationSymbols @ map fst operatorSymbols @ [CHR ''}'', CHR ''/'', quote, CHR 0x27, CHR ''f''])"
    by code_simp
  with assms show "c \<notin> fst ` set punctuationSymbols" "c \<notin> fst ` set operatorSymbols" "c \<noteq> CHR ''}''" "c \<noteq> CHR ''/''"
    "c \<noteq> quote" "c \<noteq> CHR 0x27" "c \<noteq> CHR ''f''" by (auto simp: list_all_iff)
  show "\<not> isspace c" "\<not> isIdentStart c" using assms by (auto simp: isIdentStart_def ctype_defs)
qed

lemma lexToken_number:
  assumes "single L" "rest L = c # s" "isdigit c"
  shows "lexToken (pos L) L = Some (lexNumber (pos L) L)"
proof -
  note first = digit_first [OF assms(3)]
  have "lexToken (pos L) L = lexLiteral (buf_id (buffer L)) (pos L) L"
    using lexToken_literal [OF assms(1,2)] first by blast
  moreover have "getCurChar L = c" "acceptChar L quote = None" "acceptChar L CHR 0x27 = None"
    using assms(1,2) first by (simp_all add: single_cur single_accept)
  ultimately show ?thesis using first assms(3) by (simp add: lexLiteral_def bufferOf_single [OF assms(1)])
qed

lemma makeIntLiteral_simps:
  "tok_tag (makeIntLiteral L begin v) = tokIntLiteral" "tok_value (makeIntLiteral L begin v) = IntValue v"
  "spans (makeIntLiteral L begin v) L2 i n = spans (makeToken L begin tokIntLiteral) L2 i n"
  by (simp_all add: makeIntLiteral_def makeToken_def makeToken_in_def makeToken_between_def spans_def)

text \<open>C16: an integer literal in base 10, 2 (\<open>0b\<close>), 8 (\<open>0o\<close>) or 16 (\<open>0x\<close>) that ends at the end of
  the file, a space or a punctuation character is one token with the value of its digits; a
  value of 2 to the 128 or more becomes the greatest one without an error. A decimal number before a dot and a
  digit is an integer only directly after a member access.\<close>

theorem integer_literal_value:
  assumes "plain L" "rest L = ws @ p @ ds @ t" "list_all isspace ws" "(p, b) \<in> set literalPrefixes" "ds \<noteq> []"
    "list_all (digit_in b) ds" "t = [] \<or> isSpaceOrPunctuation (hd t)"
    "p = [] \<Longrightarrow> \<not> isFraction t \<or> hasFlag L lxMaybeNotFloat \<and> ws = []"
  shows "\<exists>tok L'. advanceLexer L = Some (Emit tok L') \<and> tok_tag tok = tokIntLiteral \<and>
     tok_value tok = IntValue (if digits_val b 0 ds < 2 ^ 128 then of_nat (digits_val b 0 ds) else - 1) \<and>
     spans tok L (length ws) (length p + length ds) \<and> plain L' \<and> rest L' = t"
proof -
  let ?L1 = "skipN (length ws) (entry L)"
  let ?L' = "skipN (length p + length ds) ?L1"
  let ?tok = "makeIntLiteral ?L' (pos ?L1) (saturated (digits_val b 0 ds))"
  have e: "plain (entry L)" "single (entry L)" using assms(1) by (auto simp: entry_same plain_single)
  then have 1: "single ?L1" "rest ?L1 = p @ ds @ t" using assms(2) by (simp_all add: single_skipN entry_same)
  obtain c s where cs: "p @ ds @ t = c # s" "isdigit c"
  proof (cases p)
    case Nil
    then show thesis using assms(4-6) that by (cases ds) (auto simp: literalPrefixes_def digit_tests)
  next
    case (Cons c p')
    moreover have "isdigit CHR ''0''" by code_simp
    ultimately show thesis using assms(4) that by (auto simp: literalPrefixes_def)
  qed
  have "\<not> isFraction t \<or> hasFlag ?L1 lxMaybeNotFloat" if "p = []"
    using assms(1,2,8) that cs e(2) by (auto simp: entry_def single_cur plain_single)
  then have "lexNumber (pos ?L1) ?L1 = Emit ?tok ?L'"
    using lexNumber_value [OF 1 assms(4-7), of "pos ?L1"] by (simp add: Let_def)
  with lexToken_number [OF 1(1) _ cs(2)] 1 cs(1) have "lexToken (pos ?L1) ?L1 = Some (Emit ?tok ?L')" by simp
  then have "advanceLexer L = Some (Emit ?tok ?L')"
    by (intro advanceLexer_token [OF assms(1,2,3)]) (use cs digit_first [OF cs(2)] in auto)
  moreover have "spans ?tok L (length ws) (length p + length ds)"
    using makeToken_spans [OF e(2) refl, of "length p + length ds" "length ws" tokIntLiteral]
    by (simp add: makeIntLiteral_simps) (simp add: spans_def entry_same)
  moreover have "plain ?L'" "rest ?L' = t" using e(1) 1 by (simp_all add: plain_def single_skipN)
  ultimately show ?thesis by (auto simp: makeIntLiteral_simps saturated_def)
qed

theorem integer_literal_value_witness:
  "\<exists>tok L'. advanceLexer (newLexer ''a.cxy'' ''0xff;'') = Some (Emit tok L') \<and> tok_tag tok = tokIntLiteral \<and>
     tok_value tok = IntValue 255 \<and> spans tok (newLexer ''a.cxy'' ''0xff;'') 0 4 \<and> plain L' \<and> rest L' = '';''"
proof -
  have "(''0x'', 16) \<in> set literalPrefixes" "list_all (digit_in 16) ''ff''" "isSpaceOrPunctuation CHR '';''"
    by code_simp+
  moreover have "digits_val 16 0 ''ff'' = 255" "length ''0x'' + length ''ff'' = 4" by (simp_all add: digitOf_def in_range_def)
  moreover note integer_literal_value [OF newLexer_plain(1), of "''a.cxy''" "''0xff;''" "[]" "''0x''" "''ff''" "'';''" 16]
  moreover have "Suc (Suc (Suc (Suc 0))) = 4" by simp
  ultimately show ?thesis by (simp add: newLexer_plain del: digits_val_simps)
qed

section \<open>Literals that are not closed, and other surprises\<close>







text \<open>The tokens of a file, with their values and the first errors.\<close>

definition tokensOf :: "nat \<Rightarrow> cstring \<Rightarrow> (TokenTag \<times> token_value \<times> nat \<times> nat) list option" where
  "tokensOf n data = map_option (map (\<lambda>t. (tok_tag t, tok_value t, byteOffset (tok_begin t), byteOffset (tok_end t))))
     (lexAll n (newLexer ''a.cxy'' data))"

text \<open>A base prefix without digits takes its value from the text after the token:
  \<open>0x 12\<close> is read as the number 18 followed by the number 12, and \<open>0b+1\<close> as 1, plus, 1.\<close>

theorem prefix_without_digits_reads_on:
  "tokensOf 5 ''0x 12'' = Some [(tokIntLiteral, IntValue 18, 0, 2), (tokIntLiteral, IntValue 12, 3, 5)] \<and>
   tokensOf 5 ''0b+1'' =
     Some [(tokIntLiteral, IntValue 1, 0, 2), (tokSymbol ''+'', NoValue, 2, 3), (tokIntLiteral, IntValue 1, 3, 4)]"
  by code_simp

text \<open>Two opening braces do not stand for a brace in a string expression: the second one
  opens an expression, although the code compares the next character to tell them apart.\<close>

theorem double_brace_opens_expression:
  "tokensOf 8 (''f'' @ quote # ''a{{7}b'' @ [quote]) =
     Some [(tokLString, NoValue, 0, 1), (tokStringLiteral, NoValue, 2, 4), (tokLStrFmt, NoValue, 5, 5),
       (tokIntLiteral, IntValue 7, 5, 6), (tokStringLiteral, NoValue, 7, 8), (tokRString, NoValue, 9, 9)]"
  by code_simp

section \<open>A file without quotes is read to its end\<close>

text \<open>\<open>L'\<close> is reached from \<open>L\<close> by skipping characters, at least one for \<open>adv1\<close>.\<close>

definition adv :: "Lexer \<Rightarrow> Lexer \<Rightarrow> bool" where
  "adv L L' \<longleftrightarrow> (\<exists>n. L' = skipN n L)"

definition adv1 :: "Lexer \<Rightarrow> Lexer \<Rightarrow> bool" where
  "adv1 L L' \<longleftrightarrow> (\<exists>n. L' = skipN (Suc n) L)"

lemma adv_refl [simp]: "adv L L"
  by (auto simp: adv_def intro: exI [of _ 0])

lemma adv_trans: "adv L L1 \<Longrightarrow> adv L1 L2 \<Longrightarrow> adv L L2"
  by (auto simp: adv_def skipN_add)

lemma adv1_trans: "adv1 L L1 \<Longrightarrow> adv L1 L2 \<Longrightarrow> adv1 L L2"
  by (auto simp: adv_def adv1_def skipN_add)

lemma adv1_adv: "adv1 L L1 \<Longrightarrow> adv L L1"
  by (auto simp: adv_def adv1_def)

lemma adv_single: "single L \<Longrightarrow> adv L L' \<Longrightarrow> single L'"
  by (auto simp: adv_def single_skipN)

lemma adv_accept: "acceptChar L c = Some L' \<Longrightarrow> adv1 L L'"
  by (auto simp: acceptChar_def adv1_def skipN_Suc intro!: exI [of _ 0] split: if_splits)

lemma adv_skipChar: "adv1 L (skipChar L)"
  by (auto simp: adv1_def skipN_Suc intro!: exI [of _ 0])

lemma adv_skipWhile: "single L \<Longrightarrow> adv L (skipWhile P L)"
  by (auto simp: adv_def single_skipWhile)

lemma skipMultiLineComment_adv: "single L \<Longrightarrow> skipMultiLineComment L nest = (closed, L') \<Longrightarrow> adv L L'"
proof (induction L nest rule: skipMultiLineComment.induct)
  case (1 L nest)
  have one: "single x" "adv x L' \<Longrightarrow> adv L L'" if "acceptChar L c = Some x" for c x
    using that adv_accept [OF that] 1(6) by (auto intro: adv_single adv_trans dest: adv1_adv)
  have two: "single y" "adv y L' \<Longrightarrow> adv L L'" if "acceptChar L c = Some x" "acceptChar x d = Some y" for c d x y
    using adv_accept [OF that(2)] one [OF that(1)] by (auto intro: adv_single adv_trans dest: adv1_adv)
  have skip: "single (skipChar L)" "adv (skipChar L) L' \<Longrightarrow> adv L L'"
    using adv_skipChar [of L] 1(6) by (auto intro: adv_single adv_trans dest: adv1_adv)
  show ?case
  proof (cases "nest > 0 \<and> \<not> isEofReached L")
    case False
    then show ?thesis using 1(7) by (subst (asm) skipMultiLineComment.simps) auto
  next
    case True
    with 1(6) have g: "0 < nest \<and> valid L \<and> \<not> isEofReached L" by simp
    note eq = 1(7) [unfolded skipMultiLineComment.simps [of L] if_P [OF g]]
    show ?thesis
    proof (cases "acceptChar L CHR ''/''")
      case (Some L1)
      with eq 1(4,5) [OF g Some] one [OF Some] two [OF Some] show ?thesis
        by (cases "acceptChar L1 CHR ''*''") auto
    next
      case slash: None
      show ?thesis
      proof (cases "acceptChar L CHR ''*''")
        case (Some L1)
        with slash eq 1(2,3) [OF g slash Some] one [OF Some] two [OF Some] show ?thesis
          by (cases "acceptChar L1 CHR ''/''") auto
      next
        case None
        with slash eq 1(1) [OF g slash None] skip show ?thesis by auto
      qed
    qed
  qed
qed

lemma lexSlash_adv:
  assumes "single L"
  shows "(\<exists>tok L'. lexSlash begin L = Emit tok L' \<and> tok_tag tok \<noteq> tokEoF \<and> adv L L') \<or>
     (\<exists>L'. lexSlash begin L = Again L' \<and> adv L L')"
proof (cases "acceptChar L CHR ''/''")
  case (Some L1)
  then have "adv L L1" using adv_accept adv1_adv by blast
  then have "adv L (skipSingleLineComment L1)"
    using adv_single [OF assms] adv_skipWhile adv_trans unfolding skipSingleLineComment_def by blast
  with Some show ?thesis by (simp add: lexSlash_def)
next
  case slash: None
  show ?thesis
  proof (cases "acceptChar L CHR ''*''")
    case (Some L1)
    obtain closed L2 where c: "skipMultiLineComment L1 1 = (closed, L2)" by force
    have "adv L L1" using Some adv_accept adv1_adv by blast
    then have "adv L L2" using adv_single [OF assms] skipMultiLineComment_adv [OF _ c] adv_trans by blast
    with slash Some c show ?thesis
      by (auto simp: lexSlash_def makeInvalidToken_def makeToken_def makeToken_in_def makeToken_between_def)
  next
    case None
    with slash show ?thesis
      by (cases "acceptChar L CHR ''=''")
        (auto simp: lexSlash_def makeToken_def makeToken_in_def makeToken_between_def dest!: adv_accept adv1_adv)
  qed
qed

lemmas make_defs = makeInvalidToken_def makeIntLiteral_def makeFloatLiteral_def makeToken_def makeToken_in_def makeToken_between_def

lemma make_tags [simp]:
  "tok_tag (makeToken L begin tag) = tag" "tok_tag (makeIntLiteral L begin v) = tokIntLiteral"
  "tok_tag (makeFloatLiteral L begin x) = tokFloatLiteral" "tok_tag (makeInvalidToken L begin err) = tokError"
  by (simp_all add: make_defs)

lemma skipExponent_adv: "single L \<Longrightarrow> adv L (skipExponent L)"
proof (cases "acceptChar L CHR ''e''")
  case (Some L1)
  assume "single L"
  obtain L2 where L2: "skipExponent L = skipWhile isdigit L2" "adv L1 L2"
    using Some adv_accept adv1_adv
    by (auto simp: skipExponent_def Let_def split: option.splits)
  have "adv L L2" using L2(2) adv_accept [OF Some] adv1_adv adv_trans by blast
  then show ?thesis unfolding L2(1) using \<open>single L\<close> adv_skipWhile adv_single adv_trans by blast
qed (simp add: skipExponent_def)

lemma lexBased_adv:
  assumes "single L"
  obtains tok L' where "lexBased P b err begin L = Emit tok L'" "tok_tag tok \<noteq> tokEoF" "adv L L'"
proof -
  have "adv L (skipWhile P L)" "adv L (skipUntilSpaceOrPunctuation (skipWhile P L))"
    using assms adv_skipWhile adv_single adv_trans unfolding skipUntilSpaceOrPunctuation_def by blast+
  then show thesis using that
    by (cases "\<not> isEofReached (skipWhile P L) \<and> \<not> isSpaceOrPunctuation (getCurChar (skipWhile P L))")
      (auto simp: lexBased_def Let_def make_defs)
qed

lemma lexDecimal_adv:
  assumes "single L"
  obtains tok L' where "lexDecimal ptr begin L = Emit tok L'" "tok_tag tok \<noteq> tokEoF" "adv L L'"
proof -
  have 1: "adv L (skipWhile isdigit L)" using assms by (rule adv_skipWhile)
  then have "adv L (skipChar (skipWhile isdigit L))" using adv_skipChar adv1_adv adv_trans by blast
  then have "adv L (skipExponent (skipWhile isdigit (skipChar (skipWhile isdigit L))))"
    using assms adv_skipWhile adv_single adv_trans skipExponent_adv by meson
  moreover have "lexDecimal ptr begin L \<in> {Emit (makeFloatLiteral L' begin ptr) L' | L'. L' = skipExponent (skipWhile isdigit (skipChar (skipWhile isdigit L)))} \<union>
      {Emit (makeIntLiteral L' begin v) L' | L' v. L' = skipWhile isdigit L}"
    unfolding lexDecimal_def Let_def by auto
  ultimately show thesis using 1 by (auto intro: that [rotated 2])
qed

lemma lexNumber_adv:
  assumes "single L"
  obtains tok L' where "lexNumber begin L = Emit tok L'" "tok_tag tok \<noteq> tokEoF" "adv1 L L'"
proof -
  let ?L1 = "skipChar L"
  have 1: "adv1 L ?L1" "single ?L1" using assms adv_skipChar by (auto simp: single_skipChar)
  have 2: "adv1 L L2" "single L2" if "acceptChar ?L1 c = Some L2" for c L2
    using that 1 adv_accept [OF that] by (auto intro: adv1_trans adv_single dest: adv1_adv)
  let ?z = "getCurChar L = CHR ''0''"
  consider (based) P b err L2 c where "acceptChar ?L1 c = Some L2" "lexNumber begin L = lexBased P b err begin L2"
    | (dec) "lexNumber begin L = lexDecimal (getCurPtr L) begin ?L1"
    by (cases ?z; cases "acceptChar ?L1 CHR ''b''"; cases "acceptChar ?L1 CHR ''x''"; cases "acceptChar ?L1 CHR ''o''")
      (auto simp: lexNumber_def Let_def)
  then show thesis
  proof cases
    case based
    obtain tok L' where "lexBased P b err begin L2 = Emit tok L'" "tok_tag tok \<noteq> tokEoF" "adv L2 L'"
      using lexBased_adv [OF 2(2) [OF based(1)]] by blast
    with that based 2(1) adv1_trans show thesis by metis
  next
    case dec
    obtain tok L' where "lexDecimal (getCurPtr L) begin ?L1 = Emit tok L'" "tok_tag tok \<noteq> tokEoF" "adv ?L1 L'"
      using lexDecimal_adv [OF 1(2)] by blast
    with that dec 1(1) adv1_trans show thesis by metis
  qed
qed

lemma lexSymbol_adv:
  assumes "single L" "lexSymbol alts begin L = Some r" "alts = punctuationSymbols \<or> alts = operatorSymbols"
  obtains tok L' L1 where "r = Emit tok L'" "tok_tag tok \<noteq> tokEoF" "adv1 L L1" "L' = L1 \<or> L' = setFlag lxMaybeNotFloat L1"
proof -
  have "list_all (\<lambda>(c, t). wf_tree ([] @ [c]) t) alts" "distinct (map fst alts)" using assms(3) symbol_trees by blast+
  note m = lexTree_munch(2) [OF this assms(1)]
  obtain s L1 where s: "lexAlternatives L alts = Some (s, L1)"
    using assms(2) by (auto simp: lexSymbol_def split: option.splits)
  with m have "adv (skipN 1 L) L1" by (auto simp: munch_def adv_def)
  then have "adv1 L L1" by (rule adv1_trans [rotated]) (auto simp: adv1_def)
  with s assms(2) that show thesis by (auto simp: lexSymbol_def Let_def)
qed

lemma lexIdent_adv:
  assumes "single L" "rest L = c # s" "isIdentStart c"
  obtains tok L' where "lexIdent (buf_id (buffer L)) (pos L) L = Some (Emit tok L')" "tok_tag tok \<noteq> tokEoF" "adv1 L L'"
proof -
  let ?w = "c # takeWhile isIdentChar s" and ?t = "dropWhile isIdentChar s"
  have "isIdentChar c" using assms(3) by (auto simp: isIdentStart_def isIdentChar_def isalnum_def)
  then have "list_all isIdentChar ?w" by (auto simp: list_all_iff dest: set_takeWhileD)
  moreover have "?t = [] \<or> \<not> isIdentChar (hd ?t)" using hd_dropWhile by blast
  ultimately have "lexIdent (buf_id (buffer L)) (pos L) L =
     (let L' = skipN (length ?w) L
      in Some (Emit (makeToken L' (pos L) (if ?w \<in> set keywordList then tokKeyword ?w else tokIdent)) L'))"
    using lexIdent_word [OF assms(1), of ?w ?t] assms(2) by simp
  moreover have "(if ?w \<in> set keywordList then tokKeyword ?w else tokIdent) \<noteq> tokEoF" by simp
  moreover have "adv1 L (skipN (length ?w) L)" by (auto simp: adv1_def)
  ultimately show thesis by (intro that [of "makeToken _ _ _"]) (auto simp only: Let_def make_tags)
qed

text \<open>The state of a lexer on a file without quotes.\<close>

definition quoteFree :: "Lexer \<Rightarrow> bool" where
  "quoteFree L \<longleftrightarrow> plain L \<and> \<not> hasFlag L lxContinueStringExpr \<and> quote \<notin> set (rest L) \<and> CHR 0x27 \<notin> set (rest L)"

lemma quoteFree_adv:
  assumes "quoteFree L" "adv L L1" "L' = L1 \<or> L' = setFlag lxMaybeNotFloat L1"
  shows "quoteFree L'"
proof -
  obtain n where n: "L1 = skipN n L" using assms(2) by (auto simp: adv_def)
  have "single L" using assms(1) by (simp add: quoteFree_def plain_single)
  with n have "set (rest L1) \<subseteq> set (rest L)" "single L1" "\<And>f. hasFlag L1 f = hasFlag L f"
    by (simp_all add: single_skipN set_drop_subset)
  then have "quoteFree L1" using assms(1) by (auto simp: quoteFree_def plain_def)
  then show ?thesis using assms(3) by (elim disjE) (simp_all add: quoteFree_def plain_def hasFlag_other)
qed

lemma adv1_shorter: "single L \<Longrightarrow> rest L \<noteq> [] \<Longrightarrow> adv1 L L' \<Longrightarrow> length (rest L') < length (rest L)"
  by (cases "rest L") (auto simp: adv1_def single_skipN)

lemma lexToken_quoteFree:
  assumes "quoteFree L" "rest L \<noteq> []"
  obtains (emit) tok L' L1 where "lexToken (pos L) L = Some (Emit tok L')" "tok_tag tok \<noteq> tokEoF" "adv1 L L1"
      "L' = L1 \<or> L' = setFlag lxMaybeNotFloat L1"
    | (again) L' where "lexToken (pos L) L = Some (Again L')" "adv1 L L'"
proof -
  have L: "single L" using assms(1) by (simp add: quoteFree_def plain_single)
  obtain c s where r: "rest L = c # s" using assms(2) by (cases "rest L") auto
  with assms(1) have c: "c \<noteq> quote" "c \<noteq> CHR 0x27" "quote \<notin> set s" by (auto simp: quoteFree_def)
  show thesis
  proof (cases "lexSymbol punctuationSymbols (pos L) L")
    case (Some r)
    then have "lexToken (pos L) L = Some r" by (simp add: lexToken_def)
    with lexSymbol_adv [OF L Some] emit show thesis by metis
  next
    case p: None
    show thesis
    proof (cases "acceptChar L CHR ''}''")
      case (Some L1)
      then have "adv1 L L1" by (rule adv_accept)
      moreover then have "\<not> hasFlag L1 lxContinueStringExpr"
        using quoteFree_adv [OF assms(1) adv1_adv] by (auto simp: quoteFree_def)
      ultimately show thesis using p Some emit by (simp add: lexToken_def)
    next
      case b: None
      show thesis
      proof (cases "lexSymbol operatorSymbols (pos L) L")
        case (Some r)
        then have "lexToken (pos L) L = Some r" using p b by (simp add: lexToken_def)
        with lexSymbol_adv [OF L Some] emit show thesis by metis
      next
        case o: None
        show thesis
        proof (cases "acceptChar L CHR ''/''")
          case (Some L1)
          then have L1: "adv1 L L1" by (rule adv_accept)
          have "lexToken (pos L) L = Some (lexSlash (pos L) L1)" using p b o Some by (simp add: lexToken_def)
          with lexSlash_adv [OF adv_single [OF L adv1_adv [OF L1]], of "pos L"] adv1_trans [OF L1] emit again
          show thesis by metis
        next
          case None
          then have lit: "lexToken (pos L) L = lexLiteral (buf_id (buffer L)) (pos L) L" using p b o by (simp add: lexToken_def)
          have "acceptChar L quote = None" "acceptChar L CHR 0x27 = None" "getCurChar L = c"
            using L r c by (simp_all add: single_accept single_cur)
          moreover have "peekNextChar L \<noteq> quote" using single_peek [OF L r] c by (cases s) (auto simp: EOF_def)
          ultimately have "lexToken (pos L) L =
             (if isIdentStart c then lexIdent (buf_id (buffer L)) (pos L) L
              else if isdigit c then Some (lexNumber (pos L) L)
              else Some (Emit (makeInvalidToken (skipChar L) (pos L) InvalidToken) (skipChar L)))"
            unfolding lit by (simp add: lexLiteral_def bufferOf_single [OF L] Let_def)
          moreover note lexIdent_adv [OF L r] lexNumber_adv [OF L, of "pos L"] adv_skipChar [of L]
          ultimately show thesis using emit by (metis make_tags(4) TokenTag.distinct)
        qed
      qed
    qed
  qed
qed

lemma lexOnce_quoteFree:
  assumes "quoteFree L"
  obtains (eof) tok L' where "lexOnce L = Some (Emit tok L')" "tok_tag tok = tokEoF"
    | (emit) tok L' where "lexOnce L = Some (Emit tok L')" "tok_tag tok \<noteq> tokEoF" "quoteFree L'" "length (rest L') < length (rest L)"
    | (again) L' where "lexOnce L = Some (Again L')" "quoteFree L'" "length (rest L') < length (rest L)"
proof -
  let ?ws = "takeWhile isspace (rest L)" and ?s = "dropWhile isspace (rest L)"
  let ?L1 = "skipN (length ?ws) L"
  have L: "plain L" "single L" using assms by (auto simp: quoteFree_def plain_single)
  have once: "lexOnce L = (if ?s = [] then Some (Emit (makeToken ?L1 (pos ?L1) tokEoF) ?L1) else lexToken (pos ?L1) ?L1)"
  proof -
    have "list_all isspace ?ws" by (auto simp: list_all_iff dest: set_takeWhileD)
    moreover have "?s = [] \<or> \<not> isspace (hd ?s)" using hd_dropWhile by blast
    ultimately show ?thesis using lexOnce_plain [OF L(1), of ?ws ?s] by (simp only: Let_def takeWhile_dropWhile_id)
  qed
  show thesis
  proof (cases "?s = []")
    case True
    with once eof show thesis by simp
  next
    case False
    then have once1: "lexOnce L = lexToken (pos ?L1) ?L1" using once by (simp only: if_False)
    have adv: "adv L ?L1" by (auto simp: adv_def)
    have q: "quoteFree ?L1" by (rule quoteFree_adv [OF assms adv]) simp
    have r: "single ?L1" "rest ?L1 = ?s" using L by (simp_all add: single_skipN) (metis dropWhile_eq_drop)
    have le: "length (rest ?L1) \<le> length (rest L)" using r by (simp add: length_dropWhile_le)
    have ne: "rest ?L1 \<noteq> []" using r False by simp
    note shorter = less_le_trans [OF adv1_shorter [OF r(1) ne] le]
    from q ne show thesis
    proof (cases rule: lexToken_quoteFree)
      case (emit tok L' L2)
      then have "quoteFree L'" using quoteFree_adv [OF q adv1_adv] by blast
      moreover have "length (rest L') < length (rest L)" using shorter [OF emit(3)] emit(4) by auto
      ultimately show thesis using emit(1,2) once1 by (intro that(2)) auto
    next
      case (again L')
      then have "quoteFree L'" using quoteFree_adv [OF q adv1_adv] by blast
      with again shorter [OF again(2)] once1 show thesis by (intro that(3)) auto
    qed
  qed
qed

lemma lexLoop_quoteFree:
  "quoteFree L \<Longrightarrow> \<exists>tok L'. lexLoop L = Some (Emit tok L') \<and>
     (tok_tag tok = tokEoF \<or> quoteFree L' \<and> length (rest L') < length (rest L))"
proof (induction "length (rest L)" arbitrary: L rule: less_induct)
  case less
  from less.prems show ?case
  proof (cases rule: lexOnce_quoteFree)
    case (again L')
    with less.hyps [OF again(3,2)] show ?thesis by (subst lexLoop.simps) (use again(3) in fastforce)
  qed (auto simp: lexLoop.simps)
qed

lemma lexAll_quoteFree:
  "quoteFree L \<Longrightarrow> length (rest L) < n \<Longrightarrow> \<exists>toks. lexAll n L = Some toks \<and> length toks \<le> length (rest L)"
proof (induction n arbitrary: L)
  case (Suc n)
  have "quoteFree (entry L)" using Suc.prems(1) by (simp add: quoteFree_def entry_same)
  then obtain tok L' where t: "lexLoop (entry L) = Some (Emit tok L')"
      "tok_tag tok = tokEoF \<or> quoteFree L' \<and> length (rest L') < length (rest L)"
    using lexLoop_quoteFree [of "entry L"] by (auto simp: entry_same)
  have "advanceLexer L = Some (Emit tok L')" using Suc.prems(1) t(1) by (simp add: quoteFree_def advanceLexer_plain)
  with t(2) Suc.IH [of L'] Suc.prems(2) show ?case by (cases "tok_tag tok = tokEoF") auto
qed simp

text \<open>C15: lexing a file without string and character literals ends: every call returns a token,
  never running on nor failing, and after at most one token per character comes the end of
  the file.\<close>

theorem quote_free_file_is_lexed:
  assumes "quote \<notin> set data" "CHR 0x27 \<notin> set data"
  shows "\<exists>toks. lexAll (Suc (length data)) (newLexer name data) = Some toks \<and> length toks \<le> length data"
  using lexAll_quoteFree [of "newLexer name data" "Suc (length data)"] assms
  by (simp add: quoteFree_def newLexer_plain)

theorem quote_free_file_is_lexed_witness:
  "\<exists>toks. lexAll 10 (newLexer ''a.cxy'' ''a /* b */'') = Some toks \<and> length toks \<le> 9"
  using quote_free_file_is_lexed [of "''a /* b */''" "''a.cxy''"] by (simp add: numeral_eq_Suc)

end
