(* ===== verification/Cxy_Operators.thy ===== *)
theory Cxy_Operators
  imports Cxy_Lexer
begin

text \<open>
  The operator tables of \<open>lang/frontend/operator.h\<close>, the functions over them of
  \<open>lang/frontend/operator.c\<close>, and the flags of \<open>lang/frontend/flag.h\<close>. An operator is named by the
  first column of its X-macro entry; the name of \<open>opInvalid\<close> is \<open>Invalid\<close>. A function with a failing
  assertion in its default branch has an option as its value.
\<close>

section \<open>The tables\<close>

type_synonym Operator = cstring

definition opInvalid :: Operator where
  "opInvalid = ''Invalid''"

abbreviation tsym :: "cstring \<Rightarrow> TokenTag" where "tsym \<equiv> tokSymbol"
abbreviation kw :: "cstring \<Rightarrow> TokenTag" where "kw \<equiv> tokKeyword"

text \<open>Name, precedence, token, text and name of the overload.\<close>

type_synonym binary_entry = "Operator \<times> nat \<times> TokenTag \<times> cstring \<times> cstring"
type_synonym unary_entry = "Operator \<times> TokenTag \<times> cstring \<times> cstring"

definition arithExprList :: "binary_entry list" where
  "arithExprList =
     [(''Add'', 3, tsym ''+'', ''+'', ''add''), (''Sub'', 3, tsym ''-'', ''-'', ''sub''),
      (''Mul'', 2, tsym ''*'', ''*'', ''mul''), (''Div'', 2, tsym ''/'', ''/'', ''div''),
      (''Mod'', 2, tsym ''%'', ''%'', ''rem'')]"

definition bitExprList :: "binary_entry list" where
  "bitExprList =
     [(''BAnd'', 7, tsym ''&'', ''&'', ''and''), (''BOr'', 9, tsym ''|'', ''|'', ''or''),
      (''BXor'', 8, tsym ''^'', ''^'', ''xor'')]"

definition shiftExprList :: "binary_entry list" where
  "shiftExprList =
     [(''Shl'', 4, tsym ''<<'', ''<<'', ''lshift''), (''Shr'', 4, tsym ''>>'', ''>>'', ''rshift'')]"

definition cmpExprList :: "binary_entry list" where
  "cmpExprList =
     [(''Eq'', 6, tsym ''=='', ''=='', ''eq''), (''Ne'', 6, tsym ''!='', ''!='', ''neq''),
      (''Is'', 6, kw ''is'', ''is'', ''is''), (''Gt'', 5, tsym ''>'', ''>'', ''gt''),
      (''Lt'', 5, tsym ''<'', ''<'', ''lt''), (''Geq'', 5, tsym ''>='', ''>='', ''geq''),
      (''Leq'', 5, tsym ''<='', ''<='', ''leq'')]"

definition logicExprList :: "binary_entry list" where
  "logicExprList =
     [(''LAnd'', 11, tsym ''&&'', ''&&'', ''land''), (''LOr'', 12, tsym ''||'', ''||'', ''lor'')]"

definition binaryExprList :: "binary_entry list" where
  "binaryExprList =
     [(''Range'', 13, tsym ''..'', ''..'', ''range''), (''Catch'', 10, kw ''catch'', ''catch'', ''catch'')]
     @ arithExprList @ bitExprList @ shiftExprList @ cmpExprList @ logicExprList"

definition assignExprList :: "binary_entry list" where
  "assignExprList = (''Assign'', 0, tsym ''='', '''', ''assign'') # arithExprList @ bitExprList @ shiftExprList"

definition prefixExprList :: "unary_entry list" where
  "prefixExprList =
     [(''PreDec'', tsym ''--'', ''--'', ''pre-dec''), (''PreInc'', tsym ''++'', ''++'', ''pre-inc''),
      (''Minus'', tsym ''-'', ''-'', ''pre-minus''), (''Plus'', tsym ''+'', ''+'', ''pre-plus''),
      (''Deref'', tsym ''*'', ''*'', ''deref''), (''Not'', tsym ''!'', ''!'', ''lnot''),
      (''Compl'', tsym ''~'', ''~'', ''bnot''), (''Refof'', tsym ''&'', ''&'', ''refof''),
      (''Move'', tsym ''&&'', ''&&'', ''move''), (''Spread'', tsym ''...'', ''...'', ''spread''),
      (''Await'', kw ''await'', ''await'', ''await''), (''Delete'', kw ''delete'', ''delete'', ''delete''),
      (''Ptrof'', kw ''ptrof'', ''ptrof'', ''ptrof'')]"

definition postfixExprList :: "unary_entry list" where
  "postfixExprList = [(''PostDec'', tsym ''--'', ''--'', ''dec''), (''PostInc'', tsym ''++'', ''++'', ''inc'')]"

definition unaryExprList :: "unary_entry list" where
  "unaryExprList = prefixExprList @ postfixExprList"

text \<open>Name, name of the overload, text.\<close>

definition overloadOnlyOps :: "(Operator \<times> cstring \<times> cstring) list" where
  "overloadOnlyOps =
     [(''CallOverload'', ''call'', ''()''), (''IndexOverload'', ''idx'', ''[]''),
      (''IndexAssignOverload'', ''idx_assign'', ''=[]''), (''StringOverload'', ''str'', ''str''),
      (''InitOverload'', ''init'', ''init''), (''DeinitOverload'', ''deinit'', ''deinit''),
      (''CopyOverload'', ''copy'', ''copy''), (''ConstructorOverload'', ''constructor'', ''constructor''),
      (''DestructorOverload'', ''destructor'', ''destructor''), (''HashOverload'', ''hash'', ''hash''),
      (''DestructorFwd'', ''destructor_fwd'', ''destructor__fwd''),
      (''InitDefaults'', ''init_defaults'', ''init_defaults''), (''Redirect'', ''redirect'', ''&.''),
      (''Cast'', ''cast'', ''as'')]"

text \<open>The first entry of a table with a key: a C switch has one case per key.\<close>

definition lookup_by :: "('a \<Rightarrow> 'k) \<Rightarrow> ('a \<Rightarrow> 'v) \<Rightarrow> 'a list \<Rightarrow> 'k \<Rightarrow> 'v option" where
  "lookup_by key val xs k = map_option val (List.find (\<lambda>x. key x = k) xs)"

section \<open>Operators\<close>

definition getUnaryOpString :: "Operator \<Rightarrow> cstring option" where
  "getUnaryOpString = lookup_by (\<lambda>(n, _). n) (\<lambda>(_, _, s, _). s) unaryExprList"

definition getBinaryOpString :: "Operator \<Rightarrow> cstring option" where
  "getBinaryOpString = lookup_by (\<lambda>(n, _). n) (\<lambda>(_, _, _, s, _). s) binaryExprList"

definition getAssignOpString :: "Operator \<Rightarrow> cstring option" where
  "getAssignOpString = lookup_by (\<lambda>(n, _). n) (\<lambda>(_, _, _, s, _). s @ ''='') assignExprList"

text \<open>The strings \<open>S_<name>\<close> of operators, as \<open>internCommonStrings\<close> sets them; those of the postfix
  operators are not set by it and stay \<open>NULL\<close>.\<close>

definition S_op :: "Operator \<Rightarrow> cstring option" where
  "S_op n =
     (if n = ''Truthy'' then Some ''op__truthy''
      else map_option ((@) ''op__'')
        (case lookup_by (\<lambda>(n, _). n) (\<lambda>(_, s, _). s) overloadOnlyOps n of
           Some s \<Rightarrow> Some s
         | None \<Rightarrow>
             (case lookup_by (\<lambda>(n, _). n) (\<lambda>(_, _, _, _, s). s) binaryExprList n of
                Some s \<Rightarrow> Some s
              | None \<Rightarrow> lookup_by (\<lambda>(n, _). n) (\<lambda>(_, _, _, s). s) prefixExprList n)))"

text \<open>The assertion fails for \<open>None\<close>; the inner option is a null string.\<close>

definition getOpOverloadName :: "Operator \<Rightarrow> cstring option option" where
  "getOpOverloadName n =
     (if n \<in> set (map fst binaryExprList) \<union> set (map fst unaryExprList) \<union> set (map fst overloadOnlyOps) \<union> {''Truthy''}
      then Some (S_op n) else None)"

definition getMaxBinaryOpPrecedence :: nat where
  "getMaxBinaryOpPrecedence = fold max (map (\<lambda>(_, p, _). p) binaryExprList) 0 + 1"

definition getBinaryOpPrecedence :: "Operator \<Rightarrow> nat" where
  "getBinaryOpPrecedence n =
     (case lookup_by (\<lambda>(n, _). n) (\<lambda>(_, p, _). p) binaryExprList n of
        Some p \<Rightarrow> p
      | None \<Rightarrow> getMaxBinaryOpPrecedence)"

text \<open>\<open>tok##T##Equal\<close>: the token of the text followed by \<open>=\<close>; for \<open>Assign\<close> it is \<open>tokAssign\<close>.\<close>

definition assignToken :: "binary_entry \<Rightarrow> TokenTag" where
  "assignToken e = (case e of (_, _, _, s, _) \<Rightarrow> tsym (s @ ''=''))"

definition isAssignmentOperator :: "TokenTag \<Rightarrow> bool" where
  "isAssignmentOperator tag = list_ex (\<lambda>e. assignToken e = tag) assignExprList"

definition tokenToUnaryOperator :: "TokenTag \<Rightarrow> Operator option" where
  "tokenToUnaryOperator = lookup_by (\<lambda>(_, t, _). t) fst prefixExprList"

definition tokenToPostfixUnaryOperator :: "TokenTag \<Rightarrow> Operator option" where
  "tokenToPostfixUnaryOperator = lookup_by (\<lambda>(_, t, _). t) fst postfixExprList"

definition tokenToBinaryOperator :: "TokenTag \<Rightarrow> Operator" where
  "tokenToBinaryOperator tag =
     (case lookup_by (\<lambda>(_, _, t, _). t) fst binaryExprList tag of Some n \<Rightarrow> n | None \<Rightarrow> opInvalid)"

definition tokenToAssignmentOperator :: "TokenTag \<Rightarrow> Operator option" where
  "tokenToAssignmentOperator = lookup_by assignToken fst assignExprList"

definition isKeyword :: "TokenTag \<Rightarrow> bool" where
  "isKeyword tag = (case tag of tokKeyword k \<Rightarrow> k \<in> set keywordList | _ \<Rightarrow> False)"

definition isPrefixOpKeyword :: "Operator \<Rightarrow> bool" where
  "isPrefixOpKeyword n =
     (case lookup_by fst (\<lambda>(_, t, _). t) prefixExprList n of Some t \<Rightarrow> isKeyword t | None \<Rightarrow> False)"

section \<open>Primitive types\<close>

text \<open>The suffix of the identifier of the type and the text of its token.\<close>

definition primTypeList :: "(cstring \<times> cstring) list" where
  "primTypeList =
     [(''Bool'', ''bool''), (''Char'', ''wchar''), (''CChar'', ''char''), (''U8'', ''u8''), (''U16'', ''u16''),
      (''U32'', ''u32''), (''U64'', ''u64''), (''U128'', ''u128''), (''I8'', ''i8''), (''I16'', ''i16''),
      (''I32'', ''i32''), (''I64'', ''i64''), (''I128'', ''i128''), (''F32'', ''f32''), (''F64'', ''f64'')]"

definition isPrimitiveTypeTag :: "TokenTag \<Rightarrow> bool" where
  "isPrimitiveTypeTag tag = list_ex (\<lambda>(_, s). tag = kw s) primTypeList"

text \<open>The default branch returns \<open>false\<close>, the first identifier.\<close>

definition tokenToPrimitiveTypeId :: "TokenTag \<Rightarrow> cstring" where
  "tokenToPrimitiveTypeId tag =
     (case lookup_by (\<lambda>(_, s). kw s) fst primTypeList tag of Some n \<Rightarrow> n | None \<Rightarrow> ''Bool'')"

section \<open>Flags\<close>

definition cxyLangFlags :: "cstring list" where
  "cxyLangFlags =
     [''Module'', ''Builtin'', ''Public'', ''Private'', ''Async'', ''TypeAst'', ''Main'', ''Variadic'', ''Const'',
      ''Default'', ''Deferred'', ''Capture'', ''Closure'', ''MacroArgument'', ''ClosureStyle'', ''FuncTypeParam'',
      ''Member'', ''AddThis'', ''Unmanaged'', ''Typeinfo'', ''ForwardDecl'', ''Reference'', ''TopLevelDecl'',
      ''Generated'', ''Executable'', ''BitUnionCast'', ''EnumLiteral'', ''Comptime'', ''Visited'',
      ''ImplementsDeinit'', ''Temporary'', ''Unsafe'', ''FunctionPtr'', ''Returned'', ''ComptimeIterable'',
      ''Define'', ''UnsafeCast'', ''Extern'', ''Inherited'', ''BlockReturns'', ''BuiltinsModule'', ''Optional'',
      ''ImportedModule'', ''ReferenceMembers'', ''Pure'', ''Slice'', ''Fallthrough'', ''Static'', ''SyncCall'',
      ''VTable'', ''Substituted'', ''Virtual'', ''Abstract'', ''ModuleInit'', ''Move'', ''Scoping'',
      ''BlockValue'', ''DiDisable'', ''Forced'', ''Anonymous'', ''Constructor'', ''TestContext'', ''Annotation'',
      ''UnionCast'']"

definition flgNone :: u64 where "flgNone = 0"
definition flgModule :: u64 where "flgModule = push_bit 0 1"
definition flgBuiltin :: u64 where "flgBuiltin = push_bit 1 1"
definition flgPublic :: u64 where "flgPublic = push_bit 2 1"
definition flgPrivate :: u64 where "flgPrivate = push_bit 3 1"
definition flgAsync :: u64 where "flgAsync = push_bit 4 1"
definition flgTypeAst :: u64 where "flgTypeAst = push_bit 5 1"
definition flgVariadic :: u64 where "flgVariadic = push_bit 7 1"
definition flgConst :: u64 where "flgConst = push_bit 8 1"
definition flgDefault :: u64 where "flgDefault = push_bit 9 1"
definition flgMember :: u64 where "flgMember = push_bit 16 1"
definition flgTypeinfo :: u64 where "flgTypeinfo = push_bit 19 1"
definition flgForwardDecl :: u64 where "flgForwardDecl = push_bit 20 1"
definition flgTopLevelDecl :: u64 where "flgTopLevelDecl = push_bit 22 1"
definition flgBitUnionCast :: u64 where "flgBitUnionCast = push_bit 25 1"
definition flgComptime :: u64 where "flgComptime = push_bit 27 1"
definition flgUnsafe :: u64 where "flgUnsafe = push_bit 31 1"
definition flgExtern :: u64 where "flgExtern = push_bit 37 1"
definition flgVirtual :: u64 where "flgVirtual = push_bit 51 1"
definition flgAbstract :: u64 where "flgAbstract = push_bit 52 1"
definition flgTestContext :: u64 where "flgTestContext = push_bit 61 1"
definition flgAnnotation :: u64 where "flgAnnotation = push_bit 62 1"

text \<open>All 64 bits have names, so the default branch of \<open>appendFlagName\<close> is never taken.\<close>

definition appendFlagName :: "cstring \<Rightarrow> nat \<Rightarrow> cstring" where
  "appendFlagName out index = out @ cxyLangFlags ! index"

text \<open>The loop of \<open>appendFlagsAsString\<close>. The condition shifts by \<open>index\<close>, which is undefined in C for
  64: the value is then \<open>None\<close>.\<close>

function appendFlagsLoop :: "u64 \<Rightarrow> nat \<Rightarrow> bool \<Rightarrow> cstring \<Rightarrow> cstring option" where
  "appendFlagsLoop flags index first out =
     (if index \<ge> 64 then None
      else if drop_bit index flags = 0 then Some out
      else if flags AND push_bit index 1 \<noteq> 0
           then appendFlagsLoop flags (index + 1) False (appendFlagName (if first then out else out @ ''|'') index)
           else appendFlagsLoop flags (index + 1) first out)"
  by pat_completeness auto
termination by (relation "measure (\<lambda>(_, index, _). 64 - index)") auto

declare appendFlagsLoop.simps [simp del]

definition appendFlagsAsString :: "cstring \<Rightarrow> u64 \<Rightarrow> cstring option" where
  "appendFlagsAsString out flags = appendFlagsLoop flags 0 True out"

definition flagsToString :: "u64 \<Rightarrow> cstring option" where
  "flagsToString flags =
     (case appendFlagsAsString ''('' flags of None \<Rightarrow> None | Some s \<Rightarrow> Some (s @ '')''))"

section \<open>The text of flags\<close>

definition flagNames :: "nat list \<Rightarrow> cstring list" where
  "flagNames is = map ((!) cxyLangFlags) is"

definition bar_list :: "cstring list \<Rightarrow> cstring" where
  "bar_list ss = concat (map2 (@) ([] # replicate (length ss - 1) ''|'') ss)"

lemma bar_list_Cons: "bar_list (s # ss) = s @ concat (map ((@) ''|'') ss)"
proof -
  have "map2 (@) (replicate (length ss) ''|'') ss = map ((@) ''|'') ss"
    by (induction ss) auto
  then show ?thesis by (simp add: bar_list_def)
qed

lemma drop_bit_zero_iff: "drop_bit i (w :: u64) = 0 \<longleftrightarrow> (\<forall>j. i \<le> j \<longrightarrow> \<not> bit w j)"
proof
  assume eq: "drop_bit i w = 0"
  show "\<forall>j. i \<le> j \<longrightarrow> \<not> bit w j"
  proof (intro allI impI)
    fix j
    assume "i \<le> j"
    moreover have "\<not> bit (drop_bit i w) (j - i)" by (simp add: eq)
    ultimately show "\<not> bit w j" by (simp add: bit_drop_bit_eq)
  qed
next
  assume "\<forall>j. i \<le> j \<longrightarrow> \<not> bit w j"
  then show "drop_bit i w = 0" by (intro bit_word_eqI) (simp add: bit_drop_bit_eq)
qed

lemma and_exp_iff: "(w :: u64) AND 2 ^ i = 0 \<longleftrightarrow> \<not> bit w i"
  by (simp add: and_exp_eq_0_iff_not_bit)

lemma appendFlagsLoop_bits:
  assumes "\<not> bit flags 63" "index < 64"
  shows "appendFlagsLoop flags index first out =
    Some (out @ (if first then bar_list (flagNames (filter (bit flags) [index..<64]))
                 else concat (map ((@) ''|'') (flagNames (filter (bit flags) [index..<64])))))"
  using assms
proof (induction flags index first out rule: appendFlagsLoop.induct)
  case (1 flags index first out)
  have zero: "filter (bit flags) [index..<64] = []" if "drop_bit index flags = 0"
    using that by (auto simp: drop_bit_zero_iff filter_empty_conv)
  show ?case
  proof (cases "drop_bit index flags = 0")
    case True
    with 1 zero show ?thesis by (subst appendFlagsLoop.simps) (simp add: flagNames_def bar_list_def)
  next
    case False
    have "index \<noteq> 63"
    proof
      assume idx: "index = 63"
      have "\<not> bit flags j" if "63 \<le> j" for j
        using 1(3) that bit_imp_le_length [of flags j] by (cases "j = 63") auto
      then have "drop_bit index flags = 0" by (simp add: drop_bit_zero_iff idx)
      with False show False by simp
    qed
    with 1 have lt: "Suc index < 64" by simp
    have cons: "[index..<64] = index # [Suc index..<64]"
      using 1 by (simp add: upt_rec)
    show ?thesis
      using 1 False lt
      by (subst appendFlagsLoop.simps)
        (auto simp: and_exp_iff cons flagNames_def bar_list_Cons appendFlagName_def)
  qed
qed

lemma appendFlagsLoop_undefined:
  assumes "bit flags 63" "index \<le> 63"
  shows "appendFlagsLoop flags index first out = None"
  using assms
proof (induction flags index first out rule: appendFlagsLoop.induct)
  case (1 flags index first out)
  then have "drop_bit index flags \<noteq> 0" by (auto simp: drop_bit_zero_iff)
  show ?case
  proof (cases "index = 63")
    case True
    then show ?thesis
      using 1 \<open>drop_bit index flags \<noteq> 0\<close>
      by (subst appendFlagsLoop.simps) (simp add: appendFlagsLoop.simps [of _ 64])
  next
    case False
    then show ?thesis
      using 1 \<open>drop_bit index flags \<noteq> 0\<close> by (subst appendFlagsLoop.simps) simp
  qed
qed

text \<open>The text of a set of flags is the list of the names of the bits that are set, in increasing
  order, separated by bars, when the last flag \<open>UnionCast\<close> is not set. When it is set, the condition of
  the loop shifts a 64-bit word by 64, which is undefined.\<close>

theorem flagsToString_names:
  "flagsToString flags =
     (if bit flags 63 then None
      else Some (''('' @ bar_list (flagNames (filter (bit flags) [0..<64])) @ '')''))"
  by (simp add: flagsToString_def appendFlagsAsString_def appendFlagsLoop_bits appendFlagsLoop_undefined)

section \<open>Consistency of the tables\<close>

lemma distinct_operator_tables:
  "distinct (map fst binaryExprList)" "distinct (map (\<lambda>(_, _, t, _). t) binaryExprList)"
  "distinct (map fst assignExprList)" "distinct (map assignToken assignExprList)"
  "distinct (map (\<lambda>(_, t, _). t) prefixExprList)"
  by (code_simp)+

lemma lookup_by_in:
  "distinct (map key xs) \<Longrightarrow> x \<in> set xs \<Longrightarrow> lookup_by key val xs (key x) = Some (val x)"
  by (induction xs) (auto simp: lookup_by_def)

lemma lookup_by_None: "lookup_by key val xs k = None \<longleftrightarrow> k \<notin> key ` set xs"
  by (induction xs) (auto simp: lookup_by_def)

lemma assign_tokens_not_binary:
  "list_all (\<lambda>e. tokenToBinaryOperator (assignToken e) = opInvalid) assignExprList"
  by code_simp

text \<open>The operator of the token of an entry, its precedence and its text.\<close>

lemma binaryExprList_operator:
  assumes "(n, p, t, s, ov) \<in> set binaryExprList"
  shows "tokenToBinaryOperator t = n" "getBinaryOpPrecedence n = p" "getBinaryOpString n = Some s"
proof -
  note D = distinct_operator_tables
  show "tokenToBinaryOperator t = n"
    using lookup_by_in [OF D(2) assms, of fst] by (simp add: tokenToBinaryOperator_def)
  have eq: "(\<lambda>(n, _). n) = (fst :: binary_entry \<Rightarrow> _)" by auto
  show "getBinaryOpPrecedence n = p"
    using lookup_by_in [OF D(1) assms, of "\<lambda>(_, p, _). p"] by (simp add: getBinaryOpPrecedence_def eq)
  show "getBinaryOpString n = Some s"
    using lookup_by_in [OF D(1) assms, of "\<lambda>(_, _, _, s, _). s"] by (simp add: getBinaryOpString_def eq)
qed

lemma binary_precedence_range:
  "list_all (\<lambda>(n, p, t, s, ov). 2 \<le> p \<and> p < getMaxBinaryOpPrecedence) binaryExprList"
  by code_simp

end
