(* ===== verification/Cxy_Ast.thy ===== *)
theory Cxy_Ast
  imports Cxy_Operators
begin

text \<open>
  The syntax tree of \<open>lang/frontend/ast.h\<close> with the functions of \<open>lang/frontend/ast.c\<close> the parser
  calls. An \<open>AstNode\<close> is a tag, flags, attributes and the members of one struct of its union; the
  tag is the name of its X-macro entry, and the members are listed by name as in the designated
  initialisers of the source. Members that the source leaves at zero are left out.

  A pointer to a node is the chain of nodes that starts there, through \<open>next\<close>: the empty list is
  \<open>NULL\<close>. Locations and resolved types are not modelled.
\<close>

datatype ast =
  Ast (ast_tag: cstring) (ast_flags: u64) (ast_attrs: "ast list") (ast_fields: "(cstring \<times> field) list")
and field =
  FNode "ast list"
| FName "cstring option"
| FOp Operator
| FBool bool
| FInt u128
| FChar u32
| FFloat bool cstring
| FNum u32

type_synonym AstPtr = "ast list"

definition mkNode :: "cstring \<Rightarrow> u64 \<Rightarrow> (cstring \<times> field) list \<Rightarrow> AstPtr" where
  "mkNode tag flags fs = [Ast tag flags [] fs]"

definition nodeIs :: "AstPtr \<Rightarrow> cstring \<Rightarrow> bool" where
  "nodeIs p tag = (case p of [] \<Rightarrow> False | n # _ \<Rightarrow> ast_tag n = tag)"

definition orFlags :: "u64 \<Rightarrow> ast \<Rightarrow> ast" where
  "orFlags f n = Ast (ast_tag n) (ast_flags n OR f) (ast_attrs n) (ast_fields n)"

definition setAttrs :: "AstPtr \<Rightarrow> ast \<Rightarrow> ast" where
  "setAttrs a n = Ast (ast_tag n) (ast_flags n) a (ast_fields n)"

definition hasNodeFlag :: "ast \<Rightarrow> u64 \<Rightarrow> bool" where
  "hasNodeFlag n f \<longleftrightarrow> ast_flags n AND f \<noteq> 0"

text \<open>The nodes, the name and the flag in a member.\<close>

definition nodesOf :: "cstring \<Rightarrow> ast \<Rightarrow> AstPtr" where
  "nodesOf m n = (case map_of (ast_fields n) m of Some (FNode ns) \<Rightarrow> ns | _ \<Rightarrow> [])"

definition nameOf :: "cstring \<Rightarrow> ast \<Rightarrow> cstring option" where
  "nameOf m n = (case map_of (ast_fields n) m of Some (FName s) \<Rightarrow> s | _ \<Rightarrow> None)"

definition boolOf :: "cstring \<Rightarrow> ast \<Rightarrow> bool" where
  "boolOf m n = (case map_of (ast_fields n) m of Some (FBool b) \<Rightarrow> b | _ \<Rightarrow> False)"

definition opOf :: "cstring \<Rightarrow> ast \<Rightarrow> Operator" where
  "opOf m n = (case map_of (ast_fields n) m of Some (FOp k) \<Rightarrow> k | _ \<Rightarrow> opInvalid)"

definition updField :: "cstring \<Rightarrow> (field \<Rightarrow> field) \<Rightarrow> ast \<Rightarrow> ast" where
  "updField m f n =
     Ast (ast_tag n) (ast_flags n) (ast_attrs n) (map (\<lambda>(k, v). (k, if k = m then f v else v)) (ast_fields n))"

definition updNodes :: "cstring \<Rightarrow> (AstPtr \<Rightarrow> AstPtr) \<Rightarrow> ast \<Rightarrow> ast" where
  "updNodes m f = updField m (\<lambda>v. case v of FNode ns \<Rightarrow> FNode (f ns) | v \<Rightarrow> v)"

lemma size_nodesOf: "c \<in> set (nodesOf m n) \<Longrightarrow> size c < size n"
proof -
  assume c: "c \<in> set (nodesOf m n)"
  have "\<exists>ns. map_of (ast_fields n) m = Some (FNode ns) \<and> c \<in> set ns"
    using c by (cases "map_of (ast_fields n) m") (auto simp: nodesOf_def split: field.splits)
  then obtain ns where ns: "map_of (ast_fields n) m = Some (FNode ns)" "c \<in> set ns" by blast
  then have "(m, FNode ns) \<in> set (ast_fields n)" by (auto dest: map_of_SomeD)
  then have "size_prod (\<lambda>_. 0) size (m, FNode ns) \<le> size_list (size_prod (\<lambda>_. 0) size) (ast_fields n)"
    by (intro size_list_estimation') auto
  moreover have "size c \<le> size_list size ns" using ns(2) by (intro size_list_estimation') auto
  ultimately show "size c < size n" by (cases n) auto
qed

lemma size_nodesOf_Cons: "nodesOf m n = c # cs \<Longrightarrow> size c < size n"
  using size_nodesOf [of c m n] by simp

section \<open>Chains\<close>

text \<open>\<open>getLastAstNode(NULL)\<close> is \<open>NULL\<close>.\<close>

definition getLastAstNode :: "AstPtr \<Rightarrow> AstPtr" where
  "getLastAstNode p = (if p = [] then [] else [last p])"

text \<open>An \<open>AstNodeList\<close> is its chain. At every call of \<open>listAddAstNode\<close> the node is not \<open>NULL\<close>.\<close>

definition listAddAstNode :: "AstPtr \<Rightarrow> AstPtr \<Rightarrow> AstPtr" where
  "listAddAstNode list node = list @ node"

text \<open>The list and the node returned, its last one.\<close>

definition insertAstNode :: "AstPtr \<Rightarrow> AstPtr \<Rightarrow> AstPtr \<times> AstPtr" where
  "insertAstNode list node = (if node = [] then (list, []) else (list @ node, getLastAstNode (list @ node)))"

section \<open>Constructors\<close>

definition makeIntegerLiteral :: "int \<Rightarrow> AstPtr" where
  "makeIntegerLiteral v =
     mkNode ''IntegerLit'' flgNone [(''value'', FInt (of_int v)), (''isNegative'', FBool (v < 0))]"

definition makeNullLiteral :: AstPtr where
  "makeNullLiteral = mkNode ''NullLit'' flgNone []"

definition makeIdentifier :: "cstring \<Rightarrow> AstPtr" where
  "makeIdentifier name = mkNode ''Identifier'' flgNone [(''value'', FName (Some name))]"

definition makePath :: "cstring \<Rightarrow> u64 \<Rightarrow> AstPtr" where
  "makePath name flags =
     mkNode ''Path'' flags
       [(''elements'', FNode (mkNode ''PathElem'' flags
          [(''name'', FName (Some name)), (''args'', FNode []),
           (''isKeyword'', FBool (name \<in> {''this'', ''This'', ''super''}))])), (''isType'', FBool False)]"

definition makeExprStmt :: "AstPtr \<Rightarrow> AstPtr" where
  "makeExprStmt expr = mkNode ''ExprStmt'' flgNone [(''expr'', FNode expr)]"

definition makeReturnAstNode :: "AstPtr \<Rightarrow> AstPtr" where
  "makeReturnAstNode expr = mkNode ''ReturnStmt'' flgNone [(''expr'', FNode expr)]"

definition makeBlockStmt :: "AstPtr \<Rightarrow> AstPtr" where
  "makeBlockStmt stmts = mkNode ''BlockStmt'' flgNone [(''stmts'', FNode stmts)]"

text \<open>Called by the parser without arguments only, where the assertions on them do not apply.\<close>

definition makeAttribute :: "cstring \<Rightarrow> AstPtr \<Rightarrow> AstPtr" where
  "makeAttribute name next =
     mkNode ''Attr'' flgNone [(''name'', FName (Some name)), (''args'', FNode []), (''kvpArgs'', FBool False)] @ next"

text \<open>The members \<open>expr\<close> of a cast and of a typed expression are the same place in the union.\<close>

function leftValue :: "ast \<Rightarrow> bool" where
  "leftValue n =
     (let tag = ast_tag n
      in if tag = ''Path'' \<or> tag = ''Identifier'' \<or> tag = ''IndexExpr'' then True
         else if tag = ''GroupExpr'' then (case nodesOf ''expr'' n of [] \<Rightarrow> False | c # _ \<Rightarrow> leftValue c)
         else if tag = ''ReferenceOf'' \<or> tag = ''PointerOf'' \<or> tag = ''UnaryExpr'' then
           (if opOf ''op'' n = ''Ptrof'' \<or> opOf ''op'' n = ''Refof''
            then (case nodesOf ''operand'' n of [] \<Rightarrow> False | c # _ \<Rightarrow> leftValue c) else False)
         else if tag = ''CastExpr'' \<or> tag = ''TypedExpr'' then
           (case nodesOf ''expr'' n of [] \<Rightarrow> False | c # _ \<Rightarrow> leftValue c)
         else if tag = ''MemberExpr'' then
           (case nodesOf ''member'' n of [] \<Rightarrow> False | c # _ \<Rightarrow> ast_tag c = ''IntegerLit'' \<or> leftValue c)
         else False)"
  by pat_completeness auto
termination
  by (relation "measure size") (simp_all add: size_nodesOf_Cons)

declare leftValue.simps [simp del]

definition nodeIsLeftValue :: "AstPtr \<Rightarrow> bool" where
  "nodeIsLeftValue p = (case p of [] \<Rightarrow> False | n # _ \<Rightarrow> leftValue n)"

definition getCCodeKind :: "TokenTag \<Rightarrow> cstring" where
  "getCCodeKind tag =
     (if tag = kw ''cInclude'' then ''cInclude'' else if tag = kw ''cDefine'' then ''cDefine'' else ''cSources'')"

end
