(* ===== verification/Cxy_ParserCore.thy ===== *)
theory Cxy_ParserCore
  imports Cxy_Ast
begin

text \<open>
  The state of the parser of \<open>lang/frontend/parser.c\<close>, its access to the tokens, its errors and the
  combinators for lists.

  The window \<open>ahead[1..3]\<close> and what the lexer has still to deliver are one list of tokens, without the
  end of file: looking past its end gives \<open>tokEoF\<close> for ever, as the lexer does. The files named by
  \<open>include\<close> are part of that list (\<open>Cxy_Include\<close> has their delivery, and when it aborts the parser). A token carries the text it covers. An exception is a result:
  \<open>Throw\<close> for \<open>ParserException\<close>, \<open>Abort\<close> for \<open>ParserAbort\<close>, each with the state it leaves; \<open>Crash\<close> is
  a null or wild pointer. \<open>NoFuel\<close> is the value of the recursion and of a loop that have used up
  their bounds, which are shown never to be reached.

  The driver behind \<open>cc\<close> (preprocessor, module loader, plugins) is a record of functions, and what the
  parser tells it is recorded in the state.
\<close>

section \<open>State\<close>

record ptoken =
  pt_tag :: TokenTag
  pt_value :: token_value
  pt_text :: cstring

text \<open>The token of the lexer with the characters between its two positions in its buffer.\<close>

definition parserToken :: "Lexer \<Rightarrow> Token \<Rightarrow> ptoken" where
  "parserToken L t =
     (let b = bufferOf L (tok_buffer t)
      in \<lparr>pt_tag = tok_tag t, pt_value = tok_value t,
          pt_text = take (byteOffset (tok_end t) - byteOffset (tok_begin t))
                      (drop (byteOffset (tok_begin t) - baseOffset b) (fileData b))\<rparr>)"

definition eofToken :: ptoken where
  "eofToken = \<lparr>pt_tag = tokEoF, pt_value = NoValue, pt_text = []\<rparr>"

record Plugin =
  plugin_name :: cstring
  plugin_path :: cstring
  isParserPlugin :: bool

record CompilerDriver =
  preprocessorHasMacro :: "cstring \<Rightarrow> bool"
  preprocessAst :: "AstPtr \<Rightarrow> AstPtr"
  compileModule :: "AstPtr \<Rightarrow> AstPtr \<Rightarrow> AstPtr \<Rightarrow> bool \<Rightarrow> u64 option"
  loadPlugin :: "cstring \<Rightarrow> cstring \<Rightarrow> Plugin option"
  findPluginByPath :: "cstring \<Rightarrow> Plugin option"
  invokeCxyPluginAction :: "Plugin \<Rightarrow> cstring \<Rightarrow> AstPtr \<Rightarrow> AstPtr \<Rightarrow> AstPtr"
  isBuiltinsInitialized :: bool

record Parser =
  P_prev :: ptoken
  P_ahead :: "ptoken list"
  inCase :: bool
  testMode :: bool
  isPackage :: bool
  pluginAliases :: "cstring \<rightharpoonup> cstring"
  anonymousPostfix :: u64
  errorLog :: "cstring list"
  nativeSources :: "cstring list"
  linkLibraries :: "cstring list"
  cc :: CompilerDriver

datatype 'a presult = Ok 'a Parser | Throw Parser | Abort Parser | Crash | NoFuel

type_synonym 'a parser = "Parser \<Rightarrow> 'a presult"

definition retP :: "'a \<Rightarrow> 'a parser" where
  "retP a = (\<lambda>P. Ok a P)"

definition bindP :: "'a parser \<Rightarrow> ('a \<Rightarrow> 'b parser) \<Rightarrow> 'b parser" where
  "bindP p f = (\<lambda>P. case p P of Ok a P \<Rightarrow> f a P | Throw P \<Rightarrow> Throw P | Abort P \<Rightarrow> Abort P | Crash \<Rightarrow> Crash | NoFuel \<Rightarrow> NoFuel)"

definition thenP :: "'a parser \<Rightarrow> 'b parser \<Rightarrow> 'b parser" where
  "thenP p q = bindP p (\<lambda>_. q)"

definition ifP :: "bool parser \<Rightarrow> 'a parser \<Rightarrow> 'a parser \<Rightarrow> 'a parser" where
  "ifP c p q = bindP c (\<lambda>b. if b then p else q)"

text \<open>C's short-circuit connectives.\<close>

definition notP :: "bool parser \<Rightarrow> bool parser" where
  "notP c = bindP c (\<lambda>b. retP (\<not> b))"

definition andP :: "bool parser \<Rightarrow> bool parser \<Rightarrow> bool parser" where
  "andP c d = ifP c d (retP False)"

definition orP :: "bool parser \<Rightarrow> bool parser \<Rightarrow> bool parser" where
  "orP c d = ifP c (retP True) d"

definition getP :: "(Parser \<Rightarrow> 'a) \<Rightarrow> 'a parser" where
  "getP g = (\<lambda>P. Ok (g P) P)"

definition modP :: "(Parser \<Rightarrow> Parser) \<Rightarrow> unit parser" where
  "modP u = (\<lambda>P. Ok () (u P))"

text \<open>An update of the node a pointer points at.\<close>

definition modHead :: "(ast \<Rightarrow> ast) \<Rightarrow> AstPtr \<Rightarrow> AstPtr parser" where
  "modHead f p = (case p of [] \<Rightarrow> (\<lambda>_. Crash) | n # ns \<Rightarrow> retP (f n # ns))"

section \<open>Tokens\<close>

definition getTokenString :: "ptoken \<Rightarrow> cstring" where
  "getTokenString tok =
     (let s = pt_text tok
      in if s \<noteq> [] \<and> hd s = CHR 0x60 \<and> last s = CHR 0x60 then butlast (tl s) else s)"

text \<open>The character behind a string literal is its closing quote.\<close>

definition getStringLiteral :: "ptoken \<Rightarrow> cstring" where
  "getStringLiteral tok =
     (let s = pt_text tok
      in case escapeString (s @ [CHR 0x22]) (length s) (length s) of
           Some (str, len) \<Rightarrow> take len str
         | None \<Rightarrow> [])"

definition curTok :: "Parser \<Rightarrow> ptoken" where
  "curTok P = (case P_ahead P of [] \<Rightarrow> eofToken | t # _ \<Rightarrow> t)"

definition current :: "ptoken parser" where
  "current = getP curTok"

definition previous :: "ptoken parser" where
  "previous = getP P_prev"

definition advance :: "ptoken parser" where
  "advance P =
     (case P_ahead P of
        [] \<Rightarrow> Ok (P_prev P) P
      | t # ts \<Rightarrow> Ok t (P\<lparr>P_prev := t, P_ahead := ts\<rparr>))"

text \<open>The assertion bounds the index by 2.\<close>

definition peek :: "nat \<Rightarrow> ptoken parser" where
  "peek i = (\<lambda>P. if i \<le> 2 then Ok (if i < length (P_ahead P) then P_ahead P ! i else eofToken) P else Crash)"

definition check :: "TokenTag list \<Rightarrow> bool parser" where
  "check tags = bindP current (\<lambda>tok. retP (pt_tag tok \<in> set tags))"

definition checkPeek :: "nat \<Rightarrow> TokenTag list \<Rightarrow> bool parser" where
  "checkPeek i tags = bindP (peek i) (\<lambda>tok. retP (pt_tag tok \<in> set tags))"

definition match :: "TokenTag list \<Rightarrow> bool parser" where
  "match tags = ifP (check tags) (thenP advance (retP True)) (retP False)"

definition isEoF :: "bool parser" where
  "isEoF = check [tokEoF]"

section \<open>Errors\<close>

definition logError :: "cstring \<Rightarrow> unit parser" where
  "logError msg = modP (\<lambda>P. P\<lparr>errorLog := errorLog P @ [msg]\<rparr>)"

definition parserError :: "cstring \<Rightarrow> 'a parser" where
  "parserError msg = thenP advance (thenP (logError msg) (\<lambda>P. Throw P))"

definition parserFail :: "cstring \<Rightarrow> 'a parser" where
  "parserFail msg = thenP advance (thenP (logError msg) (\<lambda>P. Abort P))"

definition consume :: "TokenTag \<Rightarrow> cstring \<Rightarrow> ptoken parser" where
  "consume tag msg = ifP (check [tag]) advance (parserError msg)"

definition consume0 :: "TokenTag \<Rightarrow> ptoken parser" where
  "consume0 tag = consume tag ''unexpected token''"

definition reportUnexpectedToken :: "cstring \<Rightarrow> 'a parser" where
  "reportUnexpectedToken expected = parserError (''unexpected token, expecting '' @ expected)"

text \<open>\<open>try p catch (ParserException) h\<close>.\<close>

definition tryCatch :: "'a parser \<Rightarrow> 'a parser \<Rightarrow> 'a parser" where
  "tryCatch p h = (\<lambda>P. case p P of Throw P \<Rightarrow> h P | r \<Rightarrow> r)"

section \<open>Loops\<close>

text \<open>\<open>Inl\<close> continues with a new value of the variables of the loop, \<open>Inr\<close> leaves it. The bound is one
  more than the number of tokens.\<close>

primrec iterP :: "nat \<Rightarrow> ('s \<Rightarrow> ('s + 'a) parser) \<Rightarrow> 's \<Rightarrow> 'a parser" where
  "iterP 0 step s = (\<lambda>_. NoFuel)"
| "iterP (Suc n) step s = bindP (step s) (\<lambda>r. case r of Inl s \<Rightarrow> iterP n step s | Inr a \<Rightarrow> retP a)"

definition loopP :: "('s \<Rightarrow> ('s + 'a) parser) \<Rightarrow> 's \<Rightarrow> 'a parser" where
  "loopP step s = (\<lambda>P. iterP (Suc (length (P_ahead P))) step s P)"

definition continueP :: "'s \<Rightarrow> ('s + 'a) parser" where
  "continueP s = retP (Inl s)"

definition breakP :: "'a \<Rightarrow> ('s + 'a) parser" where
  "breakP a = retP (Inr a)"

definition whileP :: "bool parser \<Rightarrow> ('s \<Rightarrow> 's parser) \<Rightarrow> 's \<Rightarrow> 's parser" where
  "whileP c body = loopP (\<lambda>s. ifP c (bindP (body s) continueP) (breakP s))"

section \<open>Lists\<close>

definition parseManyUntil :: "TokenTag list \<Rightarrow> TokenTag \<Rightarrow> AstPtr parser \<Rightarrow> AstPtr parser" where
  "parseManyUntil stops sep parse =
     whileP (andP (notP (check stops)) (notP isEoF))
       (\<lambda>list. bindP parse (\<lambda>node.
          ifP (andP (notP (match [sep])) (notP (check stops)))
            (parserError ''unexpected token in list'')
            (retP (listAddAstNode list node)))) []"

definition parseMany :: "TokenTag \<Rightarrow> TokenTag \<Rightarrow> AstPtr parser \<Rightarrow> AstPtr parser" where
  "parseMany stop sep parse = parseManyUntil [stop] sep parse"

definition parseMany2 :: "TokenTag \<Rightarrow> TokenTag \<Rightarrow> TokenTag \<Rightarrow> AstPtr parser \<Rightarrow> AstPtr parser" where
  "parseMany2 stop1 stop2 sep parse = parseManyUntil [stop1, stop2] sep parse"

definition parseManyNoSeparator :: "TokenTag \<Rightarrow> AstPtr parser \<Rightarrow> AstPtr parser" where
  "parseManyNoSeparator stop parse =
     whileP (andP (notP (check [stop])) (notP isEoF))
       (\<lambda>list. bindP parse (\<lambda>node. retP (if node \<noteq> [] then listAddAstNode list node else list))) []"

definition parseAtLeastOne :: "TokenTag \<Rightarrow> TokenTag \<Rightarrow> AstPtr parser \<Rightarrow> AstPtr parser" where
  "parseAtLeastOne stop sep parse =
     bindP (parseMany stop sep parse) (\<lambda>nodes.
       if nodes = [] then parserError ''expecting at least 1'' else retP nodes)"

definition parseAtLeastOne2 :: "TokenTag \<Rightarrow> TokenTag \<Rightarrow> TokenTag \<Rightarrow> AstPtr parser \<Rightarrow> AstPtr parser" where
  "parseAtLeastOne2 stop stop2 sep parse =
     bindP (parseMany2 stop stop2 sep parse) (\<lambda>nodes.
       if nodes = [] then parserError ''expecting at least 1'' else retP nodes)"

section \<open>Skipping\<close>

text \<open>The tokens skipped by the loop of \<open>skipUntil\<close> and of \<open>synchronizeUntil\<close>.\<close>

definition skipUntil :: "TokenTag \<Rightarrow> bool parser" where
  "skipUntil tag =
     thenP (modP (\<lambda>P.
        let skipped = takeWhile (\<lambda>t. pt_tag t \<noteq> tag) (P_ahead P)
        in P\<lparr>P_prev := last (P_prev P # skipped), P_ahead := drop (length skipped) (P_ahead P)\<rparr>))
      (check [tag])"

definition synchronizeUntil :: "TokenTag \<Rightarrow> unit parser" where
  "synchronizeUntil tag = thenP (skipUntil tag) (retP ())"

text \<open>The loop of \<open>skipEnclosedCode\<close> and \<open>skipTestDecl\<close>: it counts nested brackets.\<close>

definition skipNested :: "TokenTag \<Rightarrow> TokenTag \<Rightarrow> nat \<Rightarrow> nat parser" where
  "skipNested open close =
     loopP (\<lambda>count. ifP (andP (notP (check [tokEoF])) (retP (count > 0)))
       (bindP current (\<lambda>tok.
          thenP advance (continueP
            (if pt_tag tok = open then count + 1 else if pt_tag tok = close then count - 1 else count))))
       (breakP count))"

definition skipEnclosedCode :: "TokenTag \<Rightarrow> TokenTag \<Rightarrow> nat parser" where
  "skipEnclosedCode open close = ifP (match [open]) (skipNested open close 1) (retP 0)"

definition synchronizeStops :: "TokenTag list" where
  "synchronizeStops =
     [kw ''type'', kw ''struct'', kw ''class'', kw ''enum'', kw ''var'', kw ''const'', kw ''async'', kw ''func'', tsym ''@'',
      tsym ''##'', kw ''cDefine'', kw ''interface'', kw ''pub'', kw ''macro'', kw ''if'', kw ''for'', kw ''switch'',
      kw ''while'', kw ''match'']"

definition synchronize :: "unit parser" where
  "synchronize =
     thenP advance
       (loopP (\<lambda>_. ifP (match [tsym '';'', tokEoF]) (breakP ())
          (ifP (check synchronizeStops) (breakP ()) (thenP advance (continueP ())))) ())"

definition isEndOfStmt :: "bool parser" where
  "isEndOfStmt =
     orP (check [tokEoF, tsym '';'', kw ''async'', kw ''var'', kw ''while'', kw ''for'', tsym ''{'', tsym ''}'', kw ''const'',
            kw ''if'', kw ''else'', kw ''switch'', kw ''match'', kw ''break'', kw ''continue'', kw ''defer'', kw ''return'',
            kw ''delete'', kw ''raise''])
       (andP (check [tsym ''#'']) (checkPeek 1 [kw ''if'', kw ''for'', kw ''var'']))"

section \<open>Calls of the recursive descent\<close>

text \<open>The functions of the parser that are called again, below themselves, once a token has been
  consumed. A definition that makes such a call takes the function that serves it as its argument
  \<open>R\<close>; the recursion is closed where all of them are defined. The flag of an expression says
  whether it is parsed with \<open>primary\<close> or with \<open>primaryWithoutStructs\<close>.\<close>

datatype comptime_kind = KCase | KMatchCase | KMember | KComptimeMember | KInterfaceMember | KDeclaration | KComptimeDeclaration

datatype call =
  CExpression bool
| CTernary bool
| CBinary nat bool
| CPrefix bool
| CPrimary bool
| CType
| CStatement bool
| CBlock
| CClassOrStruct bool bool
| CComptime comptime_kind
| CComptimeIf comptime_kind
| CConditional

type_synonym rec_calls = "call \<Rightarrow> AstPtr parser"

end
