(* ===== verification/Cxy_ParserTypes.thy ===== *)
theory Cxy_ParserTypes
  imports Cxy_ParserCore Cxy_SemVer
begin

text \<open>
  Literals, macro calls, attributes, paths and types of \<open>lang/frontend/parser.c\<close>, one definition per
  function, in an order that puts a function behind those it calls directly. A call that goes back
  to a function defined later is made through \<open>R\<close>.
\<close>

section \<open>Literals\<close>

definition parseNull :: "AstPtr parser" where
  "parseNull = thenP (consume0 (kw ''null'')) (retP (mkNode ''NullLit'' flgNone []))"

definition primitiveNode :: "TokenTag \<Rightarrow> AstPtr" where
  "primitiveNode tag = mkNode ''PrimitiveType'' flgNone [(''id'', FName (Some (tokenToPrimitiveTypeId tag)))]"

text \<open>The source reads the suffix at the byte offset of its token without the base offset of the
  buffer, which is the text of the token in a buffer with base offset 0, as all files have.\<close>

definition wrapLiteralWithSuffix :: "AstPtr \<Rightarrow> bool \<Rightarrow> AstPtr parser" where
  "wrapLiteralWithSuffix literalNode isStringLiteral =
     ifP (notP (match [tsym ''.''])) (retP literalNode)
       (bindP current (\<lambda>suffixTok.
          if isPrimitiveTypeTag (pt_tag suffixTok)
          then thenP advance (retP (mkNode ''CastExpr'' flgNone
                 [(''expr'', FNode literalNode), (''to'', FNode (primitiveNode (pt_tag suffixTok)))]))
          else ifP (check [tokIdent])
                 (bindP advance (\<lambda>suffixTok.
                    let suffix = pt_text suffixTok;
                        suffix = (if isStringLiteral \<and> suffix = ''s'' then ''__string''
                                  else if isStringLiteral \<and> suffix = ''S'' then ''String'' else suffix)
                    in retP (mkNode ''CallExpr'' flgNone
                         [(''callee'', FNode (makePath suffix flgNone)), (''args'', FNode literalNode)])))
                 (parserError ''expected identifier or type as literal suffix'')))"

definition parseBool :: "AstPtr parser" where
  "parseBool =
     bindP current (\<lambda>tok.
       ifP (match [kw ''true'', kw ''false''])
         (wrapLiteralWithSuffix (mkNode ''BoolLit'' flgNone [(''value'', FBool (pt_tag tok = kw ''true''))]) False)
         (reportUnexpectedToken ''bool literals''))"

text \<open>A literal may be followed by a back quote and its type.\<close>

definition typedLiteral :: "rec_calls \<Rightarrow> AstPtr \<Rightarrow> AstPtr parser" where
  "typedLiteral R node =
     ifP (match [tsym [CHR 0x60]])
       (bindP (R CType) (\<lambda>type. retP (mkNode ''TypedExpr'' flgNone [(''expr'', FNode node), (''type'', FNode type)])))
       (retP node)"

definition charVal :: "ptoken \<Rightarrow> u32" where
  "charVal tok = (case pt_value tok of CharValue c \<Rightarrow> c | _ \<Rightarrow> 0)"

definition intVal :: "ptoken \<Rightarrow> u128" where
  "intVal tok = (case pt_value tok of IntValue v \<Rightarrow> v | _ \<Rightarrow> 0)"

definition floatVal :: "ptoken \<Rightarrow> cstring" where
  "floatVal tok = (case pt_value tok of FloatText s \<Rightarrow> s | _ \<Rightarrow> [])"

definition parseChar :: "rec_calls \<Rightarrow> AstPtr parser" where
  "parseChar R =
     bindP (consume0 tokCharLiteral) (\<lambda>tok.
       bindP (wrapLiteralWithSuffix (mkNode ''CharLit'' flgNone [(''value'', FChar (charVal tok))]) False)
         (typedLiteral R))"

definition integerNode :: "ptoken \<Rightarrow> bool \<Rightarrow> AstPtr" where
  "integerNode tok isNegative =
     mkNode ''IntegerLit'' flgNone
       [(''value'', FInt (if isNegative then - intVal tok else intVal tok)), (''isNegative'', FBool isNegative)]"

definition parseInteger :: "rec_calls \<Rightarrow> bool \<Rightarrow> AstPtr parser" where
  "parseInteger R isNegative =
     bindP (consume0 tokIntLiteral) (\<lambda>tok.
       bindP (wrapLiteralWithSuffix (integerNode tok isNegative) False) (typedLiteral R))"

definition parseIntegerWithoutSuffix :: "rec_calls \<Rightarrow> bool \<Rightarrow> AstPtr parser" where
  "parseIntegerWithoutSuffix R isNegative =
     bindP (consume0 tokIntLiteral) (\<lambda>tok. typedLiteral R (integerNode tok isNegative))"

definition parseFloat :: "rec_calls \<Rightarrow> bool \<Rightarrow> AstPtr parser" where
  "parseFloat R isNegative =
     bindP (consume0 tokFloatLiteral) (\<lambda>tok.
       bindP (wrapLiteralWithSuffix (mkNode ''FloatLit'' flgNone [(''value'', FFloat isNegative (floatVal tok))]) False)
         (typedLiteral R))"

definition parseString :: "AstPtr parser" where
  "parseString =
     bindP (consume0 tokStringLiteral) (\<lambda>tok.
       wrapLiteralWithSuffix (mkNode ''StringLit'' flgNone [(''value'', FName (Some (getStringLiteral tok)))]) True)"

definition parseSymbol :: "AstPtr parser" where
  "parseSymbol =
     thenP (consume0 (tsym '':'')) (bindP (consume0 tokIdent) (\<lambda>name.
       retP (mkNode ''StringLit'' flgNone [(''value'', FName (Some (getTokenString name)))])))"

definition parseIdentifierWithAlias :: "AstPtr parser" where
  "parseIdentifierWithAlias =
     bindP (consume0 tokIdent) (\<lambda>tok.
       ifP (match [tsym ''=>''])
         (bindP (consume0 tokIdent) (\<lambda>tok2.
            retP (mkNode ''Identifier'' flgNone
              [(''value'', FName (Some (getTokenString tok2))), (''alias'', FName (Some (getTokenString tok)))])))
         (retP (mkNode ''Identifier'' flgNone
              [(''value'', FName (Some (getTokenString tok))), (''alias'', FName None)])))"

definition parseMacroParam :: "AstPtr parser" where
  "parseMacroParam =
     bindP (match [tsym ''...'']) (\<lambda>isVariadic.
       bindP (consume0 tokIdent) (\<lambda>tok.
         retP (mkNode ''Identifier'' (if isVariadic then flgVariadic else flgNone)
           [(''value'', FName (Some (getTokenString tok)))])))"

definition primitive :: "AstPtr parser" where
  "primitive =
     bindP current (\<lambda>tok.
       if isPrimitiveTypeTag (pt_tag tok) then thenP advance (retP (primitiveNode (pt_tag tok)))
       else reportUnexpectedToken ''a primitive type'')"

section \<open>Macro calls and plugin actions\<close>

text \<open>A comma-separated list between parentheses.\<close>

definition parenList :: "AstPtr parser \<Rightarrow> AstPtr parser" where
  "parenList parse =
     thenP (consume0 (tsym ''('')) (bindP (parseMany (tsym '')'') (tsym '','') parse) (\<lambda>nodes.
       thenP (consume0 (tsym '')'')) (retP nodes)))"

definition macroExpression :: "rec_calls \<Rightarrow> AstPtr \<Rightarrow> AstPtr parser" where
  "macroExpression R callee =
     thenP (consume0 (tsym ''!''))
       (bindP (ifP (check [tsym ''('']) (parenList (R (CExpression True))) (retP [])) (\<lambda>args.
          bindP (ifP (check [tsym ''{'']) (bindP (R CBlock) (\<lambda>lastArg. retP (args @ lastArg))) (retP args)) (\<lambda>args.
            retP (mkNode ''MacroCallExpr'' flgComptime [(''callee'', FNode callee), (''args'', FNode args)]))))"

text \<open>\<open>findInHashTable\<close> on the table of aliases, and a fresh lookup in the driver.\<close>

definition findPluginByAlias :: "cstring \<Rightarrow> Plugin option parser" where
  "findPluginByAlias alias =
     getP (\<lambda>P. case pluginAliases P alias of None \<Rightarrow> None | Some path \<Rightarrow> findPluginByPath (cc P) path)"

definition calleePluginName :: "AstPtr \<Rightarrow> cstring option" where
  "calleePluginName callee =
     (case callee of
        [] \<Rightarrow> None
      | c # _ \<Rightarrow>
          if ast_tag c = ''Identifier'' then nameOf ''value'' c
          else if ast_tag c = ''Path'' then
            (let elems = nodesOf ''elements'' c in if elems = [] then None else nameOf ''name'' (last elems))
          else None)"

definition memberExpr :: "u64 \<Rightarrow> AstPtr \<Rightarrow> AstPtr \<Rightarrow> AstPtr" where
  "memberExpr flags target member = mkNode ''MemberExpr'' flags [(''target'', FNode target), (''member'', FNode member)]"

definition pluginActionExpression :: "rec_calls \<Rightarrow> AstPtr \<Rightarrow> AstPtr parser" where
  "pluginActionExpression R callee =
     thenP (consume0 (tsym ''::'')) (bindP (consume0 tokIdent) (\<lambda>actionTok.
       let actionName = getTokenString actionTok
       in bindP (case calleePluginName callee of None \<Rightarrow> retP None | Some alias \<Rightarrow> findPluginByAlias alias) (\<lambda>plugin.
            case plugin of
              None \<Rightarrow> macroExpression R (memberExpr flgNone callee (makeIdentifier actionName))
            | Some plugin \<Rightarrow>
                if isParserPlugin plugin
                then bindP (ifP (check [tsym ''('']) (parenList (R (CExpression True))) (retP [])) (\<lambda>args.
                       bindP (getP cc) (\<lambda>cc.
                         let result = invokeCxyPluginAction cc plugin actionName callee args
                         in if result = [] then parserError ''plugin action failed'' else retP result))
                else macroExpression R (memberExpr flgNone callee (makeIdentifier actionName)))))"

definition parseIdentifier :: "rec_calls \<Rightarrow> AstPtr parser" where
  "parseIdentifier R =
     bindP (consume0 tokIdent) (\<lambda>tok.
       let ident = makeIdentifier (getTokenString tok)
       in ifP (andP (check [tsym ''!'']) (notP (checkPeek 1 [kw ''as''])))
            (macroExpression R ident)
            (ifP (check [tsym ''::'']) (pluginActionExpression R ident) (retP ident)))"

section \<open>Attributes\<close>

definition attributeValue :: "rec_calls \<Rightarrow> AstPtr parser" where
  "attributeValue R =
     bindP current (\<lambda>tok.
       let tag = pt_tag tok
       in if tag = kw ''true'' \<or> tag = kw ''false'' then parseBool
          else if tag = tokCharLiteral then parseChar R
          else if tag = tokIntLiteral then parseInteger R False
          else if tag = tokFloatLiteral then parseFloat R False
          else if tag = tokStringLiteral then parseString
          else if tag = tsym ''+'' \<or> tag = tsym ''-'' then
            ifP (check [tokIntLiteral])
              (bindP previous (\<lambda>prev. parseInteger R (pt_tag prev = tsym ''-'')))
              (ifP (check [tokFloatLiteral])
                 (bindP previous (\<lambda>prev. parseFloat R (pt_tag prev = tsym ''-'')))
                 (reportUnexpectedToken ''string/float/int/char/bool literal''))
          else reportUnexpectedToken ''string/float/int/char/bool literal'')"

text \<open>One turn of the loop over the arguments: a key, and a value unless the key stands alone.\<close>

definition attributeArg :: "rec_calls \<Rightarrow> bool \<Rightarrow> AstPtr parser" where
  "attributeArg R isKvp =
     (if isKvp
      then bindP (consume0 tokIdent) (\<lambda>start.
             bindP (ifP (match [tsym '':'']) (attributeValue R) (retP (mkNode ''BoolLit'' flgNone [(''value'', FBool True)])))
               (\<lambda>v. retP (mkNode ''FieldExpr'' flgNone
                  [(''name'', FName (Some (getTokenString start))), (''value'', FNode v)])))
      else attributeValue R)"

definition attrNode :: "cstring \<Rightarrow> AstPtr \<Rightarrow> bool \<Rightarrow> cstring option \<Rightarrow> AstPtr" where
  "attrNode name args kvpArgs plugin =
     mkNode ''Attr'' flgNone
       [(''name'', FName (Some name)), (''args'', FNode args), (''kvpArgs'', FBool kvpArgs), (''plugin'', FName plugin)]"

definition attribute :: "rec_calls \<Rightarrow> AstPtr parser" where
  "attribute R =
     bindP (consume0 tokIdent) (\<lambda>tok.
       let name = getTokenString tok
       in ifP (match [tsym ''::''])
            (bindP (consume0 tokIdent) (\<lambda>actionTok. retP (attrNode (getTokenString actionTok) [] False (Some name))))
            (ifP (andP (match [tsym ''('']) (notP isEoF))
               (bindP (check [tokIdent]) (\<lambda>isKvp.
                  bindP (whileP (notP (check [tsym '')'', tokEoF]))
                    (\<lambda>args. bindP (attributeArg R isKvp) (\<lambda>v.
                       thenP (match [tsym '','']) (retP (listAddAstNode args v)))) [])
                  (\<lambda>args. thenP (consume0 (tsym '')'')) (retP (attrNode name args isKvp None)))))
               (retP (attrNode name [] False None))))"

definition attributes :: "rec_calls \<Rightarrow> AstPtr parser" where
  "attributes R =
     whileP (match [tsym ''@''])
       (\<lambda>attrList.
          bindP (ifP (match [tsym ''[''])
                   (bindP (parseAtLeastOne (tsym '']'') (tsym '','') (attribute R)) (\<lambda>attrs.
                      thenP (consume0 (tsym '']'')) (retP attrs)))
                   (attribute R))
            (\<lambda>attrs. retP (fst (insertAstNode attrList attrs)))) []"

text \<open>\<open>if (check(P, tokAt)) attrs = attributes(P);\<close>\<close>

definition optAttributes :: "rec_calls \<Rightarrow> AstPtr parser" where
  "optAttributes R = ifP (check [tsym ''@'']) (attributes R) (retP [])"

text \<open>The loop over the attributes: the node the actions made of the entity, and the attributes kept. An
  action is given the entity as it was parsed.\<close>

primrec pluginAttrs :: "ast list \<Rightarrow> AstPtr \<Rightarrow> AstPtr \<Rightarrow> (AstPtr \<times> AstPtr) parser" where
  "pluginAttrs [] result newAttrs = retP (result, newAttrs)"
| "pluginAttrs (attr # attrs) result newAttrs =
     (case nameOf ''plugin'' attr of
        None \<Rightarrow> pluginAttrs attrs result (fst (insertAstNode newAttrs [attr]))
      | Some pluginName \<Rightarrow>
          bindP (findPluginByAlias pluginName) (\<lambda>plugin.
            case plugin of
              None \<Rightarrow> parserError ''plugin not found''
            | Some plugin \<Rightarrow>
                if \<not> isParserPlugin plugin then parserError ''plugin is not a parse-time plugin''
                else bindP (getP cc) (\<lambda>cc.
                       let actionResult = invokeCxyPluginAction cc plugin (case nameOf ''name'' attr of Some s \<Rightarrow> s | None \<Rightarrow> []) result []
                       in if actionResult = [] then parserError ''plugin action failed''
                          else pluginAttrs attrs actionResult newAttrs)))"

definition invokePluginActionsOnEntity :: "AstPtr \<Rightarrow> AstPtr parser" where
  "invokePluginActionsOnEntity entity =
     (case entity of
        [] \<Rightarrow> retP []
      | e # _ \<Rightarrow>
          if ast_attrs e = [] then retP entity
          else bindP (pluginAttrs (ast_attrs e) entity []) (\<lambda>(result, newAttrs). modHead (setAttrs newAttrs) result))"

section \<open>Paths and literals in paths\<close>

definition parseTypeOrIndex :: "rec_calls \<Rightarrow> AstPtr parser" where
  "parseTypeOrIndex R =
     ifP (check [tokIntLiteral]) (parseInteger R False)
       (ifP (check [tokFloatLiteral]) (parseFloat R False)
          (ifP (check [tokStringLiteral]) parseString (R CType)))"

text \<open>Behind the name of a path element: its arguments.\<close>

definition pathElementArgs :: "rec_calls \<Rightarrow> cstring \<Rightarrow> bool \<Rightarrow> AstPtr parser" where
  "pathElementArgs R name isKw =
     thenP advance
       (bindP (ifP (match [tsym ''[''])
                 (bindP (parseMany (tsym '']'') (tsym '','') (parseTypeOrIndex R)) (\<lambda>args.
                    thenP (consume0 (tsym '']'')) (retP args)))
                 (retP []))
          (\<lambda>args. retP (mkNode ''PathElem'' flgNone
             [(''name'', FName (Some name)), (''args'', FNode args), (''isKeyword'', FBool isKw)])))"

definition pathElement :: "rec_calls \<Rightarrow> AstPtr parser" where
  "pathElement R =
     bindP current (\<lambda>tok.
       let tag = pt_tag tok
       in if tag = tokIdent then pathElementArgs R (getTokenString tok) False
          else if tag = kw ''this'' then pathElementArgs R ''this'' True
          else if tag = kw ''super'' then pathElementArgs R ''super'' True
          else if tag = kw ''This'' then pathElementArgs R ''This'' True
          else reportUnexpectedToken ''an identifier or the keywords this / super'')"

definition pathNode :: "AstPtr \<Rightarrow> AstPtr" where
  "pathNode parts = mkNode ''Path'' flgNone [(''elements'', FNode parts), (''isType'', FBool False)]"

text \<open>Since an identifier follows the dot, the branch for a hash is never taken.\<close>

definition parsePath :: "rec_calls \<Rightarrow> bool \<Rightarrow> AstPtr parser" where
  "parsePath R one =
     ifP (andP (check [tokIdent]) (checkPeek 1 [tsym ''!'']))
       (parseIdentifier R)
       (bindP (loopP (\<lambda>parts. bindP (pathElement R) (\<lambda>e.
          let parts = listAddAstNode parts e
          in if one then breakP parts
             else ifP (notP (andP (check [tsym ''.'']) (checkPeek 1 [tokIdent]))) (breakP parts)
               (thenP (consume0 (tsym ''.''))
                  (ifP (match [tsym ''#''])
                     (bindP (pathElement R) (\<lambda>e. bindP (modHead (orFlags flgBuiltin) e) (\<lambda>e.
                        breakP (listAddAstNode parts e))))
                     (ifP isEoF (breakP parts) (continueP parts)))))) [])
        (\<lambda>parts. retP (pathNode parts)))"

section \<open>Types\<close>

text \<open>\<open>substitute\<close>; its flag is not used.\<close>

definition substitute :: "rec_calls \<Rightarrow> AstPtr parser" where
  "substitute R =
     thenP (consume0 (tsym ''#{''))
       (ifP (match [tsym ''#'', tsym ''#{''])
          (parserError ''compile time markers cannot be used in current context'')
          (bindP (R (CTernary True)) (\<lambda>expr.
             thenP (consume0 (tsym ''}'')) (modHead (orFlags flgComptime) expr))))"

definition exceptionPath :: AstPtr where
  "exceptionPath = pathNode (mkNode ''PathElem'' flgNone
     [(''name'', FName (Some ''Exception'')), (''args'', FNode []), (''isKeyword'', FBool False)])"

text \<open>\<open>node->next = rest\<close>\<close>

definition setNext :: "AstPtr \<Rightarrow> AstPtr \<Rightarrow> AstPtr parser" where
  "setNext node rest = (case node of [] \<Rightarrow> (\<lambda>_. Crash) | n # _ \<Rightarrow> retP (n # rest))"

definition unionNode :: "AstPtr \<Rightarrow> bool \<Rightarrow> AstPtr" where
  "unionNode members isResult =
     mkNode ''UnionDecl'' flgNone [(''members'', FNode members), (''isResult'', FBool isResult)]"

definition funcReturnType :: "rec_calls \<Rightarrow> AstPtr parser" where
  "funcReturnType R =
     bindP (match [tsym ''!'']) (\<lambda>isResult.
       bindP (R CType) (\<lambda>ret.
         if isResult then bindP (setNext ret exceptionPath) (\<lambda>members. retP (unionNode members True)) else retP ret))"

definition parseTupleType :: "rec_calls \<Rightarrow> AstPtr parser" where
  "parseTupleType R =
     bindP (parenList (R CType)) (\<lambda>elems. retP (mkNode ''TupleType'' flgNone [(''elements'', FNode elems)]))"

definition parseArrayType :: "rec_calls \<Rightarrow> AstPtr parser" where
  "parseArrayType R =
     thenP (consume0 (tsym ''['')) (bindP (R CType) (\<lambda>type.
       bindP (ifP (match [tsym '','']) (R (CExpression False)) (retP [])) (\<lambda>dim.
         thenP (consume0 (tsym '']''))
           (retP (mkNode ''ArrayType'' flgNone [(''elementType'', FNode type), (''dim'', FNode dim)])))))"

definition genericConstraints :: "rec_calls \<Rightarrow> AstPtr parser" where
  "genericConstraints R =
     loopP (\<lambda>cs. bindP (parsePath R False) (\<lambda>p.
       ifP (match [tsym ''|'']) (ifP isEoF (breakP (listAddAstNode cs p)) (continueP (listAddAstNode cs p)))
         (breakP (listAddAstNode cs p)))) []"

definition parseGenericParam :: "rec_calls \<Rightarrow> bool \<Rightarrow> AstPtr parser" where
  "parseGenericParam R isFunc =
     bindP (andP (retP (\<not> isFunc)) (match [tsym ''...''])) (\<lambda>isVariadic.
       bindP (consume0 tokIdent) (\<lambda>tok.
         bindP (ifP (match [tsym '':'']) (genericConstraints R) (retP [])) (\<lambda>cs.
           bindP (ifP (andP (retP (\<not> isVariadic)) (match [tsym ''=''])) (parsePath R False) (retP [])) (\<lambda>defaultValue.
             retP (mkNode ''GenericParam'' (if isVariadic then flgVariadic else flgNone)
               [(''name'', FName (Some (getTokenString tok))), (''constraints'', FNode cs),
                (''defaultValue'', FNode defaultValue)])))))"

definition lastHasFlag :: "AstPtr \<Rightarrow> u64 \<Rightarrow> bool" where
  "lastHasFlag p f = (p \<noteq> [] \<and> hasNodeFlag (last p) f)"

definition parseGenericParams :: "rec_calls \<Rightarrow> bool \<Rightarrow> AstPtr parser" where
  "parseGenericParams R isFunc =
     bindP (loopP (\<lambda>params. bindP (parseGenericParam R isFunc) (\<lambda>param.
        let (params, param) = insertAstNode params param
        in ifP (orP (retP (lastHasFlag param flgVariadic)) (check [tsym '']''])) (breakP params)
             (ifP (match [tsym '','']) (continueP params) (breakP params)))) [])
     (\<lambda>params.
        ifP (check [tsym '']'']) (retP params)
          (if lastHasFlag params flgVariadic
           then parserError ''variadic template parameter should be the last parameter''
           else reportUnexpectedToken ''a comma or closing bracket''))"

text \<open>An optional list of generic parameters between brackets.\<close>

definition optGenericParams :: "rec_calls \<Rightarrow> bool \<Rightarrow> AstPtr parser" where
  "optGenericParams R isFunc =
     ifP (match [tsym ''[''])
       (bindP (parseGenericParams R isFunc) (\<lambda>gParams. thenP (consume0 (tsym '']'')) (retP gParams)))
       (retP [])"

definition genericDecl :: "u64 \<Rightarrow> AstPtr \<Rightarrow> AstPtr \<Rightarrow> AstPtr" where
  "genericDecl flags gParams decl =
     (if gParams = [] then decl
      else mkNode ''GenericDecl'' flags [(''params'', FNode gParams), (''decl'', FNode decl)])"

definition makeAnonymousName :: "cstring \<Rightarrow> cstring parser" where
  "makeAnonymousName name =
     bindP (getP anonymousPostfix) (\<lambda>k.
       thenP (modP (\<lambda>P. P\<lparr>anonymousPostfix := k + 1\<rparr>)) (retP (name @ showu (unat k))))"

definition functionParam :: "rec_calls \<Rightarrow> AstPtr parser" where
  "functionParam R =
     bindP (optAttributes R) (\<lambda>attrs.
       bindP (match [tsym ''...'']) (\<lambda>isVariadic.
         bindP (consume0 tokIdent) (\<lambda>tok.
           let name = getTokenString tok
           in bindP (if name = ''_''
                     then bindP (makeAnonymousName name) (\<lambda>name. retP (name, makeAttribute ''unused'' attrs))
                     else retP (name, attrs)) (\<lambda>(name, attrs).
                thenP (consume0 (tsym '':'')) (bindP (match [kw ''const'']) (\<lambda>isConst.
                  bindP (R CType) (\<lambda>type.
                    bindP (modHead (orFlags (if isConst then flgConst else flgNone)) type) (\<lambda>type.
                      bindP (ifP (match [tsym ''='']) (R (CExpression True)) (retP [])) (\<lambda>def.
                        invokePluginActionsOnEntity
                          [Ast ''FuncParamDecl'' (if isVariadic then flgVariadic else flgNone) attrs
                            [(''name'', FName (Some name)), (''type'', FNode type), (''def'', FNode def)]])))))))))"

definition parseFuncType :: "rec_calls \<Rightarrow> AstPtr parser" where
  "parseFuncType R =
     bindP (match [kw ''async'']) (\<lambda>isAsync.
       thenP (consume0 (kw ''func'')) (bindP (optGenericParams R True) (\<lambda>gParams.
         bindP (parenList (functionParam R)) (\<lambda>params.
           thenP (consume0 (tsym ''->'')) (bindP (funcReturnType R) (\<lambda>ret.
             retP (genericDecl flgNone gParams
               (mkNode ''FuncType'' (if isAsync then flgAsync else flgNone)
                 [(''params'', FNode params), (''ret'', FNode ret)]))))))))"

definition parsePointerType :: "rec_calls \<Rightarrow> AstPtr parser" where
  "parsePointerType R =
     thenP (consume0 (tsym ''^'')) (bindP (R CType) (\<lambda>pointed.
       retP (mkNode ''PointerType'' flgNone [(''pointed'', FNode pointed)])))"

definition parseReferenceType :: "rec_calls \<Rightarrow> AstPtr parser" where
  "parseReferenceType R =
     thenP (consume0 (tsym ''&'')) (bindP (match [kw ''const'']) (\<lambda>isConst.
       bindP (R CType) (\<lambda>referred.
         retP (mkNode ''ReferenceType'' (if isConst then flgConst else flgNone) [(''referred'', FNode referred)]))))"

text \<open>The variables between \<open>as\<close> (or a colon) and the arrow of a transformation.\<close>

definition xFormArgs :: "AstPtr parser" where
  "xFormArgs =
     bindP (consume0 tokIdent) (\<lambda>varToken.
       let arg = (\<lambda>tok. mkNode ''VarDecl'' flgComptime [(''name'', FName (Some (getTokenString tok)))])
       in ifP (match [tsym '','']) (bindP (consume0 tokIdent) (\<lambda>varToken2. retP (arg varToken @ arg varToken2)))
            (retP (arg varToken)))"

definition xFormCond :: "rec_calls \<Rightarrow> AstPtr parser" where
  "xFormCond R =
     ifP (match [tsym '',''])
       (bindP (R (CExpression False)) (modHead (orFlags flgComptime))) (retP [])"

definition xFormNode :: "AstPtr \<Rightarrow> AstPtr \<Rightarrow> AstPtr \<Rightarrow> AstPtr \<Rightarrow> AstPtr" where
  "xFormNode target args cond xForm =
     mkNode ''TupleXform'' flgComptime
       [(''target'', FNode target), (''args'', FNode args), (''cond'', FNode cond), (''xForm'', FNode xForm)]"

definition xFormType :: "rec_calls \<Rightarrow> AstPtr parser" where
  "xFormType R =
     thenP (consume0 (tsym [CHR 0x60])) (bindP (R CType) (\<lambda>tupleType.
       thenP (consume0 (kw ''as'')) (bindP xFormArgs (\<lambda>args.
         thenP (consume0 (tsym ''=>'')) (bindP (R CType) (\<lambda>xForm.
           bindP (xFormCond R) (\<lambda>cond.
             thenP (consume0 (tsym [CHR 0x60])) (retP (xFormNode tupleType args cond xForm)))))))))"

definition xFormExpr :: "rec_calls \<Rightarrow> AstPtr parser" where
  "xFormExpr R =
     thenP (consume0 (tsym [CHR 0x60])) (bindP (R (CExpression True)) (\<lambda>expr.
       thenP (consume0 (tsym '':'')) (bindP xFormArgs (\<lambda>args.
         thenP (consume0 (tsym ''=>'')) (bindP (R (CExpression True)) (\<lambda>xForm.
           bindP (xFormCond R) (\<lambda>cond.
             thenP (consume0 (tsym [CHR 0x60])) (retP (xFormNode expr args cond xForm)))))))))"

text \<open>A path as a type, with the flag of a leading \<open>module\<close> on its first element.\<close>

definition typePath :: "rec_calls \<Rightarrow> u64 \<Rightarrow> AstPtr parser" where
  "typePath R moduleFlags =
     bindP (parsePath R False) (\<lambda>type.
       if nodeIs type ''Path''
       then modHead (\<lambda>n. updField ''isType'' (\<lambda>_. FBool True)
              (updNodes ''elements'' (\<lambda>es. case es of [] \<Rightarrow> [] | e # es \<Rightarrow> orFlags moduleFlags e # es) n)) type
       else retP type)"

definition simpleType :: "cstring \<Rightarrow> AstPtr parser" where
  "simpleType tag = thenP advance (retP (mkNode tag flgNone []))"

text \<open>The case for \<open>tokCChar\<close> is covered by the test for primitive types.\<close>

definition parseTypeBase :: "rec_calls \<Rightarrow> AstPtr parser" where
  "parseTypeBase R =
     bindP current (\<lambda>tok.
       let tag = pt_tag tok
       in if isPrimitiveTypeTag tag then primitive
          else if tag = tokIdent \<or> tag = kw ''This'' then typePath R flgNone
          else if tag = kw ''module'' then
            thenP advance (thenP (consume0 (tsym ''.''))
              (ifP (check [tokIdent]) (typePath R flgModule) (reportUnexpectedToken ''identifier'')))
          else if tag = tsym ''('' then parseTupleType R
          else if tag = tsym ''['' then parseArrayType R
          else if tag = kw ''async'' \<or> tag = kw ''func'' then parseFuncType R
          else if tag = tsym ''^'' then parsePointerType R
          else if tag = tsym ''&'' then parseReferenceType R
          else if tag = kw ''void'' then simpleType ''VoidType''
          else if tag = kw ''string'' then simpleType ''StringType''
          else if tag = tsym ''#{'' then substitute R
          else if tag = kw ''auto'' then simpleType ''AutoType''
          else if tag = tsym [CHR 0x60] then xFormType R
          else reportUnexpectedToken ''a type'')"

definition parseTypeImpl :: "rec_calls \<Rightarrow> AstPtr parser" where
  "parseTypeImpl R =
     bindP (match [kw ''const'']) (\<lambda>isConst.
       bindP (parseTypeBase R) (\<lambda>type.
         bindP (match [tsym ''?'']) (\<lambda>isOptional.
           modHead (orFlags (flgTypeAst OR (if isConst then flgConst else flgNone)))
             (if isOptional then mkNode ''OptionalType'' flgNone [(''type'', FNode type)] else type))))"

definition parseType :: "rec_calls \<Rightarrow> AstPtr parser" where
  "parseType R =
     bindP (loopP (\<lambda>members. bindP (parseTypeImpl R) (\<lambda>type.
        ifP (match [tsym ''|'']) (continueP (listAddAstNode members type)) (breakP (listAddAstNode members type)))) [])
     (\<lambda>members. retP (if length members \<noteq> 1 then unionNode members False else members))"

end
