(* ===== verification/Cxy_ParserExpr.thy ===== *)
theory Cxy_ParserExpr
  imports Cxy_ParserTypes
begin

text \<open>
  The expressions of \<open>lang/frontend/parser.c\<close>: primary expressions, postfix and prefix operators,
  precedence climbing, assignments and the ternary operator. The argument \<open>structs\<close> stands for the
  function pointer \<open>parsePrimary\<close>, true for \<open>primary\<close>.
\<close>

section \<open>Postfix expressions\<close>

definition member :: "rec_calls \<Rightarrow> AstPtr \<Rightarrow> AstPtr parser" where
  "member R operand =
     bindP (match [tsym [CHR 0x60]]) (\<lambda>isAnnotation.
       let flags = (if isAnnotation then flgAnnotation OR flgComptime else flgNone)
       in ifP (check [tokIntLiteral])
            (bindP (parseIntegerWithoutSuffix R False) (\<lambda>m. retP (memberExpr flags operand m)))
            (ifP (check [tsym ''#{'']) (bindP (substitute R) (\<lambda>m. retP (memberExpr flags operand m)))
               (if isAnnotation then bindP (parseIdentifier R) (\<lambda>m. retP (memberExpr flags operand m))
                else bindP (parsePath R True) (\<lambda>m.
                  bindP (whileP (andP (notP isEoF) (match [tsym ''.'']))
                    (\<lambda>(operand, m). bindP (parsePath R True) (\<lambda>m2. retP (memberExpr flags operand m, m2)))
                    (operand, m))
                  (\<lambda>(operand, m). retP (memberExpr flags operand m))))))"

definition indexExpr :: "rec_calls \<Rightarrow> AstPtr \<Rightarrow> AstPtr parser" where
  "indexExpr R operand =
     thenP (consume0 (tsym ''.['')) (bindP (R (CExpression False)) (\<lambda>index.
       thenP (consume0 (tsym '']''))
         (retP (mkNode ''IndexExpr'' flgNone [(''target'', FNode operand), (''index'', FNode index)]))))"

definition spreadExpr :: "AstPtr \<Rightarrow> AstPtr" where
  "spreadExpr expr = mkNode ''SpreadExpr'' flgNone [(''expr'', FNode expr)]"

definition parseCallArguments :: "rec_calls \<Rightarrow> AstPtr parser" where
  "parseCallArguments R =
     bindP (match [tsym ''...'']) (\<lambda>isSpread.
       bindP (R (CExpression True)) (\<lambda>expr. retP (if isSpread then spreadExpr expr else expr)))"

definition callNode :: "AstPtr \<Rightarrow> AstPtr \<Rightarrow> AstPtr" where
  "callNode callee args = mkNode ''CallExpr'' flgNone [(''callee'', FNode callee), (''args'', FNode args)]"

definition callExpression :: "rec_calls \<Rightarrow> AstPtr \<Rightarrow> AstPtr parser" where
  "callExpression R callee =
     bindP (parenList (parseCallArguments R)) (\<lambda>args. retP (callNode callee args))"

definition castNode :: "u64 \<Rightarrow> AstPtr \<Rightarrow> AstPtr \<Rightarrow> AstPtr" where
  "castNode flags expr type = mkNode ''CastExpr'' flags [(''expr'', FNode expr), (''to'', FNode type)]"

definition postfixCast :: "rec_calls \<Rightarrow> AstPtr \<Rightarrow> AstPtr parser" where
  "postfixCast R expr =
     ifP (match [kw ''as'']) (bindP (R CType) (\<lambda>type. retP (castNode flgNone expr type)))
       (ifP (andP (check [tsym ''!'']) (checkPeek 1 [kw ''as'']))
          (thenP (consume0 (tsym ''!'')) (thenP advance
             (bindP (R CType) (\<lambda>type. retP (castNode flgBitUnionCast expr type)))))
          (ifP (match [tsym ''!:''])
             (bindP (R CType) (\<lambda>type.
                retP (mkNode ''TypedExpr'' flgNone [(''expr'', FNode expr), (''type'', FNode type)])))
             (retP expr)))"

text \<open>A failing \<open>csAssert\<close> aborts the program.\<close>

definition assertOp :: "Operator option \<Rightarrow> Operator parser" where
  "assertOp k = (case k of None \<Rightarrow> (\<lambda>_. Crash) | Some k \<Rightarrow> retP k)"

definition unaryNode :: "cstring \<Rightarrow> Operator \<Rightarrow> bool \<Rightarrow> AstPtr \<Rightarrow> AstPtr" where
  "unaryNode tag k isPrefix operand =
     mkNode tag flgNone [(''operand'', FNode operand), (''op'', FOp k), (''isPrefix'', FBool isPrefix)]"

text \<open>Behind a \<open>.\<close> or \<open>&.\<close>.\<close>

definition postfixMember :: "rec_calls \<Rightarrow> AstPtr \<Rightarrow> AstPtr parser" where
  "postfixMember R operand =
     bindP (match [tsym ''#'']) (\<lambda>isBuiltin.
       bindP (member R operand) (modHead (orFlags (if isBuiltin then flgBuiltin else flgNone))))"

text \<open>One turn of the loop of \<open>postfix\<close>.\<close>

definition postfixStep :: "rec_calls \<Rightarrow> AstPtr \<Rightarrow> (AstPtr + AstPtr) parser" where
  "postfixStep R operand =
     bindP current (\<lambda>tok.
       let tag = pt_tag tok
       in if tag = tsym ''++'' \<or> tag = tsym ''--'' then
            thenP advance (bindP (assertOp (tokenToPostfixUnaryOperator tag)) (\<lambda>k.
              breakP (unaryNode ''UnaryExpr'' k False operand)))
          else if tag = tsym ''.'' then thenP advance (bindP (postfixMember R operand) continueP)
          else if tag = tsym ''&.'' then
            thenP advance (bindP (postfixMember R
               (callNode (memberExpr flgNone operand (makeIdentifier ''op__redirect'')) [])) continueP)
          else if tag = tsym ''.['' then bindP (indexExpr R operand) continueP
          else if tag = tsym ''!'' then
            ifP (checkPeek 1 [kw ''as'']) (bindP (postfixCast R operand) continueP)
              (bindP (macroExpression R operand) continueP)
          else if tag = tsym ''('' then bindP (callExpression R operand) continueP
          else if tag = kw ''as'' \<or> tag = tsym ''!:'' then bindP (postfixCast R operand) continueP
          else if tag = tsym ''::'' then bindP (pluginActionExpression R operand) continueP
          else breakP operand)"

section \<open>Primary expressions\<close>

text \<open>A format marker between the parts of an interpolated string is skipped.\<close>

definition stringExpr :: "rec_calls \<Rightarrow> AstPtr parser" where
  "stringExpr R =
     thenP (consume0 tokLString)
       (bindP (whileP (andP (notP (check [tokRString])) (notP isEoF))
          (\<lambda>parts. ifP (match [tokLStrFmt]) (retP parts)
             (bindP (R (CExpression False)) (\<lambda>part. retP (listAddAstNode parts part)))) [])
        (\<lambda>parts. thenP (consume0 tokRString) (retP (mkNode ''StringExpr'' flgNone [(''parts'', FNode parts)]))))"

text \<open>The second alternative asks for an identifier and for a colon at the same place.\<close>

definition maybeClosure :: "bool parser" where
  "maybeClosure =
     orP (andP (checkPeek 1 [tsym ''@'']) (checkPeek 2 [tokIdent]))
       (orP (andP (andP (checkPeek 1 [tsym ''...'']) (checkPeek 2 [tokIdent])) (checkPeek 2 [tsym '':'']))
          (orP (andP (checkPeek 1 [tokIdent]) (checkPeek 2 [tsym '':'']))
             (andP (checkPeek 1 [tsym '')'']) (orP (checkPeek 2 [tsym '':'']) (checkPeek 2 [tsym ''=>''])))))"

definition maybeAnonymousStruct :: "bool parser" where
  "maybeAnonymousStruct =
     orP (andP (checkPeek 1 [tokIdent]) (checkPeek 2 [tsym '':''])) (checkPeek 1 [tsym ''}''])"

definition closure :: "rec_calls \<Rightarrow> AstPtr parser" where
  "closure R =
     bindP (match [kw ''async'']) (\<lambda>isAsync.
       bindP (parenList (functionParam R)) (\<lambda>params.
         bindP (ifP (match [tsym '':'']) (funcReturnType R) (retP [])) (\<lambda>ret.
           thenP (consume0 (tsym ''=>'')) (bindP (ifP (check [tsym ''{'']) (R CBlock) (R (CExpression True))) (\<lambda>body.
             retP (mkNode ''ClosureExpr'' (if isAsync then flgAsync else flgNone)
               [(''params'', FNode params), (''ret'', FNode ret), (''body'', FNode body)]))))))"

text \<open>An element of a tuple, with its spread operator.\<close>

definition parenExpr :: "rec_calls \<Rightarrow> AstPtr parser" where
  "parenExpr R =
     ifP maybeClosure (closure R)
       (thenP (consume0 (tsym ''('')) (bindP (match [tsym ''...'']) (\<lambda>isSpread.
          bindP (R (CExpression True)) (\<lambda>expr.
            ifP (andP (retP (\<not> isSpread)) (match [tsym '')'']))
              (retP (mkNode ''GroupExpr'' flgNone [(''expr'', FNode expr)]))
              (bindP (loopP (\<lambda>list.
                 ifP (match [tsym '',''])
                   (ifP (check [tsym '')'']) (breakP list)
                      (bindP (parseCallArguments R) (\<lambda>e. continueP (fst (insertAstNode list e)))))
                   (breakP list)) (if isSpread then spreadExpr expr else expr))
               (\<lambda>list. thenP (consume0 (tsym '')''))
                  (retP (mkNode ''TupleExpr'' flgNone [(''elements'', FNode list)]))))))))"

definition array :: "rec_calls \<Rightarrow> AstPtr parser" where
  "array R =
     thenP (consume0 (tsym ''[''))
       (bindP (parseMany (tsym '']'') (tsym '','') (R (CExpression True))) (\<lambda>elems.
          thenP (consume0 (tsym '']'')) (retP (mkNode ''ArrayExpr'' flgNone [(''elements'', FNode elems)]))))"

definition fieldExpr :: "rec_calls \<Rightarrow> AstPtr parser" where
  "fieldExpr R =
     bindP (consume0 tokIdent) (\<lambda>tok.
       thenP (consume0 (tsym '':'')) (bindP (R (CExpression True)) (\<lambda>v.
         retP (mkNode ''FieldExpr'' flgNone [(''name'', FName (Some (getTokenString tok))), (''value'', FNode v)]))))"

definition structExpr :: "rec_calls \<Rightarrow> AstPtr \<Rightarrow> AstPtr parser" where
  "structExpr R lhs =
     thenP (consume0 (tsym ''{''))
       (bindP (parseMany (tsym ''}'') (tsym '','') (fieldExpr R)) (\<lambda>fs.
          thenP (consume0 (tsym ''}''))
            (retP (mkNode ''StructExpr'' flgNone [(''left'', FNode lhs), (''fields'', FNode fs)]))))"

text \<open>Further \<open>#\<close> are skipped with a warning.\<close>

definition untypedExpr :: "rec_calls \<Rightarrow> AstPtr parser" where
  "untypedExpr R =
     thenP (consume0 (tsym ''#''))
       (thenP (whileP (match [tsym ''#'']) retP ())
          (bindP (ifP (check [tokIdent]) (parsePath R False) (R CType)) (modHead (orFlags flgTypeinfo))))"

definition implicitCast :: "rec_calls \<Rightarrow> AstPtr parser" where
  "implicitCast R =
     thenP (consume0 (tsym ''<'')) (bindP (R CType) (\<lambda>to.
       thenP (consume0 (tsym ''>'')) (bindP (R (CExpression False)) (\<lambda>expr. retP (castNode flgNone expr to)))))"

definition rangeExpr :: "rec_calls \<Rightarrow> AstPtr parser" where
  "rangeExpr R =
     thenP (consume0 (kw ''range'')) (thenP (consume0 (tsym ''('')) (bindP (R (CExpression False)) (\<lambda>start.
       thenP (consume0 (tsym '','')) (bindP (R (CExpression False)) (\<lambda>end.
         bindP (ifP (match [tsym '','']) (R (CExpression False)) (retP [])) (\<lambda>step.
           bindP (ifP (match [tsym '','']) (thenP (consume0 (kw ''true'')) (retP True)) (retP False)) (\<lambda>down.
             thenP (consume0 (tsym '')''))
               (retP (mkNode ''RangeExpr'' flgNone
                 [(''start'', FNode start), (''end'', FNode end), (''step'', FNode step), (''down'', FBool down)])))))))))"

definition async :: "rec_calls \<Rightarrow> AstPtr parser" where
  "async R =
     thenP (consume0 (kw ''async''))
       (bindP (ifP (check [tokStringLiteral]) parseString (retP makeNullLiteral)) (\<lambda>name.
          bindP (R (CStatement True)) (\<lambda>body.
            bindP (setNext body name) (\<lambda>args.
              retP (mkNode ''MacroCallExpr'' flgNone
                [(''callee'', FNode (makeIdentifier ''__async'')), (''args'', FNode args)])))))"

definition launchExpression :: "rec_calls \<Rightarrow> AstPtr parser" where
  "launchExpression R =
     thenP (consume0 (kw ''launch''))
       (bindP (match [tsym ''('']) (\<lambda>callStyle.
          bindP (ifP (check [tsym ''{'']) (R CBlock)
                   (bindP (R (CExpression True)) (\<lambda>body. retP (makeExprStmt body)))) (\<lambda>body.
            thenP (if callStyle then consume0 (tsym '')'') else current)
              (bindP (setNext body (makeReturnAstNode (makeIntegerLiteral 0))) (\<lambda>stmts.
                 retP (callNode (makePath ''__thread_launch'' flgNone)
                   (mkNode ''ClosureExpr'' flgNone
                     [(''params'', FNode []), (''ret'', FNode []), (''body'', FNode (makeBlockStmt stmts))])))))))"

text \<open>The body of the loop runs in a \<open>try\<close>: an error in a statement is caught, the tokens up to the next
  closing brace are skipped and the loop is left.\<close>

definition block :: "rec_calls \<Rightarrow> AstPtr parser" where
  "block R =
     bindP (match [kw ''unsafe'']) (\<lambda>unsafe.
       thenP (consume0 (tsym ''{''))
         (bindP (loopP (\<lambda>stmts.
            ifP (check [tsym ''}'', tokEoF]) (breakP stmts)
              (tryCatch
                 (bindP (R (CStatement False)) (\<lambda>stmt.
                    thenP (match [tsym '';'']) (continueP (listAddAstNode stmts stmt))))
                 (thenP (synchronizeUntil (tsym ''}'')) (breakP stmts)))) [])
          (\<lambda>stmts. thenP (consume0 (tsym ''}''))
             (retP (mkNode ''BlockStmt'' (if unsafe then flgUnsafe else flgNone) [(''stmts'', FNode stmts)])))))"

text \<open>The first member of the nodes whose first member is a pointer: \<open>path->path.elements\<close> reads it. For the
  other nodes the source follows a number or a zero.\<close>

definition firstPointer :: "cstring \<Rightarrow> cstring option" where
  "firstPointer tag =
     map_of [(''Path'', ''elements''), (''StructExpr'', ''left''), (''MacroCallExpr'', ''callee''), (''StringExpr'', ''parts''),
             (''GroupExpr'', ''expr''), (''CallExpr'', ''callee''), (''MemberExpr'', ''target'')] tag"

definition markModule :: "AstPtr \<Rightarrow> AstPtr parser" where
  "markModule path =
     (case path of
        [] \<Rightarrow> (\<lambda>_. Crash)
      | n # ns \<Rightarrow>
          (case firstPointer (ast_tag n) of
             None \<Rightarrow> (\<lambda>_. Crash)
           | Some m \<Rightarrow>
               (case nodesOf m n of
                  [] \<Rightarrow> (\<lambda>_. Crash)
                | e # es \<Rightarrow> retP (updNodes m (\<lambda>_. orFlags flgModule e # es) n # ns))))"

definition primaryBase :: "rec_calls \<Rightarrow> bool \<Rightarrow> AstPtr parser" where
  "primaryBase R allowStructs =
     bindP current (\<lambda>tok.
       let tag = pt_tag tok
       in if tag = kw ''null'' then parseNull
          else if tag = kw ''true'' \<or> tag = kw ''false'' then parseBool
          else if tag = tokCharLiteral then parseChar R
          else if tag = tokIntLiteral then parseInteger R False
          else if tag = tokFloatLiteral then parseFloat R False
          else if tag = tokStringLiteral then parseString
          else if tag = tokLString then stringExpr R
          else if tag = tsym ''('' then parenExpr R
          else if tag = tsym ''{'' then ifP maybeAnonymousStruct (structExpr R []) (block R)
          else if tag = tsym ''['' then array R
          else if tag = tsym ''#'' then untypedExpr R
          else if tag = tsym ''#{'' then substitute R
          else if tag = tokIdent \<or> tag = kw ''this'' \<or> tag = kw ''This'' \<or> tag = kw ''super'' then
            bindP (parsePath R False) (\<lambda>path.
              ifP (andP (retP allowStructs) (check [tsym ''{''])) (structExpr R path) (retP path))
          else if tag = kw ''module'' then
            thenP advance (thenP (consume0 (tsym ''.'')) (bindP (R (CPrimary allowStructs)) markModule))
          else if tag = tsym ''<'' then implicitCast R
          else if tag = kw ''range'' then rangeExpr R
          else if tag = kw ''async'' then async R
          else reportUnexpectedToken ''a primary expression'')"

definition primary :: "rec_calls \<Rightarrow> bool \<Rightarrow> AstPtr parser" where
  "primary R allowStructs = bindP (primaryBase R allowStructs) (postfixCast R)"

definition postfix :: "rec_calls \<Rightarrow> bool \<Rightarrow> AstPtr parser" where
  "postfix R structs = bindP (primary R structs) (loopP (postfixStep R))"

section \<open>Operators\<close>

text \<open>After \<open>defined\<close>: a name, in parentheses or not.\<close>

definition definedExpr :: "AstPtr parser" where
  "definedExpr =
     bindP (ifP (match [tsym ''(''])
              (bindP (consume0 tokIdent) (\<lambda>tok. thenP (consume0 (tsym '')'')) (retP tok)))
              (consume0 tokIdent)) (\<lambda>tok.
       bindP (getP cc) (\<lambda>cc.
         retP (mkNode ''BoolLit'' flgNone [(''value'', FBool (preprocessorHasMacro cc (getTokenString tok)))])))"

text \<open>A prefix operator has been seen but not consumed.\<close>

definition prefixOperator :: "rec_calls \<Rightarrow> bool \<Rightarrow> TokenTag \<Rightarrow> AstPtr parser" where
  "prefixOperator R structs tag =
     thenP advance (bindP (R (CPrefix structs)) (\<lambda>operand.
       if tag = kw ''ptrof'' then retP (unaryNode ''PointerOf'' ''Ptrof'' False operand)
       else if tag = tsym ''&'' then retP (unaryNode ''ReferenceOf'' ''Refof'' True operand)
       else bindP (assertOp (tokenToUnaryOperator tag)) (\<lambda>k. retP (unaryNode ''UnaryExpr'' k True operand))))"

definition prefix :: "rec_calls \<Rightarrow> bool \<Rightarrow> AstPtr parser" where
  "prefix R structs =
     ifP (andP (check [tsym ''-'', tsym ''+'']) (checkPeek 1 [tokIntLiteral]))
       (bindP advance (\<lambda>tok. parseInteger R (pt_tag tok = tsym ''-'')))
    (ifP (andP (check [tsym ''-'', tsym ''+'']) (checkPeek 1 [tokFloatLiteral]))
       (bindP advance (\<lambda>tok. parseFloat R (pt_tag tok = tsym ''-'')))
    (ifP (andP (check [tsym ''.'']) (checkPeek 1 [tokIdent]))
       (thenP advance (bindP (parseIdentifier R) (\<lambda>m. retP (memberExpr flgNone [] m))))
    (ifP (match [kw ''defined'']) definedExpr
    (ifP (check [tsym '':'']) parseSymbol
    (ifP (check [kw ''launch'']) (launchExpression R)
    (bindP current (\<lambda>tok.
       if pt_tag tok \<in> set (map (\<lambda>(_, t, _). t) prefixExprList) then prefixOperator R structs (pt_tag tok)
       else postfix R structs)))))))"

definition binaryNode :: "cstring \<Rightarrow> Operator \<Rightarrow> AstPtr \<Rightarrow> AstPtr \<Rightarrow> AstPtr" where
  "binaryNode tag k lhs rhs = mkNode tag flgNone [(''lhs'', FNode lhs), (''op'', FOp k), (''rhs'', FNode rhs)]"

text \<open>One turn of the loop of \<open>binary\<close>: it ends before a token that is not a binary operator or binds
  too weakly, and before \<open>- func\<close>.\<close>

definition binaryStep :: "rec_calls \<Rightarrow> nat \<Rightarrow> bool \<Rightarrow> AstPtr \<Rightarrow> (AstPtr + AstPtr) parser" where
  "binaryStep R prec structs lhs =
     bindP current (\<lambda>tok.
       let tag = pt_tag tok; k = tokenToBinaryOperator tag; nextPrecedence = getBinaryOpPrecedence k
       in if tag = tokEoF then breakP lhs
          else ifP (andP (retP (tag = tsym ''-'')) (checkPeek 1 [kw ''func''])) (breakP lhs)
            (if k = opInvalid \<or> nextPrecedence \<ge> prec then breakP lhs
             else thenP (consume0 tag)
               (bindP (ifP (andP (retP (k = ''Catch'')) (match [kw ''discard'']))
                         (retP (mkNode ''BlockStmt'' flgNone []))
                         (R (CBinary nextPrecedence structs)))
                  (\<lambda>rhs. continueP (binaryNode ''BinaryExpr'' k lhs rhs)))))"

definition binaryLoop :: "rec_calls \<Rightarrow> nat \<Rightarrow> bool \<Rightarrow> AstPtr \<Rightarrow> AstPtr parser" where
  "binaryLoop R prec structs lhs = loopP (binaryStep R prec structs) lhs"

definition binary :: "rec_calls \<Rightarrow> nat \<Rightarrow> bool \<Rightarrow> AstPtr parser" where
  "binary R prec structs = bindP (prefix R structs) (binaryLoop R prec structs)"

definition assign :: "rec_calls \<Rightarrow> bool \<Rightarrow> AstPtr parser" where
  "assign R structs =
     bindP (prefix R structs) (\<lambda>lhs.
       bindP current (\<lambda>tok.
         if isAssignmentOperator (pt_tag tok)
         then thenP advance (bindP (R (CTernary structs)) (\<lambda>rhs.
                bindP (assertOp (tokenToAssignmentOperator (pt_tag tok))) (\<lambda>k.
                  retP (binaryNode ''AssignExpr'' k lhs rhs))))
         else binaryLoop R getMaxBinaryOpPrecedence structs lhs))"

definition ternaryNode :: "AstPtr \<Rightarrow> AstPtr \<Rightarrow> AstPtr \<Rightarrow> AstPtr" where
  "ternaryNode cond body otherwise =
     mkNode ''TernaryExpr'' flgNone [(''cond'', FNode cond), (''body'', FNode body), (''otherwise'', FNode otherwise)]"

definition ternary :: "rec_calls \<Rightarrow> bool \<Rightarrow> AstPtr parser" where
  "ternary R structs =
     bindP (assign R structs) (\<lambda>cond.
       ifP (match [tsym ''?''])
         (bindP (ifP (match [tsym '':'']) (retP [])
                   (bindP (R (CTernary structs)) (\<lambda>lhs. thenP (consume0 (tsym '':'')) (retP lhs)))) (\<lambda>lhs.
            bindP (R (CTernary structs)) (\<lambda>rhs. retP (ternaryNode cond lhs rhs))))
         (retP cond))"

definition expression :: "rec_calls \<Rightarrow> bool \<Rightarrow> AstPtr parser" where
  "expression R allowStructs =
     bindP (optAttributes R) (\<lambda>attrs.
       bindP (ternary R allowStructs) (modHead (setAttrs attrs)))"

end
