(* ===== verification/Cxy_ParserStmt.thy ===== *)
theory Cxy_ParserStmt
  imports Cxy_ParserExpr
begin

text \<open>
  The statements of \<open>lang/frontend/parser.c\<close>, with variables, functions and inline assembly.
\<close>

section \<open>Variables\<close>

definition parseVarDeclName :: "rec_calls \<Rightarrow> AstPtr parser" where
  "parseVarDeclName R = ifP (check [tsym ''#{'']) (substitute R) (parseIdentifier R)"

definition parseMultipleVariables :: "rec_calls \<Rightarrow> AstPtr parser" where
  "parseMultipleVariables R =
     loopP (\<lambda>nodes. bindP (parseVarDeclName R) (\<lambda>name.
       ifP (match [tsym '','']) (continueP (listAddAstNode nodes name)) (breakP (listAddAstNode nodes name)))) []"

definition varDecl :: "u64 \<Rightarrow> AstPtr \<Rightarrow> AstPtr \<Rightarrow> AstPtr \<Rightarrow> AstPtr" where
  "varDecl flags names type init =
     mkNode ''VarDecl'' flags [(''names'', FNode names), (''type'', FNode type), (''init'', FNode init)]"

definition variableInit :: "rec_calls \<Rightarrow> bool \<Rightarrow> bool \<Rightarrow> bool \<Rightarrow> bool \<Rightarrow> AstPtr parser" where
  "variableInit R isConst isExtern isExpression woInit =
     (if \<not> isExtern \<and> \<not> woInit
      then thenP (if isConst then consume0 (tsym ''='') else current)
             (ifP (orP (retP isConst) (orP (match [tsym ''='']) (retP isExpression)))
                (R (CExpression True)) (retP []))
      else retP [])"

definition variable :: "rec_calls \<Rightarrow> bool \<Rightarrow> bool \<Rightarrow> bool \<Rightarrow> bool \<Rightarrow> AstPtr parser" where
  "variable R isPublic isExtern isExpression woInit =
     bindP current (\<lambda>tok. bindP previous (\<lambda>prev.
       let isConst = (pt_tag tok = kw ''const'');
           flags = (if isPublic then flgPublic else flgNone) OR (if isExtern then flgExtern else flgNone)
                     OR (if isConst then flgConst else flgNone);
           isComptime = (pt_tag prev \<in> {tsym ''#'', tsym ''#{'', tsym ''#.''})
       in ifP (notP (match [kw ''const'', kw ''var''])) (reportUnexpectedToken ''var/const to start variable declaration'')
            (bindP (if isComptime then parseIdentifier R else parseMultipleVariables R) (\<lambda>names.
               bindP (ifP (andP (retP (\<not> isExpression)) (match [tsym '':''])) (R CType) (retP [])) (\<lambda>type.
                 bindP (variableInit R isConst isExtern isExpression woInit) (\<lambda>init.
                   thenP (if \<not> (isExpression \<or> woInit \<or> isExtern) then match [tsym '';''] else retP False)
                     (retP (varDecl flags names type init))))))))"

definition forVariable :: "rec_calls \<Rightarrow> bool \<Rightarrow> AstPtr parser" where
  "forVariable R isComptime =
     bindP current (\<lambda>tok.
       bindP (ifP (match [kw ''const'', kw ''var''])
                (if isComptime \<and> pt_tag tok \<noteq> kw ''const''
                 then reportUnexpectedToken ''comptime for variable can only be declared as const''
                 else retP (if pt_tag tok = kw ''const'' then flgConst else flgNone))
                (retP (if isComptime then flgConst else flgNone))) (\<lambda>flags.
         bindP (if isComptime then parseIdentifier R
                else parseAtLeastOne2 (tsym '':'') (kw ''in'') (tsym '','') (parseIdentifier R)) (\<lambda>names.
           retP (varDecl flags names [] []))))"

section \<open>Functions\<close>

text \<open>The overloads named by a word between back quotes: the operator and its string.\<close>

definition namedOverload :: "bool \<Rightarrow> cstring \<Rightarrow> Operator option" where
  "namedOverload builtins name =
     (if name = ''str'' then Some ''StringOverload''
      else if name = ''init'' then Some ''InitOverload''
      else if name = ''deinit'' then Some ''DeinitOverload''
      else if name = ''destructor'' then Some ''DestructorOverload''
      else if builtins \<and> name = ''destructor_fwd'' then Some ''DestructorFwd''
      else if name = ''hash'' then Some ''HashOverload''
      else if name = ''deref'' then Some ''Deref''
      else if name = ''copy'' then Some ''CopyOverload''
      else None)"

definition overloadPair :: "Operator \<Rightarrow> Operator \<times> cstring option" where
  "overloadPair k = (k, S_op k)"

text \<open>The operator of a token between back quotes.\<close>

definition tokenOverload :: "(Operator \<times> cstring option) parser" where
  "tokenOverload =
     bindP current (\<lambda>tok.
       let tag = pt_tag tok
       in bindP (if tag = tsym ''!'' then
                   ifP (checkPeek 1 [tsym ''!'']) (thenP advance (retP (overloadPair ''Truthy'')))
                     (retP (overloadPair ''Not''))
                 else if tag = kw ''await'' then retP (overloadPair ''Await'')
                 else if tag = kw ''as'' then retP (overloadPair ''Cast'')
                 else if tokenToBinaryOperator tag \<noteq> opInvalid then retP (overloadPair (tokenToBinaryOperator tag))
                 else reportUnexpectedToken ''a binary operator to overload'') (\<lambda>k.
            thenP advance (retP k)))"

definition operatorOverload :: "(Operator \<times> cstring option) parser" where
  "operatorOverload =
     thenP (consume0 (tsym [CHR 0x60]))
       (bindP (ifP (match [tsym ''[''])
                 (thenP (consume0 (tsym '']''))
                    (ifP (match [tsym ''='']) (retP (overloadPair ''IndexAssignOverload''))
                       (retP (overloadPair ''IndexOverload''))))
              (ifP (match [tsym ''(''])
                 (thenP (consume0 (tsym '')'')) (retP (overloadPair ''CallOverload'')))
              (ifP (match [tsym ''&.'']) (retP (overloadPair ''Redirect''))
              (ifP (match [tokIdent])
                 (bindP previous (\<lambda>ident. bindP (getP cc) (\<lambda>cc.
                    case namedOverload (\<not> isBuiltinsInitialized cc) (getTokenString ident) of
                      None \<Rightarrow> parserError ''unexpected operator overload''
                    | Some k \<Rightarrow> retP (overloadPair k))))
                 tokenOverload)))) (\<lambda>k.
          thenP (consume0 (tsym [CHR 0x60])) (retP k)))"

text \<open>The generic parameters of a function; extern and virtual functions have none.\<close>

definition funcGenericParams :: "rec_calls \<Rightarrow> bool \<Rightarrow> bool \<Rightarrow> AstPtr parser" where
  "funcGenericParams R isExtern isVirtual =
     ifP (match [tsym ''[''])
       (if isExtern then reportUnexpectedToken ''a (, extern functions cannot have generic parameters''
        else if isVirtual then reportUnexpectedToken ''a (, virtual functions cannot have generic parameters''
        else bindP (parseGenericParams R True) (\<lambda>gParams. thenP (consume0 (tsym '']'')) (retP gParams)))
       (retP [])"

text \<open>The body and the flags it adds.\<close>

definition funcBody :: "rec_calls \<Rightarrow> bool \<Rightarrow> bool \<Rightarrow> AstPtr \<Rightarrow> (AstPtr \<times> u64) parser" where
  "funcBody R isExtern isVirtual ret =
     (if \<not> isExtern
      then ifP (match [tsym ''=>''])
             (bindP (R (CExpression True)) (\<lambda>body. thenP (match [tsym '';'']) (retP (body, flgNone))))
             (ifP (check [tsym ''{'']) (bindP (R CBlock) (\<lambda>body. retP (body, flgNone)))
                (if isVirtual
                 then (if ret = [] then reportUnexpectedToken ''colon before virtual function declaration return type''
                       else retP ([], flgAbstract))
                 else reportUnexpectedToken ''a function body''))
      else ifP (match [tsym ''=>'', tsym ''{'']) (parserError ''extern functions cannot be declared with a body'')
             (thenP (match [tsym '';'']) (retP ([], flgNone))))"

definition funcDecl :: "rec_calls \<Rightarrow> u64 \<Rightarrow> AstPtr parser" where
  "funcDecl R flags =
     (let isExtern = (flags AND flgExtern = flgExtern);
          isVirtual = (flags AND flgVirtual = flgVirtual);
          isMember = (flags AND flgMember = flgMember);
          flags = flags AND NOT flgMember
      in bindP (match [kw ''async'']) (\<lambda>isAsync.
           let flags = flags OR (if isAsync then flgAsync else flgNone)
           in thenP (consume0 (kw ''func''))
                (bindP (ifP (andP (retP isMember) (check [tsym [CHR 0x60]])) operatorOverload
                          (bindP (consume0 tokIdent) (\<lambda>tok. retP (opInvalid, Some (getTokenString tok))))) (\<lambda>(k, name).
                   bindP (funcGenericParams R isExtern isVirtual) (\<lambda>gParams.
                     bindP (parenList (functionParam R)) (\<lambda>params.
                       bindP (ifP (match [tsym '':'']) (funcReturnType R)
                                (if isExtern then reportUnexpectedToken ''colon before function declaration return type''
                                 else retP [])) (\<lambda>ret.
                         bindP (funcBody R isExtern isVirtual ret) (\<lambda>(body, bodyFlags).
                           let flags = flags OR bodyFlags
                           in retP (genericDecl flags gParams (mkNode ''FuncDecl'' flags
                                [(''name'', FName name), (''operatorOverload'', FOp k), (''params'', FNode params),
                                 (''ret'', FNode ret), (''body'', FNode body)]))))))))))"

section \<open>Control flow\<close>

definition ifNode :: "u64 \<Rightarrow> AstPtr \<Rightarrow> AstPtr \<Rightarrow> AstPtr \<Rightarrow> AstPtr" where
  "ifNode flags cond body otherwise =
     mkNode ''IfStmt'' flags [(''cond'', FNode cond), (''body'', FNode body), (''otherwise'', FNode otherwise)]"

definition whileNode :: "u64 \<Rightarrow> AstPtr \<Rightarrow> AstPtr \<Rightarrow> AstPtr" where
  "whileNode flags cond body = mkNode ''WhileStmt'' flags [(''cond'', FNode cond), (''body'', FNode body)]"

definition forNode :: "u64 \<Rightarrow> AstPtr \<Rightarrow> AstPtr \<Rightarrow> AstPtr \<Rightarrow> AstPtr \<Rightarrow> AstPtr" where
  "forNode flags var rng body cond =
     mkNode ''ForStmt'' flags [(''var'', FNode var), (''range'', FNode rng), (''body'', FNode body), (''cond'', FNode cond)]"

text \<open>A condition: a variable declaration or an expression.\<close>

definition condition :: "rec_calls \<Rightarrow> bool \<Rightarrow> AstPtr parser" where
  "condition R allowStructs =
     ifP (check [kw ''const'', kw ''var'']) (variable R False False True False) (R (CExpression allowStructs))"

definition closeParen :: "bool \<Rightarrow> unit parser" where
  "closeParen hasLparen = (if hasLparen then thenP (consume0 (tsym '')'')) (retP ()) else retP ())"

definition ifStatement :: "rec_calls \<Rightarrow> AstPtr parser" where
  "ifStatement R =
     thenP (consume0 (kw ''if'')) (bindP (match [tsym ''('']) (\<lambda>hasLparen.
       bindP (condition R hasLparen) (\<lambda>cond.
         thenP (closeParen hasLparen)
           (ifP (andP (retP (\<not> hasLparen)) (notP (check [tsym ''{''])))
              (parserError ''if statement without parentheses requires braces around body'')
              (bindP (R (CStatement False)) (\<lambda>body.
                 bindP (ifP (match [kw ''else'']) (R (CStatement False)) (retP [])) (\<lambda>ifElse.
                   retP (ifNode flgNone cond body ifElse))))))))"

definition forStatement :: "rec_calls \<Rightarrow> bool \<Rightarrow> AstPtr parser" where
  "forStatement R isComptime =
     thenP (consume0 (kw ''for'')) (bindP (match [tsym ''('']) (\<lambda>hasLparen.
       bindP (forVariable R isComptime) (\<lambda>var.
         ifP (notP (match [tsym '':'', kw ''in'']))
           (parserError ''for statement requires colon/in after variable declaration'')
           (bindP (R (CExpression False)) (\<lambda>rng.
              bindP (ifP (andP (retP isComptime) (match [tsym '','']))
                       (bindP (R (CExpression hasLparen)) (modHead (orFlags flgComptime))) (retP [])) (\<lambda>cond.
                thenP (closeParen hasLparen)
                  (bindP (ifP (notP (match [tsym '';'']))
                            (ifP (andP (retP (\<not> hasLparen)) (notP (check [tsym ''{''])))
                               (parserError ''for statement without parentheses requires braces around body'')
                               (R (CStatement False)))
                            (retP [])) (\<lambda>body.
                     retP (forNode flgNone var rng body cond)))))))))"

definition whileStatement :: "rec_calls \<Rightarrow> AstPtr parser" where
  "whileStatement R =
     thenP (consume0 (kw ''while''))
       (ifP (check [tsym ''{''])
          (bindP (R (CStatement False)) (\<lambda>body.
             retP (whileNode flgNone (mkNode ''BoolLit'' flgNone [(''value'', FBool True)]) body)))
          (bindP (match [tsym ''('']) (\<lambda>hasLparen.
             bindP (condition R hasLparen) (\<lambda>cond.
               thenP (if \<not> hasLparen
                      then ifP (notP (check [tsym '';'', tsym ''{'']))
                             (parserError ''while statement without parentheses requires braces around body'') (retP ())
                      else closeParen True)
                 (bindP (ifP (notP (match [tsym '';''])) (R (CStatement False)) (retP [])) (\<lambda>body.
                    retP (whileNode flgNone cond body)))))))"

definition caseNode :: "u64 \<Rightarrow> AstPtr \<Rightarrow> AstPtr \<Rightarrow> AstPtr \<Rightarrow> AstPtr" where
  "caseNode flags m body alias =
     mkNode ''CaseStmt'' flags [(''match'', FNode m), (''body'', FNode body), (''alias'', FNode alias)]"

definition setInCase :: "bool \<Rightarrow> unit parser" where
  "setInCase b = modP (\<lambda>P. P\<lparr>inCase := b\<rparr>)"

definition caseStatement :: "rec_calls \<Rightarrow> AstPtr parser" where
  "caseStatement R =
     bindP previous (\<lambda>prev.
       let isMulti = (pt_tag prev = tsym '','')
       in bindP (ifP (match [kw ''default'', tsym ''...''])
                   (if isMulti then parserError ''default case cannot be part of a multi-case statement''
                    else retP (flgDefault, []))
                   (thenP (match [kw ''case'']) (thenP (setInCase True) (bindP (expression R False) (\<lambda>m.
                      thenP (setInCase False) (retP (flgNone, m))))))) (\<lambda>(flags, m).
            bindP (ifP (notP (match [tsym '','']))
                     (thenP (consume0 (tsym ''=>''))
                        (ifP (notP (check [kw ''case'', tsym ''}''])) (R (CStatement False)) (retP [])))
                     (retP [])) (\<lambda>body.
              retP (caseNode flags m body []))))"

text \<open>The cases of a \<open>switch\<close> or \<open>match\<close>, of which there must be one.\<close>

definition parseCases :: "rec_calls \<Rightarrow> comptime_kind \<Rightarrow> cstring \<Rightarrow> AstPtr parser" where
  "parseCases R kind msg =
     thenP (consume0 (tsym ''{''))
       (bindP (whileP (notP (check [tsym ''}'', tokEoF]))
          (\<lambda>cases. bindP (R (CComptime kind)) (\<lambda>c. retP (listAddAstNode cases c))) [])
        (\<lambda>cases. thenP (consume0 (tsym ''}'')) (if cases = [] then parserError msg else retP cases)))"

definition switchStatement :: "rec_calls \<Rightarrow> AstPtr parser" where
  "switchStatement R =
     thenP (consume0 (kw ''switch'')) (bindP (match [tsym ''('']) (\<lambda>hasLParen.
       bindP (R (CExpression hasLParen)) (\<lambda>cond.
         thenP (closeParen hasLParen)
           (bindP (parseCases R KCase ''switch statement must have at least one case'') (\<lambda>cases.
              retP (mkNode ''SwitchStmt'' flgNone [(''cond'', FNode cond), (''cases'', FNode cases)]))))))"

definition matchCaseStatement :: "rec_calls \<Rightarrow> AstPtr parser" where
  "matchCaseStatement R =
     bindP previous (\<lambda>prev.
       let isMulti = (pt_tag prev = tsym '','')
       in bindP (ifP (match [kw ''else'', tsym ''...''])
                   (if isMulti then parserError ''default case cannot be part of a multi-case statement''
                    else retP (flgDefault, [], []))
                   (thenP (match [kw ''case'']) (thenP (setInCase True) (bindP (parseType R) (\<lambda>m.
                      thenP (setInCase False)
                        (bindP (ifP (andP (andP (retP (\<not> isMulti)) (notP (check [tsym '','']))) (match [kw ''as'']))
                                  (bindP (consume0 tokIdent) (\<lambda>tok.
                                     retP (mkNode ''AliasExpr'' flgNone [(''name'', FName (Some (getTokenString tok)))])))
                                  (retP [])) (\<lambda>alias.
                           retP (flgNone, m, alias)))))))) (\<lambda>(flags, m, alias).
            bindP (ifP (notP (match [tsym '','']))
                     (thenP (ifP (notP (check [tsym ''{''])) (consume0 (tsym ''=>'')) current)
                        (ifP (notP (check [kw ''case'', tsym ''}''])) (R (CStatement False)) (retP [])))
                     (retP [])) (\<lambda>body.
              retP (caseNode flags m body alias))))"

definition matchStatement :: "rec_calls \<Rightarrow> AstPtr parser" where
  "matchStatement R =
     thenP (consume0 (kw ''match'')) (bindP (match [tsym ''('']) (\<lambda>hasLparen.
       bindP (R (CExpression False)) (\<lambda>expr.
         thenP (closeParen hasLparen)
           (bindP (parseCases R KMatchCase ''match statement must have at least one case'') (\<lambda>cases.
              retP (mkNode ''MatchStmt'' flgNone [(''expr'', FNode expr), (''cases'', FNode cases)]))))))"

section \<open>Simple statements\<close>

definition deferStatement :: "rec_calls \<Rightarrow> AstPtr parser" where
  "deferStatement R =
     thenP (consume0 (kw ''defer'')) (bindP (check [tsym ''{'']) (\<lambda>isBlock.
       bindP (R (CExpression True)) (\<lambda>expr.
         thenP (if \<not> isBlock then match [tsym '';''] else retP False)
           (retP (mkNode ''DeferStmt'' flgNone [(''stmt'', FNode expr)])))))"

definition returnNode :: "AstPtr \<Rightarrow> bool \<Rightarrow> AstPtr" where
  "returnNode expr isRaise = mkNode ''ReturnStmt'' flgNone [(''expr'', FNode expr), (''isRaise'', FBool isRaise)]"

definition returnStatement :: "rec_calls \<Rightarrow> AstPtr parser" where
  "returnStatement R =
     thenP (consume0 (kw ''return''))
       (bindP (ifP (notP isEndOfStmt) (R (CExpression True)) (retP [])) (\<lambda>expr.
          thenP (match [tsym '';'']) (retP (returnNode expr False))))"

definition yieldStatement :: "rec_calls \<Rightarrow> AstPtr parser" where
  "yieldStatement R =
     thenP (consume0 (kw ''yield'')) (bindP (R (CExpression True)) (\<lambda>expr.
       thenP (match [tsym '';'']) (retP (mkNode ''YieldStmt'' flgNone [(''expr'', FNode expr)]))))"

definition continueStatement :: "AstPtr parser" where
  "continueStatement =
     bindP current (\<lambda>tok.
       ifP (notP (match [kw ''break'', kw ''continue''])) (reportUnexpectedToken ''continue/break'')
         (thenP (match [tsym '';''])
            (retP (mkNode (if pt_tag tok = kw ''continue'' then ''ContinueStmt'' else ''BreakStmt'') flgNone []))))"

definition raiseStmt :: "rec_calls \<Rightarrow> AstPtr parser" where
  "raiseStmt R =
     thenP (consume0 (kw ''raise''))
       (bindP (ifP (notP isEndOfStmt) (R (CExpression False)) (thenP (match [tsym '';'']) (retP []))) (\<lambda>expr.
          retP (returnNode expr True)))"

definition macroSdlStmt :: "rec_calls \<Rightarrow> AstPtr parser" where
  "macroSdlStmt R =
     thenP (consume0 (tsym '':'')) (bindP (consume0 tokIdent) (\<lambda>name.
       bindP (loopP (\<lambda>args.
          ifP (orP (check [tsym ''{'']) (notP isEndOfStmt))
            (bindP (R (CExpression True)) (\<lambda>expr.
               let (args, arg) = insertAstNode args expr
               in if nodeIs arg ''BlockStmt'' then breakP args else continueP args))
            (breakP args)) [])
       (\<lambda>args. retP (makeExprStmt (mkNode ''MacroCallExpr'' flgNone
          [(''callee'', FNode (makeIdentifier (getTokenString name))), (''args'', FNode args)])))))"

definition asmOperand :: "cstring \<Rightarrow> AstPtr \<Rightarrow> AstPtr" where
  "asmOperand c expr = mkNode ''AsmOperand'' flgNone [(''constraint'', FName (Some c)), (''operand'', FNode expr)]"

definition assemblyOutput :: "rec_calls \<Rightarrow> AstPtr parser" where
  "assemblyOutput R =
     bindP (consume0 tokStringLiteral) (\<lambda>tok.
       let c = getTokenString tok
       in if cur c \<noteq> CHR ''='' \<or> cur (tl c) = nul then parserError ''unexpected inline assembly output constraints''
          else thenP (consume0 (tsym ''('')) (bindP (R (CExpression False)) (\<lambda>expr.
                 thenP (consume0 (tsym '')''))
                   (if \<not> nodeIsLeftValue expr then parserError ''expecting an L-value for inline assembly output''
                    else retP (asmOperand c expr)))))"

definition assemblyInput :: "rec_calls \<Rightarrow> AstPtr parser" where
  "assemblyInput R =
     bindP (consume0 tokStringLiteral) (\<lambda>tok.
       let c = getTokenString tok
       in if cur c = nul then parserError ''unexpected inline assembly input constraints''
          else thenP (consume0 (tsym ''('')) (bindP (R (CExpression False)) (\<lambda>expr.
                 thenP (consume0 (tsym '')'')) (retP (asmOperand c expr)))))"

text \<open>A section of the operands, behind a colon.\<close>

definition assemblySection :: "AstPtr parser \<Rightarrow> AstPtr parser" where
  "assemblySection parse =
     ifP (match [tsym '':'']) (parseMany2 (tsym '':'') (tsym '')'') (tsym '','') parse) (retP [])"

definition assembly :: "rec_calls \<Rightarrow> AstPtr parser" where
  "assembly R =
     thenP (consume0 (kw ''asm'')) (thenP (consume0 (tsym ''('')) (bindP (consume0 tokStringLiteral) (\<lambda>template.
       bindP (assemblySection (assemblyOutput R)) (\<lambda>outputs.
         bindP (assemblySection (assemblyInput R)) (\<lambda>inputs.
           bindP (assemblySection parseString) (\<lambda>clobbers.
             bindP (assemblySection parseString) (\<lambda>asmFlags.
               thenP (consume0 (tsym '')''))
                 (retP (mkNode ''Asm'' flgNone
                   [(''text'', FName (Some (getTokenString template))), (''outputs'', FNode outputs), (''inputs'', FNode inputs),
                    (''clobbers'', FNode clobbers), (''flags'', FNode asmFlags)])))))))))"

section \<open>Statements\<close>

definition exprStatement :: "rec_calls \<Rightarrow> bool \<Rightarrow> AstPtr parser" where
  "exprStatement R exprOnly =
     bindP (expression R True) (\<lambda>expr.
       thenP (match [tsym '';'']) (retP (if exprOnly then expr else makeExprStmt expr)))"

definition statementBody :: "rec_calls \<Rightarrow> bool \<Rightarrow> bool \<Rightarrow> AstPtr parser" where
  "statementBody R exprOnly isComptime =
     bindP current (\<lambda>tok.
       let tag = pt_tag tok
       in if tag = kw ''if'' then ifStatement R
          else if tag = kw ''for'' then forStatement R isComptime
          else if tag = kw ''switch'' then switchStatement R
          else if tag = kw ''match'' then matchStatement R
          else if tag = kw ''while'' then whileStatement R
          else if tag = kw ''defer'' then deferStatement R
          else if tag = kw ''return'' then returnStatement R
          else if tag = kw ''yield'' then yieldStatement R
          else if tag = kw ''break'' \<or> tag = kw ''continue'' then continueStatement
          else if tag = kw ''var'' \<or> tag = kw ''const'' then variable R False False False False
          else if tag = kw ''func'' then funcDecl R flgNone
          else if tag = tsym ''{'' then block R
          else if tag = kw ''asm'' then assembly R
          else if tag = kw ''raise'' then raiseStmt R
          else if tag = tsym '':'' then macroSdlStmt R
          else exprStatement R exprOnly)"

definition statement :: "rec_calls \<Rightarrow> bool \<Rightarrow> AstPtr parser" where
  "statement R exprOnly =
     bindP (optAttributes R) (\<lambda>attrs.
       bindP (match [tsym ''#'']) (\<lambda>isComptime.
         ifP (andP (retP isComptime) (notP (check [kw ''if'', kw ''for'', kw ''while'', kw ''switch'', kw ''const'',
                kw ''continue'', kw ''break''])))
           (parserError ''current token is not a valid compile time token'')
           (bindP (statementBody R exprOnly isComptime)
              (modHead (\<lambda>n. orFlags (if isComptime then flgComptime else flgNone) (setAttrs attrs n))))))"

end
