(* ===== verification/Cxy_ParserDecl.thy ===== *)
theory Cxy_ParserDecl
  imports Cxy_ParserStmt
begin

text \<open>
  The declarations of \<open>lang/frontend/parser.c\<close>, compile-time conditionals around them, imports, the whole
  program, and the closure of the recursion: \<open>runParser n\<close> serves the calls with at most \<open>n\<close> of them
  nested.
\<close>

section \<open>Compile-time statements around members and declarations\<close>

text \<open>The argument is the kind of the parser the source passes as a function pointer.\<close>

definition comptimeBlock :: "rec_calls \<Rightarrow> comptime_kind \<Rightarrow> AstPtr parser" where
  "comptimeBlock R kind =
     thenP (consume0 (tsym ''{''))
       (bindP (whileP (notP (check [tsym ''}'']))
          (\<lambda>nodes. bindP (R (CComptime kind)) (\<lambda>n. retP (fst (insertAstNode nodes n)))) [])
        (\<lambda>nodes. thenP (consume0 (tsym ''}'')) (retP (mkNode ''BlockStmt'' flgComptime [(''stmts'', FNode nodes)]))))"

definition comptimeCondition :: "rec_calls \<Rightarrow> AstPtr parser" where
  "comptimeCondition R =
     thenP (consume0 (tsym ''('')) (bindP (condition R True) (\<lambda>cond. thenP (consume0 (tsym '')'')) (retP cond)))"

definition parseComptimeIf :: "rec_calls \<Rightarrow> comptime_kind \<Rightarrow> AstPtr parser" where
  "parseComptimeIf R kind =
     thenP (consume0 (kw ''if'')) (bindP (comptimeCondition R) (\<lambda>cond.
       bindP (comptimeBlock R kind) (\<lambda>body.
         bindP (ifP (match [kw ''else''])
                  (ifP (check [tsym ''{'']) (comptimeBlock R kind)
                     (thenP (consume0 (tsym ''#'')) (R (CComptimeIf kind))))
                  (retP [])) (\<lambda>otherwise.
           retP (ifNode flgComptime cond body otherwise)))))"

definition parseComptimeWhile :: "rec_calls \<Rightarrow> comptime_kind \<Rightarrow> AstPtr parser" where
  "parseComptimeWhile R kind =
     thenP (consume0 (kw ''while'')) (bindP (comptimeCondition R) (\<lambda>cond.
       bindP (comptimeBlock R kind) (\<lambda>body. retP (whileNode flgComptime cond body))))"

definition parseComptimeFor :: "rec_calls \<Rightarrow> comptime_kind \<Rightarrow> AstPtr parser" where
  "parseComptimeFor R kind =
     thenP (consume0 (kw ''for'')) (thenP (consume0 (tsym ''('')) (bindP (variable R False False True True) (\<lambda>var.
       thenP (consume0 (tsym '':'')) (bindP (R (CExpression True)) (\<lambda>rng.
         bindP (xFormCond R) (\<lambda>cond.
           thenP (consume0 (tsym '')''))
             (bindP (comptimeBlock R kind) (\<lambda>body. retP (forNode flgComptime var rng body cond)))))))))"

definition parseComptimeVarDecl :: "rec_calls \<Rightarrow> AstPtr parser" where
  "parseComptimeVarDecl R = bindP (variable R False False True False) (modHead (orFlags flgComptime))"

definition comptimeWith :: "rec_calls \<Rightarrow> comptime_kind \<Rightarrow> AstPtr parser \<Rightarrow> AstPtr parser" where
  "comptimeWith R kind parser =
     ifP (notP (match [tsym ''#''])) parser
       (bindP current (\<lambda>tok.
          let tag = pt_tag tok
          in if tag = kw ''if'' then parseComptimeIf R kind
             else if tag = kw ''while'' then parseComptimeWhile R kind
             else if tag = kw ''for'' then parseComptimeFor R kind
             else if tag = kw ''const'' then parseComptimeVarDecl R
             else parserError ''current token is not a valid comptime statement''))"

section \<open>Members and types\<close>

definition bitFieldError :: "u32 \<Rightarrow> unit parser" where
  "bitFieldError bits = (if bits = 0 \<or> bits > 64 then logError ''struct bit size out of range'' else retP ())"

definition parseStructField :: "rec_calls \<Rightarrow> bool \<Rightarrow> AstPtr parser" where
  "parseStructField R isPrivate =
     bindP (consume0 tokIdent) (\<lambda>tok.
       bindP (ifP (andP (check [tsym '':'']) (checkPeek 1 [tokIntLiteral]))
                (thenP (consume0 (tsym '':'')) (bindP (consume0 tokIntLiteral) (\<lambda>t.
                   let bits = ucast (intVal t) in thenP (bitFieldError bits) (retP bits))))
                (retP 0)) (\<lambda>bits.
         bindP (ifP (match [tsym '':'']) (R CType) (retP [])) (\<lambda>type.
           bindP (ifP (orP (retP (type = [])) (check [tsym ''='']))
                    (thenP (consume0 (tsym ''='')) (R (CExpression True))) (retP [])) (\<lambda>v.
             thenP (match [tsym '';''])
               (retP (mkNode ''FieldDecl'' (if isPrivate then flgPrivate else flgNone)
                 [(''name'', FName (Some (getTokenString tok))), (''bits'', FNum bits), (''type'', FNode type),
                  (''value'', FNode v)]))))))"

definition aliasDecl :: "rec_calls \<Rightarrow> bool \<Rightarrow> bool \<Rightarrow> AstPtr parser" where
  "aliasDecl R isPublic isExtern =
     thenP (consume0 (kw ''type'')) (bindP (consume0 tokIdent) (\<lambda>tok.
       let flags = (if isPublic then flgPublic else flgNone) OR (if isExtern then flgExtern else flgNone)
       in bindP (if \<not> isExtern
                 then ifP (match [tsym ''='']) (bindP (R CType) (\<lambda>t. retP (flags, t))) (retP (flags OR flgForwardDecl, []))
                 else retP (flags, [])) (\<lambda>(flags, alias).
            thenP (match [tsym '';''])
              (retP (mkNode ''TypeDecl'' flags [(''name'', FName (Some (getTokenString tok))), (''aliased'', FNode alias)])))))"

text \<open>Parameters of a macro up to the closing parenthesis; the second value tells a variadic one.\<close>

definition macroParams :: "(AstPtr \<times> bool) parser" where
  "macroParams =
     loopP (\<lambda>nodes.
       ifP (notP (check [tokEoF, tsym '')'']))
         (bindP parseMacroParam (\<lambda>param.
            let (nodes, param) = insertAstNode nodes param
            in ifP (andP (notP (match [tsym '',''])) (notP (check [tsym '')''])))
                 (parserError ''unexpected token, expecting , or )'')
                 (if lastHasFlag param flgVariadic then breakP (nodes, True) else continueP nodes)))
         (breakP (nodes, False))) []"

text \<open>The test for a parenthesis behind \<open>=\<close> asks for a token at an index, and is always true: \<open>tokLParen\<close> is 1.\<close>

definition macroBody :: "rec_calls \<Rightarrow> AstPtr parser" where
  "macroBody R =
     ifP (match [tsym ''='']) (R (CExpression True))
       (ifP (match [tsym ''(''])
          (bindP (parseManyNoSeparator (tsym '')'') (R (CStatement False))) (\<lambda>body.
             thenP (consume0 (tsym '')'')) (retP body)))
          (R (CStatement True)))"

definition macroDecl :: "rec_calls \<Rightarrow> bool \<Rightarrow> AstPtr parser" where
  "macroDecl R isPublic =
     thenP (consume0 (kw ''macro'')) (bindP (consume0 tokIdent) (\<lambda>tok.
       bindP (ifP (match [tsym ''('']) (bindP macroParams (\<lambda>r. thenP (consume0 (tsym '')'')) (retP r))) (retP ([], False)))
         (\<lambda>(params, isVariadic).
            bindP (macroBody R) (\<lambda>body.
              retP (mkNode ''MacroDecl''
                ((if isPublic then flgPublic else flgNone) OR (if isVariadic then flgVariadic else flgNone))
                [(''name'', FName (Some (getTokenString tok))), (''params'', FNode params), (''body'', FNode body)])))))"

text \<open>The attributes, and the flags of a member or declaration, are set on the first node; then the plugins run.\<close>

definition finishMember :: "AstPtr \<Rightarrow> bool \<Rightarrow> AstPtr \<Rightarrow> AstPtr parser" where
  "finishMember attrs isConst m =
     modHead (\<lambda>n. setAttrs attrs (orFlags (if isConst then flgConst else flgNone) n)) m"

definition parseMemberBody :: "rec_calls \<Rightarrow> AstPtr \<Rightarrow> bool \<Rightarrow> bool \<Rightarrow> bool \<Rightarrow> AstPtr parser" where
  "parseMemberBody R attrs isPrivate isVirtual isConst =
     bindP current (\<lambda>tok.
       let tag = pt_tag tok
       in if tag = tokIdent then
            ifP (checkPeek 1 [tsym ''!'']) (parseIdentifier R)
              (ifP (checkPeek 1 [tsym ''.'']) (bindP (parsePath R False) (macroExpression R))
                 (ifP (checkPeek 1 [tsym ''::'']) (bindP (parseIdentifier R) (pluginActionExpression R))
                    (parseStructField R isPrivate)))
          else if tag = kw ''func'' \<or> tag = kw ''async'' then
            funcDecl R ((if isVirtual then flgVirtual else flgNone) OR (if isPrivate then flgNone else flgPublic)
               OR (if isConst then flgConst else flgNone) OR flgMember)
          else if tag = kw ''macro'' then
            (if attrs \<noteq> [] then parserError ''attributes cannot be attached to macro declarations''
             else macroDecl R (\<not> isPrivate))
          else if tag = kw ''type'' then aliasDecl R (\<not> isPrivate) False
          else if tag = kw ''struct'' then thenP advance (R (CClassOrStruct (\<not> isPrivate) False))
          else reportUnexpectedToken ''struct member'')"

definition parseClassOrStructMember :: "rec_calls \<Rightarrow> AstPtr parser" where
  "parseClassOrStructMember R =
     bindP (optAttributes R) (\<lambda>attrs.
       bindP (match [tsym ''-'']) (\<lambda>isPrivate. bindP (match [kw ''virtual'']) (\<lambda>isVirtual.
         bindP (match [kw ''const'']) (\<lambda>isConst.
           bindP (parseMemberBody R attrs isPrivate isVirtual isConst) (\<lambda>m.
             bindP (finishMember attrs isConst m) invokePluginActionsOnEntity)))))"

definition parseInterfaceMember :: "rec_calls \<Rightarrow> AstPtr parser" where
  "parseInterfaceMember R =
     bindP (optAttributes R) (\<lambda>attrs.
       bindP (match [tsym ''-'']) (\<lambda>isPrivate. bindP (match [kw ''const'']) (\<lambda>isConst.
         bindP (ifP (check [kw ''func'', kw ''async''])
                  (funcDecl R (if isPrivate then flgExtern else flgPublic OR flgExtern))
                  (reportUnexpectedToken ''interface member'')) (finishMember attrs isConst))))"

definition annotation :: "rec_calls \<Rightarrow> AstPtr parser" where
  "annotation R =
     thenP (consume0 (tsym [CHR 0x60])) (bindP (consume0 tokIdent) (\<lambda>name.
       thenP (consume0 (tsym ''='')) (bindP (R (CExpression False)) (\<lambda>v.
         thenP (match [tsym '';''])
           (retP (mkNode ''Annotation'' flgNone [(''name'', FName (Some (getTokenString name))), (''value'', FNode v)]))))))"

definition annotations :: "rec_calls \<Rightarrow> AstPtr parser" where
  "annotations R =
     whileP (check [tsym [CHR 0x60]]) (\<lambda>list. bindP (annotation R) (\<lambda>a. retP (fst (insertAstNode list a)))) []"

text \<open>The members between braces; the annotations of a class come first.\<close>

definition membersBlock :: "rec_calls \<Rightarrow> comptime_kind \<Rightarrow> AstPtr parser" where
  "membersBlock R kind =
     bindP (whileP (notP (check [tsym ''}'', tokEoF]))
       (\<lambda>members. bindP (R (CComptime kind)) (\<lambda>m. retP (listAddAstNode members m))) [])
     (\<lambda>members. thenP (consume0 (tsym ''}'')) (retP members))"

text \<open>Base and implemented interfaces, behind the colon.\<close>

definition classBases :: "rec_calls \<Rightarrow> bool \<Rightarrow> (AstPtr \<times> AstPtr) parser" where
  "classBases R isClass =
     ifP (match [tsym '':''])
       (bindP (ifP (orP (retP (\<not> isClass)) (notP (check [tsym '':'']))) (R CType) (retP [])) (\<lambda>base.
          bindP (ifP (andP (retP isClass) (match [tsym '':'']))
                   (parseAtLeastOne (tsym ''{'') (tsym '','') (R CType)) (retP [])) (\<lambda>implements.
            retP (base, implements))))
       (retP ([], []))"

text \<open>Behind \<open>class\<close> or \<open>struct\<close>, which has been consumed and is the previous token.\<close>

definition classOrStructBody :: "rec_calls \<Rightarrow> bool \<Rightarrow> bool \<Rightarrow> AstPtr parser" where
  "classOrStructBody R isPublic isExtern =
     bindP previous (\<lambda>start.
       let isClass = (pt_tag start = kw ''class'')
       in bindP (consume0 tokIdent) (\<lambda>tok.
            bindP (if \<not> isExtern
                   then bindP (optGenericParams R False) (\<lambda>g. bindP (classBases R isClass) (\<lambda>(b, i). retP (g, b, i)))
                   else retP ([], [], [])) (\<lambda>(gParams, base, implements).
              bindP (ifP (orP (retP (\<not> isExtern)) (check [tsym ''{'']))
                       (thenP (consume0 (tsym ''{''))
                          (bindP (ifP (check [tsym [CHR 0x60]]) (annotations R) (retP [])) (\<lambda>annots.
                             bindP (membersBlock R KComptimeMember) (\<lambda>members. retP (annots, members)))))
                       (retP ([], []))) (\<lambda>(annots, members).
                retP (genericDecl (if isPublic then flgPublic else flgNone) gParams
                  (mkNode (if isClass then ''ClassDecl'' else ''StructDecl'')
                    ((if isPublic then flgPublic else flgNone) OR (if isExtern then flgExtern else flgNone))
                    [(''name'', FName (Some (getTokenString tok))), (''members'', FNode members),
                     (''implements'', FNode implements), (''base'', FNode base), (''annotations'', FNode annots)]))))))"

definition classOrStructDecl :: "rec_calls \<Rightarrow> bool \<Rightarrow> bool \<Rightarrow> AstPtr parser" where
  "classOrStructDecl R isPublic isExtern =
     ifP (match [kw ''class'', kw ''struct'']) (classOrStructBody R isPublic isExtern) (\<lambda>_. Crash)"

definition interfaceDecl :: "rec_calls \<Rightarrow> bool \<Rightarrow> AstPtr parser" where
  "interfaceDecl R isPublic =
     thenP (consume0 (kw ''interface'')) (bindP (consume0 tokIdent) (\<lambda>tok.
       bindP (optGenericParams R False) (\<lambda>gParams.
         thenP (consume0 (tsym ''{'')) (bindP (membersBlock R KInterfaceMember) (\<lambda>members.
           let flags = (if isPublic then flgPublic else flgNone)
           in retP (genericDecl flags gParams (mkNode ''InterfaceDecl'' flags
                [(''name'', FName (Some (getTokenString tok))), (''members'', FNode members)])))))))"

definition enumOption :: "rec_calls \<Rightarrow> AstPtr parser" where
  "enumOption R =
     bindP (optAttributes R) (\<lambda>attrs. bindP (consume0 tokIdent) (\<lambda>tok.
       bindP (ifP (match [tsym ''='']) (R (CExpression False)) (retP [])) (\<lambda>v.
         invokePluginActionsOnEntity
           [Ast ''EnumOptionDecl'' flgNone attrs
              [(''name'', FName (Some (getTokenString tok))), (''value'', FNode v)]])))"

definition enumDecl :: "rec_calls \<Rightarrow> bool \<Rightarrow> AstPtr parser" where
  "enumDecl R isPublic =
     thenP (consume0 (kw ''enum'')) (bindP (consume0 tokIdent) (\<lambda>tok.
       bindP (ifP (match [tsym '':'']) (R CType) (retP [])) (\<lambda>base.
         thenP (consume0 (tsym ''{''))
           (bindP (parseAtLeastOne (tsym ''}'') (tsym '','') (enumOption R)) (\<lambda>options.
              thenP (consume0 (tsym ''}''))
                (retP (mkNode ''EnumDecl'' (if isPublic then flgPublic else flgNone)
                  [(''options'', FNode options), (''name'', FName (Some (getTokenString tok))), (''base'', FNode base)])))))))"

definition defineDecl :: "rec_calls \<Rightarrow> AstPtr parser" where
  "defineDecl R =
     thenP (consume0 (tsym ''##'')) (bindP (match [kw ''pub'']) (\<lambda>isPublic.
       bindP (ifP (match [tsym ''(''])
                (bindP (parseMany (tsym '')'') (tsym '','') parseIdentifierWithAlias) (\<lambda>names.
                   thenP (consume0 (tsym '')'')) (retP names)))
                (parseIdentifier R)) (\<lambda>names.
         thenP (consume0 (tsym '':'')) (bindP (R CType) (\<lambda>type. bindP (modHead (orFlags flgExtern) type) (\<lambda>type.
           bindP (ifP (match [kw ''as'']) (parseIdentifier R) (retP [])) (\<lambda>container.
             retP (mkNode ''Define'' (if isPublic then flgPublic else flgNone)
               [(''names'', FNode names), (''type'', FNode type), (''container'', FNode container)]))))))))"

definition exceptionDecl :: "rec_calls \<Rightarrow> u64 \<Rightarrow> AstPtr parser" where
  "exceptionDecl R flags =
     thenP (consume0 (kw ''exception'')) (bindP (consume0 tokIdent) (\<lambda>name.
       bindP (ifP (check [tsym ''('']) (parenList (functionParam R)) (retP [])) (\<lambda>params.
         bindP (ifP (match [tsym ''=>'']) (R (CExpression True)) (R CBlock)) (\<lambda>body.
           retP (mkNode ''Exception'' flags
             [(''name'', FName (Some (getTokenString name))), (''params'', FNode params), (''body'', FNode body)])))))"

section \<open>Tests\<close>

definition skipTestDecl :: "unit parser" where
  "skipTestDecl =
     thenP (match [tokStringLiteral]) (thenP (consume0 (tsym ''{''))
       (bindP (skipNested (tsym ''{'') (tsym ''}'') 1) (\<lambda>count.
          if count \<noteq> 0 then parserError ''test case not properly terminated'' else retP ())))"

definition testContextDeclaration :: "rec_calls \<Rightarrow> AstPtr parser" where
  "testContextDeclaration R = bindP (R (CComptime KDeclaration)) (modHead (orFlags flgTestContext))"

definition testDecl :: "rec_calls \<Rightarrow> AstPtr parser" where
  "testDecl R =
     thenP (consume0 (kw ''test'')) (bindP (getP testMode) (\<lambda>testing.
       if \<not> testing then thenP skipTestDecl (retP [])
       else ifP (match [tsym ''{''])
              (bindP (parseManyNoSeparator (tsym ''}'') (testContextDeclaration R)) (\<lambda>decls.
                 thenP (consume0 (tsym ''}'')) (retP decls)))
              (bindP (consume0 tokStringLiteral) (\<lambda>name.
                 bindP (R CBlock) (\<lambda>body.
                   if list_all (\<lambda>n. nodesOf ''stmts'' n = []) (take 1 body)
                   then parserError ''empty test block not allowed''
                   else retP (mkNode ''TestDecl'' flgNone
                     [(''name'', FName (Some (getStringLiteral name))), (''body'', FNode body)]))))))"

section \<open>Declarations\<close>

definition parseCCode :: "AstPtr parser" where
  "parseCCode =
     ifP (notP (match [kw ''cDefine'', kw ''cInclude'', kw ''cSources'']))
       (parserError ''unexpected attribute'')
       (bindP previous (\<lambda>tok.
          let kind = getCCodeKind (pt_tag tok)
          in thenP (consume0 (tsym ''(''))
               (bindP (if kind = ''cSources'' then parseMany (tsym '')'') (tsym '','') parseString else parseString) (\<lambda>code.
                  thenP (consume0 (tsym '')''))
                    (retP (mkNode ''CCode'' flgNone [(''what'', FNode code), (''kind'', FName (Some kind))]))))))"

text \<open>Whether the declaration is extern; the word is consumed before the declarations that take it.\<close>

definition declExtern :: "bool parser" where
  "declExtern =
     ifP (check [kw ''extern''])
       (ifP (checkPeek 1 [kw ''type'', kw ''var'', kw ''const'', kw ''func'', kw ''struct'']) (thenP advance (retP True))
          (ifP (checkPeek 1 [kw ''async'', kw ''macro'', kw ''class'', kw ''test'', kw ''exception''])
             (parserError ''declaration cannot be marked as extern'') (retP False)))
       (retP False)"

text \<open>The source looks at the token behind the current one.\<close>

definition declPublicCheck :: "bool \<Rightarrow> unit parser" where
  "declPublicCheck isPublic =
     ifP (andP (retP isPublic) (checkPeek 1 [kw ''macro'', kw ''test'']))
       (parserError ''declaration cannot be marked as public'') (retP ())"

definition declarationBody :: "rec_calls \<Rightarrow> AstPtr \<Rightarrow> bool \<Rightarrow> bool \<Rightarrow> AstPtr parser" where
  "declarationBody R attrs isPublic isExtern =
     bindP current (\<lambda>tok.
       let tag = pt_tag tok; pub = (if isPublic then flgPublic else flgNone)
       in if tag = kw ''struct'' \<or> tag = kw ''class'' then classOrStructDecl R isPublic isExtern
          else if tag = kw ''interface'' then interfaceDecl R isPublic
          else if tag = kw ''enum'' then enumDecl R isPublic
          else if tag = kw ''type'' then aliasDecl R isPublic isExtern
          else if tag = kw ''var'' \<or> tag = kw ''const'' then variable R isPublic isExtern False False
          else if tag = kw ''func'' \<or> tag = kw ''async'' then
            funcDecl R (pub OR (if isExtern then flgExtern else flgNone))
          else if tag = tsym ''##'' then defineDecl R
          else if tag = kw ''macro'' then
            (if attrs \<noteq> [] then parserError ''attributes cannot be attached to macro declarations''
             else macroDecl R isPublic)
          else if tag = kw ''test'' then testDecl R
          else if tag = kw ''exception'' then exceptionDecl R pub
          else if tag = kw ''extern'' then parserError ''extern can only be used on top level declarations''
          else reportUnexpectedToken ''a declaration'')"

definition declarationP :: "rec_calls \<Rightarrow> AstPtr parser" where
  "declarationP R =
     ifP (andP (check [tsym ''@'']) (checkPeek 1 [kw ''cDefine''])) (thenP advance parseCCode)
       (bindP (optAttributes R) (\<lambda>attrs. bindP (match [kw ''pub'']) (\<lambda>isPublic. bindP declExtern (\<lambda>isExtern.
          thenP (declPublicCheck isPublic)
            (bindP (declarationBody R attrs isPublic isExtern) (\<lambda>decl.
               if decl = [] then retP []
               else bindP (modHead (\<lambda>n. setAttrs attrs (orFlags flgTopLevelDecl n)) decl)
                      invokePluginActionsOnEntity))))))"

definition comptime :: "rec_calls \<Rightarrow> comptime_kind \<Rightarrow> AstPtr parser" where
  "comptime R kind =
     comptimeWith R kind
       (case kind of
          KCase \<Rightarrow> caseStatement R
        | KMatchCase \<Rightarrow> matchCaseStatement R
        | KMember \<Rightarrow> parseClassOrStructMember R
        | KComptimeMember \<Rightarrow> comptimeWith R KMember (parseClassOrStructMember R)
        | KInterfaceMember \<Rightarrow> parseInterfaceMember R
        | KDeclaration \<Rightarrow> declarationP R
        | KComptimeDeclaration \<Rightarrow> comptimeWith R KDeclaration (declarationP R))"

section \<open>Imports and the top of a file\<close>

definition parseImportEntity :: "AstPtr parser" where
  "parseImportEntity =
     bindP (consume0 tokIdent) (\<lambda>tok.
       let name = getTokenString tok
       in bindP (getP isPackage) (\<lambda>package.
            bindP (ifP (andP (retP (\<not> package)) (match [kw ''as'']))
                     (bindP (consume0 tokIdent) (\<lambda>aliasTok. retP (getTokenString aliasTok))) (retP name)) (\<lambda>alias.
              retP (mkNode ''ImportEntity'' flgNone [(''alias'', FName (Some alias)), (''name'', FName (Some name))]))))"

definition parseModuleDecl :: "TokenTag \<Rightarrow> AstPtr parser" where
  "parseModuleDecl tag =
     thenP (consume0 tag) (bindP (consume0 tokIdent) (\<lambda>name.
       retP (mkNode ''ModuleDecl'' flgNone
         [(''name'', FName (Some (getTokenString name))), (''isPackage'', FBool (tag = kw ''package''))])))"

definition skipImportTestDecl :: "unit parser" where
  "skipImportTestDecl =
     bindP (ifP (match [tsym ''{''])
              (thenP (loopP (\<lambda>_. ifP (match [tokEoF, tsym ''}'']) (breakP ()) (thenP advance (continueP ()))) ())
                 (thenP (consume0 (kw ''from'')) (retP True)))
              (ifP (match [tokIdent]) (thenP (consume0 (kw ''from'')) (retP True)) (retP False))) (\<lambda>hasEntities.
       thenP (consume0 tokStringLiteral)
         (ifP (andP (retP hasEntities) (match [kw ''as''])) (thenP (consume0 tokIdent) (retP ())) (retP ())))"

definition importPlugin :: "AstPtr parser" where
  "importPlugin =
     bindP (consume0 tokStringLiteral) (\<lambda>pathTok.
       thenP (consume0 (kw ''as'')) (bindP (consume0 tokIdent) (\<lambda>aliasTok.
         let path = getStringLiteral pathTok; alias = getTokenString aliasTok
         in bindP (getP cc) (\<lambda>cc.
              case loadPlugin cc alias path of
                None \<Rightarrow> parserError ''loading plugin failed''
              | Some plugin \<Rightarrow>
                  thenP (modP (\<lambda>P. if pluginAliases P alias = None
                                   then P\<lparr>pluginAliases := (pluginAliases P)(alias \<mapsto> path)\<rparr> else P))
                    (retP (mkNode ''PluginDecl'' flgNone
                      [(''plugin'', FName (Some (plugin_path plugin))), (''name'', FName (Some alias))]))))))"

definition importEntities :: "AstPtr parser" where
  "importEntities =
     ifP (check [tokIdent]) parseImportEntity
       (ifP (match [tsym ''{''])
          (bindP (parseAtLeastOne (tsym ''}'') (tsym '','') parseImportEntity) (\<lambda>es.
             thenP (consume0 (tsym ''}'')) (retP es)))
          (retP []))"

definition parseImportDecl :: "rec_calls \<Rightarrow> AstPtr parser" where
  "parseImportDecl R =
     bindP (getP isPackage) (\<lambda>package.
       thenP (consume0 (if package then kw ''export'' else kw ''import''))
         (ifP (match [kw ''plugin'']) importPlugin
            (bindP (match [kw ''test'']) (\<lambda>forTest. bindP (getP testMode) (\<lambda>testing.
               if forTest \<and> \<not> testing then thenP skipImportTestDecl (retP [])
               else bindP importEntities (\<lambda>entities.
                 thenP (if entities \<noteq> [] then consume0 (kw ''from'') else current)
                   (bindP parseString (\<lambda>module.
                      bindP (ifP (andP (retP (entities = [] \<and> \<not> package)) (match [kw ''as'']))
                               (parseIdentifier R) (retP [])) (\<lambda>alias.
                        bindP (getP cc) (\<lambda>cc.
                          case compileModule cc module entities alias forTest of
                            None \<Rightarrow> parserFail ''importing module failed''
                          | Some flags \<Rightarrow> retP (mkNode ''ImportDecl'' flags
                              [(''module'', FNode module), (''alias'', FNode alias), (''entities'', FNode entities)])))))))))))"

definition parseImportsDecl :: "rec_calls \<Rightarrow> AstPtr parser" where
  "parseImportsDecl R =
     whileP (check [kw ''import'', kw ''export''])
       (\<lambda>imports. bindP (parseImportDecl R) (\<lambda>i. retP (if i \<noteq> [] then fst (insertAstNode imports i) else imports))) []"

text \<open>\<open>@__cc\<close>: a C source file or a library for the driver.\<close>

definition parseCBuild :: "AstPtr parser" where
  "parseCBuild =
     thenP (consume0 (kw ''__cc''))
       (bindP (ifP (match [tsym '':'']) (bindP (consume0 tokIdent) (\<lambda>t. retP (Some (getTokenString t)))) (retP None)) (\<lambda>choice.
          bindP (consume0 tokStringLiteral) (\<lambda>itemToken.
            let item = getTokenString itemToken
            in if choice = None \<or> choice = Some ''src''
               then thenP (modP (\<lambda>P. P\<lparr>nativeSources := nativeSources P @ [item]\<rparr>)) (retP [])
               else if choice = Some ''clib''
               then thenP (modP (\<lambda>P. P\<lparr>linkLibraries := linkLibraries P @ [item]\<rparr>)) (retP [])
               else parserFail ''Unsupported c-code token'')))"

definition parseTopLevelDecl :: "rec_calls \<Rightarrow> AstPtr parser" where
  "parseTopLevelDecl R =
     ifP (check [kw ''import'', kw ''export'']) (parseImportDecl R)
       (ifP (check [kw ''cDefine'', kw ''cInclude'', kw ''cSources'']) parseCCode parseCBuild)"

definition topLevelBlock :: "rec_calls \<Rightarrow> AstPtr parser" where
  "topLevelBlock R =
     bindP (parseManyNoSeparator (tsym ''}'') (parseTopLevelDecl R)) (\<lambda>nodes.
       thenP (consume0 (tsym ''}'')) (retP nodes))"

text \<open>A block that is skipped ends at the first closing brace.\<close>

definition skipBlock :: "unit parser" where
  "skipBlock = thenP (consume0 (tsym ''{'')) (thenP (skipUntil (tsym ''}'')) (thenP (consume0 (tsym ''}'')) (retP ())))"

definition conditionalTopLevelDecl :: "rec_calls \<Rightarrow> AstPtr parser" where
  "conditionalTopLevelDecl R =
     ifP (match [tsym ''##''])
       (thenP (consume0 (kw ''if'')) (thenP (consume0 (tsym ''('')) (bindP (R (CExpression False)) (\<lambda>cond.
          thenP (consume0 (tsym '')'')) (bindP (getP cc) (\<lambda>cc.
            case preprocessAst cc cond of
              [] \<Rightarrow> parserError ''condition must evaluate to a boolean literal''
            | c # _ \<Rightarrow>
                if ast_tag c \<noteq> ''BoolLit'' then parserError ''condition must evaluate to a boolean literal''
                else if \<not> boolOf ''value'' c
                then thenP skipBlock (ifP (match [kw ''else'']) (R CConditional) (retP []))
                else thenP (consume0 (tsym ''{'')) (bindP (topLevelBlock R) (\<lambda>nodes.
                  thenP (whileP (match [kw ''else''])
                    (\<lambda>_. thenP (ifP (match [tsym ''##'']) (skipUntil (tsym ''{'')) (retP True)) skipBlock) ())
                    (retP nodes)))))))))
       (ifP (match [tsym ''{'']) (topLevelBlock R) (parseTopLevelDecl R))"

section \<open>The program\<close>

definition catchAbort :: "'a parser \<Rightarrow> 'a parser \<Rightarrow> 'a parser" where
  "catchAbort p h = (\<lambda>P. case p P of Abort P \<Rightarrow> h P | r \<Rightarrow> r)"

text \<open>One declaration at the top of the file; \<open>None\<close> leaves \<open>parseProgram\<close> with \<open>NULL\<close>.\<close>

definition topLevelStep :: "rec_calls \<Rightarrow> AstPtr \<Rightarrow> (AstPtr + AstPtr option) parser" where
  "topLevelStep R topLevel =
     catchAbort
       (tryCatch (bindP (conditionalTopLevelDecl R) (\<lambda>node. continueP (listAddAstNode topLevel node)))
          (thenP synchronize (continueP topLevel)))
       (breakP None)"

definition packageLoop :: "rec_calls \<Rightarrow> AstPtr option parser" where
  "packageLoop R =
     loopP (\<lambda>topLevel.
       ifP isEoF (breakP (Some topLevel))
         (ifP (notP (check [kw ''export'']))
            (parserError ''unexpected token in package declaration, expecting export'')
            (topLevelStep R topLevel))) []"

definition moduleTopLoop :: "rec_calls \<Rightarrow> AstPtr option parser" where
  "moduleTopLoop R =
     loopP (\<lambda>topLevel.
       ifP (orP (check [kw ''import'', kw ''export'']) (orP (check [tsym ''##''])
              (andP (andP (check [tsym ''@'']) (checkPeek 1 [kw ''cDefine'', kw ''cInclude'', kw ''cSources'', kw ''__cc'']))
                 (match [tsym ''@'']))))
         (topLevelStep R topLevel)
         (breakP (Some topLevel))) []"

definition declsLoop :: "rec_calls \<Rightarrow> AstPtr parser" where
  "declsLoop R =
     loopP (\<lambda>decls.
       ifP isEoF (breakP decls)
         (tryCatch (bindP (comptime R KComptimeDeclaration) (\<lambda>decl. continueP (listAddAstNode decls decl)))
            (thenP synchronize (continueP decls)))) []"

definition programNode :: "AstPtr \<Rightarrow> AstPtr \<Rightarrow> AstPtr \<Rightarrow> AstPtr" where
  "programNode module tops decls =
     mkNode ''Program'' flgNone [(''module'', FNode module), (''top'', FNode tops), (''decls'', FNode decls)]"

definition parseProgram :: "rec_calls \<Rightarrow> AstPtr parser" where
  "parseProgram R =
     thenP (modP (\<lambda>P. P\<lparr>pluginAliases := Map.empty\<rparr>))
       (bindP (ifP (check [kw ''module'']) (parseModuleDecl (kw ''module''))
                 (ifP (check [kw ''package''])
                    (bindP (parseModuleDecl (kw ''package'')) (\<lambda>m. thenP (modP (\<lambda>P. P\<lparr>isPackage := True\<rparr>)) (retP m)))
                    (retP []))) (\<lambda>module.
          bindP (getP isPackage) (\<lambda>package.
            if package
            then bindP (packageLoop R) (\<lambda>r.
                   retP (case r of None \<Rightarrow> [] | Some tops \<Rightarrow> programNode module tops []))
            else bindP (moduleTopLoop R) (\<lambda>r.
                   case r of
                     None \<Rightarrow> retP []
                   | Some tops \<Rightarrow> bindP (declsLoop R) (\<lambda>decls. retP (programNode module tops decls))))))"

section \<open>Closing the recursion\<close>

definition dispatch :: "rec_calls \<Rightarrow> rec_calls" where
  "dispatch R c =
     (case c of
        CExpression b \<Rightarrow> expression R b
      | CTernary b \<Rightarrow> ternary R b
      | CBinary prec b \<Rightarrow> binary R prec b
      | CPrefix b \<Rightarrow> prefix R b
      | CPrimary b \<Rightarrow> primaryBase R b
      | CType \<Rightarrow> parseType R
      | CStatement b \<Rightarrow> statement R b
      | CBlock \<Rightarrow> block R
      | CClassOrStruct isPublic isExtern \<Rightarrow> classOrStructBody R isPublic isExtern
      | CComptime kind \<Rightarrow> comptime R kind
      | CComptimeIf kind \<Rightarrow> parseComptimeIf R kind
      | CConditional \<Rightarrow> conditionalTopLevelDecl R)"

primrec runParser :: "nat \<Rightarrow> rec_calls" where
  "runParser 0 c = (\<lambda>_. NoFuel)"
| "runParser (Suc n) c = dispatch (runParser n) c"

definition makeParser :: "CompilerDriver \<Rightarrow> bool \<Rightarrow> ptoken list \<Rightarrow> Parser" where
  "makeParser driver test toks =
     \<lparr>P_prev = eofToken, P_ahead = toks, inCase = False, testMode = test, isPackage = False,
      pluginAliases = Map.empty, anonymousPostfix = 0, errorLog = [], nativeSources = [], linkLibraries = [],
      cc = driver\<rparr>"

definition parseExpression :: "nat \<Rightarrow> AstPtr parser" where
  "parseExpression n = runParser n (CExpression False)"

end
