(* ===== verification/Cxy_Include.thy ===== *)
theory Cxy_Include
  imports Cxy_ParserCore
begin

text \<open>
  How the tokens reach the parser: \<open>advanceLexer_\<close> of \<open>lang/frontend/parser.c\<close>, which replaces an
  include by the tokens of the file it names, and the search for that file, \<open>getModuleLocation\<close> and
  \<open>resolvePackageDependency\<close> of \<open>driver/driver.c\<close>. The parser works on the tokens delivered here.

  What the operating system says of paths is a record of functions. The working directory is not
  the root directory, for which the code leaves a byte of the path unset. An include of the file
  it stands in never ends, so the functions may have no result.
\<close>

record include_env =
  currentDir :: cstring
  depsDir :: "cstring option"
  isDirectoryAt :: "cstring \<Rightarrow> bool"
  isRegularAt :: "cstring \<Rightarrow> bool"
  realpath :: "cstring \<Rightarrow> cstring option"
  fileContents :: "cstring \<Rightarrow> cstring option"

text \<open>A location, or none with the message that was logged, or none without a message, or a failed
  assertion.\<close>

datatype location = Location cstring | Reported cstring | Unreported | AssertionFails

definition PATH_MAX :: nat where
  "PATH_MAX = 4096"

definition packageBase :: "include_env \<Rightarrow> cstring \<Rightarrow> cstring" where
  "packageBase env packageName =
     (let deps = (case depsDir env of None \<Rightarrow> ''.cxy/packages'' | Some d \<Rightarrow> if d = [] then ''.cxy/packages'' else d)
      in if cur deps = CHR ''/'' then deps @ ''/'' @ packageName
         else currentDir env @ ''/'' @ deps @ ''/'' @ packageName)"

definition resolvePackageDependency :: "include_env \<Rightarrow> cstring \<Rightarrow> location" where
  "resolvePackageDependency env modulePath =
     (let packagePath = tl modulePath;
          packageName = takeWhile (\<lambda>c. c \<noteq> CHR ''/'') packagePath;
          slash = dropWhile (\<lambda>c. c \<noteq> CHR ''/'') packagePath
      in if length packageName = 0 then Reported ''invalid package import path: missing package name after @''
         else if length packageName \<ge> 256 then Reported ''package name too long in import path''
         else
           let basePath = packageBase env packageName
           in if length basePath \<ge> PATH_MAX then Reported ''package path too long''
              else if \<not> isDirectoryAt env basePath then Reported ''package not found''
              else
                let fullPath = take (PATH_MAX - 1) (if slash \<noteq> [] then basePath @ ''/'' @ tl slash else basePath @ ''/index.cxy'')
                in if \<not> isRegularAt env fullPath
                   then Reported (if slash \<noteq> [] then ''file not found in package'' else ''package does not have an index.cxy file'')
                   else case realpath env fullPath of
                          None \<Rightarrow> Reported ''failed to resolve path''
                        | Some path \<Rightarrow> Location path)"

text \<open>The search for an included file; a path from \<open>realpath\<close> is not tested before it is made a
  string of the pool, which gives a null pointer for a null pointer.\<close>

definition isRelative :: "cstring \<Rightarrow> bool" where
  "isRelative path \<longleftrightarrow> cur path = CHR ''.'' \<and> (cur (tl path) = CHR ''.'' \<or> cur (tl path) = CHR ''/'')"

definition getIncludeFileLocation :: "include_env \<Rightarrow> cstring \<Rightarrow> cstring \<Rightarrow> location" where
  "getIncludeFileLocation env importer modulePath =
     (if cur modulePath = nul then AssertionFails
      else if cur modulePath = CHR ''@'' then resolvePackageDependency env modulePath
      else if isRelative modulePath
      then (case strrchr importer (CHR ''/'') of
              None \<Rightarrow> Location modulePath
            | Some i \<Rightarrow>
                (case realpath env (take (i + 1) importer @ modulePath) of
                   None \<Rightarrow> Unreported
                 | Some path \<Rightarrow> Location path))
      else (case realpath env (currentDir env @ ''/'' @ modulePath) of
              None \<Rightarrow> Reported ''stdlib module/include path not found''
            | Some path \<Rightarrow> Location path))"

text \<open>Why an include aborts the parser: no path follows it, the path has no location (with the file
  the include stands in, the path and what the search has logged), or there is no file at the
  location. Then the message that was logged, if any.\<close>

datatype include_stop =
  NoPathGiven
| NoLocation cstring cstring "cstring option"
| NoFile cstring cstring

fun stopMessage :: "include_stop \<Rightarrow> cstring option" where
  "stopMessage NoPathGiven = Some ''include must be followed the file path to include''"
| "stopMessage (NoLocation importer filename message) = message"
| "stopMessage (NoFile filename path) = Some ''include file does not exist''"

text \<open>A token and the lexer behind it, an abort of the parser, or a crash.\<close>

datatype include_outcome = Delivered Token Lexer | Stopped include_stop | Crashed

partial_function (option) advanceIncludeLexer :: "include_env \<Rightarrow> Lexer \<Rightarrow> include_outcome option" where
  "advanceIncludeLexer env L =
     (case advanceLexer L of
        Some (Emit tok L) \<Rightarrow>
          if tok_tag tok \<noteq> tokKeyword ''include'' then Some (Delivered tok L)
          else
            (case advanceLexer L of
               Some (Emit tok L) \<Rightarrow>
                 if tok_tag tok \<noteq> tokStringLiteral then Some (Stopped NoPathGiven)
                 else
                   let filename = getStringLiteral (parserToken L tok)
                   in case getIncludeFileLocation env (tok_file tok) filename of
                        AssertionFails \<Rightarrow> Some Crashed
                      | Reported message \<Rightarrow> Some (Stopped (NoLocation (tok_file tok) filename (Some message)))
                      | Unreported \<Rightarrow> Some (Stopped (NoLocation (tok_file tok) filename None))
                      | Location path \<Rightarrow>
                          (case fileContents env path of
                             None \<Rightarrow> Some (Stopped (NoFile filename path))
                           | Some contents \<Rightarrow> advanceIncludeLexer env (lexerPush L path contents))
             | Some _ \<Rightarrow> Some Crashed
             | None \<Rightarrow> None)
      | Some _ \<Rightarrow> Some Crashed
      | None \<Rightarrow> None)"

declare advanceIncludeLexer.simps [code]

text \<open>The tokens delivered until the end of the files or until the delivery stops, at most \<open>n\<close>.\<close>

datatype delivery_end = EndOfFiles | Stop include_stop | CrashEnd

fun spliceAll :: "include_env \<Rightarrow> nat \<Rightarrow> Lexer \<Rightarrow> (ptoken list \<times> delivery_end) option" where
  "spliceAll env 0 L = None"
| "spliceAll env (Suc n) L =
     (case advanceIncludeLexer env L of
        None \<Rightarrow> None
      | Some (Stopped stop) \<Rightarrow> Some ([], Stop stop)
      | Some Crashed \<Rightarrow> Some ([], CrashEnd)
      | Some (Delivered tok L) \<Rightarrow>
          if tok_tag tok = tokEoF then Some ([], EndOfFiles)
          else (case spliceAll env n L of
                  None \<Rightarrow> None
                | Some (toks, e) \<Rightarrow> Some (parserToken L tok # toks, e)))"

section \<open>What the delivery does\<close>

text \<open>An include that is not found and not reported.\<close>

definition missingRelative :: "include_env \<Rightarrow> cstring \<Rightarrow> cstring \<Rightarrow> bool" where
  "missingRelative env importer path \<longleftrightarrow> isRelative path \<and>
     (\<exists>i. strrchr importer (CHR ''/'') = Some i \<and> realpath env (take (i + 1) importer @ path) = None)"

lemma package_reported: "resolvePackageDependency env path \<noteq> Unreported"
  unfolding resolvePackageDependency_def Let_def by (auto simp only: location.distinct split: if_split option.split)

lemma location_unreported:
  "getIncludeFileLocation env importer path = Unreported \<longleftrightarrow> missingRelative env importer path"
proof -
  have "isRelative path \<Longrightarrow> cur path \<noteq> nul \<and> cur path \<noteq> CHR ''@''" by (auto simp: isRelative_def nul_def)
  then show ?thesis
    using package_reported [of env path]
    by (auto simp: getIncludeFileLocation_def missingRelative_def split: option.splits)
qed

text \<open>A stop without a message is at such an include.\<close>

definition silentStop :: "include_env \<Rightarrow> include_stop \<Rightarrow> bool" where
  "silentStop env stop \<longleftrightarrow> (\<exists>importer filename. stop = NoLocation importer filename None \<and> missingRelative env importer filename)"

lemma includeLexer_stops:
  assumes "advanceIncludeLexer env L = Some r"
  shows "\<forall>stop. r = Stopped stop \<longrightarrow> stopMessage stop = None \<longrightarrow> silentStop env stop"
proof (rule advanceIncludeLexer.raw_induct
    [where P = "\<lambda>env L r. \<forall>stop. r = Stopped stop \<longrightarrow> stopMessage stop = None \<longrightarrow> silentStop env stop", OF _ assms], goal_cases)
  case (1 f env L r)
  note step = 1(2)
  show ?case
  proof (intro allI impI)
    fix stop
    assume r: "r = Stopped stop" and quiet: "stopMessage stop = None"
    from step r quiet obtain tok L1 str L2 where t: "advanceLexer L = Some (Emit tok L1)" "tok_tag tok = kw ''include''"
        "advanceLexer L1 = Some (Emit str L2)" "tok_tag str = tokStringLiteral"
      by (auto split: option.splits lex_outcome.splits if_splits)
    let ?name = "getStringLiteral (parserToken L2 str)"
    show "silentStop env stop"
    proof (cases "getIncludeFileLocation env (tok_file str) ?name")
      case (Location path)
      with step t r quiet obtain contents where "f env (lexerPush L2 path contents) = Some (Stopped stop)"
        by (auto split: option.splits)
      from 1(1) [OF this] quiet show ?thesis by blast
    next
      case Unreported
      then have "missingRelative env (tok_file str) ?name" by (simp add: location_unreported)
      moreover have "stop = NoLocation (tok_file str) ?name None" using step t r Unreported by simp
      ultimately show ?thesis unfolding silentStop_def by blast
    qed (use step t r quiet in auto)
  qed
qed

lemma spliceAll_stops:
  "spliceAll env n L = Some (toks, Stop stop) \<Longrightarrow> stopMessage stop = None \<Longrightarrow> silentStop env stop"
proof (induction n arbitrary: L toks)
  case (Suc n)
  then obtain r where r: "advanceIncludeLexer env L = Some r" by (auto split: option.splits)
  show ?case
  proof (cases r)
    case (Delivered tok L')
    with r Suc.prems(1) obtain ts where "spliceAll env n L' = Some (ts, Stop stop)"
      by (auto split: if_splits option.splits)
    then show ?thesis using Suc.prems(2) by (rule Suc.IH)
  next
    case (Stopped m)
    with r Suc.prems includeLexer_stops [OF r] show ?thesis by simp
  next
    case Crashed
    with r Suc.prems show ?thesis by simp
  qed
qed simp

text \<open>Without includes the tokens are those of the lexer.\<close>

theorem spliceAll_plain:
  "lexAll n L = Some toks \<Longrightarrow> \<forall>tok\<in>set toks. tok_tag tok \<noteq> tokKeyword ''include'' \<Longrightarrow>
   \<exists>ptoks. spliceAll env n L = Some (ptoks, EndOfFiles) \<and> map pt_tag ptoks = map tok_tag toks"
proof (induction n arbitrary: L toks)
  case (Suc n)
  then obtain tok L' where a: "advanceLexer L = Some (Emit tok L')"
    by (auto split: option.splits lex_outcome.splits)
  show ?case
  proof (cases "tok_tag tok = tokEoF")
    case True
    with a Suc.prems have "advanceIncludeLexer env L = Some (Delivered tok L')" "toks = []"
      by (auto simp: advanceIncludeLexer.simps [of env L])
    with True show ?thesis by simp
  next
    case False
    with a Suc.prems(1) obtain ts where ts: "lexAll n L' = Some ts" "toks = tok # ts" by (auto split: option.splits)
    with a Suc.prems(2) have d: "advanceIncludeLexer env L = Some (Delivered tok L')" by (simp add: advanceIncludeLexer.simps [of env L])
    from Suc.IH [OF ts(1)] Suc.prems(2) ts(2) obtain ptoks where
      "spliceAll env n L' = Some (ptoks, EndOfFiles)" "map pt_tag ptoks = map tok_tag ts" by auto
    with d False ts(2) show ?thesis by (simp add: parserToken_def Let_def)
  qed
qed simp

text \<open>An include of a relative path that does not exist aborts the parser without a message.\<close>

theorem include_aborts_silently:
  assumes "advanceLexer L = Some (Emit inc L1)" "tok_tag inc = tokKeyword ''include''"
    and "advanceLexer L1 = Some (Emit str L2)" "tok_tag str = tokStringLiteral"
    and "missingRelative env (tok_file str) (getStringLiteral (parserToken L2 str))"
  shows "\<exists>stop. spliceAll env (Suc n) L = Some ([], Stop stop) \<and> stopMessage stop = None"
  using assms by (simp add: advanceIncludeLexer.simps [of env L] flip: location_unreported)

end
