(* ===== verification/Cxy_ParserReports.thy ===== *)
theory Cxy_ParserReports
  imports Cxy_ParserDecl Cxy_Include
begin

text \<open>
  On the tokens that are delivered to it, no error of the parser is silent. Every function of the parser keeps the messages logged before, and
  leaves by an exception only when it has logged one more; the statements are closed under the
  combinators, so each function keeps the contract when the recursive calls do.
\<close>

section \<open>The contract\<close>

definition logsFrom :: "cstring list \<Rightarrow> 'a presult \<Rightarrow> bool" where
  "logsFrom log r =
     (case r of
        Ok a P \<Rightarrow> \<exists>ms. errorLog P = log @ ms
      | Throw P \<Rightarrow> \<exists>m ms. errorLog P = log @ m # ms
      | Abort P \<Rightarrow> \<exists>m ms. errorLog P = log @ m # ms
      | Crash \<Rightarrow> True
      | NoFuel \<Rightarrow> True)"

definition reports :: "'a parser \<Rightarrow> bool" where
  "reports p \<longleftrightarrow> (\<forall>P. logsFrom (errorLog P) (p P))"

named_theorems rep \<open>functions that report their errors\<close>

lemma logsFrom_trans: "errorLog P = log @ ms \<Longrightarrow> logsFrom (errorLog P) r \<Longrightarrow> logsFrom log r"
  by (cases ms) (auto simp: logsFrom_def split: presult.splits)

section \<open>Combinators\<close>

lemma bindP_reports [rep]: "reports p \<Longrightarrow> (\<And>a. reports (f a)) \<Longrightarrow> reports (bindP p f)"
  unfolding reports_def
proof
  fix P
  assume "\<forall>P. logsFrom (errorLog P) (p P)" and f: "\<And>a. \<forall>P. logsFrom (errorLog P) (f a P)"
  then have p: "logsFrom (errorLog P) (p P)" by blast
  show "logsFrom (errorLog P) (bindP p f P)"
  proof (cases "p P")
    case (Ok a Q)
    then obtain ms where "errorLog Q = errorLog P @ ms" using p by (auto simp: logsFrom_def)
    then have "logsFrom (errorLog P) (f a Q)" using f logsFrom_trans by blast
    then show ?thesis by (simp add: bindP_def Ok)
  qed (use p in \<open>simp_all add: bindP_def logsFrom_def\<close>)
qed

lemma simple_reports [rep]:
  "reports (retP a)" "reports (getP g)" "reports current" "reports previous" "reports advance" "reports (peek i)" "reports (\<lambda>_. Crash)"
  "reports (\<lambda>_. NoFuel)"
  by (auto simp: reports_def logsFrom_def retP_def getP_def current_def previous_def advance_def peek_def split: list.splits)

lemma modP_reports [rep]: "(\<And>P. errorLog (u P) = errorLog P) \<Longrightarrow> reports (modP u)"
  by (simp add: reports_def logsFrom_def modP_def)

lemma branch_reports [rep]:
  "(b \<Longrightarrow> reports p) \<Longrightarrow> (\<not> b \<Longrightarrow> reports q) \<Longrightarrow> reports (if b then p else q)"
  "(\<And>a c. reports (g a c)) \<Longrightarrow> reports (case_prod g x)"
  "reports p \<Longrightarrow> (\<And>v. reports (h v)) \<Longrightarrow> reports (case_option p h m)"
  "reports p \<Longrightarrow> (\<And>y ys. reports (k y ys)) \<Longrightarrow> reports (case_list p k zs)"
  by (auto split: prod.splits option.splits list.splits)

lemma thenP_reports [rep]: "reports p \<Longrightarrow> reports q \<Longrightarrow> reports (thenP p q)"
  unfolding thenP_def by (intro rep)

lemma ifP_reports [rep]: "reports c \<Longrightarrow> reports p \<Longrightarrow> reports q \<Longrightarrow> reports (ifP c p q)"
  unfolding ifP_def by (intro rep)

lemma connectives_report [rep]:
  "reports c \<Longrightarrow> reports (notP c)" "reports c \<Longrightarrow> reports d \<Longrightarrow> reports (andP c d)" "reports c \<Longrightarrow> reports d \<Longrightarrow> reports (orP c d)"
  unfolding notP_def andP_def orP_def by (auto intro!: rep)

lemma modHead_reports [rep]: "reports (modHead f p)"
  unfolding modHead_def by (intro rep)

lemma check_reports [rep]: "reports (check tags)" "reports (checkPeek i tags)"
  unfolding check_def checkPeek_def by (intro rep)+

lemma logError_reports [rep]: "reports (logError msg)"
  by (simp add: reports_def logsFrom_def logError_def modP_def)

lemma errors_report [rep]: "reports (parserError msg)" "reports (parserFail msg)" "reports (reportUnexpectedToken msg)"
  by (auto simp: reports_def logsFrom_def reportUnexpectedToken_def parserError_def parserFail_def thenP_def bindP_def advance_def
      logError_def modP_def split: list.splits)

lemma tryCatch_reports [rep]:
  assumes "reports p" "reports h"
  shows "reports (tryCatch p h)" "reports (catchAbort p h)"
proof -
  have "logsFrom (errorLog P) (tryCatch p h P) \<and> logsFrom (errorLog P) (catchAbort p h P)" for P
  proof -
    have p: "logsFrom (errorLog P) (p P)" and h: "logsFrom (errorLog Q) (h Q)" for Q
      using assms by (simp_all add: reports_def)
    have "logsFrom (errorLog P) (h Q)" if "p P = Throw Q \<or> p P = presult.Abort Q" for Q
      using p that by (auto simp: logsFrom_def [of _ "p P"] intro: logsFrom_trans [OF _ h])
    with p show ?thesis
      by (auto simp: tryCatch_def catchAbort_def split: presult.splits)
  qed
  then show "reports (tryCatch p h)" "reports (catchAbort p h)" by (simp_all add: reports_def)
qed

lemma loop_reports [rep]: "reports (continueP s)" "reports (breakP a)"
  unfolding continueP_def breakP_def by (intro rep)+

lemma iterP_reports: "(\<And>s. reports (step s)) \<Longrightarrow> reports (iterP n step s)"
  by (induction n arbitrary: s) (auto intro!: rep split: sum.splits)

lemma loopP_reports [rep]: "(\<And>s. reports (step s)) \<Longrightarrow> reports (loopP step s)"
  using iterP_reports [of step] unfolding reports_def loopP_def by blast

lemma whileP_reports [rep]: "reports c \<Longrightarrow> (\<And>s. reports (body s)) \<Longrightarrow> reports (whileP c body s)"
  unfolding whileP_def by (intro rep)

section \<open>Functions that make no recursive call\<close>

lemma skipUntil_reports [rep]: "reports (skipUntil tag)"
  unfolding skipUntil_def Let_def by (auto intro!: rep)

lemma pluginAttrs_reports [rep]: "reports (pluginAttrs attrs result newAttrs)"
  by (induction attrs arbitrary: result newAttrs)
    (auto simp: findPluginByAlias_def Let_def intro!: rep)


lemma match_reports [rep]: "reports (match a0)"
  unfolding match_def Let_def by (auto intro!: rep)

lemma isEoF_reports [rep]: "reports isEoF"
  unfolding isEoF_def Let_def by (auto intro!: rep)

lemma consume_reports [rep]: "reports (consume a0 a1)"
  unfolding consume_def Let_def by (auto intro!: rep)

lemma consume0_reports [rep]: "reports (consume0 a0)"
  unfolding consume0_def Let_def by (auto intro!: rep)

lemma parseManyUntil_reports [rep]: "reports p2 \<Longrightarrow> reports (parseManyUntil a0 a1 p2)"
  unfolding parseManyUntil_def Let_def by (auto intro!: rep)

lemma parseMany_reports [rep]: "reports p2 \<Longrightarrow> reports (parseMany a0 a1 p2)"
  unfolding parseMany_def Let_def by (auto intro!: rep)

lemma parseMany2_reports [rep]: "reports p3 \<Longrightarrow> reports (parseMany2 a0 a1 a2 p3)"
  unfolding parseMany2_def Let_def by (auto intro!: rep)

lemma parseManyNoSeparator_reports [rep]: "reports p1 \<Longrightarrow> reports (parseManyNoSeparator a0 p1)"
  unfolding parseManyNoSeparator_def Let_def by (auto intro!: rep)

lemma parseAtLeastOne_reports [rep]: "reports p2 \<Longrightarrow> reports (parseAtLeastOne a0 a1 p2)"
  unfolding parseAtLeastOne_def Let_def by (auto intro!: rep)

lemma parseAtLeastOne2_reports [rep]: "reports p3 \<Longrightarrow> reports (parseAtLeastOne2 a0 a1 a2 p3)"
  unfolding parseAtLeastOne2_def Let_def by (auto intro!: rep)

lemma synchronizeUntil_reports [rep]: "reports (synchronizeUntil a0)"
  unfolding synchronizeUntil_def Let_def by (auto intro!: rep)

lemma skipNested_reports [rep]: "reports (skipNested a0 a1 a2)"
  unfolding skipNested_def Let_def by (auto intro!: rep)

lemma skipEnclosedCode_reports [rep]: "reports (skipEnclosedCode a0 a1)"
  unfolding skipEnclosedCode_def Let_def by (auto intro!: rep)

lemma synchronize_reports [rep]: "reports synchronize"
  unfolding synchronize_def Let_def by (auto intro!: rep)

lemma isEndOfStmt_reports [rep]: "reports isEndOfStmt"
  unfolding isEndOfStmt_def Let_def by (auto intro!: rep)

lemma parseNull_reports [rep]: "reports parseNull"
  unfolding parseNull_def Let_def by (auto intro!: rep)

lemma wrapLiteralWithSuffix_reports [rep]: "reports (wrapLiteralWithSuffix a0 a1)"
  unfolding wrapLiteralWithSuffix_def Let_def by (auto intro!: rep)

lemma parseBool_reports [rep]: "reports parseBool"
  unfolding parseBool_def Let_def by (auto intro!: rep)

lemma parseString_reports [rep]: "reports parseString"
  unfolding parseString_def Let_def by (auto intro!: rep)

lemma parseSymbol_reports [rep]: "reports parseSymbol"
  unfolding parseSymbol_def Let_def by (auto intro!: rep)

lemma parseIdentifierWithAlias_reports [rep]: "reports parseIdentifierWithAlias"
  unfolding parseIdentifierWithAlias_def Let_def by (auto intro!: rep)

lemma parseMacroParam_reports [rep]: "reports parseMacroParam"
  unfolding parseMacroParam_def Let_def by (auto intro!: rep)

lemma primitive_reports [rep]: "reports primitive"
  unfolding primitive_def Let_def by (auto intro!: rep)

lemma parenList_reports [rep]: "reports p0 \<Longrightarrow> reports (parenList p0)"
  unfolding parenList_def Let_def by (auto intro!: rep)

lemma findPluginByAlias_reports [rep]: "reports (findPluginByAlias a0)"
  unfolding findPluginByAlias_def Let_def by (auto intro!: rep)

lemma invokePluginActionsOnEntity_reports [rep]: "reports (invokePluginActionsOnEntity a0)"
  unfolding invokePluginActionsOnEntity_def Let_def by (auto intro!: rep)

lemma setNext_reports [rep]: "reports (setNext a0 a1)"
  unfolding setNext_def Let_def by (auto intro!: rep)

lemma makeAnonymousName_reports [rep]: "reports (makeAnonymousName a0)"
  unfolding makeAnonymousName_def Let_def by (auto intro!: rep)

lemma xFormArgs_reports [rep]: "reports xFormArgs"
  unfolding xFormArgs_def Let_def by (auto intro!: rep)

lemma simpleType_reports [rep]: "reports (simpleType a0)"
  unfolding simpleType_def Let_def by (auto intro!: rep)

lemma assertOp_reports [rep]: "reports (assertOp a0)"
  unfolding assertOp_def Let_def by (auto intro!: rep)

lemma maybeClosure_reports [rep]: "reports maybeClosure"
  unfolding maybeClosure_def Let_def by (auto intro!: rep)

lemma maybeAnonymousStruct_reports [rep]: "reports maybeAnonymousStruct"
  unfolding maybeAnonymousStruct_def Let_def by (auto intro!: rep)

lemma markModule_reports [rep]: "reports (markModule a0)"
  unfolding markModule_def Let_def by (auto intro!: rep)

lemma definedExpr_reports [rep]: "reports definedExpr"
  unfolding definedExpr_def Let_def by (auto intro!: rep)

lemma tokenOverload_reports [rep]: "reports tokenOverload"
  unfolding tokenOverload_def Let_def by (auto intro!: rep)

lemma operatorOverload_reports [rep]: "reports operatorOverload"
  unfolding operatorOverload_def Let_def by (auto intro!: rep)

lemma closeParen_reports [rep]: "reports (closeParen a0)"
  unfolding closeParen_def Let_def by (auto intro!: rep)

lemma setInCase_reports [rep]: "reports (setInCase a0)"
  unfolding setInCase_def Let_def by (auto intro!: rep)

lemma continueStatement_reports [rep]: "reports continueStatement"
  unfolding continueStatement_def Let_def by (auto intro!: rep)

lemma assemblySection_reports [rep]: "reports p0 \<Longrightarrow> reports (assemblySection p0)"
  unfolding assemblySection_def Let_def by (auto intro!: rep)

lemma bitFieldError_reports [rep]: "reports (bitFieldError a0)"
  unfolding bitFieldError_def Let_def by (auto intro!: rep)

lemma macroParams_reports [rep]: "reports macroParams"
  unfolding macroParams_def Let_def by (auto intro!: rep)

lemma finishMember_reports [rep]: "reports (finishMember a0 a1 a2)"
  unfolding finishMember_def Let_def by (auto intro!: rep)

lemma skipTestDecl_reports [rep]: "reports skipTestDecl"
  unfolding skipTestDecl_def Let_def by (auto intro!: rep)

lemma parseCCode_reports [rep]: "reports parseCCode"
  unfolding parseCCode_def Let_def by (auto intro!: rep)

lemma declExtern_reports [rep]: "reports declExtern"
  unfolding declExtern_def Let_def by (auto intro!: rep)

lemma declPublicCheck_reports [rep]: "reports (declPublicCheck a0)"
  unfolding declPublicCheck_def Let_def by (auto intro!: rep)

lemma parseImportEntity_reports [rep]: "reports parseImportEntity"
  unfolding parseImportEntity_def Let_def by (auto intro!: rep)

lemma parseModuleDecl_reports [rep]: "reports (parseModuleDecl a0)"
  unfolding parseModuleDecl_def Let_def by (auto intro!: rep)

lemma skipImportTestDecl_reports [rep]: "reports skipImportTestDecl"
  unfolding skipImportTestDecl_def Let_def by (auto intro!: rep)

lemma importPlugin_reports [rep]: "reports importPlugin"
  unfolding importPlugin_def Let_def by (auto intro!: rep)

lemma importEntities_reports [rep]: "reports importEntities"
  unfolding importEntities_def Let_def by (auto intro!: rep)

lemma parseCBuild_reports [rep]: "reports parseCBuild"
  unfolding parseCBuild_def Let_def by (auto intro!: rep)

lemma skipBlock_reports [rep]: "reports skipBlock"
  unfolding skipBlock_def Let_def by (auto intro!: rep)

section \<open>Functions that make recursive calls\<close>

locale reporting_calls =
  fixes R :: rec_calls
  assumes calls [rep]: "reports (R c)"
begin


lemma typedLiteral_reports [rep]: "reports (typedLiteral R a1)"
  unfolding typedLiteral_def Let_def by (auto intro!: rep)

lemma parseChar_reports [rep]: "reports (parseChar R)"
  unfolding parseChar_def Let_def by (auto intro!: rep)

lemma parseInteger_reports [rep]: "reports (parseInteger R a1)"
  unfolding parseInteger_def Let_def by (auto intro!: rep)

lemma parseIntegerWithoutSuffix_reports [rep]: "reports (parseIntegerWithoutSuffix R a1)"
  unfolding parseIntegerWithoutSuffix_def Let_def by (auto intro!: rep)

lemma parseFloat_reports [rep]: "reports (parseFloat R a1)"
  unfolding parseFloat_def Let_def by (auto intro!: rep)

lemma macroExpression_reports [rep]: "reports (macroExpression R a1)"
  unfolding macroExpression_def Let_def by (auto intro!: rep)

lemma pluginActionExpression_reports [rep]: "reports (pluginActionExpression R a1)"
  unfolding pluginActionExpression_def Let_def by (auto intro!: rep)

lemma parseIdentifier_reports [rep]: "reports (parseIdentifier R)"
  unfolding parseIdentifier_def Let_def by (auto intro!: rep)

lemma attributeValue_reports [rep]: "reports (attributeValue R)"
  unfolding attributeValue_def Let_def by (auto intro!: rep)

lemma attributeArg_reports [rep]: "reports (attributeArg R a1)"
  unfolding attributeArg_def Let_def by (auto intro!: rep)

lemma attribute_reports [rep]: "reports (attribute R)"
  unfolding attribute_def Let_def by (auto intro!: rep)

lemma attributes_reports [rep]: "reports (attributes R)"
  unfolding attributes_def Let_def by (auto intro!: rep)

lemma optAttributes_reports [rep]: "reports (optAttributes R)"
  unfolding optAttributes_def Let_def by (auto intro!: rep)

lemma parseTypeOrIndex_reports [rep]: "reports (parseTypeOrIndex R)"
  unfolding parseTypeOrIndex_def Let_def by (auto intro!: rep)

lemma pathElementArgs_reports [rep]: "reports (pathElementArgs R a1 a2)"
  unfolding pathElementArgs_def Let_def by (auto intro!: rep)

lemma pathElement_reports [rep]: "reports (pathElement R)"
  unfolding pathElement_def Let_def by (auto intro!: rep)

lemma parsePath_reports [rep]: "reports (parsePath R a1)"
  unfolding parsePath_def Let_def by (auto intro!: rep)

lemma substitute_reports [rep]: "reports (substitute R)"
  unfolding substitute_def Let_def by (auto intro!: rep)

lemma funcReturnType_reports [rep]: "reports (funcReturnType R)"
  unfolding funcReturnType_def Let_def by (auto intro!: rep)

lemma parseTupleType_reports [rep]: "reports (parseTupleType R)"
  unfolding parseTupleType_def Let_def by (auto intro!: rep)

lemma parseArrayType_reports [rep]: "reports (parseArrayType R)"
  unfolding parseArrayType_def Let_def by (auto intro!: rep)

lemma genericConstraints_reports [rep]: "reports (genericConstraints R)"
  unfolding genericConstraints_def Let_def by (auto intro!: rep)

lemma parseGenericParam_reports [rep]: "reports (parseGenericParam R a1)"
  unfolding parseGenericParam_def Let_def by (auto intro!: rep)

lemma parseGenericParams_reports [rep]: "reports (parseGenericParams R a1)"
  unfolding parseGenericParams_def Let_def by (auto intro!: rep)

lemma optGenericParams_reports [rep]: "reports (optGenericParams R a1)"
  unfolding optGenericParams_def Let_def by (auto intro!: rep)

lemma functionParam_reports [rep]: "reports (functionParam R)"
  unfolding functionParam_def Let_def by (auto intro!: rep)

lemma parseFuncType_reports [rep]: "reports (parseFuncType R)"
  unfolding parseFuncType_def Let_def by (auto intro!: rep)

lemma parsePointerType_reports [rep]: "reports (parsePointerType R)"
  unfolding parsePointerType_def Let_def by (auto intro!: rep)

lemma parseReferenceType_reports [rep]: "reports (parseReferenceType R)"
  unfolding parseReferenceType_def Let_def by (auto intro!: rep)

lemma xFormCond_reports [rep]: "reports (xFormCond R)"
  unfolding xFormCond_def Let_def by (auto intro!: rep)

lemma xFormType_reports [rep]: "reports (xFormType R)"
  unfolding xFormType_def Let_def by (auto intro!: rep)

lemma xFormExpr_reports [rep]: "reports (xFormExpr R)"
  unfolding xFormExpr_def Let_def by (auto intro!: rep)

lemma typePath_reports [rep]: "reports (typePath R a1)"
  unfolding typePath_def Let_def by (auto intro!: rep)

lemma parseTypeBase_reports [rep]: "reports (parseTypeBase R)"
  unfolding parseTypeBase_def Let_def by (auto intro!: rep)

lemma parseTypeImpl_reports [rep]: "reports (parseTypeImpl R)"
  unfolding parseTypeImpl_def Let_def by (auto intro!: rep)

lemma parseType_reports [rep]: "reports (parseType R)"
  unfolding parseType_def Let_def by (auto intro!: rep)

lemma member_reports [rep]: "reports (member R a1)"
  unfolding member_def Let_def by (auto intro!: rep)

lemma indexExpr_reports [rep]: "reports (indexExpr R a1)"
  unfolding indexExpr_def Let_def by (auto intro!: rep)

lemma parseCallArguments_reports [rep]: "reports (parseCallArguments R)"
  unfolding parseCallArguments_def Let_def by (auto intro!: rep)

lemma callExpression_reports [rep]: "reports (callExpression R a1)"
  unfolding callExpression_def Let_def by (auto intro!: rep)

lemma postfixCast_reports [rep]: "reports (postfixCast R a1)"
  unfolding postfixCast_def Let_def by (auto intro!: rep)

lemma postfixMember_reports [rep]: "reports (postfixMember R a1)"
  unfolding postfixMember_def Let_def by (auto intro!: rep)

lemma postfixStep_reports [rep]: "reports (postfixStep R a1)"
  unfolding postfixStep_def Let_def by (auto intro!: rep)

lemma stringExpr_reports [rep]: "reports (stringExpr R)"
  unfolding stringExpr_def Let_def by (auto intro!: rep)

lemma closure_reports [rep]: "reports (closure R)"
  unfolding closure_def Let_def by (auto intro!: rep)

lemma parenExpr_reports [rep]: "reports (parenExpr R)"
  unfolding parenExpr_def Let_def by (auto intro!: rep)

lemma array_reports [rep]: "reports (array R)"
  unfolding array_def Let_def by (auto intro!: rep)

lemma fieldExpr_reports [rep]: "reports (fieldExpr R)"
  unfolding fieldExpr_def Let_def by (auto intro!: rep)

lemma structExpr_reports [rep]: "reports (structExpr R a1)"
  unfolding structExpr_def Let_def by (auto intro!: rep)

lemma untypedExpr_reports [rep]: "reports (untypedExpr R)"
  unfolding untypedExpr_def Let_def by (auto intro!: rep)

lemma implicitCast_reports [rep]: "reports (implicitCast R)"
  unfolding implicitCast_def Let_def by (auto intro!: rep)

lemma rangeExpr_reports [rep]: "reports (rangeExpr R)"
  unfolding rangeExpr_def Let_def by (auto intro!: rep)

lemma async_reports [rep]: "reports (async R)"
  unfolding async_def Let_def by (auto intro!: rep)

lemma launchExpression_reports [rep]: "reports (launchExpression R)"
  unfolding launchExpression_def Let_def by (auto intro!: rep)

lemma block_reports [rep]: "reports (block R)"
  unfolding block_def Let_def by (auto intro!: rep)

lemma primaryBase_reports [rep]: "reports (primaryBase R a1)"
  unfolding primaryBase_def Let_def by (auto intro!: rep)

lemma primary_reports [rep]: "reports (primary R a1)"
  unfolding primary_def Let_def by (auto intro!: rep)

lemma postfix_reports [rep]: "reports (postfix R a1)"
  unfolding postfix_def Let_def by (auto intro!: rep)

lemma prefixOperator_reports [rep]: "reports (prefixOperator R a1 a2)"
  unfolding prefixOperator_def Let_def by (auto intro!: rep)

lemma prefix_reports [rep]: "reports (prefix R a1)"
  unfolding prefix_def Let_def by (auto intro!: rep)

lemma binaryStep_reports [rep]: "reports (binaryStep R a1 a2 a3)"
  unfolding binaryStep_def Let_def by (auto intro!: rep)

lemma binaryLoop_reports [rep]: "reports (binaryLoop R a1 a2 a3)"
  unfolding binaryLoop_def Let_def by (auto intro!: rep)

lemma binary_reports [rep]: "reports (binary R a1 a2)"
  unfolding binary_def Let_def by (auto intro!: rep)

lemma assign_reports [rep]: "reports (assign R a1)"
  unfolding assign_def Let_def by (auto intro!: rep)

lemma ternary_reports [rep]: "reports (ternary R a1)"
  unfolding ternary_def Let_def by (auto intro!: rep)

lemma expression_reports [rep]: "reports (expression R a1)"
  unfolding expression_def Let_def by (auto intro!: rep)

lemma parseVarDeclName_reports [rep]: "reports (parseVarDeclName R)"
  unfolding parseVarDeclName_def Let_def by (auto intro!: rep)

lemma parseMultipleVariables_reports [rep]: "reports (parseMultipleVariables R)"
  unfolding parseMultipleVariables_def Let_def by (auto intro!: rep)

lemma variableInit_reports [rep]: "reports (variableInit R a1 a2 a3 a4)"
  unfolding variableInit_def Let_def by (auto intro!: rep)

lemma variable_reports [rep]: "reports (variable R a1 a2 a3 a4)"
  unfolding variable_def Let_def by (auto intro!: rep)

lemma forVariable_reports [rep]: "reports (forVariable R a1)"
  unfolding forVariable_def Let_def by (auto intro!: rep)

lemma funcGenericParams_reports [rep]: "reports (funcGenericParams R a1 a2)"
  unfolding funcGenericParams_def Let_def by (auto intro!: rep)

lemma funcBody_reports [rep]: "reports (funcBody R a1 a2 a3)"
  unfolding funcBody_def Let_def by (auto intro!: rep)

lemma funcDecl_reports [rep]: "reports (funcDecl R a1)"
  unfolding funcDecl_def Let_def by (auto intro!: rep)

lemma condition_reports [rep]: "reports (condition R a1)"
  unfolding condition_def Let_def by (auto intro!: rep)

lemma ifStatement_reports [rep]: "reports (ifStatement R)"
  unfolding ifStatement_def Let_def by (auto intro!: rep)

lemma forStatement_reports [rep]: "reports (forStatement R a1)"
  unfolding forStatement_def Let_def by (auto intro!: rep)

lemma whileStatement_reports [rep]: "reports (whileStatement R)"
  unfolding whileStatement_def Let_def by (auto intro!: rep)

lemma caseStatement_reports [rep]: "reports (caseStatement R)"
  unfolding caseStatement_def Let_def by (auto intro!: rep)

lemma parseCases_reports [rep]: "reports (parseCases R a1 a2)"
  unfolding parseCases_def Let_def by (auto intro!: rep)

lemma switchStatement_reports [rep]: "reports (switchStatement R)"
  unfolding switchStatement_def Let_def by (auto intro!: rep)

lemma matchCaseStatement_reports [rep]: "reports (matchCaseStatement R)"
  unfolding matchCaseStatement_def Let_def by (auto intro!: rep)

lemma matchStatement_reports [rep]: "reports (matchStatement R)"
  unfolding matchStatement_def Let_def by (auto intro!: rep)

lemma deferStatement_reports [rep]: "reports (deferStatement R)"
  unfolding deferStatement_def Let_def by (auto intro!: rep)

lemma returnStatement_reports [rep]: "reports (returnStatement R)"
  unfolding returnStatement_def Let_def by (auto intro!: rep)

lemma yieldStatement_reports [rep]: "reports (yieldStatement R)"
  unfolding yieldStatement_def Let_def by (auto intro!: rep)

lemma raiseStmt_reports [rep]: "reports (raiseStmt R)"
  unfolding raiseStmt_def Let_def by (auto intro!: rep)

lemma macroSdlStmt_reports [rep]: "reports (macroSdlStmt R)"
  unfolding macroSdlStmt_def Let_def by (auto intro!: rep)

lemma assemblyOutput_reports [rep]: "reports (assemblyOutput R)"
  unfolding assemblyOutput_def Let_def by (auto intro!: rep)

lemma assemblyInput_reports [rep]: "reports (assemblyInput R)"
  unfolding assemblyInput_def Let_def by (auto intro!: rep)

lemma assembly_reports [rep]: "reports (assembly R)"
  unfolding assembly_def Let_def by (auto intro!: rep)

lemma exprStatement_reports [rep]: "reports (exprStatement R a1)"
  unfolding exprStatement_def Let_def by (auto intro!: rep)

lemma statementBody_reports [rep]: "reports (statementBody R a1 a2)"
  unfolding statementBody_def Let_def by (auto intro!: rep)

lemma statement_reports [rep]: "reports (statement R a1)"
  unfolding statement_def Let_def by (auto intro!: rep)

lemma comptimeBlock_reports [rep]: "reports (comptimeBlock R a1)"
  unfolding comptimeBlock_def Let_def by (auto intro!: rep)

lemma comptimeCondition_reports [rep]: "reports (comptimeCondition R)"
  unfolding comptimeCondition_def Let_def by (auto intro!: rep)

lemma parseComptimeIf_reports [rep]: "reports (parseComptimeIf R a1)"
  unfolding parseComptimeIf_def Let_def by (auto intro!: rep)

lemma parseComptimeWhile_reports [rep]: "reports (parseComptimeWhile R a1)"
  unfolding parseComptimeWhile_def Let_def by (auto intro!: rep)

lemma parseComptimeFor_reports [rep]: "reports (parseComptimeFor R a1)"
  unfolding parseComptimeFor_def Let_def by (auto intro!: rep)

lemma parseComptimeVarDecl_reports [rep]: "reports (parseComptimeVarDecl R)"
  unfolding parseComptimeVarDecl_def Let_def by (auto intro!: rep)

lemma comptimeWith_reports [rep]: "reports p2 \<Longrightarrow> reports (comptimeWith R a1 p2)"
  unfolding comptimeWith_def Let_def by (auto intro!: rep)

lemma parseStructField_reports [rep]: "reports (parseStructField R a1)"
  unfolding parseStructField_def Let_def by (auto intro!: rep)

lemma aliasDecl_reports [rep]: "reports (aliasDecl R a1 a2)"
  unfolding aliasDecl_def Let_def by (auto intro!: rep)

lemma macroBody_reports [rep]: "reports (macroBody R)"
  unfolding macroBody_def Let_def by (auto intro!: rep)

lemma macroDecl_reports [rep]: "reports (macroDecl R a1)"
  unfolding macroDecl_def Let_def by (auto intro!: rep)

lemma parseMemberBody_reports [rep]: "reports (parseMemberBody R a1 a2 a3 a4)"
  unfolding parseMemberBody_def Let_def by (auto intro!: rep)

lemma parseClassOrStructMember_reports [rep]: "reports (parseClassOrStructMember R)"
  unfolding parseClassOrStructMember_def Let_def by (auto intro!: rep)

lemma parseInterfaceMember_reports [rep]: "reports (parseInterfaceMember R)"
  unfolding parseInterfaceMember_def Let_def by (auto intro!: rep)

lemma annotation_reports [rep]: "reports (annotation R)"
  unfolding annotation_def Let_def by (auto intro!: rep)

lemma annotations_reports [rep]: "reports (annotations R)"
  unfolding annotations_def Let_def by (auto intro!: rep)

lemma membersBlock_reports [rep]: "reports (membersBlock R a1)"
  unfolding membersBlock_def Let_def by (auto intro!: rep)

lemma classBases_reports [rep]: "reports (classBases R a1)"
  unfolding classBases_def Let_def by (auto intro!: rep)

lemma classOrStructBody_reports [rep]: "reports (classOrStructBody R a1 a2)"
  unfolding classOrStructBody_def Let_def by (auto intro!: rep)

lemma classOrStructDecl_reports [rep]: "reports (classOrStructDecl R a1 a2)"
  unfolding classOrStructDecl_def Let_def by (auto intro!: rep)

lemma interfaceDecl_reports [rep]: "reports (interfaceDecl R a1)"
  unfolding interfaceDecl_def Let_def by (auto intro!: rep)

lemma enumOption_reports [rep]: "reports (enumOption R)"
  unfolding enumOption_def Let_def by (auto intro!: rep)

lemma enumDecl_reports [rep]: "reports (enumDecl R a1)"
  unfolding enumDecl_def Let_def by (auto intro!: rep)

lemma defineDecl_reports [rep]: "reports (defineDecl R)"
  unfolding defineDecl_def Let_def by (auto intro!: rep)

lemma exceptionDecl_reports [rep]: "reports (exceptionDecl R a1)"
  unfolding exceptionDecl_def Let_def by (auto intro!: rep)

lemma testContextDeclaration_reports [rep]: "reports (testContextDeclaration R)"
  unfolding testContextDeclaration_def Let_def by (auto intro!: rep)

lemma testDecl_reports [rep]: "reports (testDecl R)"
  unfolding testDecl_def Let_def by (auto intro!: rep)

lemma declarationBody_reports [rep]: "reports (declarationBody R a1 a2 a3)"
  unfolding declarationBody_def Let_def by (auto intro!: rep)

lemma declarationP_reports [rep]: "reports (declarationP R)"
  unfolding declarationP_def Let_def by (auto intro!: rep)

lemma comptime_reports [rep]: "reports (comptime R kind)"
  unfolding comptime_def by (cases kind) (auto intro!: rep)

lemma parseImportDecl_reports [rep]: "reports (parseImportDecl R)"
  unfolding parseImportDecl_def Let_def by (auto intro!: rep)

lemma parseImportsDecl_reports [rep]: "reports (parseImportsDecl R)"
  unfolding parseImportsDecl_def Let_def by (auto intro!: rep)

lemma parseTopLevelDecl_reports [rep]: "reports (parseTopLevelDecl R)"
  unfolding parseTopLevelDecl_def Let_def by (auto intro!: rep)

lemma topLevelBlock_reports [rep]: "reports (topLevelBlock R)"
  unfolding topLevelBlock_def Let_def by (auto intro!: rep)

lemma conditionalTopLevelDecl_reports [rep]: "reports (conditionalTopLevelDecl R)"
  unfolding conditionalTopLevelDecl_def Let_def by (auto intro!: rep)

lemma topLevelStep_reports [rep]: "reports (topLevelStep R a1)"
  unfolding topLevelStep_def Let_def by (auto intro!: rep)

lemma packageLoop_reports [rep]: "reports (packageLoop R)"
  unfolding packageLoop_def Let_def by (auto intro!: rep)

lemma moduleTopLoop_reports [rep]: "reports (moduleTopLoop R)"
  unfolding moduleTopLoop_def Let_def by (auto intro!: rep)

lemma declsLoop_reports [rep]: "reports (declsLoop R)"
  unfolding declsLoop_def Let_def by (auto intro!: rep)

lemma dispatch_reports: "reports (dispatch R c)"
  by (cases c) (simp_all add: dispatch_def rep)

lemma parseProgram_reports: "reports (parseProgram R)"
  unfolding parseProgram_def by (auto intro!: rep)

end

lemma runParser_reports: "reports (runParser n c)"
proof (induction n arbitrary: c)
  case 0
  show ?case by (simp add: rep)
next
  case (Suc n)
  have "reporting_calls (runParser n)" using Suc by unfold_locales
  then show ?case by (simp add: reporting_calls.dispatch_reports)
qed

interpretation rep: reporting_calls "runParser n" for n
  by unfold_locales (rule runParser_reports)


section \<open>Errors are reported\<close>

text \<open>A loop over declarations gives up only behind an error.\<close>

definition givesUpLoudly :: "('s + 'a option) parser \<Rightarrow> bool" where
  "givesUpLoudly p \<longleftrightarrow> (\<forall>P P'. p P = Ok (Inr None) P' \<longrightarrow> length (errorLog P) < length (errorLog P'))"

lemma ok_ev:
  "bindP p f P = Ok a P' \<longleftrightarrow> (\<exists>b Q. p P = Ok b Q \<and> f b Q = Ok a P')"
  "thenP p q P = Ok a P' \<longleftrightarrow> (\<exists>b Q. p P = Ok b Q \<and> q Q = Ok a P')"
  "retP c P = Ok d P' \<longleftrightarrow> d = c \<and> P' = P" "getP g P = Ok e P' \<longleftrightarrow> e = g P \<and> P' = P" "modP u P = Ok v P' \<longleftrightarrow> P' = u P"
  by (auto simp: thenP_def bindP_def retP_def getP_def modP_def split: presult.splits)

lemma reports_mono: "reports p \<Longrightarrow> p P = Ok a P' \<Longrightarrow> length (errorLog P) \<le> length (errorLog P')"
  by (auto simp: reports_def logsFrom_def dest!: spec [of _ P])

lemma reports_abort: "reports p \<Longrightarrow> p P = presult.Abort P' \<Longrightarrow> length (errorLog P) < length (errorLog P')"
  by (auto simp: reports_def logsFrom_def dest!: spec [of _ P])

lemma givesUpLoudly_if: "reports c \<Longrightarrow> givesUpLoudly p \<Longrightarrow> givesUpLoudly q \<Longrightarrow> givesUpLoudly (ifP c p q)"
  by (fastforce simp: givesUpLoudly_def ifP_def bindP_def split: presult.splits if_splits dest: reports_mono)

lemma givesUpLoudly_base: "givesUpLoudly (breakP (Some a))" "givesUpLoudly (parserError msg)"
  by (auto simp: givesUpLoudly_def breakP_def retP_def parserError_def thenP_def bindP_def split: presult.splits)

lemma iterP_loud:
  assumes "\<And>s. reports (step s)" "\<And>s. givesUpLoudly (step s)"
  shows "iterP n step s P = Ok None P' \<Longrightarrow> length (errorLog P) < length (errorLog P')"
proof (induction n arbitrary: s P)
  case (Suc n)
  then obtain r Q where r: "step s P = Ok r Q" and c: "(case r of Inl s \<Rightarrow> iterP n step s | Inr a \<Rightarrow> retP a) Q = Ok None P'"
    by (auto simp: bindP_def split: presult.splits)
  show ?case
  proof (cases r)
    case (Inl s')
    with c Suc.IH have "length (errorLog Q) < length (errorLog P')" by simp
    moreover have "length (errorLog P) \<le> length (errorLog Q)" using reports_mono [OF assms(1) r] .
    ultimately show ?thesis by simp
  next
    case (Inr a)
    with c r assms(2) [of s] show ?thesis by (auto simp: retP_def givesUpLoudly_def)
  qed
qed simp

lemma loopP_loud:
  assumes "\<And>s. reports (step s)" "\<And>s. givesUpLoudly (step s)" "loopP step s P = Ok None P'"
  shows "length (errorLog P) < length (errorLog P')"
  using assms(3) unfolding loopP_def by (rule iterP_loud [OF assms(1,2)])

context reporting_calls
begin

lemma topLevelStep_loud: "givesUpLoudly (topLevelStep R tops)"
proof -
  let ?p = "tryCatch (bindP (conditionalTopLevelDecl R) (\<lambda>node. continueP (listAddAstNode tops node)))
     (thenP synchronize (continueP tops))"
  have "reports ?p" by (auto intro!: rep)
  moreover have "?p P \<noteq> Ok (Inr a) P'" for P P' and a :: "AstPtr option"
    by (auto simp: tryCatch_def bindP_def thenP_def continueP_def retP_def split: presult.splits)
  ultimately show ?thesis
    by (auto simp: givesUpLoudly_def topLevelStep_def catchAbort_def breakP_def retP_def split: presult.splits dest: reports_abort)
qed

lemma packageLoop_loud: "packageLoop R P = Ok None P' \<Longrightarrow> length (errorLog P) < length (errorLog P')"
  unfolding packageLoop_def
  by (erule loopP_loud [rotated 2]) (auto intro!: rep givesUpLoudly_if givesUpLoudly_base topLevelStep_loud)

lemma moduleTopLoop_loud: "moduleTopLoop R P = Ok None P' \<Longrightarrow> length (errorLog P) < length (errorLog P')"
  unfolding moduleTopLoop_def
  by (erule loopP_loud [rotated 2]) (auto intro!: rep givesUpLoudly_if givesUpLoudly_base topLevelStep_loud)

lemma parseProgram_loud:
  assumes "parseProgram R P = Ok [] P'"
  shows "length (errorLog P) < length (errorLog P')"
proof -
  let ?m = "ifP (check [kw ''module'']) (parseModuleDecl (kw ''module''))
     (ifP (check [kw ''package''])
        (bindP (parseModuleDecl (kw ''package'')) (\<lambda>m. thenP (modP (\<lambda>P. P\<lparr>isPackage := True\<rparr>)) (retP m))) (retP []))"
  let ?P = "P\<lparr>pluginAliases := Map.empty\<rparr>"
  have m: "reports ?m" by (auto intro!: rep)
  from assms obtain md Q where q: "?m ?P = Ok md Q" and
    r: "packageLoop R Q = Ok None P' \<or> moduleTopLoop R Q = Ok None P'"
    by (auto simp: parseProgram_def ok_ev programNode_def mkNode_def split: if_splits option.splits)
  from reports_mono [OF m q] have "length (errorLog P) \<le> length (errorLog Q)" by simp
  also from r have "\<dots> < length (errorLog P')" by (auto dest: packageLoop_loud moduleTopLoop_loud)
  finally show ?thesis .
qed

end

text \<open>C5: which errors are silent. On the tokens delivered to the parser none is: whatever function of the parser
  is called, in any state and with any number of steps, the messages logged before are kept, and when it is left
  by an exception, one more has been logged; a program for which no tree is returned has a new message in the log.
  The delivery of the tokens, with the files named by includes in their place, aborts the parser without a message
  only at an include of a path that begins with a dot and a slash or with two dots, taken from the directory of the
  file it stands in, that does not exist.\<close>

theorem parser_reports_errors:
  "logsFrom (errorLog P) (runParser n c P) \<and>
   logsFrom (errorLog P) (parseProgram (runParser n) P) \<and>
   (case parseProgram (runParser n) P of Ok [] P' \<Rightarrow> length (errorLog P) < length (errorLog P') | _ \<Rightarrow> True) \<and>
   (case spliceAll env k L of
      Some (toks, Stop stop) \<Rightarrow>
        (case stopMessage stop of
           Some message \<Rightarrow> True
         | None \<Rightarrow> \<exists>importer path i. stop = NoLocation importer path None \<and>
             cur path = CHR ''.'' \<and> cur (tl path) \<in> {CHR ''.'', CHR ''/''} \<and>
             strrchr importer (CHR ''/'') = Some i \<and> realpath env (take (i + 1) importer @ path) = None)
    | _ \<Rightarrow> True)"
proof -
  have "\<exists>importer path i. stop = NoLocation importer path None \<and>
             cur path = CHR ''.'' \<and> cur (tl path) \<in> {CHR ''.'', CHR ''/''} \<and>
             strrchr importer (CHR ''/'') = Some i \<and> realpath env (take (i + 1) importer @ path) = None"
    if "spliceAll env k L = Some (toks, Stop stop)" "stopMessage stop = None" for toks stop
    using spliceAll_stops [OF that] unfolding silentStop_def missingRelative_def isRelative_def by blast
  then have "case spliceAll env k L of
      Some (toks, Stop stop) \<Rightarrow>
        (case stopMessage stop of
           Some message \<Rightarrow> True
         | None \<Rightarrow> \<exists>importer path i. stop = NoLocation importer path None \<and>
             cur path = CHR ''.'' \<and> cur (tl path) \<in> {CHR ''.'', CHR ''/''} \<and>
             strrchr importer (CHR ''/'') = Some i \<and> realpath env (take (i + 1) importer @ path) = None)
    | _ \<Rightarrow> True"
    by (simp split: option.split delivery_end.split)
  then show ?thesis
    using runParser_reports [of n c] rep.parseProgram_reports [of n] rep.parseProgram_loud [of n P]
    by (auto simp: reports_def split: presult.splits list.splits)
qed

end

