(* ===== verification/Cxy_ParserTotal.thy ===== *)
theory Cxy_ParserTotal
  imports Cxy_ParserDecl
begin

text \<open>
  The parser ends on every list of tokens. A weakest precondition \<open>wp\<close> says that a parser does not run
  out of its bounds, and what it leaves of the tokens: a normal result satisfies a postcondition, an
  exception has consumed a token if there was one. \<open>consumes N k p\<close> says this of a parser that
  consumes at least \<open>k\<close> tokens, for states with fewer than \<open>N\<close>. The locale \<open>parser_calls\<close> is the contract
  of the recursive calls: each consumes a token. Every function of the parser keeps it when its own
  calls do, so \<open>runParser n\<close> satisfies it for states with fewer than \<open>n\<close> tokens.
\<close>

section \<open>Weakest preconditions\<close>

abbreviation len :: "Parser \<Rightarrow> nat" where
  "len P \<equiv> length (P_ahead P)"

definition wp :: "nat \<Rightarrow> 'a parser \<Rightarrow> ('a \<Rightarrow> Parser \<Rightarrow> bool) \<Rightarrow> Parser \<Rightarrow> bool" where
  "wp l p Q P =
     (case p P of
        Ok a P' \<Rightarrow> Q a P'
      | Throw P' \<Rightarrow> len P' \<le> l - 1
      | Abort P' \<Rightarrow> len P' \<le> l
      | Crash \<Rightarrow> True
      | NoFuel \<Rightarrow> False)"

definition consumes :: "nat \<Rightarrow> nat \<Rightarrow> 'a parser \<Rightarrow> bool" where
  "consumes N k p \<longleftrightarrow> (\<forall>P. len P < N \<longrightarrow> wp (len P) p (\<lambda>_ P'. len P' + k \<le> len P) P)"

named_theorems wp \<open>introduction rules for wp\<close>
named_theorems wp_norm \<open>equations that bring a parser into the form the rules are for\<close>

lemma consumesI:
  "(\<And>P. len P < N \<Longrightarrow> wp (len P) p (\<lambda>_ P'. len P' + k \<le> len P) P) \<Longrightarrow> consumes N k p"
  by (simp add: consumes_def)

lemma wp_bind: "wp l p (\<lambda>a. wp l (f a) Q) P \<Longrightarrow> wp l (bindP p f) Q P"
  by (auto simp: wp_def bindP_def split: presult.splits)

lemma wp_mono:
  "wp k p R P \<Longrightarrow> k \<le> l \<Longrightarrow> (\<And>a P'. R a P' \<Longrightarrow> Q a P') \<Longrightarrow> wp l p Q P"
  by (auto simp: wp_def split: presult.splits)

lemma wp_consumes:
  assumes "consumes N k p" "len P < N" "len P \<le> l" "\<And>a P'. len P' + k \<le> len P \<Longrightarrow> Q a P'"
  shows "wp l p Q P"
  using assms(1-2) by (auto simp: consumes_def intro: wp_mono [OF _ assms(3)] assms(4))

lemma bind_consumes:
  assumes "consumes N k p" "len P < N" "len P \<le> l" "\<And>a P'. len P' + k \<le> len P \<Longrightarrow> wp l (f a) Q P'"
  shows "wp l (bindP p f) Q P"
  by (rule wp_bind, rule wp_consumes [OF assms])

lemma consumes_weaken: "consumes N k p \<Longrightarrow> M \<le> N \<Longrightarrow> j \<le> k \<Longrightarrow> consumes M j p"
  by (rule consumesI, erule wp_consumes) auto

section \<open>Rules for the combinators\<close>

lemma wp_ret [wp]: "Q a P \<Longrightarrow> wp l (retP a) Q P"
  by (simp add: wp_def retP_def)

lemma wp_if [wp]: "(b \<Longrightarrow> wp l p Q P) \<Longrightarrow> (\<not> b \<Longrightarrow> wp l q Q P) \<Longrightarrow> wp l (if b then p else q) Q P"
  by simp

lemma wp_crash [wp]: "wp l (\<lambda>_. Crash) Q P"
  by (simp add: wp_def)

lemma bind_ret [wp_norm]: "bindP (retP a) f = f a"
  by (simp add: bindP_def retP_def)

lemma bind_bind [wp_norm]: "bindP (bindP p f) g = bindP p (\<lambda>a. bindP (f a) g)"
  by (rule ext) (simp add: bindP_def split: presult.splits)

lemma bind_getP [wp]: "wp l (f (g P)) Q P \<Longrightarrow> wp l (bindP (getP g) f) Q P"
  by (simp add: wp_def bindP_def getP_def)

lemma wp_getP [wp]: "Q (g P) P \<Longrightarrow> wp l (getP g) Q P"
  by (simp add: wp_def getP_def)

lemma bind_current [wp]: "wp l (f (curTok P)) Q P \<Longrightarrow> wp l (bindP current f) Q P"
  by (simp add: current_def bind_getP)

lemma wp_current [wp]: "Q (curTok P) P \<Longrightarrow> wp l current Q P"
  by (simp add: current_def wp_getP)

lemma bind_previous [wp]: "(\<And>t. wp l (f t) Q P) \<Longrightarrow> wp l (bindP previous f) Q P"
  by (simp add: previous_def bind_getP)

lemma bind_modP [wp]: "(\<And>P'. len P' = len P \<Longrightarrow> wp l (f ()) Q P') \<Longrightarrow> len (u P) = len P \<Longrightarrow> wp l (bindP (modP u) f) Q P"
  by (simp add: wp_def bindP_def modP_def)

lemma wp_modP [wp]: "(\<And>P'. len P' = len P \<Longrightarrow> Q () P') \<Longrightarrow> len (u P) = len P \<Longrightarrow> wp l (modP u) Q P"
  by (simp add: wp_def modP_def)

lemma wp_modHead [wp]: "(\<And>a. Q a P) \<Longrightarrow> wp l (modHead f p) Q P"
  by (simp add: modHead_def wp_ret wp_crash split: list.splits)

lemma bind_modHead [wp]: "(\<And>a. wp l (f a) Q P) \<Longrightarrow> wp l (bindP (modHead g p) f) Q P"
  by (rule wp_bind) (rule wp_modHead)

lemma bind_if [wp_norm]: "bindP (if b then p else q) f = (if b then bindP p f else bindP q f)"
  by simp

section \<open>Tokens\<close>

lemma advance_cases:
  "(P_ahead P = [] \<and> advance P = Ok (P_prev P) P) \<or>
   (\<exists>t ts. P_ahead P = t # ts \<and> advance P = Ok t (P\<lparr>P_prev := t, P_ahead := ts\<rparr>))"
  by (cases "P_ahead P") (auto simp: advance_def)

lemma curTok_eof: "pt_tag (curTok P) \<noteq> tokEoF \<Longrightarrow> 0 < len P"
  by (auto simp: curTok_def eofToken_def split: list.splits)

lemma curTok_nil [simp]: "P_ahead P = [] \<Longrightarrow> pt_tag (curTok P) = tokEoF"
  using curTok_eof [of P] by auto

lemma bind_advance [wp]:
  assumes "\<And>t P'. len P' \<le> len P \<Longrightarrow> (pt_tag (curTok P) \<noteq> tokEoF \<Longrightarrow> len P' < len P) \<Longrightarrow>
      (0 < len P \<Longrightarrow> len P' < len P) \<Longrightarrow> wp l (f t) Q P'"
  shows "wp l (bindP advance f) Q P"
  using advance_cases [of P]
proof (elim disjE exE conjE)
  assume "P_ahead P = []" "advance P = Ok (P_prev P) P"
  then show ?thesis using assms [of P] curTok_eof [of P] by (auto simp: wp_def bindP_def)
next
  fix t ts
  assume t: "P_ahead P = t # ts" "advance P = Ok t (P\<lparr>P_prev := t, P_ahead := ts\<rparr>)"
  then show ?thesis using assms [of "P\<lparr>P_prev := t, P_ahead := ts\<rparr>" t] by (simp add: wp_def bindP_def)
qed

lemma wp_advance [wp]:
  assumes "\<And>t P'. len P' \<le> len P \<Longrightarrow> (pt_tag (curTok P) \<noteq> tokEoF \<Longrightarrow> len P' < len P) \<Longrightarrow> Q t P'"
  shows "wp l advance Q P"
  using bind_advance [of P l retP Q] assms by (auto simp: wp_def bindP_def retP_def split: presult.splits)

lemma bind_peek [wp]: "(\<And>t. wp l (f t) Q P) \<Longrightarrow> wp l (bindP (peek i) f) Q P"
  by (simp add: peek_def bindP_def wp_def)

lemma bind_check [wp]: "wp l (f (pt_tag (curTok P) \<in> set tags)) Q P \<Longrightarrow> wp l (bindP (check tags) f) Q P"
  by (simp add: check_def wp_norm bind_current)

definition peekTok :: "nat \<Rightarrow> Parser \<Rightarrow> ptoken" where
  "peekTok i P = (if i < len P then P_ahead P ! i else eofToken)"

lemma bind_checkPeek [wp]:
  "wp l (f (pt_tag (peekTok i P) \<in> set tags)) Q P \<Longrightarrow> wp l (bindP (checkPeek i tags) f) Q P"
  by (simp add: checkPeek_def wp_norm peek_def peekTok_def bindP_def wp_def retP_def)

lemma wp_error [wp]: "len P \<le> l \<Longrightarrow> wp l (parserError msg) Q P"
  by (auto simp: parserError_def logError_def thenP_def wp_norm intro!: wp)
     (auto simp: wp_def)

lemma wp_report [wp]: "len P \<le> l \<Longrightarrow> wp l (reportUnexpectedToken what) Q P"
  by (simp add: reportUnexpectedToken_def wp_error)

lemma bind_error [wp]: "len P \<le> l \<Longrightarrow> wp l (bindP (parserError msg) f) Q P"
  by (rule wp_bind) (rule wp_error)

lemma bind_report [wp]: "len P \<le> l \<Longrightarrow> wp l (bindP (reportUnexpectedToken what) f) Q P"
  by (rule wp_bind) (rule wp_report)

lemma wp_fail [wp]: "len P \<le> l \<Longrightarrow> wp l (parserFail msg) Q P"
  by (auto simp: parserFail_def logError_def thenP_def wp_norm intro!: wp) (auto simp: wp_def)

lemma wp_logError [wp]: "(\<And>P'. len P' = len P \<Longrightarrow> Q () P') \<Longrightarrow> wp l (logError msg) Q P"
  unfolding logError_def by (rule wp_modP) simp_all

lemma bind_logError [wp]: "(\<And>P'. len P' = len P \<Longrightarrow> wp l (f ()) Q P') \<Longrightarrow> wp l (bindP (logError msg) f) Q P"
  unfolding logError_def by (rule bind_modP) simp_all

text \<open>Conditions.\<close>

lemma thenP_bind [wp_norm]: "thenP p q = bindP p (\<lambda>_. q)"
  by (simp add: thenP_def)

lemma ifP_bind: "bindP (ifP c p q) f = ifP c (bindP p f) (bindP q f)"
  by (rule ext) (auto simp: ifP_def bindP_def split: presult.splits)

lemma ifP_not [wp_norm]: "ifP (notP c) p q = ifP c q p"
  by (rule ext) (auto simp: ifP_def notP_def bindP_def retP_def split: presult.splits)

lemma ifP_and [wp_norm]: "ifP (andP c d) p q = ifP c (ifP d p q) q"
  by (rule ext) (auto simp: ifP_def andP_def bindP_def retP_def split: presult.splits)

lemma ifP_or [wp_norm]: "ifP (orP c d) p q = ifP c p (ifP d p q)"
  by (rule ext) (auto simp: ifP_def orP_def bindP_def retP_def split: presult.splits)

lemma ifP_ret [wp_norm]: "ifP (retP b) p q = (if b then p else q)"
  by (rule ext) (auto simp: ifP_def bindP_def retP_def)

lemma wp_ifP_check [wp]:
  assumes "pt_tag (curTok P) \<in> set tags \<Longrightarrow> wp l p Q P" "pt_tag (curTok P) \<notin> set tags \<Longrightarrow> wp l q Q P"
  shows "wp l (ifP (check tags) p q) Q P"
  unfolding ifP_def by (rule bind_check) (simp add: assms)

lemma wp_ifP_checkPeek [wp]:
  assumes "pt_tag (peekTok i P) \<in> set tags \<Longrightarrow> wp l p Q P" "pt_tag (peekTok i P) \<notin> set tags \<Longrightarrow> wp l q Q P"
  shows "wp l (ifP (checkPeek i tags) p q) Q P"
  unfolding ifP_def by (rule bind_checkPeek) (simp add: assms)

lemma wp_ifP_isEoF [wp]:
  "(pt_tag (curTok P) = tokEoF \<Longrightarrow> wp l p Q P) \<Longrightarrow> (pt_tag (curTok P) \<noteq> tokEoF \<Longrightarrow> wp l q Q P) \<Longrightarrow>
   wp l (ifP isEoF p q) Q P"
  unfolding isEoF_def by (rule wp_ifP_check) auto

lemma bind_match [wp]:
  assumes "\<And>P'. len P' \<le> len P \<Longrightarrow> (tokEoF \<notin> set tags \<Longrightarrow> len P' < len P) \<Longrightarrow> wp l (f True) Q P'"
    and "pt_tag (curTok P) \<notin> set tags \<Longrightarrow> wp l (f False) Q P"
  shows "wp l (bindP (match tags) f) Q P"
  unfolding match_def
  by (rule wp_bind) (auto simp: wp_norm intro!: wp assms)

lemma wp_ifP_match [wp]:
  assumes "\<And>P'. len P' \<le> len P \<Longrightarrow> (tokEoF \<notin> set tags \<Longrightarrow> len P' < len P) \<Longrightarrow> wp l p Q P'"
    and "pt_tag (curTok P) \<notin> set tags \<Longrightarrow> wp l q Q P"
  shows "wp l (ifP (match tags) p q) Q P"
  unfolding ifP_def by (rule bind_match) (simp_all add: assms)

lemma wp_match [wp]:
  assumes "\<And>b P'. len P' \<le> len P \<Longrightarrow> Q b P'"
  shows "wp l (match tags) Q P"
  unfolding match_def by (auto simp: wp_norm intro!: wp assms)

lemma bind_consume0 [wp]:
  assumes "len P \<le> l" "\<And>t P'. len P' \<le> len P \<Longrightarrow> (tag \<noteq> tokEoF \<Longrightarrow> len P' < len P) \<Longrightarrow> wp l (f t) Q P'"
  shows "wp l (bindP (consume0 tag) f) Q P"
  unfolding consume0_def consume_def
  by (rule wp_bind) (auto intro!: wp assms)

lemma wp_consume0 [wp]:
  assumes "len P \<le> l" "\<And>t P'. len P' \<le> len P \<Longrightarrow> (tag \<noteq> tokEoF \<Longrightarrow> len P' < len P) \<Longrightarrow> Q t P'"
  shows "wp l (consume0 tag) Q P"
  unfolding consume0_def consume_def by (auto intro!: wp assms)

text \<open>A part of a sequence that has branches is dealt with once.\<close>

lemma bind_ifP [wp]:
  assumes "wp l (ifP c p q) (\<lambda>_ P'. len P' \<le> len P) P" "\<And>a P'. len P' \<le> len P \<Longrightarrow> wp l (f a) Q P'"
  shows "wp l (bindP (ifP c p q) f) Q P"
  by (rule wp_bind, rule wp_mono [OF assms(1)]) (auto intro: assms(2))

lemma bind_and [wp]:
  "wp l (ifP c d (retP False)) (\<lambda>_ P'. len P' \<le> len P) P \<Longrightarrow> (\<And>a P'. len P' \<le> len P \<Longrightarrow> wp l (f a) Q P') \<Longrightarrow>
   wp l (bindP (andP c d) f) Q P"
  unfolding andP_def by (rule bind_ifP)

lemma bind_ite [wp]:
  assumes "wp l (if b then p else q) (\<lambda>_ P'. len P' \<le> len P) P" "\<And>a P'. len P' \<le> len P \<Longrightarrow> wp l (f a) Q P'"
  shows "wp l (bindP (if b then p else q) f) Q P"
  by (rule wp_bind, rule wp_mono [OF assms(1)]) (auto intro: assms(2))

lemma wp_tryCatch [wp]:
  assumes "wp (len P) p Q P" "\<And>P'. len P' \<le> len P - 1 \<Longrightarrow> wp l h Q P'" "len P \<le> l"
  shows "wp l (tryCatch p h) Q P"
proof (cases "p P")
  case (Throw P')
  with assms(1) have "wp l h Q P'" by (intro assms(2)) (simp add: wp_def)
  with Throw show ?thesis by (simp add: wp_def tryCatch_def)
qed (use assms(1,3) in \<open>auto simp: wp_def tryCatch_def\<close>)

lemma wp_catchAbort [wp]:
  assumes "wp (len P) p Q P" "\<And>P'. len P' \<le> len P \<Longrightarrow> wp l h Q P'" "len P \<le> l"
  shows "wp l (catchAbort p h) Q P"
proof (cases "p P")
  case (Abort P')
  with assms(1) have "wp l h Q P'" by (intro assms(2)) (simp add: wp_def)
  with Abort show ?thesis by (simp add: wp_def catchAbort_def)
qed (use assms(1,3) in \<open>auto simp: wp_def catchAbort_def\<close>)

section \<open>Loops\<close>

text \<open>A turn that continues has consumed a token; one that leaves, \<open>k\<close> of them.\<close>

definition turn :: "nat \<Rightarrow> nat \<Rightarrow> 's + 'a \<Rightarrow> Parser \<Rightarrow> bool" where
  "turn k m r P' = (case r of Inl _ \<Rightarrow> len P' < m | Inr _ \<Rightarrow> len P' + k \<le> m)"

lemma wp_continue [wp]: "len P < m \<Longrightarrow> wp l (continueP s) (turn k m) P"
  by (simp add: continueP_def wp_def retP_def turn_def)

lemma wp_break [wp]: "len P + k \<le> m \<Longrightarrow> wp l (breakP a) (turn k m) P"
  by (simp add: breakP_def wp_def retP_def turn_def)

lemma consumes_iterP:
  fixes step :: "'a \<Rightarrow> ('a + 'b) parser"
  assumes "\<And>s P. len P < N \<Longrightarrow> wp (len P) (step s) (turn k (len P)) P"
  shows "len P < N \<Longrightarrow> len P < n \<Longrightarrow> wp (len P) (iterP n step s) (\<lambda>_ P'. len P' + k \<le> len P) P"
proof (induction n arbitrary: s P)
  case (Suc n)
  show ?case
    unfolding iterP.simps
  proof (rule wp_bind, rule wp_mono [OF assms])
    fix r :: "'a + 'b" and P'
    assume r: "turn k (len P) r P'"
    show "wp (len P) (case r of Inl s \<Rightarrow> iterP n step s | Inr a \<Rightarrow> retP a) (\<lambda>_ P'. len P' + k \<le> len P) P'"
    proof (cases r)
      case (Inl s')
      with r Suc.prems have "wp (len P') (iterP n step s') (\<lambda>_ P''. len P'' + k \<le> len P') P'"
        by (intro Suc.IH) (auto simp: turn_def)
      with r Inl show ?thesis by (auto simp: turn_def intro: wp_mono)
    next
      case (Inr a)
      with r show ?thesis by (auto simp: turn_def intro: wp_ret)
    qed
  qed (use Suc.prems in auto)
qed simp

lemma consumes_loop:
  assumes "\<And>s P. len P < N \<Longrightarrow> wp (len P) (step s) (turn k (len P)) P"
  shows "consumes N k (loopP step s)"
proof (rule consumesI)
  fix P :: Parser
  assume "len P < N"
  then have "wp (len P) (iterP (Suc (len P)) step s) (\<lambda>_ P'. len P' + k \<le> len P) P"
    by (intro consumes_iterP [OF assms]) simp_all
  then show "wp (len P) (loopP step s) (\<lambda>_ P'. len P' + k \<le> len P) P" by (simp add: loopP_def wp_def)
qed

lemma consumes_while:
  assumes "\<And>s P. len P < N \<Longrightarrow> wp (len P) (ifP c (bindP (body s) continueP) (breakP s)) (turn 0 (len P)) P"
  shows "consumes N 0 (whileP c body s)"
  unfolding whileP_def by (rule consumes_loop) (rule assms)

lemma bind_consumes_continue:
  assumes "consumes N 1 p" "len P < N" "len P \<le> l" "len P \<le> m"
  shows "wp l (bindP p (\<lambda>x. continueP (g x))) (turn k m) P"
  by (rule bind_consumes [OF assms(1-3)]) (use assms(4) in \<open>auto intro!: wp_continue\<close>)

section \<open>Lists and skipping\<close>

lemma parseManyUntil_consumes:
  assumes "consumes N 1 parse"
  shows "consumes N 0 (parseManyUntil stops sep parse)"
  unfolding parseManyUntil_def
  by (rule consumes_while) (auto simp: wp_norm intro!: wp bind_consumes [OF assms])

lemma parseMany_consumes: "consumes N 1 parse \<Longrightarrow> consumes N 0 (parseMany stop sep parse)"
  by (simp add: parseMany_def parseManyUntil_consumes)

lemma parseMany2_consumes: "consumes N 1 parse \<Longrightarrow> consumes N 0 (parseMany2 stop1 stop2 sep parse)"
  by (simp add: parseMany2_def parseManyUntil_consumes)

lemma parseManyNoSeparator_consumes:
  assumes "consumes N 1 parse"
  shows "consumes N 0 (parseManyNoSeparator stop parse)"
  unfolding parseManyNoSeparator_def
  by (rule consumes_while) (auto simp: wp_norm intro!: wp bind_consumes [OF assms])

lemma parseAtLeastOne_consumes:
  assumes "consumes N 1 parse"
  shows "consumes N 0 (parseAtLeastOne stop sep parse)"
  unfolding parseAtLeastOne_def
  by (rule consumesI) (auto intro!: wp bind_consumes [OF parseMany_consumes [OF assms]])

lemma parseAtLeastOne2_consumes:
  assumes "consumes N 1 parse"
  shows "consumes N 0 (parseAtLeastOne2 stop stop2 sep parse)"
  unfolding parseAtLeastOne2_def
  by (rule consumesI) (auto intro!: wp bind_consumes [OF parseMany2_consumes [OF assms]])

lemma parenList_consumes:
  assumes "consumes N 1 parse"
  shows "consumes (Suc N) 1 (parenList parse)"
  unfolding parenList_def
  by (rule consumesI) (auto simp: wp_norm intro!: wp bind_consumes [OF parseMany_consumes [OF assms]])

lemma bind_skipUntil [wp]: "(\<And>b P'. len P' \<le> len P \<Longrightarrow> wp l (f b) Q P') \<Longrightarrow> wp l (bindP (skipUntil tag) f) Q P"
  unfolding skipUntil_def by (rule wp_bind) (auto simp: wp_norm Let_def wp_def modP_def bindP_def check_def current_def getP_def retP_def)

lemma wp_skipUntil: "(\<And>b P'. len P' \<le> len P \<Longrightarrow> Q b P') \<Longrightarrow> wp l (skipUntil tag) Q P"
  using bind_skipUntil [of P l retP Q tag] by (auto simp: wp_def bindP_def retP_def split: presult.splits)

lemma synchronizeUntil_consumes: "consumes N 0 (synchronizeUntil tag)"
  by (rule consumesI) (auto simp: synchronizeUntil_def wp_norm intro!: wp)

lemmas synchronizeUntil_wp = wp_consumes [OF synchronizeUntil_consumes] bind_consumes [OF synchronizeUntil_consumes]

lemma skipNested_consumes: "consumes N 0 (skipNested open close k)"
  unfolding skipNested_def by (rule consumes_loop) (auto simp: wp_norm intro!: wp)

lemmas skipNested_wp = wp_consumes [OF skipNested_consumes] bind_consumes [OF skipNested_consumes]

lemma synchronize_consumes: "consumes N 0 synchronize"
proof -
  have loop: "consumes N 0 (loopP (\<lambda>_. ifP (match [tsym '';'', tokEoF]) (breakP ())
      (ifP (check synchronizeStops) (breakP ()) (bindP advance (\<lambda>_. continueP ())))) ())"
    by (rule consumes_loop) (auto intro!: wp)
  show ?thesis
    by (rule consumesI) (auto simp: synchronize_def wp_norm intro!: wp wp_consumes [OF loop])
qed

lemmas synchronize_wp = wp_consumes [OF synchronize_consumes] bind_consumes [OF synchronize_consumes]

lemma isEndOfStmt_wp [wp]: "wp l p Q P \<Longrightarrow> wp l q Q P \<Longrightarrow> wp l (ifP isEndOfStmt p q) Q P"
  unfolding isEndOfStmt_def by (auto simp: wp_norm intro!: wp)

section \<open>Literals\<close>

lemma isPrimitiveTypeTag_eof [simp]: "\<not> isPrimitiveTypeTag tokEoF"
  by (simp add: isPrimitiveTypeTag_def primTypeList_def)

lemma parseNull_consumes: "consumes N 1 (parseNull)"
  by (rule consumesI) (auto simp: parseNull_def wp_norm Let_def intro!: wp)

lemmas parseNull_wp = wp_consumes [OF parseNull_consumes] bind_consumes [OF parseNull_consumes]

lemma wrapLiteralWithSuffix_consumes: "consumes N 0 (wrapLiteralWithSuffix node isString)"
  by (rule consumesI) (auto simp: wrapLiteralWithSuffix_def wp_norm Let_def intro!: wp)

lemmas wrapLiteralWithSuffix_wp = wp_consumes [OF wrapLiteralWithSuffix_consumes] bind_consumes [OF wrapLiteralWithSuffix_consumes]

lemma parseBool_consumes: "consumes N 1 (parseBool)"
  by (rule consumesI) (auto simp: parseBool_def wp_norm Let_def intro!: wp wrapLiteralWithSuffix_wp)

lemmas parseBool_wp = wp_consumes [OF parseBool_consumes] bind_consumes [OF parseBool_consumes]

lemma parseString_consumes: "consumes N 1 (parseString)"
  by (rule consumesI) (auto simp: parseString_def wp_norm Let_def intro!: wp wrapLiteralWithSuffix_wp)

lemmas parseString_wp = wp_consumes [OF parseString_consumes] bind_consumes [OF parseString_consumes]

lemma parseSymbol_consumes: "consumes N 1 (parseSymbol)"
  by (rule consumesI) (auto simp: parseSymbol_def wp_norm Let_def intro!: wp)

lemmas parseSymbol_wp = wp_consumes [OF parseSymbol_consumes] bind_consumes [OF parseSymbol_consumes]

lemma parseIdentifierWithAlias_consumes: "consumes N 1 (parseIdentifierWithAlias)"
  by (rule consumesI) (auto simp: parseIdentifierWithAlias_def wp_norm Let_def intro!: wp)

lemmas parseIdentifierWithAlias_wp = wp_consumes [OF parseIdentifierWithAlias_consumes] bind_consumes [OF parseIdentifierWithAlias_consumes]

lemma parseMacroParam_consumes: "consumes N 1 (parseMacroParam)"
  by (rule consumesI) (auto simp: parseMacroParam_def wp_norm Let_def intro!: wp)

lemmas parseMacroParam_wp = wp_consumes [OF parseMacroParam_consumes] bind_consumes [OF parseMacroParam_consumes]

lemma primitive_consumes: "consumes N 1 (primitive)"
  by (rule consumesI) (auto simp: primitive_def wp_norm Let_def intro!: wp)

lemmas primitive_wp = wp_consumes [OF primitive_consumes] bind_consumes [OF primitive_consumes]

lemma findPluginByAlias_consumes: "consumes N 0 (findPluginByAlias alias)"
  by (rule consumesI) (auto simp: findPluginByAlias_def wp_norm Let_def intro!: wp)

lemmas findPluginByAlias_wp = wp_consumes [OF findPluginByAlias_consumes] bind_consumes [OF findPluginByAlias_consumes]

section \<open>The contract of the recursive calls\<close>

locale parser_calls =
  fixes R :: rec_calls and n :: nat
  assumes calls: "consumes n 1 (R c)"
begin

lemmas calls_wp [wp] = wp_consumes [OF calls] bind_consumes [OF calls]

lemmas base_wp [wp] =
  synchronizeUntil_wp [where N = "Suc n"]
  skipNested_wp [where N = "Suc n"]
  synchronize_wp [where N = "Suc n"]
  parseNull_wp [where N = "Suc n"]
  wrapLiteralWithSuffix_wp [where N = "Suc n"]
  parseBool_wp [where N = "Suc n"]
  parseString_wp [where N = "Suc n"]
  parseSymbol_wp [where N = "Suc n"]
  parseIdentifierWithAlias_wp [where N = "Suc n"]
  parseMacroParam_wp [where N = "Suc n"]
  primitive_wp [where N = "Suc n"]
  findPluginByAlias_wp [where N = "Suc n"]

lemmas list_wp [wp] =
  bind_consumes [OF parenList_consumes [OF calls]] wp_consumes [OF parenList_consumes [OF calls]]
  bind_consumes [OF parseMany_consumes [OF calls]] bind_consumes [OF parseAtLeastOne_consumes [OF calls]]
  bind_consumes [OF parseManyNoSeparator_consumes [OF calls]]
  wp_consumes [OF parseMany_consumes [OF calls]] wp_consumes [OF parseAtLeastOne_consumes [OF calls]]

text \<open>Literals, macro calls and attributes.\<close>

lemma typedLiteral_consumes: "consumes (Suc n) 0 (typedLiteral R node)"
  by (rule consumesI) (auto simp: typedLiteral_def wp_norm Let_def intro!: wp split: option.splits)

lemmas typedLiteral_wp [wp] = wp_consumes [OF typedLiteral_consumes] bind_consumes [OF typedLiteral_consumes]

lemma parseChar_consumes: "consumes (Suc n) 1 (parseChar R)"
  by (rule consumesI) (auto simp: parseChar_def wp_norm Let_def intro!: wp split: option.splits)

lemmas parseChar_wp [wp] = wp_consumes [OF parseChar_consumes] bind_consumes [OF parseChar_consumes]

lemma parseInteger_consumes: "consumes (Suc n) 1 (parseInteger R neg)"
  by (rule consumesI) (auto simp: parseInteger_def wp_norm Let_def intro!: wp split: option.splits)

lemmas parseInteger_wp [wp] = wp_consumes [OF parseInteger_consumes] bind_consumes [OF parseInteger_consumes]

lemma parseIntegerWithoutSuffix_consumes: "consumes (Suc n) 1 (parseIntegerWithoutSuffix R neg)"
  by (rule consumesI) (auto simp: parseIntegerWithoutSuffix_def wp_norm Let_def intro!: wp split: option.splits)

lemmas parseIntegerWithoutSuffix_wp [wp] = wp_consumes [OF parseIntegerWithoutSuffix_consumes] bind_consumes [OF parseIntegerWithoutSuffix_consumes]

lemma parseFloat_consumes: "consumes (Suc n) 1 (parseFloat R neg)"
  by (rule consumesI) (auto simp: parseFloat_def wp_norm Let_def intro!: wp split: option.splits)

lemmas parseFloat_wp [wp] = wp_consumes [OF parseFloat_consumes] bind_consumes [OF parseFloat_consumes]

lemma macroExpression_consumes: "consumes (Suc n) 1 (macroExpression R callee)"
  by (rule consumesI) (auto simp: macroExpression_def wp_norm Let_def intro!: wp split: option.splits)

lemmas macroExpression_wp [wp] = wp_consumes [OF macroExpression_consumes] bind_consumes [OF macroExpression_consumes]

lemma pluginActionExpression_consumes: "consumes (Suc n) 1 (pluginActionExpression R callee)"
  by (rule consumesI) (auto simp: pluginActionExpression_def wp_norm Let_def intro!: wp split: option.splits)

lemmas pluginActionExpression_wp [wp] = wp_consumes [OF pluginActionExpression_consumes] bind_consumes [OF pluginActionExpression_consumes]

lemma parseIdentifier_consumes: "consumes (Suc n) 1 (parseIdentifier R)"
  by (rule consumesI) (auto simp: parseIdentifier_def wp_norm Let_def intro!: wp split: option.splits)

lemmas parseIdentifier_wp [wp] = wp_consumes [OF parseIdentifier_consumes] bind_consumes [OF parseIdentifier_consumes]

lemma attributeValue_consumes: "consumes (Suc n) 1 (attributeValue R)"
  by (rule consumesI) (auto simp: attributeValue_def wp_norm Let_def intro!: wp split: option.splits)

lemmas attributeValue_wp [wp] = wp_consumes [OF attributeValue_consumes] bind_consumes [OF attributeValue_consumes]

lemma attributeArg_consumes: "consumes (Suc n) 1 (attributeArg R kvp)"
  by (rule consumesI) (auto simp: attributeArg_def wp_norm Let_def intro!: wp split: option.splits)

lemmas attributeArg_wp [wp] = wp_consumes [OF attributeArg_consumes] bind_consumes [OF attributeArg_consumes]

lemma attribute_consumes: "consumes (Suc n) 1 (attribute R)"
proof -
  have loop: "consumes (Suc n) 0 (whileP (notP (check [tsym '')'', tokEoF]))
      (\<lambda>args. bindP (attributeArg R kvp) (\<lambda>v. bindP (match [tsym '','']) (\<lambda>_. retP (listAddAstNode args v)))) [])" for kvp
    by (rule consumes_while) (auto simp: wp_norm intro!: wp)
  show ?thesis
    by (rule consumesI) (auto simp: attribute_def wp_norm Let_def intro!: wp bind_consumes [OF loop])
qed

lemmas attribute_wp [wp] = wp_consumes [OF attribute_consumes] bind_consumes [OF attribute_consumes]

lemma attributes_consumes: "consumes (Suc n) 0 (attributes R)"
  unfolding attributes_def
  by (rule consumes_while)
    (auto simp: wp_norm intro!: wp bind_consumes [OF parseAtLeastOne_consumes [OF attribute_consumes]])

lemmas attributes_wp [wp] = wp_consumes [OF attributes_consumes] bind_consumes [OF attributes_consumes]

lemma optAttributes_consumes: "consumes (Suc n) 0 (optAttributes R)"
  by (rule consumesI) (auto simp: optAttributes_def wp_norm Let_def intro!: wp split: option.splits)

lemmas optAttributes_wp [wp] = wp_consumes [OF optAttributes_consumes] bind_consumes [OF optAttributes_consumes]

lemma pluginAttrs_consumes: "consumes (Suc n) 0 (pluginAttrs attrs result newAttrs)"
proof (induction attrs arbitrary: result newAttrs)
  case Nil
  show ?case by (rule consumesI) (auto intro!: wp)
next
  case (Cons a attrs)
  show ?case
    by (rule consumesI)
      (auto simp: wp_norm Let_def intro!: wp wp_consumes [OF Cons.IH]
        split: option.splits)
qed

lemmas pluginAttrs_wp [wp] = wp_consumes [OF pluginAttrs_consumes] bind_consumes [OF pluginAttrs_consumes]

lemma invokePluginActionsOnEntity_consumes: "consumes (Suc n) 0 (invokePluginActionsOnEntity e)"
  by (rule consumesI) (auto simp: invokePluginActionsOnEntity_def wp_norm Let_def split: list.splits intro!: wp split: option.splits)

lemmas invokePluginActionsOnEntity_wp [wp] = wp_consumes [OF invokePluginActionsOnEntity_consumes] bind_consumes [OF invokePluginActionsOnEntity_consumes]

text \<open>Paths and types.\<close>

lemma parseTypeOrIndex_consumes: "consumes n 1 (parseTypeOrIndex R)"
  by (rule consumesI) (auto simp: parseTypeOrIndex_def intro!: wp)

lemma pathElementArgs_wp:
  assumes "len P < Suc n" "len P \<le> l" "0 < len P" "\<And>a P'. len P' < len P \<Longrightarrow> Q a P'"
  shows "wp l (pathElementArgs R name isKw) Q P"
  using assms
  by (auto simp: pathElementArgs_def wp_norm
      intro!: wp bind_consumes [OF parseMany_consumes [OF parseTypeOrIndex_consumes]])

lemma pathElement_consumes: "consumes (Suc n) 1 (pathElement R)"
  by (rule consumesI) (auto simp: pathElement_def wp_norm Let_def intro!: wp pathElementArgs_wp split: option.splits)

lemmas pathElement_wp [wp] = wp_consumes [OF pathElement_consumes] bind_consumes [OF pathElement_consumes]

lemma parsePath_consumes: "consumes (Suc n) 1 (parsePath R one)"
proof -
  have loop: "consumes (Suc n) 1 (loopP (\<lambda>parts. bindP (pathElement R) (\<lambda>e.
          let parts = listAddAstNode parts e
          in if one then breakP parts
             else ifP (notP (andP (check [tsym ''.'']) (checkPeek 1 [tokIdent]))) (breakP parts)
               (thenP (consume0 (tsym ''.''))
                  (ifP (match [tsym ''#''])
                     (bindP (pathElement R) (\<lambda>e. bindP (modHead (orFlags flgBuiltin) e) (\<lambda>e.
                        breakP (listAddAstNode parts e))))
                     (ifP isEoF (breakP parts) (continueP parts)))))) [])"
    by (rule consumes_loop) (auto simp: wp_norm Let_def intro!: wp)
  show ?thesis
    unfolding parsePath_def by (rule consumesI) (auto simp: wp_norm intro!: wp bind_consumes [OF loop])
qed

lemmas parsePath_wp [wp] = wp_consumes [OF parsePath_consumes] bind_consumes [OF parsePath_consumes]

lemma substitute_consumes: "consumes (Suc n) 1 (substitute R)"
  by (rule consumesI) (auto simp: substitute_def wp_norm Let_def intro!: wp split: option.splits)

lemmas substitute_wp [wp] = wp_consumes [OF substitute_consumes] bind_consumes [OF substitute_consumes]

lemma setNext_wp [wp]: "(\<And>a. Q a P) \<Longrightarrow> wp l (setNext p q) Q P" "(\<And>a. wp l (f a) Q P) \<Longrightarrow> wp l (bindP (setNext p q) f) Q P"
  by (auto simp: setNext_def wp_norm intro!: wp wp_bind split: list.splits)

lemma funcReturnType_consumes: "consumes n 1 (funcReturnType R)"
  by (rule consumesI) (auto simp: funcReturnType_def wp_norm intro!: wp)

lemmas funcReturnType_wp [wp] = wp_consumes [OF funcReturnType_consumes] bind_consumes [OF funcReturnType_consumes]

lemma parseTupleType_consumes: "consumes (Suc n) 1 (parseTupleType R)"
  by (rule consumesI) (auto simp: parseTupleType_def wp_norm Let_def intro!: wp split: option.splits)

lemmas parseTupleType_wp [wp] = wp_consumes [OF parseTupleType_consumes] bind_consumes [OF parseTupleType_consumes]

lemma parseArrayType_consumes: "consumes (Suc n) 1 (parseArrayType R)"
  by (rule consumesI) (auto simp: parseArrayType_def wp_norm Let_def intro!: wp split: option.splits)

lemmas parseArrayType_wp [wp] = wp_consumes [OF parseArrayType_consumes] bind_consumes [OF parseArrayType_consumes]

lemma genericConstraints_consumes: "consumes (Suc n) 1 (genericConstraints R)"
  unfolding genericConstraints_def by (rule consumes_loop) (auto simp: wp_norm intro!: wp)

lemmas genericConstraints_wp [wp] = wp_consumes [OF genericConstraints_consumes] bind_consumes [OF genericConstraints_consumes]

lemma parseGenericParam_consumes: "consumes (Suc n) 1 (parseGenericParam R isFunc)"
  by (rule consumesI) (auto simp: parseGenericParam_def wp_norm Let_def intro!: wp split: option.splits)

lemmas parseGenericParam_wp [wp] = wp_consumes [OF parseGenericParam_consumes] bind_consumes [OF parseGenericParam_consumes]

lemma parseGenericParams_consumes: "consumes (Suc n) 1 (parseGenericParams R isFunc)"
proof -
  have loop: "consumes (Suc n) 1 (loopP (\<lambda>params. bindP (parseGenericParam R isFunc) (\<lambda>param.
        let (params, param) = insertAstNode params param
        in ifP (orP (retP (lastHasFlag param flgVariadic)) (check [tsym '']''])) (breakP params)
             (ifP (match [tsym '','']) (continueP params) (breakP params)))) [])"
    by (rule consumes_loop) (auto simp: wp_norm Let_def intro!: wp split: prod.splits)
  show ?thesis
    unfolding parseGenericParams_def
    by (rule consumesI, rule bind_consumes [OF loop]) (auto simp: wp_norm intro!: wp)
qed

lemmas parseGenericParams_wp [wp] = wp_consumes [OF parseGenericParams_consumes] bind_consumes [OF parseGenericParams_consumes]

lemma optGenericParams_consumes: "consumes (Suc n) 0 (optGenericParams R isFunc)"
  by (rule consumesI) (auto simp: optGenericParams_def wp_norm Let_def intro!: wp split: option.splits)

lemmas optGenericParams_wp [wp] = wp_consumes [OF optGenericParams_consumes] bind_consumes [OF optGenericParams_consumes]

lemma makeAnonymousName_consumes: "consumes (Suc n) 0 (makeAnonymousName name)"
  by (rule consumesI) (auto simp: makeAnonymousName_def wp_norm Let_def intro!: wp split: option.splits)

lemmas makeAnonymousName_wp [wp] = wp_consumes [OF makeAnonymousName_consumes] bind_consumes [OF makeAnonymousName_consumes]

lemma functionParam_consumes: "consumes (Suc n) 1 (functionParam R)"
  by (rule consumesI) (auto simp: functionParam_def wp_norm Let_def split: prod.splits intro!: wp split: option.splits)

lemmas functionParam_wp [wp] = wp_consumes [OF functionParam_consumes] bind_consumes [OF functionParam_consumes]

lemmas params_wp [wp] =
  bind_consumes [OF parenList_consumes [OF functionParam_consumes]] wp_consumes [OF parenList_consumes [OF functionParam_consumes]]

lemma parseFuncType_consumes: "consumes (Suc n) 1 (parseFuncType R)"
  by (rule consumesI) (auto simp: parseFuncType_def wp_norm Let_def intro!: wp split: option.splits)

lemmas parseFuncType_wp [wp] = wp_consumes [OF parseFuncType_consumes] bind_consumes [OF parseFuncType_consumes]

lemma parsePointerType_consumes: "consumes (Suc n) 1 (parsePointerType R)"
  by (rule consumesI) (auto simp: parsePointerType_def wp_norm Let_def intro!: wp split: option.splits)

lemmas parsePointerType_wp [wp] = wp_consumes [OF parsePointerType_consumes] bind_consumes [OF parsePointerType_consumes]

lemma parseReferenceType_consumes: "consumes (Suc n) 1 (parseReferenceType R)"
  by (rule consumesI) (auto simp: parseReferenceType_def wp_norm Let_def intro!: wp split: option.splits)

lemmas parseReferenceType_wp [wp] = wp_consumes [OF parseReferenceType_consumes] bind_consumes [OF parseReferenceType_consumes]

lemma xFormArgs_consumes: "consumes (Suc n) 1 (xFormArgs)"
  by (rule consumesI) (auto simp: xFormArgs_def wp_norm Let_def intro!: wp split: option.splits)

lemmas xFormArgs_wp [wp] = wp_consumes [OF xFormArgs_consumes] bind_consumes [OF xFormArgs_consumes]

lemma xFormCond_consumes: "consumes (Suc n) 0 (xFormCond R)"
  by (rule consumesI) (auto simp: xFormCond_def wp_norm Let_def intro!: wp split: option.splits)

lemmas xFormCond_wp [wp] = wp_consumes [OF xFormCond_consumes] bind_consumes [OF xFormCond_consumes]

lemma xFormType_consumes: "consumes (Suc n) 1 (xFormType R)"
  by (rule consumesI) (auto simp: xFormType_def wp_norm Let_def intro!: wp split: option.splits)

lemmas xFormType_wp [wp] = wp_consumes [OF xFormType_consumes] bind_consumes [OF xFormType_consumes]

lemma xFormExpr_consumes: "consumes (Suc n) 1 (xFormExpr R)"
  by (rule consumesI) (auto simp: xFormExpr_def wp_norm Let_def intro!: wp split: option.splits)

lemmas xFormExpr_wp [wp] = wp_consumes [OF xFormExpr_consumes] bind_consumes [OF xFormExpr_consumes]

lemma typePath_consumes: "consumes (Suc n) 1 (typePath R f)"
  by (rule consumesI) (auto simp: typePath_def wp_norm Let_def intro!: wp split: option.splits)

lemmas typePath_wp [wp] = wp_consumes [OF typePath_consumes] bind_consumes [OF typePath_consumes]

lemma simpleType_wp [wp]: "0 < len P \<Longrightarrow> (\<And>a P'. len P' < len P \<Longrightarrow> Q a P') \<Longrightarrow> wp l (simpleType tag) Q P"
  by (auto simp: simpleType_def wp_norm intro!: wp)

lemma parseTypeBase_consumes: "consumes (Suc n) 1 (parseTypeBase R)"
  by (rule consumesI) (auto simp: parseTypeBase_def wp_norm Let_def intro!: wp split: option.splits)

lemmas parseTypeBase_wp [wp] = wp_consumes [OF parseTypeBase_consumes] bind_consumes [OF parseTypeBase_consumes]

lemma parseTypeImpl_consumes: "consumes (Suc n) 1 (parseTypeImpl R)"
  by (rule consumesI) (auto simp: parseTypeImpl_def wp_norm Let_def intro!: wp split: option.splits)

lemmas parseTypeImpl_wp [wp] = wp_consumes [OF parseTypeImpl_consumes] bind_consumes [OF parseTypeImpl_consumes]

lemma parseType_consumes: "consumes (Suc n) 1 (parseType R)"
proof -
  have loop: "consumes (Suc n) 1 (loopP (\<lambda>members. bindP (parseTypeImpl R) (\<lambda>type.
        ifP (match [tsym ''|'']) (continueP (listAddAstNode members type)) (breakP (listAddAstNode members type)))) [])"
    by (rule consumes_loop) (auto simp: wp_norm intro!: wp)
  show ?thesis
    unfolding parseType_def by (rule consumesI) (auto intro!: wp bind_consumes [OF loop])
qed

lemmas parseType_wp [wp] = wp_consumes [OF parseType_consumes] bind_consumes [OF parseType_consumes]

text \<open>Postfix and primary expressions.\<close>

lemma member_consumes: "consumes (Suc n) 1 (member R operand)"
proof -
  have loop: "consumes (Suc n) 0 (whileP (andP (notP isEoF) (match [tsym ''.'']))
      (\<lambda>(operand, m). bindP (parsePath R True) (\<lambda>m2. retP (memberExpr flags operand m, m2))) st)" for flags st
    by (rule consumes_while) (auto simp: wp_norm intro!: wp split: prod.splits)
  show ?thesis
    unfolding member_def Let_def
    by (rule consumesI) (auto intro!: wp bind_consumes [OF loop])
qed

lemmas member_wp [wp] = wp_consumes [OF member_consumes] bind_consumes [OF member_consumes]

lemma indexExpr_consumes: "consumes (Suc n) 1 (indexExpr R operand)"
  by (rule consumesI) (auto simp: indexExpr_def wp_norm Let_def intro!: wp split: option.splits)

lemmas indexExpr_wp [wp] = wp_consumes [OF indexExpr_consumes] bind_consumes [OF indexExpr_consumes]

lemma parseCallArguments_consumes: "consumes n 1 (parseCallArguments R)"
  by (rule consumesI) (auto simp: parseCallArguments_def intro!: wp)

lemmas parseCallArguments_wp [wp] = bind_consumes [OF parseCallArguments_consumes]

lemma callExpression_consumes: "consumes (Suc n) 1 (callExpression R callee)"
  by (rule consumesI) (auto simp: callExpression_def wp_norm Let_def intro!: wp bind_consumes [OF parenList_consumes [OF parseCallArguments_consumes]] split: option.splits)

lemmas callExpression_wp [wp] = wp_consumes [OF callExpression_consumes] bind_consumes [OF callExpression_consumes]

lemma postfixCast_consumes: "consumes (Suc n) 0 (postfixCast R expr)"
  by (rule consumesI) (auto simp: postfixCast_def wp_norm Let_def simp del: length_greater_0_conv intro!: wp split: option.splits)

lemmas postfixCast_wp [wp] = wp_consumes [OF postfixCast_consumes] bind_consumes [OF postfixCast_consumes]

lemma assertOp_wp [wp]: "(\<And>a. wp l (f a) Q P) \<Longrightarrow> wp l (bindP (assertOp k) f) Q P"
  by (auto simp: assertOp_def wp_norm intro!: wp wp_bind split: option.splits)

lemma postfixMember_consumes: "consumes (Suc n) 1 (postfixMember R operand)"
  by (rule consumesI) (auto simp: postfixMember_def wp_norm Let_def intro!: wp split: option.splits)

lemmas postfixMember_wp [wp] = wp_consumes [OF postfixMember_consumes] bind_consumes [OF postfixMember_consumes]

lemma postfixStep_wp:
  assumes "len P < Suc n"
  shows "wp (len P) (postfixStep R operand) (turn 0 (len P)) P"
  using assms unfolding postfixStep_def Let_def postfixCast_def ifP_bind
  by (auto simp: wp_norm simp del: length_greater_0_conv intro!: wp)

lemma postfix_loop_consumes: "consumes (Suc n) 0 (loopP (postfixStep R) operand)"
  by (rule consumes_loop) (rule postfixStep_wp)

lemmas postfix_loop_wp [wp] = wp_consumes [OF postfix_loop_consumes]

lemma stringExpr_consumes: "consumes (Suc n) 1 (stringExpr R)"
proof -
  have loop: "consumes n 0 (whileP (andP (notP (check [tokRString])) (notP isEoF))
      (\<lambda>parts. ifP (match [tokLStrFmt]) (retP parts)
         (bindP (R (CExpression False)) (\<lambda>part. retP (listAddAstNode parts part)))) [])"
    by (rule consumes_while) (auto simp: wp_norm ifP_bind intro!: wp)
  show ?thesis
    by (rule consumesI) (auto simp: stringExpr_def thenP_bind intro!: wp bind_consumes [OF loop])
qed

lemmas stringExpr_wp [wp] = wp_consumes [OF stringExpr_consumes] bind_consumes [OF stringExpr_consumes]

lemma maybeClosure_wp [wp]: "wp l p Q P \<Longrightarrow> wp l q Q P \<Longrightarrow> wp l (ifP maybeClosure p q) Q P"
  unfolding maybeClosure_def by (auto simp: wp_norm intro!: wp)

lemma maybeAnonymousStruct_wp [wp]: "wp l p Q P \<Longrightarrow> wp l q Q P \<Longrightarrow> wp l (ifP maybeAnonymousStruct p q) Q P"
  unfolding maybeAnonymousStruct_def by (auto simp: wp_norm intro!: wp)

lemma closure_consumes: "consumes (Suc n) 1 (closure R)"
  by (rule consumesI) (auto simp: closure_def wp_norm Let_def intro!: wp split: option.splits)

lemmas closure_wp [wp] = wp_consumes [OF closure_consumes] bind_consumes [OF closure_consumes]

lemma parenExpr_consumes: "consumes (Suc n) 1 (parenExpr R)"
proof -
  have loop: "consumes (Suc n) 0 (loopP (\<lambda>list.
       ifP (match [tsym '',''])
         (ifP (check [tsym '')'']) (breakP list)
            (bindP (parseCallArguments R) (\<lambda>e. continueP (fst (insertAstNode list e)))))
         (breakP list)) e)" for e
    by (rule consumes_loop) (auto simp: wp_norm intro!: wp)
  show ?thesis
    by (rule consumesI) (auto simp: parenExpr_def wp_norm intro!: wp bind_consumes [OF loop])
qed

lemmas parenExpr_wp [wp] = wp_consumes [OF parenExpr_consumes] bind_consumes [OF parenExpr_consumes]

lemma array_consumes: "consumes (Suc n) 1 (array R)"
  by (rule consumesI) (auto simp: array_def wp_norm Let_def intro!: wp split: option.splits)

lemmas array_wp [wp] = wp_consumes [OF array_consumes] bind_consumes [OF array_consumes]

lemma fieldExpr_consumes: "consumes (Suc n) 1 (fieldExpr R)"
  by (rule consumesI) (auto simp: fieldExpr_def wp_norm Let_def intro!: wp split: option.splits)

lemmas fieldExpr_wp [wp] = wp_consumes [OF fieldExpr_consumes] bind_consumes [OF fieldExpr_consumes]

lemma structExpr_consumes: "consumes (Suc n) 1 (structExpr R lhs)"
  by (rule consumesI) (auto simp: structExpr_def wp_norm Let_def intro!: wp bind_consumes [OF parseMany_consumes [OF fieldExpr_consumes]] split: option.splits)

lemmas structExpr_wp [wp] = wp_consumes [OF structExpr_consumes] bind_consumes [OF structExpr_consumes]

lemma untypedExpr_consumes: "consumes (Suc n) 1 (untypedExpr R)"
proof -
  have loop: "consumes (Suc n) 0 (whileP (match [tsym ''#'']) retP ())"
    by (rule consumes_while) (auto simp: wp_norm intro!: wp)
  show ?thesis
    by (rule consumesI) (auto simp: untypedExpr_def wp_norm intro!: wp bind_consumes [OF loop])
qed

lemmas untypedExpr_wp [wp] = wp_consumes [OF untypedExpr_consumes] bind_consumes [OF untypedExpr_consumes]

lemma implicitCast_consumes: "consumes (Suc n) 1 (implicitCast R)"
  by (rule consumesI) (auto simp: implicitCast_def wp_norm Let_def intro!: wp split: option.splits)

lemmas implicitCast_wp [wp] = wp_consumes [OF implicitCast_consumes] bind_consumes [OF implicitCast_consumes]

lemma rangeExpr_consumes: "consumes (Suc n) 1 (rangeExpr R)"
  by (rule consumesI) (auto simp: rangeExpr_def wp_norm Let_def intro!: wp split: option.splits)

lemmas rangeExpr_wp [wp] = wp_consumes [OF rangeExpr_consumes] bind_consumes [OF rangeExpr_consumes]

lemma async_consumes: "consumes (Suc n) 1 (async R)"
  by (rule consumesI) (auto simp: async_def wp_norm Let_def intro!: wp split: option.splits)

lemmas async_wp [wp] = wp_consumes [OF async_consumes] bind_consumes [OF async_consumes]

lemma launchExpression_consumes: "consumes (Suc n) 1 (launchExpression R)"
  by (rule consumesI) (auto simp: launchExpression_def wp_norm Let_def intro!: wp split: option.splits)

lemmas launchExpression_wp [wp] = wp_consumes [OF launchExpression_consumes] bind_consumes [OF launchExpression_consumes]

lemma block_consumes: "consumes (Suc n) 1 (block R)"
proof -
  have loop: "consumes n 0 (loopP (\<lambda>stmts.
       ifP (check [tsym ''}'', tokEoF]) (breakP stmts)
         (tryCatch
            (bindP (R (CStatement False)) (\<lambda>stmt.
               thenP (match [tsym '';'']) (continueP (listAddAstNode stmts stmt))))
            (thenP (synchronizeUntil (tsym ''}'')) (breakP stmts)))) [])"
    by (rule consumes_loop) (auto simp: wp_norm intro!: wp)
  show ?thesis
    unfolding block_def by (rule consumesI) (auto simp: thenP_bind intro!: wp bind_consumes [OF loop [unfolded thenP_bind]])
qed

lemmas block_wp [wp] = wp_consumes [OF block_consumes] bind_consumes [OF block_consumes]

lemma markModule_wp [wp]: "(\<And>a. Q a P) \<Longrightarrow> wp l (markModule p) Q P"
  by (auto simp: markModule_def intro!: wp split: list.splits option.splits)

lemma primaryBase_consumes: "consumes (Suc n) 1 (primaryBase R structs)"
  by (rule consumesI) (auto simp: primaryBase_def wp_norm Let_def intro!: wp split: option.splits)

lemmas primaryBase_wp [wp] = wp_consumes [OF primaryBase_consumes] bind_consumes [OF primaryBase_consumes]

lemma primary_consumes: "consumes (Suc n) 1 (primary R structs)"
  by (rule consumesI) (auto simp: primary_def wp_norm Let_def intro!: wp split: option.splits)

lemmas primary_wp [wp] = wp_consumes [OF primary_consumes] bind_consumes [OF primary_consumes]

lemma postfix_consumes: "consumes (Suc n) 1 (postfix R structs)"
  by (rule consumesI) (auto simp: postfix_def wp_norm Let_def intro!: wp split: option.splits)

lemmas postfix_wp [wp] = wp_consumes [OF postfix_consumes] bind_consumes [OF postfix_consumes]

text \<open>Operators.\<close>

lemma definedExpr_consumes: "consumes (Suc n) 0 (definedExpr)"
  by (rule consumesI) (auto simp: definedExpr_def wp_norm Let_def intro!: wp split: option.splits)

lemmas definedExpr_wp [wp] = wp_consumes [OF definedExpr_consumes] bind_consumes [OF definedExpr_consumes]

lemma prefixOperator_wp [wp]:
  assumes "len P < Suc n" "len P \<le> l" "0 < len P" "\<And>a P'. len P' < len P \<Longrightarrow> Q a P'"
  shows "wp l (prefixOperator R structs tag) Q P"
  using assms by (auto simp: prefixOperator_def wp_norm intro!: wp)

lemma prefix_tokens [simp]: "(a, tokEoF, b) \<notin> set prefixExprList"
  by (simp add: prefixExprList_def)

lemma prefix_consumes: "consumes (Suc n) 1 (prefix R structs)"
  by (rule consumesI) (auto simp: prefix_def wp_norm Let_def intro!: wp split: option.splits)

lemmas prefix_wp [wp] = wp_consumes [OF prefix_consumes] bind_consumes [OF prefix_consumes]

lemma binaryStep_wp:
  assumes "len P < Suc n"
  shows "wp (len P) (binaryStep R prec structs lhs) (turn 0 (len P)) P"
  using assms unfolding binaryStep_def Let_def by (auto simp: wp_norm intro!: wp)

lemma binaryLoop_consumes: "consumes (Suc n) 0 (binaryLoop R prec structs lhs)"
  unfolding binaryLoop_def by (rule consumes_loop) (rule binaryStep_wp)

lemmas binaryLoop_wp [wp] = wp_consumes [OF binaryLoop_consumes] bind_consumes [OF binaryLoop_consumes]

lemma binary_consumes: "consumes (Suc n) 1 (binary R prec structs)"
  by (rule consumesI) (auto simp: binary_def wp_norm Let_def intro!: wp split: option.splits)

lemmas binary_wp [wp] = wp_consumes [OF binary_consumes] bind_consumes [OF binary_consumes]

lemma isAssignmentOperator_eof [simp]: "\<not> isAssignmentOperator tokEoF"
  by (simp add: isAssignmentOperator_def assignExprList_def assignToken_def arithExprList_def bitExprList_def
      shiftExprList_def)

lemma assign_consumes: "consumes (Suc n) 1 (assign R structs)"
  by (rule consumesI) (auto simp: assign_def wp_norm Let_def intro!: wp split: option.splits)

lemmas assign_wp [wp] = wp_consumes [OF assign_consumes] bind_consumes [OF assign_consumes]

lemma ternary_consumes: "consumes (Suc n) 1 (ternary R structs)"
  by (rule consumesI) (auto simp: ternary_def wp_norm Let_def intro!: wp split: option.splits)

lemmas ternary_wp [wp] = wp_consumes [OF ternary_consumes] bind_consumes [OF ternary_consumes]

lemma expression_consumes: "consumes (Suc n) 1 (expression R structs)"
  by (rule consumesI) (auto simp: expression_def wp_norm Let_def intro!: wp split: option.splits)

lemmas expression_wp [wp] = wp_consumes [OF expression_consumes] bind_consumes [OF expression_consumes]

text \<open>Variables and functions.\<close>

lemma parseVarDeclName_consumes: "consumes (Suc n) 1 (parseVarDeclName R)"
  by (rule consumesI) (auto simp: parseVarDeclName_def wp_norm Let_def intro!: wp split: option.splits)

lemmas parseVarDeclName_wp [wp] = wp_consumes [OF parseVarDeclName_consumes] bind_consumes [OF parseVarDeclName_consumes]

lemma parseMultipleVariables_consumes: "consumes (Suc n) 1 (parseMultipleVariables R)"
  unfolding parseMultipleVariables_def by (rule consumes_loop) (auto simp: wp_norm intro!: wp)

lemmas parseMultipleVariables_wp [wp] = wp_consumes [OF parseMultipleVariables_consumes] bind_consumes [OF parseMultipleVariables_consumes]

lemma variableInit_consumes: "consumes n 0 (variableInit R isConst isExtern isExpression woInit)"
  by (rule consumesI) (auto simp: variableInit_def wp_norm Let_def intro!: wp)

lemmas variableInit_wp [wp] = wp_consumes [OF variableInit_consumes] bind_consumes [OF variableInit_consumes]

lemma variable_consumes: "consumes (Suc n) 1 (variable R isPublic isExtern isExpression woInit)"
  by (rule consumesI) (auto simp: variable_def wp_norm Let_def intro!: wp split: option.splits)

lemmas variable_wp [wp] = wp_consumes [OF variable_consumes] bind_consumes [OF variable_consumes]

lemma forVariable_consumes: "consumes (Suc n) 0 (forVariable R isComptime)"
  by (rule consumesI) (auto simp: forVariable_def wp_norm Let_def intro!: wp bind_consumes [OF parseAtLeastOne2_consumes [OF parseIdentifier_consumes]] split: option.splits)

lemmas forVariable_wp [wp] = wp_consumes [OF forVariable_consumes] bind_consumes [OF forVariable_consumes]

lemma tokenOverload_consumes: "consumes (Suc n) 0 (tokenOverload)"
  by (rule consumesI) (auto simp: tokenOverload_def wp_norm Let_def intro!: wp split: option.splits)

lemmas tokenOverload_wp [wp] = wp_consumes [OF tokenOverload_consumes] bind_consumes [OF tokenOverload_consumes]

lemma operatorOverload_consumes: "consumes (Suc n) 1 (operatorOverload)"
  by (rule consumesI) (auto simp: operatorOverload_def wp_norm Let_def split: option.splits intro!: wp split: option.splits)

lemmas operatorOverload_wp [wp] = wp_consumes [OF operatorOverload_consumes] bind_consumes [OF operatorOverload_consumes]

lemma funcGenericParams_consumes: "consumes (Suc n) 0 (funcGenericParams R isExtern isVirtual)"
  by (rule consumesI) (auto simp: funcGenericParams_def wp_norm Let_def intro!: wp split: option.splits)

lemmas funcGenericParams_wp [wp] = wp_consumes [OF funcGenericParams_consumes] bind_consumes [OF funcGenericParams_consumes]

lemma funcBody_consumes: "consumes n 0 (funcBody R isExtern isVirtual ret)"
  by (rule consumesI) (auto simp: funcBody_def wp_norm Let_def intro!: wp)

lemmas funcBody_wp [wp] = wp_consumes [OF funcBody_consumes] bind_consumes [OF funcBody_consumes]

lemma funcDecl_consumes: "consumes (Suc n) 1 (funcDecl R flags)"
  by (rule consumesI) (auto simp: funcDecl_def wp_norm Let_def split: prod.splits intro!: wp split: option.splits)

lemmas funcDecl_wp [wp] = wp_consumes [OF funcDecl_consumes] bind_consumes [OF funcDecl_consumes]

text \<open>Statements.\<close>

lemma condition_consumes: "consumes n 1 (condition R structs)"
  by (rule consumesI) (auto simp: condition_def wp_norm Let_def intro!: wp)

lemmas condition_wp [wp] = wp_consumes [OF condition_consumes] bind_consumes [OF condition_consumes]

lemma closeParen_consumes: "consumes (Suc n) 0 (closeParen b)"
  by (rule consumesI) (auto simp: closeParen_def wp_norm Let_def intro!: wp split: option.splits)

lemmas closeParen_wp [wp] = wp_consumes [OF closeParen_consumes] bind_consumes [OF closeParen_consumes]

lemma ifStatement_consumes: "consumes (Suc n) 1 (ifStatement R)"
  by (rule consumesI) (auto simp: ifStatement_def wp_norm Let_def intro!: wp split: option.splits)

lemmas ifStatement_wp [wp] = wp_consumes [OF ifStatement_consumes] bind_consumes [OF ifStatement_consumes]

lemma forStatement_consumes: "consumes (Suc n) 1 (forStatement R isComptime)"
  by (rule consumesI) (auto simp: forStatement_def wp_norm Let_def intro!: wp split: option.splits)

lemmas forStatement_wp [wp] = wp_consumes [OF forStatement_consumes] bind_consumes [OF forStatement_consumes]

lemma whileStatement_consumes: "consumes (Suc n) 1 (whileStatement R)"
  by (rule consumesI) (auto simp: whileStatement_def wp_norm Let_def intro!: wp split: option.splits)

lemmas whileStatement_wp [wp] = wp_consumes [OF whileStatement_consumes] bind_consumes [OF whileStatement_consumes]

lemma setInCase_consumes: "consumes (Suc n) 0 (setInCase b)"
  by (rule consumesI) (auto simp: setInCase_def wp_norm Let_def intro!: wp split: option.splits)

lemmas setInCase_wp [wp] = wp_consumes [OF setInCase_consumes] bind_consumes [OF setInCase_consumes]

lemma caseStatement_consumes: "consumes (Suc n) 1 (caseStatement R)"
  unfolding caseStatement_def Let_def ifP_bind wp_norm by (rule consumesI) (auto simp: wp_norm intro!: wp)

lemmas caseStatement_wp [wp] = wp_consumes [OF caseStatement_consumes] bind_consumes [OF caseStatement_consumes]

lemma parseCases_consumes: "consumes (Suc n) 1 (parseCases R kind msg)"
proof -
  have loop: "consumes n 0 (whileP (notP (check [tsym ''}'', tokEoF]))
      (\<lambda>cases. bindP (R (CComptime kind)) (\<lambda>c. retP (listAddAstNode cases c))) [])"
    by (rule consumes_while) (auto simp: wp_norm intro!: wp)
  show ?thesis
    by (rule consumesI) (auto simp: parseCases_def thenP_bind intro!: wp bind_consumes [OF loop])
qed

lemmas parseCases_wp [wp] = wp_consumes [OF parseCases_consumes] bind_consumes [OF parseCases_consumes]

lemma switchStatement_consumes: "consumes (Suc n) 1 (switchStatement R)"
  by (rule consumesI) (auto simp: switchStatement_def wp_norm Let_def intro!: wp split: option.splits)

lemmas switchStatement_wp [wp] = wp_consumes [OF switchStatement_consumes] bind_consumes [OF switchStatement_consumes]

lemma matchCaseStatement_consumes: "consumes (Suc n) 1 (matchCaseStatement R)"
  unfolding matchCaseStatement_def Let_def ifP_bind wp_norm by (rule consumesI) (auto simp: wp_norm intro!: wp)

lemmas matchCaseStatement_wp [wp] = wp_consumes [OF matchCaseStatement_consumes] bind_consumes [OF matchCaseStatement_consumes]

lemma matchStatement_consumes: "consumes (Suc n) 1 (matchStatement R)"
  by (rule consumesI) (auto simp: matchStatement_def wp_norm Let_def intro!: wp split: option.splits)

lemmas matchStatement_wp [wp] = wp_consumes [OF matchStatement_consumes] bind_consumes [OF matchStatement_consumes]

lemma deferStatement_consumes: "consumes (Suc n) 1 (deferStatement R)"
  by (rule consumesI) (auto simp: deferStatement_def wp_norm Let_def intro!: wp split: option.splits)

lemmas deferStatement_wp [wp] = wp_consumes [OF deferStatement_consumes] bind_consumes [OF deferStatement_consumes]

lemma returnStatement_consumes: "consumes (Suc n) 1 (returnStatement R)"
  by (rule consumesI) (auto simp: returnStatement_def wp_norm Let_def intro!: wp split: option.splits)

lemmas returnStatement_wp [wp] = wp_consumes [OF returnStatement_consumes] bind_consumes [OF returnStatement_consumes]

lemma yieldStatement_consumes: "consumes (Suc n) 1 (yieldStatement R)"
  by (rule consumesI) (auto simp: yieldStatement_def wp_norm Let_def intro!: wp split: option.splits)

lemmas yieldStatement_wp [wp] = wp_consumes [OF yieldStatement_consumes] bind_consumes [OF yieldStatement_consumes]

lemma continueStatement_consumes: "consumes (Suc n) 1 (continueStatement)"
  by (rule consumesI) (auto simp: continueStatement_def wp_norm Let_def intro!: wp split: option.splits)

lemmas continueStatement_wp [wp] = wp_consumes [OF continueStatement_consumes] bind_consumes [OF continueStatement_consumes]

lemma raiseStmt_consumes: "consumes (Suc n) 1 (raiseStmt R)"
  by (rule consumesI) (auto simp: raiseStmt_def wp_norm Let_def intro!: wp split: option.splits)

lemmas raiseStmt_wp [wp] = wp_consumes [OF raiseStmt_consumes] bind_consumes [OF raiseStmt_consumes]

lemma macroSdlStmt_consumes: "consumes (Suc n) 1 (macroSdlStmt R)"
proof -
  have loop: "consumes n 0 (loopP (\<lambda>args.
       ifP (orP (check [tsym ''{'']) (notP isEndOfStmt))
         (bindP (R (CExpression True)) (\<lambda>expr.
            let (args, arg) = insertAstNode args expr
            in if nodeIs arg ''BlockStmt'' then breakP args else continueP args))
         (breakP args)) [])"
    by (rule consumes_loop) (auto simp: wp_norm intro!: wp split: prod.splits)
  show ?thesis
    unfolding macroSdlStmt_def
    by (rule consumesI) (auto simp: thenP_bind intro!: wp bind_consumes [OF loop [unfolded Let_def]])
qed

lemmas macroSdlStmt_wp [wp] = wp_consumes [OF macroSdlStmt_consumes] bind_consumes [OF macroSdlStmt_consumes]

lemma assemblyOutput_consumes: "consumes (Suc n) 1 (assemblyOutput R)"
  by (rule consumesI) (auto simp: assemblyOutput_def wp_norm Let_def intro!: wp split: option.splits)

lemmas assemblyOutput_wp [wp] = wp_consumes [OF assemblyOutput_consumes] bind_consumes [OF assemblyOutput_consumes]

lemma assemblyInput_consumes: "consumes (Suc n) 1 (assemblyInput R)"
  by (rule consumesI) (auto simp: assemblyInput_def wp_norm Let_def intro!: wp split: option.splits)

lemmas assemblyInput_wp [wp] = wp_consumes [OF assemblyInput_consumes] bind_consumes [OF assemblyInput_consumes]

lemma assemblySection_consumes: "consumes N 1 parse \<Longrightarrow> consumes N 0 (assemblySection parse)"
  by (rule consumesI) (auto simp: assemblySection_def intro!: wp wp_consumes [OF parseMany2_consumes])

lemmas assemblySection_wp [wp] =
  bind_consumes [OF assemblySection_consumes [OF assemblyOutput_consumes]]
  bind_consumes [OF assemblySection_consumes [OF assemblyInput_consumes]]
  bind_consumes [OF assemblySection_consumes [OF parseString_consumes]]

lemma assembly_consumes: "consumes (Suc n) 1 (assembly R)"
  by (rule consumesI) (auto simp: assembly_def wp_norm Let_def intro!: wp split: option.splits)

lemmas assembly_wp [wp] = wp_consumes [OF assembly_consumes] bind_consumes [OF assembly_consumes]

lemma exprStatement_consumes: "consumes (Suc n) 1 (exprStatement R exprOnly)"
  by (rule consumesI) (auto simp: exprStatement_def wp_norm Let_def intro!: wp split: option.splits)

lemmas exprStatement_wp [wp] = wp_consumes [OF exprStatement_consumes] bind_consumes [OF exprStatement_consumes]

lemma statementBody_consumes: "consumes (Suc n) 1 (statementBody R exprOnly isComptime)"
  by (rule consumesI) (auto simp: statementBody_def wp_norm Let_def intro!: wp split: option.splits)

lemmas statementBody_wp [wp] = wp_consumes [OF statementBody_consumes] bind_consumes [OF statementBody_consumes]

lemma statement_consumes: "consumes (Suc n) 1 (statement R exprOnly)"
  by (rule consumesI) (auto simp: statement_def wp_norm Let_def intro!: wp split: option.splits)

lemmas statement_wp [wp] = wp_consumes [OF statement_consumes] bind_consumes [OF statement_consumes]

text \<open>Members and declarations.\<close>

lemma comptimeBlock_consumes: "consumes (Suc n) 1 (comptimeBlock R kind)"
proof -
  have loop: "consumes n 0 (whileP (notP (check [tsym ''}'']))
      (\<lambda>nodes. bindP (R (CComptime kind)) (\<lambda>m. retP (fst (insertAstNode nodes m)))) [])"
    by (rule consumes_while) (auto simp: wp_norm intro!: wp)
  show ?thesis
    by (rule consumesI) (auto simp: comptimeBlock_def thenP_bind intro!: wp bind_consumes [OF loop])
qed

lemmas comptimeBlock_wp [wp] = wp_consumes [OF comptimeBlock_consumes] bind_consumes [OF comptimeBlock_consumes]

lemma comptimeCondition_consumes: "consumes (Suc n) 1 (comptimeCondition R)"
  by (rule consumesI) (auto simp: comptimeCondition_def wp_norm Let_def intro!: wp split: option.splits)

lemmas comptimeCondition_wp [wp] = wp_consumes [OF comptimeCondition_consumes] bind_consumes [OF comptimeCondition_consumes]

lemma parseComptimeIf_consumes: "consumes (Suc n) 1 (parseComptimeIf R kind)"
  by (rule consumesI) (auto simp: parseComptimeIf_def wp_norm Let_def intro!: wp split: option.splits)

lemmas parseComptimeIf_wp [wp] = wp_consumes [OF parseComptimeIf_consumes] bind_consumes [OF parseComptimeIf_consumes]

lemma parseComptimeWhile_consumes: "consumes (Suc n) 1 (parseComptimeWhile R kind)"
  by (rule consumesI) (auto simp: parseComptimeWhile_def wp_norm Let_def intro!: wp split: option.splits)

lemmas parseComptimeWhile_wp [wp] = wp_consumes [OF parseComptimeWhile_consumes] bind_consumes [OF parseComptimeWhile_consumes]

lemma parseComptimeFor_consumes: "consumes (Suc n) 1 (parseComptimeFor R kind)"
  by (rule consumesI) (auto simp: parseComptimeFor_def wp_norm Let_def intro!: wp split: option.splits)

lemmas parseComptimeFor_wp [wp] = wp_consumes [OF parseComptimeFor_consumes] bind_consumes [OF parseComptimeFor_consumes]

lemma parseComptimeVarDecl_consumes: "consumes (Suc n) 1 (parseComptimeVarDecl R)"
  by (rule consumesI) (auto simp: parseComptimeVarDecl_def wp_norm Let_def intro!: wp split: option.splits)

lemmas parseComptimeVarDecl_wp [wp] = wp_consumes [OF parseComptimeVarDecl_consumes] bind_consumes [OF parseComptimeVarDecl_consumes]

lemma comptimeWith_consumes:
  assumes "consumes (Suc n) 1 parser"
  shows "consumes (Suc n) 1 (comptimeWith R kind parser)"
  by (rule consumesI) (auto simp: comptimeWith_def wp_norm Let_def intro!: wp wp_consumes [OF assms])

lemma bitFieldError_consumes: "consumes (Suc n) 0 (bitFieldError b)"
  by (rule consumesI) (auto simp: bitFieldError_def wp_norm Let_def intro!: wp split: option.splits)

lemmas bitFieldError_wp [wp] = wp_consumes [OF bitFieldError_consumes] bind_consumes [OF bitFieldError_consumes]

lemma parseStructField_consumes: "consumes (Suc n) 1 (parseStructField R p)"
  by (rule consumesI) (auto simp: parseStructField_def wp_norm Let_def intro!: wp split: option.splits)

lemmas parseStructField_wp [wp] = wp_consumes [OF parseStructField_consumes] bind_consumes [OF parseStructField_consumes]

lemma aliasDecl_consumes: "consumes (Suc n) 1 (aliasDecl R p e)"
  by (rule consumesI) (auto simp: aliasDecl_def wp_norm Let_def split: prod.splits intro!: wp split: option.splits)

lemmas aliasDecl_wp [wp] = wp_consumes [OF aliasDecl_consumes] bind_consumes [OF aliasDecl_consumes]

lemma macroParams_consumes: "consumes (Suc n) 0 (macroParams)"
  unfolding macroParams_def by (rule consumes_loop) (auto simp: wp_norm Let_def intro!: wp split: prod.splits)

lemmas macroParams_wp [wp] = wp_consumes [OF macroParams_consumes] bind_consumes [OF macroParams_consumes]

lemma macroBody_consumes: "consumes n 0 (macroBody R)"
  by (rule consumesI) (auto simp: macroBody_def wp_norm Let_def intro!: wp)

lemmas macroBody_wp [wp] = wp_consumes [OF macroBody_consumes] bind_consumes [OF macroBody_consumes]

lemma macroDecl_consumes: "consumes (Suc n) 1 (macroDecl R p)"
  by (rule consumesI) (auto simp: macroDecl_def wp_norm Let_def split: prod.splits intro!: wp split: option.splits)

lemmas macroDecl_wp [wp] = wp_consumes [OF macroDecl_consumes] bind_consumes [OF macroDecl_consumes]

lemma finishMember_consumes: "consumes (Suc n) 0 (finishMember attrs c m)"
  by (rule consumesI) (auto simp: finishMember_def wp_norm Let_def intro!: wp split: option.splits)

lemmas finishMember_wp [wp] = wp_consumes [OF finishMember_consumes] bind_consumes [OF finishMember_consumes]

lemma parseMemberBody_consumes: "consumes (Suc n) 1 (parseMemberBody R attrs p v c)"
  by (rule consumesI) (auto simp: parseMemberBody_def wp_norm Let_def intro!: wp split: option.splits)

lemmas parseMemberBody_wp [wp] = wp_consumes [OF parseMemberBody_consumes] bind_consumes [OF parseMemberBody_consumes]

lemma parseClassOrStructMember_consumes: "consumes (Suc n) 1 (parseClassOrStructMember R)"
  by (rule consumesI) (auto simp: parseClassOrStructMember_def wp_norm Let_def intro!: wp split: option.splits)

lemmas parseClassOrStructMember_wp [wp] = wp_consumes [OF parseClassOrStructMember_consumes] bind_consumes [OF parseClassOrStructMember_consumes]

lemma parseInterfaceMember_consumes: "consumes (Suc n) 1 (parseInterfaceMember R)"
  unfolding parseInterfaceMember_def ifP_bind by (rule consumesI) (auto intro!: wp)

lemmas parseInterfaceMember_wp [wp] = wp_consumes [OF parseInterfaceMember_consumes] bind_consumes [OF parseInterfaceMember_consumes]

lemma annotation_consumes: "consumes (Suc n) 1 (annotation R)"
  by (rule consumesI) (auto simp: annotation_def wp_norm Let_def intro!: wp split: option.splits)

lemmas annotation_wp [wp] = wp_consumes [OF annotation_consumes] bind_consumes [OF annotation_consumes]

lemma annotations_consumes: "consumes (Suc n) 0 (annotations R)"
  unfolding annotations_def by (rule consumes_while) (auto simp: wp_norm intro!: wp)

lemmas annotations_wp [wp] = wp_consumes [OF annotations_consumes] bind_consumes [OF annotations_consumes]

lemma membersBlock_consumes: "consumes n 1 (membersBlock R kind)"
proof -
  have loop: "consumes n 0 (whileP (notP (check [tsym ''}'', tokEoF]))
      (\<lambda>members. bindP (R (CComptime kind)) (\<lambda>m. retP (listAddAstNode members m))) [])"
    by (rule consumes_while) (auto simp: wp_norm intro!: wp)
  show ?thesis
    by (rule consumesI) (auto simp: membersBlock_def thenP_bind intro!: wp bind_consumes [OF loop])
qed

lemmas membersBlock_wp [wp] = wp_consumes [OF membersBlock_consumes] bind_consumes [OF membersBlock_consumes]

lemma classBases_consumes: "consumes (Suc n) 0 (classBases R isClass)"
  by (rule consumesI) (auto simp: classBases_def wp_norm Let_def intro!: wp split: option.splits)

lemmas classBases_wp [wp] = wp_consumes [OF classBases_consumes] bind_consumes [OF classBases_consumes]

lemma classOrStructBody_consumes: "consumes (Suc n) 1 (classOrStructBody R p e)"
  by (rule consumesI) (auto simp: classOrStructBody_def wp_norm Let_def split: prod.splits intro!: wp split: option.splits)

lemmas classOrStructBody_wp [wp] = wp_consumes [OF classOrStructBody_consumes] bind_consumes [OF classOrStructBody_consumes]

lemma classOrStructDecl_consumes: "consumes (Suc n) 1 (classOrStructDecl R p e)"
  by (rule consumesI) (auto simp: classOrStructDecl_def wp_norm Let_def intro!: wp split: option.splits)

lemmas classOrStructDecl_wp [wp] = wp_consumes [OF classOrStructDecl_consumes] bind_consumes [OF classOrStructDecl_consumes]

lemma interfaceDecl_consumes: "consumes (Suc n) 1 (interfaceDecl R p)"
  by (rule consumesI) (auto simp: interfaceDecl_def wp_norm Let_def intro!: wp split: option.splits)

lemmas interfaceDecl_wp [wp] = wp_consumes [OF interfaceDecl_consumes] bind_consumes [OF interfaceDecl_consumes]

lemma enumOption_consumes: "consumes (Suc n) 1 (enumOption R)"
  by (rule consumesI) (auto simp: enumOption_def wp_norm Let_def intro!: wp split: option.splits)

lemmas enumOption_wp [wp] = wp_consumes [OF enumOption_consumes] bind_consumes [OF enumOption_consumes]

lemma enumDecl_consumes: "consumes (Suc n) 1 (enumDecl R p)"
  by (rule consumesI) (auto simp: enumDecl_def wp_norm Let_def intro!: wp bind_consumes [OF parseAtLeastOne_consumes [OF enumOption_consumes]] split: option.splits)

lemmas enumDecl_wp [wp] = wp_consumes [OF enumDecl_consumes] bind_consumes [OF enumDecl_consumes]

lemma defineDecl_consumes: "consumes (Suc n) 1 (defineDecl R)"
  by (rule consumesI) (auto simp: defineDecl_def wp_norm Let_def intro!: wp bind_consumes [OF parseMany_consumes [OF parseIdentifierWithAlias_consumes]] split: option.splits)

lemmas defineDecl_wp [wp] = wp_consumes [OF defineDecl_consumes] bind_consumes [OF defineDecl_consumes]

lemma exceptionDecl_consumes: "consumes (Suc n) 1 (exceptionDecl R f)"
  by (rule consumesI) (auto simp: exceptionDecl_def wp_norm Let_def intro!: wp split: option.splits)

lemmas exceptionDecl_wp [wp] = wp_consumes [OF exceptionDecl_consumes] bind_consumes [OF exceptionDecl_consumes]

lemma skipTestDecl_consumes: "consumes (Suc n) 0 (skipTestDecl)"
  by (rule consumesI) (auto simp: skipTestDecl_def wp_norm Let_def intro!: wp split: option.splits)

lemmas skipTestDecl_wp [wp] = wp_consumes [OF skipTestDecl_consumes] bind_consumes [OF skipTestDecl_consumes]

lemma testContextDeclaration_consumes: "consumes n 1 (testContextDeclaration R)"
  by (rule consumesI) (auto simp: testContextDeclaration_def intro!: wp)

lemma testDecl_consumes: "consumes (Suc n) 1 (testDecl R)"
  by (rule consumesI) (auto simp: testDecl_def wp_norm Let_def intro!: wp bind_consumes [OF parseManyNoSeparator_consumes [OF testContextDeclaration_consumes]] split: option.splits)

lemmas testDecl_wp [wp] = wp_consumes [OF testDecl_consumes] bind_consumes [OF testDecl_consumes]

lemma parseCCode_consumes: "consumes (Suc n) 1 (parseCCode)"
  by (rule consumesI) (auto simp: parseCCode_def wp_norm Let_def intro!: wp
      bind_consumes [OF parseMany_consumes [OF parseString_consumes]] wp_consumes [OF parseMany_consumes [OF parseString_consumes]] split: option.splits)

lemmas parseCCode_wp [wp] = wp_consumes [OF parseCCode_consumes] bind_consumes [OF parseCCode_consumes]

lemma declExtern_consumes: "consumes (Suc n) 0 (declExtern)"
  by (rule consumesI) (auto simp: declExtern_def wp_norm Let_def intro!: wp split: option.splits)

lemmas declExtern_wp [wp] = wp_consumes [OF declExtern_consumes] bind_consumes [OF declExtern_consumes]

lemma declPublicCheck_consumes: "consumes (Suc n) 0 (declPublicCheck p)"
  by (rule consumesI) (auto simp: declPublicCheck_def wp_norm Let_def intro!: wp split: option.splits)

lemmas declPublicCheck_wp [wp] = wp_consumes [OF declPublicCheck_consumes] bind_consumes [OF declPublicCheck_consumes]

lemma declarationBody_consumes: "consumes (Suc n) 1 (declarationBody R attrs p e)"
  by (rule consumesI) (auto simp: declarationBody_def wp_norm Let_def intro!: wp split: option.splits)

lemmas declarationBody_wp [wp] = wp_consumes [OF declarationBody_consumes] bind_consumes [OF declarationBody_consumes]

lemma declarationP_consumes: "consumes (Suc n) 1 (declarationP R)"
  by (rule consumesI) (auto simp: declarationP_def wp_norm Let_def intro!: wp split: option.splits)

lemmas declarationP_wp [wp] = wp_consumes [OF declarationP_consumes] bind_consumes [OF declarationP_consumes]

lemma comptime_consumes: "consumes (Suc n) 1 (comptime R kind)"
  unfolding comptime_def
  by (cases kind)
    (simp_all del: One_nat_def add: comptimeWith_consumes caseStatement_consumes matchCaseStatement_consumes
      parseClassOrStructMember_consumes parseInterfaceMember_consumes declarationP_consumes)

lemmas comptime_wp [wp] = wp_consumes [OF comptime_consumes] bind_consumes [OF comptime_consumes]

text \<open>Imports and the program.\<close>

lemma parseImportEntity_consumes: "consumes (Suc n) 1 (parseImportEntity)"
  by (rule consumesI) (auto simp: parseImportEntity_def wp_norm Let_def intro!: wp split: option.splits)

lemmas parseImportEntity_wp [wp] = wp_consumes [OF parseImportEntity_consumes] bind_consumes [OF parseImportEntity_consumes]

lemma parseModuleDecl_consumes: "consumes (Suc n) 0 (parseModuleDecl tag)"
  by (rule consumesI) (auto simp: parseModuleDecl_def wp_norm Let_def intro!: wp split: option.splits)

lemmas parseModuleDecl_wp [wp] = wp_consumes [OF parseModuleDecl_consumes] bind_consumes [OF parseModuleDecl_consumes]

lemma skipImportTestDecl_consumes: "consumes (Suc n) 1 (skipImportTestDecl)"
proof -
  have loop: "consumes (Suc n) 0 (loopP (\<lambda>_. ifP (match [tokEoF, tsym ''}'']) (breakP ())
      (bindP advance (\<lambda>_. continueP ()))) ())"
    by (rule consumes_loop) (auto intro!: wp)
  show ?thesis
    by (rule consumesI) (auto simp: skipImportTestDecl_def wp_norm intro!: wp bind_consumes [OF loop])
qed

lemmas skipImportTestDecl_wp [wp] = wp_consumes [OF skipImportTestDecl_consumes] bind_consumes [OF skipImportTestDecl_consumes]

lemma importPlugin_consumes: "consumes (Suc n) 1 (importPlugin)"
  by (rule consumesI) (auto simp: importPlugin_def wp_norm Let_def split: option.splits intro!: wp split: option.splits)

lemmas importPlugin_wp [wp] = wp_consumes [OF importPlugin_consumes] bind_consumes [OF importPlugin_consumes]

lemma importEntities_consumes: "consumes (Suc n) 0 (importEntities)"
  by (rule consumesI) (auto simp: importEntities_def wp_norm Let_def intro!: wp bind_consumes [OF parseAtLeastOne_consumes [OF parseImportEntity_consumes]] split: option.splits)

lemmas importEntities_wp [wp] = wp_consumes [OF importEntities_consumes] bind_consumes [OF importEntities_consumes]

lemma parseImportDecl_consumes: "consumes (Suc n) 1 (parseImportDecl R)"
  by (rule consumesI) (auto simp: parseImportDecl_def wp_norm Let_def intro!: wp split: option.splits)

lemmas parseImportDecl_wp [wp] = wp_consumes [OF parseImportDecl_consumes] bind_consumes [OF parseImportDecl_consumes]

lemma parseCBuild_consumes: "consumes (Suc n) 1 (parseCBuild)"
  by (rule consumesI) (auto simp: parseCBuild_def wp_norm Let_def intro!: wp split: option.splits)

lemmas parseCBuild_wp [wp] = wp_consumes [OF parseCBuild_consumes] bind_consumes [OF parseCBuild_consumes]

lemma parseTopLevelDecl_consumes: "consumes (Suc n) 1 (parseTopLevelDecl R)"
  by (rule consumesI) (auto simp: parseTopLevelDecl_def wp_norm Let_def intro!: wp split: option.splits)

lemmas parseTopLevelDecl_wp [wp] = wp_consumes [OF parseTopLevelDecl_consumes] bind_consumes [OF parseTopLevelDecl_consumes]

lemma topLevelBlock_consumes: "consumes (Suc n) 1 (topLevelBlock R)"
  by (rule consumesI) (auto simp: topLevelBlock_def wp_norm Let_def intro!: wp bind_consumes [OF parseManyNoSeparator_consumes [OF parseTopLevelDecl_consumes]] split: option.splits)

lemmas topLevelBlock_wp [wp] = wp_consumes [OF topLevelBlock_consumes] bind_consumes [OF topLevelBlock_consumes]

lemma skipBlock_consumes: "consumes (Suc n) 1 (skipBlock)"
  by (rule consumesI) (auto simp: skipBlock_def wp_norm Let_def intro!: wp split: option.splits)

lemmas skipBlock_wp [wp] = wp_consumes [OF skipBlock_consumes] bind_consumes [OF skipBlock_consumes]

lemma conditionalTopLevelDecl_consumes: "consumes (Suc n) 1 (conditionalTopLevelDecl R)"
proof -
  have loop: "consumes (Suc n) 0 (whileP (match [kw ''else''])
      (\<lambda>_. bindP (ifP (match [tsym ''##'']) (skipUntil (tsym ''{'')) (retP True)) (\<lambda>_. skipBlock)) ())"
    by (rule consumes_while) (auto simp: wp_norm intro!: wp wp_skipUntil)
  show ?thesis
    by (rule consumesI)
      (auto simp: conditionalTopLevelDecl_def wp_norm intro!: wp bind_consumes [OF loop] split: list.splits)
qed

lemmas conditionalTopLevelDecl_wp [wp] = wp_consumes [OF conditionalTopLevelDecl_consumes] bind_consumes [OF conditionalTopLevelDecl_consumes]

lemma dispatch_consumes: "consumes (Suc n) 1 (dispatch R c)"
  by (cases c)
    (simp_all del: One_nat_def add: dispatch_def expression_consumes ternary_consumes binary_consumes prefix_consumes primaryBase_consumes
      parseType_consumes statement_consumes block_consumes classOrStructBody_consumes comptime_consumes
      parseComptimeIf_consumes conditionalTopLevelDecl_consumes)

lemma topLevelStep_wp:
  assumes "len P < Suc n" "len P \<le> l" "len P \<le> m" "0 < m"
  shows "wp l (topLevelStep R topLevel) (turn 0 m) P"
  using assms unfolding topLevelStep_def
  by (auto simp: wp_norm simp del: length_greater_0_conv intro!: wp)

lemma packageLoop_consumes: "consumes (Suc n) 0 (packageLoop R)"
  unfolding packageLoop_def
  by (rule consumes_loop) (auto simp: wp_norm simp del: length_greater_0_conv intro!: wp topLevelStep_wp curTok_eof)

lemma moduleTopLoop_consumes: "consumes (Suc n) 0 (moduleTopLoop R)"
  unfolding moduleTopLoop_def
  by (rule consumes_loop)
    (auto simp: wp_norm simp del: length_greater_0_conv intro!: wp topLevelStep_wp curTok_eof)

lemma declsLoop_consumes: "consumes (Suc n) 0 (declsLoop R)"
  unfolding declsLoop_def
proof (rule consumes_loop)
  fix decls P
  assume *: "len P < Suc n"
  show "wp (len P) (ifP isEoF (breakP decls)
     (tryCatch (bindP (comptime R KComptimeDeclaration) (\<lambda>decl. continueP (listAddAstNode decls decl)))
        (thenP synchronize (continueP decls)))) (turn 0 (len P)) P"
    using * curTok_eof [of P] by (auto simp: wp_norm simp del: length_greater_0_conv intro!: wp)
qed

lemma parseProgram_consumes: "consumes (Suc n) 0 (parseProgram R)"
  by (rule consumesI)
    (auto simp: parseProgram_def wp_norm
      intro!: wp bind_consumes [OF packageLoop_consumes] bind_consumes [OF moduleTopLoop_consumes]
        bind_consumes [OF declsLoop_consumes] split: option.splits)

end

section \<open>The closed recursion\<close>

lemma runParser_calls: "parser_calls (runParser n) n"
proof (induction n)
  case 0
  show ?case by (rule parser_calls.intro) (simp add: consumes_def)
next
  case (Suc n)
  then show ?case by (intro parser_calls.intro) (simp del: One_nat_def add: parser_calls.dispatch_consumes)
qed

interpretation run: parser_calls "runParser n" n for n
  by (rule runParser_calls)

lemma consumes_NoFuel: "consumes N k p \<Longrightarrow> len P < N \<Longrightarrow> p P \<noteq> NoFuel"
  by (auto simp: consumes_def wp_def dest!: spec [of _ P])

text \<open>A loop is left by a turn that returns \<open>Inr\<close>.\<close>

lemma iterP_exit:
  assumes "\<And>s P r P'. step s P = Ok (Inr r) P' \<Longrightarrow> E r P'"
  shows "iterP n step s P = Ok a P' \<Longrightarrow> E a P'"
proof (induction n arbitrary: s P)
  case (Suc n)
  from Suc.prems obtain r Q where step: "step s P = Ok r Q"
      "(case r of Inl s \<Rightarrow> iterP n step s | Inr a \<Rightarrow> retP a) Q = Ok a P'"
    by (auto simp: bindP_def split: presult.splits)
  show ?case
  proof (cases r)
    case (Inl s')
    with step(2) show ?thesis by (auto intro: Suc.IH)
  next
    case (Inr b)
    with step assms show ?thesis by (auto simp: retP_def)
  qed
qed simp

lemma loopP_exit:
  assumes "loopP step s P = Ok a P'" "\<And>s P r P'. step s P = Ok (Inr r) P' \<Longrightarrow> E r P'"
  shows "E a P'"
proof -
  have "iterP (Suc (len P)) step s P = Ok a P'" using assms(1) by (simp only: loopP_def)
  then show ?thesis by (rule iterP_exit [rotated]) (rule assms(2))
qed

lemma declsLoop_exit:
  assumes "declsLoop R P = Ok decls P'"
  shows "pt_tag (curTok P') = tokEoF"
  using assms unfolding declsLoop_def
  by (rule loopP_exit)
    (auto simp: ifP_def bindP_def isEoF_def check_def current_def getP_def retP_def breakP_def continueP_def tryCatch_def
      thenP_def split: presult.splits if_splits)

lemma packageLoop_exit:
  assumes "packageLoop R P = Ok (Some t) P'"
  shows "pt_tag (curTok P') = tokEoF"
proof -
  have "case Some t of None \<Rightarrow> True | Some _ \<Rightarrow> pt_tag (curTok P') = tokEoF"
    using assms unfolding packageLoop_def
    by (rule loopP_exit)
      (auto simp: ifP_def bindP_def isEoF_def check_def current_def getP_def retP_def breakP_def continueP_def tryCatch_def
        catchAbort_def topLevelStep_def notP_def parserError_def thenP_def split: presult.splits if_splits)
  then show ?thesis by simp
qed

lemma parseProgram_exit:
  assumes "parseProgram R P = Ok program P'"
  shows "program = [] \<or> pt_tag (curTok P') = tokEoF"
  using assms unfolding parseProgram_def
  by (auto simp: bindP_def thenP_def modP_def getP_def retP_def split: presult.splits if_splits option.splits
      dest: declsLoop_exit packageLoop_exit)

text \<open>C3: The parser returns on every list of tokens. With one nested call more than there are tokens the
  recursion never reaches its bound, nor does any loop, for a whole program as for each function that
  is called recursively; and a program that is returned has been read to the end of the file, whatever
  errors were reported on the way.\<close>

theorem parser_returns:
  "runParser (Suc (length toks)) c (makeParser driver test toks) \<noteq> NoFuel \<and>
   (case parseProgram (runParser (Suc (length toks))) (makeParser driver test toks) of
      Ok program P \<Rightarrow> program = [] \<or> pt_tag (curTok P) = tokEoF
    | Throw _ \<Rightarrow> True | Abort _ \<Rightarrow> True | Crash \<Rightarrow> True
    | NoFuel \<Rightarrow> False)"
proof -
  let ?P = "makeParser driver test toks" and ?n = "Suc (length toks)"
  have l: "len ?P < ?n" by (simp add: makeParser_def)
  have "runParser ?n c ?P \<noteq> NoFuel"
    by (rule consumes_NoFuel [OF run.calls l])
  moreover have "parseProgram (runParser ?n) ?P \<noteq> NoFuel"
    by (rule consumes_NoFuel [OF run.parseProgram_consumes less_SucI [OF l]])
  ultimately show ?thesis
    by (auto dest: parseProgram_exit split: presult.splits)
qed

end
