(* ===== verification/Cxy_ParserPrint.thy ===== *)
theory Cxy_ParserPrint
  imports Cxy_ParserTotal
begin

text \<open>
  Expressions, printed as tokens with no parentheses but those of the expression itself, and the tree
  the parser has to build for them. The level of an expression is the weakest operator at its top;
  an operand may have at most the level its place allows. The parser reads every such expression back:
  the precedences of the table, the left associativity of the binary operators and the right
  associativity of the assignments and of the ternary operator are what the levels say.
\<close>

section \<open>Expressions\<close>

datatype expr =
  EId cstring
| EInt u128
| ENeg u128
| EBool bool
| ENull
| EStr cstring
| EChar u32
| EGroup expr
| EArray "expr list"
| ECall expr "expr list"
| EIndex expr expr
| EPre Operator expr
| EPost Operator expr
| EBin Operator expr expr
| EAsg Operator expr expr
| ETern expr expr expr

definition tagText :: "TokenTag \<Rightarrow> cstring" where
  "tagText t = (case t of tokSymbol s \<Rightarrow> s | tokKeyword s \<Rightarrow> s | _ \<Rightarrow> [])"

definition tk :: "TokenTag \<Rightarrow> ptoken" where
  "tk t = \<lparr>pt_tag = t, pt_value = NoValue, pt_text = tagText t\<rparr>"

abbreviation stk :: "cstring \<Rightarrow> ptoken" where "stk s \<equiv> tk (tsym s)"

definition idToken :: "cstring \<Rightarrow> ptoken" where
  "idToken name = \<lparr>pt_tag = tokIdent, pt_value = NoValue, pt_text = name\<rparr>"

definition intToken :: "u128 \<Rightarrow> ptoken" where
  "intToken v = \<lparr>pt_tag = tokIntLiteral, pt_value = IntValue v, pt_text = []\<rparr>"

definition charToken :: "u32 \<Rightarrow> ptoken" where
  "charToken v = \<lparr>pt_tag = tokCharLiteral, pt_value = CharValue v, pt_text = []\<rparr>"

definition stringToken :: "cstring \<Rightarrow> ptoken" where
  "stringToken s = \<lparr>pt_tag = tokStringLiteral, pt_value = NoValue, pt_text = s\<rparr>"

text \<open>The tokens of the tables.\<close>

definition binTag :: "Operator \<Rightarrow> TokenTag" where
  "binTag k = (case lookup_by fst (\<lambda>(_, _, t, _). t) binaryExprList k of Some t \<Rightarrow> t | None \<Rightarrow> tokEoF)"

definition asgTag :: "Operator \<Rightarrow> TokenTag" where
  "asgTag k = (case lookup_by fst assignToken assignExprList k of Some t \<Rightarrow> t | None \<Rightarrow> tokEoF)"

definition preTag :: "Operator \<Rightarrow> TokenTag" where
  "preTag k = (case lookup_by fst (\<lambda>(_, t, _). t) prefixExprList k of Some t \<Rightarrow> t | None \<Rightarrow> tokEoF)"

definition postTag :: "Operator \<Rightarrow> TokenTag" where
  "postTag k = (if k = ''PostInc'' then tsym ''++'' else tsym ''--'')"

fun commas :: "ptoken list list \<Rightarrow> ptoken list" where
  "commas [] = []"
| "commas [ts] = ts"
| "commas (ts # us # r) = ts @ stk '','' # commas (us # r)"

fun printE :: "expr \<Rightarrow> ptoken list" where
  "printE (EId name) = [idToken name]"
| "printE (EInt v) = [intToken v]"
| "printE (ENeg v) = [stk ''-'', intToken v]"
| "printE (EBool b) = [tk (kw (if b then ''true'' else ''false''))]"
| "printE ENull = [tk (kw ''null'')]"
| "printE (EStr s) = [stringToken s]"
| "printE (EChar c) = [charToken c]"
| "printE (EGroup e) = stk ''('' # printE e @ [stk '')'']"
| "printE (EArray es) = stk ''['' # commas (map printE es) @ [stk '']'']"
| "printE (ECall f es) = printE f @ stk ''('' # commas (map printE es) @ [stk '')'']"
| "printE (EIndex a i) = printE a @ stk ''.['' # printE i @ [stk '']'']"
| "printE (EPre k e) = tk (preTag k) # printE e"
| "printE (EPost k e) = printE e @ [tk (postTag k)]"
| "printE (EBin k l r) = printE l @ tk (binTag k) # printE r"
| "printE (EAsg k l r) = printE l @ tk (asgTag k) # printE r"
| "printE (ETern c a b) = printE c @ stk ''?'' # printE a @ stk '':'' # printE b"

fun astOf :: "expr \<Rightarrow> AstPtr" where
  "astOf (EId name) = pathNode (mkNode ''PathElem'' flgNone
     [(''name'', FName (Some name)), (''args'', FNode []), (''isKeyword'', FBool False)])"
| "astOf (EInt v) = integerNode (intToken v) False"
| "astOf (ENeg v) = integerNode (intToken v) True"
| "astOf (EBool b) = mkNode ''BoolLit'' flgNone [(''value'', FBool b)]"
| "astOf ENull = mkNode ''NullLit'' flgNone []"
| "astOf (EStr s) = mkNode ''StringLit'' flgNone [(''value'', FName (Some (getStringLiteral (stringToken s))))]"
| "astOf (EChar c) = mkNode ''CharLit'' flgNone [(''value'', FChar c)]"
| "astOf (EGroup e) = mkNode ''GroupExpr'' flgNone [(''expr'', FNode (astOf e))]"
| "astOf (EArray es) = mkNode ''ArrayExpr'' flgNone [(''elements'', FNode (concat (map astOf es)))]"
| "astOf (ECall f es) = callNode (astOf f) (concat (map astOf es))"
| "astOf (EIndex a i) = mkNode ''IndexExpr'' flgNone [(''target'', FNode (astOf a)), (''index'', FNode (astOf i))]"
| "astOf (EPre k e) =
     (if k = ''Ptrof'' then unaryNode ''PointerOf'' k False (astOf e)
      else if k = ''Refof'' then unaryNode ''ReferenceOf'' k True (astOf e)
      else unaryNode ''UnaryExpr'' k True (astOf e))"
| "astOf (EPost k e) = unaryNode ''UnaryExpr'' k False (astOf e)"
| "astOf (EBin k l r) = binaryNode ''BinaryExpr'' k (astOf l) (astOf r)"
| "astOf (EAsg k l r) = binaryNode ''AssignExpr'' k (astOf l) (astOf r)"
| "astOf (ETern c a b) = ternaryNode (astOf c) (astOf a) (astOf b)"

text \<open>0 for what a postfix operator may follow, 1 for the operands of prefix operators, the precedence of a
  binary operator, and above these the assignments and the ternary operator.\<close>

fun level :: "expr \<Rightarrow> nat" where
  "level (EPre _ _) = 1"
| "level (EPost _ _) = 1"
| "level (ENeg _) = 1"
| "level (EBin k _ _) = getBinaryOpPrecedence k"
| "level (EAsg _ _ _) = 14"
| "level (ETern _ _ _) = 15"
| "level _ = 0"

text \<open>Not a name between back quotes.\<close>

definition plainName :: "cstring \<Rightarrow> bool" where
  "plainName s = (getTokenString (idToken s) = s)"

fun wellFormed :: "expr \<Rightarrow> bool" where
  "wellFormed (EId name) = plainName name"
| "wellFormed (EGroup e) = wellFormed e"
| "wellFormed (EArray es) = list_all wellFormed es"
| "wellFormed (ECall f es) = (level f = 0 \<and> wellFormed f \<and> list_all wellFormed es)"
| "wellFormed (EIndex a i) = (level a = 0 \<and> wellFormed a \<and> wellFormed i)"
| "wellFormed (EPre k e) =
     (k \<in> set (map fst prefixExprList) - {''Spread''} \<and> level e \<le> 1 \<and> wellFormed e \<and>
      (k \<in> {''Minus'', ''Plus''} \<longrightarrow> pt_tag (hd (printE e)) \<noteq> tokIntLiteral))"
| "wellFormed (EPost k e) = (k \<in> {''PostInc'', ''PostDec''} \<and> level e = 0 \<and> wellFormed e)"
| "wellFormed (EBin k l r) =
     (k \<in> set (map fst binaryExprList) \<and> level l \<le> getBinaryOpPrecedence k \<and> level r < getBinaryOpPrecedence k \<and>
      wellFormed l \<and> wellFormed r)"
| "wellFormed (EAsg k l r) = (k \<in> set (map fst assignExprList) \<and> level l \<le> 1 \<and> wellFormed l \<and> wellFormed r)"
| "wellFormed (ETern c a b) = (level c < 14 \<and> wellFormed c \<and> wellFormed a \<and> wellFormed b)"
| "wellFormed _ = True"

section \<open>Running the parser on given tokens\<close>

text \<open>A state with its previous token and the tokens ahead.\<close>

definition st :: "Parser \<Rightarrow> ptoken \<Rightarrow> ptoken list \<Rightarrow> Parser" where
  "st P x ts = P\<lparr>P_prev := x, P_ahead := ts\<rparr>"

definition nextTag :: "ptoken list \<Rightarrow> TokenTag" where
  "nextTag ts = (case ts of [] \<Rightarrow> tokEoF | t # _ \<Rightarrow> pt_tag t)"

named_theorems ev \<open>equations that run a parser on a state\<close>

lemma st_simps [simp]:
  "P_ahead (st P x ts) = ts" "P_prev (st P x ts) = x" "curTok (st P x (t # ts)) = t"
  "pt_tag (curTok (st P x ts)) = nextTag ts"
  "nextTag (t # ts) = pt_tag t" "nextTag [] = tokEoF"
  by (simp_all add: st_def curTok_def nextTag_def eofToken_def split: list.splits)

lemma nextTag_append [simp]: "ts \<noteq> [] \<Longrightarrow> nextTag (ts @ rs) = pt_tag (hd ts)"
  by (cases ts) simp_all

lemma pt_tags [simp]:
  "pt_tag (tk t) = t" "pt_tag (idToken n) = tokIdent" "pt_tag (intToken v) = tokIntLiteral"
  "pt_tag (charToken c) = tokCharLiteral" "pt_tag (stringToken s) = tokStringLiteral"
  by (simp_all add: tk_def idToken_def intToken_def charToken_def stringToken_def)

lemma bindP_ev [ev]:
  "bindP p f S = (case p S of Ok a P \<Rightarrow> f a P | Throw P \<Rightarrow> Throw P | Abort P \<Rightarrow> Abort P | Crash \<Rightarrow> Crash | NoFuel \<Rightarrow> NoFuel)"
  by (simp add: bindP_def)

lemma ifP_ev [ev]:
  "ifP c p q S = (case c S of Ok b P \<Rightarrow> (if b then p P else q P) | Throw P \<Rightarrow> Throw P | Abort P \<Rightarrow> Abort P | Crash \<Rightarrow> Crash | NoFuel \<Rightarrow> NoFuel)"
  by (simp add: ifP_def bindP_def split: presult.splits)

lemma thenP_ev [ev]: "thenP p q S = bindP p (\<lambda>_. q) S"
  by (simp add: thenP_def)

lemma primitives_ev [ev]:
  "retP a S = Ok a S"
  "current S = Ok (curTok S) S"
  "advance (st P x (t # ts)) = Ok t (st P t ts)"
  "check tags (st P x ts) = Ok (nextTag ts \<in> set tags) (st P x ts)"
  "checkPeek (Suc 0) tags (st P x (t # ts)) = Ok (nextTag ts \<in> set tags) (st P x (t # ts))"
  "checkPeek 2 tags (st P x (t # u # ts)) = Ok (nextTag ts \<in> set tags) (st P x (t # u # ts))"
  by (simp_all add: retP_def current_def getP_def advance_def check_def checkPeek_def peek_def bindP_def st_def nextTag_def
      nth_append eofToken_def curTok_def split: list.splits)

lemma connectives_ev [ev]:
  "notP c S = (case c S of Ok b P \<Rightarrow> Ok (\<not> b) P | Throw P \<Rightarrow> Throw P | Abort P \<Rightarrow> Abort P | Crash \<Rightarrow> Crash | NoFuel \<Rightarrow> NoFuel)"
  "andP c d S = ifP c d (retP False) S"
  "orP c d S = ifP c (retP True) d S"
  by (simp_all add: notP_def andP_def orP_def bindP_def retP_def)

lemma match_ev [ev]:
  "nextTag ts \<notin> set tags \<Longrightarrow> match tags (st P x ts) = Ok False (st P x ts)"
  "pt_tag t \<in> set tags \<Longrightarrow> match tags (st P x (t # us)) = Ok True (st P t us)"
  by (simp_all add: match_def ev)

lemma consume0_ev [ev]: "pt_tag t = tag \<Longrightarrow> consume0 tag (st P x (t # ts)) = Ok t (st P t ts)"
  by (simp add: consume0_def consume_def ev)

lemma isEoF_ev [ev]: "isEoF (st P x ts) = Ok (nextTag ts = tokEoF) (st P x ts)"
  by (simp add: isEoF_def ev)

lemma modHead_ev [ev]: "modHead f [n] S = Ok [f n] S"
  by (simp add: modHead_def retP_def)

lemma loop_ev [ev]: "continueP s S = Ok (Inl s) S" "breakP a S = Ok (Inr a) S"
  by (simp_all add: continueP_def breakP_def retP_def)

text \<open>A loop whose turns consume a token is its first turn and the loop again.\<close>

lemma iterP_fuel:
  assumes "\<And>s P. len P < N \<Longrightarrow> wp (len P) (step s) (turn 0 (len P)) P"
  shows "len P < N \<Longrightarrow> len P < j \<Longrightarrow> len P < k \<Longrightarrow> iterP j step s P = iterP k step s P"
proof (induction j arbitrary: k s P)
  case (Suc j)
  obtain k' where k: "k = Suc k'" using Suc.prems(3) by (cases k) auto
  have "iterP j step s' P' = iterP k' step s' P'" if "step s P = Ok (Inl s') P'" for s' P'
  proof -
    have "len P' < len P" using assms [OF Suc.prems(1), of s] that by (simp add: wp_def turn_def)
    then show ?thesis using Suc.prems k by (intro Suc.IH) auto
  qed
  then show ?case by (auto simp: k bindP_def split: presult.splits sum.splits)
qed simp

lemma loopP_unfold:
  assumes "\<And>s P. len P < N \<Longrightarrow> wp (len P) (step s) (turn 0 (len P)) P" "len P < N"
  shows "loopP step s P =
    (case step s P of
       Ok (Inl s') P' \<Rightarrow> loopP step s' P' | Ok (Inr a) P' \<Rightarrow> Ok a P'
     | Throw P \<Rightarrow> Throw P | Abort P \<Rightarrow> Abort P | Crash \<Rightarrow> Crash | NoFuel \<Rightarrow> NoFuel)"
proof -
  have "iterP (len P) step s' P' = loopP step s' P'" if "step s P = Ok (Inl s') P'" for s' P'
  proof -
    have "len P' < len P" using assms(1) [OF assms(2), of s] that by (simp add: wp_def turn_def)
    then show ?thesis unfolding loopP_def using assms(2) by (intro iterP_fuel [OF assms(1)]) auto
  qed
  then show ?thesis by (auto simp: loopP_def bindP_def retP_def split: presult.splits sum.splits)
qed

lemma loopP_turn:
  assumes "\<And>s P. len P < N \<Longrightarrow> wp (len P) (step s) (turn 0 (len P)) P" "len P < N" "step s P = Ok (Inl s') P'"
  shows "loopP step s P = loopP step s' P'"
  by (simp add: loopP_unfold [OF assms(1,2)] assms(3))

lemma loopP_break: "step s P = Ok (Inr a) P' \<Longrightarrow> loopP step s P = Ok a P'"
  by (simp add: loopP_def bindP_def retP_def)

section \<open>What may follow\<close>

definition neutral :: "ptoken list \<Rightarrow> bool" where
  "neutral rs \<longleftrightarrow> nextTag rs \<notin> {tsym ''++'', tsym ''--'', tsym ''.'', tsym ''&.'', tsym ''.['', tsym ''!'', tsym ''('', kw ''as'',
     tsym ''!:'', tsym ''::'', tsym ''{'', tsym ''['', tsym [CHR 0x60]}"

definition postNext :: "ptoken list \<Rightarrow> bool" where
  "postNext rs \<longleftrightarrow> nextTag rs \<in> {tsym ''('', tsym ''.['', tsym ''++'', tsym ''--''} \<or> neutral rs"

definition opStop :: "nat \<Rightarrow> ptoken list \<Rightarrow> bool" where
  "opStop p rs \<longleftrightarrow> tokenToBinaryOperator (nextTag rs) = opInvalid \<or> p \<le> getBinaryOpPrecedence (tokenToBinaryOperator (nextTag rs))"

definition hard :: "ptoken list \<Rightarrow> bool" where
  "hard rs \<longleftrightarrow> nextTag rs \<in> {tsym '')'', tsym '']'', tsym '','', tsym '':'', tsym '';'', tokEoF}"

lemma postNextD:
  "postNext rs \<Longrightarrow> nextTag rs \<noteq> tsym ''.'' \<and> nextTag rs \<noteq> tsym ''&.'' \<and> nextTag rs \<noteq> tsym ''!'' \<and> nextTag rs \<noteq> kw ''as'' \<and>
     nextTag rs \<noteq> tsym ''!:'' \<and> nextTag rs \<noteq> tsym ''::'' \<and> nextTag rs \<noteq> tsym ''{'' \<and> nextTag rs \<noteq> tsym ''['' \<and>
     nextTag rs \<noteq> tsym [CHR 0x60]"
  unfolding postNext_def neutral_def by auto

lemma neutral_postNext [simp]: "neutral rs \<Longrightarrow> postNext rs"
  by (simp add: postNext_def)

lemma neutralD: "neutral rs \<Longrightarrow> nextTag rs \<noteq> tsym ''('' \<and> nextTag rs \<noteq> tsym ''.['' \<and> nextTag rs \<noteq> tsym ''++'' \<and> nextTag rs \<noteq> tsym ''--''"
  unfolding neutral_def by auto

lemma hard_neutral [simp]: "hard rs \<Longrightarrow> neutral rs"
  unfolding hard_def neutral_def by auto

lemma not_operator_eval:
  "list_all (\<lambda>t. tokenToBinaryOperator t = opInvalid \<and> \<not> isAssignmentOperator t)
     [tsym '')'', tsym '']'', tsym '','', tsym '':'', tsym '';'', tokEoF, tsym ''?'']"
  by code_simp

lemma hard_opStop [simp]: "hard rs \<Longrightarrow> opStop p rs" "hard rs \<Longrightarrow> \<not> isAssignmentOperator (nextTag rs)"
  "hard rs \<Longrightarrow> tokenToBinaryOperator (nextTag rs) = opInvalid"
  using not_operator_eval unfolding hard_def opStop_def by auto

lemma binary_tokens_eval:
  "list_all (\<lambda>(n, p, t, _). tokenToBinaryOperator t = n \<and> n \<noteq> opInvalid \<and> \<not> isAssignmentOperator t \<and> neutral [tk t] \<and> t \<noteq> tokEoF \<and>
     binTag n = t \<and> getBinaryOpPrecedence n = p \<and> 2 \<le> p \<and> p < 14) binaryExprList"
  by code_simp

lemma assign_tokens_eval:
  "list_all (\<lambda>e. isAssignmentOperator (assignToken e) \<and> tokenToAssignmentOperator (assignToken e) = Some (fst e) \<and>
     asgTag (fst e) = assignToken e \<and> neutral [tk (assignToken e)] \<and> assignToken e \<noteq> tokEoF) assignExprList"
  by code_simp

lemma prefix_tokens_eval:
  "list_all (\<lambda>(n, t, _). preTag n = t \<and> tokenToUnaryOperator t = Some n \<and> t \<in> set (map (\<lambda>(_, t, _). t) prefixExprList) \<and>
     t \<notin> {kw ''defined'', tsym '':'', tsym ''.'', kw ''launch'', tokEoF, tokIdent} \<and>
     (t = kw ''ptrof'') = (n = ''Ptrof'') \<and> (t = tsym ''&'') = (n = ''Refof'') \<and>
     (t = tsym ''-'' \<or> t = tsym ''+'') = (n = ''Minus'' \<or> n = ''Plus'')) prefixExprList"
  by code_simp

lemma max_precedence: "getMaxBinaryOpPrecedence = 14"
  by code_simp

section \<open>Primary expressions\<close>

lemma postfix_stop:
  assumes "neutral rs" "length rs \<le> m"
  shows "loopP (postfixStep (runParser m)) a (st P x rs) = Ok a (st P x rs)"
  by (rule loopP_break) (use postNextD [OF neutral_postNext [OF assms(1)]] neutralD [OF assms(1)] in \<open>simp add: postfixStep_def ev\<close>)

lemma postfixCast_id: "postNext rs \<Longrightarrow> postfixCast R e (st P x rs) = Ok e (st P x rs)"
  by (drule postNextD) (simp add: postfixCast_def ev)

lemma literal_suffix_id: "postNext rs \<Longrightarrow> wrapLiteralWithSuffix e b (st P x rs) = Ok e (st P x rs)"
  by (drule postNextD) (simp add: wrapLiteralWithSuffix_def ev)

lemma typedLiteral_id: "postNext rs \<Longrightarrow> typedLiteral R e (st P x rs) = Ok e (st P x rs)"
  by (drule postNextD) (simp add: typedLiteral_def ev)

lemma parsePath_name:
  assumes "plainName name" "postNext rs"
  shows "parsePath R False (st P x (idToken name # rs)) = Ok (astOf (EId name)) (st P (idToken name) rs)"
proof -
  note f = postNextD [OF assms(2)]
  have elem: "pathElement R (st P x (idToken name # rs)) =
      Ok (mkNode ''PathElem'' flgNone [(''name'', FName (Some name)), (''args'', FNode []), (''isKeyword'', FBool False)])
        (st P (idToken name) rs)"
    using f assms(1) by (simp add: pathElement_def pathElementArgs_def ev plainName_def)
  show ?thesis
    unfolding parsePath_def using f elem
    by (simp add: ev) (subst loopP_break, simp add: ev elem listAddAstNode_def Let_def, simp add: ev)
qed

text \<open>The printed forms that start a postfix expression.\<close>

definition starts :: "TokenTag \<Rightarrow> bool" where
  "starts t \<longleftrightarrow> t \<in> {tokIdent, tokIntLiteral, kw ''true'', kw ''false'', kw ''null'', tokStringLiteral, tokCharLiteral, tsym ''('', tsym ''[''}"

lemma startsD:
  "starts t \<Longrightarrow> t \<noteq> tsym ''-'' \<and> t \<noteq> tsym ''+'' \<and> t \<noteq> tsym ''.'' \<and> t \<noteq> kw ''defined'' \<and> t \<noteq> tsym '':'' \<and> t \<noteq> kw ''launch'' \<and>
     t \<noteq> tsym ''@'' \<and> t \<noteq> tsym ''...'' \<and> t \<noteq> kw ''func'' \<and> t \<noteq> kw ''discard'' \<and> t \<noteq> tsym '')'' \<and> t \<noteq> tsym '']'' \<and> t \<noteq> tokEoF"
  unfolding starts_def by auto

lemma starts_not_prefix: "starts t \<Longrightarrow> t \<notin> set (map (\<lambda>(_, t, _). t) prefixExprList)"
  unfolding starts_def prefixExprList_def by auto

lemma prefix_postfix:
  assumes "starts (pt_tag t)"
  shows "prefix R s (st P x (t # ts)) = postfix R s (st P x (t # ts))"
  unfolding prefix_def using startsD [OF assms] starts_not_prefix [OF assms]
  by (simp add: ev del: set_map)

lemma postfix_primary:
  assumes "primaryBase R s (st P x ts) = Ok e (st P y rs)" "postNext rs"
  shows "postfix R s (st P x ts) = loopP (postfixStep R) e (st P y rs)"
  using assms by (simp add: postfix_def primary_def ev postfixCast_id)

lemma primary_atoms:
  assumes "postNext rs"
  shows "plainName name \<Longrightarrow> primaryBase R s (st P x (idToken name # rs)) = Ok (astOf (EId name)) (st P (idToken name) rs)"
    and "primaryBase R s (st P x (intToken v # rs)) = Ok (astOf (EInt v)) (st P (intToken v) rs)"
    and "primaryBase R s (st P x (tk (kw (if b then ''true'' else ''false'')) # rs)) =
           Ok (astOf (EBool b)) (st P (tk (kw (if b then ''true'' else ''false''))) rs)"
    and "primaryBase R s (st P x (tk (kw ''null'') # rs)) = Ok (astOf ENull) (st P (tk (kw ''null'')) rs)"
    and "primaryBase R s (st P x (stringToken str # rs)) = Ok (astOf (EStr str)) (st P (stringToken str) rs)"
    and "primaryBase R s (st P x (charToken c # rs)) = Ok (astOf (EChar c)) (st P (charToken c) rs)"
  using postNextD [OF assms] assms
  by (simp_all add: primaryBase_def parseInteger_def parseBool_def parseNull_def parseString_def parseChar_def ev
      literal_suffix_id typedLiteral_id parsePath_name charVal_def charToken_def Let_def)

section \<open>First and second tokens\<close>

lemma printE_ne [simp]: "printE e \<noteq> []"
  by (cases e) auto

lemma binary_op_facts:
  assumes "k \<in> set (map fst binaryExprList)"
  shows "tokenToBinaryOperator (binTag k) = k" "k \<noteq> opInvalid" "\<not> isAssignmentOperator (binTag k)" "neutral [tk (binTag k)]"
    "binTag k \<noteq> tokEoF" "2 \<le> getBinaryOpPrecedence k" "getBinaryOpPrecedence k < 14"
proof -
  obtain e where e: "e \<in> set binaryExprList" "k = fst e" using assms by auto
  obtain n p t r where t: "e = (n, p, t, r)" by (cases e)
  from bspec [OF binary_tokens_eval [unfolded list_all_iff] e(1)]
  show "tokenToBinaryOperator (binTag k) = k" "k \<noteq> opInvalid" "\<not> isAssignmentOperator (binTag k)" "neutral [tk (binTag k)]"
    "binTag k \<noteq> tokEoF" "2 \<le> getBinaryOpPrecedence k" "getBinaryOpPrecedence k < 14"
    by (simp_all add: t e(2))
qed

lemma assign_op_facts:
  assumes "k \<in> set (map fst assignExprList)"
  shows "isAssignmentOperator (asgTag k)" "tokenToAssignmentOperator (asgTag k) = Some k" "neutral [tk (asgTag k)]" "asgTag k \<noteq> tokEoF"
proof -
  obtain e where e: "e \<in> set assignExprList" "k = fst e" using assms by auto
  from bspec [OF assign_tokens_eval [unfolded list_all_iff] e(1)]
  show "isAssignmentOperator (asgTag k)" "tokenToAssignmentOperator (asgTag k) = Some k" "neutral [tk (asgTag k)]" "asgTag k \<noteq> tokEoF"
    by (simp_all add: e(2))
qed

lemma prefix_op_facts:
  assumes "k \<in> set (map fst prefixExprList)"
  shows "tokenToUnaryOperator (preTag k) = Some k" "preTag k \<in> set (map (\<lambda>(_, t, _). t) prefixExprList)"
    "preTag k \<notin> {kw ''defined'', tsym '':'', tsym ''.'', kw ''launch'', tokEoF, tokIdent}"
    "(preTag k = kw ''ptrof'') = (k = ''Ptrof'')" "(preTag k = tsym ''&'') = (k = ''Refof'')"
    "(preTag k = tsym ''-'' \<or> preTag k = tsym ''+'') = (k = ''Minus'' \<or> k = ''Plus'')"
proof -
  obtain e where e: "e \<in> set prefixExprList" "k = fst e" using assms by auto
  obtain n t r where t: "e = (n, t, r)" by (cases e)
  from bspec [OF prefix_tokens_eval [unfolded list_all_iff] e(1)]
  show "tokenToUnaryOperator (preTag k) = Some k" "preTag k \<in> set (map (\<lambda>(_, t, _). t) prefixExprList)"
    "preTag k \<notin> {kw ''defined'', tsym '':'', tsym ''.'', kw ''launch'', tokEoF, tokIdent}"
    "(preTag k = kw ''ptrof'') = (k = ''Ptrof'')" "(preTag k = tsym ''&'') = (k = ''Refof'')"
    "(preTag k = tsym ''-'' \<or> preTag k = tsym ''+'') = (k = ''Minus'' \<or> k = ''Plus'')"
    by (simp_all add: t e(2) del: set_map)
qed

lemma spread_only: "list_all (\<lambda>(n, t, _). n = ''Spread'' \<or> t \<notin> {tsym ''@'', tsym ''...'', tsym '')'', tsym '']'', kw ''func'', kw ''discard''}) prefixExprList"
  by code_simp

definition opens :: "TokenTag \<Rightarrow> bool" where
  "opens t \<longleftrightarrow> t \<notin> {tsym ''@'', tsym ''...'', tsym '')'', tsym '']'', tsym '':'', kw ''func'', kw ''discard'', tokEoF}"

lemma preTag_opens:
  assumes "k \<in> set (map fst prefixExprList) - {''Spread''}"
  shows "opens (preTag k)"
proof -
  obtain e where e: "e \<in> set prefixExprList" "k = fst e" using assms by auto
  obtain n t r where t: "e = (n, t, r)" by (cases e)
  from bspec [OF prefix_tokens_eval [unfolded list_all_iff] e(1)] bspec [OF spread_only [unfolded list_all_iff] e(1)] assms
  show ?thesis by (simp add: t e(2) opens_def del: set_map)
qed

lemma starts_opens: "starts t \<Longrightarrow> opens t"
  unfolding starts_def opens_def by auto

lemma first_level0: "wellFormed e \<Longrightarrow> level e = 0 \<Longrightarrow> starts (pt_tag (hd (printE e)))"
proof (induction e)
  case (EBin k l r)
  then show ?case using binary_op_facts(6) [of k] by auto
qed (auto simp: starts_def)

lemma first_opens: "wellFormed e \<Longrightarrow> opens (pt_tag (hd (printE e)))"
proof (induction e)
  case (EPre k e)
  then show ?case using preTag_opens [of k] by simp
qed (auto simp: opens_def)

text \<open>A name at the beginning is not followed by a colon.\<close>

lemma second_not_colon:
  "wellFormed e \<Longrightarrow> pt_tag (hd (printE e)) = tokIdent \<Longrightarrow> nextTag rs \<noteq> tsym '':'' \<Longrightarrow>
   nextTag (tl (printE e) @ rs) \<noteq> tsym '':''"
proof (induction e arbitrary: rs)
  case (EPre k e)
  then show ?case using prefix_op_facts(3) [of k] by auto
next
  case (EPost k e)
  then show ?case by (auto simp: postTag_def)
next
  case (EBin k l r)
  have "binTag k \<noteq> tsym '':''"
    using EBin.prems(1) binary_op_facts(1,2) [of k] not_operator_eval by auto
  with EBin show ?case by auto
next
  case (EAsg k l r)
  have "asgTag k \<noteq> tsym '':''"
    using EAsg.prems(1) assign_op_facts(1) [of k] not_operator_eval by auto
  with EAsg show ?case by auto
qed auto

lemma maybeClosure_no:
  assumes "wellFormed e"
  shows "maybeClosure (st P x (stk ''('' # printE e @ stk '')'' # rs)) = Ok False (st P x (stk ''('' # printE e @ stk '')'' # rs))"
proof -
  obtain t us where t: "printE e = t # us" using printE_ne by (cases "printE e") auto
  have "opens (pt_tag t)" using first_opens [OF assms] t by simp
  moreover have "pt_tag t = tokIdent \<Longrightarrow> nextTag (us @ stk '')'' # rs) \<noteq> tsym '':''"
    using second_not_colon [OF assms, of "stk '')'' # rs"] t by simp
  ultimately show ?thesis
    by (auto simp: maybeClosure_def ev t opens_def)
qed

section \<open>Lists\<close>

definition reads :: "nat \<Rightarrow> AstPtr parser \<Rightarrow> expr \<Rightarrow> bool" where
  "reads N p e \<longleftrightarrow> (\<forall>P x rs. length (printE e @ rs) < N \<longrightarrow> hard rs \<longrightarrow>
     p (st P x (printE e @ rs)) = Ok (astOf e) (st P (last (printE e)) rs))"

abbreviation listStep :: "TokenTag \<Rightarrow> AstPtr parser \<Rightarrow> AstPtr \<Rightarrow> (AstPtr + AstPtr) parser" where
  "listStep stop p \<equiv> (\<lambda>s. ifP (andP (notP (check [stop])) (notP isEoF))
     (bindP (bindP p (\<lambda>node. ifP (andP (notP (match [tsym '',''])) (notP (check [stop])))
        (parserError ''unexpected token in list'') (retP (listAddAstNode s node)))) continueP) (breakP s))"

lemma listStep_wp:
  assumes "consumes N 1 p"
  shows "len P < N \<Longrightarrow> wp (len P) (listStep stop p s) (turn 0 (len P)) P"
  by (auto simp: wp_norm intro!: wp bind_consumes [OF assms])

lemma parseMany_loop: "parseMany stop (tsym '','') p = loopP (listStep stop p) []"
  by (simp add: parseMany_def parseManyUntil_def whileP_def)

lemma list_loop:
  assumes c: "consumes N 1 p" and stop: "stop = tsym '')'' \<or> stop = tsym '']''"
    and "\<And>e. e \<in> set es \<Longrightarrow> reads N p e \<and> wellFormed e"
    and "length (commas (map printE es) @ tk stop # rs) < N"
  shows "\<exists>y. loopP (listStep stop p) acc (st P x (commas (map printE es) @ tk stop # rs)) =
    Ok (acc @ concat (map astOf es)) (st P y (tk stop # rs))"
  using assms(3,4)
proof (induction "map printE es" arbitrary: es acc x rule: commas.induct)
  case 1
  then have "es = []" by simp
  then show ?case
    by (intro exI) (rule loopP_break, simp add: ev)
next
  case (2 ts)
  then obtain e where e: "es = [e]" "ts = printE e" by auto
  obtain t us where t: "printE e = t # us" using printE_ne by (cases "printE e") auto
  have "opens (pt_tag t)" using first_opens [of e] 2(2) [of e] e t by simp
  moreover have p: "p (st P x (printE e @ tk stop # rs)) = Ok (astOf e) (st P (last (printE e)) (tk stop # rs))"
    using 2(2,3) e stop by (auto simp: reads_def hard_def)
  ultimately show ?case
    using stop 2(3) e
    by (subst loopP_unfold [OF listStep_wp [OF c]])
      (auto simp: ev t opens_def listAddAstNode_def intro!: exI loopP_break)
next
  case (3 ts us r)
  then obtain e f es' where e: "es = e # f # es'" "ts = printE e" "us = printE f" "r = map printE es'" by auto
  obtain t vs where t: "printE e = t # vs" using printE_ne by (cases "printE e") auto
  let ?r = "stk '','' # commas (map printE (f # es')) @ tk stop # rs"
  have "opens (pt_tag t)" using first_opens [of e] 3(3) [of e] e t by simp
  moreover have p: "p (st P x (printE e @ ?r)) = Ok (astOf e) (st P (last (printE e)) ?r)"
    using 3(3,4) e by (auto simp: reads_def hard_def)
  moreover obtain y where "loopP (listStep stop p) (acc @ astOf e) (st P (stk '','') (commas (map printE (f # es')) @ tk stop # rs)) =
      Ok ((acc @ astOf e) @ concat (map astOf (f # es'))) (st P y (tk stop # rs))"
    using 3(1) [of "f # es'" "acc @ astOf e" "stk '',''"] 3(3,4) e by auto
  ultimately show ?case
    using stop 3(4) e
    by (subst loopP_unfold [OF listStep_wp [OF c]]) (auto simp: ev t opens_def listAddAstNode_def)
qed

lemma list_reads:
  assumes "consumes N 1 p" "stop = tsym '')'' \<or> stop = tsym '']''"
    "\<And>e. e \<in> set es \<Longrightarrow> reads N p e \<and> wellFormed e" "length (commas (map printE es) @ tk stop # rs) < N"
  shows "\<exists>y. parseMany stop (tsym '','') p (st P x (commas (map printE es) @ tk stop # rs)) =
    Ok (concat (map astOf es)) (st P y (tk stop # rs))"
  using list_loop [OF assms, of "[]" P x] by (auto simp: parseMany_loop)

section \<open>Reading expressions back\<close>

text \<open>The parser on a printed expression, at the levels of the grammar. A postfix expression leaves its
  loop to go on behind the expression, and so does a binary expression.\<close>

definition readsPostfix :: "expr \<Rightarrow> bool" where
  "readsPostfix e \<longleftrightarrow> (\<forall>m s P x rs. length (printE e @ rs) \<le> m \<longrightarrow> postNext rs \<longrightarrow>
     postfix (runParser m) s (st P x (printE e @ rs)) =
       loopP (postfixStep (runParser m)) (astOf e) (st P (last (printE e)) rs))"

definition readsPrefix :: "expr \<Rightarrow> bool" where
  "readsPrefix e \<longleftrightarrow> (\<forall>m s P x rs. length (printE e @ rs) \<le> m \<longrightarrow> neutral rs \<longrightarrow>
     prefix (runParser m) s (st P x (printE e @ rs)) = Ok (astOf e) (st P (last (printE e)) rs))"

definition readsBinary :: "expr \<Rightarrow> bool" where
  "readsBinary e \<longleftrightarrow> (\<forall>m s p P x rs. length (printE e @ rs) \<le> m \<longrightarrow> level e < p \<longrightarrow> neutral rs \<longrightarrow> opStop (level e) rs \<longrightarrow>
     binary (runParser m) p s (st P x (printE e @ rs)) =
       binaryLoop (runParser m) p s (astOf e) (st P (last (printE e)) rs))"

definition readsAssign :: "expr \<Rightarrow> bool" where
  "readsAssign e \<longleftrightarrow> (\<forall>m s P x rs. length (printE e @ rs) \<le> m \<longrightarrow> neutral rs \<longrightarrow> opStop (level e) rs \<longrightarrow>
     \<not> isAssignmentOperator (nextTag rs) \<longrightarrow>
     assign (runParser m) s (st P x (printE e @ rs)) =
       binaryLoop (runParser m) 14 s (astOf e) (st P (last (printE e)) rs))"

definition readsTernary :: "expr \<Rightarrow> bool" where
  "readsTernary e \<longleftrightarrow> (\<forall>m s P x rs. length (printE e @ rs) \<le> m \<longrightarrow> hard rs \<longrightarrow>
     ternary (runParser m) s (st P x (printE e @ rs)) = Ok (astOf e) (st P (last (printE e)) rs))"

definition good :: "expr \<Rightarrow> bool" where
  "good e \<longleftrightarrow> (level e = 0 \<longrightarrow> readsPostfix e) \<and> (level e \<le> 1 \<longrightarrow> readsPrefix e) \<and>
     (level e < 14 \<longrightarrow> readsBinary e \<and> readsAssign e) \<and> readsTernary e"

lemma opStop_mono: "opStop p rs \<Longrightarrow> q \<le> p \<Longrightarrow> opStop q rs"
  by (auto simp: opStop_def)

lemma binary_stop:
  assumes "opStop p rs"
  shows "binaryLoop R p s lhs (st P x rs) = Ok lhs (st P x rs)"
  unfolding binaryLoop_def
proof (rule loopP_break)
  show "binaryStep R p s lhs (st P x rs) = Ok (Inr lhs) (st P x rs)"
    using assms by (cases rs) (auto simp: binaryStep_def ev Let_def opStop_def)
qed

lemma prefix_of_postfix:
  assumes "wellFormed e" "level e = 0" "readsPostfix e"
  shows "readsPrefix e"
  unfolding readsPrefix_def
proof (intro allI impI)
  fix m s P x rs
  assume l: "length (printE e @ rs) \<le> m" and n: "neutral rs"
  obtain t us where t: "printE e = t # us" using printE_ne by (cases "printE e") auto
  have "prefix (runParser m) s (st P x (printE e @ rs)) = postfix (runParser m) s (st P x (printE e @ rs))"
    using prefix_postfix [of t] first_level0 [OF assms(1,2)] t by simp
  also have "\<dots> = Ok (astOf e) (st P (last (printE e)) rs)"
    using assms(3) l n by (simp add: readsPostfix_def postfix_stop)
  finally show "prefix (runParser m) s (st P x (printE e @ rs)) = Ok (astOf e) (st P (last (printE e)) rs)" .
qed

lemma hardD: "hard rs \<Longrightarrow> nextTag rs \<noteq> tsym ''?''"
  unfolding hard_def by auto

lemma ternary_of_assign:
  assumes "level e < 14" "readsAssign e"
  shows "readsTernary e"
  using assms unfolding readsTernary_def readsAssign_def
  by (auto simp: ternary_def ev binary_stop hardD)

lemma good_of_prefix:
  assumes "level e \<le> 1" "readsPrefix e" "level e = 0 \<Longrightarrow> readsPostfix e"
  shows "good e"
proof -
  have b: "readsBinary e"
    using assms(2) unfolding readsBinary_def readsPrefix_def by (auto simp: binary_def ev)
  have "readsAssign e"
    using assms(2) unfolding readsAssign_def readsPrefix_def by (auto simp: assign_def ev max_precedence)
  with b assms show ?thesis by (auto simp: good_def intro: ternary_of_assign)
qed

lemma good_of_postfix: "wellFormed e \<Longrightarrow> level e = 0 \<Longrightarrow> readsPostfix e \<Longrightarrow> good e"
  by (rule good_of_prefix) (auto intro: prefix_of_postfix)

text \<open>The calls made through the recursion.\<close>

lemma astOf_single: "\<exists>tag f fs. astOf e = [Ast tag f [] fs]"
  by (cases e) (simp_all add: pathNode_def integerNode_def mkNode_def callNode_def unaryNode_def binaryNode_def ternaryNode_def)

lemma call_expression:
  assumes "good e" "wellFormed e" "length (printE e @ rs) < m" "hard rs"
  shows "runParser m (CExpression s) (st P x (printE e @ rs)) = Ok (astOf e) (st P (last (printE e)) rs)"
proof -
  obtain m' where m: "m = Suc m'" using assms(3) by (cases m) auto
  obtain t us where t: "printE e = t # us" using printE_ne by (cases "printE e") auto
  have "opens (pt_tag t)" using first_opens [OF assms(2)] t by simp
  then have at: "optAttributes R (st P x (printE e @ rs)) = Ok [] (st P x (printE e @ rs))" for R
    by (simp add: optAttributes_def ev t opens_def)
  have "ternary (runParser m') s (st P x (printE e @ rs)) = Ok (astOf e) (st P (last (printE e)) rs)"
    using assms m by (simp add: good_def readsTernary_def)
  moreover obtain tag f fs where "astOf e = [Ast tag f [] fs]" using astOf_single by blast
  ultimately show ?thesis by (simp add: m dispatch_def expression_def ev at setAttrs_def)
qed

lemma reads_call: "good e \<Longrightarrow> wellFormed e \<Longrightarrow> reads m (runParser m (CExpression s)) e"
  by (simp add: reads_def call_expression)

lemma reads_argument:
  assumes "good e" "wellFormed e"
  shows "reads m (parseCallArguments (runParser m)) e"
  unfolding reads_def
proof (intro allI impI)
  fix P x rs
  assume "length (printE e @ rs) < m" "hard rs"
  note c = call_expression [OF assms this, of True P x]
  obtain t us where t: "printE e = t # us" using printE_ne by (cases "printE e") auto
  have "opens (pt_tag t)" using first_opens [OF assms(2)] t by simp
  then have "match [tsym ''...''] (st P x (printE e @ rs)) = Ok False (st P x (printE e @ rs))"
    by (intro match_ev(1)) (simp add: t opens_def)
  with c show "parseCallArguments (runParser m) (st P x (printE e @ rs)) = Ok (astOf e) (st P (last (printE e)) rs)"
    by (simp add: parseCallArguments_def ev)
qed

lemma call_ternary:
  assumes "good e" "length (printE e @ rs) < m" "hard rs"
  shows "runParser m (CTernary s) (st P x (printE e @ rs)) = Ok (astOf e) (st P (last (printE e)) rs)"
proof -
  obtain m' where m: "m = Suc m'" using assms(2) by (cases m) auto
  with assms show ?thesis by (simp add: dispatch_def good_def readsTernary_def)
qed

lemma call_prefix:
  assumes "good e" "level e \<le> 1" "length (printE e @ rs) < m" "neutral rs"
  shows "runParser m (CPrefix s) (st P x (printE e @ rs)) = Ok (astOf e) (st P (last (printE e)) rs)"
proof -
  obtain m' where m: "m = Suc m'" using assms(3) by (cases m) auto
  with assms show ?thesis by (simp add: dispatch_def good_def readsPrefix_def)
qed

lemma call_binary:
  assumes "good e" "level e < p" "p < 14" "length (printE e @ rs) < m" "neutral rs" "opStop p rs"
  shows "runParser m (CBinary p s) (st P x (printE e @ rs)) = Ok (astOf e) (st P (last (printE e)) rs)"
proof -
  obtain m' where m: "m = Suc m'" using assms(4) by (cases m) auto
  have "opStop (level e) rs" using assms by (auto intro: opStop_mono)
  with assms m show ?thesis by (simp add: dispatch_def good_def readsBinary_def binary_stop)
qed

lemma binary_turn:
  assumes k: "k \<in> set (map fst binaryExprList)" "getBinaryOpPrecedence k < p"
    and r: "good r" "wellFormed r" "level r < getBinaryOpPrecedence k" "neutral rs" "opStop (getBinaryOpPrecedence k) rs"
    and l: "length (tk (binTag k) # printE r @ rs) \<le> m"
  shows "binaryLoop (runParser m) p s lhs (st P x (tk (binTag k) # printE r @ rs)) =
    binaryLoop (runParser m) p s (binaryNode ''BinaryExpr'' k lhs (astOf r)) (st P (last (printE r)) rs)"
proof -
  note f = binary_op_facts [OF k(1)]
  obtain t us where t: "printE r = t # us" using printE_ne by (cases "printE r") auto
  have o: "opens (pt_tag t)" using first_opens [OF r(2)] t by simp
  have c: "runParser m (CBinary (getBinaryOpPrecedence k) s) (st P y (printE r @ rs)) =
      Ok (astOf r) (st P (last (printE r)) rs)" for y
    using l by (intro call_binary r f(7)) simp
  have d: "match [kw ''discard''] (st P y (printE r @ rs)) = Ok False (st P y (printE r @ rs))" for y
    by (rule match_ev(1)) (use o t in \<open>simp add: opens_def\<close>)
  have n: "nextTag (printE r @ rs) \<noteq> kw ''func''" using o t by (simp add: opens_def)
  have "binaryStep (runParser m) p s lhs (st P x (tk (binTag k) # printE r @ rs)) =
      Ok (Inl (binaryNode ''BinaryExpr'' k lhs (astOf r))) (st P (last (printE r)) rs)"
    using f k(2) c d n by (cases "k = ''Catch''") (simp_all add: binaryStep_def ev Let_def)
  with l show ?thesis unfolding binaryLoop_def by (intro loopP_turn [OF run.binaryStep_wp]) auto
qed

lemma good_binary:
  assumes "wellFormed (EBin k l r)" "good l" "good r"
  shows "good (EBin k l r)"
proof -
  let ?p = "getBinaryOpPrecedence k"
  from assms(1) have k: "k \<in> set (map fst binaryExprList)" and lv: "level l \<le> ?p" "level r < ?p" and w: "wellFormed r"
    by simp_all
  note f = binary_op_facts [OF k]
  have nl: "neutral (tk (binTag k) # us)" "opStop (level l) (tk (binTag k) # us)" for us
    using f lv by (simp_all add: neutral_def opStop_def)
  have b: "readsBinary (EBin k l r)"
    unfolding readsBinary_def
  proof (intro allI impI)
    fix m s p P x rs
    assume a: "length (printE (EBin k l r) @ rs) \<le> m" "level (EBin k l r) < p" "neutral rs" "opStop (level (EBin k l r)) rs"
    have "binary (runParser m) p s (st P x (printE l @ tk (binTag k) # printE r @ rs)) =
        binaryLoop (runParser m) p s (astOf l) (st P (last (printE l)) (tk (binTag k) # printE r @ rs))"
      using assms(2) a lv f(7) nl by (simp add: good_def readsBinary_def)
    also have "\<dots> = binaryLoop (runParser m) p s (astOf (EBin k l r)) (st P (last (printE r)) rs)"
      using a by (subst binary_turn [OF k _ assms(3) w lv(2)]) simp_all
    finally show "binary (runParser m) p s (st P x (printE (EBin k l r) @ rs)) =
        binaryLoop (runParser m) p s (astOf (EBin k l r)) (st P (last (printE (EBin k l r))) rs)" by simp
  qed
  moreover have c: "readsAssign (EBin k l r)"
    unfolding readsAssign_def
  proof (intro allI impI)
    fix m s P x rs
    assume a: "length (printE (EBin k l r) @ rs) \<le> m" "neutral rs" "opStop (level (EBin k l r)) rs"
    have "assign (runParser m) s (st P x (printE l @ tk (binTag k) # printE r @ rs)) =
        binaryLoop (runParser m) 14 s (astOf l) (st P (last (printE l)) (tk (binTag k) # printE r @ rs))"
      using assms(2) a lv f(3,7) nl by (simp add: good_def readsAssign_def)
    also have "\<dots> = binaryLoop (runParser m) 14 s (astOf (EBin k l r)) (st P (last (printE r)) rs)"
      using a f(7) by (subst binary_turn [OF k _ assms(3) w lv(2)]) simp_all
    finally show "assign (runParser m) s (st P x (printE (EBin k l r) @ rs)) =
        binaryLoop (runParser m) 14 s (astOf (EBin k l r)) (st P (last (printE (EBin k l r))) rs)" by simp
  qed
  moreover have "readsTernary (EBin k l r)" by (rule ternary_of_assign) (use f(7) c in simp_all)
  ultimately show ?thesis using f(6) by (simp add: good_def)
qed

lemma good_assign:
  assumes "wellFormed (EAsg k l r)" "good l" "good r"
  shows "good (EAsg k l r)"
proof -
  from assms(1) have k: "k \<in> set (map fst assignExprList)" and lv: "level l \<le> 1" by simp_all
  note f = assign_op_facts [OF k]
  have "readsTernary (EAsg k l r)"
    unfolding readsTernary_def
  proof (intro allI impI)
    fix m s P x rs
    assume a: "length (printE (EAsg k l r) @ rs) \<le> m" "hard rs"
    have "neutral (tk (asgTag k) # printE r @ rs)" using f(3) by (simp add: neutral_def)
    then have "prefix (runParser m) s (st P x (printE l @ tk (asgTag k) # printE r @ rs)) =
        Ok (astOf l) (st P (last (printE l)) (tk (asgTag k) # printE r @ rs))"
      using assms(2) a lv by (simp add: good_def readsPrefix_def)
    moreover have "runParser m (CTernary s) (st P y (printE r @ rs)) = Ok (astOf r) (st P (last (printE r)) rs)" for y
      using a by (intro call_ternary [OF assms(3)]) simp_all
    ultimately show "ternary (runParser m) s (st P x (printE (EAsg k l r) @ rs)) =
        Ok (astOf (EAsg k l r)) (st P (last (printE (EAsg k l r))) rs)"
      using a f by (simp add: ternary_def assign_def ev assertOp_def hardD)
  qed
  then show ?thesis by (simp add: good_def)
qed

lemma good_ternary:
  assumes "wellFormed (ETern c a b)" "good c" "good a" "good b"
  shows "good (ETern c a b)"
proof -
  from assms(1) have lv: "level c < 14" and w: "wellFormed a" by simp_all
  have "readsTernary (ETern c a b)"
    unfolding readsTernary_def
  proof (intro allI impI)
    fix m s P x rs
    assume l: "length (printE (ETern c a b) @ rs) \<le> m" "hard rs"
    let ?r = "stk ''?'' # printE a @ stk '':'' # printE b @ rs"
    have q: "neutral ?r" "opStop p ?r" "\<not> isAssignmentOperator (tsym ''?'')" for p
      using not_operator_eval by (simp_all add: neutral_def opStop_def)
    have as: "assign (runParser m) s (st P x (printE c @ ?r)) = Ok (astOf c) (st P (last (printE c)) ?r)"
      using assms(2) lv l q by (simp add: good_def readsAssign_def binary_stop)
    obtain t us where t: "printE a = t # us" using printE_ne by (cases "printE a") auto
    have "opens (pt_tag t)" using first_opens [OF w] t by simp
    then have nc: "match [tsym '':''] (st P y (printE a @ stk '':'' # printE b @ rs)) =
        Ok False (st P y (printE a @ stk '':'' # printE b @ rs))" for y
      by (intro match_ev(1)) (simp add: t opens_def)
    have ca: "runParser m (CTernary s) (st P y (printE a @ stk '':'' # printE b @ rs)) =
        Ok (astOf a) (st P (last (printE a)) (stk '':'' # printE b @ rs))" for y
      using l by (intro call_ternary [OF assms(3)]) (simp_all add: hard_def)
    have cb: "runParser m (CTernary s) (st P y (printE b @ rs)) = Ok (astOf b) (st P (last (printE b)) rs)" for y
      using l by (intro call_ternary [OF assms(4)]) simp_all
    show "ternary (runParser m) s (st P x (printE (ETern c a b) @ rs)) =
        Ok (astOf (ETern c a b)) (st P (last (printE (ETern c a b))) rs)"
      using as nc ca cb by (simp add: ternary_def ev)
  qed
  then show ?thesis by (simp add: good_def)
qed


text \<open>The forms that start with a token of their own.\<close>

lemma readsPostfix_primary:
  assumes "\<And>m s P x rs. length (printE e @ rs) \<le> m \<Longrightarrow> postNext rs \<Longrightarrow>
    primaryBase (runParser m) s (st P x (printE e @ rs)) = Ok (astOf e) (st P (last (printE e)) rs)"
  shows "readsPostfix e"
  unfolding readsPostfix_def by (simp add: assms postfix_primary del: length_append)

lemma good_atoms:
  "plainName name \<Longrightarrow> good (EId name)" "good (EInt v)" "good (EBool b)" "good ENull" "good (EStr str)" "good (EChar c)"
  by (rule good_of_postfix; simp add: primary_atoms readsPostfix_primary del: astOf.simps)+

lemma good_group:
  assumes "wellFormed e" "good e"
  shows "good (EGroup e)"
proof (rule good_of_postfix)
  show "readsPostfix (EGroup e)"
  proof (rule readsPostfix_primary)
    fix m s P x rs
    assume l: "length (printE (EGroup e) @ rs) \<le> m"
    obtain t us where t: "printE e = t # us" using printE_ne by (cases "printE e") auto
    have "opens (pt_tag t)" using first_opens [OF assms(1)] t by simp
    then have nc: "match [tsym ''...''] (st P y (printE e @ stk '')'' # rs)) = Ok False (st P y (printE e @ stk '')'' # rs))" for y
      by (intro match_ev(1)) (simp add: t opens_def)
    have c: "runParser m (CExpression True) (st P y (printE e @ stk '')'' # rs)) = Ok (astOf e) (st P (last (printE e)) (stk '')'' # rs))" for y
      using l by (intro call_expression assms) (simp_all add: hard_def)
    show "primaryBase (runParser m) s (st P x (printE (EGroup e) @ rs)) =
        Ok (astOf (EGroup e)) (st P (last (printE (EGroup e))) rs)"
      using nc c maybeClosure_no [OF assms(1)] by (simp add: primaryBase_def parenExpr_def ev)
  qed
qed (use assms in simp_all)

lemma good_array:
  assumes "\<And>e. e \<in> set es \<Longrightarrow> good e \<and> wellFormed e"
  shows "good (EArray es)"
proof (rule good_of_postfix)
  show "readsPostfix (EArray es)"
  proof (rule readsPostfix_primary)
    fix m s P x rs
    assume l: "length (printE (EArray es) @ rs) \<le> m"
    obtain y where "parseMany (tsym '']'') (tsym '','') (runParser m (CExpression True))
        (st P (stk ''['') (commas (map printE es) @ stk '']'' # rs)) = Ok (concat (map astOf es)) (st P y (stk '']'' # rs))"
      using list_reads [OF run.calls, of "tsym '']''" es m "CExpression True" rs P "stk ''[''"] l assms reads_call by auto
    then show "primaryBase (runParser m) s (st P x (printE (EArray es) @ rs)) =
        Ok (astOf (EArray es)) (st P (last (printE (EArray es))) rs)"
      by (simp add: primaryBase_def array_def ev)
  qed
qed (use assms in \<open>auto simp: list_all_iff\<close>)

text \<open>The forms that go on behind a postfix expression: one turn of the loop.\<close>

lemma readsPostfix_turn:
  assumes f: "readsPostfix f" and p: "printE e = printE f @ ts" "ts \<noteq> []" "\<And>rs. postNext (ts @ rs)"
    and turn: "\<And>m P x rs. length (ts @ rs) < m \<Longrightarrow>
      postfixStep (runParser m) (astOf f) (st P x (ts @ rs)) = Ok (Inl (astOf e)) (st P (last ts) rs)"
  shows "readsPostfix e"
  unfolding readsPostfix_def
proof (intro allI impI)
  fix m s P x rs
  assume l: "length (printE e @ rs) \<le> m"
  then have l': "length (ts @ rs) < m" using printE_ne [of f] p(1) by (cases "printE f") auto
  have "postfix (runParser m) s (st P x (printE e @ rs)) =
      loopP (postfixStep (runParser m)) (astOf f) (st P (last (printE f)) (ts @ rs))"
    using f l p by (simp add: readsPostfix_def)
  also have "\<dots> = loopP (postfixStep (runParser m)) (astOf e) (st P (last (printE e)) rs)"
    using l' p turn [OF l'] by (intro loopP_turn [OF run.postfixStep_wp]) auto
  finally show "postfix (runParser m) s (st P x (printE e @ rs)) =
      loopP (postfixStep (runParser m)) (astOf e) (st P (last (printE e)) rs)" .
qed

lemma good_call:
  assumes w: "wellFormed (ECall f es)" and f: "good f" and es: "\<And>e. e \<in> set es \<Longrightarrow> good e"
  shows "good (ECall f es)"
proof (rule good_of_postfix [OF w])
  show "readsPostfix (ECall f es)"
  proof (rule readsPostfix_turn [where f = f and ts = "stk ''('' # commas (map printE es) @ [stk '')'']"])
    fix m P x rs
    assume l: "length ((stk ''('' # commas (map printE es) @ [stk '')'']) @ rs) < m"
    obtain y where "parseMany (tsym '')'') (tsym '','') (parseCallArguments (runParser m))
        (st P (stk ''('') (commas (map printE es) @ stk '')'' # rs)) = Ok (concat (map astOf es)) (st P y (stk '')'' # rs))"
      using list_reads [OF run.parseCallArguments_consumes, of "tsym '')''" es m rs P "stk ''(''"] l es w reads_argument
      by (auto simp: list_all_iff)
    then show "postfixStep (runParser m) (astOf f) (st P x ((stk ''('' # commas (map printE es) @ [stk '')'']) @ rs)) =
        Ok (Inl (astOf (ECall f es))) (st P (last (stk ''('' # commas (map printE es) @ [stk '')''])) rs)"
      by (simp add: postfixStep_def callExpression_def parenList_def ev)
  qed (use w f in \<open>simp_all add: good_def postNext_def\<close>)
qed simp

lemma good_index:
  assumes w: "wellFormed (EIndex a i)" and a: "good a" and i: "good i"
  shows "good (EIndex a i)"
proof (rule good_of_postfix [OF w])
  show "readsPostfix (EIndex a i)"
  proof (rule readsPostfix_turn [where f = a and ts = "stk ''.['' # printE i @ [stk '']'']"])
    fix m P x rs
    assume l: "length ((stk ''.['' # printE i @ [stk '']'']) @ rs) < m"
    have "runParser m (CExpression False) (st P y (printE i @ stk '']'' # rs)) = Ok (astOf i) (st P (last (printE i)) (stk '']'' # rs))" for y
      using l w by (intro call_expression i) (simp_all add: hard_def)
    then show "postfixStep (runParser m) (astOf a) (st P x ((stk ''.['' # printE i @ [stk '']'']) @ rs)) =
        Ok (Inl (astOf (EIndex a i))) (st P (last (stk ''.['' # printE i @ [stk '']''])) rs)"
      by (simp add: postfixStep_def indexExpr_def ev)
  qed (use w a in \<open>simp_all add: good_def postNext_def\<close>)
qed simp

lemma post_op_facts:
  assumes "k \<in> {''PostInc'', ''PostDec''}"
  shows "postTag k = tsym ''++'' \<or> postTag k = tsym ''--''" "tokenToPostfixUnaryOperator (postTag k) = Some k"
proof -
  have "tokenToPostfixUnaryOperator (tsym ''++'') = Some ''PostInc''" "tokenToPostfixUnaryOperator (tsym ''--'') = Some ''PostDec''"
    by code_simp+
  then show "postTag k = tsym ''++'' \<or> postTag k = tsym ''--''" "tokenToPostfixUnaryOperator (postTag k) = Some k"
    using assms by (auto simp: postTag_def)
qed

lemma good_post:
  assumes w: "wellFormed (EPost k e)" and e: "good e"
  shows "good (EPost k e)"
proof (rule good_of_prefix)
  from w have k: "k \<in> {''PostInc'', ''PostDec''}" and lv: "level e = 0" and we: "wellFormed e" by auto
  note f = post_op_facts [OF k]
  show "readsPrefix (EPost k e)"
    unfolding readsPrefix_def
  proof (intro allI impI)
    fix m s P x rs
    assume l: "length (printE (EPost k e) @ rs) \<le> m"
    let ?r = "tk (postTag k) # rs"
    have q: "postNext ?r" using f(1) by (auto simp: postNext_def)
    obtain t us where t: "printE e = t # us" using printE_ne by (cases "printE e") auto
    have "prefix (runParser m) s (st P x (printE e @ ?r)) = postfix (runParser m) s (st P x (printE e @ ?r))"
      using prefix_postfix [of t] first_level0 [OF we lv] t by simp
    also have "\<dots> = loopP (postfixStep (runParser m)) (astOf e) (st P (last (printE e)) ?r)"
      using e lv l q by (simp add: good_def readsPostfix_def)
    also have "\<dots> = Ok (astOf (EPost k e)) (st P (tk (postTag k)) rs)"
      by (rule loopP_break) (use f in \<open>auto simp: postfixStep_def assertOp_def ev\<close>)
    finally show "prefix (runParser m) s (st P x (printE (EPost k e) @ rs)) =
        Ok (astOf (EPost k e)) (st P (last (printE (EPost k e))) rs)" by simp
  qed
qed simp_all

lemma good_neg: "good (ENeg v)"
proof (rule good_of_prefix)
  show "readsPrefix (ENeg v)"
    unfolding readsPrefix_def
    by (simp add: prefix_def parseInteger_def ev literal_suffix_id typedLiteral_id)
qed simp_all

lemma first_not_float: "wellFormed e \<Longrightarrow> pt_tag (hd (printE e)) \<noteq> tokFloatLiteral"
proof (induction e)
  case (EPre k e)
  have "list_all (\<lambda>(_, t, _). t \<noteq> tokFloatLiteral) prefixExprList" by code_simp
  then show ?case using prefix_op_facts(2) [of k] EPre.prems by (auto simp: list_all_iff)
qed auto

lemma good_pre:
  assumes w: "wellFormed (EPre k e)" and e: "good e"
  shows "good (EPre k e)"
proof (rule good_of_prefix)
  from w have k: "k \<in> set (map fst prefixExprList)" and lv: "level e \<le> 1" and we: "wellFormed e"
    and i: "k = ''Minus'' \<or> k = ''Plus'' \<Longrightarrow> pt_tag (hd (printE e)) \<noteq> tokIntLiteral" by auto
  note f = prefix_op_facts [OF k]
  show "readsPrefix (EPre k e)"
    unfolding readsPrefix_def
  proof (intro allI impI)
    fix m s P x rs
    assume l: "length (printE (EPre k e) @ rs) \<le> m" and n: "neutral rs"
    obtain t us where t: "printE e = t # us" using printE_ne by (cases "printE e") auto
    have nf: "pt_tag t \<noteq> tokFloatLiteral" using first_not_float [OF we] t by simp
    have ni: "preTag k = tsym ''-'' \<or> preTag k = tsym ''+'' \<Longrightarrow> pt_tag t \<noteq> tokIntLiteral" using i f(6) t by simp
    have c: "runParser m (CPrefix s) (st P y (printE e @ rs)) = Ok (astOf e) (st P (last (printE e)) rs)" for y
      using l n by (intro call_prefix e lv) simp_all
    have "prefix (runParser m) s (st P x (tk (preTag k) # printE e @ rs)) =
        prefixOperator (runParser m) s (preTag k) (st P x (tk (preTag k) # printE e @ rs))"
      using f(2,3) nf ni by (auto simp: prefix_def ev t simp del: set_map)
    also have "\<dots> = Ok (astOf (EPre k e)) (st P (last (printE e)) rs)"
      using f c by (auto simp: prefixOperator_def ev assertOp_def)
    finally show "prefix (runParser m) s (st P x (printE (EPre k e) @ rs)) =
        Ok (astOf (EPre k e)) (st P (last (printE (EPre k e))) rs)" by simp
  qed
qed simp_all

lemma wellFormed_good: "wellFormed e \<Longrightarrow> good e"
proof (induction e)
  case (EArray es)
  then show ?case by (intro good_array) (simp add: list_all_iff)
next
  case (ECall f es)
  then show ?case by (intro good_call) (simp_all add: list_all_iff)
next
  case (EPre k e)
  then show ?case by (intro good_pre) simp_all
next
  case (EPost k e)
  then show ?case by (intro good_post) simp_all
next
  case (EBin k l r)
  then show ?case by (intro good_binary) simp_all
next
  case (EAsg k l r)
  then show ?case by (intro good_assign) simp_all
next
  case (ETern c a b)
  then show ?case by (intro good_ternary) simp_all
qed (simp_all add: good_atoms good_neg good_group good_index)

section \<open>Round trip\<close>

text \<open>C4: a printed expression is parsed back to its tree: with more steps than tokens,
  \<open>parseExpression\<close> on the tokens of any well-formed expression returns the tree of that expression, with every token
  read and no message logged.\<close>

theorem parse_print_expression:
  assumes "wellFormed e" "length (printE e) < n"
  shows "\<exists>P'. parseExpression n (makeParser driver t (printE e)) = Ok (astOf e) P' \<and>
    P_ahead P' = [] \<and> errorLog P' = []"
proof -
  let ?P = "makeParser driver t (printE e)"
  have "?P = st ?P eofToken (printE e @ [])" by (simp add: st_def makeParser_def)
  moreover have "runParser n (CExpression False) (st ?P eofToken (printE e @ [])) = Ok (astOf e) (st ?P (last (printE e)) [])"
    by (rule call_expression [OF wellFormed_good]) (use assms in \<open>simp_all add: hard_def\<close>)
  ultimately have "parseExpression n ?P = Ok (astOf e) (st ?P (last (printE e)) [])"
    unfolding parseExpression_def by metis
  then show ?thesis by (simp add: st_def makeParser_def)
qed

theorem parse_print_expression_witness:
  "let e = ETern (EBin ''Add'' (EId ''a'') (EBin ''Mul'' (EId ''b'') (ECall (EId ''f'') [EInt 1, ENull])))
             (EAsg ''Assign'' (EIndex (EId ''c'') (EInt 2)) (EPre ''Not'' (EId ''d''))) (EBin ''Sub'' (EBin ''Sub'' (EInt 3) (EInt 2)) (EInt 1))
   in wellFormed e \<and> (\<forall>driver. \<exists>P'. parseExpression 32 (makeParser driver False (printE e)) = Ok (astOf e) P' \<and>
        P_ahead P' = [] \<and> errorLog P' = [])"
proof -
  let ?e = "ETern (EBin ''Add'' (EId ''a'') (EBin ''Mul'' (EId ''b'') (ECall (EId ''f'') [EInt 1, ENull])))
             (EAsg ''Assign'' (EIndex (EId ''c'') (EInt 2)) (EPre ''Not'' (EId ''d''))) (EBin ''Sub'' (EBin ''Sub'' (EInt 3) (EInt 2)) (EInt 1))"
  have w: "wellFormed ?e" by code_simp
  have l: "length (printE ?e) < 32" by code_simp
  show ?thesis unfolding Let_def using w parse_print_expression [OF w l] by blast
qed

end
