(* ===== verification/Cxy_ParserQuirks.thy ===== *)
theory Cxy_ParserQuirks
  imports Cxy_ParserPrint
begin

text \<open>
  Behaviour of the parser that its tests and comments do not expect: programs it refuses, reads in part
  or does not survive. Each theorem runs the model on tokens with a variable rest.
\<close>

section \<open>Literals\<close>

lemma attributes_none: "pt_tag t \<noteq> tsym ''@'' \<Longrightarrow> optAttributes R (st P x (t # ts)) = Ok [] (st P x (t # ts))"
  by (simp add: optAttributes_def ev)

lemma as_stops: "opStop p (tk (kw ''as'') # ts)" "\<not> isAssignmentOperator (kw ''as'')"
proof -
  have "tokenToBinaryOperator (kw ''as'') = opInvalid" "\<not> isAssignmentOperator (kw ''as'')" by code_simp+
  then show "opStop p (tk (kw ''as'') # ts)" "\<not> isAssignmentOperator (kw ''as'')" by (simp_all add: opStop_def)
qed

text \<open>A cast behind a negative literal is not read. On \<open>- v as ...\<close> an expression ends behind the literal
  and leaves the cast and all that follows unread, without an error; on \<open>v as void\<close>, without the sign, it is the cast.\<close>

theorem negative_literal_cast_unread:
  "(\<exists>P'. parseExpression (Suc n) (makeParser driver t (stk ''-'' # intToken v # tk (kw ''as'') # ts)) = Ok (astOf (ENeg v)) P' \<and>
      P_ahead P' = tk (kw ''as'') # ts \<and> errorLog P' = []) \<and>
   (\<exists>P'. parseExpression (Suc (Suc n)) (makeParser driver t [intToken v, tk (kw ''as''), tk (kw ''void'')]) =
      Ok (castNode flgNone (astOf (EInt v)) [Ast ''VoidType'' flgTypeAst [] []]) P' \<and> P_ahead P' = [])"
proof -
  let ?r = "tk (kw ''as'') # ts"
  have st: "makeParser driver t ts = st (makeParser driver t ts) eofToken ts" for ts
    by (simp add: st_def makeParser_def)
  have eof: "opStop p []" "\<not> isAssignmentOperator tokEoF" for p
    using not_operator_eval by (simp_all add: opStop_def)
  have void: "\<not> isPrimitiveTypeTag (kw ''void'')" by code_simp
  have lit: "prefix R s (st P x (stk ''-'' # intToken v # ?r)) = Ok (astOf (ENeg v)) (st P (intToken v) ?r)" for R s P x
    by (simp add: prefix_def parseInteger_def ev wrapLiteralWithSuffix_def typedLiteral_def)
  have "parseExpression (Suc n) (st P x (stk ''-'' # intToken v # ?r)) = Ok (astOf (ENeg v)) (st P (intToken v) ?r)" for P x
    by (simp add: parseExpression_def dispatch_def expression_def ternary_def assign_def attributes_none ev lit as_stops binary_stop
        setAttrs_def integerNode_def mkNode_def)
  note neg = this
  have "parseType R (st P x [tk (kw ''void'')]) = Ok [Ast ''VoidType'' flgTypeAst [] []] (st P (tk (kw ''void'')) [])" for R P x
    unfolding parseType_def
    by (simp add: ev) (subst loopP_break, simp add: parseTypeImpl_def parseTypeBase_def ev void simpleType_def mkNode_def
        listAddAstNode_def orFlags_def flgNone_def, simp add: ev)
  then have "primary (runParser (Suc n)) s (st P x [intToken v, tk (kw ''as''), tk (kw ''void'')]) =
      Ok (castNode flgNone (astOf (EInt v)) [Ast ''VoidType'' flgTypeAst [] []]) (st P (tk (kw ''void'')) [])" for s P x
    by (simp add: primary_def primaryBase_def parseInteger_def wrapLiteralWithSuffix_def typedLiteral_def postfixCast_def
        dispatch_def ev)
  then have "prefix (runParser (Suc n)) s (st P x [intToken v, tk (kw ''as''), tk (kw ''void'')]) =
      Ok (castNode flgNone (astOf (EInt v)) [Ast ''VoidType'' flgTypeAst [] []]) (st P (tk (kw ''void'')) [])" for s P x
    by (simp add: prefix_postfix starts_def postfix_def ev postfix_stop neutral_def del: runParser.simps)
  then have "parseExpression (Suc (Suc n)) (st P x [intToken v, tk (kw ''as''), tk (kw ''void'')]) =
      Ok (castNode flgNone (astOf (EInt v)) [Ast ''VoidType'' flgTypeAst [] []]) (st P (tk (kw ''void'')) [])" for P x
    by (simp add: parseExpression_def runParser.simps(2) [of "Suc n"] dispatch_def expression_def ternary_def assign_def attributes_none ev
        eof binary_stop setAttrs_def castNode_def mkNode_def del: runParser.simps)
  note cast = this
  have log: "errorLog (st (makeParser driver t us) y rs) = []" for us y rs by (simp add: st_def makeParser_def)
  show ?thesis
    using neg [of "makeParser driver t (stk ''-'' # intToken v # ?r)" eofToken]
      cast [of "makeParser driver t [intToken v, tk (kw ''as''), tk (kw ''void'')]" eofToken]
    unfolding st [symmetric] by (simp add: log del: astOf.simps)
qed

section \<open>Closures, attributes, tests and skipped blocks\<close>

text \<open>A closure whose first parameter is variadic is never recognised: at \<open>( ...\<close> the test for a closure fails
  whatever follows, because it asks for an identifier and for a colon at the same place.\<close>

theorem variadic_closure_not_recognised:
  "maybeClosure (st P x (stk ''('' # stk ''...'' # ts)) = Ok False (st P x (stk ''('' # stk ''...'' # ts))"
  by (auto simp: maybeClosure_def ev)

text \<open>A signed number is never accepted as the value of an attribute: at a sign the parser looks for the
  number at the place of the sign, and reports an error whatever follows.\<close>

theorem signed_attribute_value_rejected:
  "attributeValue R (st P x (stk (if neg then ''-'' else ''+'') # ts)) =
     Throw ((st P (stk (if neg then ''-'' else ''+'')) ts)
       \<lparr>errorLog := errorLog P @ [''unexpected token, expecting string/float/int/char/bool literal'']\<rparr>)"
proof -
  have log: "errorLog (st P y us) = errorLog P" for y us by (simp add: st_def)
  show ?thesis
    by (cases neg) (simp_all add: attributeValue_def ev reportUnexpectedToken_def parserError_def logError_def modP_def Let_def log)
qed

text \<open>A block that is skipped ends at its first closing brace, so a block nested in it leaves the closing
  brace of the outer one unread.\<close>

theorem skipped_block_ends_at_first_brace:
  "\<exists>P'. skipBlock (st P x (stk ''{'' # stk ''{'' # stk ''}'' # stk ''}'' # ts)) = Ok () P' \<and> P_ahead P' = stk ''}'' # ts"
proof -
  have skip: "skipUntil (tsym ''}'') (st P y (stk ''{'' # stk ''}'' # us)) = Ok True (st P (stk ''{'') (stk ''}'' # us))" for y us
    by (simp add: skipUntil_def ev modP_def Let_def) (simp add: st_def check_def current_def getP_def bindP_def retP_def curTok_def)
  show ?thesis by (simp add: skipBlock_def ev skip)
qed

end
