(* ===== verification/Cxy_Scope.thy ===== *)
theory Cxy_Scope
  imports Cxy_HashTable
begin

text \<open>
  The scopes of the binder, \<open>lang/middle/bind/scope.c\<close>: environments of nested scopes, each with a hash
  table of symbols, the search for the nearest binding, for similar names and for enclosing
  constructs, and the stack of block scopes.

  An interned string is its address and its characters; names are compared by address. A node is its
  address; its tag and flags do not change here and are given by \<open>N\<close>, the members that do are in the
  state. The chain of scopes from \<open>first\<close> through \<open>next\<close> is a list, and \<open>scope\<close> is the index of the
  current one: the scopes behind it are kept for later use. The value \<open>None\<close> of an operation is a
  failed assertion, a null pointer or a search that does not return. The builtins are a function, absent
  before they are initialised. Whether there is a log is the argument \<open>L\<close>. \<open>releaseScope\<close>, which nothing
  calls and no header declares, is left out.
\<close>

section \<open>State\<close>

type_synonym name = "u64 \<times> cstring"
type_synonym addr = nat

record Symbol =
  sym_index :: u16
  sym_name :: name
  sym_node :: addr
  sym_last :: "addr option"

text \<open>The level of the first scope is not initialised.\<close>

record Scope =
  symbols :: "Symbol HashTable"
  scope_node :: addr
  level :: "u64 option"

record Env =
  chain :: "Scope list"
  scope :: "nat option"

text \<open>The constant members of a node.\<close>

record Decl =
  decl_tag :: cstring
  isForward :: bool
  isPublicDecl :: bool

datatype bind_message =
  AlreadyDefined cstring
| PreviouslyDeclared addr
| UndefinedSymbol cstring
| UndefinedModuleSymbol cstring
| DidYouMean cstring
| OutsideOf cstring cstring

record Binder =
  env :: Env
  func_index :: "addr \<Rightarrow> u16"
  list_link :: "addr \<Rightarrow> addr option"
  list_first :: "addr \<Rightarrow> addr option"
  definitionOf :: "addr \<Rightarrow> addr option"
  messages :: "bind_message list"

section \<open>Scopes\<close>

definition compareSymbols :: "name \<Rightarrow> Symbol \<Rightarrow> bool" where
  "compareSymbols name s \<longleftrightarrow> fst (sym_name s) = fst name"

definition isIgnoreVar :: "name \<Rightarrow> bool" where
  "isIgnoreVar name \<longleftrightarrow> snd name = ''_''"

definition symbolHash :: "name \<Rightarrow> HashCode" where
  "symbolHash name = hashPtr hashInit (fst name)"

definition newScope :: "Scope option \<Rightarrow> addr \<Rightarrow> Scope" where
  "newScope prev node =
     \<lparr>symbols = newHashTable, scope_node = node,
      level = (case prev of None \<Rightarrow> None | Some p \<Rightarrow> map_option (\<lambda>l. l + 1) (level p))\<rparr>"

definition pushScope :: "Env \<Rightarrow> addr \<Rightarrow> Env" where
  "pushScope e node =
     (case scope e of
        None \<Rightarrow> e\<lparr>chain := (chain e)[0 := (chain e ! 0)\<lparr>scope_node := node\<rparr>], scope := Some 0\<rparr>
      | Some i \<Rightarrow>
          if Suc i < length (chain e)
          then e\<lparr>chain := (chain e)[Suc i := (chain e ! Suc i)\<lparr>scope_node := node\<rparr>], scope := Some (Suc i)\<rparr>
          else e\<lparr>chain := chain e @ [newScope (Some (chain e ! i)) node], scope := Some (Suc i)\<rparr>)"

definition popScope :: "Env \<Rightarrow> Env option" where
  "popScope e =
     (case scope e of
        None \<Rightarrow> None
      | Some i \<Rightarrow>
          Some (e\<lparr>chain := (chain e)[i := (chain e ! i)\<lparr>symbols := clearHashTable (symbols (chain e ! i))\<rparr>],
                  scope := (case i of 0 \<Rightarrow> None | Suc j \<Rightarrow> Some j)\<rparr>))"

definition environmentInit :: "addr \<Rightarrow> Env" where
  "environmentInit node = pushScope \<lparr>chain = [newScope None node], scope = None\<rparr> node"

text \<open>The scopes from the current one outwards, through \<open>prev\<close>.\<close>

definition visible :: "Env \<Rightarrow> Scope list" where
  "visible e = (case scope e of None \<Rightarrow> [] | Some i \<Rightarrow> rev (take (Suc i) (chain e)))"

section \<open>Similar names\<close>

text \<open>A character behind the end of a string is NUL, which ends both strings at once.\<close>

function levenshteinDistance :: "cstring \<Rightarrow> cstring \<Rightarrow> nat \<Rightarrow> nat" where
  "levenshteinDistance lhs rhs minDist =
     (if lhs = [] then length rhs
      else if rhs = [] then length lhs
      else if hd lhs = hd rhs then levenshteinDistance (tl lhs) (tl rhs) minDist
      else if minDist = 0 then 1
      else let a = levenshteinDistance (tl lhs) rhs (minDist - 1);
               b = levenshteinDistance lhs (tl rhs) (minDist - 1);
               c = levenshteinDistance (tl lhs) (tl rhs) (minDist - 1)
           in 1 + min c (min a b))"
  by pat_completeness auto
termination
  by (relation "measure (\<lambda>(l, r, _). length l + length r)") (auto simp: neq_Nil_conv)

declare levenshteinDistance.simps [simp del]

text \<open>The loop over the buckets of the tables: the distance to beat and the name found.\<close>

primrec suggestLoop :: "cstring \<Rightarrow> cstring list \<Rightarrow> nat \<times> cstring option \<Rightarrow> nat \<times> cstring option" where
  "suggestLoop name [] acc = acc"
| "suggestLoop name (s # ss) acc =
     (let dist = levenshteinDistance name s (fst acc)
      in suggestLoop name ss (if dist < fst acc then (dist, Some s) else acc))"

definition scopeNames :: "Scope \<Rightarrow> cstring list" where
  "scopeNames sc =
     map (\<lambda>i. case ht_elems (symbols sc) ! i of Some s \<Rightarrow> snd (sym_name s) | None \<Rightarrow> [])
       (filter (isBucketOccupied (symbols sc)) [0..<ht_capacity (symbols sc)])"

definition suggestSimilarSymbol :: "Scope list \<Rightarrow> cstring \<Rightarrow> bind_message list" where
  "suggestSimilarSymbol scopes name =
     (if length name \<le> 2 then []
      else case suggestLoop name (concat (map scopeNames scopes)) (2, None) of
             (_, None) \<Rightarrow> []
           | (_, Some similar) \<Rightarrow> [DidYouMean similar])"

section \<open>Definitions and lookups\<close>

definition logNotes :: "bool \<Rightarrow> bind_message list \<Rightarrow> Binder \<Rightarrow> Binder" where
  "logNotes L ns B = (if L then B\<lparr>messages := messages B @ ns\<rparr> else B)"

definition setTable :: "nat \<Rightarrow> Symbol HashTable \<Rightarrow> Binder \<Rightarrow> Binder" where
  "setTable i t B =
     B\<lparr>env := (env B)\<lparr>chain := (chain (env B))[i := (chain (env B) ! i)\<lparr>symbols := t\<rparr>]\<rparr>\<rparr>"

text \<open>A write through the pointer to an element of a table.\<close>

definition updateElem :: "nat \<Rightarrow> ('e \<Rightarrow> 'e) \<Rightarrow> 'e HashTable \<Rightarrow> 'e HashTable" where
  "updateElem p f t = t\<lparr>ht_elems := (ht_elems t)[p := map_option f (ht_elems t ! p)]\<rparr>"

definition findIn :: "Symbol HashTable \<Rightarrow> name \<Rightarrow> nat option option" where
  "findIn t name = findInHashTable t (symbolHash name) (compareSymbols name)"

definition insertIn :: "Symbol HashTable \<Rightarrow> name \<Rightarrow> addr \<Rightarrow> (bool \<times> Symbol HashTable) option" where
  "insertIn t name node =
     insertInHashTable t \<lparr>sym_index = 0, sym_name = name, sym_node = node, sym_last = None\<rparr> (symbolHash name) (compareSymbols name)"

definition symbolAt :: "Symbol HashTable \<Rightarrow> nat \<Rightarrow> Symbol option" where
  "symbolAt t p = ht_deref t p"

definition defineSymbol :: "bool \<Rightarrow> name \<Rightarrow> addr \<Rightarrow> Binder \<Rightarrow> (bool \<times> Binder) option" where
  "defineSymbol L name node B =
     (case scope (env B) of
        None \<Rightarrow> None
      | Some i \<Rightarrow>
          if isIgnoreVar name then Some (False, B)
          else
            case insertIn (symbols (chain (env B) ! i)) name node of
              None \<Rightarrow> None
            | Some (True, t) \<Rightarrow> Some (True, setTable i t B)
            | Some (False, t) \<Rightarrow>
                if \<not> L then Some (False, setTable i t B)
                else case findIn t name of
                       Some (Some p) \<Rightarrow>
                         map_option (\<lambda>prev. (False, logNotes L [AlreadyDefined (snd name), PreviouslyDeclared (sym_node prev)] (setTable i t B)))
                           (symbolAt t p)
                     | _ \<Rightarrow> None)"

text \<open>The tags for which \<open>setForwardDeclDefinition\<close> does not fail.\<close>

definition forwardTags :: "cstring set" where
  "forwardTags = {''FuncDecl'', ''MacroDecl'', ''TypeDecl''}"

definition defineForwardDeclarable :: "(addr \<Rightarrow> Decl) \<Rightarrow> bool \<Rightarrow> name \<Rightarrow> addr \<Rightarrow> Binder \<Rightarrow> (bool \<times> Binder) option" where
  "defineForwardDeclarable N L name node B =
     (case scope (env B) of
        None \<Rightarrow> None
      | Some i \<Rightarrow>
          if isIgnoreVar name then Some (True, B)
          else
            case insertIn (symbols (chain (env B) ! i)) name node of
              None \<Rightarrow> None
            | Some (True, t) \<Rightarrow> Some (True, setTable i t B)
            | Some (False, t) \<Rightarrow>
                (case findIn t name of
                   Some (Some p) \<Rightarrow>
                     (case symbolAt t p of
                        None \<Rightarrow> None
                      | Some prev \<Rightarrow>
                          if \<not> isForward (N (sym_node prev))
                          then Some (False, logNotes L [AlreadyDefined (snd name), PreviouslyDeclared (sym_node prev)] (setTable i t B))
                          else if decl_tag (N (sym_node prev)) \<notin> forwardTags then None
                          else Some (True, setTable i (updateElem p (\<lambda>s. s\<lparr>sym_node := node\<rparr>) t)
                                 (B\<lparr>definitionOf := (definitionOf B)(sym_node prev := Some node)\<rparr>)))
                 | _ \<Rightarrow> None))"

definition updateSymbol :: "name \<Rightarrow> addr \<Rightarrow> Binder \<Rightarrow> Binder option" where
  "updateSymbol name node B =
     (case scope (env B) of
        None \<Rightarrow> None
      | Some i \<Rightarrow>
          if isIgnoreVar name then Some B
          else
            case insertIn (symbols (chain (env B) ! i)) name node of
              None \<Rightarrow> None
            | Some (True, t) \<Rightarrow> Some (setTable i t B)
            | Some (False, t) \<Rightarrow>
                (case findIn t name of
                   Some (Some p) \<Rightarrow> Some (setTable i (updateElem p (\<lambda>s. s\<lparr>sym_node := node\<rparr>) t) B)
                 | _ \<Rightarrow> None))"

text \<open>Functions of one name are a list through \<open>link\<close>, with their numbers; all point to the first.\<close>

definition defineFunctionDecl :: "(addr \<Rightarrow> Decl) \<Rightarrow> bool \<Rightarrow> name \<Rightarrow> addr \<Rightarrow> Binder \<Rightarrow> Binder option" where
  "defineFunctionDecl N L name node B =
     (case scope (env B) of
        None \<Rightarrow> None
      | Some i \<Rightarrow>
          if isIgnoreVar name then Some B
          else
            case insertIn (symbols (chain (env B) ! i)) name node of
              None \<Rightarrow> None
            | Some (inserted, t) \<Rightarrow>
                (case findIn t name of
                   Some (Some p) \<Rightarrow>
                     (case symbolAt t p of
                        None \<Rightarrow> None
                      | Some symb \<Rightarrow>
                          let finish = (\<lambda>f B. setTable i (updateElem p (\<lambda>s. f s\<lparr>sym_index := sym_index s + 1\<rparr>) t)
                                 (B\<lparr>list_first := (list_first B)(node := Some (sym_node symb))\<rparr>))
                          in if \<not> inserted \<and> L \<and> decl_tag (N (sym_node symb)) \<noteq> ''FuncDecl''
                             then Some (finish id (logNotes L [AlreadyDefined (snd name), PreviouslyDeclared (sym_node symb)] B))
                             else if \<not> inserted
                             then (case sym_last symb of
                                     None \<Rightarrow> None
                                   | Some l \<Rightarrow>
                                       Some (finish (\<lambda>s. s\<lparr>sym_last := Some node\<rparr>)
                                         (B\<lparr>func_index := (func_index B)(node := sym_index symb),
                                            list_link := (list_link B)(l := Some node)\<rparr>)))
                             else Some (finish (\<lambda>s. s\<lparr>sym_last := Some node\<rparr>) B))
                 | _ \<Rightarrow> None))"

text \<open>The loop of \<open>findSymbol\<close>: \<open>Some None\<close> when no scope has the name.\<close>

fun findLoop :: "Scope list \<Rightarrow> name \<Rightarrow> addr option option" where
  "findLoop [] name = Some None"
| "findLoop (sc # scs) name =
     (case findIn (symbols sc) name of
        None \<Rightarrow> None
      | Some None \<Rightarrow> findLoop scs name
      | Some (Some p) \<Rightarrow> map_option (\<lambda>s. Some (sym_node s)) (symbolAt (symbols sc) p))"

type_synonym builtins = "(cstring \<Rightarrow> addr option) option"

definition publicBuiltin :: "(addr \<Rightarrow> Decl) \<Rightarrow> builtins \<Rightarrow> name \<Rightarrow> addr option" where
  "publicBuiltin N builtin name =
     (case builtin of
        None \<Rightarrow> None
      | Some findBuiltinDecl \<Rightarrow> (case findBuiltinDecl (snd name) of None \<Rightarrow> None | Some n \<Rightarrow> if isPublicDecl (N n) then Some n else None))"

definition findSymbol ::
  "(addr \<Rightarrow> Decl) \<Rightarrow> builtins \<Rightarrow> bool \<Rightarrow> name \<Rightarrow> Binder \<Rightarrow> (addr option \<times> Binder) option" where
  "findSymbol N builtin L name B =
     (case findLoop (visible (env B)) name of
        None \<Rightarrow> None
      | Some (Some n) \<Rightarrow> Some (Some n, B)
      | Some None \<Rightarrow>
          (case publicBuiltin N builtin name of
             Some n \<Rightarrow> Some (Some n, B)
           | None \<Rightarrow> Some (None, logNotes L (UndefinedSymbol (snd name) # suggestSimilarSymbol (visible (env B)) (snd name)) B)))"

definition findSymbolInRoot :: "bool \<Rightarrow> name \<Rightarrow> Binder \<Rightarrow> (addr option \<times> Binder) option" where
  "findSymbolInRoot L name B =
     (let root = hd (chain (env B))
      in case findIn (symbols root) name of
           None \<Rightarrow> None
         | Some (Some p) \<Rightarrow> map_option (\<lambda>s. (Some (sym_node s), B)) (symbolAt (symbols root) p)
         | Some None \<Rightarrow>
             Some (None, logNotes L (UndefinedModuleSymbol (snd name) # suggestSimilarSymbol [root] (snd name)) B))"

section \<open>Enclosing constructs\<close>

definition findEnclosingScope :: "(addr \<Rightarrow> Decl) \<Rightarrow> bool \<Rightarrow> cstring \<Rightarrow> cstring \<Rightarrow> cstring list \<Rightarrow> Binder \<Rightarrow> addr option \<times> Binder" where
  "findEnclosingScope N L keyword context tags B =
     (case List.find (\<lambda>sc. decl_tag (N (scope_node sc)) \<in> set tags) (visible (env B)) of
        Some sc \<Rightarrow> (Some (scope_node sc), B)
      | None \<Rightarrow> (None, logNotes L [OutsideOf keyword context] B))"

definition findEnclosingLoop where
  "findEnclosingLoop N L keyword = findEnclosingScope N L keyword ''loop'' [''WhileStmt'', ''ForStmt'', ''Error'']"

definition findEnclosingLoopOrSwitch where
  "findEnclosingLoopOrSwitch N L keyword =
     findEnclosingScope N L keyword ''loop or switch'' [''WhileStmt'', ''ForStmt'', ''SwitchStmt'']"

definition findEnclosingFunctionOrClosure where
  "findEnclosingFunctionOrClosure N L =
     findEnclosingScope N L ''return'' ''function'' [''ClosureExpr'', ''FuncDecl'', ''Exception'']"

definition findEnclosingFunction where
  "findEnclosingFunction N L keyword = findEnclosingScope N L keyword ''function'' [''FuncDecl'', ''FuncDecl'', ''Error'']"

definition findEnclosingStruct where
  "findEnclosingStruct N L keyword = findEnclosingScope N L keyword ''struct'' [''StructDecl'', ''StructDecl'', ''Error'']"

definition findEnclosingClass where
  "findEnclosingClass N L keyword = findEnclosingScope N L keyword ''class'' [''ClassDecl'', ''ClassDecl'', ''Error'']"

text \<open>The search for an interface looks for a class.\<close>

definition findEnclosingInterface where
  "findEnclosingInterface N L keyword = findEnclosingScope N L keyword ''class'' [''ClassDecl'', ''ClassDecl'', ''Error'']"

definition findEnclosingClassOrStruct where
  "findEnclosingClassOrStruct N L keyword =
     findEnclosingScope N L keyword ''class or struct'' [''StructDecl'', ''ClassDecl'', ''Error'']"

definition findEnclosingClassOrStructOrInterface where
  "findEnclosingClassOrStructOrInterface N L keyword =
     findEnclosingScope N L keyword ''class or struct'' [''StructDecl'', ''ClassDecl'', ''InterfaceDecl'']"

definition findEnclosingBlock where
  "findEnclosingBlock N L keyword = findEnclosingScope N L keyword ''block'' [''BlockStmt'', ''BlockStmt'', ''Error'']"

section \<open>Block scopes\<close>

text \<open>The data of a block scope are released when it is popped; the record is kept in a cache.\<close>

record 'd BlockScope =
  block_node :: addr
  block_flags :: u64
  block_data :: "'d list"

record 'd BlockScopeContainer =
  blocks :: "'d BlockScope list"
  cache :: nat

definition blockScopeContainerInit :: "'d BlockScopeContainer" where
  "blockScopeContainerInit = \<lparr>blocks = [], cache = 0\<rparr>"

definition blockScopeContainerPush :: "addr \<Rightarrow> u64 \<Rightarrow> 'd BlockScopeContainer \<Rightarrow> 'd BlockScopeContainer" where
  "blockScopeContainerPush node flags c =
     c\<lparr>blocks := \<lparr>block_node = node, block_flags = flags, block_data = []\<rparr> # blocks c, cache := cache c - 1\<rparr>"

definition blockScopeContainerPop :: "'d BlockScopeContainer \<Rightarrow> 'd BlockScopeContainer" where
  "blockScopeContainerPop c =
     (case blocks c of [] \<Rightarrow> c | _ # bs \<Rightarrow> c\<lparr>blocks := bs, cache := cache c + 1\<rparr>)"


definition blockScopeContainerDeinit :: "'d BlockScopeContainer \<Rightarrow> 'd BlockScopeContainer" where
  "blockScopeContainerDeinit c = c\<lparr>blocks := [], cache := 0\<rparr>"

section \<open>Edit distance\<close>

text \<open>A string is changed into another by insertions, deletions and replacements of characters.\<close>

inductive edits :: "nat \<Rightarrow> cstring \<Rightarrow> cstring \<Rightarrow> bool" where
  finished: "edits 0 [] []"
| keep: "edits n l r \<Longrightarrow> edits n (a # l) (a # r)"
| delete: "edits n l r \<Longrightarrow> edits (Suc n) (a # l) r"
| insert: "edits n l r \<Longrightarrow> edits (Suc n) l (b # r)"
| replace: "edits n l r \<Longrightarrow> edits (Suc n) (a # l) (b # r)"

inductive_cases edits_Nil_lE: "edits n [] r"
inductive_cases edits_Nil_rE: "edits n l []"
inductive_cases edits_0E: "edits 0 l r"
inductive_cases edits_ConsE: "edits n (a # l) (b # r)"

definition within :: "nat \<Rightarrow> cstring \<Rightarrow> cstring \<Rightarrow> bool" where
  "within n l r \<longleftrightarrow> (\<exists>m\<le>n. edits m l r)"

lemma within_mono: "within n l r \<Longrightarrow> n \<le> k \<Longrightarrow> within k l r"
  by (meson le_trans within_def)

lemma edits_within: "edits m l r \<Longrightarrow> m \<le> n \<Longrightarrow> within n l r"
  by (auto simp: within_def)

lemma edits_drop: "edits n l r \<Longrightarrow> (\<forall>a l'. l = a # l' \<longrightarrow> within (Suc n) l' r) \<and> (\<forall>b r'. r = b # r' \<longrightarrow> within (Suc n) l r')"
proof (induction rule: edits.induct)
  case (keep n l r a)
  then show ?case by (auto simp: within_def intro: edits.intros)
next
  case (delete n l r a)
  have "within (Suc n) l r'" if "r = b # r'" for b r' using delete that by blast
  then have "within (Suc (Suc n)) (a # l) r'" if "r = b # r'" for b r'
    using that by (fastforce simp: within_def intro: edits.delete)
  moreover have "within (Suc (Suc n)) l r" by (rule edits_within [OF delete(1)]) simp
  ultimately show ?case by blast
next
  case (insert n l r b)
  have "within (Suc n) l' r" if "l = a # l'" for a l' using insert that by blast
  then have "within (Suc (Suc n)) l' (b # r)" if "l = a # l'" for a l'
    using that by (fastforce simp: within_def intro: edits.insert)
  moreover have "within (Suc (Suc n)) l r" by (rule edits_within [OF insert(1)]) simp
  ultimately show ?case by blast
next
  case (replace n l r a b)
  have "within (Suc (Suc n)) l (b # r)" "within (Suc (Suc n)) (a # l) r"
    using edits.insert [OF replace(1), of b] edits.delete [OF replace(1), of a] by (auto intro: edits_within)
  then show ?case by blast
qed simp

lemma within_same_head: "within n (a # l) (a # r) \<longleftrightarrow> within n l r"
proof
  assume "within n (a # l) (a # r)"
  then obtain m where m: "m \<le> n" "edits m (a # l) (a # r)" by (auto simp: within_def)
  from m(2) have "within m l r"
    by (rule edits_ConsE) (use edits_drop in \<open>blast intro: edits_within le_SucI order_refl\<close>)+
  then show "within n l r" using m(1) by (rule within_mono)
next
  assume "within n l r"
  then show "within n (a # l) (a # r)" by (auto simp: within_def intro: edits.keep)
qed

lemma within_other_head:
  assumes "a \<noteq> b"
  shows "within n (a # l) (b # r) \<longleftrightarrow>
    (\<exists>k. n = Suc k \<and> (within k l r \<or> within k l (b # r) \<or> within k (a # l) r))"
proof
  assume "within n (a # l) (b # r)"
  then obtain m where m: "m \<le> n" "edits m (a # l) (b # r)" by (auto simp: within_def)
  from m(2) show "\<exists>k. n = Suc k \<and> (within k l r \<or> within k l (b # r) \<or> within k (a # l) r)"
    by (rule edits_ConsE; cases n) (use m(1) assms in \<open>auto intro: edits_within\<close>)
next
  assume "\<exists>k. n = Suc k \<and> (within k l r \<or> within k l (b # r) \<or> within k (a # l) r)"
  then show "within n (a # l) (b # r)" by (auto simp: within_def intro: edits.intros)
qed

lemma edits_length: "edits n l r \<Longrightarrow> length l \<le> n + length r \<and> length r \<le> n + length l"
  by (induction rule: edits.induct) auto

lemma within_Nil: "within n [] r \<longleftrightarrow> length r \<le> n" "within n l [] \<longleftrightarrow> length l \<le> n"
proof -
  have "edits (length r) [] r" "edits (length l) l []"
    by (induction r; simp add: edits.intros) (induction l; simp add: edits.intros)
  then show "within n [] r \<longleftrightarrow> length r \<le> n" "within n l [] \<longleftrightarrow> length l \<le> n"
    using edits_length by (fastforce simp: within_def)+
qed

text \<open>The bounded recursion computes the edit distance where it matters. For every bound up to the one it is
  given, the result is within the bound exactly when that many insertions, deletions and replacements turn one
  name into the other.\<close>

theorem levenshteinDistance_bounded:
  assumes "n \<le> minDist"
  shows "levenshteinDistance lhs rhs minDist \<le> n \<longleftrightarrow> (\<exists>m\<le>n. edits m lhs rhs)"
proof -
  have "levenshteinDistance lhs rhs minDist \<le> n \<longleftrightarrow> within n lhs rhs"
    using assms
  proof (induction lhs rhs minDist arbitrary: n rule: levenshteinDistance.induct)
    case (1 lhs rhs k)
    show ?case
    proof (cases "lhs = [] \<or> rhs = []")
      case True
      then show ?thesis by (subst levenshteinDistance.simps) (auto simp: within_Nil)
    next
      case False
      then obtain a l b r where c: "lhs = a # l" "rhs = b # r" by (auto simp: neq_Nil_conv)
      show ?thesis
      proof (cases "a = b")
        case True
        with 1(1) 1(5) c show ?thesis
          by (subst levenshteinDistance.simps) (simp add: within_same_head)
      next
        case ab: False
        show ?thesis
        proof (cases k)
          case 0
          then show ?thesis using c ab 1(5) by (subst levenshteinDistance.simps) (simp add: within_other_head)
        next
          case (Suc k')
          show ?thesis
          proof (cases n)
            case 0
            then show ?thesis using c ab Suc by (subst levenshteinDistance.simps) (simp add: within_other_head Let_def)
          next
            case (Suc n')
            then have "n' \<le> k'" using 1(5) \<open>k = Suc k'\<close> by simp
            then have "levenshteinDistance l (b # r) k' \<le> n' \<longleftrightarrow> within n' l (b # r)"
              "levenshteinDistance (a # l) r k' \<le> n' \<longleftrightarrow> within n' (a # l) r" "levenshteinDistance l r k' \<le> n' \<longleftrightarrow> within n' l r"
              using 1(2) [of n'] 1(3) [OF _ _ _ _ refl, of n'] 1(4) [OF _ _ _ _ refl refl, of n'] c ab \<open>k = Suc k'\<close> by simp_all
            with c ab \<open>k = Suc k'\<close> Suc show ?thesis
              by (subst levenshteinDistance.simps) (auto simp: within_other_head Let_def min_le_iff_disj)
          qed
        qed
      qed
    qed
  qed
  then show ?thesis by (simp add: within_def)
qed

theorem levenshteinDistance_bounded_witness:
  "levenshteinDistance ''lenght'' ''length'' 2 \<le> 2 \<and> (\<exists>m\<le>2. edits m ''lenght'' ''length'') \<and>
   \<not> levenshteinDistance ''lenght'' ''length'' 1 \<le> 1"
proof -
  have "levenshteinDistance ''lenght'' ''length'' 2 \<le> 2" "\<not> levenshteinDistance ''lenght'' ''length'' 1 \<le> 1"
    by code_simp+
  then show ?thesis using levenshteinDistance_bounded [of 2 2 "''lenght''" "''length''"] by blast
qed


section \<open>Symbol tables as maps\<close>

text \<open>The symbol a table has for an address.\<close>

definition binding :: "Symbol HashTable \<Rightarrow> u64 \<Rightarrow> Symbol option" where
  "binding t a = (case findIn t (a, []) of Some (Some p) \<Rightarrow> symbolAt t p | _ \<Rightarrow> None)"

definition entryKey :: "HashCode \<times> Symbol option \<Rightarrow> u64" where
  "entryKey x = (case snd x of Some s \<Rightarrow> fst (sym_name s) | None \<Rightarrow> 0)"

text \<open>Symbols are stored under the hash of their names, one for each name.\<close>

definition table_ok :: "Symbol HashTable \<Rightarrow> bool" where
  "table_ok t \<longleftrightarrow> ht_inv t \<and>
     (\<forall>h s. (h, Some s) \<in># entries t \<longrightarrow> h = symbolHash (sym_name s) OR OCCUPIED_MASK) \<and>
     (\<forall>a. count (image_mset entryKey (entries t)) a \<le> 1)"

lemma table_inv: "table_ok t \<Longrightarrow> ht_inv t"
  by (simp add: table_ok_def)

lemma table_hash: "table_ok t \<Longrightarrow> (h, Some s) \<in># entries t \<Longrightarrow> h = symbolHash (sym_name s) OR OCCUPIED_MASK"
  unfolding table_ok_def by blast

lemma one_symbol:
  assumes "table_ok t" "x \<in># entries t" "y \<in># entries t" "entryKey x = entryKey y"
  shows "x = y"
proof (rule ccontr)
  assume "x \<noteq> y"
  from multi_member_split [OF assms(2)] obtain N where N: "entries t = add_mset x N" by blast
  with assms(3) \<open>x \<noteq> y\<close> have "y \<in># N" by simp
  from multi_member_split [OF this] N obtain M where "entries t = add_mset x (add_mset y M)" by blast
  then have "2 \<le> count (image_mset entryKey (entries t)) (entryKey x)" using assms(4) by simp
  with assms(1) show False unfolding table_ok_def by (metis Suc_1 not_less_eq_eq)
qed

lemma entries_Some:
  assumes "ht_inv t" "x \<in># entries t"
  obtains k y where "x = (k, Some y)"
proof -
  obtain i where i: "i < ht_capacity t" "isBucketOccupied t i" "ht_hashes t ! i = fst x" "ht_elems t ! i = snd x"
    using assms(2) in_entries_iff [OF ht_inv_arrays [OF assms(1)], of "fst x" "snd x"] by auto
  have "\<forall>i<ht_capacity t. isBucketOccupied t i \<longrightarrow> ht_elems t ! i \<noteq> None"
    using ht_inv_arrays [OF assms(1)] by (simp add: arrays_ok_def isBucketOccupied_def)
  with i have "snd x \<noteq> None" by metis
  with that show thesis by (cases x) auto
qed

lemma findIn_fst: "findIn t name = findIn t (fst name, [])"
  by (simp add: findIn_def symbolHash_def compareSymbols_def [abs_def])

lemma binding_iff:
  assumes ok: "table_ok t"
  shows "binding t a = Some s \<longleftrightarrow> (\<exists>h. (h, Some s) \<in># entries t) \<and> fst (sym_name s) = a"
proof -
  note inv = table_inv [OF ok]
  from inv show ?thesis
  proof (cases rule: findInHashTable_cases [of t "symbolHash (a, [])" "compareSymbols (a, [])"])
    case (hit i e)
    then have e: "(ht_hashes t ! i, Some e) \<in># entries t" "fst (sym_name e) = a" "binding t a = Some e"
      using in_entries_iff [OF ht_inv_arrays [OF inv]]
      by (blast, simp add: compareSymbols_def, simp add: binding_def findIn_def symbolAt_def ht_deref_def)
    show ?thesis
    proof
      assume "(\<exists>h. (h, Some s) \<in># entries t) \<and> fst (sym_name s) = a"
      then obtain h where "(h, Some s) \<in># entries t" "fst (sym_name s) = a" by blast
      with one_symbol [OF ok e(1), of "(h, Some s)"] e(2,3) show "binding t a = Some s" by (simp add: entryKey_def)
    qed (use e in auto)
  next
    case miss
    have "(symbolHash (a, []) OR OCCUPIED_MASK, Some s) \<in># entries t" if "(h, Some s) \<in># entries t" "fst (sym_name s) = a" for h
      using that(1) unfolding table_hash [OF ok that(1)] symbolHash_def that(2) by simp
    then have "\<not> ((h, Some s) \<in># entries t \<and> fst (sym_name s) = a)" for h
      using miss(2) [of s] by (auto simp: compareSymbols_def)
    then show ?thesis using miss(1) by (auto simp: binding_def findIn_def)
  qed
qed

lemma findIn_cases:
  assumes ok: "table_ok t"
  obtains (miss) "findIn t name = Some None" "binding t (fst name) = None"
  | (hit) p s where "findIn t name = Some (Some p)" "symbolAt t p = Some s" "binding t (fst name) = Some s" "fst (sym_name s) = fst name"
proof -
  from table_inv [OF ok] show thesis
  proof (cases rule: findInHashTable_cases [of t "symbolHash name" "compareSymbols name"])
    case (hit i e)
    then have "findIn t name = Some (Some i)" "symbolAt t i = Some e" "fst (sym_name e) = fst name"
      by (simp_all add: findIn_def symbolAt_def ht_deref_def compareSymbols_def)
    then show thesis using that(2) by (simp add: binding_def findIn_fst [of t name])
  next
    case miss
    then have "findIn t name = Some None" by (simp add: findIn_def)
    then show thesis using that(1) by (simp add: binding_def findIn_fst [of t name])
  qed
qed

lemma binding_eqI:
  assumes "table_ok t" "\<And>a s. (\<exists>h. (h, Some s) \<in># entries t) \<and> fst (sym_name s) = a \<longleftrightarrow> m a = Some s"
  shows "binding t = m"
proof
  fix a
  show "binding t a = m a"
    using binding_iff [OF assms(1), of a] assms(2) [of _ a] by (metis not_None_eq)
qed

lemma empty_table:
  assumes "ht_inv t" "entries t = {#}"
  shows "table_ok t" "binding t = Map.empty"
proof -
  show "table_ok t" using assms by (simp add: table_ok_def)
  then show "binding t = Map.empty" by (rule binding_eqI) (simp add: assms(2))
qed

lemma new_table: "table_ok newHashTable" "binding newHashTable = Map.empty"
  using empty_table newHashTableWithCapacity_inv by (auto simp: newHashTable_def)

lemma clear_table:
  assumes "table_ok t"
  shows "table_ok (clearHashTable t)" "binding (clearHashTable t) = Map.empty"
  using empty_table clearHashTable_inv [OF table_inv [OF assms]] by auto

abbreviation newSymbol :: "name \<Rightarrow> addr \<Rightarrow> Symbol" where
  "newSymbol name node \<equiv> \<lparr>sym_index = 0, sym_name = name, sym_node = node, sym_last = None\<rparr>"

lemma insertIn_cases:
  assumes ok: "table_ok t"
  obtains (old) s where "binding t (fst name) = Some s" "insertIn t name node = Some (False, t)"
  | (new) t' where "binding t (fst name) = None" "insertIn t name node = Some (True, t')" "table_ok t'"
      "binding t' = (binding t)(fst name \<mapsto> newSymbol name node)"
proof -
  from table_inv [OF ok] show thesis
  proof (cases rule: insertInHashTable_cases [of t "newSymbol name node" "symbolHash name" "compareSymbols name"])
    case (dup e)
    then have "binding t (fst name) = Some e" by (auto simp: binding_iff [OF ok] compareSymbols_def)
    with dup that(1) show thesis by (simp add: insertIn_def)
  next
    case (new t')
    have fresh: "fst (sym_name s) \<noteq> fst name" if "(h, Some s) \<in># entries t" for h s
    proof
      assume n: "fst (sym_name s) = fst name"
      have "h = symbolHash (sym_name s) OR OCCUPIED_MASK" using table_hash [OF ok that] .
      then have "h = symbolHash name OR OCCUPIED_MASK" unfolding symbolHash_def n .
      with new(4) [of s] that n show False by (simp add: compareSymbols_def)
    qed
    then have none: "binding t (fst name) = None" using binding_iff [OF ok, of "fst name"] by (metis not_None_eq)
    have "count (image_mset entryKey (entries t)) (fst name) = 0"
    proof -
      have "entryKey x \<noteq> fst name" if x: "x \<in># entries t" for x
      proof -
        obtain k y where "x = (k, Some y)" by (rule entries_Some [OF table_inv [OF ok] x])
        then show ?thesis using x fresh [of k y] by (simp add: entryKey_def)
      qed
      then have "fst name \<notin> entryKey ` set_mset (entries t)" by (metis imageE)
      then show ?thesis by (subst count_eq_zero_iff, subst set_image_mset)
    qed
    then have ok': "table_ok t'"
      using ok new(2) by (auto simp: table_ok_def new(3) entryKey_def)
    have "binding t' = (binding t)(fst name \<mapsto> newSymbol name node)"
      by (rule binding_eqI [OF ok']) (use fresh binding_iff [OF ok] in \<open>auto simp: new(3)\<close>)
    with none new(1) ok' that(2) show thesis by (simp add: insertIn_def)
  qed
qed

text \<open>A write to a stored element replaces its entry.\<close>

lemma updateElem_entries:
  assumes "ht_inv t" "ht_deref t p = Some e"
  obtains h M where "entries t = add_mset (h, Some e) M" "entries (updateElem p f t) = add_mset (h, Some (f e)) M" "ht_inv (updateElem p f t)"
proof -
  have p: "p < ht_capacity t" "isBucketOccupied t p" "ht_elems t ! p = Some e"
    using assms(2) by (auto simp: ht_deref_def split: if_splits)
  have a: "length (ht_hashes t) = ht_capacity t" "length (ht_elems t) = ht_capacity t"
    using ht_inv_arrays [OF assms(1)] by (simp_all add: arrays_ok_def)
  let ?h = "ht_hashes t ! p" and ?t = "updateElem p f t"
  have eq: "add_mset (?h, Some e) (entries ?t) = add_mset (?h, Some (f e)) (entries t)"
    using entry_list_update [of p "ht_hashes t" "ht_elems t" ?h "Some (f e)"] p a
    by (simp add: entries_def updateElem_def isBucketOccupied_def)
  have "(?h, Some e) \<in># entries t"
    using p in_entries_iff [OF ht_inv_arrays [OF assms(1)]] by blast
  then obtain M where M: "entries t = add_mset (?h, Some e) M" by (metis insert_DiffM)
  then have new: "entries ?t = add_mset (?h, Some (f e)) M" using eq by (simp add: add_mset_commute)
  have "arrays_ok (ht_capacity t) (ht_hashes t) (ht_elems ?t)"
    using ht_inv_arrays [OF assms(1)] p by (auto simp: arrays_ok_def updateElem_def nth_list_update)
  then have "ht_inv ?t" using assms(1) M new by (simp add: ht_inv_def updateElem_def)
  with M new that show thesis by blast
qed

lemma updateElem_table:
  assumes ok: "table_ok t" and p: "findIn t name = Some (Some p)" and n: "\<And>s. sym_name (f s) = sym_name s"
  shows "table_ok (updateElem p f t)" "binding (updateElem p f t) = (binding t)(fst name := map_option f (binding t (fst name)))"
proof -
  obtain s where s: "symbolAt t p = Some s" "binding t (fst name) = Some s" "fst (sym_name s) = fst name"
    using p by (cases rule: findIn_cases [OF ok, of name]) auto
  obtain h M where M: "entries t = add_mset (h, Some s) M" "entries (updateElem p f t) = add_mset (h, Some (f s)) M" "ht_inv (updateElem p f t)"
    using updateElem_entries [OF table_inv [OF ok], of p s f] s(1) by (auto simp: symbolAt_def)
  have "entryKey (h, Some (f s)) = entryKey (h, Some s)" by (simp add: entryKey_def n)
  then show ok': "table_ok (updateElem p f t)"
    using ok M by (auto simp: table_ok_def n)
  have other: "fst (sym_name x) \<noteq> fst name" if "(k, Some x) \<in># M" for k x
  proof
    assume "fst (sym_name x) = fst name"
    then have "2 \<le> count (image_mset entryKey (entries t)) (fst name)"
      using that s(3) M(1) by (auto simp: entryKey_def dest!: multi_member_split)
    with ok show False unfolding table_ok_def by (metis Suc_1 not_less_eq_eq)
  qed
  have mem: "(k, Some x) \<in># entries t \<longleftrightarrow> (k, x) = (h, s) \<or> (k, Some x) \<in># M" for k x using M(1) by auto
  show "binding (updateElem p f t) = (binding t)(fst name := map_option f (binding t (fst name)))"
  proof (rule binding_eqI [OF ok'])
    fix a x
    show "((\<exists>k. (k, Some x) \<in># entries (updateElem p f t)) \<and> fst (sym_name x) = a) \<longleftrightarrow>
        ((binding t)(fst name := map_option f (binding t (fst name)))) a = Some x"
      using other s binding_iff [OF ok, of a x] by (auto simp: M(2) mem n)
  qed
qed

section \<open>Environments as stacks of maps\<close>

definition bindings :: "Scope \<Rightarrow> u64 \<Rightarrow> addr option" where
  "bindings sc a = map_option sym_node (binding (symbols sc) a)"

definition absE :: "Env \<Rightarrow> (u64 \<Rightarrow> addr option) list" where
  "absE e = map bindings (visible e)"

text \<open>The scopes behind the current one are empty.\<close>

definition env_ok :: "Env \<Rightarrow> bool" where
  "env_ok e \<longleftrightarrow> chain e \<noteq> [] \<and> (\<forall>sc\<in>set (chain e). table_ok (symbols sc)) \<and>
     (case scope e of None \<Rightarrow> True | Some i \<Rightarrow> i < length (chain e)) \<and>
     (\<forall>j<length (chain e). (case scope e of None \<Rightarrow> True | Some i \<Rightarrow> i < j) \<longrightarrow> bindings (chain e ! j) = Map.empty)"

lemma visible_cons: "scope e = Some i \<Longrightarrow> i < length (chain e) \<Longrightarrow> visible e = chain e ! i # rev (take i (chain e))"
  by (simp add: visible_def take_Suc_conv_app_nth)

lemma absE_None: "scope e = None \<Longrightarrow> absE e = []"
  by (simp add: absE_def visible_def)

lemma env_ok_current:
  assumes "env_ok e" "scope e = Some i"
  shows "i < length (chain e)" "table_ok (symbols (chain e ! i))"
    "absE e = bindings (chain e ! i) # map bindings (rev (take i (chain e)))"
  using assms by (auto simp: env_ok_def absE_def visible_cons)

lemma newScope_ok: "table_ok (symbols (newScope p n))" "bindings (newScope p n) = Map.empty"
  by (auto simp: newScope_def new_table bindings_def)

lemma bindings_node [simp]: "bindings (sc\<lparr>scope_node := n\<rparr>) = bindings sc"
  by (simp add: bindings_def fun_eq_iff)

lemma pushScope_abs:
  assumes "env_ok e"
  shows "env_ok (pushScope e node)" "absE (pushScope e node) = Map.empty # absE e"
proof -
  have "env_ok (pushScope e node) \<and> absE (pushScope e node) = Map.empty # absE e"
  proof (cases "scope e")
    case None
    then have "chain e \<noteq> []" "bindings (chain e ! 0) = Map.empty" using assms by (auto simp: env_ok_def)
    then have "pushScope e node = e\<lparr>chain := (hd (chain e))\<lparr>scope_node := node\<rparr> # tl (chain e), scope := Some 0\<rparr>"
      "bindings (hd (chain e)) = Map.empty"
      using None by (auto simp: pushScope_def neq_Nil_conv)
    then show ?thesis using assms None
      by (auto simp: env_ok_def absE_def visible_def neq_Nil_conv nth_Cons' split: if_splits)
  next
    case (Some i)
    note cur = env_ok_current [OF assms Some]
    show ?thesis
    proof (cases "Suc i < length (chain e)")
      case True
      let ?e = "e\<lparr>chain := (chain e)[Suc i := (chain e ! Suc i)\<lparr>scope_node := node\<rparr>], scope := Some (Suc i)\<rparr>"
      have "bindings (chain e ! Suc i) = Map.empty" "table_ok (symbols (chain e ! Suc i))"
        using assms Some True by (auto simp: env_ok_def)
      then have "env_ok ?e" "absE ?e = Map.empty # absE e"
        using assms Some True cur
        by (auto simp: env_ok_def absE_def visible_cons nth_list_update take_Suc_conv_app_nth dest!: set_update_subset_insert [THEN subsetD])
      then show ?thesis using Some True by (simp add: pushScope_def)
    next
      case False
      let ?sc = "newScope (Some (chain e ! i)) node"
      let ?e = "e\<lparr>chain := chain e @ [?sc], scope := Some (Suc i)\<rparr>"
      have l: "length (chain e) = Suc i" using False cur by simp
      then have "env_ok ?e" using assms Some newScope_ok [of "Some (chain e ! i)" node] by (auto simp: env_ok_def nth_append)
      moreover have "absE ?e = Map.empty # absE e"
        using Some l newScope_ok [of "Some (chain e ! i)" node] by (simp add: absE_def visible_def)
      ultimately show ?thesis using Some False by (simp add: pushScope_def)
    qed
  qed
  then show "env_ok (pushScope e node)" "absE (pushScope e node) = Map.empty # absE e" by blast+
qed

lemma environmentInit_abs: "env_ok (environmentInit node)" "absE (environmentInit node) = [Map.empty]"
proof -
  let ?e = "\<lparr>chain = [newScope None node], scope = None\<rparr>"
  have "env_ok ?e" "absE ?e = []" using newScope_ok [of None node] by (auto simp: env_ok_def absE_None)
  then show "env_ok (environmentInit node)" "absE (environmentInit node) = [Map.empty]"
    using pushScope_abs [of ?e node] by (simp_all add: environmentInit_def)
qed

lemma popScope_abs:
  assumes "env_ok e" "scope e = Some i"
  obtains e' where "popScope e = Some e'" "env_ok e'" "absE e' = tl (absE e)"
proof -
  note cur = env_ok_current [OF assms]
  let ?sc = "(chain e ! i)\<lparr>symbols := clearHashTable (symbols (chain e ! i))\<rparr>"
  let ?e = "e\<lparr>chain := (chain e)[i := ?sc], scope := (case i of 0 \<Rightarrow> None | Suc j \<Rightarrow> Some j)\<rparr>"
  have sc: "table_ok (symbols ?sc)" "bindings ?sc = Map.empty" using clear_table [OF cur(2)] by (auto simp: bindings_def)
  have "env_ok ?e"
    using assms sc cur(1)
    by (auto simp: env_ok_def nth_list_update dest!: set_update_subset_insert [THEN subsetD] split: nat.splits)
  moreover have "absE ?e = tl (absE e)"
    using cur by (cases i) (auto simp: absE_None absE_def visible_def)
  ultimately show thesis using that assms(2) by (simp add: popScope_def)
qed

text \<open>A new table for the current scope.\<close>

lemma setTable_abs:
  assumes "env_ok (env B)" "scope (env B) = Some i" "table_ok t"
  shows "env_ok (env (setTable i t B))"
    "absE (env (setTable i t B)) = (\<lambda>a. map_option sym_node (binding t a)) # tl (absE (env B))"
    "scope (env (setTable i t B)) = Some i" "symbols (chain (env (setTable i t B)) ! i) = t"
proof -
  note cur = env_ok_current [OF assms(1,2)]
  show "env_ok (env (setTable i t B))"
    using assms cur(1)
    by (auto simp: env_ok_def setTable_def nth_list_update dest!: set_update_subset_insert [THEN subsetD])
  show "absE (env (setTable i t B)) = (\<lambda>a. map_option sym_node (binding t a)) # tl (absE (env B))"
    using assms cur by (simp add: setTable_def absE_def visible_cons bindings_def [abs_def])
  show "scope (env (setTable i t B)) = Some i" "symbols (chain (env (setTable i t B)) ! i) = t"
    using assms cur by (auto simp: setTable_def)
qed

text \<open>The operations of the binder on the environment, and what each does to a stack of maps from
  names to nodes.\<close>

datatype scope_op =
  Push addr
| Pop
| DefineName name addr
| DefineForward name addr
| UpdateName name addr
| Lookup name

datatype outcome = Done | Accepted bool | Found "addr option"

definition runOp :: "(addr \<Rightarrow> Decl) \<Rightarrow> builtins \<Rightarrow> bool \<Rightarrow> scope_op \<Rightarrow> Binder \<Rightarrow> (outcome \<times> Binder) option" where
  "runOp N builtin L x B =
     (case x of
        Push n \<Rightarrow> Some (Done, B\<lparr>env := pushScope (env B) n\<rparr>)
      | Pop \<Rightarrow> map_option (\<lambda>e. (Done, B\<lparr>env := e\<rparr>)) (popScope (env B))
      | DefineName name n \<Rightarrow> map_option (\<lambda>(b, B). (Accepted b, B)) (defineSymbol L name n B)
      | DefineForward name n \<Rightarrow> map_option (\<lambda>(b, B). (Accepted b, B)) (defineForwardDeclarable N L name n B)
      | UpdateName name n \<Rightarrow> map_option (\<lambda>B. (Done, B)) (updateSymbol name n B)
      | Lookup name \<Rightarrow> map_option (\<lambda>(r, B). (Found r, B)) (findSymbol N builtin L name B))"

type_synonym scopes = "(u64 \<Rightarrow> addr option) list"

fun nearest :: "scopes \<Rightarrow> u64 \<Rightarrow> addr option" where
  "nearest [] a = None"
| "nearest (m # ms) a = (case m a of None \<Rightarrow> nearest ms a | Some n \<Rightarrow> Some n)"

fun specOp :: "(addr \<Rightarrow> Decl) \<Rightarrow> builtins \<Rightarrow> scope_op \<Rightarrow> scopes \<Rightarrow> (outcome \<times> scopes) option" where
  "specOp N builtin (Push n) ms = Some (Done, Map.empty # ms)"
| "specOp N builtin (Lookup name) ms =
     Some (Found (case nearest ms (fst name) of Some n \<Rightarrow> Some n | None \<Rightarrow> publicBuiltin N builtin name), ms)"
| "specOp N builtin x [] = None"
| "specOp N builtin Pop (m # ms) = Some (Done, ms)"
| "specOp N builtin (DefineName name n) (m # ms) =
     (if isIgnoreVar name \<or> m (fst name) \<noteq> None then Some (Accepted False, m # ms)
      else Some (Accepted True, m(fst name \<mapsto> n) # ms))"
| "specOp N builtin (DefineForward name n) (m # ms) =
     (if isIgnoreVar name then Some (Accepted True, m # ms)
      else case m (fst name) of
             None \<Rightarrow> Some (Accepted True, m(fst name \<mapsto> n) # ms)
           | Some d \<Rightarrow>
               if \<not> isForward (N d) then Some (Accepted False, m # ms)
               else if decl_tag (N d) \<notin> forwardTags then None
               else Some (Accepted True, m(fst name \<mapsto> n) # ms))"
| "specOp N builtin (UpdateName name n) (m # ms) =
     Some (Done, (if isIgnoreVar name then m else m(fst name \<mapsto> n)) # ms)"

primrec runOps :: "('x \<Rightarrow> 's \<Rightarrow> ('o \<times> 's) option) \<Rightarrow> 'x list \<Rightarrow> 's \<Rightarrow> 'o list option" where
  "runOps f [] s = Some []"
| "runOps f (x # xs) s = (case f x s of None \<Rightarrow> None | Some (r, s) \<Rightarrow> map_option ((#) r) (runOps f xs s))"

lemma env_logNotes [simp]: "env (logNotes L ns B) = env B"
  by (simp add: logNotes_def)

lemma findLoop_nearest:
  assumes "\<forall>sc\<in>set scs. table_ok (symbols sc)"
  shows "findLoop scs name = Some (nearest (map bindings scs) (fst name))"
  using assms
proof (induction scs)
  case (Cons sc scs)
  then have ok: "table_ok (symbols sc)" by simp
  from Cons show ?case by (cases rule: findIn_cases [OF ok, of name]) (simp_all add: bindings_def)
qed simp

lemma findSymbol_abs:
  assumes "env_ok (env B)"
  obtains B' where "findSymbol N builtin L name B =
      Some (case nearest (absE (env B)) (fst name) of Some n \<Rightarrow> Some n | None \<Rightarrow> publicBuiltin N builtin name, B')"
    "env B' = env B"
proof -
  have "\<forall>sc\<in>set (visible (env B)). table_ok (symbols sc)"
    using assms by (auto simp: env_ok_def visible_def dest!: in_set_takeD split: option.splits)
  then have f: "findLoop (visible (env B)) name = Some (nearest (absE (env B)) (fst name))"
    by (simp add: findLoop_nearest absE_def)
  show thesis
  proof (cases "nearest (absE (env B)) (fst name)")
    case (Some n)
    with f that [of B] show ?thesis by (simp add: findSymbol_def)
  next
    case None
    with f that show ?thesis by (cases "publicBuiltin N builtin name") (auto simp: findSymbol_def)
  qed
qed

text \<open>The step the three definitions share: the name is inserted, or has a symbol already.\<close>

lemma current_insert:
  assumes ok: "env_ok (env B)" and i: "scope (env B) = Some i"
  obtains (fresh) t where "insertIn (symbols (chain (env B) ! i)) name node = Some (True, t)"
      "hd (absE (env B)) (fst name) = None" "env_ok (env (setTable i t B))"
      "absE (env (setTable i t B)) = (hd (absE (env B)))(fst name \<mapsto> node) # tl (absE (env B))"
  | (old) t p s where "insertIn (symbols (chain (env B) ! i)) name node = Some (False, t)" "findIn t name = Some (Some p)"
      "symbolAt t p = Some s" "hd (absE (env B)) (fst name) = Some (sym_node s)" "table_ok t"
      "env_ok (env (setTable i t B))" "absE (env (setTable i t B)) = absE (env B)"
      "\<And>f. (\<And>s. sym_name (f s) = sym_name s) \<Longrightarrow> env_ok (env (setTable i (updateElem p f t) B)) \<and>
        absE (env (setTable i (updateElem p f t) B)) = (hd (absE (env B)))(fst name \<mapsto> sym_node (f s)) # tl (absE (env B))"
proof -
  note cur = env_ok_current [OF ok i]
  let ?t = "symbols (chain (env B) ! i)"
  have hd: "hd (absE (env B)) = (\<lambda>a. map_option sym_node (binding ?t a))" using cur(3) by (simp add: bindings_def [abs_def])
  from cur(2) show thesis
  proof (cases rule: insertIn_cases [of ?t name node])
    case (old s)
    then obtain p where p: "findIn ?t name = Some (Some p)" "symbolAt ?t p = Some s"
      by (cases rule: findIn_cases [OF cur(2), of name]) auto
    have "env_ok (env (setTable i (updateElem p f ?t) B)) \<and>
        absE (env (setTable i (updateElem p f ?t) B)) = (hd (absE (env B)))(fst name \<mapsto> sym_node (f s)) # tl (absE (env B))"
      if "\<And>s. sym_name (f s) = sym_name s" for f
      using updateElem_table [OF cur(2) p(1) that] setTable_abs [OF ok i, of "updateElem p f ?t"] old(1)
      by (auto simp: hd fun_eq_iff)
    moreover have "absE (env (setTable i ?t B)) = absE (env B)"
      using setTable_abs(2) [OF ok i cur(2)] hd cur(3) by simp
    ultimately show thesis using that(2) [of ?t p s] old p setTable_abs(1) [OF ok i cur(2)] cur(2) hd by simp
  next
    case (new t')
    have "(\<lambda>a. map_option sym_node (binding t' a)) = (hd (absE (env B)))(fst name \<mapsto> node)"
      by (simp add: new(4) hd fun_eq_iff)
    then show thesis using that(1) [of t'] new setTable_abs [OF ok i new(3)] hd by simp
  qed
qed

lemma setTable_env:
  "env B = env B' \<Longrightarrow> env (setTable i t B) = env (setTable i t B')"
  by (simp add: setTable_def)

text \<open>A step of the environment is the step of the stack.\<close>

definition sim :: "(outcome \<times> Binder) option \<Rightarrow> (outcome \<times> scopes) option \<Rightarrow> bool" where
  "sim c a = (case c of None \<Rightarrow> a = None | Some (r, B) \<Rightarrow> env_ok (env B) \<and> a = Some (r, absE (env B)))"

lemma absE_cons:
  assumes "env_ok e" "scope e = Some i"
  obtains m ms where "absE e = m # ms"
  using env_ok_current(3) [OF assms] by blast

lemma sim_define:
  assumes ok: "env_ok (env B)"
  shows "sim (runOp N bi L (DefineName name node) B) (specOp N bi (DefineName name node) (absE (env B)))"
proof (cases "scope (env B)")
  case None
  then show ?thesis by (simp add: sim_def runOp_def defineSymbol_def absE_None)
next
  case (Some i)
  obtain m ms where abs: "absE (env B) = m # ms" by (rule absE_cons [OF ok Some])
  from ok Some show ?thesis
  proof (cases rule: current_insert [of B i name node])
    case (fresh t)
    then show ?thesis using ok by (simp add: abs sim_def runOp_def defineSymbol_def Some)
  next
    case (old t p s)
    then show ?thesis using ok by (simp add: abs sim_def runOp_def defineSymbol_def Some)
  qed
qed

lemma sim_forward:
  assumes ok: "env_ok (env B)"
  shows "sim (runOp N bi L (DefineForward name node) B) (specOp N bi (DefineForward name node) (absE (env B)))"
proof (cases "scope (env B)")
  case None
  then show ?thesis by (simp add: sim_def runOp_def defineForwardDeclarable_def absE_None)
next
  case (Some i)
  obtain m ms where abs: "absE (env B) = m # ms" by (rule absE_cons [OF ok Some])
  from ok Some show ?thesis
  proof (cases rule: current_insert [of B i name node])
    case (fresh t)
    then show ?thesis using ok by (simp add: abs sim_def runOp_def defineForwardDeclarable_def Some)
  next
    case (old t p s)
    let ?f = "\<lambda>s. s\<lparr>sym_node := node\<rparr>"
    have "env (setTable i (updateElem p ?f t) (B\<lparr>definitionOf := d\<rparr>)) = env (setTable i (updateElem p ?f t) B)" for d
      by (rule setTable_env) simp
    then show ?thesis using old(1-7) old(8) [of ?f] ok
      by (simp add: abs sim_def runOp_def defineForwardDeclarable_def Some)
  qed
qed

lemma sim_update:
  assumes ok: "env_ok (env B)"
  shows "sim (runOp N bi L (UpdateName name node) B) (specOp N bi (UpdateName name node) (absE (env B)))"
proof (cases "scope (env B)")
  case None
  then show ?thesis by (simp add: sim_def runOp_def updateSymbol_def absE_None)
next
  case (Some i)
  obtain m ms where abs: "absE (env B) = m # ms" by (rule absE_cons [OF ok Some])
  from ok Some show ?thesis
  proof (cases rule: current_insert [of B i name node])
    case (fresh t)
    then show ?thesis using ok by (simp add: abs sim_def runOp_def updateSymbol_def Some)
  next
    case (old t p s)
    then show ?thesis using old(8) [of "\<lambda>s. s\<lparr>sym_node := node\<rparr>"] ok
      by (simp add: abs sim_def runOp_def updateSymbol_def Some)
  qed
qed

lemma sim_step:
  assumes ok: "env_ok (env B)"
  shows "sim (runOp N bi L x B) (specOp N bi x (absE (env B)))"
proof (cases x)
  case (Push n)
  then show ?thesis using pushScope_abs [OF ok] by (simp add: sim_def runOp_def)
next
  case Pop
  show ?thesis
  proof (cases "scope (env B)")
    case None
    then show ?thesis by (simp add: Pop sim_def runOp_def popScope_def absE_None)
  next
    case (Some i)
    obtain e where "popScope (env B) = Some e" "env_ok e" "absE e = tl (absE (env B))"
      by (rule popScope_abs [OF ok Some])
    moreover obtain m ms where "absE (env B) = m # ms" by (rule absE_cons [OF ok Some])
    ultimately show ?thesis by (simp add: Pop sim_def runOp_def)
  qed
next
  case (Lookup name)
  obtain B' where "findSymbol N bi L name B =
      Some (case nearest (absE (env B)) (fst name) of Some n \<Rightarrow> Some n | None \<Rightarrow> publicBuiltin N bi name, B')" "env B' = env B"
    by (rule findSymbol_abs [OF ok])
  then show ?thesis using ok by (simp add: Lookup sim_def runOp_def)
qed (simp_all add: sim_define sim_forward sim_update ok)

lemma runOps_sim: "env_ok (env B) \<Longrightarrow> runOps (runOp N bi L) xs B = runOps (specOp N bi) xs (absE (env B))"
proof (induction xs arbitrary: B)
  case (Cons x xs)
  then show ?case using sim_step [of B N bi L x] by (auto simp: sim_def split: option.splits)
qed simp

text \<open>C10: the binder's environment is a stack of maps. For every sequence of pushes, pops, definitions,
  forward declarations, updates and lookups from a fresh environment, the results are those of the
  stack of maps from names to nodes, where a lookup gives the nearest binding and then a public
  builtin; in particular the sequence fails an assertion exactly when the stack has no scope left or a
  forward declaration cannot have a definition.\<close>

theorem scopes_refine_stack:
  "runOps (runOp N builtin L) xs (B\<lparr>env := environmentInit node\<rparr>) = runOps (specOp N builtin) xs [Map.empty]"
  using runOps_sim [of "B\<lparr>env := environmentInit node\<rparr>"] by (simp add: environmentInit_abs)

section \<open>Overloads\<close>

abbreviation current :: "nat \<Rightarrow> Binder \<Rightarrow> Symbol HashTable" where
  "current i B \<equiv> symbols (chain (env B) ! i)"

primrec defineFunctions :: "(addr \<Rightarrow> Decl) \<Rightarrow> bool \<Rightarrow> name \<Rightarrow> addr list \<Rightarrow> Binder \<Rightarrow> Binder option" where
  "defineFunctions N L name [] B = Some B"
| "defineFunctions N L name (n # ns) B =
     (case defineFunctionDecl N L name n B of None \<Rightarrow> None | Some B \<Rightarrow> defineFunctions N L name ns B)"

lemma defineFunctions_snoc:
  "defineFunctions N L name (ns @ [n]) B =
     (case defineFunctions N L name ns B of None \<Rightarrow> None | Some B \<Rightarrow> defineFunctionDecl N L name n B)"
  by (induction ns arbitrary: B) (auto split: option.splits)

lemma setTable_fields [simp]:
  "list_first (setTable i t B) = list_first B" "list_link (setTable i t B) = list_link B"
  "func_index (setTable i t B) = func_index B"
  by (simp_all add: setTable_def)

lemma setTable_abs':
  assumes "env_ok (env B)" "scope (env B) = Some i" "table_ok t" "env B' = env B"
  shows "env_ok (env (setTable i t B'))" "scope (env (setTable i t B')) = Some i" "current i (setTable i t B') = t"
  using setTable_abs [of B' i t] assms by simp_all

lemma first_function:
  assumes "env_ok (env B)" "scope (env B) = Some i" "\<not> isIgnoreVar name" "binding (current i B) (fst name) = None"
  obtains B' where "defineFunctionDecl N L name n B = Some B'" "env_ok (env B')" "scope (env B') = Some i"
    "binding (current i B') = (binding (current i B))
       (fst name \<mapsto> \<lparr>sym_index = 1, sym_name = name, sym_node = n, sym_last = Some n\<rparr>)"
    "list_first B' = (list_first B)(n := Some n)" "list_link B' = list_link B" "func_index B' = func_index B"
proof -
  note cur = env_ok_current(2) [OF assms(1,2)]
  from cur assms(4) obtain t where t: "insertIn (current i B) name n = Some (True, t)" "table_ok t"
      "binding t = (binding (current i B))(fst name \<mapsto> newSymbol name n)"
    by (cases rule: insertIn_cases [of "current i B" name n]) auto
  from t(2,3) obtain p where p: "findIn t name = Some (Some p)" "symbolAt t p = Some (newSymbol name n)"
    by (cases rule: findIn_cases [of t name]) auto
  let ?f = "\<lambda>s. (s\<lparr>sym_last := Some n\<rparr>)\<lparr>sym_index := sym_index s + 1\<rparr>"
  have u: "table_ok (updateElem p ?f t)"
    "binding (updateElem p ?f t) = (binding t)(fst name := map_option ?f (binding t (fst name)))"
    using updateElem_table [OF t(2) p(1), of ?f] by simp_all
  let ?B = "setTable i (updateElem p ?f t) (B\<lparr>list_first := (list_first B)(n := Some n)\<rparr>)"
  have "defineFunctionDecl N L name n B = Some ?B"
    using assms t p by (simp add: defineFunctionDecl_def)
  moreover note setTable_abs' [OF assms(1,2) u(1), of "B\<lparr>list_first := (list_first B)(n := Some n)\<rparr>"]
  ultimately show thesis using that [of ?B] by (simp add: u(2) t(3))
qed

lemma next_function:
  assumes "env_ok (env B)" "scope (env B) = Some i" "\<not> isIgnoreVar name"
    "binding (current i B) (fst name) = Some s" "sym_last s = Some l" "decl_tag (N (sym_node s)) = ''FuncDecl''"
  obtains B' where "defineFunctionDecl N L name n B = Some B'" "env_ok (env B')" "scope (env B') = Some i"
    "binding (current i B') = (binding (current i B))
       (fst name \<mapsto> s\<lparr>sym_last := Some n, sym_index := sym_index s + 1\<rparr>)"
    "list_first B' = (list_first B)(n := Some (sym_node s))" "list_link B' = (list_link B)(l := Some n)"
    "func_index B' = (func_index B)(n := sym_index s)"
proof -
  note cur = env_ok_current(2) [OF assms(1,2)]
  from cur assms(4) have t: "insertIn (current i B) name n = Some (False, current i B)"
    by (cases rule: insertIn_cases [of "current i B" name n]) auto
  from cur assms(4) obtain p where p: "findIn (current i B) name = Some (Some p)" "symbolAt (current i B) p = Some s"
    by (cases rule: findIn_cases [of "current i B" name]) auto
  let ?f = "\<lambda>s. (s\<lparr>sym_last := Some n\<rparr>)\<lparr>sym_index := sym_index s + 1\<rparr>"
  let ?t = "updateElem p ?f (current i B)"
  have u: "table_ok ?t" "binding ?t = (binding (current i B))(fst name := map_option ?f (binding (current i B) (fst name)))"
    using updateElem_table [OF cur p(1), of ?f] by simp_all
  let ?B' = "B\<lparr>func_index := (func_index B)(n := sym_index s), list_link := (list_link B)(l := Some n),
      list_first := (list_first B)(n := Some (sym_node s))\<rparr>"
  let ?B = "setTable i ?t ?B'"
  have "defineFunctionDecl N L name n B = Some ?B"
    using assms t p by (simp add: defineFunctionDecl_def)
  moreover note setTable_abs' [OF assms(1,2) u(1), of ?B']
  ultimately show thesis using that [of ?B] assms(4) by (simp add: u(2))
qed

lemma overload_links:
  assumes "distinct (n # ns @ [m])"
    "\<forall>k<length ns. link ((n # ns) ! k) = Some (ns ! k) \<and> index (ns ! k) = of_nat (Suc k)" "k < length (ns @ [m])"
  shows "(link(last (n # ns) := Some m)) ((n # ns @ [m]) ! k) = Some ((ns @ [m]) ! k) \<and>
    (index(m := of_nat (length (n # ns)))) ((ns @ [m]) ! k) = of_nat (Suc k)"
proof (cases "k < length ns")
  case True
  have "(n # ns) ! k \<noteq> (n # ns) ! length ns"
    using nth_eq_iff_index_eq [of "n # ns" k "length ns"] assms(1) True by simp
  moreover have "(n # ns) ! length ns = last (n # ns)" by (simp add: last_conv_nth)
  moreover have "ns ! k \<noteq> m" using assms(1) True by auto
  moreover have "(n # ns @ [m]) ! k = (n # ns) ! k" using True by (cases k) (auto simp: nth_append)
  ultimately show ?thesis using assms(2) True by (simp add: nth_append)
next
  case False
  then have "k = length ns" using assms(3) by simp
  moreover have "(n # ns @ [m]) ! length ns = last (n # ns)"
    by (metis append_Cons last_conv_nth length_Cons diff_Suc_1 lessI list.distinct(1) nth_append)
  ultimately show ?thesis by simp
qed

text \<open>C11: the functions declared under one name in a scope are its overloads. After the declarations the
  symbol of the name has the first function as its node, the last one as its last and their number as
  its index; every function points to the first, each is linked to the next in the order of the
  declarations, and each but the first has its position as its index. Other names keep their
  symbols.\<close>

theorem defineFunctions_chain:
  assumes "env_ok (env B)" "scope (env B) = Some i" "\<not> isIgnoreVar name" "binding (current i B) (fst name) = None"
    "distinct (n # ns)" "decl_tag (N n) = ''FuncDecl''"
  shows "\<exists>B'. defineFunctions N L name (n # ns) B = Some B' \<and>
    binding (current i B') = (binding (current i B))(fst name \<mapsto>
      \<lparr>sym_index = of_nat (length (n # ns)), sym_name = name, sym_node = n, sym_last = Some (last (n # ns))\<rparr>) \<and>
    (\<forall>x\<in>set (n # ns). list_first B' x = Some n) \<and>
    (\<forall>k<length ns. list_link B' ((n # ns) ! k) = Some (ns ! k) \<and> func_index B' (ns ! k) = of_nat (Suc k))"
proof -
  have "\<exists>B'. defineFunctions N L name (n # ns) B = Some B' \<and> env_ok (env B') \<and> scope (env B') = Some i \<and>
    binding (current i B') = (binding (current i B))(fst name \<mapsto>
      \<lparr>sym_index = of_nat (length (n # ns)), sym_name = name, sym_node = n, sym_last = Some (last (n # ns))\<rparr>) \<and>
    (\<forall>x\<in>set (n # ns). list_first B' x = Some n) \<and>
    (\<forall>k<length ns. list_link B' ((n # ns) ! k) = Some (ns ! k) \<and> func_index B' (ns ! k) = of_nat (Suc k))"
    using assms(5)
  proof (induction ns rule: rev_induct)
    case Nil
    obtain B' where "defineFunctionDecl N L name n B = Some B'" "env_ok (env B')" "scope (env B') = Some i"
      "binding (current i B') = (binding (current i B))
         (fst name \<mapsto> \<lparr>sym_index = 1, sym_name = name, sym_node = n, sym_last = Some n\<rparr>)"
      "list_first B' = (list_first B)(n := Some n)"
      by (rule first_function [OF assms(1-4)])
    then show ?case by (auto simp: fun_upd_def)
  next
    case (snoc m ns)
    then have "distinct (n # ns)" by simp
    from snoc.IH [OF this] obtain B1 where B1: "defineFunctions N L name (n # ns) B = Some B1" "env_ok (env B1)" "scope (env B1) = Some i"
      "binding (current i B1) = (binding (current i B))(fst name \<mapsto>
        \<lparr>sym_index = of_nat (length (n # ns)), sym_name = name, sym_node = n, sym_last = Some (last (n # ns))\<rparr>)"
      "\<forall>x\<in>set (n # ns). list_first B1 x = Some n"
      "\<forall>k<length ns. list_link B1 ((n # ns) ! k) = Some (ns ! k) \<and> func_index B1 (ns ! k) = of_nat (Suc k)" by blast
    let ?s = "\<lparr>sym_index = of_nat (length (n # ns)), sym_name = name, sym_node = n, sym_last = Some (last (n # ns))\<rparr>"
    obtain B2 where B2: "defineFunctionDecl N L name m B1 = Some B2" "env_ok (env B2)" "scope (env B2) = Some i"
      "binding (current i B2) = (binding (current i B1))(fst name \<mapsto> ?s\<lparr>sym_last := Some m, sym_index := sym_index ?s + 1\<rparr>)"
      "list_first B2 = (list_first B1)(m := Some n)" "list_link B2 = (list_link B1)(last (n # ns) := Some m)"
      "func_index B2 = (func_index B1)(m := of_nat (length (n # ns)))"
      using next_function [OF B1(2,3) assms(3), of ?s "last (n # ns)" N L m] B1(4) assms(6) by auto
    have "defineFunctions N L name (n # ns @ [m]) B = Some B2"
      using B1(1) B2(1) defineFunctions_snoc [of N L name "n # ns" m B] by simp
    moreover have "list_link B2 ((n # ns @ [m]) ! k) = Some ((ns @ [m]) ! k) \<and> func_index B2 ((ns @ [m]) ! k) = of_nat (Suc k)"
      if k: "k < length (ns @ [m])" for k
      using overload_links [OF snoc.prems B1(6) k] B2(6,7) by simp
    ultimately show ?case using B1(4,5) B2 by auto
  qed
  then show ?thesis by blast
qed

theorem defineFunctions_chain_witness:
  "\<exists>B'. defineFunctions (\<lambda>_. \<lparr>decl_tag = ''FuncDecl'', isForward = False, isPublicDecl = False\<rparr>) True (64, ''f'') [1, 2, 3]
     \<lparr>env = environmentInit 0, func_index = (\<lambda>_. 0), list_link = Map.empty, list_first = Map.empty,
      definitionOf = Map.empty, messages = []\<rparr> = Some B' \<and>
     list_first B' 3 = Some 1 \<and> list_link B' 1 = Some 2 \<and> list_link B' 2 = Some 3 \<and> func_index B' 3 = 2"
proof -
  let ?N = "\<lambda>_::addr. \<lparr>decl_tag = ''FuncDecl'', isForward = False, isPublicDecl = False\<rparr>"
  let ?B = "\<lparr>env = environmentInit 0, func_index = (\<lambda>_. 0), list_link = Map.empty, list_first = Map.empty,
      definitionOf = Map.empty, messages = []\<rparr>"
  have h: "env_ok (env ?B)" "scope (env ?B) = Some 0" "\<not> isIgnoreVar (64, ''f'')"
    "binding (current 0 ?B) (fst (64::u64, ''f'')) = None" "distinct [1::addr, 2, 3]" "decl_tag (?N 1) = ''FuncDecl''"
    using environmentInit_abs(1) by (simp_all add: environmentInit_def pushScope_def isIgnoreVar_def newScope_def new_table)
  obtain B' where B': "defineFunctions ?N True (64, ''f'') [1, 2, 3] ?B = Some B'"
    "\<forall>x\<in>set [1, 2, 3]. list_first B' x = Some 1"
    "\<forall>k<length [2::addr, 3]. list_link B' ([1, 2, 3] ! k) = Some ([2, 3] ! k) \<and> func_index B' ([2, 3] ! k) = of_nat (Suc k)"
    using defineFunctions_chain [of ?B 0 "(64, ''f'')" 1 "[2, 3]" ?N True] h by auto
  from B'(3) have "list_link B' 1 = Some 2" "list_link B' 2 = Some 3" "func_index B' 3 = 2"
    using spec [OF B'(3), of 0] spec [OF B'(3), of 1] by simp_all
  with B'(1,2) show ?thesis by auto
qed

end
