(* ===== verification/Cxy_Types.thy ===== *)
theory Cxy_Types
  imports Cxy_HashTable Cxy_Numbers Cxy_Operators "HOL-Library.Monad_Syntax"
begin

text \<open>
  The types of \<open>lang/frontend/types.h\<close>, \<open>types.c\<close> and the functions of \<open>ttable.c\<close> that follow them: resolving,
  unwrapping, stripping, classification, comparison, hashing, assignability, promotion.

  Types are objects that refer to each other by address: a heap is a list of them, an address an index,
  a pointer an address or \<open>None\<close> for \<open>NULL\<close>. The members of the union are the constructors of \<open>body\<close>, which
  give the tag; back-end data are left out. The syntax tree enters through \<open>N\<close>, what the functions read of a
  declaration at an address. Names are interned strings, so that comparing them as pointers is comparing
  them (\<open>Cxy_StrPool\<close>). The value \<open>None\<close> of an operation is a null pointer that is followed, a member of
  the union that is not there, a failed assertion, or a chain of types that never ends.
\<close>

section \<open>Types\<close>

type_synonym tref = "nat option"
type_synonym node = u64

datatype PrtId =
  prtBool | prtChar | prtCChar
| prtU8 | prtU16 | prtU32 | prtU64 | prtU128
| prtI8 | prtI16 | prtI32 | prtI64 | prtI128
| prtF32 | prtF64

definition unsignedIntegerTypes :: "PrtId list" where
  "unsignedIntegerTypes = [prtU8, prtU16, prtU32, prtU64, prtU128]"

definition signedIntegerTypes :: "PrtId list" where
  "signedIntegerTypes = [prtI8, prtI16, prtI32, prtI64, prtI128]"

definition integerTypes :: "PrtId list" where
  "integerTypes = unsignedIntegerTypes @ signedIntegerTypes"

definition floatTypes :: "PrtId list" where
  "floatTypes = [prtF32, prtF64]"

definition primTypes :: "PrtId list" where
  "primTypes = [prtBool, prtChar, prtCChar] @ integerTypes @ floatTypes"

datatype TTag =
  typError | typContainer | typLiteral | typAuto | typVoid | typNull | typInfo | typThis | typPrimitive
| typString | typPointer | typReference | typOptional | typArray | typMap | typAlias | typUnion
| typUntaggedUnion | typOpaque | typTuple | typFunc | typEnum | typModule | typStruct | typClass
| typInterface | typGeneric | typApplied | typWrapped | typException | typResult

definition cxyTypes :: "TTag list" where
  "cxyTypes = [typError, typContainer, typLiteral, typAuto, typVoid, typNull, typInfo, typThis, typPrimitive,
     typString, typPointer, typReference, typOptional, typArray, typMap, typAlias, typUnion, typUntaggedUnion,
     typOpaque, typTuple, typFunc, typEnum, typModule, typStruct, typClass, typInterface, typGeneric,
     typApplied, typWrapped, typException, typResult]"

text \<open>The position of an element in an enumeration, its value in C.\<close>

fun position :: "'a list \<Rightarrow> 'a \<Rightarrow> nat" where
  "position [] x = 0"
| "position (y # ys) x = (if x = y then 0 else Suc (position ys x))"

record NamedTypeMember =
  member_name :: cstring
  member_type :: tref
  member_decl :: "node option"

record TypeMembersContainer =
  members :: "NamedTypeMember list"
  sortedMembers :: "NamedTypeMember list"

record TypeInheritance =
  base :: tref
  interfaces :: "tref list"

record EnumOptionDecl =
  option_name :: cstring
  option_value :: int
  option_decl :: "node option"

text \<open>The value of a literal type: a literal, or one below casts, groups and unary operators.\<close>

datatype literal =
  IntegerLit bool u128
| BoolLit bool
| CharLit u32
| FloatLit u64
| StringLit cstring
| NullLit
| WrappedLit literal

datatype body =
  Error
| Container tref nat
| Literal literal
| Auto
| Void
| Null
| Info tref
| This tref
| Primitive PrtId
| String
| Pointer tref bool
| Reference tref
| Optional tref
| Array u64 tref
| Map tref tref
| Alias tref
| Union "tref list"
| UntaggedUnion "TypeMembersContainer option" "node option"
| Opaque "node option"
| Tuple "tref list"
| Func "tref list" tref "node option"
| Enum tref "EnumOptionDecl list" "EnumOptionDecl list" "node option"
| Module "TypeMembersContainer option" "tref list" "cstring option"
| Struct "TypeMembersContainer option" "node option"
| Class "TypeMembersContainer option" "node option" "TypeInheritance option"
| Interface "TypeMembersContainer option" "node option"
| Generic u64 "node option" bool
| Applied "tref list" tref
| Wrapped tref
| Exception "node option"
| Result tref

record Type =
  type_size :: u64
  index :: nat
  flags :: u64
  type_name :: "cstring option"
  ns :: "cstring option"
  body :: body

primrec tagOf :: "body \<Rightarrow> TTag" where
  "tagOf Error = typError"
| "tagOf (Container _ _) = typContainer"
| "tagOf (Literal _) = typLiteral"
| "tagOf Auto = typAuto"
| "tagOf Void = typVoid"
| "tagOf Null = typNull"
| "tagOf (Info _) = typInfo"
| "tagOf (This _) = typThis"
| "tagOf (Primitive _) = typPrimitive"
| "tagOf String = typString"
| "tagOf (Pointer _ _) = typPointer"
| "tagOf (Reference _) = typReference"
| "tagOf (Optional _) = typOptional"
| "tagOf (Array _ _) = typArray"
| "tagOf (Map _ _) = typMap"
| "tagOf (Alias _) = typAlias"
| "tagOf (Union _) = typUnion"
| "tagOf (UntaggedUnion _ _) = typUntaggedUnion"
| "tagOf (Opaque _) = typOpaque"
| "tagOf (Tuple _) = typTuple"
| "tagOf (Func _ _ _) = typFunc"
| "tagOf (Enum _ _ _ _) = typEnum"
| "tagOf (Module _ _ _) = typModule"
| "tagOf (Struct _ _) = typStruct"
| "tagOf (Class _ _ _) = typClass"
| "tagOf (Interface _ _) = typInterface"
| "tagOf (Generic _ _ _) = typGeneric"
| "tagOf (Applied _ _) = typApplied"
| "tagOf (Wrapped _) = typWrapped"
| "tagOf (Exception _) = typException"
| "tagOf (Result _) = typResult"

definition tag :: "Type \<Rightarrow> TTag" where
  "tag t = tagOf (body t)"

definition tagValue :: "Type \<Rightarrow> nat" where
  "tagValue t = position cxyTypes (tag t)"

type_synonym heap = "Type list"

text \<open>What is read of a declaration: its tag, its flags, its type, the type of its first type parameter and
  its parent scope.\<close>

record Node =
  node_tag :: cstring
  node_flags :: u64
  node_type :: tref
  node_typeParam :: "tref option"
  parentScope :: "node option"

type_synonym nodes = "node \<Rightarrow> Node"

definition typeAt :: "heap \<Rightarrow> tref \<Rightarrow> Type option" where
  "typeAt h p = (case p of None \<Rightarrow> None | Some a \<Rightarrow> if a < length h then Some (h ! a) else None)"

definition typeIs :: "heap \<Rightarrow> tref \<Rightarrow> TTag \<Rightarrow> bool" where
  "typeIs h p k = (case typeAt h p of None \<Rightarrow> False | Some t \<Rightarrow> tag t = k)"

definition hasFlag :: "heap \<Rightarrow> tref \<Rightarrow> u64 \<Rightarrow> bool" where
  "hasFlag h p f = (case typeAt h p of None \<Rightarrow> False | Some t \<Rightarrow> flags t AND f \<noteq> 0)"

definition declHasFlag :: "nodes \<Rightarrow> node option \<Rightarrow> u64 \<Rightarrow> bool" where
  "declHasFlag N d f = (case d of None \<Rightarrow> False | Some n \<Rightarrow> node_flags (N n) AND f \<noteq> 0)"

definition declIs :: "nodes \<Rightarrow> node option \<Rightarrow> cstring \<Rightarrow> bool" where
  "declIs N d k = (case d of None \<Rightarrow> False | Some n \<Rightarrow> node_tag (N n) = k)"

definition flgClosure :: u64 where "flgClosure = push_bit 12 1"
definition flgFuncTypeParam :: u64 where "flgFuncTypeParam = push_bit 15 1"
definition flgImplementsDeinit :: u64 where "flgImplementsDeinit = push_bit 29 1"
definition flgFunctionPtr :: u64 where "flgFunctionPtr = push_bit 32 1"
definition flgOptional :: u64 where "flgOptional = push_bit 41 1"
definition flgReferenceMembers :: u64 where "flgReferenceMembers = push_bit 43 1"
definition flgSlice :: u64 where "flgSlice = push_bit 45 1"
definition flgAnonymous :: u64 where "flgAnonymous = push_bit 59 1"

definition flgTypeApplicable :: u64 where
  "flgTypeApplicable = flgExtern OR flgConst OR flgOptional OR flgClosure OR flgSlice OR flgFuncTypeParam
     OR flgReferenceMembers OR flgAnonymous"

definition getPrimitiveTypeName :: "PrtId \<Rightarrow> cstring" where
  "getPrimitiveTypeName k =
     (case k of
        prtBool \<Rightarrow> ''bool'' | prtChar \<Rightarrow> ''wchar'' | prtCChar \<Rightarrow> ''char''
      | prtU8 \<Rightarrow> ''u8'' | prtU16 \<Rightarrow> ''u16'' | prtU32 \<Rightarrow> ''u32'' | prtU64 \<Rightarrow> ''u64'' | prtU128 \<Rightarrow> ''u128''
      | prtI8 \<Rightarrow> ''i8'' | prtI16 \<Rightarrow> ''i16'' | prtI32 \<Rightarrow> ''i32'' | prtI64 \<Rightarrow> ''i64'' | prtI128 \<Rightarrow> ''i128''
      | prtF32 \<Rightarrow> ''f32'' | prtF64 \<Rightarrow> ''f64'')"

definition getPrimitiveTypeSizeFromTag :: "PrtId \<Rightarrow> u64" where
  "getPrimitiveTypeSizeFromTag k =
     (case k of
        prtBool \<Rightarrow> 1 | prtChar \<Rightarrow> 4 | prtCChar \<Rightarrow> 1
      | prtU8 \<Rightarrow> 1 | prtU16 \<Rightarrow> 2 | prtU32 \<Rightarrow> 4 | prtU64 \<Rightarrow> 8 | prtU128 \<Rightarrow> 16
      | prtI8 \<Rightarrow> 1 | prtI16 \<Rightarrow> 2 | prtI32 \<Rightarrow> 4 | prtI64 \<Rightarrow> 8 | prtI128 \<Rightarrow> 16
      | prtF32 \<Rightarrow> 4 | prtF64 \<Rightarrow> 8)"

text \<open>The sequence of pure tests over lists, which stops at the first \<open>False\<close>.\<close>

primrec allM :: "('a \<Rightarrow> bool option) \<Rightarrow> 'a list \<Rightarrow> bool option" where
  "allM f [] = Some True"
| "allM f (x # xs) = do { b \<leftarrow> f x; if b then allM f xs else Some False }"

lemma allM_mono [partial_function_mono]:
  assumes "\<And>x. mono_option (\<lambda>f. B f x)"
  shows "mono_option (\<lambda>f. allM (B f) xs)"
proof (induction xs)
  case Nil
  then show ?case by (simp add: option.const_mono)
next
  case (Cons x xs)
  have "mono_option (\<lambda>f. do { b \<leftarrow> B f x; if b then allM (B f) xs else Some False })"
    by (intro partial_function_mono assms Cons.IH)
  then show ?case by simp
qed

definition andM :: "bool option \<Rightarrow> bool option \<Rightarrow> bool option" where
  "andM a b = do { x \<leftarrow> a; if x then b else Some False }"

definition orM :: "bool option \<Rightarrow> bool option \<Rightarrow> bool option" where
  "orM a b = do { x \<leftarrow> a; if x then Some True else b }"

lemma andM_mono [partial_function_mono]: "mono_option A \<Longrightarrow> mono_option B \<Longrightarrow> mono_option (\<lambda>f. andM (A f) (B f))"
  unfolding andM_def by (intro partial_function_mono)

lemma orM_mono [partial_function_mono]: "mono_option A \<Longrightarrow> mono_option B \<Longrightarrow> mono_option (\<lambda>f. orM (A f) (B f))"
  unfolding orM_def by (intro partial_function_mono)

section \<open>Following types\<close>

text \<open>The loops call themselves on the target and go on with what that returns.\<close>

partial_function (option) resolveType :: "heap \<Rightarrow> nodes \<Rightarrow> tref \<Rightarrow> tref option" where
  "resolveType h N p =
     (case p of
        None \<Rightarrow> Some None
      | Some _ \<Rightarrow> do {
          t \<leftarrow> typeAt h p;
          case body t of
            Alias q \<Rightarrow> do { r \<leftarrow> resolveType h N q; resolveType h N r }
          | Info q \<Rightarrow> do { r \<leftarrow> resolveType h N q; resolveType h N r }
          | Opaque d \<Rightarrow>
              if flags t AND flgForwardDecl \<noteq> 0
              then do { n \<leftarrow> d; r \<leftarrow> resolveType h N (node_type (N n)); Some (if r = None then p else r) }
              else Some p
          | _ \<Rightarrow> Some p
        })"

partial_function (option) resolveAndUnThisType :: "heap \<Rightarrow> nodes \<Rightarrow> tref \<Rightarrow> tref option" where
  "resolveAndUnThisType h N p =
     (case p of
        None \<Rightarrow> Some None
      | Some _ \<Rightarrow> do {
          t \<leftarrow> typeAt h p;
          case body t of
            Alias q \<Rightarrow> do { r \<leftarrow> resolveAndUnThisType h N q; resolveAndUnThisType h N r }
          | Info q \<Rightarrow> do { r \<leftarrow> resolveAndUnThisType h N q; resolveAndUnThisType h N r }
          | Opaque d \<Rightarrow>
              if flags t AND flgForwardDecl \<noteq> 0
              then do { n \<leftarrow> d; r \<leftarrow> resolveAndUnThisType h N (node_type (N n)); Some (if r = None then p else r) }
              else Some p
          | This q \<Rightarrow> do { r \<leftarrow> resolveAndUnThisType h N q; resolveAndUnThisType h N r }
          | _ \<Rightarrow> Some p
        })"

partial_function (option) resolveUnThisUnwrapType :: "heap \<Rightarrow> nodes \<Rightarrow> tref \<Rightarrow> tref option" where
  "resolveUnThisUnwrapType h N p =
     (case p of
        None \<Rightarrow> Some None
      | Some _ \<Rightarrow> do {
          t \<leftarrow> typeAt h p;
          case body t of
            Alias q \<Rightarrow> do { r \<leftarrow> resolveUnThisUnwrapType h N q; resolveUnThisUnwrapType h N r }
          | Info q \<Rightarrow> do { r \<leftarrow> resolveUnThisUnwrapType h N q; resolveUnThisUnwrapType h N r }
          | Opaque d \<Rightarrow>
              if flags t AND flgForwardDecl \<noteq> 0
              then do { n \<leftarrow> d; r \<leftarrow> resolveUnThisUnwrapType h N (node_type (N n)); Some (if r = None then p else r) }
              else Some p
          | This q \<Rightarrow> do { r \<leftarrow> resolveUnThisUnwrapType h N q; resolveUnThisUnwrapType h N r }
          | Wrapped q \<Rightarrow> do { r \<leftarrow> resolveUnThisUnwrapType h N q; resolveUnThisUnwrapType h N r }
          | _ \<Rightarrow> Some p
        })"

text \<open>The first word of the union: \<open>stripPointer\<close> and its like look at the tag of the resolved type, and read
  the member of the type they were given, which is the target of an alias just as well.\<close>

definition firstWord :: "body \<Rightarrow> tref option" where
  "firstWord b =
     (case b of
        Pointer q _ \<Rightarrow> Some q | Reference q \<Rightarrow> Some q | Alias q \<Rightarrow> Some q | Info q \<Rightarrow> Some q | Wrapped q \<Rightarrow> Some q
      | Optional q \<Rightarrow> Some q | Result q \<Rightarrow> Some q | Enum q _ _ _ \<Rightarrow> Some q | Map q _ \<Rightarrow> Some q | _ \<Rightarrow> None)"

text \<open>The tag of the resolved type, and the word that is read next.\<close>

definition resolvedTag :: "heap \<Rightarrow> nodes \<Rightarrow> tref \<Rightarrow> TTag option" where
  "resolvedTag h N p = do { r \<leftarrow> resolveType h N p; t \<leftarrow> typeAt h r; Some (tag t) }"

definition wordAt :: "heap \<Rightarrow> tref \<Rightarrow> tref option" where
  "wordAt h p = do { t \<leftarrow> typeAt h p; firstWord (body t) }"

partial_function (option) stripPointer :: "heap \<Rightarrow> nodes \<Rightarrow> tref \<Rightarrow> tref option" where
  "stripPointer h N p = do {
     k \<leftarrow> resolvedTag h N p;
     if k = typPointer then do { q \<leftarrow> wordAt h p; r \<leftarrow> stripPointer h N q; stripPointer h N r }
     else Some p }"

partial_function (option) stripReference :: "heap \<Rightarrow> nodes \<Rightarrow> tref \<Rightarrow> tref option" where
  "stripReference h N p = do {
     k \<leftarrow> resolvedTag h N p;
     if k = typReference then do { q \<leftarrow> wordAt h p; r \<leftarrow> stripReference h N q; stripReference h N r }
     else Some p }"

text \<open>The case of a reference falls through and returns.\<close>

partial_function (option) stripPointerOrReference :: "heap \<Rightarrow> nodes \<Rightarrow> tref \<Rightarrow> tref option" where
  "stripPointerOrReference h N p = do {
     k \<leftarrow> resolvedTag h N p;
     if k = typPointer then do { q \<leftarrow> wordAt h p; r \<leftarrow> stripPointerOrReference h N q; stripPointerOrReference h N r }
     else if k = typReference then do { q \<leftarrow> wordAt h p; stripPointerOrReference h N q }
     else Some p }"

text \<open>The member \<open>that\<close> is not the first word: for a name of a self type the read is undefined.\<close>

partial_function (option) stripAll :: "heap \<Rightarrow> nodes \<Rightarrow> tref \<Rightarrow> tref option" where
  "stripAll h N p =
     (case p of
        None \<Rightarrow> Some None
      | Some _ \<Rightarrow> do {
          k \<leftarrow> resolvedTag h N p;
          if k = typPointer \<or> k = typReference \<or> k = typWrapped
          then do { q \<leftarrow> wordAt h p; r \<leftarrow> stripAll h N q; stripAll h N r }
          else if k = typThis
          then do {
            t \<leftarrow> typeAt h p;
            case body t of
              This None \<Rightarrow> Some p
            | This (Some q) \<Rightarrow> do { r \<leftarrow> stripAll h N (Some q); stripAll h N r }
            | _ \<Rightarrow> None }
          else Some p })"

partial_function (option) unwrapLoop :: "heap \<Rightarrow> tref \<Rightarrow> u64 \<Rightarrow> (tref \<times> u64) option" where
  "unwrapLoop h p tmp =
     (case typeAt h p of
        None \<Rightarrow> if p = None then Some (None, tmp) else None
      | Some t \<Rightarrow> (case body t of Wrapped q \<Rightarrow> unwrapLoop h q (tmp OR flags t) | _ \<Rightarrow> Some (p, tmp)))"

text \<open>Without and with the pointer to the flags.\<close>

definition unwrapType :: "heap \<Rightarrow> tref \<Rightarrow> tref option" where
  "unwrapType h p = do { (q, _) \<leftarrow> unwrapLoop h p flgNone; Some q }"

definition unwrapTypeFlags :: "heap \<Rightarrow> tref \<Rightarrow> (tref \<times> u64) option" where
  "unwrapTypeFlags h p = do {
     (q, tmp) \<leftarrow> unwrapLoop h p flgNone;
     t \<leftarrow> typeAt h q;
     Some (q, (tmp OR flags t) AND flgTypeApplicable) }"

definition flattenWrappedType :: "heap \<Rightarrow> nodes \<Rightarrow> tref \<Rightarrow> u64 \<Rightarrow> (tref \<times> u64) option" where
  "flattenWrappedType h N p f = do {
     p \<leftarrow> resolveType h N p;
     (q, tmp) \<leftarrow> unwrapLoop h p flgNone;
     Some (q, f OR tmp) }"

definition isTypeConst :: "heap \<Rightarrow> tref \<Rightarrow> bool option" where
  "isTypeConst h p = do { (_, f) \<leftarrow> unwrapTypeFlags h p; Some (f AND flgConst \<noteq> 0) }"

definition isConstType :: "heap \<Rightarrow> tref \<Rightarrow> bool option" where
  "isConstType h p = do { (_, f) \<leftarrow> unwrapTypeFlags h p; Some (f AND flgConst \<noteq> 0) }"

definition stripPointerOnce :: "heap \<Rightarrow> nodes \<Rightarrow> tref \<Rightarrow> u64 \<Rightarrow> (tref \<times> u64) option" where
  "stripPointerOnce h N p f = do {
     p \<leftarrow> resolveType h N p;
     (p, f) \<leftarrow> (case typeAt h p of
        Some t \<Rightarrow> (case body t of Wrapped q \<Rightarrow> Some (q, f OR flags t) | _ \<Rightarrow> Some (p, f)) | None \<Rightarrow> Some (p, f));
     (p, f) \<leftarrow> (case typeAt h p of
        Some t \<Rightarrow> (case body t of Pointer q _ \<Rightarrow> Some (q, f OR flags t) | _ \<Rightarrow> Some (p, f)) | None \<Rightarrow> Some (p, f));
     t \<leftarrow> typeAt h p;
     Some (p, f OR flags t) }"

definition stripPointerOrReferenceOnce :: "heap \<Rightarrow> nodes \<Rightarrow> tref \<Rightarrow> u64 \<Rightarrow> (tref \<times> u64) option" where
  "stripPointerOrReferenceOnce h N p f = do {
     p \<leftarrow> resolveType h N p;
     (p, f) \<leftarrow> (case typeAt h p of
        Some t \<Rightarrow> (case body t of Wrapped q \<Rightarrow> Some (q, f OR flags t) | _ \<Rightarrow> Some (p, f)) | None \<Rightarrow> Some (p, f));
     t \<leftarrow> typeAt h p;
     (p, f) \<leftarrow> (case body t of
        Pointer q _ \<Rightarrow> Some (q, f OR flags t) | Reference q \<Rightarrow> Some (q, f OR flags t) | _ \<Rightarrow> Some (p, f OR flags t));
     t \<leftarrow> typeAt h p;
     Some (p, f OR flags t) }"

partial_function (option) pointerLevels :: "heap \<Rightarrow> tref \<Rightarrow> nat option" where
  "pointerLevels h p =
     (case typeAt h p of
        Some t \<Rightarrow> (case body t of Pointer q _ \<Rightarrow> do { n \<leftarrow> pointerLevels h q; Some (Suc n) } | _ \<Rightarrow> Some 0)
      | None \<Rightarrow> Some 0)"

definition unThisType :: "heap \<Rightarrow> tref \<Rightarrow> tref" where
  "unThisType h p = (case typeAt h p of Some t \<Rightarrow> (case body t of This q \<Rightarrow> q | _ \<Rightarrow> p) | None \<Rightarrow> p)"

definition maybeUnThisType :: "heap \<Rightarrow> tref \<Rightarrow> tref" where
  "maybeUnThisType h p =
     (case typeAt h p of Some t \<Rightarrow> (case body t of This (Some q) \<Rightarrow> Some q | _ \<Rightarrow> p) | None \<Rightarrow> p)"

partial_function (option) getTypeDecl :: "heap \<Rightarrow> nodes \<Rightarrow> tref \<Rightarrow> node option option" where
  "getTypeDecl h N p =
     (if p = None then Some None
      else do {
        q \<leftarrow> unwrapType h p;
        r \<leftarrow> resolveType h N q;
        t \<leftarrow> typeAt h r;
        case body t of
          Struct _ d \<Rightarrow> Some d
        | Class _ d _ \<Rightarrow> Some d
        | Func _ _ d \<Rightarrow> Some d
        | This q \<Rightarrow> getTypeDecl h N q
        | Enum _ _ _ d \<Rightarrow> Some d
        | Generic _ d _ \<Rightarrow> Some d
        | Interface _ d \<Rightarrow> Some d
        | Reference q \<Rightarrow> getTypeDecl h N q
        | _ \<Rightarrow> Some None })"

section \<open>Kinds of types\<close>

text \<open>The tests share one shape: resolve, look below information and wrapper types, then at the type. The
  argument is the test, with its value for \<open>NULL\<close>, which is false.\<close>

partial_function (option) classify :: "heap \<Rightarrow> nodes \<Rightarrow> (Type \<Rightarrow> bool) \<Rightarrow> tref \<Rightarrow> bool option" where
  "classify h N P p = do {
     p \<leftarrow> resolveType h N p;
     case typeAt h p of
       None \<Rightarrow> Some False
     | Some t \<Rightarrow>
         (case body t of
            Info q \<Rightarrow> classify h N P q
          | Wrapped _ \<Rightarrow> do { q \<leftarrow> unwrapType h p; classify h N P q }
          | _ \<Rightarrow> Some (P t)) }"

definition isPrim :: "PrtId list \<Rightarrow> Type \<Rightarrow> bool" where
  "isPrim ks t = (case body t of Primitive k \<Rightarrow> k \<in> set ks | _ \<Rightarrow> False)"

definition isIntegerType where "isIntegerType h N = classify h N (isPrim integerTypes)"

definition isIntegralType where
  "isIntegralType h N = classify h N (\<lambda>t. tag t = typEnum \<or> isPrim (integerTypes @ [prtBool, prtChar, prtCChar]) t)"

definition isSignedType where "isSignedType h N = classify h N (isPrim (signedIntegerTypes @ floatTypes))"

definition isSignedIntegerType where "isSignedIntegerType h N = classify h N (isPrim signedIntegerTypes)"

definition isUnsignedType where "isUnsignedType h N = classify h N (isPrim unsignedIntegerTypes)"

definition isFloatType where "isFloatType h N = classify h N (isPrim floatTypes)"

definition isNumericType where
  "isNumericType h N =
     classify h N (\<lambda>t. tag t = typEnum \<or> (tag t = typPrimitive \<and> body t \<noteq> Primitive prtBool))"

definition isBooleanType where "isBooleanType h N = classify h N (isPrim [prtBool])"

definition isCharacterType where "isCharacterType h N = classify h N (isPrim [prtChar, prtCChar])"

definition isArrayType where "isArrayType h N = classify h N (\<lambda>t. tag t = typArray)"

definition isPointerType where
  "isPointerType h N = classify h N (\<lambda>t. tag t \<in> {typPointer, typArray, typString})"

definition isPointerTypeExact where "isPointerTypeExact h N = classify h N (\<lambda>t. tag t = typPointer)"

definition isReferenceType where "isReferenceType h N = classify h N (\<lambda>t. tag t = typReference)"

definition isPointerOrReferenceType where
  "isPointerOrReferenceType h N = classify h N (\<lambda>t. tag t \<in> {typPointer, typReference, typArray, typString})"

definition isSliceType :: "heap \<Rightarrow> tref \<Rightarrow> bool" where
  "isSliceType h p \<longleftrightarrow> typeIs h p typStruct \<and> hasFlag h p flgSlice"

definition isReferable :: "heap \<Rightarrow> nodes \<Rightarrow> tref \<Rightarrow> bool option" where
  "isReferable h N p = do {
     p \<leftarrow> resolveType h N p;
     p \<leftarrow> unwrapType h p;
     Some (case typeAt h p of
             None \<Rightarrow> False
           | Some t \<Rightarrow> tag t \<in> {typClass, typStruct, typTuple, typUnion, typThis} \<and> flags t AND flgExtern = 0) }"

partial_function (option) isVoidType :: "heap \<Rightarrow> nodes \<Rightarrow> tref \<Rightarrow> bool option" where
  "isVoidType h N p = do {
     p \<leftarrow> resolveType h N p;
     case typeAt h p of
       None \<Rightarrow> Some False
     | Some t \<Rightarrow> (case body t of Wrapped q \<Rightarrow> isVoidType h N q | Void \<Rightarrow> Some True | _ \<Rightarrow> Some False) }"

partial_function (option) isVoidPointer :: "heap \<Rightarrow> nodes \<Rightarrow> tref \<Rightarrow> bool option" where
  "isVoidPointer h N p = do {
     p \<leftarrow> resolveType h N p;
     case typeAt h p of
       None \<Rightarrow> Some False
     | Some t \<Rightarrow>
         (case body t of Wrapped q \<Rightarrow> isVoidPointer h N q | Pointer q _ \<Rightarrow> isVoidType h N q | _ \<Rightarrow> Some False) }"

definition isThisOf :: "heap \<Rightarrow> tref \<Rightarrow> TTag \<Rightarrow> bool" where
  "isThisOf h p k \<longleftrightarrow>
     (case typeAt h p of Some t \<Rightarrow> (case body t of This q \<Rightarrow> typeIs h q k | _ \<Rightarrow> False) | None \<Rightarrow> False)"

definition isClassType :: "heap \<Rightarrow> nodes \<Rightarrow> tref \<Rightarrow> bool option" where
  "isClassType h N p = do {
     p \<leftarrow> resolveType h N p;
     p \<leftarrow> unwrapType h p;
     Some (typeIs h p typClass \<or> isThisOf h p typClass) }"

definition isStructType :: "heap \<Rightarrow> tref \<Rightarrow> bool option" where
  "isStructType h p = do { p \<leftarrow> unwrapType h p; Some (typeIs h p typStruct \<or> isThisOf h p typStruct) }"

definition isClassOrStructType :: "heap \<Rightarrow> nodes \<Rightarrow> tref \<Rightarrow> bool option" where
  "isClassOrStructType h N p = orM (isClassType h N p) (isStructType h p)"

definition isComplexType :: "heap \<Rightarrow> nodes \<Rightarrow> tref \<Rightarrow> bool option" where
  "isComplexType h N p = do {
     p \<leftarrow> resolveUnThisUnwrapType h N p;
     Some (\<exists>k\<in>{typStruct, typClass, typTuple, typUnion}. typeIs h p k) }"

definition isClassReferenceType :: "heap \<Rightarrow> nodes \<Rightarrow> tref \<Rightarrow> bool option" where
  "isClassReferenceType h N p =
     andM (isReferenceType h N p) (do { q \<leftarrow> stripReference h N p; isClassType h N q })"

definition isUnionType :: "heap \<Rightarrow> tref \<Rightarrow> bool option" where
  "isUnionType h p = do { p \<leftarrow> unwrapType h p; Some (typeIs h p typUnion) }"

definition isTupleType :: "heap \<Rightarrow> tref \<Rightarrow> bool option" where
  "isTupleType h p = do { p \<leftarrow> unwrapType h p; Some (typeIs h p typTuple) }"

definition isPrimitiveType :: "heap \<Rightarrow> nodes \<Rightarrow> tref \<Rightarrow> bool option" where
  "isPrimitiveType h N p = do { p \<leftarrow> resolveUnThisUnwrapType h N p; Some (typeIs h p typPrimitive) }"

definition hasPrimitiveType :: "heap \<Rightarrow> nodes \<Rightarrow> tref \<Rightarrow> PrtId \<Rightarrow> bool option" where
  "hasPrimitiveType h N p k = do {
     p \<leftarrow> resolveUnThisUnwrapType h N p;
     Some (case typeAt h p of Some t \<Rightarrow> body t = Primitive k | None \<Rightarrow> False) }"

partial_function (option) isBuiltinType :: "heap \<Rightarrow> tref \<Rightarrow> bool option" where
  "isBuiltinType h p =
     (case typeAt h p of
        None \<Rightarrow> Some False
      | Some t \<Rightarrow>
          (case body t of
             Primitive _ \<Rightarrow> Some True | Void \<Rightarrow> Some True | String \<Rightarrow> Some True | Auto \<Rightarrow> Some True | Null \<Rightarrow> Some True
           | Info q \<Rightarrow> isBuiltinType h q
           | Wrapped _ \<Rightarrow> do { q \<leftarrow> unwrapType h p; isBuiltinType h q }
           | _ \<Rightarrow> Some False))"

definition isBaseExceptionType :: "heap \<Rightarrow> tref \<Rightarrow> bool" where
  "isBaseExceptionType h p \<longleftrightarrow>
     (case typeAt h p of Some t \<Rightarrow> tag t = typClass \<and> type_name t = Some ''Exception'' \<and> ns t = None | None \<Rightarrow> False)"

text \<open>The inheritance is read of the class itself: for a self type or a wrapped class the member is not there.\<close>

definition isExceptionType :: "heap \<Rightarrow> nodes \<Rightarrow> tref \<Rightarrow> bool option" where
  "isExceptionType h N p = do {
     p \<leftarrow> resolveAndUnThisType h N p;
     c \<leftarrow> isClassType h N p;
     if \<not> c then Some False
     else do {
       t \<leftarrow> typeAt h p;
       case body t of
         Class _ _ None \<Rightarrow> Some False
       | Class _ _ (Some i) \<Rightarrow> Some (isBaseExceptionType h (base i))
       | _ \<Rightarrow> None } }"

definition isResultType :: "heap \<Rightarrow> nodes \<Rightarrow> tref \<Rightarrow> bool option" where
  "isResultType h N p = do {
     p \<leftarrow> resolveUnThisUnwrapType h N p;
     Some (case typeAt h p of
             Some t \<Rightarrow> (case body t of Union [_, m] \<Rightarrow> isBaseExceptionType h m | _ \<Rightarrow> False)
           | None \<Rightarrow> False) }"

definition getResultTargetType :: "heap \<Rightarrow> nodes \<Rightarrow> tref \<Rightarrow> tref option" where
  "getResultTargetType h N p = do {
     r \<leftarrow> (if p = None then Some False else isResultType h N p);
     if \<not> r then Some None
     else do {
       p \<leftarrow> resolveUnThisUnwrapType h N p;
       t \<leftarrow> typeAt h p;
       case body t of Union (m # _) \<Rightarrow> Some m | _ \<Rightarrow> None } }"

definition isVoidResultType :: "heap \<Rightarrow> nodes \<Rightarrow> tref \<Rightarrow> bool option" where
  "isVoidResultType h N p = do {
     p \<leftarrow> resolveUnThisUnwrapType h N p;
     r \<leftarrow> isResultType h N p;
     if \<not> r then Some False
     else do {
       t \<leftarrow> typeAt h p;
       m \<leftarrow> (case body t of Union (m # _) \<Rightarrow> Some m | _ \<Rightarrow> None);
       Some (case typeAt h m of
               Some t \<Rightarrow> tag t = typStruct \<and> type_name t = Some ''Void'' \<and> ns t = None | None \<Rightarrow> False) } }"

partial_function (option) isStructPointer :: "heap \<Rightarrow> tref \<Rightarrow> bool option" where
  "isStructPointer h p = do {
     t \<leftarrow> typeAt h p;
     case body t of
       Pointer q _ \<Rightarrow> if typeIs h q typStruct then Some True else isStructPointer h q
     | This q \<Rightarrow> Some (typeIs h q typStruct)
     | _ \<Rightarrow> Some False }"

section \<open>Members\<close>

definition searchCompareStructMember :: "cstring \<Rightarrow> NamedTypeMember \<Rightarrow> int" where
  "searchCompareStructMember left right = (if left = member_name right then 0 else strcmp_sgn left (member_name right))"

definition searchCompareEnumOption :: "cstring \<Rightarrow> EnumOptionDecl \<Rightarrow> int" where
  "searchCompareEnumOption left right = (if left = option_name right then 0 else strcmp_sgn left (option_name right))"

definition sortCompareStructMember :: "NamedTypeMember \<Rightarrow> NamedTypeMember \<Rightarrow> int" where
  "sortCompareStructMember left right =
     (if member_name left = member_name right then 0 else strcmp_sgn (member_name left) (member_name right))"

text \<open>The sorting function of the C library is an argument.\<close>

definition makeTypeMembersContainer ::
  "((NamedTypeMember \<Rightarrow> NamedTypeMember \<Rightarrow> int) \<Rightarrow> NamedTypeMember list \<Rightarrow> NamedTypeMember list) \<Rightarrow>
   NamedTypeMember list \<Rightarrow> TypeMembersContainer" where
  "makeTypeMembersContainer qsort ms = \<lparr>members = ms, sortedMembers = qsort sortCompareStructMember ms\<rparr>"

definition makeTypeInheritance :: "tref \<Rightarrow> tref list \<Rightarrow> TypeInheritance" where
  "makeTypeInheritance b is = \<lparr>base = b, interfaces = is\<rparr>"

definition findNamedTypeMemberInContainer :: "TypeMembersContainer \<Rightarrow> cstring \<Rightarrow> NamedTypeMember option" where
  "findNamedTypeMemberInContainer c m =
     (let index = binarySearch searchCompareStructMember m (sortedMembers c)
      in if index = -1 then None else Some (sortedMembers c ! nat index))"

text \<open>The members of a type; the container may not be set yet.\<close>

definition containerOf :: "body \<Rightarrow> TypeMembersContainer option" where
  "containerOf b =
     (case b of
        Struct c _ \<Rightarrow> c | Class c _ _ \<Rightarrow> c | Interface c _ \<Rightarrow> c | UntaggedUnion c _ \<Rightarrow> c | Module c _ _ \<Rightarrow> c
      | _ \<Rightarrow> None)"

definition findMemberOf :: "heap \<Rightarrow> tref \<Rightarrow> cstring \<Rightarrow> NamedTypeMember option option" where
  "findMemberOf h p m = do {
     t \<leftarrow> typeAt h p;
     c \<leftarrow> containerOf (body t);
     Some (findNamedTypeMemberInContainer c m) }"

definition findStructMember :: "heap \<Rightarrow> tref \<Rightarrow> cstring \<Rightarrow> NamedTypeMember option option" where
  "findStructMember h p m = findMemberOf h (unThisType h p) m"

definition findStructMemberType :: "heap \<Rightarrow> tref \<Rightarrow> cstring \<Rightarrow> tref option" where
  "findStructMemberType h p m = do {
     f \<leftarrow> findStructMember h p m; Some (case f of None \<Rightarrow> None | Some x \<Rightarrow> member_type x) }"

definition findEnumOption :: "body \<Rightarrow> cstring \<Rightarrow> EnumOptionDecl option option" where
  "findEnumOption b m =
     (case b of
        Enum _ _ opts _ \<Rightarrow>
          (let index = binarySearch searchCompareEnumOption m opts
           in Some (if index = -1 then None else Some (opts ! nat index)))
      | _ \<Rightarrow> None)"

text \<open>A module, then the modules it includes, in order.\<close>

primrec firstM :: "('a \<Rightarrow> 'b option option) \<Rightarrow> 'a list \<Rightarrow> 'b option option" where
  "firstM f [] = Some None"
| "firstM f (x # xs) = do { r \<leftarrow> f x; case r of None \<Rightarrow> firstM f xs | Some y \<Rightarrow> Some (Some y) }"

lemma firstM_mono [partial_function_mono]:
  assumes "\<And>x. mono_option (\<lambda>f. B f x)"
  shows "mono_option (\<lambda>f. firstM (B f) xs)"
proof (induction xs)
  case Nil
  then show ?case by (simp add: option.const_mono)
next
  case (Cons x xs)
  have "mono_option (\<lambda>f. do { r \<leftarrow> B f x; case_option (firstM (B f) xs) (\<lambda>y. Some (Some y)) r })"
  proof (intro partial_function_mono assms)
    fix r
    show "mono_option (\<lambda>f. case_option (firstM (B f) xs) (\<lambda>y. Some (Some y)) r)"
      using Cons.IH by (cases r) (simp_all add: option.const_mono)
  qed
  then show ?case by simp
qed

partial_function (option) findModuleMember :: "heap \<Rightarrow> cstring \<Rightarrow> tref \<Rightarrow> NamedTypeMember option option" where
  "findModuleMember h m p =
     (if p = None then Some None
      else do {
        t \<leftarrow> typeAt h p;
        case body t of
          Module c incs _ \<Rightarrow> do {
            c \<leftarrow> c;
            (case findNamedTypeMemberInContainer c m of
               Some x \<Rightarrow> Some (Some x)
             | None \<Rightarrow> firstM (findModuleMember h m) incs) }
        | _ \<Rightarrow> None })"

definition getTypeInheritance :: "heap \<Rightarrow> tref \<Rightarrow> TypeInheritance option option" where
  "getTypeInheritance h p = do {
     t \<leftarrow> typeAt h (unThisType h p);
     Some (case body t of Class _ _ i \<Rightarrow> i | _ \<Rightarrow> None) }"

definition implementsInterface :: "heap \<Rightarrow> tref \<Rightarrow> tref \<Rightarrow> bool option" where
  "implementsInterface h p face = do {
     i \<leftarrow> getTypeInheritance h p;
     Some (case i of None \<Rightarrow> False | Some i \<Rightarrow> face \<in> set (interfaces i)) }"

partial_function (option) getTypeBase :: "heap \<Rightarrow> nodes \<Rightarrow> tref \<Rightarrow> tref option" where
  "getTypeBase h N p = do {
     p \<leftarrow> stripReference h N p;
     t \<leftarrow> typeAt h p;
     case body t of
       Class _ _ i \<Rightarrow> Some (case i of None \<Rightarrow> None | Some i \<Rightarrow> base i)
     | This q \<Rightarrow> getTypeBase h N q
     | Enum b _ _ _ \<Rightarrow> Some b
     | _ \<Rightarrow> Some None }"

text \<open>The base is compared with the base of each class up the chain.\<close>

partial_function (option) baseLoop :: "heap \<Rightarrow> nodes \<Rightarrow> tref \<Rightarrow> tref \<Rightarrow> bool option" where
  "baseLoop h N b it =
     (case typeAt h it of
        None \<Rightarrow> Some False
      | Some t \<Rightarrow>
          (case body t of
             Class _ _ i \<Rightarrow> do {
               i \<leftarrow> i;
               if base i = None then Some False
               else if base i = b then Some True
               else do { it \<leftarrow> resolveAndUnThisType h N (base i); baseLoop h N b it } }
           | _ \<Rightarrow> Some False))"

definition typeIsBaseOf :: "heap \<Rightarrow> nodes \<Rightarrow> tref \<Rightarrow> tref \<Rightarrow> bool option" where
  "typeIsBaseOf h N b p = do { it \<leftarrow> resolveAndUnThisType h N p; baseLoop h N b it }"

partial_function (option) overloadLoop :: "heap \<Rightarrow> nodes \<Rightarrow> cstring \<Rightarrow> tref \<Rightarrow> NamedTypeMember option option" where
  "overloadLoop h N m p =
     (if p = None then Some None
      else do {
        c \<leftarrow> isClassOrStructType h N p;
        if \<not> c then Some None
        else do {
          f \<leftarrow> findStructMember h p m;
          case f of
            Some x \<Rightarrow> Some (Some x)
          | None \<Rightarrow> do { q \<leftarrow> getTypeBase h N p; overloadLoop h N m q } } })"

definition findOverloadMemberUpInheritanceChain :: "heap \<Rightarrow> nodes \<Rightarrow> tref \<Rightarrow> cstring \<Rightarrow> NamedTypeMember option option" where
  "findOverloadMemberUpInheritanceChain h N p m = do { p \<leftarrow> unwrapType h p; overloadLoop h N m p }"

partial_function (option) findMemberDeclInType :: "heap \<Rightarrow> cstring \<Rightarrow> tref \<Rightarrow> node option option" where
  "findMemberDeclInType h m p = do {
     t \<leftarrow> typeAt h p;
     case body t of
       This q \<Rightarrow> findMemberDeclInType h m q
     | Enum _ _ _ _ \<Rightarrow> do { f \<leftarrow> findEnumOption (body t) m; Some (case f of None \<Rightarrow> None | Some x \<Rightarrow> option_decl x) }
     | Module _ _ _ \<Rightarrow> do { f \<leftarrow> findModuleMember h m p; Some (case f of None \<Rightarrow> None | Some x \<Rightarrow> member_decl x) }
     | Struct _ _ \<Rightarrow> do { f \<leftarrow> findMemberOf h p m; Some (case f of None \<Rightarrow> None | Some x \<Rightarrow> member_decl x) }
     | Class _ _ _ \<Rightarrow> do { f \<leftarrow> findMemberOf h p m; Some (case f of None \<Rightarrow> None | Some x \<Rightarrow> member_decl x) }
     | Interface _ _ \<Rightarrow> do { f \<leftarrow> findMemberOf h p m; Some (case f of None \<Rightarrow> None | Some x \<Rightarrow> member_decl x) }
     | UntaggedUnion _ _ \<Rightarrow> do { f \<leftarrow> findMemberOf h p m; Some (case f of None \<Rightarrow> None | Some x \<Rightarrow> member_decl x) }
     | _ \<Rightarrow> Some None }"

partial_function (option) findMemberInType :: "heap \<Rightarrow> cstring \<Rightarrow> tref \<Rightarrow> tref option" where
  "findMemberInType h m p =
     (if p = None then Some None
      else do {
        t \<leftarrow> typeAt h p;
        case body t of
          This q \<Rightarrow> findMemberInType h m q
        | Struct _ _ \<Rightarrow> findStructMemberType h p m
        | Class _ _ _ \<Rightarrow> findStructMemberType h p m
        | Interface _ _ \<Rightarrow> findStructMemberType h p m
        | Enum _ _ _ _ \<Rightarrow> do { f \<leftarrow> findEnumOption (body t) m; Some (case f of None \<Rightarrow> None | Some x \<Rightarrow> p) }
        | Module _ _ _ \<Rightarrow> do { f \<leftarrow> findModuleMember h m p; Some (case f of None \<Rightarrow> None | Some x \<Rightarrow> member_type x) }
        | Wrapped _ \<Rightarrow> do { q \<leftarrow> unwrapType h p; findMemberInType h m q }
        | _ \<Rightarrow> Some None })"

definition isTruthyType :: "heap \<Rightarrow> nodes \<Rightarrow> tref \<Rightarrow> bool option" where
  "isTruthyType h N p =
     orM (isIntegralType h N p) (orM (isFloatType h N p)
       (if \<exists>k\<in>{typPointer, typOptional, typString}. typeIs h p k then Some True
        else andM (isClassOrStructType h N p) (do { f \<leftarrow> findStructMemberType h p ''op__truthy''; Some (f \<noteq> None) })))"

definition getPointedType :: "heap \<Rightarrow> tref \<Rightarrow> tref option" where
  "getPointedType h p = do {
     t \<leftarrow> typeAt h p;
     case body t of Pointer q _ \<Rightarrow> Some (unThisType h q) | _ \<Rightarrow> None }"

definition getOptionalTargetType :: "heap \<Rightarrow> nodes \<Rightarrow> tref \<Rightarrow> tref option" where
  "getOptionalTargetType h N p =
     (if \<not> hasFlag h p flgOptional then Some None
      else do {
        t \<leftarrow> typeAt h p;
        case body t of Struct _ d \<Rightarrow> do { n \<leftarrow> d; node_typeParam (N n) } | _ \<Rightarrow> None })"

definition getSliceTargetType :: "heap \<Rightarrow> tref \<Rightarrow> tref option" where
  "getSliceTargetType h p =
     (if \<not> hasFlag h p flgSlice then Some None
      else do {
        t \<leftarrow> typeAt h p;
        m \<leftarrow> (case body t of Struct (Some c) _ \<Rightarrow> (case members c of m # _ \<Rightarrow> Some m | [] \<Rightarrow> None) | _ \<Rightarrow> None);
        t \<leftarrow> typeAt h (member_type m);
        case body t of Pointer q _ \<Rightarrow> Some q | _ \<Rightarrow> None })"

text \<open>The index of a type among the members of a union.\<close>

fun unionLoop :: "heap \<Rightarrow> nodes \<Rightarrow> tref \<Rightarrow> tref list \<Rightarrow> nat \<Rightarrow> nat option option" where
  "unionLoop h N p [] i = Some None"
| "unionLoop h N p (m # ms) i = do {
     r \<leftarrow> resolveAndUnThisType h N m;
     if r = p then Some (Some i) else unionLoop h N p ms (Suc i) }"

definition findUnionTypeIndex :: "heap \<Rightarrow> nodes \<Rightarrow> tref \<Rightarrow> tref \<Rightarrow> nat option option" where
  "findUnionTypeIndex h N tagged p = do {
     q \<leftarrow> unwrapType h tagged;
     case typeAt h q of
       None \<Rightarrow> Some None
     | Some t \<Rightarrow>
         (case body t of
            Union ms \<Rightarrow> do { p \<leftarrow> resolveUnThisUnwrapType h N p; unionLoop h N p ms 0 }
          | _ \<Rightarrow> Some None) }"

definition hasReferenceMembers :: "heap \<Rightarrow> nodes \<Rightarrow> tref \<Rightarrow> bool option" where
  "hasReferenceMembers h N p =
     (if hasFlag h p flgReferenceMembers then Some True
      else do {
        c \<leftarrow> isClassOrStructType h N p;
        if c then do { d \<leftarrow> getTypeDecl h N p; Some (declHasFlag N d flgReferenceMembers) }
        else andM (isTupleType h p) (Some (hasFlag h p flgReferenceMembers)) })"

definition isDestructible :: "heap \<Rightarrow> nodes \<Rightarrow> tref \<Rightarrow> bool option" where
  "isDestructible h N p =
     (if hasFlag h p (flgReferenceMembers OR flgImplementsDeinit) then Some True
      else do {
        c \<leftarrow> isClassOrStructType h N p;
        if c then do { d \<leftarrow> getTypeDecl h N p; Some (declHasFlag N d (flgReferenceMembers OR flgImplementsDeinit)) }
        else andM (isTupleType h p) (Some (hasFlag h p (flgReferenceMembers OR flgImplementsDeinit OR flgFuncTypeParam))) })"

section \<open>Comparison and hashing\<close>

text \<open>Equality of double values, given by their bits.\<close>

definition isNaN :: "u64 \<Rightarrow> bool" where
  "isNaN x \<longleftrightarrow> x AND 0x7FF0000000000000 = 0x7FF0000000000000 \<and> x AND 0xFFFFFFFFFFFFF \<noteq> 0"

definition f64Equal :: "u64 \<Rightarrow> u64 \<Rightarrow> bool" where
  "f64Equal a b \<longleftrightarrow> \<not> isNaN a \<and> \<not> isNaN b \<and> (a = b \<or> push_bit 1 (a OR b) = 0)"

fun compareAstNodes :: "literal \<Rightarrow> literal \<Rightarrow> bool option" where
  "compareAstNodes NullLit NullLit = Some True"
| "compareAstNodes (CharLit a) (CharLit b) = Some (a = b)"
| "compareAstNodes (BoolLit a) (BoolLit b) = Some (a = b)"
| "compareAstNodes (IntegerLit n a) (IntegerLit m b) = Some (n = m \<and> a = b)"
| "compareAstNodes (FloatLit a) (FloatLit b) = Some (f64Equal a b)"
| "compareAstNodes (StringLit a) (StringLit b) = Some (a = b)"
| "compareAstNodes (WrappedLit a) (WrappedLit b) = None"
| "compareAstNodes _ _ = Some False"

text \<open>A node below casts, groups or unary operators can have one of several tags: two of them fail an
  assertion here, or have different tags.\<close>

definition sameScope :: "nodes \<Rightarrow> node option \<Rightarrow> node option \<Rightarrow> bool" where
  "sameScope N l r =
     (case (l, r) of
        (Some l, Some r) \<Rightarrow>
          (case (parentScope (N l), parentScope (N r)) of (Some a, Some b) \<Rightarrow> a = b | _ \<Rightarrow> True)
      | _ \<Rightarrow> True)"

text \<open>The fields of anonymous structs, in the order of their names: the left ones are declarations.\<close>

definition leftFields :: "nodes \<Rightarrow> TypeMembersContainer \<Rightarrow> NamedTypeMember list" where
  "leftFields N c = filter (\<lambda>m. declIs N (member_decl m) ''FieldDecl'') (sortedMembers c)"

definition rightFields :: "nodes \<Rightarrow> TypeMembersContainer \<Rightarrow> NamedTypeMember list" where
  "rightFields N c =
     filter (\<lambda>m. declIs N (member_decl m) ''FieldDecl'' \<or> declIs N (member_decl m) ''FieldExpr'') (sortedMembers c)"

text \<open>Two types of the same tag and flags; the comparison of the types they refer to is the argument \<open>R\<close>.\<close>

definition compareMany :: "(tref \<Rightarrow> tref \<Rightarrow> bool option) \<Rightarrow> tref list \<Rightarrow> tref list \<Rightarrow> bool option" where
  "compareMany R as bs = (if length as = length bs then allM (\<lambda>(a, b). R a b) (zip as bs) else Some False)"

definition compareFields ::
  "nodes \<Rightarrow> (tref \<Rightarrow> tref \<Rightarrow> bool option) \<Rightarrow> TypeMembersContainer \<Rightarrow> TypeMembersContainer \<Rightarrow> bool option" where
  "compareFields N R c d =
     (if length (members c) \<noteq> length (members d) + 3 then Some False
      else allM (\<lambda>(x, y). if member_name x = member_name y then R (member_type x) (member_type y) else Some False)
             (zip (leftFields N c) (rightFields N d)))"

definition sameName :: "Type \<Rightarrow> Type \<Rightarrow> bool" where
  "sameName l r \<longleftrightarrow> type_name l = type_name r \<and> ns l = ns r"

definition compareBodies :: "nodes \<Rightarrow> (tref \<Rightarrow> tref \<Rightarrow> bool option) \<Rightarrow> Type \<Rightarrow> Type \<Rightarrow> bool option" where
  "compareBodies N R l r =
     (case body l of
        Auto \<Rightarrow> Some True
      | Error \<Rightarrow> Some True
      | Void \<Rightarrow> Some True
      | Null \<Rightarrow> Some True
      | Literal a \<Rightarrow> (case body r of Literal b \<Rightarrow> compareAstNodes a b | _ \<Rightarrow> None)
      | Primitive a \<Rightarrow> (case body r of Primitive b \<Rightarrow> Some (a = b) | _ \<Rightarrow> None)
      | Pointer a x \<Rightarrow> (case body r of Pointer b y \<Rightarrow> andM (R a b) (Some (x = y)) | _ \<Rightarrow> None)
      | Reference a \<Rightarrow> (case body r of Reference b \<Rightarrow> R a b | _ \<Rightarrow> None)
      | Array n a \<Rightarrow> (case body r of Array m b \<Rightarrow> if n = m then R a b else Some False | _ \<Rightarrow> None)
      | Map a c \<Rightarrow> (case body r of Map b d \<Rightarrow> andM (R a b) (R c d) | _ \<Rightarrow> None)
      | Alias a \<Rightarrow>
          (case body r of
             Alias b \<Rightarrow> if flags l AND flgExtern \<noteq> 0 then Some (type_name l = type_name r) else R a b
           | _ \<Rightarrow> None)
      | Optional a \<Rightarrow> (case body r of Optional b \<Rightarrow> R a b | _ \<Rightarrow> None)
      | UntaggedUnion _ _ \<Rightarrow> Some (type_name l = type_name r)
      | Opaque _ \<Rightarrow> Some (type_name l = type_name r)
      | This a \<Rightarrow> (case body r of This b \<Rightarrow> Some (a \<noteq> None \<and> a = b) | _ \<Rightarrow> None)
      | Tuple as \<Rightarrow> (case body r of Tuple bs \<Rightarrow> compareMany R as bs | _ \<Rightarrow> None)
      | Union as \<Rightarrow> (case body r of Union bs \<Rightarrow> compareMany R as bs | _ \<Rightarrow> None)
      | Func as a d \<Rightarrow>
          (case body r of
             Func bs b e \<Rightarrow>
               if type_name l \<noteq> type_name r then Some False
               else if type_name l \<noteq> None \<and> \<not> sameScope N d e then Some False
               else if length as \<noteq> length bs then Some False
               else andM (R a b) (compareMany R as bs)
           | _ \<Rightarrow> None)
      | Applied as a \<Rightarrow> (case body r of Applied bs b \<Rightarrow> andM (R a b) (compareMany R as bs) | _ \<Rightarrow> None)
      | String \<Rightarrow> Some (body r = String \<or> body r = Null)
      | Module _ _ a \<Rightarrow> (case body r of Module _ _ b \<Rightarrow> Some (a = b) | _ \<Rightarrow> Some False)
      | Struct c _ \<Rightarrow>
          (case body r of
             Struct d _ \<Rightarrow>
               if flags l AND flgAnonymous \<noteq> 0 \<and> flags r AND flgAnonymous \<noteq> 0
               then do { c \<leftarrow> c; d \<leftarrow> d; compareFields N R c d }
               else Some (sameName l r)
           | _ \<Rightarrow> None)
      | Class _ _ _ \<Rightarrow> Some (sameName l r)
      | Enum _ _ _ _ \<Rightarrow> Some (sameName l r)
      | Interface _ _ \<Rightarrow> Some (sameName l r)
      | Generic _ d _ \<Rightarrow> (case body r of Generic _ e _ \<Rightarrow> Some (sameName l r \<and> d = e) | _ \<Rightarrow> None)
      | Info a \<Rightarrow> (case body r of Info b \<Rightarrow> R a b | _ \<Rightarrow> None)
      | Exception d \<Rightarrow> (case body r of Exception e \<Rightarrow> Some (d = e) | _ \<Rightarrow> None)
      | Result a \<Rightarrow> (case body r of Result b \<Rightarrow> R a b | _ \<Rightarrow> None)
      | Container _ _ \<Rightarrow> None
      | Wrapped _ \<Rightarrow> None)"

lemma compareMany_mono [partial_function_mono]:
  assumes "\<And>a b. mono_option (\<lambda>f. R f a b)"
  shows "mono_option (\<lambda>f. compareMany (R f) as bs)"
proof -
  have "mono_option (\<lambda>f. allM (\<lambda>x. R f (fst x) (snd x)) (zip as bs))" by (intro partial_function_mono assms)
  then show ?thesis by (cases "length as = length bs") (simp_all add: compareMany_def split_beta' option.const_mono)
qed

lemma compareFields_mono [partial_function_mono]:
  assumes "\<And>a b. mono_option (\<lambda>f. R f a b)"
  shows "mono_option (\<lambda>f. compareFields N (R f) c d)"
proof -
  have "mono_option (\<lambda>f. allM (\<lambda>x. if member_name (fst x) = member_name (snd x)
      then R f (member_type (fst x)) (member_type (snd x)) else Some False) (zip (leftFields N c) (rightFields N d)))"
    by (intro partial_function_mono assms)
  then show ?thesis
    by (cases "length (members c) = length (members d) + 3") (simp_all add: compareFields_def split_beta' option.const_mono)
qed

lemma compareBodies_mono [partial_function_mono]:
  assumes R: "\<And>a b. mono_option (\<lambda>f. R f a b)"
  shows "mono_option (\<lambda>f. compareBodies N (R f) l r)"
  unfolding compareBodies_def
  by (cases "body l"; simp only: body.case option.const_mono; cases "body r"; simp only: body.case option.const_mono;
      (intro partial_function_mono R option.const_mono)?)

partial_function (option) compareTypes :: "heap \<Rightarrow> nodes \<Rightarrow> tref \<Rightarrow> tref \<Rightarrow> bool option" where
  "compareTypes h N lhs rhs = do {
     (left, lhsFlags) \<leftarrow> unwrapTypeFlags h lhs;
     (right, rhsFlags) \<leftarrow> unwrapTypeFlags h rhs;
     if left = right then Some (lhsFlags = rhsFlags)
     else do {
       l \<leftarrow> typeAt h left;
       r \<leftarrow> typeAt h right;
       if tag l \<noteq> tag r \<or> lhsFlags \<noteq> rhsFlags then Some False
       else compareBodies N (compareTypes h N) l r } }"

definition compareFuncTypes :: "heap \<Rightarrow> nodes \<Rightarrow> tref \<Rightarrow> tref \<Rightarrow> bool \<Rightarrow> bool option" where
  "compareFuncTypes h N lhs rhs ignoreNames = do {
     (left, lhsFlags) \<leftarrow> unwrapTypeFlags h lhs;
     (right, rhsFlags) \<leftarrow> unwrapTypeFlags h rhs;
     if left = right then Some (lhsFlags = rhsFlags)
     else do {
       l \<leftarrow> typeAt h left;
       r \<leftarrow> typeAt h right;
       if tag l \<noteq> tag r \<or> lhsFlags \<noteq> rhsFlags then Some False
       else case (body l, body r) of
         (Func as a d, Func bs b e) \<Rightarrow>
           if \<not> ignoreNames \<and> type_name l \<noteq> type_name r then Some False
           else if \<not> ignoreNames \<and> type_name l \<noteq> None \<and> \<not> sameScope N d e then Some False
           else if length as \<noteq> length bs then Some False
           else andM (compareTypes h N a b) (compareMany (compareTypes h N) as bs)
       | _ \<Rightarrow> None } }"

fun findTypeLoop :: "heap \<Rightarrow> nodes \<Rightarrow> tref \<Rightarrow> tref list \<Rightarrow> nat \<Rightarrow> int option" where
  "findTypeLoop h N p [] i = Some (-1)"
| "findTypeLoop h N p (t # ts) i = do {
     b \<leftarrow> compareTypes h N t p; if b then Some (int i) else findTypeLoop h N p ts (Suc i) }"

definition findTypeInArray :: "heap \<Rightarrow> nodes \<Rightarrow> tref list \<Rightarrow> tref \<Rightarrow> int option" where
  "findTypeInArray h N ts p = findTypeLoop h N p ts 0"

text \<open>The hash of a tag, of the flags and of the members; the sign of a literal and the operators above it do
  not count.\<close>

primrec hashAstNode :: "HashCode \<Rightarrow> literal \<Rightarrow> HashCode" where
  "hashAstNode hash (IntegerLit _ v) = hashUint128 hash v"
| "hashAstNode hash (BoolLit b) = hashUint8 hash (if b then 1 else 0)"
| "hashAstNode hash (CharLit c) = hashUint32 hash c"
| "hashAstNode hash (FloatLit bits) = hashUint64 hash bits"
| "hashAstNode hash (StringLit s) = hashStr hash s"
| "hashAstNode hash NullLit = hash"
| "hashAstNode hash (WrappedLit l) = hashAstNode hash l"

fun hashTypes :: "heap \<Rightarrow> HashCode \<Rightarrow> tref list \<Rightarrow> HashCode option" where
  "hashTypes h hash [] = Some hash"
| "hashTypes h hash (p # ps) = do { t \<leftarrow> typeAt h p; hashTypes h (hashUint64 hash (of_nat (tagValue t))) ps }"

definition hashName :: "HashCode \<Rightarrow> cstring option \<Rightarrow> HashCode" where
  "hashName hash s = (case s of None \<Rightarrow> hash | Some s \<Rightarrow> hashStr hash s)"

definition nodeAddress :: "node option \<Rightarrow> u64" where
  "nodeAddress d = (case d of None \<Rightarrow> 0 | Some n \<Rightarrow> n)"

text \<open>The hash of a name that must be there.\<close>

definition hashGivenName :: "HashCode \<Rightarrow> cstring option \<Rightarrow> HashCode option" where
  "hashGivenName hash s = (case s of None \<Rightarrow> None | Some s \<Rightarrow> Some (hashStr hash s))"

primrec hashFields :: "(HashCode \<Rightarrow> tref \<Rightarrow> HashCode option) \<Rightarrow> HashCode \<Rightarrow> NamedTypeMember list \<Rightarrow> HashCode option" where
  "hashFields R hash [] = Some hash"
| "hashFields R hash (m # ms) = do {
     hash \<leftarrow> R (hashStr hash (member_name m)) (member_type m); hashFields R hash ms }"

definition hashBody :: "heap \<Rightarrow> nodes \<Rightarrow> (HashCode \<Rightarrow> tref \<Rightarrow> HashCode option) \<Rightarrow> HashCode \<Rightarrow> Type \<Rightarrow> HashCode option" where
  "hashBody h N R hash t =
     (case body t of
        Literal l \<Rightarrow> Some (hashAstNode hash l)
      | Primitive k \<Rightarrow> Some (hashUint32 hash (of_nat (position primTypes k)))
      | Pointer q alloc \<Rightarrow> R (hashUint8 hash (if alloc then 1 else 0)) q
      | Reference q \<Rightarrow> R hash q
      | Array n q \<Rightarrow> do { hash \<leftarrow> R hash q; Some (hashUint64 hash n) }
      | Map k v \<Rightarrow> do { hash \<leftarrow> R hash k; R hash v }
      | Alias q \<Rightarrow> if flags t AND flgExtern \<noteq> 0 then hashGivenName hash (type_name t) else R hash q
      | UntaggedUnion _ _ \<Rightarrow> hashGivenName hash (type_name t)
      | Opaque _ \<Rightarrow> hashGivenName hash (type_name t)
      | Container _ _ \<Rightarrow> hashGivenName hash (type_name t)
      | Optional q \<Rightarrow> R hash q
      | Info q \<Rightarrow> R hash q
      | Wrapped q \<Rightarrow> R hash q
      | Union ms \<Rightarrow> hashTypes h hash ms
      | Tuple ms \<Rightarrow> hashTypes h hash ms
      | Func ps r _ \<Rightarrow> do { hash \<leftarrow> hashTypes h (hashName hash (type_name t)) ps; R hash r }
      | Struct c _ \<Rightarrow>
          if flags t AND flgAnonymous \<noteq> 0
          then do { c \<leftarrow> c; hashFields R hash (rightFields N c) }
          else Some (hashName (hashName hash (type_name t)) (ns t))
      | Enum _ _ _ _ \<Rightarrow> Some (hashName (hashName hash (type_name t)) (ns t))
      | Module _ _ _ \<Rightarrow> Some (hashName (hashName hash (type_name t)) (ns t))
      | Generic n d _ \<Rightarrow> Some (hashName (hashPtr (hashUint64 hash n) (nodeAddress d)) (type_name t))
      | Applied as q \<Rightarrow> do { hash \<leftarrow> R hash q; hashTypes h hash as }
      | Exception d \<Rightarrow> Some (hashPtr hash (nodeAddress d))
      | Result q \<Rightarrow> R hash q
      | _ \<Rightarrow> Some hash)"

lemma hashFields_mono [partial_function_mono]:
  assumes R: "\<And>a b. mono_option (\<lambda>f. R f a b)"
  shows "mono_option (\<lambda>f. hashFields (R f) hash ms)"
proof (induction ms arbitrary: hash)
  case Nil
  then show ?case by (simp add: option.const_mono)
next
  case (Cons m ms)
  have "mono_option (\<lambda>f. do { hash \<leftarrow> R f (hashStr hash (member_name m)) (member_type m); hashFields (R f) hash ms })"
    by (intro partial_function_mono R Cons.IH)
  then show ?case by simp
qed

lemma hashBody_mono [partial_function_mono]:
  assumes R: "\<And>a b. mono_option (\<lambda>f. R f a b)"
  shows "mono_option (\<lambda>f. hashBody h N (R f) hash t)"
  unfolding hashBody_def
  by (cases "body t"; simp only: body.case option.const_mono; (intro partial_function_mono R option.const_mono)?)

definition headHash :: "heap \<Rightarrow> nodes \<Rightarrow> HashCode \<Rightarrow> tref \<Rightarrow> Type \<Rightarrow> HashCode option" where
  "headHash h N hash p t = do {
     c \<leftarrow> isClassOrStructType h N p;
     let hash = hashUint32 hash (of_nat (tagValue t));
     Some (if c then hash else hashUint64 hash (flags t AND flgTypeApplicable)) }"

partial_function (option) hashType :: "heap \<Rightarrow> nodes \<Rightarrow> HashCode \<Rightarrow> tref \<Rightarrow> HashCode option" where
  "hashType h N hash p = do {
     t \<leftarrow> typeAt h p;
     hash \<leftarrow> headHash h N hash p t;
     hashBody h N (hashType h N) hash t }"

section \<open>Assignability\<close>

definition pointsTo :: "heap \<Rightarrow> tref \<Rightarrow> TTag \<Rightarrow> bool" where
  "pointsTo h p k \<longleftrightarrow>
     (case typeAt h p of Some t \<Rightarrow> (case body t of Pointer q _ \<Rightarrow> typeIs h q k | _ \<Rightarrow> False) | None \<Rightarrow> False)"

definition stripsToNull :: "heap \<Rightarrow> nodes \<Rightarrow> tref \<Rightarrow> bool option" where
  "stripsToNull h N p = do { q \<leftarrow> stripPointer h N p; Some (typeIs h q typNull) }"

text \<open>With a dereference of what is left, in place of \<open>typeIs\<close>.\<close>

definition strippedTagIsNull :: "heap \<Rightarrow> nodes \<Rightarrow> tref \<Rightarrow> bool option" where
  "strippedTagIsNull h N p = do { q \<leftarrow> stripPointer h N p; t \<leftarrow> typeAt h q; Some (tag t = typNull) }"

text \<open>Numbers and characters: an unsigned type needs a larger signed one.\<close>

definition assignPrimitive :: "heap \<Rightarrow> nodes \<Rightarrow> PrtId \<Rightarrow> u64 \<Rightarrow> PrtId \<Rightarrow> u64 \<Rightarrow> tref \<Rightarrow> bool option" where
  "assignPrimitive h N k sz k' sz' from =
     (if k \<in> set signedIntegerTypes
      then do {
        i \<leftarrow> isIntegerType h N from;
        if i then do { u \<leftarrow> isUnsignedType h N from; Some (if u then sz > sz' else sz \<ge> sz') }
        else Some False }
      else if k \<in> set unsignedIntegerTypes then andM (isIntegerType h N from) (Some (sz \<ge> sz'))
      else if k \<in> set floatTypes then orM (isFloatType h N from) (isIntegerType h N from)
      else if k = prtChar \<or> k = prtCChar then isCharacterType h N from
      else Some (k = k'))"

text \<open>The members of the union a type has, by its tag.\<close>

definition bodyAt :: "heap \<Rightarrow> tref \<Rightarrow> body option" where
  "bodyAt h p = map_option body (typeAt h p)"

definition asPointer :: "heap \<Rightarrow> tref \<Rightarrow> tref option" where
  "asPointer h p = (case bodyAt h p of Some (Pointer q _) \<Rightarrow> Some q | _ \<Rightarrow> None)"

definition asReference :: "heap \<Rightarrow> tref \<Rightarrow> tref option" where
  "asReference h p = (case bodyAt h p of Some (Reference q) \<Rightarrow> Some q | _ \<Rightarrow> None)"

definition asOptional :: "heap \<Rightarrow> tref \<Rightarrow> tref option" where
  "asOptional h p = (case bodyAt h p of Some (Optional q) \<Rightarrow> Some q | _ \<Rightarrow> None)"

definition asInfo :: "heap \<Rightarrow> tref \<Rightarrow> tref option" where
  "asInfo h p = (case bodyAt h p of Some (Info q) \<Rightarrow> Some q | _ \<Rightarrow> None)"

definition asResult :: "heap \<Rightarrow> tref \<Rightarrow> tref option" where
  "asResult h p = (case bodyAt h p of Some (Result q) \<Rightarrow> Some q | _ \<Rightarrow> None)"

definition asThis :: "heap \<Rightarrow> tref \<Rightarrow> tref option" where
  "asThis h p = (case bodyAt h p of Some (This q) \<Rightarrow> Some q | _ \<Rightarrow> None)"

definition asEnum :: "heap \<Rightarrow> tref \<Rightarrow> tref option" where
  "asEnum h p = (case bodyAt h p of Some (Enum b _ _ _) \<Rightarrow> Some b | _ \<Rightarrow> None)"

definition asArray :: "heap \<Rightarrow> tref \<Rightarrow> (u64 \<times> tref) option" where
  "asArray h p = (case bodyAt h p of Some (Array n e) \<Rightarrow> Some (n, e) | _ \<Rightarrow> None)"

definition asTuple :: "heap \<Rightarrow> tref \<Rightarrow> tref list option" where
  "asTuple h p = (case bodyAt h p of Some (Tuple ms) \<Rightarrow> Some ms | _ \<Rightarrow> None)"

definition asClass :: "heap \<Rightarrow> tref \<Rightarrow> TypeInheritance option option" where
  "asClass h p = (case bodyAt h p of Some (Class _ _ i) \<Rightarrow> Some i | _ \<Rightarrow> None)"

definition asFunc :: "heap \<Rightarrow> tref \<Rightarrow> (Type \<times> tref list \<times> tref) option" where
  "asFunc h p =
     (case typeAt h p of Some t \<Rightarrow> (case body t of Func ps r _ \<Rightarrow> Some (t, ps, r) | _ \<Rightarrow> None) | None \<Rightarrow> None)"

definition asPrimitive :: "heap \<Rightarrow> tref \<Rightarrow> (PrtId \<times> u64) option" where
  "asPrimitive h p =
     (case typeAt h p of Some t \<Rightarrow> (case body t of Primitive k \<Rightarrow> Some (k, type_size t) | _ \<Rightarrow> None) | None \<Rightarrow> None)"

text \<open>A string for a pointer to constant characters, or a pointer to void.\<close>

definition assignPointer :: "heap \<Rightarrow> nodes \<Rightarrow> tref \<Rightarrow> tref \<Rightarrow> tref \<Rightarrow> bool option" where
  "assignPointer h N to from from' = do {
     s \<leftarrow> stripPointer h N to;
     (s, f) \<leftarrow> unwrapTypeFlags h s;
     if bodyAt h s = Some (Primitive prtCChar) \<and> f AND flgConst = flgConst \<and> typeIs h from' typString then Some True
     else if typeIs h from typPointer then isVoidPointer h N from
     else Some False }"

text \<open>The test by the tag of the target; the tests of the types below are the argument \<open>R\<close>, which takes whether a
  cast is meant. The sizes of the parameter lists are counted in the source without sign, so a list that is
  too short never agrees.\<close>

definition assignTag ::
  "heap \<Rightarrow> nodes \<Rightarrow> (bool \<Rightarrow> tref \<Rightarrow> tref \<Rightarrow> bool option) \<Rightarrow> tref \<Rightarrow> Type \<Rightarrow> tref \<Rightarrow> tref \<Rightarrow> bool option" where
  "assignTag h N R to t from from' =
     (case body t of
        Auto \<Rightarrow> Some (\<not> typeIs h from typError)
      | String \<Rightarrow> if typeIs h from typString then Some True else stripsToNull h N from
      | Primitive k \<Rightarrow>
          (case asEnum h from of
             Some b \<Rightarrow> R False to b
           | None \<Rightarrow>
               (case asPrimitive h from of
                  Some (k', sz') \<Rightarrow> assignPrimitive h N k (type_size t) k' sz' from
                | None \<Rightarrow> Some False))
      | Pointer q _ \<Rightarrow> do {
          v \<leftarrow> isVoidPointer h N to;
          if v
          then if typeIs h from typPointer \<or> typeIs h from typString \<or> typeIs h from typArray then Some True
               else do { s \<leftarrow> stripAll h N from; Some (typeIs h s typClass) }
          else
            case asArray h from of
              Some (_, e) \<Rightarrow> R False q e
            | None \<Rightarrow> assignPointer h N to from from' }
      | Reference q \<Rightarrow> (case asReference h from of Some r \<Rightarrow> R False q r | None \<Rightarrow> Some False)
      | Opaque _ \<Rightarrow> Some (pointsTo h from typNull)
      | Array n e \<Rightarrow>
          (case asArray h from of
             Some (m, e') \<Rightarrow> andM (R False e e') (Some (n = - 1 \<or> n = m))
           | None \<Rightarrow> Some False)
      | Optional q \<Rightarrow>
          (case asOptional h from of
             Some r \<Rightarrow> R False q r
           | None \<Rightarrow> orM (strippedTagIsNull h N from) (R False q from))
      | This q \<Rightarrow>
          (case (if typeIs h q typAlias then asPointer h from else None) of
             Some r \<Rightarrow> R False q r
           | None \<Rightarrow>
               (case (if typeIs h q typAlias then asReference h from else None) of
                  Some r \<Rightarrow> R False q r
                | None \<Rightarrow> R False q from))
      | Tuple ms \<Rightarrow>
          (case asTuple h from of
             Some ms' \<Rightarrow> compareMany (R False) ms ms'
           | None \<Rightarrow> Some False)
      | Union ms \<Rightarrow> Some (list_ex (\<lambda>m. m = from \<or> unThisType h m = from \<or> m = unThisType h from) ms)
      | Func ps r _ \<Rightarrow> do {
          n \<leftarrow> strippedTagIsNull h N from;
          if n then Some True
          else
            case asFunc h from of
              None \<Rightarrow> Some False
            | Some (f, ps', r') \<Rightarrow> do {
                b \<leftarrow> R False r r';
                if \<not> b then Some False
                else if flags t AND flgFuncTypeParam \<noteq> 0 \<and> flags f AND flgClosure = 0
                then (if ps = [] then Some False else compareMany (R False) (tl ps) ps')
                else compareMany (R False) ps ps' } }
      | Enum b _ _ _ \<Rightarrow> (case asEnum h from of Some b' \<Rightarrow> R False b b' | None \<Rightarrow> Some False)
      | Struct _ _ \<Rightarrow> (case asThis h from of Some q \<Rightarrow> Some (to = q) | None \<Rightarrow> Some (pointsTo h from typNull))
      | Class _ _ _ \<Rightarrow>
          (case asThis h from of
             Some q \<Rightarrow> R False to q
           | None \<Rightarrow>
               (case asClass h from of
                  Some i \<Rightarrow> do {
                    i \<leftarrow> i;
                    if base i \<noteq> None then R False to (base i)
                    else do { d \<leftarrow> getTypeDecl h N to; d' \<leftarrow> getTypeDecl h N from; Some (d = d') } }
                | None \<Rightarrow> Some (pointsTo h from typNull)))
      | Info q \<Rightarrow> (case asInfo h from of Some r \<Rightarrow> R False q r | None \<Rightarrow> Some False)
      | Interface _ _ \<Rightarrow>
          if typeIs h from typStruct \<or> typeIs h from typClass then implementsInterface h from to else Some False
      | Exception _ \<Rightarrow> if typeIs h from typException then Some True else isVoidPointer h N from
      | Result q \<Rightarrow>
          if typeIs h from typException then Some True
          else (case asResult h from of Some r \<Rightarrow> R False q r | None \<Rightarrow> R True q from)
      | _ \<Rightarrow> Some False)"

text \<open>The test once both types are resolved and different: an optional target is replaced by its content.\<close>

definition unwrapOptional :: "heap \<Rightarrow> nodes \<Rightarrow> tref \<Rightarrow> tref \<Rightarrow> tref option option" where
  "unwrapOptional h N to from =
     (if hasFlag h to flgOptional \<and> \<not> hasFlag h from flgOptional
      then if pointsTo h from typNull then Some None else map_option Some (getOptionalTargetType h N to)
      else Some (Some to))"

definition sliceAssignable :: "heap \<Rightarrow> tref \<Rightarrow> tref \<Rightarrow> bool option" where
  "sliceAssignable h to from = do {
     s \<leftarrow> getSliceTargetType h to;
     s \<leftarrow> unwrapType h s;
     f \<leftarrow> typeAt h from;
     e \<leftarrow> (case body f of Array _ e \<Rightarrow> Some e | _ \<Rightarrow> None);
     e \<leftarrow> unwrapType h e;
     Some (s = e) }"

definition constConflict :: "heap \<Rightarrow> nodes \<Rightarrow> tref \<Rightarrow> tref \<Rightarrow> tref \<Rightarrow> tref \<Rightarrow> bool option" where
  "constConflict h N to from to' from' = do {
     c \<leftarrow> andM (isTypeConst h from) (map_option Not (isTypeConst h to));
     if \<not> c then Some False
     else case asPointer h to' of
            Some q \<Rightarrow> map_option Not (andM (isTypeConst h q) (isPointerType h N from'))
          | None \<Rightarrow> Some False }"

definition assignUnwrapped ::
  "heap \<Rightarrow> nodes \<Rightarrow> (bool \<Rightarrow> tref \<Rightarrow> tref \<Rightarrow> bool option) \<Rightarrow> tref \<Rightarrow> tref \<Rightarrow> bool option" where
  "assignUnwrapped h N R to from =
     (case (if asPointer h to \<noteq> None then asPointer h from else None) of
        Some r \<Rightarrow> do {
          q \<leftarrow> asPointer h to;
          v \<leftarrow> isVoidPointer h N to;
          if v then Some True
          else if typeIs h r typNull then Some True
          else R False q r }
      | None \<Rightarrow> do {
          t \<leftarrow> typeAt h to;
          assignTag h N R to t
            (case asResult h from of Some r \<Rightarrow> if tag t = typResult then from else r | None \<Rightarrow> from) from })"

definition assignStep ::
  "heap \<Rightarrow> nodes \<Rightarrow> (bool \<Rightarrow> tref \<Rightarrow> tref \<Rightarrow> bool option) \<Rightarrow> tref \<Rightarrow> tref \<Rightarrow> bool option" where
  "assignStep h N R to from = do {
     to \<leftarrow> resolveType h N to;
     from \<leftarrow> resolveType h N from;
     if to = from then Some True
     else do {
       u \<leftarrow> unwrapOptional h N to from;
       case u of
         None \<Rightarrow> Some True
       | Some to \<Rightarrow> do {
           a \<leftarrow> (if isSliceType h to then isArrayType h N from else Some False);
           if a then sliceAssignable h to from
           else do {
             (to', f) \<leftarrow> unwrapTypeFlags h to;
             from' \<leftarrow> unwrapType h from;
             if from' = None then Some False
             else do {
               c \<leftarrow> constConflict h N to from to' from';
               if c then Some False
               else if to' = from' then Some True
               else assignUnwrapped h N R to' from' } } } } }"

text \<open>Casts.\<close>

definition castPrimitive ::
  "heap \<Rightarrow> nodes \<Rightarrow> (bool \<Rightarrow> tref \<Rightarrow> tref \<Rightarrow> bool option) \<Rightarrow> tref \<Rightarrow> tref \<Rightarrow> PrtId \<Rightarrow> u64 \<Rightarrow> bool option" where
  "castPrimitive h N R to from k sz = do {
     let to = (case asOptional h to of Some q \<Rightarrow> q | None \<Rightarrow> to);
     i \<leftarrow> isIntegerType h N from;
     case asEnum h to of
       Some b \<Rightarrow> if i then R True b from else Some False
     | None \<Rightarrow>
     (case asPrimitive h to of
       Some (j, _) \<Rightarrow>
         if j = k then Some True
         else if j \<in> set integerTypes then orM (isBooleanType h N from) (isNumericType h N from)
         else if j \<in> set floatTypes then isNumericType h N from
         else if j = prtChar then Some (i \<and> sz \<le> 4 \<or> k = prtCChar)
         else if j = prtCChar then Some (i \<and> sz \<le> 4 \<or> k = prtChar)
         else Some (k = prtBool)
     | None \<Rightarrow> Some False) }"

definition castTag ::
  "heap \<Rightarrow> nodes \<Rightarrow> (bool \<Rightarrow> tref \<Rightarrow> tref \<Rightarrow> bool option) \<Rightarrow> tref \<Rightarrow> tref \<Rightarrow> tref \<Rightarrow> tref \<Rightarrow> Type \<Rightarrow> bool option" where
  "castTag h N R to from to' from' f =
     (case body f of
        Auto \<Rightarrow> Some True
      | Primitive k \<Rightarrow> castPrimitive h N R to from' k (type_size f)
      | Enum b _ _ _ \<Rightarrow> do { i \<leftarrow> isIntegerType h N to'; if i then R True to b else R False to' from' }
      | Pointer _ _ \<Rightarrow> do {
          x \<leftarrow> andM (isVoidPointer h N from') (orM (isClassType h N to') (isStructPointer h to'));
          if x then Some True else R False to from }
      | This _ \<Rightarrow> do {
          x \<leftarrow> andM (isClassType h N from') (isVoidPointer h N to');
          if x then Some True else R False to from }
      | Union _ \<Rightarrow> do {
          i \<leftarrow> findUnionTypeIndex h N from (case asPointer h to of Some q \<Rightarrow> q | None \<Rightarrow> to);
          Some (i \<noteq> None) }
      | Reference _ \<Rightarrow> do { x \<leftarrow> isReferenceType h N to'; if x then R False to from else R False to' from' }
      | Class _ _ _ \<Rightarrow> do { x \<leftarrow> isVoidPointer h N to'; if x then Some True else R False to from }
      | _ \<Rightarrow> R False to from)"

definition castStep ::
  "heap \<Rightarrow> nodes \<Rightarrow> (bool \<Rightarrow> tref \<Rightarrow> tref \<Rightarrow> bool option) \<Rightarrow> tref \<Rightarrow> tref \<Rightarrow> bool option" where
  "castStep h N R to from = do {
     to \<leftarrow> resolveType h N to;
     from \<leftarrow> resolveType h N from;
     (to', toFlags) \<leftarrow> unwrapTypeFlags h to;
     (from', fromFlags) \<leftarrow> unwrapTypeFlags h from;
     t' \<leftarrow> typeAt h to';
     f' \<leftarrow> typeAt h from';
     u \<leftarrow> (if hasFlag h to' flgOptional \<and> \<not> hasFlag h from' flgOptional
           then if pointsTo h from' typNull then Some None else map_option Some (getOptionalTargetType h N to')
           else Some (Some to));
     case u of
       None \<Rightarrow> Some True
     | Some to \<Rightarrow> do {
         p \<leftarrow> (if tag t' = tag f' then do { t \<leftarrow> typeAt h to; Some (tag t = typPointer) } else Some False);
         if p then Some (fromFlags AND flgConst \<noteq> 0 \<longrightarrow> toFlags AND flgConst \<noteq> 0)
         else castTag h N R to from to' from' f' } }"

lemma case_option_mono [partial_function_mono]:
  "mono_option G \<Longrightarrow> (\<And>y. mono_option (\<lambda>f. F f y)) \<Longrightarrow> mono_option (\<lambda>f. case x of None \<Rightarrow> G f | Some y \<Rightarrow> F f y)"
  by (cases x) simp_all

lemma case_prod_mono [partial_function_mono]:
  "(\<And>a b. mono_option (\<lambda>f. F f a b)) \<Longrightarrow> mono_option (\<lambda>f. case x of (a, b) \<Rightarrow> F f a b)"
  by (cases x) simp

lemma assignTag_mono [partial_function_mono]:
  assumes R: "\<And>c a b. mono_option (\<lambda>f. R f c a b)"
  shows "mono_option (\<lambda>f. assignTag h N (R f) to t from from')"
  unfolding assignTag_def
  by (cases "body t"; simp only: body.case option.const_mono; (intro partial_function_mono R option.const_mono)?)

lemma assignUnwrapped_mono [partial_function_mono]:
  assumes R: "\<And>c a b. mono_option (\<lambda>f. R f c a b)"
  shows "mono_option (\<lambda>f. assignUnwrapped h N (R f) to from)"
  unfolding assignUnwrapped_def by (intro partial_function_mono R option.const_mono)

lemma assignStep_mono [partial_function_mono]:
  assumes R: "\<And>c a b. mono_option (\<lambda>f. R f c a b)"
  shows "mono_option (\<lambda>f. assignStep h N (R f) to from)"
  unfolding assignStep_def by (intro partial_function_mono R option.const_mono)

lemma castPrimitive_mono [partial_function_mono]:
  assumes R: "\<And>c a b. mono_option (\<lambda>f. R f c a b)"
  shows "mono_option (\<lambda>f. castPrimitive h N (R f) to from k sz)"
  unfolding castPrimitive_def Let_def by (intro partial_function_mono R option.const_mono)

lemma castTag_mono [partial_function_mono]:
  assumes R: "\<And>c a b. mono_option (\<lambda>f. R f c a b)"
  shows "mono_option (\<lambda>f. castTag h N (R f) to from to' from' t)"
  unfolding castTag_def
  by (cases "body t"; simp only: body.case option.const_mono; (intro partial_function_mono R option.const_mono)?)

lemma castStep_mono [partial_function_mono]:
  assumes R: "\<And>c a b. mono_option (\<lambda>f. R f c a b)"
  shows "mono_option (\<lambda>f. castStep h N (R f) to from)"
  unfolding castStep_def by (intro partial_function_mono R option.const_mono)

partial_function (option) assignable :: "heap \<Rightarrow> nodes \<Rightarrow> bool \<Rightarrow> tref \<Rightarrow> tref \<Rightarrow> bool option" where
  "assignable h N cast to from =
     (if cast then castStep h N (assignable h N) to from else assignStep h N (assignable h N) to from)"

definition isTypeAssignableFrom :: "heap \<Rightarrow> nodes \<Rightarrow> tref \<Rightarrow> tref \<Rightarrow> bool option" where
  "isTypeAssignableFrom h N to from = assignable h N False to from"

definition isTypeCastAssignable :: "heap \<Rightarrow> nodes \<Rightarrow> tref \<Rightarrow> tref \<Rightarrow> bool option" where
  "isTypeCastAssignable h N to from = assignable h N True to from"

section \<open>Numbers\<close>

definition isPrimitiveTypeBigger :: "heap \<Rightarrow> nodes \<Rightarrow> tref \<Rightarrow> tref \<Rightarrow> bool option" where
  "isPrimitiveTypeBigger h N lhs rhs = do {
     lhs \<leftarrow> unwrapType h lhs;
     rhs \<leftarrow> unwrapType h rhs;
     a \<leftarrow> andM (isNumericType h N lhs) (isNumericType h N rhs);
     if \<not> a then None
     else do {
       f \<leftarrow> isFloatType h N lhs;
       g \<leftarrow> isFloatType h N rhs;
       if f \<and> \<not> g then Some True
       else if \<not> f \<and> g then Some False
       else do {
         (j, _) \<leftarrow> asPrimitive h lhs;
         (k, _) \<leftarrow> asPrimitive h rhs;
         Some (getPrimitiveTypeSizeFromTag j > getPrimitiveTypeSizeFromTag k) } } }"

text \<open>The least value as a signed and the greatest as an unsigned number of 128 bits.\<close>

definition minMaxTable :: "PrtId \<Rightarrow> (int \<times> int) option" where
  "minMaxTable k =
     (case k of
        prtBool \<Rightarrow> Some (0, 1) | prtCChar \<Rightarrow> Some (0, 255) | prtChar \<Rightarrow> Some (0, 2 ^ 32 - 1)
      | prtI8 \<Rightarrow> Some (- (2 ^ 7), 2 ^ 7 - 1) | prtU8 \<Rightarrow> Some (0, 2 ^ 8 - 1)
      | prtI16 \<Rightarrow> Some (- (2 ^ 15), 2 ^ 15 - 1) | prtU16 \<Rightarrow> Some (0, 2 ^ 16 - 1)
      | prtI32 \<Rightarrow> Some (- (2 ^ 31), 2 ^ 31 - 1) | prtU32 \<Rightarrow> Some (0, 2 ^ 32 - 1)
      | prtI64 \<Rightarrow> Some (- (2 ^ 63), 2 ^ 63 - 1) | prtU64 \<Rightarrow> Some (0, 2 ^ 64 - 1)
      | prtI128 \<Rightarrow> Some (- (2 ^ 127), 2 ^ 127 - 1) | prtU128 \<Rightarrow> Some (0, 2 ^ 128 - 1)
      | _ \<Rightarrow> None)"

definition getIntegerTypeMinMax :: "heap \<Rightarrow> nodes \<Rightarrow> tref \<Rightarrow> (int \<times> int) option" where
  "getIntegerTypeMinMax h N p = do {
     p \<leftarrow> unwrapType h p;
     i \<leftarrow> isIntegralType h N p;
     if \<not> i then None
     else do {
       t \<leftarrow> typeAt h p;
       case body t of
         Enum _ opts _ _ \<Rightarrow>
           if opts = [] then None else Some (option_value (hd opts), option_value (last opts) mod 2 ^ 128)
       | Primitive k \<Rightarrow> minMaxTable k
       | _ \<Rightarrow> None } }"

definition toSigned128 :: "int \<Rightarrow> int" where
  "toSigned128 x = (let y = x mod 2 ^ 128 in if y < 2 ^ 127 then y else y - 2 ^ 128)"

definition isIntegerTypeInRange :: "heap \<Rightarrow> nodes \<Rightarrow> tref \<Rightarrow> int \<Rightarrow> int \<Rightarrow> bool option" where
  "isIntegerTypeInRange h N p mn mx =
     (if \<not> mn \<le> mx then None
      else do {
        (f, s) \<leftarrow> getIntegerTypeMinMax h N p;
        g \<leftarrow> isSignedType h N p;
        Some (if g then mn \<le> toSigned128 s \<and> f \<le> mx else mn mod 2 ^ 128 \<le> s \<and> f \<le> mx) })"

text \<open>The types of the primitives in the table are given by \<open>prim\<close>.\<close>

definition getIntegerTypeForLiteral :: "(PrtId \<Rightarrow> tref) \<Rightarrow> int \<Rightarrow> tref" where
  "getIntegerTypeForLiteral prim v =
     (if - (2 ^ 7) \<le> v \<and> v \<le> 2 ^ 7 - 1 then prim prtI8
      else if - (2 ^ 15) \<le> v \<and> v \<le> 2 ^ 15 - 1 then prim prtI16
      else if - (2 ^ 31) \<le> v \<and> v \<le> 2 ^ 31 - 1 then prim prtI32
      else if - (2 ^ 127) \<le> v \<and> v \<le> 2 ^ 127 - 1 then prim prtI128
      else prim prtI64)"

text \<open>The member \<open>primitive.id\<close> of a type that need not be primitive: the low 32 bits of the union, which are
  zero, a length or a count, or half of a pointer.\<close>

definition primitiveId :: "body \<Rightarrow> nat option" where
  "primitiveId b =
     (case b of
        Primitive k \<Rightarrow> Some (position primTypes k)
      | Error \<Rightarrow> Some 0 | Auto \<Rightarrow> Some 0 | Void \<Rightarrow> Some 0 | Null \<Rightarrow> Some 0 | String \<Rightarrow> Some 0
      | Array n _ \<Rightarrow> Some (unat n mod 2 ^ 32)
      | Tuple ms \<Rightarrow> Some (length ms mod 2 ^ 32)
      | Union ms \<Rightarrow> Some (length ms mod 2 ^ 32)
      | _ \<Rightarrow> None)"

definition isCharId :: "Type \<Rightarrow> bool option" where
  "isCharId t = map_option (\<lambda>i. i = position primTypes prtChar) (primitiveId (body t))"

text \<open>A floating-point type and a type that is neither a number nor a wide character fall through to the case
  of the characters.\<close>

definition promoteChar :: "heap \<Rightarrow> nodes \<Rightarrow> (PrtId \<Rightarrow> tref) \<Rightarrow> tref \<Rightarrow> tref \<Rightarrow> tref option" where
  "promoteChar h N prim left right = do {
     i \<leftarrow> isIntegerType h N right;
     if i then do { r \<leftarrow> typeAt h right; Some (if type_size r \<ge> 4 then right else prim prtU32) }
     else do { c \<leftarrow> isCharacterType h N right; Some (if c then left else None) } }"

definition promotePrimitive ::
  "heap \<Rightarrow> nodes \<Rightarrow> (PrtId \<Rightarrow> tref) \<Rightarrow> PrtId \<Rightarrow> u64 \<Rightarrow> tref \<Rightarrow> tref \<Rightarrow> tref option" where
  "promotePrimitive h N prim k sz left right =
     (if k \<in> set integerTypes
      then do {
        i \<leftarrow> isIntegerType h N right;
        f \<leftarrow> isFloatType h N right;
        r \<leftarrow> typeAt h right;
        if i then Some (if sz \<ge> type_size r then left else right)
        else if f then Some right
        else do {
          c \<leftarrow> isCharId r;
          Some (if c then if sz \<ge> 4 then left else prim prtU32 else None) } }
      else if k \<in> set floatTypes
      then do {
        i \<leftarrow> isIntegerType h N right;
        f \<leftarrow> isFloatType h N right;
        r \<leftarrow> typeAt h right;
        if f then Some (if sz \<ge> type_size r then left else right)
        else do {
          c \<leftarrow> orM (Some i) (isCharId r);
          if c then Some left else promoteChar h N prim left right } }
      else if k = prtChar then promoteChar h N prim left right
      else if k = prtCChar
      then do {
        c \<leftarrow> isCharacterType h N right;
        if c
        then do {
          r \<leftarrow> typeAt h right;
          d \<leftarrow> primitiveId (body r);
          Some (if d = position primTypes prtCChar then left else right) }
        else Some None }
      else Some None)"

definition promoteType :: "heap \<Rightarrow> nodes \<Rightarrow> (PrtId \<Rightarrow> tref) \<Rightarrow> tref \<Rightarrow> tref \<Rightarrow> tref option" where
  "promoteType h N prim left right = do {
     left \<leftarrow> resolveType h N left;
     right \<leftarrow> resolveType h N right;
     left' \<leftarrow> unwrapType h left;
     right' \<leftarrow> unwrapType h right;
     if left' = right' then Some left
     else do {
       n \<leftarrow> (if \<exists>k\<in>{typString, typPointer, typOpaque, typFunc, typReference}. typeIs h left' k
             then stripsToNull h N right' else Some False);
       if n then Some left
       else do {
         let l = (case asEnum h left' of Some b \<Rightarrow> b | None \<Rightarrow> left');
         let r = (case asEnum h right' of Some b \<Rightarrow> b | None \<Rightarrow> right');
         t \<leftarrow> typeAt h l;
         case body t of
           Primitive k \<Rightarrow> promotePrimitive h N prim k (type_size t) l r
         | Pointer _ _ \<Rightarrow> do { i \<leftarrow> isIntegralType h N r; Some (if i then l else None) }
         | _ \<Rightarrow> Some None } } }"

text \<open>The equations of the partial functions are executable.\<close>

lemmas typeFunctions [code] =
  resolveType.simps
  resolveAndUnThisType.simps
  resolveUnThisUnwrapType.simps
  stripPointer.simps
  stripReference.simps
  stripPointerOrReference.simps
  stripAll.simps
  unwrapLoop.simps
  pointerLevels.simps
  getTypeDecl.simps
  classify.simps
  isVoidType.simps
  isVoidPointer.simps
  isBuiltinType.simps
  isStructPointer.simps
  findModuleMember.simps
  getTypeBase.simps
  baseLoop.simps
  overloadLoop.simps
  findMemberDeclInType.simps
  findMemberInType.simps
  compareTypes.simps
  hashType.simps
  assignable.simps

end
