(* ===== verification/Cxy_TypeTable.thy ===== *)
theory Cxy_TypeTable
  imports Cxy_Types
begin

text \<open>
  The type table of \<open>lang/frontend/ttable.c\<close>: types are created through it, and a type that compares equal to
  one of the table is that one. The table is the heap of the types made so far with the hash table of their
  addresses. A candidate on the stack is the object behind the last one of the heap; it is kept there when it
  is inserted.

  The lookup compares the types of the hash table with the candidate; a comparison that does not return counts
  as a difference here. For the types of the theorem below all comparisons return.
\<close>

section \<open>The table\<close>

record TypeTable =
  heap :: heap
  types :: "nat HashTable"
  currentNamespace :: "cstring option"
  typeCount :: nat
  primitiveTypes :: "tref list"
  errorType :: tref
  autoType :: tref
  voidType :: tref
  nullObjectType :: tref
  nullType :: tref
  stringType :: tref
  anySliceType :: tref
  destructorType :: tref

definition make :: "body \<Rightarrow> Type" where
  "make b = \<lparr>type_size = 0, index = 0, flags = 0, type_name = None, ns = None, body = b\<rparr>"

definition compareTypesWrapper :: "heap \<Rightarrow> nodes \<Rightarrow> nat \<Rightarrow> nat \<Rightarrow> bool" where
  "compareTypesWrapper h N right left = (compareTypes h N (Some left) (Some right) = Some True)"

text \<open>The address of the type found or inserted, and whether it was found.\<close>

definition getOrInsertTypeScoped :: "nodes \<Rightarrow> TypeTable \<Rightarrow> Type \<Rightarrow> (bool \<times> nat \<times> TypeTable) option" where
  "getOrInsertTypeScoped N tt t = do {
     let a = length (heap tt);
     let h = heap tt @ [t];
     hash \<leftarrow> hashType h N hashInit (Some a);
     found \<leftarrow> findInHashTable (types tt) hash (compareTypesWrapper h N a);
     case found of
       Some i \<Rightarrow> do { b \<leftarrow> ht_deref (types tt) i; Some (True, b, tt) }
     | None \<Rightarrow> do {
         (_, tab) \<leftarrow> insertInHashTable (types tt) a hash (compareTypesWrapper h N a);
         Some (False, a,
           tt\<lparr>heap := heap tt @ [t\<lparr>index := typeCount tt\<rparr>], types := tab, typeCount := Suc (typeCount tt)\<rparr>) } }"

definition getOrInsertType :: "nodes \<Rightarrow> TypeTable \<Rightarrow> Type \<Rightarrow> (bool \<times> nat \<times> TypeTable) option" where
  "getOrInsertType N tt t = getOrInsertTypeScoped N tt (t\<lparr>ns := currentNamespace tt\<rparr>)"

definition findTypeScoped :: "nodes \<Rightarrow> TypeTable \<Rightarrow> Type \<Rightarrow> tref option" where
  "findTypeScoped N tt t = do {
     let a = length (heap tt);
     let h = heap tt @ [t];
     hash \<leftarrow> hashType h N hashInit (Some a);
     found \<leftarrow> findInHashTable (types tt) hash (compareTypesWrapper h N a);
     case found of Some i \<Rightarrow> map_option Some (ht_deref (types tt) i) | None \<Rightarrow> Some None }"

text \<open>The type alone.\<close>

definition intern :: "nodes \<Rightarrow> TypeTable \<Rightarrow> Type \<Rightarrow> (tref \<times> TypeTable) option" where
  "intern N tt t = do { (_, a, tt) \<leftarrow> getOrInsertType N tt t; Some (Some a, tt) }"

text \<open>The type that was inserted is completed.\<close>

definition internWith :: "nodes \<Rightarrow> TypeTable \<Rightarrow> Type \<Rightarrow> (body \<Rightarrow> body) \<Rightarrow> (tref \<times> TypeTable) option" where
  "internWith N tt t f = do {
     (found, a, tt) \<leftarrow> getOrInsertType N tt t;
     Some (Some a, if found then tt else tt\<lparr>heap := (heap tt)[a := (heap tt ! a)\<lparr>body := f (body (heap tt ! a))\<rparr>]\<rparr>) }"

text \<open>The element is read of its bucket after the removal, which may have moved another one there.\<close>

definition removeFromTypeTable :: "nodes \<Rightarrow> TypeTable \<Rightarrow> tref \<Rightarrow> (tref \<times> TypeTable) option" where
  "removeFromTypeTable N tt p = do {
     a \<leftarrow> p;
     hash \<leftarrow> hashType (heap tt) N hashInit p;
     found \<leftarrow> findInHashTable (types tt) hash (compareTypesWrapper (heap tt) N a);
     case found of
       None \<Rightarrow> Some (None, tt)
     | Some i \<Rightarrow> do {
         tab \<leftarrow> removeFromHashTable (types tt) i;
         Some (ht_elems tab ! i, tt\<lparr>types := tab\<rparr>) } }"

definition replaceTypeScoped :: "nodes \<Rightarrow> TypeTable \<Rightarrow> tref \<Rightarrow> Type \<Rightarrow> (tref \<times> TypeTable) option" where
  "replaceTypeScoped N tt p with = do {
     a \<leftarrow> p;
     hash \<leftarrow> hashType (heap tt) N hashInit p;
     found \<leftarrow> findInHashTable (types tt) hash (compareTypesWrapper (heap tt) N a);
     (b, tt) \<leftarrow> (case found of
        Some i \<Rightarrow> do {
          b \<leftarrow> ht_deref (types tt) i;
          (_, tt) \<leftarrow> removeFromTypeTable N tt (Some b);
          Some (b, tt\<lparr>heap := (heap tt)[b := with]\<rparr>) }
      | None \<Rightarrow> Some (length (heap tt), tt\<lparr>heap := heap tt @ [with], typeCount := Suc (typeCount tt)\<rparr>));
     hash \<leftarrow> hashType (heap tt) N hashInit (Some b);
     (_, tab) \<leftarrow> insertInHashTable (types tt) b hash (compareTypesWrapper (heap tt) N b);
     Some (Some b, tt\<lparr>types := tab\<rparr>) }"

section \<open>Making types\<close>

definition makePointerType :: "nodes \<Rightarrow> TypeTable \<Rightarrow> tref \<Rightarrow> u64 \<Rightarrow> (tref \<times> TypeTable) option" where
  "makePointerType N tt pointed f = intern N tt ((make (Pointer pointed False))\<lparr>flags := f\<rparr>)"

definition makeAllocatedPointerType :: "nodes \<Rightarrow> TypeTable \<Rightarrow> tref \<Rightarrow> u64 \<Rightarrow> (tref \<times> TypeTable) option" where
  "makeAllocatedPointerType N tt pointed f = intern N tt ((make (Pointer pointed True))\<lparr>flags := f\<rparr>)"

definition makeReferenceType :: "nodes \<Rightarrow> TypeTable \<Rightarrow> tref \<Rightarrow> u64 \<Rightarrow> (tref \<times> TypeTable) option" where
  "makeReferenceType N tt referred f = do {
     (referred, f) \<leftarrow> flattenWrappedType (heap tt) N referred f;
     intern N tt ((make (Reference referred))\<lparr>flags := f\<rparr>) }"

definition makeOptionalType :: "nodes \<Rightarrow> TypeTable \<Rightarrow> tref \<Rightarrow> u64 \<Rightarrow> (tref \<times> TypeTable) option" where
  "makeOptionalType N tt target f = do {
     (target, f) \<leftarrow> flattenWrappedType (heap tt) N target f;
     intern N tt ((make (Optional target))\<lparr>flags := f\<rparr>) }"

definition makeArrayType :: "nodes \<Rightarrow> TypeTable \<Rightarrow> tref \<Rightarrow> u64 \<Rightarrow> (tref \<times> TypeTable) option" where
  "makeArrayType N tt elementType len = intern N tt (make (Array len elementType))"

definition makeTypeInfo :: "nodes \<Rightarrow> TypeTable \<Rightarrow> tref \<Rightarrow> (tref \<times> TypeTable) option" where
  "makeTypeInfo N tt target = intern N tt (make (Info target))"

definition makeMapType :: "nodes \<Rightarrow> TypeTable \<Rightarrow> tref \<Rightarrow> tref \<Rightarrow> (tref \<times> TypeTable) option" where
  "makeMapType N tt key val = intern N tt (make (Map key val))"

definition makeAliasType :: "nodes \<Rightarrow> TypeTable \<Rightarrow> tref \<Rightarrow> cstring option \<Rightarrow> u64 \<Rightarrow> (tref \<times> TypeTable) option" where
  "makeAliasType N tt aliased name f = do {
     (aliased, f) \<leftarrow> flattenWrappedType (heap tt) N aliased f;
     intern N tt ((make (Alias aliased))\<lparr>type_name := name, flags := f\<rparr>) }"

definition makeOpaqueTypeWithFlags :: "nodes \<Rightarrow> TypeTable \<Rightarrow> cstring option \<Rightarrow> node option \<Rightarrow> u64 \<Rightarrow> (tref \<times> TypeTable) option" where
  "makeOpaqueTypeWithFlags N tt name d f = intern N tt ((make (Opaque d))\<lparr>type_name := name, flags := f\<rparr>)"

definition makeUnionType :: "nodes \<Rightarrow> TypeTable \<Rightarrow> tref list \<Rightarrow> u64 \<Rightarrow> (tref \<times> TypeTable) option" where
  "makeUnionType N tt ms f = intern N tt ((make (Union ms))\<lparr>flags := f\<rparr>)"

definition makeTupleType :: "nodes \<Rightarrow> TypeTable \<Rightarrow> tref list \<Rightarrow> u64 \<Rightarrow> (tref \<times> TypeTable) option" where
  "makeTupleType N tt ms f = intern N tt ((make (Tuple ms))\<lparr>flags := f\<rparr>)"

definition makeThisType :: "nodes \<Rightarrow> TypeTable \<Rightarrow> cstring option \<Rightarrow> u64 \<Rightarrow> (tref \<times> TypeTable) option" where
  "makeThisType N tt name f = intern N tt ((make (This None))\<lparr>type_name := name, flags := f\<rparr>)"

text \<open>The caller fills in the record.\<close>

definition makeFuncType :: "nodes \<Rightarrow> TypeTable \<Rightarrow> Type \<Rightarrow> (tref \<times> TypeTable) option" where
  "makeFuncType N tt init = intern N tt init"

definition makeAppliedType :: "nodes \<Rightarrow> TypeTable \<Rightarrow> Type \<Rightarrow> (bool \<times> nat \<times> TypeTable) option" where
  "makeAppliedType N tt init = getOrInsertType N tt init"

definition makeResultType :: "nodes \<Rightarrow> TypeTable \<Rightarrow> tref \<Rightarrow> (tref \<times> TypeTable) option" where
  "makeResultType N tt target = intern N tt (make (Result target))"

definition makeLiteralType :: "nodes \<Rightarrow> TypeTable \<Rightarrow> literal \<Rightarrow> (tref \<times> TypeTable) option" where
  "makeLiteralType N tt v = intern N tt (make (Literal v))"

definition makeExceptionType :: "nodes \<Rightarrow> TypeTable \<Rightarrow> cstring option \<Rightarrow> node option \<Rightarrow> (tref \<times> TypeTable) option" where
  "makeExceptionType N tt name d = intern N tt ((make (Exception d))\<lparr>type_name := name\<rparr>)"

definition makeGenericType :: "nodes \<Rightarrow> TypeTable \<Rightarrow> cstring option \<Rightarrow> u64 \<Rightarrow> bool \<Rightarrow> node option \<Rightarrow> (tref \<times> TypeTable) option" where
  "makeGenericType N tt name n inferrable d =
     intern N tt ((make (Generic n d inferrable))\<lparr>type_name := name\<rparr>)"

definition makeWrappedType :: "nodes \<Rightarrow> TypeTable \<Rightarrow> tref \<Rightarrow> u64 \<Rightarrow> (tref \<times> TypeTable) option" where
  "makeWrappedType N tt target f = do {
     t \<leftarrow> typeAt (heap tt) target;
     if flags t AND f = f then Some (target, tt)
     else do {
       (target, f) \<leftarrow> flattenWrappedType (heap tt) N target f;
       intern N tt ((make (Wrapped target))\<lparr>flags := f\<rparr>) } }"

partial_function (option) arrayToPointer :: "nodes \<Rightarrow> TypeTable \<Rightarrow> tref \<Rightarrow> (tref \<times> TypeTable) option" where
  "arrayToPointer N tt p = do {
     t \<leftarrow> typeAt (heap tt) p;
     case body t of
       Array _ e \<Rightarrow> do { (q, tt) \<leftarrow> arrayToPointer N tt e; makePointerType N tt q (flags t) }
     | _ \<Rightarrow> Some (p, tt) }"

definition changeFunctionRetType :: "nodes \<Rightarrow> TypeTable \<Rightarrow> tref \<Rightarrow> tref \<Rightarrow> (tref \<times> TypeTable) option" where
  "changeFunctionRetType N tt func ret = do {
     t \<leftarrow> typeAt (heap tt) func;
     b \<leftarrow> (case body t of Func ps _ d \<Rightarrow> Some (Func ps ret d) | _ \<Rightarrow> None);
     replaceTypeScoped N tt func (t\<lparr>body := b\<rparr>) }"

type_synonym sorter = "(NamedTypeMember \<Rightarrow> NamedTypeMember \<Rightarrow> int) \<Rightarrow> NamedTypeMember list \<Rightarrow> NamedTypeMember list"

definition makeStructType ::
  "sorter \<Rightarrow> nodes \<Rightarrow> TypeTable \<Rightarrow> cstring option \<Rightarrow> NamedTypeMember list \<Rightarrow> node option \<Rightarrow> u64 \<Rightarrow> (tref \<times> TypeTable) option" where
  "makeStructType qsort N tt name ms d f =
     (let c = makeTypeMembersContainer qsort ms
      in if f AND flgAnonymous \<noteq> 0
         then intern N tt ((make (Struct (Some c) d))\<lparr>type_name := name, flags := f\<rparr>)
         else internWith N tt ((make (Struct None None))\<lparr>type_name := name, flags := f\<rparr>) (\<lambda>_. Struct (Some c) d))"

text \<open>The members of a type, when it was inserted or has none.\<close>

definition makeReplaceStructType ::
  "sorter \<Rightarrow> nodes \<Rightarrow> TypeTable \<Rightarrow> cstring option \<Rightarrow> NamedTypeMember list \<Rightarrow> node option \<Rightarrow> u64 \<Rightarrow> (tref \<times> TypeTable) option" where
  "makeReplaceStructType qsort N tt name ms d f = do {
     (found, a, tt) \<leftarrow> getOrInsertType N tt ((make (Struct None None))\<lparr>type_name := name, flags := f\<rparr>);
     e \<leftarrow> (if \<not> found then Some True
          else case body (heap tt ! a) of Struct (Some c) _ \<Rightarrow> Some (members c = []) | _ \<Rightarrow> None);
     Some (Some a,
       if e then tt\<lparr>heap := (heap tt)[a := (heap tt ! a)\<lparr>body := Struct (Some (makeTypeMembersContainer qsort ms)) d\<rparr>]\<rparr>
       else tt) }"

definition updateStructType :: "sorter \<Rightarrow> TypeTable \<Rightarrow> nat \<Rightarrow> NamedTypeMember list \<Rightarrow> u64 \<Rightarrow> TypeTable" where
  "updateStructType qsort tt a ms f =
     (let t = heap tt ! a;
          b = (case body t of Struct _ d \<Rightarrow> Struct (Some (makeTypeMembersContainer qsort ms)) d | b \<Rightarrow> b)
      in tt\<lparr>heap := (heap tt)[a := t\<lparr>body := b, flags := flags t OR f\<rparr>]\<rparr>)"

definition updateClassType :: "sorter \<Rightarrow> TypeTable \<Rightarrow> nat \<Rightarrow> NamedTypeMember list \<Rightarrow> u64 \<Rightarrow> TypeTable" where
  "updateClassType qsort tt a ms f =
     (let t = heap tt ! a;
          b = (case body t of Class _ d i \<Rightarrow> Class (Some (makeTypeMembersContainer qsort ms)) d i | b \<Rightarrow> b)
      in tt\<lparr>heap := (heap tt)[a := t\<lparr>body := b, flags := flags t OR f\<rparr>]\<rparr>)"

definition makeClassType ::
  "sorter \<Rightarrow> nodes \<Rightarrow> TypeTable \<Rightarrow> cstring option \<Rightarrow> NamedTypeMember list \<Rightarrow> node option \<Rightarrow> tref \<Rightarrow> tref list \<Rightarrow> u64 \<Rightarrow>
   (tref \<times> TypeTable) option" where
  "makeClassType qsort N tt name ms d b is f =
     internWith N tt ((make (Class None None None))\<lparr>type_name := name, flags := f\<rparr>)
       (\<lambda>_. Class (Some (makeTypeMembersContainer qsort ms)) d (Some (makeTypeInheritance b is)))"

definition makeInterfaceType ::
  "sorter \<Rightarrow> nodes \<Rightarrow> TypeTable \<Rightarrow> cstring option \<Rightarrow> NamedTypeMember list \<Rightarrow> node option \<Rightarrow> u64 \<Rightarrow> (tref \<times> TypeTable) option" where
  "makeInterfaceType qsort N tt name ms d f =
     internWith N tt ((make (Interface None None))\<lparr>type_name := name, flags := f\<rparr>)
       (\<lambda>_. Interface (Some (makeTypeMembersContainer qsort ms)) d)"

definition makeModuleType ::
  "sorter \<Rightarrow> nodes \<Rightarrow> TypeTable \<Rightarrow> cstring option \<Rightarrow> cstring option \<Rightarrow> NamedTypeMember list \<Rightarrow> u64 \<Rightarrow> (tref \<times> TypeTable) option" where
  "makeModuleType qsort N tt name path ms f =
     internWith N tt ((make (Module None [] path))\<lparr>type_name := name, flags := f\<rparr>)
       (\<lambda>_. Module (Some (makeTypeMembersContainer qsort ms)) [] path)"

definition makeUntaggedUnionType ::
  "sorter \<Rightarrow> nodes \<Rightarrow> TypeTable \<Rightarrow> cstring option \<Rightarrow> u64 \<Rightarrow> node option \<Rightarrow> NamedTypeMember list \<Rightarrow> (tref \<times> TypeTable) option" where
  "makeUntaggedUnionType qsort N tt name f d ms =
     internWith N tt ((make (UntaggedUnion None d))\<lparr>type_name := name, flags := f\<rparr>)
       (\<lambda>_. UntaggedUnion (Some (makeTypeMembersContainer qsort ms)) d)"

definition makeReplaceUntaggedUnionType ::
  "sorter \<Rightarrow> nodes \<Rightarrow> TypeTable \<Rightarrow> cstring option \<Rightarrow> u64 \<Rightarrow> node option \<Rightarrow> NamedTypeMember list \<Rightarrow> (tref \<times> TypeTable) option" where
  "makeReplaceUntaggedUnionType qsort N tt name f d ms = do {
     (found, a, tt) \<leftarrow> getOrInsertType N tt ((make (UntaggedUnion None None))\<lparr>type_name := name, flags := f\<rparr>);
     e \<leftarrow> (if \<not> found then Some True
          else case body (heap tt ! a) of UntaggedUnion (Some c) _ \<Rightarrow> Some (members c = []) | _ \<Rightarrow> None);
     Some (Some a,
       if e then tt\<lparr>heap := (heap tt)[a := (heap tt ! a)\<lparr>body := UntaggedUnion (Some (makeTypeMembersContainer qsort ms)) d\<rparr>]\<rparr>
       else tt) }"

text \<open>The options of an enumeration are given in the record; they are sorted when it is inserted.\<close>

definition sortCompareEnumOption :: "EnumOptionDecl \<Rightarrow> EnumOptionDecl \<Rightarrow> int" where
  "sortCompareEnumOption left right =
     (if option_name left = option_name right then 0 else strcmp_sgn (option_name left) (option_name right))"

definition makeEnum ::
  "((EnumOptionDecl \<Rightarrow> EnumOptionDecl \<Rightarrow> int) \<Rightarrow> EnumOptionDecl list \<Rightarrow> EnumOptionDecl list) \<Rightarrow>
   nodes \<Rightarrow> TypeTable \<Rightarrow> Type \<Rightarrow> (tref \<times> TypeTable) option" where
  "makeEnum qsort N tt init =
     internWith N tt init
       (\<lambda>b. case b of Enum e opts _ d \<Rightarrow> Enum e opts (qsort sortCompareEnumOption opts) d | b \<Rightarrow> b)"

definition replaceStructType ::
  "sorter \<Rightarrow> nodes \<Rightarrow> TypeTable \<Rightarrow> nat \<Rightarrow> NamedTypeMember list \<Rightarrow> node option \<Rightarrow> u64 \<Rightarrow> (tref \<times> TypeTable) option" where
  "replaceStructType qsort N tt og ms d f = do {
     (_, tt) \<leftarrow> removeFromTypeTable N tt (Some og);
     makeStructType qsort N tt (type_name (heap tt ! og)) ms d f }"

definition replaceClassType ::
  "sorter \<Rightarrow> nodes \<Rightarrow> TypeTable \<Rightarrow> nat \<Rightarrow> NamedTypeMember list \<Rightarrow> node option \<Rightarrow> tref \<Rightarrow> tref list \<Rightarrow> u64 \<Rightarrow>
   (tref \<times> TypeTable) option" where
  "replaceClassType qsort N tt og ms d b is f = do {
     (_, tt) \<leftarrow> removeFromTypeTable N tt (Some og);
     makeClassType qsort N tt (type_name (heap tt ! og)) ms d b is f }"

definition replaceAliasType :: "nodes \<Rightarrow> TypeTable \<Rightarrow> nat \<Rightarrow> tref \<Rightarrow> u64 \<Rightarrow> (tref \<times> TypeTable) option" where
  "replaceAliasType N tt og aliased f = do {
     let name = type_name (heap tt ! og);
     (_, tt) \<leftarrow> removeFromTypeTable N tt (Some og);
     makeAliasType N tt aliased name f }"

text \<open>Lookups do not set the namespace.\<close>

definition findStructType where
  "findStructType N tt name f = findTypeScoped N tt ((make (Struct None None))\<lparr>type_name := name, flags := f\<rparr>)"

definition findAliasType where
  "findAliasType N tt name f = findTypeScoped N tt ((make (Alias None))\<lparr>type_name := name, flags := f\<rparr>)"

definition findUntaggedUnionType where
  "findUntaggedUnionType N tt name f =
     findTypeScoped N tt ((make (UntaggedUnion None None))\<lparr>type_name := name, flags := f\<rparr>)"

definition findEnumType where
  "findEnumType N tt name f = findTypeScoped N tt ((make (Enum None [] [] None))\<lparr>type_name := name, flags := f\<rparr>)"

definition findAnonymousStructType :: "nodes \<Rightarrow> TypeTable \<Rightarrow> NamedTypeMember list \<Rightarrow> u64 \<Rightarrow> tref option" where
  "findAnonymousStructType N tt ms f =
     findTypeScoped N tt ((make (Struct (Some \<lparr>members = ms, sortedMembers = ms\<rparr>) None))\<lparr>flags := f OR flgAnonymous\<rparr>)"

section \<open>A new table\<close>

definition emptyTable :: TypeTable where
  "emptyTable =
     \<lparr>heap = [], types = newHashTable, currentNamespace = None, typeCount = 0, primitiveTypes = [],
      errorType = None, autoType = None, voidType = None, nullObjectType = None, nullType = None,
      stringType = None, anySliceType = None, destructorType = None\<rparr>"

definition primitiveType :: "PrtId \<Rightarrow> Type" where
  "primitiveType k =
     (make (Primitive k))\<lparr>type_size := getPrimitiveTypeSizeFromTag k, type_name := Some (getPrimitiveTypeName k)\<rparr>"

primrec makePrimitives :: "nodes \<Rightarrow> PrtId list \<Rightarrow> TypeTable \<Rightarrow> TypeTable option" where
  "makePrimitives N [] tt = Some tt"
| "makePrimitives N (k # ks) tt = do {
     (p, tt) \<leftarrow> intern N tt (primitiveType k);
     makePrimitives N ks (tt\<lparr>primitiveTypes := primitiveTypes tt @ [p]\<rparr>) }"

definition newTypeTable :: "nodes \<Rightarrow> TypeTable option" where
  "newTypeTable N = do {
     tt \<leftarrow> makePrimitives N primTypes emptyTable;
     (p, tt) \<leftarrow> intern N tt (make Error);
     let tt = tt\<lparr>errorType := p\<rparr>;
     (p, tt) \<leftarrow> intern N tt (make Auto);
     let tt = tt\<lparr>autoType := p\<rparr>;
     (p, tt) \<leftarrow> intern N tt (make Void);
     let tt = tt\<lparr>voidType := p\<rparr>;
     (p, tt) \<leftarrow> intern N tt (make Null);
     let tt = tt\<lparr>nullObjectType := p\<rparr>;
     (p, tt) \<leftarrow> makePointerType N tt (nullObjectType tt) flgNone;
     let tt = tt\<lparr>nullType := p\<rparr>;
     (p, tt) \<leftarrow> intern N tt (make String);
     let tt = tt\<lparr>stringType := p\<rparr>;
     (p, tt) \<leftarrow> intern N tt ((make (Array (- 1) (autoType tt)))\<lparr>flags := flgBuiltin\<rparr>);
     Some (tt\<lparr>anySliceType := p\<rparr>) }"

definition getPrimitiveType :: "TypeTable \<Rightarrow> PrtId \<Rightarrow> tref" where
  "getPrimitiveType tt k = primitiveTypes tt ! position primTypes k"

definition makeVoidPointerType :: "nodes \<Rightarrow> TypeTable \<Rightarrow> u64 \<Rightarrow> (tref \<times> TypeTable) option" where
  "makeVoidPointerType N tt f = makePointerType N tt (voidType tt) f"

definition makeDestructorType :: "nodes \<Rightarrow> TypeTable \<Rightarrow> (tref \<times> TypeTable) option" where
  "makeDestructorType N tt =
     (if destructorType tt \<noteq> None then Some (destructorType tt, tt)
      else do {
        (v, tt) \<leftarrow> makeVoidPointerType N tt flgNone;
        makeFuncType N tt
          ((make (Func [v] (voidType tt) None))\<lparr>flags := flgBuiltin OR flgFunctionPtr, type_name := Some ''Destructor''\<rparr>) })"

text \<open>A name that is not found is reported with the name of the type.\<close>

definition expectInType :: "TypeTable \<Rightarrow> bool \<Rightarrow> tref \<Rightarrow> cstring \<Rightarrow> (tref \<times> bool) option" where
  "expectInType tt L p name = do {
     found \<leftarrow> findMemberInType (heap tt) name p;
     if L \<and> found = None then do { _ \<leftarrow> typeAt (heap tt) p; Some (errorType tt, True) }
     else Some (found, False) }"

text \<open>The types of the table by their index.\<close>

definition sortedByInsertionOrder :: "TypeTable \<Rightarrow> nat \<Rightarrow> tref list" where
  "sortedByInsertionOrder tt n =
     (let cnt = min n (typeCount tt);
          step = (\<lambda>xs i. case ht_elems (types tt) ! i of
                    Some a \<Rightarrow> if index (heap tt ! a) < cnt then xs[index (heap tt ! a) := Some a] else xs
                  | None \<Rightarrow> xs)
      in foldl step (replicate cnt None)
           (filter (isBucketOccupied (types tt)) [0..<ht_capacity (types tt)]))"

lemmas typeTableFunctions [code] = probeLoop.simps arrayToPointer.simps

end
