(* ===== verification/Cxy_TypeIntern.thy ===== *)
theory Cxy_TypeIntern
  imports Cxy_TypeTable
begin

text \<open>
  Interning of types: types made through the table are equal as trees exactly when they are the same object.

  A type is read as a head (flags, constructor and data, names) and its children. In a table of plain types,
  which do not include aliases, wrappers, self types and forward declarations, comparison and hashing
  depend on these alone; the table then has one object for each head and children.
\<close>

section \<open>Heads and children\<close>

definition skeleton :: "body \<Rightarrow> body" where
  "skeleton b =
     (case b of
        Pointer _ alloc \<Rightarrow> Pointer None alloc
      | Reference _ \<Rightarrow> Reference None
      | Optional _ \<Rightarrow> Optional None
      | Array n _ \<Rightarrow> Array n None
      | Map _ _ \<Rightarrow> Map None None
      | Union ms \<Rightarrow> Union (map (\<lambda>_. None) ms)
      | Tuple ms \<Rightarrow> Tuple (map (\<lambda>_. None) ms)
      | Func ps _ _ \<Rightarrow> Func (map (\<lambda>_. None) ps) None None
      | Result _ \<Rightarrow> Result None
      | Struct _ _ \<Rightarrow> Struct None None
      | Class _ _ _ \<Rightarrow> Class None None None
      | Interface _ _ \<Rightarrow> Interface None None
      | Enum _ _ _ _ \<Rightarrow> Enum None [] [] None
      | b \<Rightarrow> b)"

definition children :: "body \<Rightarrow> tref list" where
  "children b =
     (case b of
        Pointer q _ \<Rightarrow> [q] | Reference q \<Rightarrow> [q] | Optional q \<Rightarrow> [q] | Array _ q \<Rightarrow> [q] | Map k v \<Rightarrow> [k, v]
      | Union ms \<Rightarrow> ms | Tuple ms \<Rightarrow> ms | Func ps r _ \<Rightarrow> r # ps | Result q \<Rightarrow> [q] | _ \<Rightarrow> [])"

definition names :: "Type \<Rightarrow> cstring option \<times> cstring option" where
  "names t =
     (if tag t \<in> {typStruct, typClass, typInterface, typEnum} then (type_name t, ns t)
      else if tag t = typFunc then (type_name t, None)
      else (None, None))"

type_synonym head = "u64 \<times> body \<times> cstring option \<times> cstring option"

definition headOf :: "Type \<Rightarrow> head" where
  "headOf t = (flags t AND flgTypeApplicable, skeleton (body t), names t)"

definition plainTag :: "TTag \<Rightarrow> bool" where
  "plainTag k \<longleftrightarrow> k \<in> {typError, typAuto, typVoid, typNull, typPrimitive, typString, typPointer, typReference, typOptional,
     typArray, typMap, typUnion, typTuple, typFunc, typResult, typStruct, typClass, typInterface, typEnum, typException}"

text \<open>A plain type with children below \<open>n\<close>: structs have names, and named functions no declaration.\<close>

definition plainType :: "nat \<Rightarrow> Type \<Rightarrow> bool" where
  "plainType n t \<longleftrightarrow> plainTag (tag t) \<and> (\<forall>p\<in>set (children (body t)). \<exists>q<n. p = Some q) \<and>
     (tag t = typStruct \<longrightarrow> flags t AND flgAnonymous = 0) \<and>
     (\<forall>ps r d. body t = Func ps r d \<longrightarrow> type_name t = None \<or> d = None)"

definition plainHeap :: "heap \<Rightarrow> bool" where
  "plainHeap h \<longleftrightarrow> (\<forall>a<length h. plainType a (h ! a))"

text \<open>Head and children in one: the key of a type.\<close>

definition keyOf :: "Type \<Rightarrow> head \<times> tref list" where
  "keyOf t = (headOf t, children (body t))"

lemma plainHeap_append: "plainHeap (h @ [t]) \<longleftrightarrow> plainHeap h \<and> plainType (length h) t"
  by (auto simp: plainHeap_def nth_append less_Suc_eq)

lemma plainType_tag: "plainType n t \<Longrightarrow> plainTag (tag t)"
  by (simp add: plainType_def)

lemma plain_child:
  assumes "plainType n t" "p \<in> set (children (body t))"
  obtains q where "p = Some q" "q < n"
  using assms unfolding plainType_def by blast

lemma typeAt_Some [simp]: "a < length h \<Longrightarrow> typeAt h (Some a) = Some (h ! a)"
  by (simp add: typeAt_def)

lemma plain_resolve [simp]:
  assumes "plainHeap h" "a < length h"
  shows "resolveType h N (Some a) = Some (Some a)" "unwrapLoop h (Some a) tmp = Some (Some a, tmp)"
proof -
  have "plainTag (tagOf (body (h ! a)))" using assms by (auto simp: plainHeap_def plainType_def tag_def)
  then show "resolveType h N (Some a) = Some (Some a)" "unwrapLoop h (Some a) tmp = Some (Some a, tmp)"
    using assms(2) by (cases "body (h ! a)"; simp add: resolveType.simps [of h N "Some a"] unwrapLoop.simps [of h "Some a"] plainTag_def)+
qed

lemma plain_unwrap [simp]:
  assumes "plainHeap h" "a < length h"
  shows "unwrapType h (Some a) = Some (Some a)"
    "unwrapTypeFlags h (Some a) = Some (Some a, flags (h ! a) AND flgTypeApplicable)"
  using assms by (simp_all add: unwrapType_def unwrapTypeFlags_def flgNone_def)

lemma plain_classOrStruct:
  assumes "plainHeap h" "a < length h"
  shows "isClassOrStructType h N (Some a) = Some (tag (h ! a) = typClass \<or> tag (h ! a) = typStruct)"
proof -
  have "plainTag (tagOf (body (h ! a)))" using assms by (auto simp: plainHeap_def plainType_def tag_def)
  then show ?thesis using assms
    by (cases "body (h ! a)")
      (auto simp: isClassOrStructType_def isClassType_def isStructType_def typeIs_def isThisOf_def orM_def tag_def plainTag_def)
qed

lemma keyOf_tag: "keyOf t = keyOf u \<Longrightarrow> plainTag (tag t) \<Longrightarrow> plainTag (tag u) \<Longrightarrow> tag t = tag u"
  by (cases "body t"; cases "body u"; simp add: keyOf_def headOf_def skeleton_def tag_def plainTag_def)

section \<open>Comparison\<close>

lemma allM_eq:
  "length as = length bs \<Longrightarrow> (\<And>a b. a \<in> set as \<Longrightarrow> b \<in> set bs \<Longrightarrow> R a b = Some (a = b)) \<Longrightarrow>
   allM (\<lambda>(a, b). R a b) (zip as bs) = Some (as = bs)"
  by (induction as bs rule: list_induct2) auto

lemma compareMany_eq:
  assumes "\<And>a b. a \<in> set as \<Longrightarrow> b \<in> set bs \<Longrightarrow> R a b = Some (a = b)"
  shows "compareMany R as bs = Some (as = bs)"
  using allM_eq [of as bs R] assms by (auto simp: compareMany_def)

lemma andM_Some [simp]: "andM (Some a) (Some b) = Some (a \<and> b)"
  by (simp add: andM_def)

lemma map_None_eq: "map (\<lambda>_. None) xs = map (\<lambda>_. None) ys \<longleftrightarrow> length xs = length ys"
  by (metis length_map map_replicate_const)

lemma compareBodies_key:
  assumes "plainType n l" "plainType m r" "tag l = tag r" "flags l AND flgTypeApplicable = flags r AND flgTypeApplicable"
    and R: "\<And>a b. a \<in> set (children (body l)) \<Longrightarrow> b \<in> set (children (body r)) \<Longrightarrow> R a b = Some (a = b)"
  shows "compareBodies N R l r = Some (keyOf l = keyOf r)"
proof (cases "body l")
  case (Func ps q d)
  then obtain ps' q' d' where r: "body r = Func ps' q' d'" using assms(3) by (cases "body r") (auto simp: tag_def)
  have "R q q' = Some (q = q')" "compareMany R ps ps' = Some (ps = ps')"
    using R Func r by (auto simp: children_def intro!: compareMany_eq)
  moreover have "type_name l = None \<or> d = None" using assms(1) Func by (simp add: plainType_def)
  ultimately show ?thesis using Func r assms(4)
    by (auto simp: compareBodies_def keyOf_def headOf_def skeleton_def names_def tag_def children_def sameScope_def map_None_eq)
next
  case (Tuple ps)
  then obtain ps' where r: "body r = Tuple ps'" using assms(3) by (cases "body r") (auto simp: tag_def)
  have "compareMany R ps ps' = Some (ps = ps')" using R Tuple r by (auto simp: children_def intro!: compareMany_eq)
  then show ?thesis using Tuple r assms(4)
    by (auto simp: compareBodies_def keyOf_def headOf_def skeleton_def names_def tag_def children_def)
next
  case (Union ps)
  then obtain ps' where r: "body r = Union ps'" using assms(3) by (cases "body r") (auto simp: tag_def)
  have "compareMany R ps ps' = Some (ps = ps')" using R Union r by (auto simp: children_def intro!: compareMany_eq)
  then show ?thesis using Union r assms(4)
    by (auto simp: compareBodies_def keyOf_def headOf_def skeleton_def names_def tag_def children_def)
qed (use assms in \<open>cases "body r"; auto simp: compareBodies_def keyOf_def headOf_def skeleton_def names_def tag_def children_def
      plainType_def plainTag_def sameName_def\<close>)+

text \<open>Types of different addresses among the first \<open>n\<close> have different keys.\<close>

definition canonical :: "heap \<Rightarrow> nat \<Rightarrow> bool" where
  "canonical h n \<longleftrightarrow> (\<forall>a b. a < n \<longrightarrow> b < n \<longrightarrow> keyOf (h ! a) = keyOf (h ! b) \<longrightarrow> a = b)"

lemma compareTypes_key:
  assumes h: "plainHeap h" and c: "canonical h n" "length h \<le> Suc n"
  shows "a < length h \<Longrightarrow> b < length h \<Longrightarrow> compareTypes h N (Some a) (Some b) = Some (keyOf (h ! a) = keyOf (h ! b))"
proof (induction "a + b" arbitrary: a b rule: less_induct)
  case less
  have pa: "plainType a (h ! a)" and pb: "plainType b (h ! b)" using h less.prems by (auto simp: plainHeap_def)
  have R: "compareTypes h N p q = Some (p = q)"
    if pq: "p \<in> set (children (body (h ! a)))" "q \<in> set (children (body (h ! b)))" for p q
  proof -
    obtain x where x: "p = Some x" "x < a" by (rule plain_child [OF pa pq(1)])
    obtain y where y: "q = Some y" "y < b" by (rule plain_child [OF pb pq(2)])
    note xy = x y
    then have "compareTypes h N p q = Some (keyOf (h ! x) = keyOf (h ! y))" using less by auto
    moreover have "x < n" "y < n" using xy less.prems c(2) by auto
    ultimately show ?thesis using xy c(1) by (auto simp: canonical_def)
  qed
  have keys: "keyOf (h ! a) = keyOf (h ! b) \<Longrightarrow> tag (h ! a) = tag (h ! b) \<and>
      flags (h ! a) AND flgTypeApplicable = flags (h ! b) AND flgTypeApplicable"
    using keyOf_tag [of "h ! a" "h ! b"] pa pb by (auto simp: plainType_def keyOf_def headOf_def)
  show ?case
    using compareBodies_key [OF pa pb, of "compareTypes h N" N] R keys less.prems h
    by (subst compareTypes.simps) auto
qed

section \<open>Hashing\<close>

lemma hashTypes_tags:
  assumes "\<forall>p\<in>set ps. \<exists>q<n. p = Some q" "n \<le> length h" "n \<le> length h'" "\<forall>c<n. tag (h ! c) = tag (h' ! c)"
  shows "\<exists>x. hashTypes h hash ps = Some x \<and> hashTypes h' hash ps = Some x"
  using assms(1)
proof (induction ps arbitrary: hash)
  case (Cons p ps)
  then obtain q where "p = Some q" "q < n" by auto
  moreover from this have "tagValue (h ! q) = tagValue (h' ! q)" using assms(4) by (simp add: tagValue_def)
  moreover have "\<exists>y. hashTypes h x ps = Some y \<and> hashTypes h' x ps = Some y" for x using Cons by simp
  ultimately show ?case using assms(2,3) by auto
qed simp

lemma hashBody_key:
  assumes "plainType n t" "plainType n u" "keyOf t = keyOf u" "n \<le> length h" "n \<le> length h'"
    "\<forall>c<n. tag (h ! c) = tag (h' ! c)"
    and R: "\<And>p hash. p \<in> set (children (body t)) \<Longrightarrow> \<exists>x. R hash p = Some x \<and> R' hash p = Some x"
  shows "\<exists>x. hashBody h N R hash t = Some x \<and> hashBody h' N R' hash u = Some x"
proof -
  have T: "tag t = tag u" using keyOf_tag [OF assms(3)] assms(1,2) by (simp add: plainType_def)
  have many: "\<exists>x. hashTypes h hash ps = Some x \<and> hashTypes h' hash ps = Some x"
    if "set ps \<subseteq> set (children (body t))" for ps hash
    using hashTypes_tags [OF _ assms(4-6), of ps hash] that assms(1) unfolding plainType_def by blast
  show ?thesis
  proof (cases "body t")
    case (Func ps q d)
    then obtain d' where u: "body u = Func ps q d'" "type_name t = type_name u"
      using T assms(3) by (cases "body u") (auto simp: tag_def keyOf_def headOf_def names_def children_def)
    obtain x where "hashTypes h (hashName hash (type_name t)) ps = Some x" "hashTypes h' (hashName hash (type_name t)) ps = Some x"
      using many [of ps "hashName hash (type_name t)"] Func by (auto simp: children_def)
    then show ?thesis using R [of q x] Func u by (simp add: hashBody_def children_def)
  next
    case (Tuple ps)
    then have "body u = Tuple ps" using T assms(3) by (cases "body u") (auto simp: tag_def keyOf_def children_def)
    then show ?thesis using many [of ps hash] Tuple by (simp add: hashBody_def children_def)
  next
    case (Union ps)
    then have "body u = Union ps" using T assms(3) by (cases "body u") (auto simp: tag_def keyOf_def children_def)
    then show ?thesis using many [of ps hash] Union by (simp add: hashBody_def children_def)
  next
    case (Array n q)
    then have "body u = Array n q"
      using T assms(3) by (cases "body u") (auto simp: tag_def keyOf_def headOf_def skeleton_def children_def)
    then show ?thesis using R [of q hash] Array by (auto simp: hashBody_def children_def)
  next
    case (Map k v)
    then have u: "body u = Map k v" using T assms(3) by (cases "body u") (auto simp: tag_def keyOf_def children_def)
    obtain x where "R hash k = Some x" "R' hash k = Some x" using R [of k hash] Map by (auto simp: children_def)
    then show ?thesis using R [of v x] Map u by (simp add: hashBody_def children_def)
  qed (use T assms(1,2,3) R in \<open>cases "body u"; auto simp: hashBody_def tag_def keyOf_def headOf_def skeleton_def names_def
      children_def plainType_def plainTag_def\<close>)+
qed

text \<open>The hash depends on the keys up to the address.\<close>

lemma hashType_key:
  assumes "plainHeap h" "plainHeap h'"
  shows "a < length h \<Longrightarrow> a < length h' \<Longrightarrow> \<forall>c\<le>a. keyOf (h ! c) = keyOf (h' ! c) \<Longrightarrow>
    \<exists>x. hashType h N hash (Some a) = Some x \<and> hashType h' N hash (Some a) = Some x"
proof (induction a arbitrary: hash rule: less_induct)
  case (less a)
  have p: "plainType a (h ! a)" "plainType a (h' ! a)" using assms less.prems by (auto simp: plainHeap_def)
  have tags: "tag (h ! c) = tag (h' ! c)" if "c \<le> a" for c
    using that less.prems assms keyOf_tag [of "h ! c" "h' ! c"] by (auto simp: plainHeap_def plainType_def)
  have R: "\<exists>y. hashType h N x q = Some y \<and> hashType h' N x q = Some y" if q: "q \<in> set (children (body (h ! a)))" for q x
  proof -
    obtain b where "q = Some b" "b < a" by (rule plain_child [OF p(1) q])
    then show ?thesis using less by auto
  qed
  have f: "flags (h ! a) AND flgTypeApplicable = flags (h' ! a) AND flgTypeApplicable"
    using less.prems by (auto simp: keyOf_def headOf_def)
  obtain x where x: "headHash h N hash (Some a) (h ! a) = Some x" "headHash h' N hash (Some a) (h' ! a) = Some x"
    using plain_classOrStruct [OF assms(1) less.prems(1), of N] plain_classOrStruct [OF assms(2) less.prems(2), of N] tags [of a] f
    by (simp add: headHash_def tagValue_def Let_def)
  have "\<exists>y. hashBody h N (hashType h N) x (h ! a) = Some y \<and> hashBody h' N (hashType h' N) x (h' ! a) = Some y"
    by (rule hashBody_key [OF p]) (use less.prems tags R in auto)
  then show ?case using x less.prems by (simp add: hashType.simps [of _ _ _ "Some a"])
qed

lemma plainType_mono: "plainType n t \<Longrightarrow> n \<le> m \<Longrightarrow> plainType m t"
  unfolding plainType_def by (meson order_less_le_trans)

lemma hashType_same_key:
  assumes h: "plainHeap h" and ab: "a < length h" "b < length h" and k: "keyOf (h ! a) = keyOf (h ! b)"
  shows "hashType h N hash (Some a) = hashType h N hash (Some b)"
proof -
  let ?n = "max a b"
  have p: "plainType ?n (h ! a)" "plainType ?n (h ! b)"
    using h ab by (auto simp: plainHeap_def intro: plainType_mono)
  have T: "tag (h ! a) = tag (h ! b)" using keyOf_tag [OF k] p by (simp add: plainType_def)
  have "headHash h N hash (Some a) (h ! a) = headHash h N hash (Some b) (h ! b)"
    using plain_classOrStruct [OF h] ab T k by (simp add: headHash_def tagValue_def keyOf_def headOf_def Let_def)
  moreover have "hashBody h N (hashType h N) x (h ! a) = hashBody h N (hashType h N) x (h ! b)" for x
  proof -
    have "\<exists>y. hashType h N x q = Some y \<and> hashType h N x q = Some y" if q: "q \<in> set (children (body (h ! a)))" for q x
    proof -
      obtain c where "q = Some c" "c < ?n" by (rule plain_child [OF p(1) q])
      then show ?thesis using hashType_key [OF h h, of c] ab by auto
    qed
    then have "\<exists>y. hashBody h N (hashType h N) x (h ! a) = Some y \<and> hashBody h N (hashType h N) x (h ! b) = Some y"
      using ab by (intro hashBody_key [OF p k]) auto
    then show ?thesis by auto
  qed
  ultimately show ?thesis using ab by (simp add: hashType.simps [of h N hash])
qed

section \<open>The table\<close>

text \<open>A table of plain types: different addresses have different keys, and every type is found under its hash.\<close>

definition tt_ok :: "nodes \<Rightarrow> TypeTable \<Rightarrow> bool" where
  "tt_ok N tt \<longleftrightarrow> plainHeap (heap tt) \<and> canonical (heap tt) (length (heap tt)) \<and> ht_inv (types tt) \<and>
     (\<forall>a<length (heap tt). \<exists>hash. hashType (heap tt) N hashInit (Some a) = Some hash \<and> ht_mem (types tt) hash a) \<and>
     (\<forall>hash a. ht_mem (types tt) hash a \<longrightarrow> a < length (heap tt))"

definition extends :: "TypeTable \<Rightarrow> TypeTable \<Rightarrow> bool" where
  "extends tt tt' \<longleftrightarrow> (\<exists>more tab n. tt' = tt\<lparr>heap := heap tt @ more, types := tab, typeCount := n\<rparr>)"

lemma grown_refl [simp]: "extends tt tt"
  unfolding extends_def by (rule exI [of _ "[]"], rule exI [of _ "types tt"], rule exI [of _ "typeCount tt"]) simp

lemma extends_length: "extends tt tt' \<Longrightarrow> length (heap tt) \<le> length (heap tt')"
  by (auto simp: extends_def)

lemma extends_nth: "extends tt tt' \<Longrightarrow> a < length (heap tt) \<Longrightarrow> heap tt' ! a = heap tt ! a"
  by (auto simp: extends_def nth_append)

lemma grown_trans: "extends tt tt' \<Longrightarrow> extends tt' tt'' \<Longrightarrow> extends tt tt''"
  by (fastforce simp: extends_def)

text \<open>Replacing types by types of the same key changes nothing for the table.\<close>

lemma tt_ok_same_keys:
  assumes ok: "tt_ok N tt" and l: "length h = length (heap tt)"
    and same: "\<And>a. a < length h \<Longrightarrow> keyOf (h ! a) = keyOf (heap tt ! a) \<and> plainType a (h ! a)"
  shows "tt_ok N (tt\<lparr>heap := h\<rparr>)"
proof -
  have p: "plainHeap h" using same by (simp add: plainHeap_def)
  have "hashType h N hashInit (Some a) = hashType (heap tt) N hashInit (Some a)" if "a < length h" for a
    using hashType_key [OF p, of "heap tt" a N hashInit] ok l same that by (auto simp: tt_ok_def)
  then show ?thesis using ok p l same by (auto simp: tt_ok_def canonical_def)
qed

lemma keyOf_index [simp]: "keyOf (t\<lparr>index := i\<rparr>) = keyOf t"
  by (simp add: keyOf_def headOf_def names_def tag_def)

lemma plainType_index [simp]: "plainType n (t\<lparr>index := i\<rparr>) = plainType n t"
  by (simp add: plainType_def tag_def)

lemma getOrInsertTypeScoped_ok:
  assumes ok: "tt_ok N tt" and t: "plainType (length (heap tt)) t"
  obtains (found) a where "getOrInsertTypeScoped N tt t = Some (True, a, tt)" "a < length (heap tt)" "keyOf (heap tt ! a) = keyOf t"
  | (new) tt' where "getOrInsertTypeScoped N tt t = Some (False, length (heap tt), tt')" "tt_ok N tt'" "extends tt tt'"
      "heap tt' = heap tt @ [t\<lparr>index := typeCount tt\<rparr>]"
proof -
  let ?a = "length (heap tt)" and ?h = "heap tt @ [t]"
  have h: "plainHeap ?h" using ok t by (simp add: tt_ok_def plainHeap_append)
  have c: "canonical ?h ?a" using ok by (auto simp: tt_ok_def canonical_def nth_append)
  have inv: "ht_inv (types tt)" using ok by (simp add: tt_ok_def)
  obtain hash where hash: "hashType ?h N hashInit (Some ?a) = Some hash"
    using hashType_key [OF h h, of ?a N hashInit] by auto
  have cmp: "compareTypesWrapper ?h N ?a e \<longleftrightarrow> keyOf (heap tt ! e) = keyOf t" if "e < ?a" for e
    using compareTypes_key [OF h c, of e ?a N] that by (simp add: compareTypesWrapper_def nth_append)
  have ext: "hashType (heap tt @ [u]) N hashInit (Some e) = hashType (heap tt) N hashInit (Some e)"
    if "e < ?a" "plainType ?a u" for e u
    using hashType_key [of "heap tt @ [u]" "heap tt" e N hashInit] that ok
    by (auto simp: tt_ok_def plainHeap_append nth_append)
  from ht.find_returns [OF inv, of hash "compareTypesWrapper ?h N ?a"]
  obtain r where r: "findInHashTable (types tt) hash (compareTypesWrapper ?h N ?a) = Some r" by blast
  show thesis
  proof (cases r)
    case (Some i)
    then obtain e where e: "ht_deref (types tt) i = Some e" "compareTypesWrapper ?h N ?a e" "ht_mem (types tt) hash e"
      using ht.find_hit [OF inv] r by blast
    moreover have "e < ?a" using e(3) ok by (auto simp: tt_ok_def)
    ultimately show thesis using found [of e] hash r Some cmp by (simp add: getOrInsertTypeScoped_def)
  next
    case None
    have miss: "\<not> compareTypesWrapper ?h N ?a e" if "ht_mem (types tt) hash e" for e
      using ht.find_miss [OF inv] r None that by blast
    have fresh: "keyOf (heap tt ! e) \<noteq> keyOf t" if "e < ?a" for e
    proof
      assume k: "keyOf (heap tt ! e) = keyOf t"
      have "hashType ?h N hashInit (Some e) = Some hash"
        using hashType_same_key [OF h, of e ?a N hashInit] that k hash by (simp add: nth_append)
      then have "ht_mem (types tt) hash e" using ext [OF that t] that ok by (auto simp: tt_ok_def)
      with miss cmp [OF that] k show False by blast
    qed
    from ht.insert_new [OF inv, of hash "compareTypesWrapper ?h N ?a" ?a] miss
    obtain tab where tab: "insertInHashTable (types tt) ?a hash (compareTypesWrapper ?h N ?a) = Some (True, tab)" "ht_inv tab"
      "\<forall>h2 e2. ht_mem tab h2 e2 \<longleftrightarrow> ht_mem (types tt) h2 e2 \<or> h2 OR OCCUPIED_MASK = hash OR OCCUPIED_MASK \<and> e2 = ?a"
      by blast
    let ?u = "t\<lparr>index := typeCount tt\<rparr>"
    let ?tt = "tt\<lparr>heap := heap tt @ [?u], types := tab, typeCount := Suc (typeCount tt)\<rparr>"
    have u: "plainHeap (heap tt @ [?u])" using h by (simp add: plainHeap_append)
    have "hashType (heap tt @ [?u]) N hashInit (Some ?a) = Some hash"
      using hashType_key [OF u h, of ?a N hashInit] hash by (auto simp: nth_append)
    moreover have "canonical (heap tt @ [?u]) (Suc ?a)"
    proof -
      have "keyOf t \<noteq> keyOf (heap tt ! e)" if "e < ?a" for e using fresh [OF that] by metis
      then show ?thesis using ok fresh by (auto simp: tt_ok_def canonical_def nth_append less_Suc_eq)
    qed
    ultimately have "tt_ok N ?tt"
      using ok u tab(2,3) ext t by (auto simp: tt_ok_def less_Suc_eq)
    moreover have "extends tt ?tt" unfolding extends_def by blast
    ultimately show thesis using new [of ?tt] hash r None tab(1) by (simp add: getOrInsertTypeScoped_def)
  qed
qed

text \<open>The result of an operation that makes a type: the type has the wanted key.\<close>

definition makes :: "nodes \<Rightarrow> TypeTable \<Rightarrow> (tref \<times> TypeTable) option \<Rightarrow> head \<times> tref list \<Rightarrow> bool" where
  "makes N tt r k \<longleftrightarrow> (\<exists>a tt'. r = Some (Some a, tt') \<and> tt_ok N tt' \<and> extends tt tt' \<and> a < length (heap tt') \<and> keyOf (heap tt' ! a) = k)"

lemma intern_makes:
  assumes "tt_ok N tt" "plainType (length (heap tt)) (t\<lparr>ns := currentNamespace tt\<rparr>)"
  shows "makes N tt (intern N tt t) (keyOf (t\<lparr>ns := currentNamespace tt\<rparr>))"
  using assms
proof (cases rule: getOrInsertTypeScoped_ok)
  case (found a)
  then show ?thesis using assms(1) by (simp add: makes_def intern_def getOrInsertType_def)
next
  case (new tt')
  then show ?thesis by (simp add: makes_def intern_def getOrInsertType_def)
qed

lemma internWith_makes:
  assumes ok: "tt_ok N tt" and t: "plainType (length (heap tt)) (t\<lparr>ns := currentNamespace tt\<rparr>)"
    and f: "\<And>n u. plainType n u \<Longrightarrow> body u = body t \<Longrightarrow>
        keyOf (u\<lparr>body := f (body u)\<rparr>) = keyOf u \<and> plainType n (u\<lparr>body := f (body u)\<rparr>)"
  shows "makes N tt (internWith N tt t f) (keyOf (t\<lparr>ns := currentNamespace tt\<rparr>))"
  using ok t
proof (cases rule: getOrInsertTypeScoped_ok)
  case (found a)
  then show ?thesis using ok by (simp add: makes_def internWith_def getOrInsertType_def)
next
  case (new tt')
  let ?a = "length (heap tt)" and ?t = "t\<lparr>ns := currentNamespace tt, index := typeCount tt\<rparr>"
  let ?u = "?t\<lparr>body := f (body ?t)\<rparr>"
  have u: "keyOf ?u = keyOf (t\<lparr>ns := currentNamespace tt\<rparr>)" "plainType ?a ?u"
    using f [of ?a ?t] t plainType_index [of ?a "typeCount tt" "t\<lparr>ns := currentNamespace tt\<rparr>"]
      keyOf_index [of "typeCount tt" "t\<lparr>ns := currentNamespace tt\<rparr>"] by simp_all
  have h: "(heap tt')[?a := ?u] = heap tt @ [?u]" using new(4) by simp
  have "tt_ok N (tt'\<lparr>heap := (heap tt')[?a := ?u]\<rparr>)"
  proof (rule tt_ok_same_keys [OF new(2)])
    fix b assume b: "b < length ((heap tt')[?a := ?u])"
    show "keyOf ((heap tt')[?a := ?u] ! b) = keyOf (heap tt' ! b) \<and> plainType b ((heap tt')[?a := ?u] ! b)"
    proof (cases "b = ?a")
      case True
      then show ?thesis using u new(4) keyOf_index [of "typeCount tt" "t\<lparr>ns := currentNamespace tt\<rparr>"] by simp
    next
      case False
      then show ?thesis using b new(2) by (simp add: tt_ok_def plainHeap_def)
    qed
  qed simp
  moreover have "extends tt (tt'\<lparr>heap := (heap tt')[?a := ?u]\<rparr>)"
  proof -
    obtain tab n more where "tt' = tt\<lparr>heap := heap tt @ more, types := tab, typeCount := n\<rparr>"
      using new(3) unfolding extends_def by blast
    then have "tt'\<lparr>heap := (heap tt')[?a := ?u]\<rparr> = tt\<lparr>heap := heap tt @ [?u], types := tab, typeCount := n\<rparr>"
      unfolding h by simp
    then show ?thesis unfolding extends_def by blast
  qed
  ultimately show ?thesis using new u(1) h by (auto simp: makes_def internWith_def getOrInsertType_def)
qed

end
