(* ===== verification/Cxy_TypeTrees.thy ===== *)
theory Cxy_TypeTrees
  imports Cxy_TypeIntern
begin

text \<open>
  Types as trees, and the requests a client makes of the type table of \<open>lang/frontend/ttable.c\<close>: a request names a type
  by its structure, the constructor functions of the table turn it into an address, and two requests get the same
  address exactly when they name the same type.
\<close>

section \<open>Trees of types\<close>

datatype tree = Tree head "tree list"

inductive reps :: "heap \<Rightarrow> nat \<Rightarrow> tree \<Rightarrow> bool" for h where
  reps_node: "a < length h \<Longrightarrow> keyOf (h ! a) = (z, map Some cs) \<Longrightarrow> list_all2 (reps h) cs ts \<Longrightarrow> reps h a (Tree z ts)"

inductive_cases reps_TreeE: "reps h a (Tree z ts)"

lemma reps_tree: "reps h a t \<Longrightarrow> reps h a t' \<Longrightarrow> t = t'"
proof (induction arbitrary: t' rule: reps.induct)
  case (reps_node a z cs ts)
  from reps_node.prems obtain cs' ts' z' where t': "t' = Tree z' ts'" "keyOf (h ! a) = (z', map Some cs')" "list_all2 (reps h) cs' ts'"
    by (cases rule: reps.cases) auto
  then have "z' = z" "cs' = cs" using reps_node(2) by (auto simp: inj_map_eq_map)
  moreover from reps_node(3) t'(3) \<open>cs' = cs\<close> have "ts = ts'"
    by (auto simp: list_all2_conv_all_nth intro!: nth_equalityI)
  ultimately show ?case using t' by simp
qed

lemma reps_addr:
  assumes c: "canonical h (length h)"
  shows "reps h a t \<Longrightarrow> reps h b t \<Longrightarrow> a = b"
proof (induction arbitrary: b rule: reps.induct)
  case (reps_node a z cs ts)
  from reps_node.prems obtain ds where d: "b < length h" "keyOf (h ! b) = (z, map Some ds)" "list_all2 (reps h) ds ts"
    by (cases rule: reps.cases) auto
  with reps_node(3) have "cs = ds" by (auto simp: list_all2_conv_all_nth intro!: nth_equalityI)
  then show ?case using d reps_node(1,2) c by (auto simp: canonical_def)
qed

lemma reps_extends:
  assumes "extends tt tt'"
  shows "reps (heap tt) a t \<Longrightarrow> reps (heap tt') a t"
proof (induction rule: reps.induct)
  case (reps_node a z cs ts)
  then have "list_all2 (reps (heap tt')) cs ts" by (auto elim: list_all2_mono)
  then show ?case
    using reps_node(1,2) extends_nth [OF assms] extends_length [OF assms] by (auto intro: reps.reps_node)
qed

lemma reps_length: "reps h a t \<Longrightarrow> a < length h"
  by (auto elim: reps.cases)

section \<open>Requests\<close>

text \<open>Types as they are asked for. Structs and classes are known by name; their members and declarations are
  given by \<open>D\<close>.\<close>

datatype ty =
  TPrim PrtId | TVoid | TAuto | TString | TNull
| TPointer u64 ty | TAllocatedPointer u64 ty | TReference u64 ty | TOptional u64 ty
| TArray ty u64 | TMap ty ty | TTuple u64 "ty list" | TUnion u64 "ty list" | TFunc u64 "ty list" ty | TResult ty
| TStruct u64 cstring | TClass u64 cstring | TInterface u64 cstring | TException cstring node

type_synonym decls = "cstring \<Rightarrow> NamedTypeMember list \<times> node option"

fun build :: "sorter \<Rightarrow> nodes \<Rightarrow> decls \<Rightarrow> ty \<Rightarrow> TypeTable \<Rightarrow> (tref \<times> TypeTable) option"
  and buildAll :: "sorter \<Rightarrow> nodes \<Rightarrow> decls \<Rightarrow> ty list \<Rightarrow> TypeTable \<Rightarrow> (tref list \<times> TypeTable) option" where
  "build qsort N D (TPrim k) tt = Some (getPrimitiveType tt k, tt)"
| "build qsort N D TVoid tt = Some (voidType tt, tt)"
| "build qsort N D TAuto tt = Some (autoType tt, tt)"
| "build qsort N D TString tt = Some (stringType tt, tt)"
| "build qsort N D TNull tt = Some (nullType tt, tt)"
| "build qsort N D (TPointer f t) tt = do { (p, tt) \<leftarrow> build qsort N D t tt; makePointerType N tt p f }"
| "build qsort N D (TAllocatedPointer f t) tt = do { (p, tt) \<leftarrow> build qsort N D t tt; makeAllocatedPointerType N tt p f }"
| "build qsort N D (TReference f t) tt = do { (p, tt) \<leftarrow> build qsort N D t tt; makeReferenceType N tt p f }"
| "build qsort N D (TOptional f t) tt = do { (p, tt) \<leftarrow> build qsort N D t tt; makeOptionalType N tt p f }"
| "build qsort N D (TArray t n) tt = do { (p, tt) \<leftarrow> build qsort N D t tt; makeArrayType N tt p n }"
| "build qsort N D (TMap k v) tt = do {
     (p, tt) \<leftarrow> build qsort N D k tt; (q, tt) \<leftarrow> build qsort N D v tt; makeMapType N tt p q }"
| "build qsort N D (TTuple f ts) tt = do { (ps, tt) \<leftarrow> buildAll qsort N D ts tt; makeTupleType N tt ps f }"
| "build qsort N D (TUnion f ts) tt = do { (ps, tt) \<leftarrow> buildAll qsort N D ts tt; makeUnionType N tt ps f }"
| "build qsort N D (TFunc f ts t) tt = do {
     (p, tt) \<leftarrow> build qsort N D t tt;
     (ps, tt) \<leftarrow> buildAll qsort N D ts tt;
     makeFuncType N tt ((make (Func ps p None))\<lparr>flags := f\<rparr>) }"
| "build qsort N D (TResult t) tt = do { (p, tt) \<leftarrow> build qsort N D t tt; makeResultType N tt p }"
| "build qsort N D (TStruct f s) tt = makeStructType qsort N tt (Some s) (fst (D s)) (snd (D s)) f"
| "build qsort N D (TClass f s) tt = makeClassType qsort N tt (Some s) (fst (D s)) (snd (D s)) None [] f"
| "build qsort N D (TInterface f s) tt = makeInterfaceType qsort N tt (Some s) (fst (D s)) (snd (D s)) f"
| "build qsort N D (TException s d) tt = makeExceptionType N tt (Some s) (Some d)"
| "buildAll qsort N D [] tt = Some ([], tt)"
| "buildAll qsort N D (t # ts) tt = do {
     (p, tt) \<leftarrow> build qsort N D t tt;
     (ps, tt) \<leftarrow> buildAll qsort N D ts tt;
     Some (p # ps, tt) }"

text \<open>Structs with names are not anonymous.\<close>

fun named :: "ty \<Rightarrow> bool" where
  "named (TPointer f t) = named t"
| "named (TAllocatedPointer f t) = named t"
| "named (TReference f t) = named t"
| "named (TOptional f t) = named t"
| "named (TArray t n) = named t"
| "named (TMap k v) = (named k \<and> named v)"
| "named (TTuple f ts) = (\<forall>t\<in>set ts. named t)"
| "named (TUnion f ts) = (\<forall>t\<in>set ts. named t)"
| "named (TFunc f ts t) = ((\<forall>t\<in>set ts. named t) \<and> named t)"
| "named (TResult t) = named t"
| "named (TStruct f s) = (f AND flgAnonymous = 0)"
| "named _ = True"

text \<open>The flags that do not apply to types are not looked at, nor is the name of an exception.\<close>

fun erase :: "ty \<Rightarrow> ty" where
  "erase (TPointer f t) = TPointer (f AND flgTypeApplicable) (erase t)"
| "erase (TAllocatedPointer f t) = TAllocatedPointer (f AND flgTypeApplicable) (erase t)"
| "erase (TReference f t) = TReference (f AND flgTypeApplicable) (erase t)"
| "erase (TOptional f t) = TOptional (f AND flgTypeApplicable) (erase t)"
| "erase (TArray t n) = TArray (erase t) n"
| "erase (TMap k v) = TMap (erase k) (erase v)"
| "erase (TTuple f ts) = TTuple (f AND flgTypeApplicable) (map erase ts)"
| "erase (TUnion f ts) = TUnion (f AND flgTypeApplicable) (map erase ts)"
| "erase (TFunc f ts t) = TFunc (f AND flgTypeApplicable) (map erase ts) (erase t)"
| "erase (TResult t) = TResult (erase t)"
| "erase (TStruct f s) = TStruct (f AND flgTypeApplicable) s"
| "erase (TClass f s) = TClass (f AND flgTypeApplicable) s"
| "erase (TInterface f s) = TInterface (f AND flgTypeApplicable) s"
| "erase (TException s d) = TException [] d"
| "erase t = t"

text \<open>The tree of a request, in a namespace.\<close>

fun treeOf :: "cstring option \<Rightarrow> ty \<Rightarrow> tree" where
  "treeOf n (TPrim k) = Tree (headOf (primitiveType k)) []"
| "treeOf n TVoid = Tree (headOf (make Void)) []"
| "treeOf n TAuto = Tree (headOf (make Auto)) []"
| "treeOf n TString = Tree (headOf (make String)) []"
| "treeOf n TNull = Tree (headOf (make (Pointer None False))) [Tree (headOf (make Null)) []]"
| "treeOf n (TPointer f t) = Tree (headOf ((make (Pointer None False))\<lparr>flags := f\<rparr>)) [treeOf n t]"
| "treeOf n (TAllocatedPointer f t) = Tree (headOf ((make (Pointer None True))\<lparr>flags := f\<rparr>)) [treeOf n t]"
| "treeOf n (TReference f t) = Tree (headOf ((make (Reference None))\<lparr>flags := f\<rparr>)) [treeOf n t]"
| "treeOf n (TOptional f t) = Tree (headOf ((make (Optional None))\<lparr>flags := f\<rparr>)) [treeOf n t]"
| "treeOf n (TArray t k) = Tree (headOf (make (Array k None))) [treeOf n t]"
| "treeOf n (TMap k v) = Tree (headOf (make (Map None None))) [treeOf n k, treeOf n v]"
| "treeOf n (TTuple f ts) = Tree (headOf ((make (Tuple (map (\<lambda>_. None) ts)))\<lparr>flags := f\<rparr>)) (map (treeOf n) ts)"
| "treeOf n (TUnion f ts) = Tree (headOf ((make (Union (map (\<lambda>_. None) ts)))\<lparr>flags := f\<rparr>)) (map (treeOf n) ts)"
| "treeOf n (TFunc f ts t) =
     Tree (headOf ((make (Func (map (\<lambda>_. None) ts) None None))\<lparr>flags := f\<rparr>)) (treeOf n t # map (treeOf n) ts)"
| "treeOf n (TResult t) = Tree (headOf (make (Result None))) [treeOf n t]"
| "treeOf n (TStruct f s) = Tree (headOf ((make (Struct None None))\<lparr>type_name := Some s, flags := f, ns := n\<rparr>)) []"
| "treeOf n (TClass f s) = Tree (headOf ((make (Class None None None))\<lparr>type_name := Some s, flags := f, ns := n\<rparr>)) []"
| "treeOf n (TInterface f s) = Tree (headOf ((make (Interface None None))\<lparr>type_name := Some s, flags := f, ns := n\<rparr>)) []"
| "treeOf n (TException s d) = Tree (headOf (make (Exception (Some d)))) []"

lemmas key_simps = keyOf_def headOf_def names_def skeleton_def children_def tag_def make_def primitiveType_def

lemma map_eq_iff_erase:
  assumes "\<And>t u. t \<in> set ts \<Longrightarrow> (f t = f u) = (g t = g u)"
  shows "map f ts = map f us \<longleftrightarrow> map g ts = map g us"
  using assms
proof (induction ts arbitrary: us)
  case (Cons t ts)
  then show ?case by (cases us) auto
qed simp

lemma treeOf_Null [simp]: "treeOf n t \<noteq> Tree (f, Null, x) ts" "Tree (f, Null, x) ts \<noteq> treeOf n t"
  by (cases t; auto simp: key_simps)+

lemma treeOf_eq: "treeOf n t = treeOf n u \<longleftrightarrow> erase t = erase u"
proof (induction t arbitrary: u)
  case (TTuple f ts)
  then show ?case using map_eq_iff_erase [of ts "treeOf n" erase] by (cases u) (auto simp: key_simps o_def map_None_eq dest: map_eq_imp_length_eq)
next
  case (TUnion f ts)
  then show ?case using map_eq_iff_erase [of ts "treeOf n" erase] by (cases u) (auto simp: key_simps o_def map_None_eq dest: map_eq_imp_length_eq)
next
  case (TFunc f ts t)
  then show ?case using map_eq_iff_erase [of ts "treeOf n" erase] by (cases u) (auto simp: key_simps o_def map_None_eq dest: map_eq_imp_length_eq)
qed (case_tac u; auto simp: key_simps)+

section \<open>Making trees\<close>

definition made :: "nodes \<Rightarrow> TypeTable \<Rightarrow> (tref \<times> TypeTable) option \<Rightarrow> tree \<Rightarrow> bool" where
  "made N tt r t \<longleftrightarrow> (\<exists>a tt'. r = Some (Some a, tt') \<and> tt_ok N tt' \<and> extends tt tt' \<and> reps (heap tt') a t)"

lemma madeE:
  assumes "made N tt r t"
  obtains a tt' where "r = Some (Some a, tt')" "tt_ok N tt'" "extends tt tt'" "reps (heap tt') a t"
  using assms unfolding made_def by blast

lemma made_trans: "extends tt tt' \<Longrightarrow> made N tt' r t \<Longrightarrow> made N tt r t"
  unfolding made_def by (blast intro: grown_trans)

lemma makes_made:
  assumes "makes N tt r (z, map Some cs)" "list_all2 (reps (heap tt)) cs ts"
  shows "made N tt r (Tree z ts)"
proof -
  from assms(1) obtain a tt' where r: "r = Some (Some a, tt')" "tt_ok N tt'" "extends tt tt'" "a < length (heap tt')"
    "keyOf (heap tt' ! a) = (z, map Some cs)" unfolding makes_def by blast
  have "list_all2 (reps (heap tt')) cs ts" using assms(2) reps_extends [OF r(3)] by (auto elim: list_all2_mono)
  with r show ?thesis unfolding made_def by (blast intro: reps.intros)
qed

lemma intern_made:
  assumes "tt_ok N tt" "plainType (length (heap tt)) (t\<lparr>ns := currentNamespace tt\<rparr>)"
    "keyOf (t\<lparr>ns := currentNamespace tt\<rparr>) = (z, map Some cs)" "list_all2 (reps (heap tt)) cs ts"
  shows "made N tt (intern N tt t) (Tree z ts)"
  using makes_made [OF _ assms(4)] intern_makes [OF assms(1,2)] assms(3) by simp

lemma extends_fields:
  assumes "extends tt tt'"
  shows "currentNamespace tt' = currentNamespace tt" "primitiveTypes tt' = primitiveTypes tt" "voidType tt' = voidType tt"
    "autoType tt' = autoType tt" "stringType tt' = stringType tt" "nullType tt' = nullType tt"
    "errorType tt' = errorType tt" "nullObjectType tt' = nullObjectType tt"
  using assms by (auto simp: extends_def)

text \<open>The types every table begins with.\<close>

definition hasTree :: "TypeTable \<Rightarrow> tref \<Rightarrow> ty \<Rightarrow> bool" where
  "hasTree tt p t \<longleftrightarrow> (\<exists>a. p = Some a \<and> reps (heap tt) a (treeOf (currentNamespace tt) t))"

definition builtins_ok :: "TypeTable \<Rightarrow> bool" where
  "builtins_ok tt \<longleftrightarrow> (\<forall>k. hasTree tt (getPrimitiveType tt k) (TPrim k)) \<and> hasTree tt (voidType tt) TVoid \<and>
     hasTree tt (autoType tt) TAuto \<and> hasTree tt (stringType tt) TString \<and> hasTree tt (nullType tt) TNull"

lemma hasTree_extends: "extends tt tt' \<Longrightarrow> hasTree tt p t \<Longrightarrow> hasTree tt' p t"
  unfolding hasTree_def by (metis extends_fields(1) reps_extends)

lemma builtins_extends: "extends tt tt' \<Longrightarrow> builtins_ok tt \<Longrightarrow> builtins_ok tt'"
  unfolding builtins_ok_def getPrimitiveType_def by (auto simp: extends_fields intro: hasTree_extends)

lemma hasTree_made: "tt_ok N tt \<Longrightarrow> hasTree tt p t \<Longrightarrow> made N tt (Some (p, tt)) (treeOf (currentNamespace tt) t)"
  by (auto simp: hasTree_def made_def)

text \<open>One child.\<close>

lemma made_child:
  assumes "made N tt r t" "\<And>a tt'. tt_ok N tt' \<Longrightarrow> extends tt tt' \<Longrightarrow> reps (heap tt') a t \<Longrightarrow> made N tt' (f (Some a) tt') T"
  shows "made N tt (do { (p, tt) \<leftarrow> r; f p tt }) T"
proof -
  obtain a tt' where r: "r = Some (Some a, tt')" "tt_ok N tt'" "extends tt tt'" "reps (heap tt') a t"
    by (rule madeE [OF assms(1)])
  then show ?thesis using made_trans [OF r(3) assms(2) [OF r(2,3,4)]] by simp
qed

definition madeAll :: "nodes \<Rightarrow> TypeTable \<Rightarrow> (tref list \<times> TypeTable) option \<Rightarrow> tree list \<Rightarrow> bool" where
  "madeAll N tt r ts \<longleftrightarrow> (\<exists>as tt'. r = Some (map Some as, tt') \<and> tt_ok N tt' \<and> extends tt tt' \<and> list_all2 (reps (heap tt')) as ts)"

lemma made_children:
  assumes "madeAll N tt r ts"
    "\<And>as tt'. tt_ok N tt' \<Longrightarrow> extends tt tt' \<Longrightarrow> list_all2 (reps (heap tt')) as ts \<Longrightarrow> made N tt' (f (map Some as) tt') T"
  shows "made N tt (do { (ps, tt) \<leftarrow> r; f ps tt }) T"
proof -
  obtain as tt' where r: "r = Some (map Some as, tt')" "tt_ok N tt'" "extends tt tt'" "list_all2 (reps (heap tt')) as ts"
    using assms(1) unfolding madeAll_def by blast
  then show ?thesis using made_trans [OF r(3) assms(2) [OF r(2,3,4)]] by simp
qed

lemma reps_list_length: "list_all2 (reps h) as ts \<Longrightarrow> a \<in> set as \<Longrightarrow> a < length h"
  by (auto simp: list_all2_conv_all_nth in_set_conv_nth intro: reps_length)

lemma flatten_plain:
  "tt_ok N tt \<Longrightarrow> a < length (heap tt) \<Longrightarrow> flattenWrappedType (heap tt) N (Some a) f = Some (Some a, f)"
  by (simp add: flattenWrappedType_def tt_ok_def flgNone_def)

lemmas plain_simps = plainType_def plainTag_def tag_def make_def children_def

lemma make_one_child:
  assumes "tt_ok N tt" "reps (heap tt) a t"
  shows "made N tt (makePointerType N tt (Some a) f) (Tree (headOf ((make (Pointer None False))\<lparr>flags := f\<rparr>)) [t])"
    "made N tt (makeAllocatedPointerType N tt (Some a) f) (Tree (headOf ((make (Pointer None True))\<lparr>flags := f\<rparr>)) [t])"
    "made N tt (makeReferenceType N tt (Some a) f) (Tree (headOf ((make (Reference None))\<lparr>flags := f\<rparr>)) [t])"
    "made N tt (makeOptionalType N tt (Some a) f) (Tree (headOf ((make (Optional None))\<lparr>flags := f\<rparr>)) [t])"
    "made N tt (makeArrayType N tt (Some a) k) (Tree (headOf (make (Array k None))) [t])"
    "made N tt (makeResultType N tt (Some a)) (Tree (headOf (make (Result None))) [t])"
  using assms reps_length [OF assms(2)] flatten_plain [OF assms(1) reps_length [OF assms(2)], of f]
  unfolding makePointerType_def makeAllocatedPointerType_def makeReferenceType_def makeOptionalType_def makeArrayType_def
    makeResultType_def
  by (auto intro!: intern_made [where cs = "[a]"] simp: plain_simps key_simps)

lemma make_many_children:
  assumes ok: "tt_ok N tt" and ts: "list_all2 (reps (heap tt)) as ts"
  shows "made N tt (makeTupleType N tt (map Some as) f) (Tree (headOf ((make (Tuple (map (\<lambda>_. None) ts)))\<lparr>flags := f\<rparr>)) ts)"
    "made N tt (makeUnionType N tt (map Some as) f) (Tree (headOf ((make (Union (map (\<lambda>_. None) ts)))\<lparr>flags := f\<rparr>)) ts)"
  using ok ts reps_list_length [OF ts] list_all2_lengthD [OF ts]
  unfolding makeTupleType_def makeUnionType_def
  by (auto intro!: intern_made [where cs = as] simp: plain_simps key_simps o_def map_None_eq)

lemma make_func:
  assumes ok: "tt_ok N tt" and ts: "list_all2 (reps (heap tt)) as ts" and t: "reps (heap tt) a t"
  shows "made N tt (makeFuncType N tt ((make (Func (map Some as) (Some a) None))\<lparr>flags := f\<rparr>))
       (Tree (headOf ((make (Func (map (\<lambda>_. None) ts) None None))\<lparr>flags := f\<rparr>)) (t # ts))"
  using ok ts t reps_list_length [OF ts] list_all2_lengthD [OF ts] reps_length [OF t]
  unfolding makeFuncType_def
  by (auto intro!: intern_made [where cs = "a # as"] simp: plain_simps key_simps o_def map_None_eq)

lemma make_map:
  assumes "tt_ok N tt" "reps (heap tt) a t" "reps (heap tt) b u"
  shows "made N tt (makeMapType N tt (Some a) (Some b)) (Tree (headOf (make (Map None None))) [t, u])"
  using assms reps_length [OF assms(2)] reps_length [OF assms(3)]
  unfolding makeMapType_def by (auto intro!: intern_made [where cs = "[a, b]"] simp: plain_simps key_simps)

lemma make_named:
  assumes "tt_ok N tt"
  shows "f AND flgAnonymous = 0 \<Longrightarrow> made N tt (makeStructType qsort N tt (Some s) ms d f) (treeOf (currentNamespace tt) (TStruct f s))"
    "made N tt (makeClassType qsort N tt (Some s) ms d None [] f) (treeOf (currentNamespace tt) (TClass f s))"
    "made N tt (makeInterfaceType qsort N tt (Some s) ms d f) (treeOf (currentNamespace tt) (TInterface f s))"
proof -
  have leaf: "made N tt (internWith N tt t g) (Tree z [])"
    if "plainType (length (heap tt)) (t\<lparr>ns := currentNamespace tt\<rparr>)" "keyOf (t\<lparr>ns := currentNamespace tt\<rparr>) = (z, [])"
      "\<And>n u. plainType n u \<Longrightarrow> body u = body t \<Longrightarrow>
        keyOf (u\<lparr>body := g (body u)\<rparr>) = keyOf u \<and> plainType n (u\<lparr>body := g (body u)\<rparr>)" for t g z
    using makes_made [of N tt "internWith N tt t g" z "[]" "[]"] internWith_makes [OF assms that(1), of g] that(2,3) by simp
  show "made N tt (makeStructType qsort N tt (Some s) ms d f) (treeOf (currentNamespace tt) (TStruct f s))" if "f AND flgAnonymous = 0"
    using that unfolding makeStructType_def Let_def by (auto intro!: leaf simp: plain_simps key_simps)
  show "made N tt (makeClassType qsort N tt (Some s) ms d None [] f) (treeOf (currentNamespace tt) (TClass f s))"
    unfolding makeClassType_def by (auto intro!: leaf simp: plain_simps key_simps)
  show "made N tt (makeInterfaceType qsort N tt (Some s) ms d f) (treeOf (currentNamespace tt) (TInterface f s))"
    unfolding makeInterfaceType_def by (auto intro!: leaf simp: plain_simps key_simps)
qed

lemma make_leaf:
  assumes "tt_ok N tt" "b \<in> {Error, Auto, Void, Null, String, Exception d} \<or> (\<exists>k. b = Primitive k)"
  shows "made N tt (intern N tt ((make b)\<lparr>type_size := sz, type_name := s\<rparr>)) (Tree (headOf (make b)) [])"
  using assms by (auto intro!: intern_made [where cs = "[]"] simp: plain_simps key_simps)

section \<open>Requests are interned\<close>

lemma build_made:
  "tt_ok N tt \<Longrightarrow> builtins_ok tt \<Longrightarrow> named t \<Longrightarrow> made N tt (build qsort N D t tt) (treeOf (currentNamespace tt) t)"
  "tt_ok N tt \<Longrightarrow> builtins_ok tt \<Longrightarrow> \<forall>t\<in>set ts. named t \<Longrightarrow>
     madeAll N tt (buildAll qsort N D ts tt) (map (treeOf (currentNamespace tt)) ts)"
proof (induction qsort N D t tt and qsort N D ts tt rule: build_buildAll.induct)
  case (1 qsort N D k tt)
  then show ?case using hasTree_made [of N tt "getPrimitiveType tt k" "TPrim k"] by (simp add: builtins_ok_def)
next
  case (2 qsort N D tt)
  then show ?case using hasTree_made [of N tt "voidType tt" TVoid] by (simp add: builtins_ok_def)
next
  case (3 qsort N D tt)
  then show ?case using hasTree_made [of N tt "autoType tt" TAuto] by (simp add: builtins_ok_def)
next
  case (4 qsort N D tt)
  then show ?case using hasTree_made [of N tt "stringType tt" TString] by (simp add: builtins_ok_def)
next
  case (5 qsort N D tt)
  then show ?case using hasTree_made [of N tt "nullType tt" TNull] by (simp add: builtins_ok_def)
next
  case (11 qsort N D k v tt)
  have "made N tt' (do { (q, tt) \<leftarrow> build qsort N D v tt'; makeMapType N tt (Some a) q }) (treeOf (currentNamespace tt) (TMap k v))"
    if r: "build qsort N D k tt = Some (Some a, tt')" "tt_ok N tt'" "extends tt tt'" "reps (heap tt') a (treeOf (currentNamespace tt) k)" for a tt'
  proof (rule made_child)
    show "made N tt' (build qsort N D v tt') (treeOf (currentNamespace tt) v)"
      using 11(2) [OF r(1) refl] 11(5) r builtins_extends [OF r(3) 11(4)] by (simp add: extends_fields)
    show "made N tt2 (makeMapType N tt2 (Some a) (Some b)) (treeOf (currentNamespace tt) (TMap k v))"
      if "tt_ok N tt2" "extends tt' tt2" "reps (heap tt2) b (treeOf (currentNamespace tt) v)" for b tt2
      using make_map [OF that(1) reps_extends [OF that(2) r(4)] that(3)] by simp
  qed
  moreover have "made N tt (build qsort N D k tt) (treeOf (currentNamespace tt) k)" using 11 by simp
  ultimately show ?case by (auto elim!: madeE intro: made_trans)
next
  case (14 qsort N D f ts t tt)
  have "made N tt' (do { (ps, tt) \<leftarrow> buildAll qsort N D ts tt'; makeFuncType N tt ((make (Func ps (Some a) None))\<lparr>flags := f\<rparr>) })
      (treeOf (currentNamespace tt) (TFunc f ts t))"
    if r: "build qsort N D t tt = Some (Some a, tt')" "tt_ok N tt'" "extends tt tt'" "reps (heap tt') a (treeOf (currentNamespace tt) t)" for a tt'
  proof (rule made_children)
    show "madeAll N tt' (buildAll qsort N D ts tt') (map (treeOf (currentNamespace tt)) ts)"
      using 14(2) [OF r(1) refl] 14(5) r builtins_extends [OF r(3) 14(4)] by (simp add: extends_fields)
    show "made N tt2 (makeFuncType N tt2 ((make (Func (map Some as) (Some a) None))\<lparr>flags := f\<rparr>)) (treeOf (currentNamespace tt) (TFunc f ts t))"
      if "tt_ok N tt2" "extends tt' tt2" "list_all2 (reps (heap tt2)) as (map (treeOf (currentNamespace tt)) ts)" for as tt2
      using make_func [OF that(1,3) reps_extends [OF that(2) r(4)], of f] by (simp add: o_def)
  qed
  moreover have "made N tt (build qsort N D t tt) (treeOf (currentNamespace tt) t)" using 14 by simp
  ultimately show ?case by (auto elim!: madeE intro: made_trans)
next
  case (12 qsort N D f ts tt)
  show ?case unfolding build.simps
  proof (rule made_children)
    show "madeAll N tt (buildAll qsort N D ts tt) (map (treeOf (currentNamespace tt)) ts)" using 12 by simp
    show "made N tt2 (makeTupleType N tt2 (map Some as) f) (treeOf (currentNamespace tt) (TTuple f ts))"
      if "tt_ok N tt2" "list_all2 (reps (heap tt2)) as (map (treeOf (currentNamespace tt)) ts)" for as tt2
      using make_many_children(1) [OF that, of f] by (simp add: o_def)
  qed
next
  case (13 qsort N D f ts tt)
  show ?case unfolding build.simps
  proof (rule made_children)
    show "madeAll N tt (buildAll qsort N D ts tt) (map (treeOf (currentNamespace tt)) ts)" using 13 by simp
    show "made N tt2 (makeUnionType N tt2 (map Some as) f) (treeOf (currentNamespace tt) (TUnion f ts))"
      if "tt_ok N tt2" "list_all2 (reps (heap tt2)) as (map (treeOf (currentNamespace tt)) ts)" for as tt2
      using make_many_children(2) [OF that, of f] by (simp add: o_def)
  qed
next
  case (16 qsort N D f s tt)
  then show ?case using make_named(1) by (simp del: treeOf.simps)
next
  case (17 qsort N D f s tt)
  then show ?case using make_named(2) by (simp del: treeOf.simps)
next
  case (18 qsort N D f s tt)
  then show ?case using make_named(3) by (simp del: treeOf.simps)
next
  case (19 qsort N D s d tt)
  then show ?case using make_leaf [where b = "Exception (Some d)" and d = "Some d" and sz = 0 and s = "Some s"] by (simp add: makeExceptionType_def make_def)
next
  case (21 qsort N D t ts tt)
  then obtain a tt' where r: "build qsort N D t tt = Some (Some a, tt')" "tt_ok N tt'" "extends tt tt'"
      "reps (heap tt') a (treeOf (currentNamespace tt) t)" by (auto elim: madeE)
  have "madeAll N tt' (buildAll qsort N D ts tt') (map (treeOf (currentNamespace tt)) ts)"
    using 21(2) [OF r(1) refl] 21(5) r builtins_extends [OF r(3) 21(4)] by (simp add: extends_fields)
  then obtain as tt2 where r2: "buildAll qsort N D ts tt' = Some (map Some as, tt2)" "tt_ok N tt2" "extends tt' tt2"
      "list_all2 (reps (heap tt2)) as (map (treeOf (currentNamespace tt)) ts)" unfolding madeAll_def by blast
  show ?case unfolding madeAll_def
    by (rule exI [of _ "a # as"], rule exI [of _ tt2]) (use r r2 reps_extends [OF r2(3) r(4)] grown_trans [OF r(3) r2(3)] in simp)
qed (auto intro!: made_child make_one_child simp: madeAll_def)

section \<open>The initial table\<close>

text \<open>Filling in the fields of the table does not concern its types.\<close>

definition grows :: "TypeTable \<Rightarrow> TypeTable \<Rightarrow> bool" where
  "grows tt tt' \<longleftrightarrow> (\<exists>new. heap tt' = heap tt @ new) \<and> currentNamespace tt' = currentNamespace tt"

lemma grows_same [intro]: "heap tt' = heap tt \<Longrightarrow> currentNamespace tt' = currentNamespace tt \<Longrightarrow> grows tt tt'"
  by (simp add: grows_def)

lemma extends_grows: "extends tt tt' \<Longrightarrow> grows tt tt'"
  by (auto simp: extends_def grows_def)

lemma grows_trans: "grows tt tt' \<Longrightarrow> grows tt' tt'' \<Longrightarrow> grows tt tt''"
  by (auto simp: grows_def)

lemma reps_append: "reps h a t \<Longrightarrow> reps (h @ new) a t"
proof (induction rule: reps.induct)
  case (reps_node a z cs ts)
  then have "list_all2 (reps (h @ new)) cs ts" by (auto elim: list_all2_mono)
  then show ?case using reps_node(1,2) by (auto intro!: reps.reps_node simp: nth_append)
qed

lemma hasTree_grows: "grows tt tt' \<Longrightarrow> hasTree tt p t \<Longrightarrow> hasTree tt' p t"
  unfolding hasTree_def grows_def using reps_append by metis

lemma tt_ok_fields: "heap tt' = heap tt \<Longrightarrow> types tt' = types tt \<Longrightarrow> tt_ok N tt' \<longleftrightarrow> tt_ok N tt"
  by (simp add: tt_ok_def)

lemma emptyTable_ok: "tt_ok N emptyTable"
  using newHashTableWithCapacity_inv [of DEFAULT_HASH_TABLE_CAPACITY, where 'e = nat]
  by (simp add: tt_ok_def emptyTable_def plainHeap_def canonical_def newHashTable_def ht_mem_def)

lemma intern_leaf:
  assumes "tt_ok N tt" "b \<in> {Error, Auto, Void, Null, String} \<or> (\<exists>k. b = Primitive k)"
  obtains a tt' where "intern N tt ((make b)\<lparr>type_size := sz, type_name := s\<rparr>) = Some (Some a, tt')" "tt_ok N tt'" "extends tt tt'"
    "reps (heap tt') a (Tree (headOf (make b)) [])"
proof -
  have "b \<in> {Error, Auto, Void, Null, String, Exception None} \<or> (\<exists>k. b = Primitive k)" using assms(2) by auto
  from make_leaf [OF assms(1) this, of s sz] that show thesis by (rule madeE)
qed

lemma makePrimitives_ok:
  assumes "tt_ok N tt" "list_all2 (hasTree tt) (primitiveTypes tt) (map TPrim js)"
  shows "\<exists>tt'. makePrimitives N ks tt = Some tt' \<and> tt_ok N tt' \<and> grows tt tt' \<and>
     list_all2 (hasTree tt') (primitiveTypes tt') (map TPrim (js @ ks))"
  using assms
proof (induction ks arbitrary: js tt)
  case Nil
  then show ?case by (auto simp: grows_def)
next
  case (Cons k ks)
  obtain a t1 where t1: "intern N tt (primitiveType k) = Some (Some a, t1)" "tt_ok N t1" "extends tt t1"
      "reps (heap t1) a (Tree (headOf (make (Primitive k))) [])"
    unfolding primitiveType_def by (rule intern_leaf [where b = "Primitive k", OF Cons.prems(1)]) auto
  let ?t2 = "t1\<lparr>primitiveTypes := primitiveTypes t1 @ [Some a]\<rparr>"
  have g: "grows tt ?t2" using extends_grows [OF t1(3)] by (simp add: grows_def)
  have "hasTree ?t2 (Some a) (TPrim k)"
    using t1(4) by (simp add: hasTree_def primitiveType_def headOf_def names_def tag_def make_def)
  moreover have "list_all2 (hasTree ?t2) (primitiveTypes t1) (map TPrim js)"
    using Cons.prems(2) hasTree_grows [OF g] by (auto simp: extends_fields [OF t1(3)] elim: list_all2_mono)
  ultimately have "list_all2 (hasTree ?t2) (primitiveTypes ?t2) (map TPrim (js @ [k]))"
    by (simp add: list_all2_appendI)
  from Cons.IH [OF _ this] t1(2) tt_ok_fields [of ?t2 t1 N] t1(1) g
  show ?case by (auto dest: grows_trans)
qed

lemma position_primTypes: "position primTypes k < length primTypes \<and> primTypes ! position primTypes k = k"
  by (cases k) (simp_all add: primTypes_def integerTypes_def floatTypes_def unsignedIntegerTypes_def signedIntegerTypes_def)

lemma newTypeTable_ok: "\<exists>tt. newTypeTable N = Some tt \<and> tt_ok N tt \<and> builtins_ok tt \<and> currentNamespace tt = None"
proof -
  obtain t0 where t0: "makePrimitives N primTypes emptyTable = Some t0" "tt_ok N t0" "grows emptyTable t0"
      "list_all2 (hasTree t0) (primitiveTypes t0) (map TPrim primTypes)"
    using makePrimitives_ok [where js = "[]" and ks = primTypes, OF emptyTable_ok] by (auto simp: emptyTable_def)
  obtain a1 t1 where t1: "intern N t0 (make Error) = Some (Some a1, t1)" "tt_ok N t1" "extends t0 t1"
    by (rule intern_leaf [where b = Error and sz = 0 and s = None, OF t0(2)]) (auto simp: make_def)
  let ?t1 = "t1\<lparr>errorType := Some a1\<rparr>"
  have o1: "tt_ok N ?t1" using t1(2) by (simp add: tt_ok_def)
  obtain a2 t2 where t2: "intern N ?t1 (make Auto) = Some (Some a2, t2)" "tt_ok N t2" "extends ?t1 t2"
      "reps (heap t2) a2 (Tree (headOf (make Auto)) [])"
    by (rule intern_leaf [where b = Auto and sz = 0 and s = None, OF o1]) (auto simp: make_def)
  let ?t2 = "t2\<lparr>autoType := Some a2\<rparr>"
  have o2: "tt_ok N ?t2" using t2(2) by (simp add: tt_ok_def)
  obtain a3 t3 where t3: "intern N ?t2 (make Void) = Some (Some a3, t3)" "tt_ok N t3" "extends ?t2 t3"
      "reps (heap t3) a3 (Tree (headOf (make Void)) [])"
    by (rule intern_leaf [where b = Void and sz = 0 and s = None, OF o2]) (auto simp: make_def)
  let ?t3 = "t3\<lparr>voidType := Some a3\<rparr>"
  have o3: "tt_ok N ?t3" using t3(2) by (simp add: tt_ok_def)
  obtain a4 t4 where t4: "intern N ?t3 (make Null) = Some (Some a4, t4)" "tt_ok N t4" "extends ?t3 t4"
      "reps (heap t4) a4 (Tree (headOf (make Null)) [])"
    by (rule intern_leaf [where b = Null and sz = 0 and s = None, OF o3]) (auto simp: make_def)
  let ?t4 = "t4\<lparr>nullObjectType := Some a4\<rparr>"
  have o4: "tt_ok N ?t4" using t4(2) by (simp add: tt_ok_def)
  obtain a5 t5 where t5: "makePointerType N ?t4 (Some a4) flgNone = Some (Some a5, t5)" "tt_ok N t5" "extends ?t4 t5"
      "reps (heap t5) a5 (Tree (headOf (make (Pointer None False))) [Tree (headOf (make Null)) []])"
    by (rule madeE [OF make_one_child(1) [OF o4, of a4 "Tree (headOf (make Null)) []" flgNone]])
      (use t4(4) in \<open>auto simp: make_def flgNone_def\<close>)
  let ?t5 = "t5\<lparr>nullType := Some a5\<rparr>"
  have o5: "tt_ok N ?t5" using t5(2) by (simp add: tt_ok_def)
  obtain a6 t6 where t6: "intern N ?t5 (make String) = Some (Some a6, t6)" "tt_ok N t6" "extends ?t5 t6"
      "reps (heap t6) a6 (Tree (headOf (make String)) [])"
    by (rule intern_leaf [where b = String and sz = 0 and s = None, OF o5]) (auto simp: make_def)
  let ?t6 = "t6\<lparr>stringType := Some a6\<rparr>"
  have o6: "tt_ok N ?t6" using t6(2) by (simp add: tt_ok_def)
  have g: "grows t0 t1" "grows ?t1 t2" "grows ?t2 t3" "grows ?t3 t4" "grows ?t4 t5" "grows ?t5 t6"
    using t1(3) t2(3) t3(3) t4(3) t5(3) t6(3) by (auto intro: extends_grows)
  have a2: "reps (heap ?t6) a2 (Tree (headOf (make Auto)) [])"
    using t2(4) g(3-6) by (auto simp: grows_def intro: reps_append)
  have "made N ?t6 (intern N ?t6 ((make (Array (- 1) (Some a2)))\<lparr>flags := flgBuiltin\<rparr>))
      (Tree (headOf ((make (Array (- 1) None))\<lparr>flags := flgBuiltin\<rparr>)) [Tree (headOf (make Auto)) []])"
    using o6 a2 reps_length [OF a2] by (auto intro!: intern_made [where cs = "[a2]"] simp: plain_simps key_simps)
  then obtain a7 t7 where t7: "intern N ?t6 ((make (Array (- 1) (Some a2)))\<lparr>flags := flgBuiltin\<rparr>) = Some (Some a7, t7)"
      "tt_ok N t7" "extends ?t6 t7" by (rule madeE)
  let ?t7 = "t7\<lparr>anySliceType := Some a7\<rparr>"
  have fields: "autoType t6 = Some a2" "nullObjectType ?t4 = Some a4" "primitiveTypes ?t7 = primitiveTypes t0"
      "voidType ?t7 = Some a3" "autoType ?t7 = Some a2" "stringType ?t7 = Some a6" "nullType ?t7 = Some a5"
    using extends_fields [OF t1(3)] extends_fields [OF t2(3)] extends_fields [OF t3(3)] extends_fields [OF t4(3)]
      extends_fields [OF t5(3)] extends_fields [OF t6(3)] extends_fields [OF t7(3)] by simp_all
  have run: "newTypeTable N = Some ?t7"
    using t0(1) t1(1) t2(1) t3(1) t4(1) t5(1) t6(1) t7(1) fields(1) by (simp add: newTypeTable_def Let_def)
  have g7: "grows ?t6 ?t7" using extends_grows [OF t7(3)] by (simp add: grows_def)
  have grow: "grows t0 ?t7" "grows t2 ?t7" "grows t3 ?t7" "grows t5 ?t7" "grows t6 ?t7"
    using g g7 by (auto simp: grows_def)
  have prims: "hasTree ?t7 (getPrimitiveType ?t7 k) (TPrim k)" for k
  proof -
    have "hasTree t0 (primitiveTypes t0 ! position primTypes k) (TPrim k)"
      using list_all2_nthD2 [OF t0(4), of "position primTypes k"] position_primTypes [of k] by simp
    then show ?thesis unfolding getPrimitiveType_def fields(3) by (rule hasTree_grows [OF grow(1)])
  qed
  have "hasTree ?t7 (voidType ?t7) TVoid" "hasTree ?t7 (autoType ?t7) TAuto"
      "hasTree ?t7 (stringType ?t7) TString" "hasTree ?t7 (nullType ?t7) TNull"
    unfolding fields(4-7)
    using hasTree_grows [OF grow(3), of "Some a3" TVoid] hasTree_grows [OF grow(2), of "Some a2" TAuto]
      hasTree_grows [OF grow(5), of "Some a6" TString] hasTree_grows [OF grow(4), of "Some a5" TNull]
      t2(4) t3(4) t5(4) t6(4) by (simp_all add: hasTree_def)
  with prims have "builtins_ok ?t7" unfolding builtins_ok_def by blast
  moreover have "tt_ok N ?t7" using t7(2) by (simp add: tt_ok_def)
  moreover have "currentNamespace ?t7 = None"
    using grow(1) t0(3) by (simp add: grows_def emptyTable_def)
  ultimately show ?thesis using run by blast
qed

definition no_nodes :: nodes where
  "no_nodes _ = \<lparr>node_tag = ''astNoop'', node_flags = 0, node_type = None, node_typeParam = None, parentScope = None\<rparr>"

section \<open>One object per type\<close>

text \<open>C6: From a new type table, any sequence of requests for types (primitive types, pointers, references, optionals,
  arrays, maps, tuples, unions, functions, results, and structs, classes, interfaces and exceptions by name) succeeds;
  each answer is an object that reads back as the type that was asked for, and two answers
  are the same object exactly when the two requests name the same type, up to the flags that do not apply to types and the
  names of exceptions, which are known by their declarations. Wrapped and constant types, self types, anonymous structs, enums,
  aliases, opaque, generic and applied types are not among these requests.\<close>

theorem types_are_interned:
  assumes "\<forall>t\<in>set tys. named t"
  shows "\<exists>tt as tt'. newTypeTable N = Some tt \<and> buildAll qsort N D tys tt = Some (map Some as, tt') \<and> length as = length tys \<and>
     (\<forall>i<length tys. reps (heap tt') (as ! i) (treeOf None (tys ! i))) \<and>
     (\<forall>i<length tys. \<forall>j<length tys. as ! i = as ! j \<longleftrightarrow> erase (tys ! i) = erase (tys ! j))"
proof -
  obtain tt where tt: "newTypeTable N = Some tt" "tt_ok N tt" "builtins_ok tt" "currentNamespace tt = None"
    using newTypeTable_ok by blast
  obtain as tt' where r: "buildAll qsort N D tys tt = Some (map Some as, tt')" "tt_ok N tt'"
      "list_all2 (reps (heap tt')) as (map (treeOf None) tys)"
    using build_made(2) [OF tt(2,3) assms, of qsort D] tt(4) unfolding madeAll_def by auto
  have l: "length as = length tys" and reps: "\<And>i. i < length tys \<Longrightarrow> reps (heap tt') (as ! i) (treeOf None (tys ! i))"
    using r(3) by (auto simp: list_all2_conv_all_nth)
  have "as ! i = as ! j \<longleftrightarrow> erase (tys ! i) = erase (tys ! j)" if "i < length tys" "j < length tys" for i j
  proof -
    have "as ! i = as ! j \<longleftrightarrow> treeOf None (tys ! i) = treeOf None (tys ! j)"
      using reps [OF that(1)] reps [OF that(2)] r(2) reps_tree reps_addr [of "heap tt'"] unfolding tt_ok_def by metis
    then show ?thesis by (simp only: treeOf_eq)
  qed
  with tt(1) r(1) l reps show ?thesis by blast
qed

theorem types_are_interned_witness:
  "\<exists>tt a b tt'. newTypeTable no_nodes = Some tt \<and>
     buildAll (\<lambda>_ xs. xs) no_nodes (\<lambda>_. ([], None)) [TPointer 0 (TPrim prtI32), TPrim prtI32, TPointer 0 (TPrim prtI32)] tt =
       Some ([Some a, Some b, Some a], tt') \<and> a \<noteq> b"
proof -
  let ?tys = "[TPointer 0 (TPrim prtI32), TPrim prtI32, TPointer 0 (TPrim prtI32)]"
  have "\<forall>t\<in>set ?tys. named t" by simp
  from types_are_interned [OF this, of no_nodes "\<lambda>_ xs. xs" "\<lambda>_. ([], None)"]
  obtain tt as tt' where r: "newTypeTable no_nodes = Some tt"
      "buildAll (\<lambda>_ xs. xs) no_nodes (\<lambda>_. ([], None)) ?tys tt = Some (map Some as, tt')"
      and l: "length as = 3" and same: "\<And>i j. i < 3 \<Longrightarrow> j < 3 \<Longrightarrow> as ! i = as ! j \<longleftrightarrow> erase (?tys ! i) = erase (?tys ! j)"
    by (auto simp del: buildAll.simps)
  from l obtain a b c where as: "as = [a, b, c]" by (auto simp: length_Suc_conv numeral_3_eq_3)
  have "a = c" using same [of 0 2] as by simp
  moreover have "a \<noteq> b" using same [of 0 1] as by simp
  ultimately show ?thesis using r as by (auto simp del: buildAll.simps)
qed

end
