(* ===== verification/Cxy_TypeRel.thy ===== *)
theory Cxy_TypeRel
  imports Cxy_TypeTrees
begin

text \<open>
  The relations between types of \<open>lang/frontend/ttable.c\<close> on the types of the numbers, the resolution of names of types,
  and what comparison and hashing make of wrapped types.
\<close>

section \<open>Primitive types\<close>

text \<open>An address that holds a primitive type as the table makes it.\<close>

definition primAt :: "heap \<Rightarrow> tref \<Rightarrow> PrtId \<Rightarrow> bool" where
  "primAt h p k \<longleftrightarrow>
     (case typeAt h p of
        Some t \<Rightarrow> body t = Primitive k \<and> type_size t = getPrimitiveTypeSizeFromTag k \<and> flags t = 0
      | None \<Rightarrow> False)"

lemma primAtE:
  assumes "primAt h p k"
  obtains a t where "p = Some a" "typeAt h p = Some t" "body t = Primitive k" "type_size t = getPrimitiveTypeSizeFromTag k"
    "flags t = 0"
  using assms by (cases p) (auto simp: primAt_def typeAt_def split: option.splits if_splits)

text \<open>What the functions that follow types do on them.\<close>


lemma prim_follow:
  assumes "primAt h p k"
  shows "resolveType h N p = Some p" "unwrapLoop h p f = Some (p, f)" "unwrapType h p = Some p"
    "unwrapTypeFlags h p = Some (p, 0)" "isTypeConst h p = Some False"
proof -
  obtain a t where "p = Some a" "typeAt h p = Some t" "body t = Primitive k" "flags t = 0" using assms by (rule primAtE)
  then show "resolveType h N p = Some p" "unwrapLoop h p f = Some (p, f)" "unwrapType h p = Some p"
    "unwrapTypeFlags h p = Some (p, 0)" "isTypeConst h p = Some False"
    by (simp_all add: resolveType.simps unwrapLoop.simps unwrapType_def unwrapTypeFlags_def isTypeConst_def flgNone_def)
qed

lemma prim_classify:
  assumes "primAt h p k"
  shows "isIntegerType h N p = Some (k \<in> set integerTypes)" "isUnsignedType h N p = Some (k \<in> set unsignedIntegerTypes)"
    "isFloatType h N p = Some (k \<in> set floatTypes)" "isCharacterType h N p = Some (k = prtChar \<or> k = prtCChar)"
    "isArrayType h N p = Some False" "isIntegralType h N p = Some (k \<in> set (integerTypes @ [prtBool, prtChar, prtCChar]))"
proof -
  obtain a t where "p = Some a" "typeAt h p = Some t" "body t = Primitive k" using assms by (rule primAtE)
  then show "isIntegerType h N p = Some (k \<in> set integerTypes)" "isUnsignedType h N p = Some (k \<in> set unsignedIntegerTypes)"
    "isFloatType h N p = Some (k \<in> set floatTypes)" "isCharacterType h N p = Some (k = prtChar \<or> k = prtCChar)"
    "isArrayType h N p = Some False" "isIntegralType h N p = Some (k \<in> set (integerTypes @ [prtBool, prtChar, prtCChar]))"
    using prim_follow(1) [OF assms, of N]
    by (simp_all add: classify.simps isIntegerType_def isUnsignedType_def isFloatType_def isCharacterType_def isArrayType_def
        isIntegralType_def isPrim_def tag_def)
qed

lemma prim_read:
  assumes "primAt h p k"
  shows "asPointer h p = None" "asEnum h p = None" "asResult h p = None" "asPrimitive h p = Some (k, getPrimitiveTypeSizeFromTag k)"
    "hasFlag h p f = False" "isSliceType h p = False" "typeIs h p g = (g = typPrimitive)"
proof -
  obtain a t where "p = Some a" "typeAt h p = Some t" "body t = Primitive k" "type_size t = getPrimitiveTypeSizeFromTag k" "flags t = 0"
    using assms by (rule primAtE)
  then show "asPointer h p = None" "asEnum h p = None" "asResult h p = None" "asPrimitive h p = Some (k, getPrimitiveTypeSizeFromTag k)"
    "hasFlag h p f = False" "isSliceType h p = False" "typeIs h p g = (g = typPrimitive)"
    by (auto simp: asPointer_def asEnum_def asResult_def asPrimitive_def bodyAt_def hasFlag_def isSliceType_def typeIs_def tag_def)
qed

lemma prim_minMax:
  assumes "primAt h p k"
  shows "getIntegerTypeMinMax h N p = minMaxTable k"
proof -
  obtain a t where "p = Some a" "typeAt h p = Some t" "body t = Primitive k" using assms by (rule primAtE)
  then show ?thesis using prim_follow(3) [OF assms] prim_classify(6) [OF assms]
    by (cases k) (simp_all add: getIntegerTypeMinMax_def minMaxTable_def integerTypes_def unsignedIntegerTypes_def signedIntegerTypes_def)
qed

lemma prim_unique: "primAt h p j \<Longrightarrow> primAt h p k \<Longrightarrow> j = k"
  by (auto elim!: primAtE)

section \<open>Assignment of integers\<close>

lemma assignable_prim:
  assumes "primAt h p j" "primAt h q k" "p \<noteq> q"
  shows "isTypeAssignableFrom h N p q =
     assignPrimitive h N j (getPrimitiveTypeSizeFromTag j) k (getPrimitiveTypeSizeFromTag k) q"
proof -
  obtain a t where t: "p = Some a" "typeAt h p = Some t" "body t = Primitive j" "type_size t = getPrimitiveTypeSizeFromTag j"
    using assms(1) by (rule primAtE)
  obtain b u where u: "q = Some b" using assms(2) by (rule primAtE)
  have "assignUnwrapped h N R p q = assignPrimitive h N j (getPrimitiveTypeSizeFromTag j) k (getPrimitiveTypeSizeFromTag k) q" for R
    using t prim_read [OF assms(1)] prim_read [OF assms(2)] by (simp add: assignUnwrapped_def assignTag_def)
  moreover have "constConflict h N p q p q = Some False"
    using prim_follow(5) [OF assms(1)] prim_follow(5) [OF assms(2)] by (simp add: constConflict_def andM_def)
  ultimately have "assignStep h N R p q = assignPrimitive h N j (getPrimitiveTypeSizeFromTag j) k (getPrimitiveTypeSizeFromTag k) q" for R
    using u prim_follow [OF assms(1)] prim_follow [OF assms(2)] prim_read(5,6) [OF assms(1)] assms(3)
    by (simp add: assignStep_def unwrapOptional_def)
  then show ?thesis by (simp add: isTypeAssignableFrom_def assignable.simps)
qed

lemmas integer_types = integerTypes_def unsignedIntegerTypes_def signedIntegerTypes_def

lemma assignPrimitive_size:
  assumes "primAt h q k" "j \<in> set integerTypes" "k \<in> set integerTypes"
  shows "assignPrimitive h N j (getPrimitiveTypeSizeFromTag j) k (getPrimitiveTypeSizeFromTag k) q =
     Some (if j \<in> set signedIntegerTypes \<and> k \<in> set unsignedIntegerTypes
       then getPrimitiveTypeSizeFromTag k < getPrimitiveTypeSizeFromTag j else getPrimitiveTypeSizeFromTag k \<le> getPrimitiveTypeSizeFromTag j)"
  using assms(2,3) prim_classify(1,2) [OF assms(1), of N] by (auto simp: assignPrimitive_def andM_def integerTypes_def)

lemma integer_sizes:
  "\<forall>j\<in>set integerTypes. \<forall>k\<in>set integerTypes.
     (if j \<in> set signedIntegerTypes \<and> k \<in> set unsignedIntegerTypes
      then getPrimitiveTypeSizeFromTag k < getPrimitiveTypeSizeFromTag j else getPrimitiveTypeSizeFromTag k \<le> getPrimitiveTypeSizeFromTag j) =
     (snd (the (minMaxTable k)) \<le> snd (the (minMaxTable j)) \<and>
       (fst (the (minMaxTable j)) \<le> fst (the (minMaxTable k)) \<or> fst (the (minMaxTable j)) = 0))"
  by (simp add: integer_types getPrimitiveTypeSizeFromTag_def minMaxTable_def word_le_nat_alt word_less_nat_alt)

lemma assignPrimitive_integer:
  assumes "primAt h q k" "j \<in> set integerTypes" "k \<in> set integerTypes"
  shows "assignPrimitive h N j (getPrimitiveTypeSizeFromTag j) k (getPrimitiveTypeSizeFromTag k) q =
     Some (snd (the (minMaxTable k)) \<le> snd (the (minMaxTable j)) \<and>
       (fst (the (minMaxTable j)) \<le> fst (the (minMaxTable k)) \<or> fst (the (minMaxTable j)) = 0))"
  using assignPrimitive_size [OF assms, of N] integer_sizes assms(2,3) by simp

text \<open>C7: A variable of an integer type takes a value of another integer type exactly when the greatest value of
  the source is not above that of the target, and the least value is not below that of the target or the target
  is unsigned: values are never lost at the top, and negative values of signed types are let into unsigned types of
  at least the same size.\<close>

theorem integer_assignability:
  assumes "primAt h p j" "primAt h q k" "j \<in> set integerTypes" "k \<in> set integerTypes"
  shows "\<exists>lo hi lo' hi'. getIntegerTypeMinMax h N p = Some (lo, hi) \<and> getIntegerTypeMinMax h N q = Some (lo', hi') \<and>
     isTypeAssignableFrom h N p q = Some (hi' \<le> hi \<and> (lo \<le> lo' \<or> lo = 0))"
proof -
  have tables: "\<exists>lo hi. minMaxTable i = Some (lo, hi)" if "i \<in> set integerTypes" for i
    using that by (auto simp: integer_types minMaxTable_def)
  obtain lo hi lo' hi' where m: "minMaxTable j = Some (lo, hi)" "minMaxTable k = Some (lo', hi')"
    using tables assms(3,4) by meson
  have "isTypeAssignableFrom h N p q = Some (hi' \<le> hi \<and> (lo \<le> lo' \<or> lo = 0))"
  proof (cases "p = q")
    case True
    then have "j = k" using prim_unique [OF assms(1), of k] assms(2) by simp
    then have "lo = lo'" "hi = hi'" using m by simp_all
    then show ?thesis using True prim_follow(1) [OF assms(1), of N]
      by (simp add: isTypeAssignableFrom_def assignable.simps assignStep_def)
  next
    case False
    then show ?thesis using assignable_prim [OF assms(1,2)] assignPrimitive_integer [OF assms(2-4), of N] m by simp
  qed
  then show ?thesis using prim_minMax [OF assms(1)] prim_minMax [OF assms(2)] m by auto
qed

theorem integer_assignability_witness:
  "isTypeAssignableFrom [primitiveType prtU8, primitiveType prtI8] no_nodes (Some 0) (Some 1) = Some True \<and>
   isTypeAssignableFrom [primitiveType prtU8, primitiveType prtI8] no_nodes (Some 1) (Some 0) = Some False"
proof -
  let ?h = "[primitiveType prtU8, primitiveType prtI8]"
  have p: "primAt ?h (Some 0) prtU8" "primAt ?h (Some 1) prtI8"
    by (simp_all add: primAt_def typeAt_def primitiveType_def make_def)
  have i: "prtU8 \<in> set integerTypes" "prtI8 \<in> set integerTypes" by (simp_all add: integer_types)
  show ?thesis
    using integer_assignability [OF p i, of no_nodes] integer_assignability [OF p(2,1) i(2,1), of no_nodes]
      prim_minMax [OF p(1)] prim_minMax [OF p(2)] by (simp add: minMaxTable_def)
qed

section \<open>Promotion of integers\<close>

lemma promote_integers:
  assumes "primAt h p j" "primAt h q k" "j \<in> set integerTypes" "k \<in> set integerTypes"
  shows "promoteType h N prim p q = Some (if getPrimitiveTypeSizeFromTag j \<ge> getPrimitiveTypeSizeFromTag k then p else q)"
proof (cases "p = q")
  case True
  then show ?thesis using prim_follow(1,3) [OF assms(1)] by (simp add: promoteType_def)
next
  case False
  obtain a t where t: "typeAt h p = Some t" "body t = Primitive j" "type_size t = getPrimitiveTypeSizeFromTag j"
    using assms(1) by (rule primAtE)
  obtain b u where u: "typeAt h q = Some u" "type_size u = getPrimitiveTypeSizeFromTag k" using assms(2) by (rule primAtE)
  show ?thesis
    using False t u assms(3,4) prim_follow(1,3) [OF assms(1)] prim_follow(1,3) [OF assms(2)] prim_read(2,7) [OF assms(1)]
      prim_read(2) [OF assms(2)] prim_classify(1,3) [OF assms(2)]
    by (simp add: promoteType_def promotePrimitive_def Let_def)
qed

text \<open>C8: An operation on two integer types is done in one of them: the larger, or the left one if they have the same size. The left
  operand always fits; the right one does too, except when it is unsigned, of the same size as the left one, and the
  left one is signed.\<close>

theorem integer_promotion:
  assumes "primAt h p j" "primAt h q k" "j \<in> set integerTypes" "k \<in> set integerTypes"
  shows "\<exists>r. promoteType h N prim p q = Some r \<and> r \<in> {p, q} \<and> isTypeAssignableFrom h N r p = Some True \<and>
     isTypeAssignableFrom h N r q =
       Some (\<not> (j \<in> set signedIntegerTypes \<and> k \<in> set unsignedIntegerTypes \<and>
         getPrimitiveTypeSizeFromTag j = getPrimitiveTypeSizeFromTag k))"
proof -
  have refl: "isTypeAssignableFrom h N r r = Some True" if "primAt h r i" for r i
    using prim_follow(1) [OF that, of N] by (simp add: isTypeAssignableFrom_def assignable.simps assignStep_def)
  show ?thesis
  proof (cases "getPrimitiveTypeSizeFromTag j \<ge> getPrimitiveTypeSizeFromTag k")
    case True
    have "isTypeAssignableFrom h N p q =
       Some (\<not> (j \<in> set signedIntegerTypes \<and> k \<in> set unsignedIntegerTypes \<and>
         getPrimitiveTypeSizeFromTag j = getPrimitiveTypeSizeFromTag k))"
    proof (cases "p = q")
      case same: True
      then have "j = k" using prim_unique [OF assms(1), of k] assms(2) by simp
      moreover have "\<not> (k \<in> set signedIntegerTypes \<and> k \<in> set unsignedIntegerTypes)" by (cases k) (simp_all add: integer_types)
      ultimately show ?thesis using refl [OF assms(1)] same by auto
    next
      case False
      then show ?thesis using assignable_prim [OF assms(1,2)] assignPrimitive_size [OF assms(2-4), of N] True by auto
    qed
    then show ?thesis using promote_integers [OF assms, of N prim] refl [OF assms(1)] True by simp
  next
    case False
    then have "p \<noteq> q" using prim_unique [OF assms(1), of k] assms(2) by auto
    then have "isTypeAssignableFrom h N q p = Some True"
      using assignable_prim [OF assms(2,1)] assignPrimitive_size [OF assms(1,4,3), of N] False by auto
    then show ?thesis using promote_integers [OF assms, of N prim] refl [OF assms(2)] False by auto
  qed
qed

theorem integer_promotion_witness:
  "\<exists>r. promoteType [primitiveType prtI32, primitiveType prtU32] no_nodes (\<lambda>_. None) (Some 0) (Some 1) = Some r \<and> r \<in> {Some 0, Some 1} \<and>
     isTypeAssignableFrom [primitiveType prtI32, primitiveType prtU32] no_nodes r (Some 0) = Some True \<and>
     isTypeAssignableFrom [primitiveType prtI32, primitiveType prtU32] no_nodes r (Some 1) = Some False"
proof -
  let ?h = "[primitiveType prtI32, primitiveType prtU32]"
  have p: "primAt ?h (Some 0) prtI32" "primAt ?h (Some 1) prtU32"
    by (simp_all add: primAt_def typeAt_def primitiveType_def make_def)
  have i: "prtI32 \<in> set integerTypes" "prtU32 \<in> set integerTypes" by (simp_all add: integer_types)
  show ?thesis
    using integer_promotion [OF p i, of no_nodes "\<lambda>_. None"] by (simp add: integer_types getPrimitiveTypeSizeFromTag_def)
qed

section \<open>Literals\<close>

text \<open>C40: The type of an integer literal, a signed number of 128 bits, has a place for it, and is the smallest such type of 8,
  16, 32 or 128 bits; the type of 64 bits is never chosen.\<close>

theorem literal_type_fits:
  assumes "- (2 ^ 127) \<le> v" "v < 2 ^ 127"
  shows "\<exists>k lo hi. getIntegerTypeForLiteral prim v = prim k \<and> minMaxTable k = Some (lo, hi) \<and> lo \<le> v \<and> v \<le> hi \<and>
     k \<in> {prtI8, prtI16, prtI32, prtI128} \<and>
     (\<forall>j\<in>{prtI8, prtI16, prtI32, prtI128}. \<forall>l u. minMaxTable j = Some (l, u) \<longrightarrow> l \<le> v \<and> v \<le> u \<longrightarrow>
        getPrimitiveTypeSizeFromTag k \<le> getPrimitiveTypeSizeFromTag j)"
proof -
  let ?k = "if - (2 ^ 7) \<le> v \<and> v \<le> 2 ^ 7 - 1 then prtI8 else if - (2 ^ 15) \<le> v \<and> v \<le> 2 ^ 15 - 1 then prtI16
    else if - (2 ^ 31) \<le> v \<and> v \<le> 2 ^ 31 - 1 then prtI32 else prtI128"
  have "getIntegerTypeForLiteral prim v = prim ?k" using assms by (simp add: getIntegerTypeForLiteral_def)
  then show ?thesis using assms
    by (intro exI [of _ ?k] exI [of _ "fst (the (minMaxTable ?k))"] exI [of _ "snd (the (minMaxTable ?k))"])
      (auto simp: minMaxTable_def getPrimitiveTypeSizeFromTag_def word_le_nat_alt)
qed

theorem literal_type_fits_witness:
  "\<exists>k lo hi. getIntegerTypeForLiteral (\<lambda>k. Some (position primTypes k)) (2 ^ 40) = Some (position primTypes k) \<and>
     minMaxTable k = Some (lo, hi) \<and> lo \<le> 2 ^ 40 \<and> 2 ^ 40 \<le> hi \<and> k \<in> {prtI8, prtI16, prtI32, prtI128}"
  using literal_type_fits [of "2 ^ 40" "\<lambda>k. Some (position primTypes k)"] by fastforce

section \<open>Resolution of names\<close>

text \<open>The step from a name to what it stands for: an alias or an information type to its target, a declared opaque type to the
  type of its declaration.\<close>

definition names_next :: "nodes \<Rightarrow> Type \<Rightarrow> tref option" where
  "names_next N t =
     (case body t of
        Alias q \<Rightarrow> Some q
      | Info q \<Rightarrow> Some q
      | Opaque (Some n) \<Rightarrow> if flags t AND flgForwardDecl \<noteq> 0 then Some (node_type (N n)) else None
      | _ \<Rightarrow> None)"

definition well_named :: "heap \<Rightarrow> nodes \<Rightarrow> (nat \<Rightarrow> nat) \<Rightarrow> bool" where
  "well_named h N rank \<longleftrightarrow>
     (\<forall>a<length h. (\<forall>b. names_next N (h ! a) = Some (Some b) \<longrightarrow> b < length h \<and> rank b < rank a) \<and>
        (body (h ! a) = Opaque None \<longrightarrow> flags (h ! a) AND flgForwardDecl = 0))"

text \<open>C9: When no chain of names comes back to its start and no forward declaration is an opaque type without declaration, resolving a type ends, at a type that is not a name and
  resolves to itself, or at the null pointer of an unfinished alias.\<close>

theorem resolveType_ends:
  assumes "well_named h N rank" "a < length h"
  shows "\<exists>r. resolveType h N (Some a) = Some r \<and> resolveType h N r = Some r \<and>
     (\<forall>b. r = Some b \<longrightarrow> b < length h \<and> tag (h ! b) \<noteq> typAlias \<and> tag (h ! b) \<noteq> typInfo)"
  using assms(2)
proof (induction "rank a" arbitrary: a rule: less_induct)
  case less
  have null [simp]: "resolveType h N None = Some None" by (simp add: resolveType.simps)
  have step: "\<exists>r. resolveType h N q = Some r \<and> resolveType h N r = Some r \<and>
      (\<forall>b. r = Some b \<longrightarrow> b < length h \<and> tag (h ! b) \<noteq> typAlias \<and> tag (h ! b) \<noteq> typInfo)"
    if "names_next N (h ! a) = Some q" for q
    using less.hyps less.prems that assms(1) by (cases q) (auto simp: well_named_def)
  have here: "resolveType h N (Some a) = (case body (h ! a) of
            Alias q \<Rightarrow> do { r \<leftarrow> resolveType h N q; resolveType h N r }
          | Info q \<Rightarrow> do { r \<leftarrow> resolveType h N q; resolveType h N r }
          | Opaque d \<Rightarrow>
              if flags (h ! a) AND flgForwardDecl \<noteq> 0
              then do { n \<leftarrow> d; r \<leftarrow> resolveType h N (node_type (N n)); Some (if r = None then Some a else r) }
              else Some (Some a)
          | _ \<Rightarrow> Some (Some a))"
    using less.prems by (subst resolveType.simps) (simp add: typeAt_def split: body.splits)
  show ?case
  proof (cases "names_next N (h ! a)")
    case None
    then have "resolveType h N (Some a) = Some (Some a) \<and> tag (h ! a) \<noteq> typAlias \<and> tag (h ! a) \<noteq> typInfo"
      using less.prems assms(1) unfolding here
      by (cases "body (h ! a)") (auto simp: names_next_def well_named_def tag_def split: option.splits if_splits)
    then show ?thesis using less.prems by auto
  next
    case (Some q)
    from step [OF Some] obtain r where r: "resolveType h N q = Some r" "resolveType h N r = Some r"
      "\<And>b. r = Some b \<Longrightarrow> b < length h \<and> tag (h ! b) \<noteq> typAlias \<and> tag (h ! b) \<noteq> typInfo" by blast
    show ?thesis
    proof (cases "\<exists>d. body (h ! a) = Opaque d \<and> r = None")
      case True
      then have "resolveType h N (Some a) = Some (Some a)" "tag (h ! a) = typOpaque"
        using Some r unfolding here by (auto simp: names_next_def tag_def split: option.splits if_splits)
      then show ?thesis using less.prems by auto
    next
      case False
      then have "resolveType h N (Some a) = Some r"
        using Some r unfolding here by (cases "body (h ! a)") (auto simp: names_next_def split: option.splits if_splits)
      then show ?thesis using r by auto
    qed
  qed
qed

theorem resolveType_ends_witness:
  "\<exists>r. resolveType [primitiveType prtI32, make (Alias (Some 0)), make (Info (Some 1))] no_nodes (Some 2) = Some r \<and> r \<noteq> Some 2"
proof -
  let ?h = "[primitiveType prtI32, make (Alias (Some 0)), make (Info (Some 1))]"
  have "well_named ?h no_nodes (\<lambda>a. a)"
    by (auto simp: well_named_def names_next_def primitiveType_def make_def less_Suc_eq nth_Cons')
  from resolveType_ends [OF this, of 2] show ?thesis by (auto simp: tag_def make_def)
qed

section \<open>Constant pointers\<close>

text \<open>A pointer made constant and a pointer made and then wrapped as constant are the same type for the
  comparison, but have different hashes: the table cannot find the one for the other.\<close>

theorem const_pointers_hash_apart:
  "let h = [primitiveType prtI32, (make (Pointer (Some 0) False))\<lparr>flags := flgConst\<rparr>, make (Pointer (Some 0) False),
            (make (Wrapped (Some 2)))\<lparr>flags := flgConst\<rparr>]
   in compareTypes h no_nodes (Some 1) (Some 3) = Some True \<and>
      hashType h no_nodes hashInit (Some 1) \<noteq> hashType h no_nodes hashInit (Some 3)"
  by code_simp

end
