(* ===== verification/Cxy_PackageFile.thy ===== *)
theory Cxy_PackageFile
  imports Cxy_Resolver Cxy_Scripts Cxy_Validators
begin

text \<open>
  Package files (\<open>package/cxyfile.c\<close>, records of \<open>package/types.h\<close>): reading \<open>Cxyfile.yaml\<close>, validating what was
  read, finding the file, and installing a dependency.

  The text is scanned by libyaml: the input is the list of its events, and whether the list ends with an
  error of the scanner. After the last event the library goes on to answer with an event of no type, here \<open>None\<close>. A
  reader returns the value and the parser behind it, or the error that was logged; reading is a partial function, since
  the loops that skip a value have no test for the end of the events.
\<close>

section \<open>Metadata\<close>

record FileDependency =
  fd_name :: "cstring option"
  fd_repository :: "cstring option"
  fd_version :: "cstring option"
  fd_tag :: "cstring option"
  fd_branch :: "cstring option"
  fd_path :: "cstring option"
  fd_isDev :: bool

record PackageTest =
  test_file :: "cstring option"
  test_args :: "cstring list"
  test_isPattern :: bool

record PackageBuildConfig =
  bc_entry :: "cstring option"
  bc_cLibs :: "cstring list"
  bc_cLibDirs :: "cstring list"
  bc_cHeaderDirs :: "cstring list"
  bc_cDefines :: "cstring list"
  bc_cFlags :: "cstring list"
  bc_defines :: "cstring list"
  bc_flags :: "cstring list"
  bc_pluginsDir :: "cstring option"
  bc_stdlib :: "cstring option"
  bc_output :: "cstring option"

record PackageBuild =
  build_name :: "cstring option"
  build_isDefault :: bool
  build_config :: PackageBuildConfig

record EnvVar =
  env_name :: cstring
  env_value :: cstring

record PackageInstallScript =
  is_name :: "cstring option"
  is_script :: "cstring option"
  is_required :: bool
  is_isPlugin :: bool
  is_pluginEntry :: "cstring option"
  is_pluginInputs :: "cstring list"
  is_pluginArgs :: "cstring list"

record Metadata =
  md_name :: "cstring option"
  md_version :: "cstring option"
  md_description :: "cstring option"
  md_author :: "cstring option"
  md_license :: "cstring option"
  md_repository :: "cstring option"
  md_homepage :: "cstring option"
  md_dependencies :: "FileDependency list"
  md_devDependencies :: "FileDependency list"
  md_tests :: "PackageTest list"
  md_scriptEnv :: "EnvVar list"
  md_scripts :: "PackageScript list"
  md_install :: "PackageInstallScript list"
  md_installDev :: "PackageInstallScript list"
  md_build :: PackageBuildConfig
  md_builds :: "PackageBuild list"
  md_hasMultipleBuilds :: bool

definition zeroDependency :: FileDependency where
  "zeroDependency = \<lparr>fd_name = None, fd_repository = None, fd_version = None, fd_tag = None, fd_branch = None,
     fd_path = None, fd_isDev = False\<rparr>"

definition zeroBuildConfig :: PackageBuildConfig where
  "zeroBuildConfig = \<lparr>bc_entry = None, bc_cLibs = [], bc_cLibDirs = [], bc_cHeaderDirs = [], bc_cDefines = [],
     bc_cFlags = [], bc_defines = [], bc_flags = [], bc_pluginsDir = None, bc_stdlib = None, bc_output = None\<rparr>"

definition zeroInstallScript :: PackageInstallScript where
  "zeroInstallScript = \<lparr>is_name = None, is_script = None, is_required = False, is_isPlugin = False, is_pluginEntry = None,
     is_pluginInputs = [], is_pluginArgs = []\<rparr>"

definition initPackageMetadata :: Metadata where
  "initPackageMetadata = \<lparr>md_name = None, md_version = None, md_description = None, md_author = None, md_license = None,
     md_repository = None, md_homepage = None, md_dependencies = [], md_devDependencies = [], md_tests = [],
     md_scriptEnv = [], md_scripts = [], md_install = [], md_installDev = [], md_build = zeroBuildConfig,
     md_builds = [], md_hasMultipleBuilds = False\<rparr>"

section \<open>Events\<close>

datatype file_error =
  OpenFailed | YamlError | ExpectedScalar | ExpectedSequence | ExpectedString
| ExpectedDependency | ExpectedDependencyField | ExpectedDependencies
| InvalidDependencyName cstring validation_error
| InvalidDependencyRepository cstring validation_error
| InvalidDependencyVersion cstring validation_error
| ExpectedTest | ExpectedTestField | ExpectedTests
| ExpectedScripts | ExpectedScriptName | ExpectedScript | ExpectedScriptField | ExpectedEnv | ExpectedEnvName
| ExpectedBuild | ExpectedBuildField | ExpectedBuilds | ExpectedBuildName | TemplateEntry | TemplateOutput
| ExpectedPackage | ExpectedPackageField
| InvalidName cstring validation_error | InvalidVersion cstring validation_error
| InvalidLicense cstring validation_error | InvalidRepository cstring validation_error
| ExpectedInstallScripts | ExpectedInstallScript | ExpectedInstallField | ExpectedRequired
| ExpectedPlugin | ExpectedPluginField | ExpectedPluginInputs | ExpectedPluginInput | ExpectedPluginArgs | ExpectedPluginArg
| InstallNameMissing | InstallScriptMissing cstring | InstallEntryMissing cstring
| ExpectedStream | ExpectedDocument | ExpectedRoot | ExpectedRootField

record YamlParser =
  yp_event :: "yaml_event option"
  yp_rest :: "yaml_event list"
  yp_broken :: bool

type_synonym 'a reading = "(file_error + 'a \<times> YamlParser) option"

definition parseYamlEvent :: "YamlParser \<Rightarrow> file_error + YamlParser" where
  "parseYamlEvent p =
     (case yp_rest p of
        e # es \<Rightarrow> Inr (p\<lparr>yp_event := Some e, yp_rest := es\<rparr>)
      | [] \<Rightarrow> if yp_broken p then Inl YamlError else Inr (p\<lparr>yp_event := None\<rparr>))"

definition failY :: "file_error \<Rightarrow> 'a reading" where
  "failY e = Some (Inl e)"

definition okY :: "'a \<Rightarrow> YamlParser \<Rightarrow> 'a reading" where
  "okY x p = Some (Inr (x, p))"

definition thenY :: "'a reading \<Rightarrow> ('a \<Rightarrow> YamlParser \<Rightarrow> 'b reading) \<Rightarrow> 'b reading" where
  "thenY r f = Option.bind r (\<lambda>s. case s of Inl e \<Rightarrow> failY e | Inr (x, p) \<Rightarrow> f x p)"

definition nextY :: "YamlParser \<Rightarrow> (YamlParser \<Rightarrow> 'a reading) \<Rightarrow> 'a reading" where
  "nextY p f = (case parseYamlEvent p of Inl e \<Rightarrow> failY e | Inr p \<Rightarrow> f p)"

lemma thenY_mono [partial_function_mono]:
  assumes "mono_option R" "\<And>x p. mono_option (\<lambda>f. F f x p)"
  shows "mono_option (\<lambda>f. thenY (R f) (F f))"
proof -
  have "mono_option (\<lambda>f. case s of Inl e \<Rightarrow> failY e | Inr (x, p) \<Rightarrow> F f x p)" for s
    using assms(2) by (cases s) (auto intro: option.const_mono)
  then show ?thesis unfolding thenY_def by (intro partial_function_mono assms(1)) auto
qed

lemma nextY_mono [partial_function_mono]:
  assumes "\<And>p. mono_option (\<lambda>f. F f p)"
  shows "mono_option (\<lambda>f. nextY p (F f))"
  unfolding nextY_def using assms by (cases "parseYamlEvent p") (auto intro: option.const_mono)

definition scalarOf :: "YamlParser \<Rightarrow> cstring option" where
  "scalarOf p = (case yp_event p of Some (Scalar s) \<Rightarrow> Some s | _ \<Rightarrow> None)"

definition expectScalar :: "YamlParser \<Rightarrow> cstring reading" where
  "expectScalar p = nextY p (\<lambda>p. case scalarOf p of Some s \<Rightarrow> okY s p | None \<Rightarrow> failY ExpectedScalar)"

text \<open>The loops of \<open>skipMapping\<close> and \<open>skipSequence\<close>, with the depth of their own brackets.\<close>

definition openEvent :: "bool \<Rightarrow> yaml_event" where
  "openEvent mapping = (if mapping then MappingStart else SequenceStart)"

definition closeEvent :: "bool \<Rightarrow> yaml_event" where
  "closeEvent mapping = (if mapping then MappingEnd else SequenceEnd)"

partial_function (option) skipLoop :: "bool \<Rightarrow> nat \<Rightarrow> YamlParser \<Rightarrow> unit reading" where
  "skipLoop mapping depth p =
     (if depth = 0 then okY () p
      else nextY p (\<lambda>p.
        if yp_event p = Some (openEvent mapping) then skipLoop mapping (depth + 1) p
        else if yp_event p = Some (closeEvent mapping) then skipLoop mapping (depth - 1) p
        else if yp_event p = Some (openEvent (\<not> mapping))
        then thenY (skipLoop (\<not> mapping) 1 p) (\<lambda>_ p. skipLoop mapping depth p)
        else skipLoop mapping depth p))"

definition skipMapping :: "YamlParser \<Rightarrow> unit reading" where
  "skipMapping p = skipLoop True 1 p"

definition skipSequence :: "YamlParser \<Rightarrow> unit reading" where
  "skipSequence p = skipLoop False 1 p"

definition skipValue :: "YamlParser \<Rightarrow> unit reading" where
  "skipValue p =
     (if yp_event p = Some MappingStart then skipMapping p
      else if yp_event p = Some SequenceStart then skipSequence p
      else okY () p)"

definition skipField :: "'a \<Rightarrow> YamlParser \<Rightarrow> 'a reading" where
  "skipField x p = nextY p (\<lambda>p. thenY (skipValue p) (\<lambda>_ p. okY x p))"

text \<open>The loop over the fields of a mapping, and over the elements of a sequence.\<close>

partial_function (option) mappingLoop ::
  "file_error \<Rightarrow> (cstring \<Rightarrow> 'a \<Rightarrow> YamlParser \<Rightarrow> 'a reading) \<Rightarrow> 'a \<Rightarrow> YamlParser \<Rightarrow> 'a reading" where
  "mappingLoop err field x p =
     nextY p (\<lambda>p.
       if yp_event p = Some MappingEnd then okY x p
       else if scalarOf p = None then failY err
       else thenY (field (the (scalarOf p)) x p) (\<lambda>x p. mappingLoop err field x p))"

partial_function (option) sequenceLoop ::
  "('a \<Rightarrow> YamlParser \<Rightarrow> 'a reading) \<Rightarrow> 'a \<Rightarrow> YamlParser \<Rightarrow> 'a reading" where
  "sequenceLoop element x p =
     nextY p (\<lambda>p.
       if yp_event p = Some SequenceEnd then okY x p
       else thenY (element x p) (\<lambda>x p. sequenceLoop element x p))"

definition parseMapping ::
  "file_error \<Rightarrow> file_error \<Rightarrow> (cstring \<Rightarrow> 'a \<Rightarrow> YamlParser \<Rightarrow> 'a reading) \<Rightarrow> 'a \<Rightarrow> YamlParser \<Rightarrow> 'a reading" where
  "parseMapping err err' field x p =
     nextY p (\<lambda>p. if yp_event p \<noteq> Some MappingStart then failY err else mappingLoop err' field x p)"

definition parseSequence :: "file_error \<Rightarrow> ('a \<Rightarrow> YamlParser \<Rightarrow> 'a reading) \<Rightarrow> 'a \<Rightarrow> YamlParser \<Rightarrow> 'a reading" where
  "parseSequence err element x p =
     nextY p (\<lambda>p. if yp_event p \<noteq> Some SequenceStart then failY err else sequenceLoop element x p)"

definition parseString :: "file_error \<Rightarrow> cstring list \<Rightarrow> YamlParser \<Rightarrow> cstring list reading" where
  "parseString err xs p = (case scalarOf p of Some s \<Rightarrow> okY (xs @ [s]) p | None \<Rightarrow> failY err)"

definition parseStringArray :: "cstring list \<Rightarrow> YamlParser \<Rightarrow> cstring list reading" where
  "parseStringArray xs p = parseSequence ExpectedSequence (parseString ExpectedString) xs p"

text \<open>A scalar or a list of strings for a field of a record.\<close>

definition setScalar :: "(cstring \<Rightarrow> 'a \<Rightarrow> 'a) \<Rightarrow> 'a \<Rightarrow> YamlParser \<Rightarrow> 'a reading" where
  "setScalar upd x p = thenY (expectScalar p) (\<lambda>s p. okY (upd s x) p)"

definition setValid ::
  "(cstring option \<Rightarrow> validation_error option) \<Rightarrow> (cstring \<Rightarrow> validation_error \<Rightarrow> file_error) \<Rightarrow> (cstring \<Rightarrow> 'a \<Rightarrow> 'a) \<Rightarrow>
   'a \<Rightarrow> YamlParser \<Rightarrow> 'a reading" where
  "setValid valid err upd x p =
     thenY (expectScalar p) (\<lambda>s p. case valid (Some s) of Some e \<Rightarrow> failY (err s e) | None \<Rightarrow> okY (upd s x) p)"

definition setStrings :: "('a \<Rightarrow> cstring list) \<Rightarrow> (cstring list \<Rightarrow> 'a \<Rightarrow> 'a) \<Rightarrow> 'a \<Rightarrow> YamlParser \<Rightarrow> 'a reading" where
  "setStrings get upd x p = thenY (parseStringArray (get x) p) (\<lambda>ss p. okY (upd ss x) p)"

section \<open>Dependencies and tests\<close>

text \<open>The version behind the operator of a constraint.\<close>

definition constraintBase :: "cstring \<Rightarrow> cstring" where
  "constraintBase s =
     dropWhile (\<lambda>c. c = CHR '' '')
       (if cur s = CHR ''^'' \<or> cur s = CHR ''~'' then tl s
        else if length s \<ge> 2 \<and> (cur s = CHR ''>'' \<or> cur s = CHR ''<'')
        then (if s ! 1 = CHR ''='' then drop 2 s else tl s)
        else s)"

definition validateConstraint :: "cstring option \<Rightarrow> validation_error option" where
  "validateConstraint version =
     (if version = Some ''*'' then None else validateSemanticVersion (map_option constraintBase version))"

definition dependencyField :: "cstring \<Rightarrow> FileDependency \<Rightarrow> YamlParser \<Rightarrow> FileDependency reading" where
  "dependencyField key d p =
     (if key = ''name'' then setValid validatePackageName InvalidDependencyName (\<lambda>s d. d\<lparr>fd_name := Some s\<rparr>) d p
      else if key = ''repository''
      then setValid validateGitRepository InvalidDependencyRepository (\<lambda>s d. d\<lparr>fd_repository := Some s\<rparr>) d p
      else if key = ''version''
      then setValid validateConstraint InvalidDependencyVersion (\<lambda>s d. d\<lparr>fd_version := Some s\<rparr>) d p
      else if key = ''tag'' then setScalar (\<lambda>s d. d\<lparr>fd_tag := Some s\<rparr>) d p
      else if key = ''branch'' then setScalar (\<lambda>s d. d\<lparr>fd_branch := Some s\<rparr>) d p
      else if key = ''path'' then setScalar (\<lambda>s d. d\<lparr>fd_path := Some s\<rparr>) d p
      else skipField d p)"

definition parseDependency :: "FileDependency list \<Rightarrow> YamlParser \<Rightarrow> FileDependency list reading" where
  "parseDependency deps p =
     (if yp_event p \<noteq> Some MappingStart then failY ExpectedDependency
      else thenY (mappingLoop ExpectedDependencyField dependencyField zeroDependency p) (\<lambda>d p. okY (deps @ [d]) p))"

definition parseDependencies :: "FileDependency list \<Rightarrow> YamlParser \<Rightarrow> FileDependency list reading" where
  "parseDependencies deps p = parseSequence ExpectedDependencies parseDependency deps p"

definition setTestFile :: "cstring \<Rightarrow> PackageTest \<Rightarrow> PackageTest" where
  "setTestFile s test = test\<lparr>test_file := Some s, test_isPattern := CHR ''*'' \<in> set s\<rparr>"

definition testField :: "cstring \<Rightarrow> PackageTest \<Rightarrow> YamlParser \<Rightarrow> PackageTest reading" where
  "testField key test p =
     (if key = ''file'' then setScalar setTestFile test p
      else if key = ''args'' then setStrings test_args (\<lambda>ss test. test\<lparr>test_args := ss\<rparr>) test p
      else skipField test p)"

definition zeroTest :: PackageTest where
  "zeroTest = \<lparr>test_file = None, test_args = [], test_isPattern = False\<rparr>"

definition parseTest :: "PackageTest list \<Rightarrow> YamlParser \<Rightarrow> PackageTest list reading" where
  "parseTest tests p =
     (case scalarOf p of
        Some s \<Rightarrow> okY (tests @ [setTestFile s zeroTest]) p
      | None \<Rightarrow>
          if yp_event p = Some MappingStart
          then thenY (mappingLoop ExpectedTestField testField zeroTest p) (\<lambda>test p. okY (tests @ [test]) p)
          else failY ExpectedTest)"

definition parseTests :: "PackageTest list \<Rightarrow> YamlParser \<Rightarrow> PackageTest list reading" where
  "parseTests tests p = parseSequence ExpectedTests parseTest tests p"

section \<open>Scripts\<close>

definition envField :: "cstring \<Rightarrow> EnvVar list \<Rightarrow> YamlParser \<Rightarrow> EnvVar list reading" where
  "envField name env p = setScalar (\<lambda>s env. env @ [\<lparr>env_name = name, env_value = s\<rparr>]) env p"

definition scriptField :: "cstring \<Rightarrow> PackageScript \<Rightarrow> YamlParser \<Rightarrow> PackageScript reading" where
  "scriptField key script p =
     (if key = ''command'' then setScalar (\<lambda>s script. script\<lparr>command := Some s\<rparr>) script p
      else if key = ''depends'' \<or> key = ''dependencies''
      then setStrings dependencies (\<lambda>ss script. script\<lparr>dependencies := ss\<rparr>) script p
      else if key = ''inputs'' then setStrings inputs (\<lambda>ss script. script\<lparr>inputs := ss\<rparr>) script p
      else if key = ''outputs'' then setStrings outputs (\<lambda>ss script. script\<lparr>outputs := ss\<rparr>) script p
      else skipField script p)"

definition zeroScript :: "cstring \<Rightarrow> PackageScript" where
  "zeroScript name = \<lparr>script_name = name, command = None, dependencies = [], inputs = [], outputs = []\<rparr>"

text \<open>The scripts and the environment are read together: the name \<open>env\<close> is not a script.\<close>

definition scriptsField ::
  "cstring \<Rightarrow> PackageScript list \<times> EnvVar list \<Rightarrow> YamlParser \<Rightarrow> (PackageScript list \<times> EnvVar list) reading" where
  "scriptsField name se p =
     (if name = ''env''
      then thenY (parseMapping ExpectedEnv ExpectedEnvName envField (snd se) p) (\<lambda>env p. okY (fst se, env) p)
      else nextY p (\<lambda>p.
        case scalarOf p of
          Some s \<Rightarrow> okY (fst se @ [(zeroScript name)\<lparr>command := Some s\<rparr>], snd se) p
        | None \<Rightarrow>
            if yp_event p = Some MappingStart
            then thenY (mappingLoop ExpectedScriptField scriptField (zeroScript name) p)
              (\<lambda>script p. okY (fst se @ [script], snd se) p)
            else failY ExpectedScript))"

definition parseScripts ::
  "PackageScript list \<times> EnvVar list \<Rightarrow> YamlParser \<Rightarrow> (PackageScript list \<times> EnvVar list) reading" where
  "parseScripts se p = parseMapping ExpectedScripts ExpectedScriptName scriptsField se p"

section \<open>Builds\<close>

definition buildConfigField :: "cstring \<Rightarrow> PackageBuildConfig \<Rightarrow> YamlParser \<Rightarrow> PackageBuildConfig reading" where
  "buildConfigField key c p =
     (if key = ''entry'' then setScalar (\<lambda>s c. c\<lparr>bc_entry := Some s\<rparr>) c p
      else if key = ''output'' then setScalar (\<lambda>s c. c\<lparr>bc_output := Some s\<rparr>) c p
      else if key = ''c-libs'' then setStrings bc_cLibs (\<lambda>ss c. c\<lparr>bc_cLibs := ss\<rparr>) c p
      else if key = ''c-lib-dirs'' then setStrings bc_cLibDirs (\<lambda>ss c. c\<lparr>bc_cLibDirs := ss\<rparr>) c p
      else if key = ''c-header-dirs'' then setStrings bc_cHeaderDirs (\<lambda>ss c. c\<lparr>bc_cHeaderDirs := ss\<rparr>) c p
      else if key = ''c-defines'' then setStrings bc_cDefines (\<lambda>ss c. c\<lparr>bc_cDefines := ss\<rparr>) c p
      else if key = ''c-flags'' then setStrings bc_cFlags (\<lambda>ss c. c\<lparr>bc_cFlags := ss\<rparr>) c p
      else if key = ''defines'' then setStrings bc_defines (\<lambda>ss c. c\<lparr>bc_defines := ss\<rparr>) c p
      else if key = ''flags'' then setStrings bc_flags (\<lambda>ss c. c\<lparr>bc_flags := ss\<rparr>) c p
      else if key = ''plugins-dir'' then setScalar (\<lambda>s c. c\<lparr>bc_pluginsDir := Some s\<rparr>) c p
      else if key = ''stdlib'' then setScalar (\<lambda>s c. c\<lparr>bc_stdlib := Some s\<rparr>) c p
      else skipField c p)"

definition parseBuildConfig :: "PackageBuildConfig \<Rightarrow> YamlParser \<Rightarrow> PackageBuildConfig reading" where
  "parseBuildConfig c p = parseMapping ExpectedBuild ExpectedBuildField buildConfigField c p"

definition namedBuildField :: "bool \<Rightarrow> cstring \<Rightarrow> PackageBuild \<Rightarrow> YamlParser \<Rightarrow> PackageBuild reading" where
  "namedBuildField isTemplate key b p =
     (if key = ''default'' then setScalar (\<lambda>s b. b\<lparr>build_isDefault := (s = ''true'')\<rparr>) b p
      else if key = ''entry'' \<and> isTemplate then failY TemplateEntry
      else if key = ''output'' \<and> isTemplate then failY TemplateOutput
      else thenY (buildConfigField key (build_config b) p) (\<lambda>c p. okY (b\<lparr>build_config := c\<rparr>) p))"

definition parseNamedBuild :: "bool \<Rightarrow> YamlParser \<Rightarrow> PackageBuild reading" where
  "parseNamedBuild isTemplate p =
     parseMapping ExpectedBuild ExpectedBuildField (namedBuildField isTemplate)
       \<lparr>build_name = None, build_isDefault = False, build_config = zeroBuildConfig\<rparr> p"

definition buildsField :: "cstring \<Rightarrow> PackageBuild list \<Rightarrow> YamlParser \<Rightarrow> PackageBuild list reading" where
  "buildsField name builds p =
     thenY (parseNamedBuild (cur name = CHR ''_'') p)
       (\<lambda>b p. okY (if cur name = CHR ''_'' then builds else builds @ [b\<lparr>build_name := Some name\<rparr>]) p)"

definition parseBuilds :: "PackageBuild list \<Rightarrow> YamlParser \<Rightarrow> PackageBuild list reading" where
  "parseBuilds builds p = parseMapping ExpectedBuilds ExpectedBuildName buildsField builds p"

section \<open>Installation scripts\<close>

definition pluginField :: "cstring \<Rightarrow> PackageInstallScript \<Rightarrow> YamlParser \<Rightarrow> PackageInstallScript reading" where
  "pluginField key script p =
     (if key = ''entry'' then setScalar (\<lambda>s script. script\<lparr>is_pluginEntry := Some s\<rparr>) script p
      else if key = ''inputs''
      then thenY (parseSequence ExpectedPluginInputs (parseString ExpectedPluginInput) (is_pluginInputs script) p)
        (\<lambda>ss p. okY (script\<lparr>is_pluginInputs := ss\<rparr>) p)
      else if key = ''args''
      then thenY (parseSequence ExpectedPluginArgs (parseString ExpectedPluginArg) (is_pluginArgs script) p)
        (\<lambda>ss p. okY (script\<lparr>is_pluginArgs := ss\<rparr>) p)
      else skipField script p)"

definition installField :: "cstring \<Rightarrow> PackageInstallScript \<Rightarrow> YamlParser \<Rightarrow> PackageInstallScript reading" where
  "installField key script p =
     (if key = ''name'' then setScalar (\<lambda>s script. script\<lparr>is_name := Some s\<rparr>) script p
      else if key = ''script'' then setScalar (\<lambda>s script. script\<lparr>is_script := Some s\<rparr>) script p
      else if key = ''plugin''
      then parseMapping ExpectedPlugin ExpectedPluginField pluginField
        (script\<lparr>is_isPlugin := True, is_pluginInputs := [], is_pluginArgs := []\<rparr>) p
      else if key = ''required''
      then nextY p (\<lambda>p.
        case scalarOf p of
          Some s \<Rightarrow> okY (script\<lparr>is_required := (s = ''true'' \<or> s = ''yes'')\<rparr>) p
        | None \<Rightarrow> failY ExpectedRequired)
      else skipField script p)"

definition missing :: "cstring option \<Rightarrow> bool" where
  "missing s \<longleftrightarrow> s = None \<or> s = Some []"

definition checkInstallScript :: "PackageInstallScript \<Rightarrow> file_error option" where
  "checkInstallScript script =
     (if missing (is_name script) then Some InstallNameMissing
      else if \<not> is_isPlugin script \<and> missing (is_script script) then Some (InstallScriptMissing (the (is_name script)))
      else if is_isPlugin script \<and> missing (is_pluginEntry script) then Some (InstallEntryMissing (the (is_name script)))
      else None)"

definition parseInstallScript :: "PackageInstallScript list \<Rightarrow> YamlParser \<Rightarrow> PackageInstallScript list reading" where
  "parseInstallScript scripts p =
     (if yp_event p \<noteq> Some MappingStart then failY ExpectedInstallScript
      else thenY (mappingLoop ExpectedInstallField installField zeroInstallScript p)
        (\<lambda>script p. case checkInstallScript script of Some e \<Rightarrow> failY e | None \<Rightarrow> okY (scripts @ [script]) p))"

definition parseInstallScripts :: "PackageInstallScript list \<Rightarrow> YamlParser \<Rightarrow> PackageInstallScript list reading" where
  "parseInstallScripts scripts p = parseSequence ExpectedInstallScripts parseInstallScript scripts p"

section \<open>The file\<close>

definition packageField :: "cstring \<Rightarrow> Metadata \<Rightarrow> YamlParser \<Rightarrow> Metadata reading" where
  "packageField key meta p =
     (if key = ''name'' then setValid validatePackageName InvalidName (\<lambda>s meta. meta\<lparr>md_name := Some s\<rparr>) meta p
      else if key = ''version'' then setValid validateSemanticVersion InvalidVersion (\<lambda>s meta. meta\<lparr>md_version := Some s\<rparr>) meta p
      else if key = ''description'' then setScalar (\<lambda>s meta. meta\<lparr>md_description := Some s\<rparr>) meta p
      else if key = ''author'' then setScalar (\<lambda>s meta. meta\<lparr>md_author := Some s\<rparr>) meta p
      else if key = ''license'' then setValid validateLicenseIdentifier InvalidLicense (\<lambda>s meta. meta\<lparr>md_license := Some s\<rparr>) meta p
      else if key = ''repository'' then setValid validateGitRepository InvalidRepository (\<lambda>s meta. meta\<lparr>md_repository := Some s\<rparr>) meta p
      else if key = ''homepage'' then setScalar (\<lambda>s meta. meta\<lparr>md_homepage := Some s\<rparr>) meta p
      else skipField meta p)"

definition parsePackageSection :: "Metadata \<Rightarrow> YamlParser \<Rightarrow> Metadata reading" where
  "parsePackageSection meta p = parseMapping ExpectedPackage ExpectedPackageField packageField meta p"

definition rootField :: "cstring \<Rightarrow> Metadata \<Rightarrow> YamlParser \<Rightarrow> Metadata reading" where
  "rootField key meta p =
     (if key = ''package'' then parsePackageSection meta p
      else if key = ''dependencies''
      then thenY (parseDependencies (md_dependencies meta) p) (\<lambda>ds p. okY (meta\<lparr>md_dependencies := ds\<rparr>) p)
      else if key = ''dev-dependencies''
      then thenY (parseDependencies (md_devDependencies meta) p) (\<lambda>ds p. okY (meta\<lparr>md_devDependencies := ds\<rparr>) p)
      else if key = ''tests'' then thenY (parseTests (md_tests meta) p) (\<lambda>ts p. okY (meta\<lparr>md_tests := ts\<rparr>) p)
      else if key = ''scripts''
      then thenY (parseScripts (md_scripts meta, md_scriptEnv meta) p)
        (\<lambda>se p. okY (meta\<lparr>md_scripts := fst se, md_scriptEnv := snd se\<rparr>) p)
      else if key = ''install'' then thenY (parseInstallScripts (md_install meta) p) (\<lambda>ss p. okY (meta\<lparr>md_install := ss\<rparr>) p)
      else if key = ''install-dev''
      then thenY (parseInstallScripts (md_installDev meta) p) (\<lambda>ss p. okY (meta\<lparr>md_installDev := ss\<rparr>) p)
      else if key = ''build''
      then thenY (parseBuildConfig (md_build meta) p) (\<lambda>c p. okY (meta\<lparr>md_build := c, md_hasMultipleBuilds := False\<rparr>) p)
      else if key = ''builds''
      then thenY (parseBuilds (md_builds meta) p) (\<lambda>bs p. okY (meta\<lparr>md_builds := bs, md_hasMultipleBuilds := True\<rparr>) p)
      else skipField meta p)"

text \<open>The file is the events of its text and whether they end in an error, or cannot be opened.\<close>

definition parseCxyfile :: "(yaml_event list \<times> bool) option \<Rightarrow> (file_error + Metadata) option" where
  "parseCxyfile file =
     (case file of
        None \<Rightarrow> Some (Inl OpenFailed)
      | Some (events, bad) \<Rightarrow>
          map_option (map_sum id fst)
            (nextY \<lparr>yp_event = None, yp_rest = events, yp_broken = bad\<rparr> (\<lambda>p.
               if yp_event p \<noteq> Some StreamStart then failY ExpectedStream
               else nextY p (\<lambda>p.
                 if yp_event p \<noteq> Some DocumentStart then failY ExpectedDocument
                 else parseMapping ExpectedRoot ExpectedRootField rootField initPackageMetadata p))))"

lemmas packageFileFunctions [code] = skipLoop.simps mappingLoop.simps sequenceLoop.simps

end
