(* ===== verification/Cxy_PackageTree.thy ===== *)
theory Cxy_PackageTree
  imports Cxy_PackageFile
begin

text \<open>
  The meaning of a package file as a tree of YAML values, and the proof that the reader of events agrees with it: the
  readers of \<open>Cxy_PackageFile\<close> pull events one by one, with brackets to be counted and unknown fields to be
  skipped; on the events of any tree they return, and give the value or the error that reading the tree gives.

  The contract of a reader is stated three times as a locale: for a value that follows, for the fields of a mapping and
  for the elements of a sequence. The loops over mappings and sequences keep it.
\<close>

section \<open>Values\<close>

datatype yaml = YScalar cstring | YAlias cstring | YSeq "yaml list" | YMap "(yaml \<times> yaml) list"

fun eventsOf :: "yaml \<Rightarrow> yaml_event list" where
  "eventsOf (YScalar s) = [Scalar s]"
| "eventsOf (YAlias s) = [Alias s]"
| "eventsOf (YSeq vs) = SequenceStart # concat (map eventsOf vs) @ [SequenceEnd]"
| "eventsOf (YMap kvs) = MappingStart # concat (map (\<lambda>(k, v). eventsOf k @ eventsOf v) kvs) @ [MappingEnd]"

definition thenE :: "'e + 'a \<Rightarrow> ('a \<Rightarrow> 'e + 'b) \<Rightarrow> 'e + 'b" where
  "thenE s f = (case s of Inl e \<Rightarrow> Inl e | Inr x \<Rightarrow> f x)"

definition readScalar :: "file_error \<Rightarrow> yaml \<Rightarrow> file_error + cstring" where
  "readScalar err v = (case v of YScalar s \<Rightarrow> Inr s | _ \<Rightarrow> Inl err)"

fun readFields :: "file_error \<Rightarrow> (cstring \<Rightarrow> 'a \<Rightarrow> yaml \<Rightarrow> file_error + 'a) \<Rightarrow> 'a \<Rightarrow> (yaml \<times> yaml) list \<Rightarrow> file_error + 'a" where
  "readFields err field x [] = Inr x"
| "readFields err field x ((k, v) # kvs) =
     thenE (readScalar err k) (\<lambda>key. thenE (field key x v) (\<lambda>x. readFields err field x kvs))"

definition readMapping ::
  "file_error \<Rightarrow> file_error \<Rightarrow> (cstring \<Rightarrow> 'a \<Rightarrow> yaml \<Rightarrow> file_error + 'a) \<Rightarrow> 'a \<Rightarrow> yaml \<Rightarrow> file_error + 'a" where
  "readMapping err err' field x v = (case v of YMap kvs \<Rightarrow> readFields err' field x kvs | _ \<Rightarrow> Inl err)"

fun readElements :: "('a \<Rightarrow> yaml \<Rightarrow> file_error + 'a) \<Rightarrow> 'a \<Rightarrow> yaml list \<Rightarrow> file_error + 'a" where
  "readElements element x [] = Inr x"
| "readElements element x (v # vs) = thenE (element x v) (\<lambda>x. readElements element x vs)"

definition readSequence :: "file_error \<Rightarrow> ('a \<Rightarrow> yaml \<Rightarrow> file_error + 'a) \<Rightarrow> 'a \<Rightarrow> yaml \<Rightarrow> file_error + 'a" where
  "readSequence err element x v = (case v of YSeq vs \<Rightarrow> readElements element x vs | _ \<Rightarrow> Inl err)"

section \<open>Agreement\<close>

definition moved :: "YamlParser \<Rightarrow> yaml_event option \<Rightarrow> yaml_event list \<Rightarrow> YamlParser" where
  "moved p ev r = \<lparr>yp_event = ev, yp_rest = r, yp_broken = yp_broken p\<rparr>"

lemma moved_simps [simp]:
  "moved (moved p ev r) ev' r' = moved p ev' r'" "yp_rest (moved p ev r) = r" "yp_event (moved p ev r) = ev"
  by (simp_all add: moved_def)

lemma moved_self: "moved p (yp_event p) (yp_rest p) = p"
  by (simp add: moved_def)

text \<open>A reading agrees with the value of a tree if it gives the same error, or the same result at the events behind it.\<close>

definition agrees :: "'a reading \<Rightarrow> YamlParser \<Rightarrow> yaml_event list \<Rightarrow> file_error + 'a \<Rightarrow> bool" where
  "agrees res p r s \<longleftrightarrow> (case s of Inl e \<Rightarrow> res = failY e | Inr x \<Rightarrow> \<exists>ev. res = okY x (moved p ev r))"

lemma agrees_fail [simp]: "agrees (failY e) p r (Inl e)"
  by (simp add: agrees_def)

lemma agrees_moved [simp]: "agrees res (moved p ev q) r s \<longleftrightarrow> agrees res p r s"
  by (cases s) (simp_all add: agrees_def)

lemma agrees_ok [simp]: "agrees (okY x (moved p ev r)) p r (Inr x)"
  by (auto simp: agrees_def)

lemma agrees_here: "yp_rest p = r \<Longrightarrow> agrees (okY x p) p r (Inr x)"
  by (metis agrees_ok moved_self)

lemma thenY_simps [simp]: "thenY (failY e) f = failY e" "thenY (okY x p) f = f x p"
  by (simp_all add: thenY_def failY_def okY_def)

lemma thenE_simps [simp]: "thenE (Inl e) f = Inl e" "thenE (Inr x) f = f x"
  by (simp_all add: thenE_def)

lemma agrees_then:
  assumes "agrees res p r s" "\<And>x q. yp_rest q = r \<Longrightarrow> agrees (f x q) q r' (g x)"
  shows "agrees (thenY res f) p r' (thenE s g)"
proof (cases s)
  case (Inl e)
  then show ?thesis using assms(1) by (simp add: agrees_def)
next
  case (Inr x)
  then obtain ev where "res = okY x (moved p ev r)" using assms(1) by (auto simp: agrees_def)
  then show ?thesis using assms(2) [of "moved p ev r" x] Inr by simp
qed

lemma nextY_Cons: "yp_rest p = e # es \<Longrightarrow> nextY p f = f (moved p (Some e) es)"
  by (cases p) (simp add: nextY_def parseYamlEvent_def moved_def)

lemma nextY_event: "nextY (moved p ev (yp_rest p)) f = nextY p f"
  by (cases p) (simp add: nextY_def parseYamlEvent_def moved_def split: list.splits)

lemma scalarOf_simps [simp]:
  "scalarOf (moved p (Some (Scalar s)) r) = Some s" "scalarOf (moved p (Some (Alias s)) r) = None"
  "scalarOf (moved p (Some MappingStart) r) = None" "scalarOf (moved p (Some SequenceStart) r) = None"
  by (simp_all add: scalarOf_def)

section \<open>Skipping\<close>

text \<open>Inside brackets the current event is not looked at.\<close>

lemma skipLoop_event: "skipLoop m (Suc d) p = skipLoop m (Suc d) (moved p ev (yp_rest p))"
  by (subst (1 2) skipLoop.simps) (simp only: nextY_event nat.simps if_False)

lemma skipLoop_0: "skipLoop m 0 p = okY () p"
  by (simp add: skipLoop.simps)

lemma skipLoop_next:
  assumes "yp_rest p = e # es"
  shows "skipLoop m (Suc d) p =
     (if e = openEvent m then skipLoop m (Suc (Suc d)) (moved p (Some e) es)
      else if e = closeEvent m then skipLoop m d (moved p (Some e) es)
      else if e = openEvent (\<not> m) then thenY (skipLoop (\<not> m) 1 (moved p (Some e) es)) (\<lambda>_ p. skipLoop m (Suc d) p)
      else skipLoop m (Suc d) (moved p (Some e) es))"
  by (subst skipLoop.simps) (simp add: nextY_Cons [OF assms])

text \<open>The loop passes over a value.\<close>

definition passes :: "yaml \<Rightarrow> bool" where
  "passes v \<longleftrightarrow> (\<forall>m d p r ev. yp_rest p = eventsOf v @ r \<longrightarrow> skipLoop m (Suc d) p = skipLoop m (Suc d) (moved p ev r))"

lemma passesD: "passes v \<Longrightarrow> yp_rest p = eventsOf v @ r \<Longrightarrow> skipLoop m (Suc d) p = skipLoop m (Suc d) (moved p ev r)"
  by (simp add: passes_def)

lemma skipLoop_concat:
  assumes "\<forall>v\<in>set vs. passes v" "yp_rest p = concat (map eventsOf vs) @ r"
  shows "skipLoop m (Suc d) p = skipLoop m (Suc d) (moved p ev r)"
  using assms
proof (induction vs arbitrary: p)
  case Nil
  then show ?case using skipLoop_event [of m d p ev] by simp
next
  case (Cons v vs)
  have "skipLoop m (Suc d) p = skipLoop m (Suc d) (moved p ev (concat (map eventsOf vs) @ r))"
    using Cons.prems by (intro passesD [of v]) auto
  also have "\<dots> = skipLoop m (Suc d) (moved p ev r)"
    using Cons.IH [of "moved p ev (concat (map eventsOf vs) @ r)"] Cons.prems(1) by simp
  finally show ?case .
qed

lemma skipLoop_brackets:
  assumes v: "\<forall>v\<in>set vs. passes v" and p: "yp_rest p = openEvent k # concat (map eventsOf vs) @ closeEvent k # r"
  shows "skipLoop m (Suc d) p = skipLoop m (Suc d) (moved p ev r)"
proof -
  let ?q = "moved p (Some (openEvent k)) (concat (map eventsOf vs) @ closeEvent k # r)"
  let ?c = "moved p ev (closeEvent k # r)"
  have inside: "skipLoop m' (Suc d') ?q = skipLoop m' (Suc d') ?c" for m' d'
    using skipLoop_concat [OF v, of ?q "closeEvent k # r" m' d' ev] by simp
  have close: "skipLoop k (Suc d') ?c = skipLoop k d' (moved p (Some (closeEvent k)) r)" for d'
    using skipLoop_next [of ?c "closeEvent k" r k d'] by (cases k) (simp_all add: openEvent_def closeEvent_def)
  have out: "skipLoop m (Suc d) (moved p (Some (closeEvent k)) r) = skipLoop m (Suc d) (moved p ev r)"
    using skipLoop_event [of m d "moved p (Some (closeEvent k)) r" ev] by simp
  show ?thesis
  proof (cases "m = k")
    case True
    then have "skipLoop m (Suc d) p = skipLoop k (Suc (Suc d)) ?q" using skipLoop_next [OF p, of k d] by simp
    then show ?thesis using inside [of k "Suc d"] close out True by simp
  next
    case False
    then have k: "k = (\<not> m)" by auto
    have "skipLoop m (Suc d) p = thenY (skipLoop k 1 ?q) (\<lambda>_ p. skipLoop m (Suc d) p)"
      using skipLoop_next [OF p, of m d] unfolding k by (cases m) (simp_all add: openEvent_def closeEvent_def)
    then show ?thesis using inside [of k 0] close [of 0] out by (simp add: skipLoop_0)
  qed
qed

lemma passes_value: "passes v"
proof (induction v)
  case (YSeq vs)
  then have "\<forall>v\<in>set vs. passes v" by blast
  from skipLoop_brackets [OF this, of _ False] show ?case
    by (simp add: passes_def openEvent_def closeEvent_def)
next
  case (YMap kvs)
  let ?vs = "concat (map (\<lambda>(k, v). [k, v]) kvs)"
  have events: "concat (map eventsOf ?vs) = concat (map (\<lambda>(k, v). eventsOf k @ eventsOf v) kvs)"
    by (induction kvs) auto
  have "\<forall>v\<in>set ?vs. passes v" using YMap.IH by fastforce
  from skipLoop_brackets [OF this, of _ True, unfolded events] show ?case
    by (simp add: passes_def openEvent_def closeEvent_def)
next
  case (YScalar s)
  then show ?case unfolding passes_def
  proof (intro allI impI)
    fix m d and p :: YamlParser and r ev assume "yp_rest p = eventsOf (YScalar s) @ r"
    then show "skipLoop m (Suc d) p = skipLoop m (Suc d) (moved p ev r)"
      using skipLoop_next [of p "Scalar s" r m d] skipLoop_event [of m d "moved p (Some (Scalar s)) r" ev]
      by (simp add: openEvent_def closeEvent_def split: if_splits)
  qed
next
  case (YAlias s)
  then show ?case unfolding passes_def
  proof (intro allI impI)
    fix m d and p :: YamlParser and r ev assume "yp_rest p = eventsOf (YAlias s) @ r"
    then show "skipLoop m (Suc d) p = skipLoop m (Suc d) (moved p ev r)"
      using skipLoop_next [of p "Alias s" r m d] skipLoop_event [of m d "moved p (Some (Alias s)) r" ev]
      by (simp add: openEvent_def closeEvent_def split: if_splits)
  qed
qed

lemma skipValue_events:
  assumes "yp_event p = Some (hd (eventsOf v))" "yp_rest p = tl (eventsOf v) @ r"
  shows "\<exists>ev. skipValue p = okY () (moved p ev r)"
proof -
  have brackets: "skipLoop k (Suc 0) p = okY () (moved p (Some (closeEvent k)) r)"
    if "yp_rest p = concat (map eventsOf vs) @ closeEvent k # r" for k vs
  proof -
    have "skipLoop k (Suc 0) p = skipLoop k (Suc 0) (moved p None (closeEvent k # r))"
      using that by (intro skipLoop_concat) (auto intro: passes_value)
    then show ?thesis
      using skipLoop_next [of "moved p None (closeEvent k # r)" "closeEvent k" r k 0]
      by (cases k) (simp_all add: openEvent_def closeEvent_def skipLoop_0)
  qed
  show ?thesis
  proof (cases v)
    case (YSeq vs)
    then show ?thesis using assms brackets [of vs False] by (auto simp: skipValue_def skipSequence_def closeEvent_def)
  next
    case (YMap kvs)
    have "concat (map eventsOf (concat (map (\<lambda>(k, v). [k, v]) kvs))) = concat (map (\<lambda>(k, v). eventsOf k @ eventsOf v) kvs)"
      by (induction kvs) auto
    then show ?thesis
      using YMap assms brackets [of "concat (map (\<lambda>(k, v). [k, v]) kvs)" True]
      by (auto simp: skipValue_def skipMapping_def closeEvent_def)
  next
    case (YScalar s)
    then show ?thesis using assms moved_self [of p] by (auto simp: skipValue_def intro: exI [of _ "Some (Scalar s)"])
  next
    case (YAlias s)
    then show ?thesis using assms moved_self [of p] by (auto simp: skipValue_def intro: exI [of _ "Some (Alias s)"])
  qed
qed

lemma eventsOf_ne [simp]: "eventsOf v \<noteq> []" "hd (eventsOf v) \<noteq> MappingEnd" "hd (eventsOf v) \<noteq> SequenceEnd"
  by (cases v; simp)+

lemma nextY_value: "yp_rest p = eventsOf v @ r \<Longrightarrow> nextY p f = f (moved p (Some (hd (eventsOf v))) (tl (eventsOf v) @ r))"
  by (cases "eventsOf v") (simp_all add: nextY_Cons)

section \<open>Contracts of readers\<close>

text \<open>A reader of the value that follows.\<close>

locale reads_value =
  fixes parse :: "'a \<Rightarrow> YamlParser \<Rightarrow> 'b reading" and get :: "'a \<Rightarrow> yaml \<Rightarrow> file_error + 'b"
  assumes reads: "yp_rest p = eventsOf v @ r \<Longrightarrow> agrees (parse x p) p r (get x v)"

text \<open>A reader of the elements of a sequence, called at the first event of an element.\<close>

locale reads_element =
  fixes element :: "'a \<Rightarrow> YamlParser \<Rightarrow> 'a reading" and get :: "'a \<Rightarrow> yaml \<Rightarrow> file_error + 'a"
  assumes element: "yp_event p = Some (hd (eventsOf v)) \<Longrightarrow> yp_rest p = tl (eventsOf v) @ r \<Longrightarrow> agrees (element x p) p r (get x v)"
begin

lemma sequence_loop:
  "yp_rest p = concat (map eventsOf vs) @ SequenceEnd # r \<Longrightarrow> agrees (sequenceLoop element x p) p r (readElements get x vs)"
proof (induction vs arbitrary: x p)
  case Nil
  then show ?case by (subst sequenceLoop.simps) (simp add: nextY_Cons)
next
  case (Cons v vs)
  let ?q = "moved p (Some (hd (eventsOf v))) (tl (eventsOf v) @ concat (map eventsOf vs) @ SequenceEnd # r)"
  have "sequenceLoop element x p = thenY (element x ?q) (\<lambda>x p. sequenceLoop element x p)"
    using Cons.prems by (subst sequenceLoop.simps) (simp add: nextY_value [of p v])
  moreover have "agrees (thenY (element x ?q) (\<lambda>x p. sequenceLoop element x p)) ?q r (readElements get x (v # vs))"
    unfolding readElements.simps
    using element [of ?q v "concat (map eventsOf vs) @ SequenceEnd # r" x] Cons.IH by (intro agrees_then) auto
  ultimately show ?case by simp
qed

end

sublocale reads_element < seq: reads_value "parseSequence err element" "readSequence err get" for err
proof
  fix p :: YamlParser and v r x
  assume p: "yp_rest p = eventsOf v @ r"
  show "agrees (parseSequence err element x p) p r (readSequence err get x v)"
  proof (cases v)
    case (YSeq vs)
    then show ?thesis
      using p sequence_loop [of "moved p (Some SequenceStart) (concat (map eventsOf vs) @ SequenceEnd # r)" vs r x]
      by (simp add: parseSequence_def readSequence_def nextY_Cons)
  qed (use p in \<open>simp_all add: parseSequence_def readSequence_def nextY_Cons\<close>)
qed

text \<open>A reader of the fields of a mapping, called after the name of a field.\<close>

locale reads_fields =
  fixes field :: "cstring \<Rightarrow> 'a \<Rightarrow> YamlParser \<Rightarrow> 'a reading" and get :: "cstring \<Rightarrow> 'a \<Rightarrow> yaml \<Rightarrow> file_error + 'a"
  assumes field: "yp_rest p = eventsOf v @ r \<Longrightarrow> agrees (field key x p) p r (get key x v)"
begin

lemma mapping_loop:
  "yp_rest p = concat (map (\<lambda>(k, v). eventsOf k @ eventsOf v) kvs) @ MappingEnd # r \<Longrightarrow>
     agrees (mappingLoop err field x p) p r (readFields err get x kvs)"
proof (induction kvs arbitrary: x p)
  case Nil
  then show ?case by (subst mappingLoop.simps) (simp add: nextY_Cons)
next
  case (Cons kv kvs)
  obtain k v where kv: "kv = (k, v)" by (cases kv)
  let ?r = "concat (map (\<lambda>(k, v). eventsOf k @ eventsOf v) kvs) @ MappingEnd # r"
  show ?case
  proof (cases "\<exists>s. k = YScalar s")
    case True
    then obtain s where s: "k = YScalar s" by blast
    let ?q = "moved p (Some (Scalar s)) (eventsOf v @ ?r)"
    have "mappingLoop err field x p = thenY (field s x ?q) (\<lambda>x p. mappingLoop err field x p)"
      using Cons.prems kv s by (subst mappingLoop.simps) (simp add: nextY_Cons)
    moreover have "agrees (thenY (field s x ?q) (\<lambda>x p. mappingLoop err field x p)) ?q r
        (thenE (get s x v) (\<lambda>x. readFields err get x kvs))"
      using field [of ?q v ?r s x] Cons.IH by (intro agrees_then) auto
    ultimately show ?thesis using kv s by (simp add: readScalar_def)
  next
    case False
    then have "scalarOf (moved p (Some (hd (eventsOf k))) q) = None" for q by (cases k) auto
    then have "mappingLoop err field x p = failY err"
      using Cons.prems kv by (subst mappingLoop.simps) (simp add: nextY_value [of p k])
    moreover have "readScalar err k = Inl err" using False by (cases k) (auto simp: readScalar_def)
    ultimately show ?thesis using kv by simp
  qed
qed

end

sublocale reads_fields < map: reads_value "parseMapping err err' field" "readMapping err err' get" for err err'
proof
  fix p :: YamlParser and v r x
  assume p: "yp_rest p = eventsOf v @ r"
  show "agrees (parseMapping err err' field x p) p r (readMapping err err' get x v)"
  proof (cases v)
    case (YMap kvs)
    then show ?thesis
      using p mapping_loop [of "moved p (Some MappingStart) (concat (map (\<lambda>(k, v). eventsOf k @ eventsOf v) kvs) @ MappingEnd # r)"
          kvs r err' x]
      by (simp add: parseMapping_def readMapping_def nextY_Cons)
  qed (use p in \<open>simp_all add: parseMapping_def readMapping_def nextY_Cons\<close>)
qed

section \<open>The meaning of a package file\<close>

definition readSet :: "(cstring \<Rightarrow> 'a \<Rightarrow> 'a) \<Rightarrow> 'a \<Rightarrow> yaml \<Rightarrow> file_error + 'a" where
  "readSet upd x v = thenE (readScalar ExpectedScalar v) (\<lambda>s. Inr (upd s x))"

definition readValid ::
  "(cstring option \<Rightarrow> validation_error option) \<Rightarrow> (cstring \<Rightarrow> validation_error \<Rightarrow> file_error) \<Rightarrow> (cstring \<Rightarrow> 'a \<Rightarrow> 'a) \<Rightarrow>
   'a \<Rightarrow> yaml \<Rightarrow> file_error + 'a" where
  "readValid valid err upd x v =
     thenE (readScalar ExpectedScalar v) (\<lambda>s. case valid (Some s) of Some e \<Rightarrow> Inl (err s e) | None \<Rightarrow> Inr (upd s x))"

definition readString :: "file_error \<Rightarrow> cstring list \<Rightarrow> yaml \<Rightarrow> file_error + cstring list" where
  "readString err xs v = thenE (readScalar err v) (\<lambda>s. Inr (xs @ [s]))"

definition readStringArray :: "cstring list \<Rightarrow> yaml \<Rightarrow> file_error + cstring list" where
  "readStringArray xs v = readSequence ExpectedSequence (readString ExpectedString) xs v"

definition readSetStrings :: "('a \<Rightarrow> cstring list) \<Rightarrow> (cstring list \<Rightarrow> 'a \<Rightarrow> 'a) \<Rightarrow> 'a \<Rightarrow> yaml \<Rightarrow> file_error + 'a" where
  "readSetStrings get upd x v = thenE (readStringArray (get x) v) (\<lambda>ss. Inr (upd ss x))"

definition readDependencyField :: "cstring \<Rightarrow> FileDependency \<Rightarrow> yaml \<Rightarrow> file_error + FileDependency" where
  "readDependencyField key d v =
     (if key = ''name'' then readValid validatePackageName InvalidDependencyName (\<lambda>s d. d\<lparr>fd_name := Some s\<rparr>) d v
      else if key = ''repository''
      then readValid validateGitRepository InvalidDependencyRepository (\<lambda>s d. d\<lparr>fd_repository := Some s\<rparr>) d v
      else if key = ''version''
      then readValid validateConstraint InvalidDependencyVersion (\<lambda>s d. d\<lparr>fd_version := Some s\<rparr>) d v
      else if key = ''tag'' then readSet (\<lambda>s d. d\<lparr>fd_tag := Some s\<rparr>) d v
      else if key = ''branch'' then readSet (\<lambda>s d. d\<lparr>fd_branch := Some s\<rparr>) d v
      else if key = ''path'' then readSet (\<lambda>s d. d\<lparr>fd_path := Some s\<rparr>) d v
      else Inr d)"

definition readDependency :: "FileDependency list \<Rightarrow> yaml \<Rightarrow> file_error + FileDependency list" where
  "readDependency deps v =
     thenE (readMapping ExpectedDependency ExpectedDependencyField readDependencyField zeroDependency v) (\<lambda>d. Inr (deps @ [d]))"

definition readDependencies :: "FileDependency list \<Rightarrow> yaml \<Rightarrow> file_error + FileDependency list" where
  "readDependencies deps v = readSequence ExpectedDependencies readDependency deps v"

definition readTestField :: "cstring \<Rightarrow> PackageTest \<Rightarrow> yaml \<Rightarrow> file_error + PackageTest" where
  "readTestField key test v =
     (if key = ''file'' then readSet setTestFile test v
      else if key = ''args'' then readSetStrings test_args (\<lambda>ss test. test\<lparr>test_args := ss\<rparr>) test v
      else Inr test)"

definition readTest :: "PackageTest list \<Rightarrow> yaml \<Rightarrow> file_error + PackageTest list" where
  "readTest tests v =
     (case v of
        YScalar s \<Rightarrow> Inr (tests @ [setTestFile s zeroTest])
      | _ \<Rightarrow> thenE (readMapping ExpectedTest ExpectedTestField readTestField zeroTest v) (\<lambda>test. Inr (tests @ [test])))"

definition readTests :: "PackageTest list \<Rightarrow> yaml \<Rightarrow> file_error + PackageTest list" where
  "readTests tests v = readSequence ExpectedTests readTest tests v"

definition readEnvField :: "cstring \<Rightarrow> EnvVar list \<Rightarrow> yaml \<Rightarrow> file_error + EnvVar list" where
  "readEnvField name env v = readSet (\<lambda>s env. env @ [\<lparr>env_name = name, env_value = s\<rparr>]) env v"

definition readScriptField :: "cstring \<Rightarrow> PackageScript \<Rightarrow> yaml \<Rightarrow> file_error + PackageScript" where
  "readScriptField key script v =
     (if key = ''command'' then readSet (\<lambda>s script. script\<lparr>command := Some s\<rparr>) script v
      else if key = ''depends'' \<or> key = ''dependencies''
      then readSetStrings dependencies (\<lambda>ss script. script\<lparr>dependencies := ss\<rparr>) script v
      else if key = ''inputs'' then readSetStrings inputs (\<lambda>ss script. script\<lparr>inputs := ss\<rparr>) script v
      else if key = ''outputs'' then readSetStrings outputs (\<lambda>ss script. script\<lparr>outputs := ss\<rparr>) script v
      else Inr script)"

definition readScriptsField ::
  "cstring \<Rightarrow> PackageScript list \<times> EnvVar list \<Rightarrow> yaml \<Rightarrow> file_error + PackageScript list \<times> EnvVar list" where
  "readScriptsField name se v =
     (if name = ''env'' then thenE (readMapping ExpectedEnv ExpectedEnvName readEnvField (snd se) v) (\<lambda>env. Inr (fst se, env))
      else case v of
        YScalar s \<Rightarrow> Inr (fst se @ [(zeroScript name)\<lparr>command := Some s\<rparr>], snd se)
      | _ \<Rightarrow> thenE (readMapping ExpectedScript ExpectedScriptField readScriptField (zeroScript name) v)
          (\<lambda>script. Inr (fst se @ [script], snd se)))"

definition readScripts ::
  "PackageScript list \<times> EnvVar list \<Rightarrow> yaml \<Rightarrow> file_error + (PackageScript list \<times> EnvVar list)" where
  "readScripts se v = readMapping ExpectedScripts ExpectedScriptName readScriptsField se v"

definition readBuildConfigField :: "cstring \<Rightarrow> PackageBuildConfig \<Rightarrow> yaml \<Rightarrow> file_error + PackageBuildConfig" where
  "readBuildConfigField key c v =
     (if key = ''entry'' then readSet (\<lambda>s c. c\<lparr>bc_entry := Some s\<rparr>) c v
      else if key = ''output'' then readSet (\<lambda>s c. c\<lparr>bc_output := Some s\<rparr>) c v
      else if key = ''c-libs'' then readSetStrings bc_cLibs (\<lambda>ss c. c\<lparr>bc_cLibs := ss\<rparr>) c v
      else if key = ''c-lib-dirs'' then readSetStrings bc_cLibDirs (\<lambda>ss c. c\<lparr>bc_cLibDirs := ss\<rparr>) c v
      else if key = ''c-header-dirs'' then readSetStrings bc_cHeaderDirs (\<lambda>ss c. c\<lparr>bc_cHeaderDirs := ss\<rparr>) c v
      else if key = ''c-defines'' then readSetStrings bc_cDefines (\<lambda>ss c. c\<lparr>bc_cDefines := ss\<rparr>) c v
      else if key = ''c-flags'' then readSetStrings bc_cFlags (\<lambda>ss c. c\<lparr>bc_cFlags := ss\<rparr>) c v
      else if key = ''defines'' then readSetStrings bc_defines (\<lambda>ss c. c\<lparr>bc_defines := ss\<rparr>) c v
      else if key = ''flags'' then readSetStrings bc_flags (\<lambda>ss c. c\<lparr>bc_flags := ss\<rparr>) c v
      else if key = ''plugins-dir'' then readSet (\<lambda>s c. c\<lparr>bc_pluginsDir := Some s\<rparr>) c v
      else if key = ''stdlib'' then readSet (\<lambda>s c. c\<lparr>bc_stdlib := Some s\<rparr>) c v
      else Inr c)"

definition readBuildConfig :: "PackageBuildConfig \<Rightarrow> yaml \<Rightarrow> file_error + PackageBuildConfig" where
  "readBuildConfig c v = readMapping ExpectedBuild ExpectedBuildField readBuildConfigField c v"

definition readNamedBuildField :: "bool \<Rightarrow> cstring \<Rightarrow> PackageBuild \<Rightarrow> yaml \<Rightarrow> file_error + PackageBuild" where
  "readNamedBuildField isTemplate key b v =
     (if key = ''default'' then readSet (\<lambda>s b. b\<lparr>build_isDefault := (s = ''true'')\<rparr>) b v
      else if key = ''entry'' \<and> isTemplate then Inl TemplateEntry
      else if key = ''output'' \<and> isTemplate then Inl TemplateOutput
      else thenE (readBuildConfigField key (build_config b) v) (\<lambda>c. Inr (b\<lparr>build_config := c\<rparr>)))"

definition readNamedBuild :: "bool \<Rightarrow> yaml \<Rightarrow> file_error + PackageBuild" where
  "readNamedBuild isTemplate v =
     readMapping ExpectedBuild ExpectedBuildField (readNamedBuildField isTemplate)
       \<lparr>build_name = None, build_isDefault = False, build_config = zeroBuildConfig\<rparr> v"

definition readBuildsField :: "cstring \<Rightarrow> PackageBuild list \<Rightarrow> yaml \<Rightarrow> file_error + PackageBuild list" where
  "readBuildsField name builds v =
     thenE (readNamedBuild (cur name = CHR ''_'') v)
       (\<lambda>b. Inr (if cur name = CHR ''_'' then builds else builds @ [b\<lparr>build_name := Some name\<rparr>]))"

definition readBuilds :: "PackageBuild list \<Rightarrow> yaml \<Rightarrow> file_error + PackageBuild list" where
  "readBuilds builds v = readMapping ExpectedBuilds ExpectedBuildName readBuildsField builds v"

definition readPluginField :: "cstring \<Rightarrow> PackageInstallScript \<Rightarrow> yaml \<Rightarrow> file_error + PackageInstallScript" where
  "readPluginField key script v =
     (if key = ''entry'' then readSet (\<lambda>s script. script\<lparr>is_pluginEntry := Some s\<rparr>) script v
      else if key = ''inputs''
      then thenE (readSequence ExpectedPluginInputs (readString ExpectedPluginInput) (is_pluginInputs script) v)
        (\<lambda>ss. Inr (script\<lparr>is_pluginInputs := ss\<rparr>))
      else if key = ''args''
      then thenE (readSequence ExpectedPluginArgs (readString ExpectedPluginArg) (is_pluginArgs script) v)
        (\<lambda>ss. Inr (script\<lparr>is_pluginArgs := ss\<rparr>))
      else Inr script)"

definition readInstallField :: "cstring \<Rightarrow> PackageInstallScript \<Rightarrow> yaml \<Rightarrow> file_error + PackageInstallScript" where
  "readInstallField key script v =
     (if key = ''name'' then readSet (\<lambda>s script. script\<lparr>is_name := Some s\<rparr>) script v
      else if key = ''script'' then readSet (\<lambda>s script. script\<lparr>is_script := Some s\<rparr>) script v
      else if key = ''plugin''
      then readMapping ExpectedPlugin ExpectedPluginField readPluginField
        (script\<lparr>is_isPlugin := True, is_pluginInputs := [], is_pluginArgs := []\<rparr>) v
      else if key = ''required''
      then thenE (readScalar ExpectedRequired v) (\<lambda>s. Inr (script\<lparr>is_required := (s = ''true'' \<or> s = ''yes'')\<rparr>))
      else Inr script)"

definition readInstallScript :: "PackageInstallScript list \<Rightarrow> yaml \<Rightarrow> file_error + PackageInstallScript list" where
  "readInstallScript scripts v =
     thenE (readMapping ExpectedInstallScript ExpectedInstallField readInstallField zeroInstallScript v)
       (\<lambda>script. case checkInstallScript script of Some e \<Rightarrow> Inl e | None \<Rightarrow> Inr (scripts @ [script]))"

definition readInstallScripts :: "PackageInstallScript list \<Rightarrow> yaml \<Rightarrow> file_error + PackageInstallScript list" where
  "readInstallScripts scripts v = readSequence ExpectedInstallScripts readInstallScript scripts v"

definition readPackageField :: "cstring \<Rightarrow> Metadata \<Rightarrow> yaml \<Rightarrow> file_error + Metadata" where
  "readPackageField key meta v =
     (if key = ''name'' then readValid validatePackageName InvalidName (\<lambda>s meta. meta\<lparr>md_name := Some s\<rparr>) meta v
      else if key = ''version'' then readValid validateSemanticVersion InvalidVersion (\<lambda>s meta. meta\<lparr>md_version := Some s\<rparr>) meta v
      else if key = ''description'' then readSet (\<lambda>s meta. meta\<lparr>md_description := Some s\<rparr>) meta v
      else if key = ''author'' then readSet (\<lambda>s meta. meta\<lparr>md_author := Some s\<rparr>) meta v
      else if key = ''license'' then readValid validateLicenseIdentifier InvalidLicense (\<lambda>s meta. meta\<lparr>md_license := Some s\<rparr>) meta v
      else if key = ''repository'' then readValid validateGitRepository InvalidRepository (\<lambda>s meta. meta\<lparr>md_repository := Some s\<rparr>) meta v
      else if key = ''homepage'' then readSet (\<lambda>s meta. meta\<lparr>md_homepage := Some s\<rparr>) meta v
      else Inr meta)"

definition readPackageSection :: "Metadata \<Rightarrow> yaml \<Rightarrow> file_error + Metadata" where
  "readPackageSection meta v = readMapping ExpectedPackage ExpectedPackageField readPackageField meta v"

definition readRootField :: "cstring \<Rightarrow> Metadata \<Rightarrow> yaml \<Rightarrow> file_error + Metadata" where
  "readRootField key meta v =
     (if key = ''package'' then readPackageSection meta v
      else if key = ''dependencies''
      then thenE (readDependencies (md_dependencies meta) v) (\<lambda>ds. Inr (meta\<lparr>md_dependencies := ds\<rparr>))
      else if key = ''dev-dependencies''
      then thenE (readDependencies (md_devDependencies meta) v) (\<lambda>ds. Inr (meta\<lparr>md_devDependencies := ds\<rparr>))
      else if key = ''tests'' then thenE (readTests (md_tests meta) v) (\<lambda>ts. Inr (meta\<lparr>md_tests := ts\<rparr>))
      else if key = ''scripts''
      then thenE (readScripts (md_scripts meta, md_scriptEnv meta) v)
        (\<lambda>se. Inr (meta\<lparr>md_scripts := fst se, md_scriptEnv := snd se\<rparr>))
      else if key = ''install'' then thenE (readInstallScripts (md_install meta) v) (\<lambda>ss. Inr (meta\<lparr>md_install := ss\<rparr>))
      else if key = ''install-dev''
      then thenE (readInstallScripts (md_installDev meta) v) (\<lambda>ss. Inr (meta\<lparr>md_installDev := ss\<rparr>))
      else if key = ''build''
      then thenE (readBuildConfig (md_build meta) v) (\<lambda>c. Inr (meta\<lparr>md_build := c, md_hasMultipleBuilds := False\<rparr>))
      else if key = ''builds''
      then thenE (readBuilds (md_builds meta) v) (\<lambda>bs. Inr (meta\<lparr>md_builds := bs, md_hasMultipleBuilds := True\<rparr>))
      else Inr meta)"


definition readCxyfile :: "yaml \<Rightarrow> file_error + Metadata" where
  "readCxyfile v = readMapping ExpectedRoot ExpectedRootField readRootField initPackageMetadata v"

section \<open>The readers agree with it\<close>

named_theorems agree

lemma agrees_map [agree]:
  "agrees res p r s \<Longrightarrow> agrees (thenY res (\<lambda>x p. okY (f x) p)) p r (thenE s (\<lambda>x. Inr (f x)))"
  by (rule agrees_then) (auto intro: agrees_here)

lemma scalarOf_value: "scalarOf (moved p (Some (hd (eventsOf v))) q) = (case v of YScalar s \<Rightarrow> Some s | _ \<Rightarrow> None)"
  by (cases v) simp_all

lemma agrees_scalar:
  assumes "yp_rest p = eventsOf v @ r" "\<And>s q. yp_rest q = r \<Longrightarrow> agrees (f s q) q r (g s)"
  shows "agrees (nextY p (\<lambda>p. case scalarOf p of Some s \<Rightarrow> f s p | None \<Rightarrow> failY err)) p r (thenE (readScalar err v) g)"
proof (cases "\<exists>s. v = YScalar s")
  case True
  then obtain s where "v = YScalar s" by blast
  then show ?thesis using assms(1) assms(2) [of "moved p (Some (Scalar s)) r" s] by (simp add: readScalar_def nextY_Cons)
next
  case False
  then have "readScalar err v = Inl err" "(case v of YScalar s \<Rightarrow> Some s | _ \<Rightarrow> None) = None"
    by (cases v; simp add: readScalar_def)+
  then show ?thesis using assms(1) by (simp add: nextY_value [of p v] scalarOf_value)
qed

lemma expectScalar_agrees: "yp_rest p = eventsOf v @ r \<Longrightarrow> agrees (expectScalar p) p r (readScalar ExpectedScalar v)"
  using agrees_scalar [where f = okY and g = Inr, OF _ agrees_here, of p v r ExpectedScalar]
  by (cases "readScalar ExpectedScalar v") (simp_all add: expectScalar_def)

lemma setScalar_agrees [agree]: "yp_rest p = eventsOf v @ r \<Longrightarrow> agrees (setScalar upd x p) p r (readSet upd x v)"
  unfolding setScalar_def readSet_def by (rule agrees_map [OF expectScalar_agrees])

lemma setValid_agrees [agree]: "yp_rest p = eventsOf v @ r \<Longrightarrow> agrees (setValid valid err upd x p) p r (readValid valid err upd x v)"
  unfolding setValid_def readValid_def
  by (rule agrees_then [OF expectScalar_agrees]) (auto intro: agrees_here split: option.splits)

interpretation string_element: reads_element "parseString err" "readString err" for err
proof
  fix p :: YamlParser and v r x
  assume p: "yp_event p = Some (hd (eventsOf v))" "yp_rest p = tl (eventsOf v) @ r"
  then have "p = moved p (Some (hd (eventsOf v))) (tl (eventsOf v) @ r)" using moved_self [of p] by simp
  then have "scalarOf p = (case v of YScalar s \<Rightarrow> Some s | _ \<Rightarrow> None)" using scalarOf_value by metis
  then show "agrees (parseString err x p) p r (readString err x v)"
    using p by (cases v) (simp_all add: parseString_def readString_def readScalar_def agrees_here)
qed

lemma setStrings_agrees [agree]: "yp_rest p = eventsOf v @ r \<Longrightarrow> agrees (setStrings get upd x p) p r (readSetStrings get upd x v)"
  unfolding setStrings_def readSetStrings_def parseStringArray_def readStringArray_def
  by (rule agrees_map [OF string_element.seq.reads])

lemma skipField_agrees [agree]: "yp_rest p = eventsOf v @ r \<Longrightarrow> agrees (skipField x p) p r (Inr x)"
  using skipValue_events [of "moved p (Some (hd (eventsOf v))) (tl (eventsOf v) @ r)" v r]
  by (auto simp: skipField_def nextY_value [of p v])

text \<open>The fields of each section.\<close>

interpretation dependency_fields: reads_fields dependencyField readDependencyField
  by unfold_locales (simp add: dependencyField_def readDependencyField_def agree)

interpretation test_fields: reads_fields testField readTestField
  by unfold_locales (simp add: testField_def readTestField_def agree)

interpretation env_fields: reads_fields envField readEnvField
  by unfold_locales (simp add: envField_def readEnvField_def agree)

interpretation script_fields: reads_fields scriptField readScriptField
  by unfold_locales (simp add: scriptField_def readScriptField_def agree)

interpretation build_fields: reads_fields buildConfigField readBuildConfigField
  by unfold_locales (simp add: buildConfigField_def readBuildConfigField_def agree)

interpretation named_build_fields: reads_fields "namedBuildField t" "readNamedBuildField t" for t
  by unfold_locales (simp add: namedBuildField_def readNamedBuildField_def agree build_fields.field)

interpretation builds_fields: reads_fields buildsField readBuildsField
  by unfold_locales
    (simp add: buildsField_def readBuildsField_def parseNamedBuild_def readNamedBuild_def agree named_build_fields.map.reads)

interpretation package_fields: reads_fields packageField readPackageField
  by unfold_locales (simp add: packageField_def readPackageField_def agree)

interpretation plugin_fields: reads_fields pluginField readPluginField
  by unfold_locales (simp add: pluginField_def readPluginField_def agree string_element.seq.reads)

interpretation install_fields: reads_fields installField readInstallField
proof
  fix p :: YamlParser and v r key and x :: PackageInstallScript
  assume p: "yp_rest p = eventsOf v @ r"
  have "agrees (nextY p (\<lambda>p. case scalarOf p of Some s \<Rightarrow> okY (x\<lparr>is_required := (s = ''true'' \<or> s = ''yes'')\<rparr>) p | None \<Rightarrow> failY ExpectedRequired))
      p r (thenE (readScalar ExpectedRequired v) (\<lambda>s. Inr (x\<lparr>is_required := (s = ''true'' \<or> s = ''yes'')\<rparr>)))"
    by (rule agrees_scalar [OF p]) (rule agrees_here)
  then show "agrees (installField key x p) p r (readInstallField key x v)"
    using p by (simp add: installField_def readInstallField_def agree plugin_fields.map.reads)
qed

text \<open>Elements of sequences, and scripts: a mapping that has been entered, or a scalar.\<close>

context reads_fields
begin

lemma entered:
  assumes "yp_event p = Some (hd (eventsOf v))" "yp_rest p = tl (eventsOf v) @ r"
    and ok: "\<And>y q. yp_rest q = r \<Longrightarrow> agrees (f y q) q r (g y)"
  shows "agrees (if yp_event p \<noteq> Some MappingStart then failY err else thenY (mappingLoop err' field x p) f) p r
     (thenE (readMapping err err' get x v) g)"
proof (cases v)
  case (YMap kvs)
  then show ?thesis
    using assms(1,2) agrees_then [OF mapping_loop ok, of p kvs r err' x] by (simp add: readMapping_def)
qed (use assms in \<open>simp_all add: readMapping_def\<close>)

end

lemma scalarOf_at:
  assumes "yp_event p = Some (hd (eventsOf v))"
  shows "scalarOf p = (case v of YScalar s \<Rightarrow> Some s | _ \<Rightarrow> None)"
  using assms by (cases v) (simp_all add: scalarOf_def)

interpretation dependency_element: reads_element parseDependency readDependency
  unfolding parseDependency_def readDependency_def
  by unfold_locales (rule dependency_fields.entered; simp add: agrees_here)

interpretation test_element: reads_element parseTest readTest
proof
  fix p :: YamlParser and v r x
  assume p: "yp_event p = Some (hd (eventsOf v))" "yp_rest p = tl (eventsOf v) @ r"
  have "agrees (if yp_event p \<noteq> Some MappingStart then failY ExpectedTest
         else thenY (mappingLoop ExpectedTestField testField zeroTest p) (\<lambda>test p. okY (x @ [test]) p)) p r
      (thenE (readMapping ExpectedTest ExpectedTestField readTestField zeroTest v) (\<lambda>test. Inr (x @ [test])))"
    by (rule test_fields.entered [OF p]) (simp add: agrees_here)
  then show "agrees (parseTest x p) p r (readTest x v)"
    using p by (cases v) (simp_all add: parseTest_def readTest_def scalarOf_at [of p v] agrees_here)
qed

interpretation install_element: reads_element parseInstallScript readInstallScript
  unfolding parseInstallScript_def readInstallScript_def
  by unfold_locales (rule install_fields.entered; simp add: agrees_here split: option.splits)

interpretation scripts_fields: reads_fields scriptsField readScriptsField
proof
  fix p :: YamlParser and v r key and x :: "PackageScript list \<times> EnvVar list"
  assume p: "yp_rest p = eventsOf v @ r"
  let ?q = "moved p (Some (hd (eventsOf v))) (tl (eventsOf v) @ r)"
  have "agrees (if yp_event ?q \<noteq> Some MappingStart then failY ExpectedScript
         else thenY (mappingLoop ExpectedScriptField scriptField (zeroScript key) ?q) (\<lambda>script p. okY (fst x @ [script], snd x) p)) ?q r
      (thenE (readMapping ExpectedScript ExpectedScriptField readScriptField (zeroScript key) v)
        (\<lambda>script. Inr (fst x @ [script], snd x)))"
    by (rule script_fields.entered) (simp_all add: agrees_here)
  then show "agrees (scriptsField key x p) p r (readScriptsField key x v)"
    using p env_fields.map.reads [OF p, of ExpectedEnv ExpectedEnvName "snd x"]
    by (cases v) (simp_all add: scriptsField_def readScriptsField_def agree nextY_Cons)
qed

interpretation root_fields: reads_fields rootField readRootField
  by unfold_locales
    (simp add: rootField_def readRootField_def agree parsePackageSection_def readPackageSection_def package_fields.map.reads
      parseDependencies_def readDependencies_def dependency_element.seq.reads parseTests_def readTests_def test_element.seq.reads
      parseScripts_def readScripts_def scripts_fields.map.reads parseInstallScripts_def readInstallScripts_def
      install_element.seq.reads parseBuildConfig_def readBuildConfig_def build_fields.map.reads
      parseBuilds_def readBuilds_def builds_fields.map.reads)

lemma parseCxyfile_tree:
  "parseCxyfile (Some (StreamStart # DocumentStart # eventsOf v @ r, broken)) = Some (readCxyfile v)"
proof -
  let ?p = "\<lparr>yp_event = Some DocumentStart, yp_rest = eventsOf v @ r, yp_broken = broken\<rparr>"
  have "agrees (parseMapping ExpectedRoot ExpectedRootField rootField initPackageMetadata ?p) ?p r (readCxyfile v)"
    unfolding readCxyfile_def by (rule root_fields.map.reads) simp
  then have "map_option (map_sum id fst) (parseMapping ExpectedRoot ExpectedRootField rootField initPackageMetadata ?p) = Some (readCxyfile v)"
    by (cases "readCxyfile v") (auto simp: agrees_def failY_def okY_def)
  then show ?thesis by (simp add: parseCxyfile_def nextY_def parseYamlEvent_def)
qed

text \<open>C26: Reading a package file event by event gives what the tree of its values means: on the events of any YAML value
  the parser returns, with the metadata or with the error that reading the value section by section gives;
  brackets are matched, and a field that is not known is skipped as a whole.\<close>

theorem parseCxyfile_reads_tree:
  "parseCxyfile (Some (StreamStart # DocumentStart # eventsOf v @ r, broken)) = Some (readCxyfile v)"
  by (rule parseCxyfile_tree)

end
