(* ===== verification/Cxy_PackageWriter.thy ===== *)
theory Cxy_PackageWriter
  imports Cxy_PackageTree
begin

text \<open>
  Writing a package file (\<open>writeCxyfile\<close> of \<open>package/cxyfile.c\<close>), as the text it puts into its buffer, and the layout of that
  text: a document is a tree of block mappings and sequences whose scalars are presented in a style of YAML, and the text is
  the usual layout of such a tree, two columns deeper at each level.
\<close>

section \<open>Scalars\<close>

definition spaces :: "nat \<Rightarrow> cstring" where
  "spaces n = replicate n CHR '' ''"

definition newline :: cstring where
  "newline = [CHR 0x0A]"

text \<open>The placeholder for a string: nothing is written for a null pointer.\<close>

definition textOf :: "cstring option \<Rightarrow> cstring" where
  "textOf s = (case s of None \<Rightarrow> [] | Some x \<Rightarrow> x)"

definition specialChars :: cstring where
  "specialChars = [CHR 0x0A, CHR 0x0D, CHR 0x22, CHR 0x27, CHR 0x5C] @ '':#[]{}|>&*!''"

definition needsYamlEscaping :: "cstring option \<Rightarrow> bool" where
  "needsYamlEscaping str =
     (if missing str then False
      else list_ex (\<lambda>c. c \<in> set specialChars \<or> (of_char c :: nat) < 32) (the str) \<or>
        cur (the str) = CHR ''-'' \<or> cur (the str) = CHR ''?'' \<or> cur (the str) = CHR '' '')"

definition isMultiline :: "cstring option \<Rightarrow> bool" where
  "isMultiline str = (case str of None \<Rightarrow> False | Some s \<Rightarrow> CHR 0x0A \<in> set s)"

text \<open>The loop over the lines of a literal block, with the characters of the line begun.\<close>

fun blockLoop :: "nat \<Rightarrow> cstring \<Rightarrow> cstring \<Rightarrow> cstring" where
  "blockLoop ind line [] = (if line = [] then [] else spaces ind @ line)"
| "blockLoop ind line (c # s) =
     (if c = CHR 0x0A then spaces ind @ line @ newline @ blockLoop ind [] s else blockLoop ind (line @ [c]) s)"

definition quoteChar :: "char \<Rightarrow> cstring" where
  "quoteChar c =
     (if c = CHR 0x22 \<or> c = CHR 0x5C then [CHR 0x5C, c]
      else if c = CHR 0x0A then [CHR 0x5C, CHR ''n'']
      else if c = CHR 0x0D then [CHR 0x5C, CHR ''r'']
      else if c = CHR 0x09 then [CHR 0x5C, CHR ''t'']
      else [c])"

definition writeYamlStringWithIndent :: "cstring option \<Rightarrow> nat \<Rightarrow> cstring" where
  "writeYamlStringWithIndent str ind =
     (if missing str then [CHR 0x22, CHR 0x22]
      else if isMultiline str then CHR ''|'' # newline @ blockLoop ind [] (the str)
      else if needsYamlEscaping str then CHR 0x22 # concat (map quoteChar (the str)) @ [CHR 0x22]
      else the str)"

definition writeYamlString :: "cstring option \<Rightarrow> cstring" where
  "writeYamlString str = writeYamlStringWithIndent str 4"

section \<open>Sections\<close>

text \<open>A line with a field, one that is left out when the field is empty, and a field with a list of strings.\<close>

definition writeField :: "nat \<Rightarrow> cstring \<Rightarrow> cstring \<Rightarrow> cstring" where
  "writeField ind key s = spaces ind @ key @ '': '' @ s @ newline"

definition writeOptional :: "nat \<Rightarrow> cstring \<Rightarrow> cstring option \<Rightarrow> cstring" where
  "writeOptional ind key s = (if missing s then [] else writeField ind key (textOf s))"

definition writeItems :: "nat \<Rightarrow> cstring \<Rightarrow> cstring list \<Rightarrow> cstring" where
  "writeItems ind key ss =
     (if ss = [] then []
      else spaces ind @ key @ '':'' @ newline @ concat (map (\<lambda>s. spaces (ind + 2) @ ''- '' @ s @ newline) ss))"

definition writePackage :: "Metadata \<Rightarrow> cstring" where
  "writePackage meta =
     ''package:'' @ newline @
     writeField 2 ''name'' (textOf (md_name meta)) @
     writeField 2 ''version'' (textOf (md_version meta)) @
     writeOptional 2 ''author'' (md_author meta) @
     writeOptional 2 ''description'' (md_description meta) @
     writeOptional 2 ''license'' (md_license meta) @
     writeOptional 2 ''repository'' (md_repository meta) @
     writeOptional 2 ''homepage'' (md_homepage meta) @ newline"

definition writeBuildConfig :: "nat \<Rightarrow> PackageBuildConfig \<Rightarrow> cstring" where
  "writeBuildConfig ind c =
     writeOptional ind ''entry'' (bc_entry c) @
     writeOptional ind ''output'' (bc_output c) @
     writeItems ind ''c-libs'' (bc_cLibs c) @
     writeItems ind ''c-lib-dirs'' (bc_cLibDirs c) @
     writeItems ind ''c-header-dirs'' (bc_cHeaderDirs c) @
     writeItems ind ''c-defines'' (bc_cDefines c) @
     writeItems ind ''c-flags'' (bc_cFlags c) @
     writeItems ind ''defines'' (bc_defines c) @
     writeItems ind ''flags'' (bc_flags c) @
     writeOptional ind ''plugins-dir'' (bc_pluginsDir c) @
     writeOptional ind ''stdlib'' (bc_stdlib c)"

definition writeNamedBuild :: "PackageBuild \<Rightarrow> cstring" where
  "writeNamedBuild b =
     spaces 2 @ textOf (build_name b) @ '':'' @ newline @
     (if build_isDefault b then writeField 4 ''default'' ''true'' else []) @ writeBuildConfig 4 (build_config b)"

definition writeBuilds :: "Metadata \<Rightarrow> cstring" where
  "writeBuilds meta =
     (if md_hasMultipleBuilds meta \<and> md_builds meta \<noteq> []
      then ''builds:'' @ newline @ concat (map writeNamedBuild (md_builds meta)) @ newline
      else if \<not> missing (bc_entry (md_build meta)) then ''build:'' @ newline @ writeBuildConfig 2 (md_build meta) @ newline
      else [])"

text \<open>The version of a dependency stands in quotes, that of a development dependency does not.\<close>

definition writeDependency :: "bool \<Rightarrow> FileDependency \<Rightarrow> cstring" where
  "writeDependency quoted d =
     spaces 2 @ ''- name: '' @ textOf (fd_name d) @ newline @
     writeOptional 4 ''repository'' (fd_repository d) @
     (if missing (fd_version d) then []
      else writeField 4 ''version'' (if quoted then CHR 0x27 # textOf (fd_version d) @ [CHR 0x27] else textOf (fd_version d))) @
     writeOptional 4 ''tag'' (fd_tag d) @
     writeOptional 4 ''branch'' (fd_branch d) @
     writeOptional 4 ''path'' (fd_path d)"

definition writeDependencies :: "Metadata \<Rightarrow> cstring" where
  "writeDependencies meta =
     ''dependencies:'' @
     (if md_dependencies meta = [] then '' []'' @ newline @ newline
      else newline @ concat (map (writeDependency True) (md_dependencies meta)) @ newline)"

definition writeDevDependencies :: "Metadata \<Rightarrow> cstring" where
  "writeDevDependencies meta =
     (if md_devDependencies meta = [] then []
      else ''dev-dependencies:'' @ newline @ concat (map (writeDependency False) (md_devDependencies meta)) @ newline)"

definition writeTest :: "PackageTest \<Rightarrow> cstring" where
  "writeTest test =
     spaces 2 @ ''- file: '' @ CHR 0x22 # textOf (test_file test) @ [CHR 0x22] @ newline @ writeItems 4 ''args'' (test_args test)"

definition writeTests :: "Metadata \<Rightarrow> cstring" where
  "writeTests meta =
     (if md_tests meta = [] then [] else ''tests:'' @ newline @ concat (map writeTest (md_tests meta)) @ newline)"

definition writeEnv :: "EnvVar list \<Rightarrow> cstring" where
  "writeEnv env =
     (if env = [] then []
      else spaces 2 @ ''env:'' @ newline @
        concat (map (\<lambda>e. writeField 4 (env_name e) (writeYamlStringWithIndent (Some (env_value e)) 6)) env))"

fun writeDepends :: "bool \<Rightarrow> cstring list \<Rightarrow> cstring" where
  "writeDepends first [] = []"
| "writeDepends first (d # ds) = (if first then '' '' else '', '') @ d @ writeDepends False ds"

definition writeStrings :: "nat \<Rightarrow> cstring \<Rightarrow> cstring list \<Rightarrow> cstring" where
  "writeStrings ind key ss = writeItems ind key (map (\<lambda>s. writeYamlStringWithIndent (Some s) (ind + 4)) ss)"

definition writeScript :: "PackageScript \<Rightarrow> cstring" where
  "writeScript script =
     (if dependencies script = [] \<and> inputs script = [] \<and> outputs script = []
      then writeField 2 (script_name script) (writeYamlStringWithIndent (command script) 4)
      else spaces 2 @ script_name script @ '':'' @ newline @
        (if dependencies script = [] then []
         else spaces 4 @ ''depends: ['' @ writeDepends True (dependencies script) @ '' ]'' @ newline) @
        writeStrings 4 ''inputs'' (inputs script) @
        writeStrings 4 ''outputs'' (outputs script) @
        writeField 4 ''command'' (writeYamlStringWithIndent (command script) 6))"

definition writeScripts :: "Metadata \<Rightarrow> cstring" where
  "writeScripts meta =
     (if md_scriptEnv meta = [] \<and> md_scripts meta = [] then []
      else ''scripts:'' @ newline @ writeEnv (md_scriptEnv meta) @ concat (map writeScript (md_scripts meta)))"

definition writeInstallScript :: "PackageInstallScript \<Rightarrow> cstring" where
  "writeInstallScript script =
     spaces 2 @ ''- name: '' @ writeYamlStringWithIndent (is_name script) 4 @ newline @
     (if is_isPlugin script
      then spaces 4 @ ''plugin:'' @ newline @
        (if missing (is_pluginEntry script) then []
         else writeField 6 ''entry'' (writeYamlStringWithIndent (is_pluginEntry script) 8)) @
        writeStrings 6 ''inputs'' (is_pluginInputs script) @
        writeStrings 6 ''args'' (is_pluginArgs script)
      else if missing (is_script script) then []
      else writeField 4 ''script'' (writeYamlStringWithIndent (is_script script) 6)) @
     (if is_required script then writeField 4 ''required'' ''true'' else [])"

definition writeInstall :: "cstring \<Rightarrow> PackageInstallScript list \<Rightarrow> cstring" where
  "writeInstall key scripts =
     (if scripts = [] then [] else newline @ key @ '':'' @ newline @ concat (map writeInstallScript scripts))"

definition packageText :: "Metadata \<Rightarrow> cstring" where
  "packageText meta =
     writePackage meta @ writeBuilds meta @ writeDependencies meta @ writeDevDependencies meta @ writeTests meta @
     writeScripts meta @ writeInstall ''install'' (md_install meta) @ writeInstall ''install-dev'' (md_installDev meta)"

text \<open>The contents of the file afterwards, if it could be opened.\<close>

definition writeCxyfile :: "bool \<Rightarrow> Metadata \<Rightarrow> cstring option" where
  "writeCxyfile opened meta = (if opened then Some (packageText meta) else None)"

section \<open>Layout of documents\<close>

datatype doc =
  Text cstring
| Flow "cstring list"
| Strings "cstring list"
| Fields "(cstring \<times> doc) list"
| Records "(cstring \<times> doc) list list"

definition layoutLines :: "nat \<Rightarrow> cstring list \<Rightarrow> cstring" where
  "layoutLines n ts = concat (map (\<lambda>t. spaces n @ t) ts)"

definition layoutRecord :: "nat \<Rightarrow> cstring list \<Rightarrow> cstring" where
  "layoutRecord n ts =
     spaces n @ ''-'' @ (case ts of [] \<Rightarrow> newline | t # ts \<Rightarrow> '' '' @ t @ layoutLines (n + 2) ts)"

text \<open>The text of a value behind the key, or the dash, of a block that stands \<open>n\<close> columns deep.\<close>

fun layout :: "nat \<Rightarrow> doc \<Rightarrow> cstring" where
  "layout n (Text s) = '' '' @ s @ newline"
| "layout n (Flow ss) = '' ['' @ writeDepends True ss @ (if ss = [] then [] else '' '') @ '']'' @ newline"
| "layout n (Strings ss) = newline @ concat (map (\<lambda>s. layoutRecord (n + 2) [s @ newline]) ss)"
| "layout n (Fields fs) = newline @ layoutLines (n + 2) (map (\<lambda>(k, d). k @ '':'' @ layout (n + 2) d) fs)"
| "layout n (Records rs) =
     newline @ concat (map (\<lambda>fs. layoutRecord (n + 2) (map (\<lambda>(k, d). k @ '':'' @ layout (n + 4) d) fs)) rs)"

text \<open>A document is a mapping whose fields are set apart by empty lines.\<close>

record doc_section =
  sec_before :: cstring
  sec_key :: cstring
  sec_doc :: doc
  sec_after :: cstring

definition layoutFile :: "doc_section list \<Rightarrow> cstring" where
  "layoutFile ss = concat (map (\<lambda>s. sec_before s @ sec_key s @ '':'' @ layout 0 (sec_doc s) @ sec_after s) ss)"

section \<open>The document of a package\<close>

definition optionField :: "cstring \<Rightarrow> cstring option \<Rightarrow> (cstring \<times> doc) list" where
  "optionField key s = (if missing s then [] else [(key, Text (textOf s))])"

definition stringsField :: "cstring \<Rightarrow> cstring list \<Rightarrow> (cstring \<times> doc) list" where
  "stringsField key ss = (if ss = [] then [] else [(key, Strings ss)])"

definition packageFields :: "Metadata \<Rightarrow> (cstring \<times> doc) list" where
  "packageFields meta =
     [(''name'', Text (textOf (md_name meta))), (''version'', Text (textOf (md_version meta)))] @
     optionField ''author'' (md_author meta) @ optionField ''description'' (md_description meta) @
     optionField ''license'' (md_license meta) @ optionField ''repository'' (md_repository meta) @
     optionField ''homepage'' (md_homepage meta)"

definition configFields :: "PackageBuildConfig \<Rightarrow> (cstring \<times> doc) list" where
  "configFields c =
     optionField ''entry'' (bc_entry c) @ optionField ''output'' (bc_output c) @
     stringsField ''c-libs'' (bc_cLibs c) @ stringsField ''c-lib-dirs'' (bc_cLibDirs c) @
     stringsField ''c-header-dirs'' (bc_cHeaderDirs c) @ stringsField ''c-defines'' (bc_cDefines c) @
     stringsField ''c-flags'' (bc_cFlags c) @ stringsField ''defines'' (bc_defines c) @ stringsField ''flags'' (bc_flags c) @
     optionField ''plugins-dir'' (bc_pluginsDir c) @ optionField ''stdlib'' (bc_stdlib c)"

definition buildFields :: "PackageBuild \<Rightarrow> (cstring \<times> doc) list" where
  "buildFields b = (if build_isDefault b then [(''default'', Text ''true'')] else []) @ configFields (build_config b)"

definition dependencyFields :: "bool \<Rightarrow> FileDependency \<Rightarrow> (cstring \<times> doc) list" where
  "dependencyFields quoted d =
     [(''name'', Text (textOf (fd_name d)))] @ optionField ''repository'' (fd_repository d) @
     (if missing (fd_version d) then []
      else [(''version'', Text (if quoted then CHR 0x27 # textOf (fd_version d) @ [CHR 0x27] else textOf (fd_version d)))]) @
     optionField ''tag'' (fd_tag d) @ optionField ''branch'' (fd_branch d) @ optionField ''path'' (fd_path d)"

definition testFields :: "PackageTest \<Rightarrow> (cstring \<times> doc) list" where
  "testFields test = (''file'', Text (CHR 0x22 # textOf (test_file test) @ [CHR 0x22])) # stringsField ''args'' (test_args test)"

definition scriptDoc :: "PackageScript \<Rightarrow> doc" where
  "scriptDoc script =
     (if dependencies script = [] \<and> inputs script = [] \<and> outputs script = []
      then Text (writeYamlStringWithIndent (command script) 4)
      else Fields
        ((if dependencies script = [] then [] else [(''depends'', Flow (dependencies script))]) @
         stringsField ''inputs'' (map (\<lambda>s. writeYamlStringWithIndent (Some s) 8) (inputs script)) @
         stringsField ''outputs'' (map (\<lambda>s. writeYamlStringWithIndent (Some s) 8) (outputs script)) @
         [(''command'', Text (writeYamlStringWithIndent (command script) 6))]))"

definition envDoc :: "EnvVar list \<Rightarrow> (cstring \<times> doc) list" where
  "envDoc env =
     (if env = [] then []
      else [(''env'', Fields (map (\<lambda>e. (env_name e, Text (writeYamlStringWithIndent (Some (env_value e)) 6))) env))])"

definition pluginFields :: "PackageInstallScript \<Rightarrow> (cstring \<times> doc) list" where
  "pluginFields script =
     (if missing (is_pluginEntry script) then []
      else [(''entry'', Text (writeYamlStringWithIndent (is_pluginEntry script) 8))]) @
     stringsField ''inputs'' (map (\<lambda>s. writeYamlStringWithIndent (Some s) 10) (is_pluginInputs script)) @
     stringsField ''args'' (map (\<lambda>s. writeYamlStringWithIndent (Some s) 10) (is_pluginArgs script))"

definition installFields :: "PackageInstallScript \<Rightarrow> (cstring \<times> doc) list" where
  "installFields script =
     [(''name'', Text (writeYamlStringWithIndent (is_name script) 4))] @
     (if is_isPlugin script then [(''plugin'', Fields (pluginFields script))]
      else if missing (is_script script) then []
      else [(''script'', Text (writeYamlStringWithIndent (is_script script) 6))]) @
     (if is_required script then [(''required'', Text ''true'')] else [])"

definition section_of :: "cstring \<Rightarrow> cstring \<Rightarrow> doc \<Rightarrow> cstring \<Rightarrow> doc_section" where
  "section_of pre key d post = \<lparr>sec_before = pre, sec_key = key, sec_doc = d, sec_after = post\<rparr>"

definition installSection :: "cstring \<Rightarrow> PackageInstallScript list \<Rightarrow> doc_section list" where
  "installSection key scripts =
     (if scripts = [] then [] else [section_of newline key (Records (map installFields scripts)) []])"

definition buildSection :: "Metadata \<Rightarrow> doc_section list" where
  "buildSection meta =
     (if md_hasMultipleBuilds meta \<and> md_builds meta \<noteq> []
      then [section_of [] ''builds'' (Fields (map (\<lambda>b. (textOf (build_name b), Fields (buildFields b))) (md_builds meta))) newline]
      else if \<not> missing (bc_entry (md_build meta))
      then [section_of [] ''build'' (Fields (configFields (md_build meta))) newline] else [])"

definition dependencySection :: "FileDependency list \<Rightarrow> doc_section list" where
  "dependencySection ds =
     [section_of [] ''dependencies'' (if ds = [] then Flow [] else Records (map (dependencyFields True) ds)) newline]"

definition devSection :: "FileDependency list \<Rightarrow> doc_section list" where
  "devSection ds =
     (if ds = [] then [] else [section_of [] ''dev-dependencies'' (Records (map (dependencyFields False) ds)) newline])"

definition testSection :: "PackageTest list \<Rightarrow> doc_section list" where
  "testSection ts = (if ts = [] then [] else [section_of [] ''tests'' (Records (map testFields ts)) newline])"

definition scriptSection :: "EnvVar list \<Rightarrow> PackageScript list \<Rightarrow> doc_section list" where
  "scriptSection env ss =
     (if env = [] \<and> ss = [] then []
      else [section_of [] ''scripts'' (Fields (envDoc env @ map (\<lambda>s. (script_name s, scriptDoc s)) ss)) []])"

definition packageDoc :: "Metadata \<Rightarrow> doc_section list" where
  "packageDoc meta =
     section_of [] ''package'' (Fields (packageFields meta)) newline # buildSection meta @
     dependencySection (md_dependencies meta) @ devSection (md_devDependencies meta) @ testSection (md_tests meta) @
     scriptSection (md_scriptEnv meta) (md_scripts meta) @
     installSection ''install'' (md_install meta) @ installSection ''install-dev'' (md_installDev meta)"

lemmas section_defs = buildSection_def dependencySection_def devSection_def testSection_def scriptSection_def installSection_def

section \<open>The text is the layout of the document\<close>

definition layoutFields :: "nat \<Rightarrow> (cstring \<times> doc) list \<Rightarrow> cstring" where
  "layoutFields n fs = layoutLines n (map (\<lambda>(k, d). k @ '':'' @ layout n d) fs)"

named_theorems laid_out

declare add_2_eq_Suc [simp del] add_2_eq_Suc' [simp del]

lemma layoutLines_simps [simp]: "layoutLines n [] = []" "layoutLines n (t # ts) = spaces n @ t @ layoutLines n ts"
  by (simp_all add: layoutLines_def)

lemma layoutFields_simps [simp]:
  "layoutFields n [] = []" "layoutFields n ((k, d) # fs) = spaces n @ k @ '':'' @ layout n d @ layoutFields n fs"
  "layoutFields n (fs @ fs') = layoutFields n fs @ layoutFields n fs'"
  by (simp_all add: layoutFields_def) (simp add: layoutLines_def)

lemma layout_Fields [laid_out]: "layout n (Fields fs) = newline @ layoutFields (n + 2) fs"
  by (simp add: layoutFields_def)

definition recordText :: "(cstring \<times> doc) list \<Rightarrow> cstring" where
  "recordText fs = layoutRecord 2 (map (\<lambda>(k, d). k @ '':'' @ layout 4 d) fs)"

lemma recordText_Cons [laid_out]: "recordText ((k, d) # fs) = spaces 2 @ ''- '' @ k @ '':'' @ layout 4 d @ layoutFields 4 fs"
  by (simp add: recordText_def layoutRecord_def layoutFields_def)

lemma layout_Records: "layout 0 (Records rs) = newline @ concat (map recordText rs)"
  by (simp add: recordText_def [abs_def])

lemma layout_Strings [laid_out]:
  "layout n (Strings ss) = newline @ concat (map (\<lambda>s. spaces (n + 2) @ ''- '' @ s @ newline) ss)"
  by (simp add: layoutRecord_def)

declare layout.simps(3-5) [simp del]

lemma layout_optionField [laid_out]: "layoutFields n (optionField key s) = writeOptional n key s"
  by (simp add: optionField_def writeOptional_def writeField_def)

lemma layout_stringsField [laid_out]: "layoutFields n (stringsField key ss) = writeItems n key ss"
  by (simp add: stringsField_def writeItems_def layout_Strings)

lemma layout_configFields [laid_out]: "layoutFields n (configFields c) = writeBuildConfig n c"
  by (simp add: configFields_def writeBuildConfig_def laid_out)

lemma layout_builds: "layoutFields 2 (map (\<lambda>b. (textOf (build_name b), Fields (buildFields b))) bs) = concat (map writeNamedBuild bs)"
  by (induction bs) (simp_all add: writeNamedBuild_def buildFields_def writeField_def laid_out)

lemma layout_dependency: "recordText (dependencyFields quoted d) = writeDependency quoted d"
  by (simp add: dependencyFields_def writeDependency_def writeField_def laid_out)

lemma layout_test: "recordText (testFields t) = writeTest t"
  by (simp add: testFields_def writeTest_def laid_out)

lemma layout_env: "layoutFields 2 (envDoc env) = writeEnv env"
proof -
  have "layoutFields 4 (map (\<lambda>e. (env_name e, Text (writeYamlStringWithIndent (Some (env_value e)) 6))) env) =
      concat (map (\<lambda>e. writeField 4 (env_name e) (writeYamlStringWithIndent (Some (env_value e)) 6)) env)"
    by (induction env) (simp_all add: writeField_def)
  then show ?thesis by (simp add: envDoc_def writeEnv_def layout_Fields)
qed

lemma layout_script: "spaces 2 @ script_name script @ '':'' @ layout 2 (scriptDoc script) = writeScript script"
  by (simp add: scriptDoc_def writeScript_def writeField_def writeStrings_def laid_out)

lemma layout_scripts: "layoutFields 2 (map (\<lambda>s. (script_name s, scriptDoc s)) ss) = concat (map writeScript ss)"
  using layout_script by (induction ss) simp_all

lemma layout_plugin:
  "layoutFields 6 (pluginFields script) =
     (if missing (is_pluginEntry script) then [] else writeField 6 ''entry'' (writeYamlStringWithIndent (is_pluginEntry script) 8)) @
     writeStrings 6 ''inputs'' (is_pluginInputs script) @ writeStrings 6 ''args'' (is_pluginArgs script)"
  by (simp add: pluginFields_def writeField_def writeStrings_def laid_out)

lemma layout_install: "recordText (installFields script) = writeInstallScript script"
  by (simp add: installFields_def writeInstallScript_def writeField_def laid_out layout_plugin)

lemma package_layout: "writeCxyfile True meta = Some (layoutFile (packageDoc meta))"
proof -
  have package: "''package:'' @ layout 0 (Fields (packageFields meta)) @ newline = writePackage meta"
    by (simp add: packageFields_def writePackage_def writeField_def laid_out)
  show ?thesis
    by (simp add: writeCxyfile_def packageText_def layoutFile_def packageDoc_def section_of_def section_defs writeBuilds_def
        writeDependencies_def writeDevDependencies_def writeTests_def writeScripts_def writeInstall_def package [symmetric]
        layout_Records layout_dependency layout_test layout_install comp_def layout_Fields layout_builds layout_configFields layout_env layout_scripts)
qed

end
