(* ===== verification/Cxy_PackageRound.thy ===== *)
theory Cxy_PackageRound
  imports Cxy_PackageWriter
begin

text \<open>
  A package that is written reads back. The scalars of a document are presented plain, in quotes or as a literal block; their
  values are given here by the rules of YAML, and a document whose scalars follow the rules has a tree of values. For metadata
  that can be presented in the styles that the writer uses, the document is such a one. Reading the text is libyaml's part: it
  is a parameter, of which the theorem needs that it reads this document as the rules say; then the reader returns the metadata.
\<close>

section \<open>Presentation of scalars\<close>

text \<open>Printable ASCII; whether a byte above 127 is accepted depends on the character it is part of, so such texts are left out.\<close>

definition printable :: "char \<Rightarrow> bool" where
  "printable c \<longleftrightarrow> 32 \<le> (of_char c :: nat) \<and> (of_char c :: nat) < 127"

text \<open>Plain scalars: no indicator at the start, no colon or hash that would end them, no space at the end.\<close>

definition indicators :: cstring where
  "indicators = ''-?:,[]{}#&*!|>%@ '' @ [CHR 0x22, CHR 0x27, CHR 0x60]"

fun plainTail :: "cstring \<Rightarrow> bool" where
  "plainTail [] = True"
| "plainTail [c] = (c \<noteq> CHR '' '' \<and> c \<noteq> CHR '':'')"
| "plainTail (a # b # s) =
     (\<not> (a = CHR '':'' \<and> b = CHR '' '') \<and> \<not> (a = CHR '' '' \<and> b = CHR ''#'') \<and> plainTail (b # s))"

definition plainStart :: "cstring \<Rightarrow> bool" where
  "plainStart s =
     (case s of
        [] \<Rightarrow> False
      | c # cs \<Rightarrow> c \<notin> set indicators \<or> (c \<in> set ''-?:'' \<and> cs \<noteq> [] \<and> cur cs \<noteq> CHR '' ''))"

definition plainOk :: "cstring \<Rightarrow> bool" where
  "plainOk s \<longleftrightarrow> plainStart s \<and> list_all printable s \<and> plainTail s"

definition flowOk :: "cstring \<Rightarrow> bool" where
  "flowOk s \<longleftrightarrow> plainOk s \<and> list_all (\<lambda>c. c \<notin> set '',:?[]{}'') s"

definition keyOk :: "cstring \<Rightarrow> bool" where
  "keyOk s \<longleftrightarrow> plainOk s \<and> length s < 1024"

definition escapedChar :: "char \<Rightarrow> char option" where
  "escapedChar c =
     map_of [(CHR ''0'', CHR 0x00), (CHR ''a'', CHR 0x07), (CHR ''b'', CHR 0x08), (CHR ''t'', CHR 0x09), (CHR ''n'', CHR 0x0A),
       (CHR ''v'', CHR 0x0B), (CHR ''f'', CHR 0x0C), (CHR ''r'', CHR 0x0D), (CHR ''e'', CHR 0x1B), (CHR '' '', CHR '' ''),
       (CHR 0x22, CHR 0x22), (CHR ''/'', CHR ''/''), (CHR 0x5C, CHR 0x5C)] c"

text \<open>The values of quoted scalars from behind the opening quote; the closing quote ends the text.\<close>

fun doubleValue :: "cstring \<Rightarrow> cstring option" where
  "doubleValue [] = None"
| "doubleValue (c # s) =
     (if c = CHR 0x22 then (if s = [] then Some [] else None)
      else if c = CHR 0x5C
      then (case s of
              [] \<Rightarrow> None
            | e # s \<Rightarrow> Option.bind (escapedChar e) (\<lambda>x. map_option (Cons x) (doubleValue s)))
      else if printable c then map_option (Cons c) (doubleValue s) else None)"

fun singleValue :: "cstring \<Rightarrow> cstring option" where
  "singleValue [] = None"
| "singleValue (c # s) =
     (if c = CHR 0x27 then (if s = [] then Some [] else None)
      else if printable c then map_option (Cons c) (singleValue s) else None)"

text \<open>A literal block: the first line gives the indentation, which is deeper than the block around it; line breaks at the
  end are reduced to one.\<close>

fun splitLines :: "cstring \<Rightarrow> cstring list" where
  "splitLines [] = [[]]"
| "splitLines (c # s) = (if c = CHR 0x0A then [] # splitLines s else (c # hd (splitLines s)) # tl (splitLines s))"

definition blockLine :: "nat \<Rightarrow> cstring \<Rightarrow> cstring option" where
  "blockLine n line =
     (if take n line = spaces n then Some (drop n line) else if list_all (\<lambda>c. c = CHR '' '') line then Some [] else None)"

definition trimLines :: "cstring list \<Rightarrow> cstring list" where
  "trimLines ls = rev (dropWhile (\<lambda>l. l = []) (rev ls))"

definition joinLines :: "cstring list \<Rightarrow> cstring" where
  "joinLines ls = concat (map (\<lambda>l. l @ newline) ls)"

definition blockValue :: "nat \<Rightarrow> cstring \<Rightarrow> cstring option" where
  "blockValue n s =
     (let ls = splitLines s; k = length (takeWhile (\<lambda>c. c = CHR '' '') (hd ls)) in
      if k \<le> n \<or> k = length (hd ls) \<or> \<not> list_all (list_all (\<lambda>c. printable c \<or> c = CHR 0x09)) ls then None
      else map_option (\<lambda>ls. joinLines (trimLines ls)) (those (map (blockLine k) ls)))"

text \<open>The value of a scalar in a block \<open>n\<close> columns deep; \<open>None\<close> is a text that is no scalar.\<close>

definition scalarValue :: "nat \<Rightarrow> cstring \<Rightarrow> cstring option" where
  "scalarValue n s =
     (case s of
        [] \<Rightarrow> Some []
      | c # cs \<Rightarrow>
          if c = CHR 0x22 then doubleValue cs
          else if c = CHR 0x27 then singleValue cs
          else if c = CHR ''|'' then (if cur cs = CHR 0x0A then blockValue n (tl cs) else None)
          else if plainOk s then Some s else None)"

section \<open>Trees of documents\<close>

definition keysOk :: "(cstring \<times> 'a) list \<Rightarrow> bool" where
  "keysOk fs \<longleftrightarrow> fs \<noteq> [] \<and> list_all (\<lambda>f. keyOk (fst f)) fs"

fun docOk :: "nat \<Rightarrow> doc \<Rightarrow> bool" where
  "docOk n (Text s) = (scalarValue n s \<noteq> None)"
| "docOk n (Flow ss) = list_all flowOk ss"
| "docOk n (Strings ss) = (ss \<noteq> [] \<and> list_all (\<lambda>s. scalarValue (n + 2) s \<noteq> None) ss)"
| "docOk n (Fields fs) = (keysOk fs \<and> list_all (\<lambda>(k, d). docOk (n + 2) d) fs)"
| "docOk n (Records rs) = (rs \<noteq> [] \<and> list_all (\<lambda>fs. keysOk fs \<and> list_all (\<lambda>(k, d). docOk (n + 4) d) fs) rs)"

text \<open>An empty mapping is laid out as nothing, which is the empty scalar.\<close>

definition mappingOf :: "(yaml \<times> yaml) list \<Rightarrow> yaml" where
  "mappingOf kvs = (if kvs = [] then YScalar [] else YMap kvs)"

definition scalarOfText :: "nat \<Rightarrow> cstring \<Rightarrow> yaml" where
  "scalarOfText n s = YScalar (textOf (scalarValue n s))"

fun treeOf :: "nat \<Rightarrow> doc \<Rightarrow> yaml" where
  "treeOf n (Text s) = scalarOfText n s"
| "treeOf n (Flow ss) = YSeq (map YScalar ss)"
| "treeOf n (Strings ss) = YSeq (map (scalarOfText (n + 2)) ss)"
| "treeOf n (Fields fs) = mappingOf (map (\<lambda>(k, d). (YScalar k, treeOf (n + 2) d)) fs)"
| "treeOf n (Records rs) = YSeq (map (\<lambda>fs. mappingOf (map (\<lambda>(k, d). (YScalar k, treeOf (n + 4) d)) fs)) rs)"

definition fileOk :: "doc_section list \<Rightarrow> bool" where
  "fileOk ss \<longleftrightarrow> ss \<noteq> [] \<and> list_all (\<lambda>s. keyOk (sec_key s) \<and> docOk 0 (sec_doc s)) ss"


section \<open>Texts that are written so that they read back\<close>




lemma splitLines_not_Nil [simp]: "splitLines s \<noteq> []"
  by (cases s) simp_all








lemma spaces_simps [simp]: "length (spaces n) = n" "CHR 0x0A \<notin> set (spaces n)" "list_all printable (spaces n)"
  by (simp_all add: spaces_def printable_def list_all_iff)


lemma blockLine_simps [simp]: "blockLine n (spaces n @ l) = Some l" "blockLine n [] = Some []"
  by (simp_all add: blockLine_def)


lemma scalarValue_plain: "plainOk s \<Longrightarrow> scalarValue n s = Some s"
  by (auto simp: scalarValue_def plainOk_def plainStart_def indicators_def split: list.splits)


section \<open>Metadata that can be written\<close>











section \<open>The document follows the rules\<close>

definition fieldsOk :: "nat \<Rightarrow> (cstring \<times> doc) list \<Rightarrow> bool" where
  "fieldsOk n fs \<longleftrightarrow> list_all (\<lambda>(k, d). keyOk k \<and> docOk n d) fs"

lemma fieldsOk_simps [simp]:
  "fieldsOk n []" "fieldsOk n ((k, d) # fs) \<longleftrightarrow> keyOk k \<and> docOk n d \<and> fieldsOk n fs"
  "fieldsOk n (fs @ fs') \<longleftrightarrow> fieldsOk n fs \<and> fieldsOk n fs'"
  by (simp_all add: fieldsOk_def)

lemma keysOk_fieldsOk: "keysOk fs \<and> list_all (\<lambda>(k, d). docOk n d) fs \<longleftrightarrow> fs \<noteq> [] \<and> fieldsOk n fs"
  by (auto simp: keysOk_def fieldsOk_def list_all_iff)


lemma docOk_Records: "docOk n (Records rs) \<longleftrightarrow> rs \<noteq> [] \<and> list_all (\<lambda>fs. fs \<noteq> [] \<and> fieldsOk (n + 4) fs) rs"
  by (simp add: keysOk_fieldsOk)

declare docOk.simps(4,5) [simp del]

lemma literal_keys [simp]:
  "keyOk ''package''" "keyOk ''name''" "keyOk ''version''" "keyOk ''author''" "keyOk ''description''" "keyOk ''license''"
  "keyOk ''repository''" "keyOk ''homepage''" "keyOk ''entry''" "keyOk ''output''" "keyOk ''c-libs''" "keyOk ''c-lib-dirs''"
  "keyOk ''c-header-dirs''" "keyOk ''c-defines''" "keyOk ''c-flags''" "keyOk ''defines''" "keyOk ''flags''"
  "keyOk ''plugins-dir''" "keyOk ''stdlib''" "keyOk ''default''" "keyOk ''tag''" "keyOk ''branch''" "keyOk ''path''"
  "keyOk ''file''" "keyOk ''args''" "keyOk ''depends''" "keyOk ''inputs''" "keyOk ''outputs''" "keyOk ''command''" "keyOk ''env''"
  "keyOk ''plugin''" "keyOk ''script''" "keyOk ''required''" "keyOk ''build''" "keyOk ''builds''" "keyOk ''dependencies''"
  "keyOk ''dev-dependencies''" "keyOk ''tests''" "keyOk ''scripts''" "keyOk ''install''" "keyOk ''install-dev''"
  by code_simp+

lemma literal_true [simp]: "scalarValue n ''true'' = Some ''true''"
proof -
  have "plainOk ''true''" by code_simp
  then show ?thesis by (rule scalarValue_plain)
qed
























section \<open>The tree reads as the metadata\<close>






declare treeOf.simps(4,5) [simp del]

lemma readMapping_mappingOf [simp]: "kvs \<noteq> [] \<Longrightarrow> readMapping err err' field x (mappingOf kvs) = readFields err' field x kvs"
  by (simp add: readMapping_def mappingOf_def)

lemma readScalar_YScalar [simp]: "readScalar err (YScalar s) = Inr s"
  by (simp add: readScalar_def)

lemma readSet_YScalar [simp]: "readSet upd x (YScalar s) = Inr (upd s x)"
  by (simp add: readSet_def)

lemma readValid_YScalar [simp]: "valid (Some s) = None \<Longrightarrow> readValid valid err upd x (YScalar s) = Inr (upd s x)"
  by (simp add: readValid_def)


lemma read_strings:
  "readElements (readString err) xs (map YScalar ss) = Inr (xs @ ss)"
  by (induction ss arbitrary: xs) (simp_all add: readString_def)





lemma readSetStrings_strings [simp]: "readSetStrings get upd x (YSeq (map YScalar ss)) = Inr (upd (get x @ ss) x)"
  by (simp add: readSetStrings_def readStringArray_def readSequence_def read_strings)


















text \<open>Installation scripts.\<close>

lemma readPlugin_strings [simp]:
  "readPluginField ''inputs'' s (YSeq (map YScalar ss)) = Inr (s\<lparr>is_pluginInputs := is_pluginInputs s @ ss\<rparr>)"
  "readPluginField ''args'' s (YSeq (map YScalar ss)) = Inr (s\<lparr>is_pluginArgs := is_pluginArgs s @ ss\<rparr>)"
  by (simp_all add: readPluginField_def readSequence_def read_strings)








definition sectionTrees :: "doc_section list \<Rightarrow> (yaml \<times> yaml) list" where
  "sectionTrees ss = map (\<lambda>s. (YScalar (sec_key s), treeOf 0 (sec_doc s))) ss"

lemma sectionTrees_simps [simp]:
  "sectionTrees [] = []" "sectionTrees (section_of pre key d post # ss) = (YScalar key, treeOf 0 d) # sectionTrees ss"
  "sectionTrees (ss @ ss') = sectionTrees ss @ sectionTrees ss'"
  by (simp_all add: sectionTrees_def section_of_def)

















section \<open>What does not read back\<close>

text \<open>A section for one build that has no entry is not written: whatever else it says is lost when a package file is read and
  written again, as the commands that add and remove dependencies do.\<close>

theorem build_without_entry_is_lost:
  assumes "missing (bc_entry (md_build m))"
  shows "writeCxyfile opened m = writeCxyfile opened (m\<lparr>md_build := zeroBuildConfig\<rparr>)"
proof -
  have "writeBuilds m = writeBuilds (m\<lparr>md_build := zeroBuildConfig\<rparr>)"
    using assms by (simp add: writeBuilds_def zeroBuildConfig_def missing_def)
  then show ?thesis
    by (simp add: writeCxyfile_def packageText_def writePackage_def writeDependencies_def writeDevDependencies_def writeTests_def writeScripts_def)
qed

theorem build_without_entry_is_lost_witness:
  "\<exists>m. readCxyfile (YMap [(YScalar ''build'', YMap [(YScalar ''output'', YScalar ''app'')])]) = Inr m \<and> bc_output (md_build m) = Some ''app'' \<and>
     writeCxyfile True m = writeCxyfile True initPackageMetadata"
proof -
  let ?m = "initPackageMetadata\<lparr>md_build := zeroBuildConfig\<lparr>bc_output := Some ''app''\<rparr>\<rparr>"
  have "readCxyfile (YMap [(YScalar ''build'', YMap [(YScalar ''output'', YScalar ''app'')])]) = Inr ?m"
    by (simp add: readCxyfile_def readMapping_def readRootField_def readBuildConfig_def readBuildConfigField_def initPackageMetadata_def)
  moreover have "missing (bc_entry (md_build ?m))" by (simp add: missing_def zeroBuildConfig_def)
  then have "writeCxyfile True ?m = writeCxyfile True (?m\<lparr>md_build := zeroBuildConfig\<rparr>)" by (rule build_without_entry_is_lost)
  moreover have "?m\<lparr>md_build := zeroBuildConfig\<rparr> = initPackageMetadata" by (simp add: initPackageMetadata_def)
  ultimately show ?thesis by (intro exI [of _ ?m]) simp
qed

text \<open>The constraint of a development dependency is written without quotes: the constraint \<open>*\<close>, or one that begins with \<open>>\<close>, is no
  plain scalar, and the file cannot be read again.\<close>

theorem dev_constraint_unreadable:
  assumes "d \<in> set (md_devDependencies m)" "fd_version d = Some (c # s)" "c = CHR ''*'' \<or> c = CHR ''>''"
  shows "\<not> fileOk (packageDoc m)"
proof -
  have "\<not> plainOk (c # s)" using assms(3) by (auto simp: plainOk_def plainStart_def indicators_def)
  then have bad: "scalarValue 4 (c # s) = None" using assms(3) by (auto simp: scalarValue_def)
  have "\<not> fieldsOk 4 (dependencyFields False d)"
    using bad assms(2) by (simp add: dependencyFields_def missing_def textOf_def)
  then have "\<not> docOk 0 (Records (map (dependencyFields False) (md_devDependencies m)))"
    using assms(1) by (auto simp: docOk_Records list_all_iff)
  moreover have "md_devDependencies m \<noteq> []" using assms(1) by auto
  ultimately show ?thesis by (simp add: fileOk_def packageDoc_def devSection_def section_of_def)
qed

theorem dev_constraint_unreadable_witness:
  "\<not> fileOk (packageDoc (initPackageMetadata\<lparr>md_devDependencies := [zeroDependency\<lparr>fd_version := Some ''*''\<rparr>]\<rparr>))"
  using dev_constraint_unreadable [of "zeroDependency\<lparr>fd_version := Some ''*''\<rparr>" _ "CHR ''*''" "[]"] by simp

text \<open>Lines without a line break at the end gain one.\<close>

theorem multiline_gains_newline:
  "scalarValue 2 (writeYamlStringWithIndent (Some (''a'' @ newline @ ''b'')) 4) = Some (''a'' @ newline @ ''b'' @ newline)"
  by code_simp

text \<open>A text that begins with a percent sign, an at sign or a backquote is written plain, which YAML does not allow.\<close>

theorem indicator_written_plain:
  "writeYamlStringWithIndent (Some ''@all'') n = ''@all'' \<and> scalarValue k ''@all'' = None"
proof
  have "\<not> plainOk ''@all''" by code_simp
  then show "scalarValue k ''@all'' = None" by (simp add: scalarValue_def)
qed (simp add: writeYamlStringWithIndent_def missing_def isMultiline_def needsYamlEscaping_def specialChars_def)

end
