(* ===== verification/Cxy_PackageProps.thy ===== *)
theory Cxy_PackageProps
  imports Cxy_PackageTree
begin

text \<open>
  What a package file that is read and validated promises: valid fields, and version constraints that the resolver
  understands (\<open>validatePackageMetadata\<close> of \<open>package/cxyfile.c\<close> over \<open>package/validators.c\<close> and \<open>package/types.c\<close>).
\<close>

section \<open>Validation\<close>

datatype metadata_error =
  NameRequired | BadName validation_error | VersionRequired | BadVersion validation_error | AuthorRequired
| DependencyNameRequired | SourceRequired cstring | BadLicense validation_error | BadRepository validation_error

definition required ::
  "metadata_error \<Rightarrow> (cstring option \<Rightarrow> validation_error option) \<Rightarrow> (validation_error \<Rightarrow> metadata_error) \<Rightarrow> cstring option \<Rightarrow>
   metadata_error list" where
  "required err valid bad s =
     (if missing s then [err] else case valid s of Some e \<Rightarrow> [bad e] | None \<Rightarrow> [])"

definition optional ::
  "(cstring option \<Rightarrow> validation_error option) \<Rightarrow> (validation_error \<Rightarrow> metadata_error) \<Rightarrow> cstring option \<Rightarrow> metadata_error list" where
  "optional valid bad s = (if missing s then [] else case valid s of Some e \<Rightarrow> [bad e] | None \<Rightarrow> [])"

definition dependencyErrors :: "FileDependency \<Rightarrow> metadata_error list" where
  "dependencyErrors d =
     (if missing (fd_name d) then [DependencyNameRequired] else []) @
     (if missing (fd_repository d) \<and> missing (fd_path d)
      then [SourceRequired (case fd_name d of Some s \<Rightarrow> s | None \<Rightarrow> ''unknown'')] else [])"

text \<open>The errors that are logged; the metadata are valid if there are none. The development dependencies are not
  looked at.\<close>

definition validatePackageMetadata :: "Metadata \<Rightarrow> metadata_error list" where
  "validatePackageMetadata meta =
     required NameRequired validatePackageName BadName (md_name meta) @
     required VersionRequired validateSemanticVersion BadVersion (md_version meta) @
     (if missing (md_author meta) then [AuthorRequired] else []) @
     concat (map dependencyErrors (md_dependencies meta)) @
     optional validateLicenseIdentifier BadLicense (md_license meta) @
     optional validateGitRepository BadRepository (md_repository meta)"

section \<open>What reading keeps\<close>

lemma readFields_keeps:
  assumes "\<And>key x v y. P x \<Longrightarrow> field key x v = Inr y \<Longrightarrow> P y" "P x" "readFields err field x kvs = Inr y"
  shows "P y"
  using assms(2,3)
proof (induction kvs arbitrary: x)
  case (Cons kv kvs)
  obtain k v where kv: "kv = (k, v)" by (cases kv)
  then obtain s x' where "field s x v = Inr x'" "readFields err field x' kvs = Inr y"
    using Cons.prems(2) by (auto simp: thenE_def split: sum.splits)
  then show ?case using Cons.IH assms(1) [OF Cons.prems(1)] by blast
qed simp

lemma readMapping_keeps:
  assumes "\<And>key x v y. P x \<Longrightarrow> field key x v = Inr y \<Longrightarrow> P y" "P x" "readMapping err err' field x v = Inr y"
  shows "P y"
  using assms(3) readFields_keeps [of P field, OF assms(1,2)] by (auto simp: readMapping_def split: yaml.splits)

lemma readSequence_keeps:
  assumes "\<And>x v y. P x \<Longrightarrow> element x v = Inr y \<Longrightarrow> P y" "P x" "readSequence err element x v = Inr y"
  shows "P y"
proof -
  obtain vs where "readElements element x vs = Inr y" using assms(3) by (auto simp: readSequence_def split: yaml.splits)
  then show ?thesis using assms(2)
  proof (induction vs arbitrary: x)
    case (Cons v vs)
    then show ?case using assms(1) by (auto simp: thenE_def split: sum.splits)
  qed simp
qed

text \<open>An optional field that is valid when it is there.\<close>

definition checked :: "(cstring option \<Rightarrow> validation_error option) \<Rightarrow> cstring option \<Rightarrow> bool" where
  "checked valid s \<longleftrightarrow> (case s of None \<Rightarrow> True | Some x \<Rightarrow> valid (Some x) = None)"

lemma checked_simps [simp]: "checked valid None" "checked valid (Some s) \<longleftrightarrow> valid (Some s) = None"
  by (simp_all add: checked_def)

lemma checked_present: "checked valid s \<Longrightarrow> \<not> missing s \<Longrightarrow> \<exists>x. s = Some x \<and> x \<noteq> [] \<and> valid (Some x) = None"
  by (cases s) (simp_all add: missing_def)

definition dependency_ok :: "FileDependency \<Rightarrow> bool" where
  "dependency_ok d \<longleftrightarrow>
     checked validatePackageName (fd_name d) \<and> checked validateGitRepository (fd_repository d) \<and>
     checked validateConstraint (fd_version d) \<and> \<not> fd_isDev d"

text \<open>The readers of the fields are chains of comparisons with the names of the fields; which name was compared does not
  matter for what they keep.\<close>

lemma chainE: "(if c then a else b) = r \<Longrightarrow> (a = r \<Longrightarrow> thesis) \<Longrightarrow> (b = r \<Longrightarrow> thesis) \<Longrightarrow> thesis"
  by (cases c) simp_all

lemma readSetE: "readSet upd x v = Inr y \<Longrightarrow> (\<And>s. y = upd s x \<Longrightarrow> thesis) \<Longrightarrow> thesis"
  by (auto simp: readSet_def thenE_def split: sum.splits)

lemma readValidE: "readValid valid err upd x v = Inr y \<Longrightarrow> (\<And>s. valid (Some s) = None \<Longrightarrow> y = upd s x \<Longrightarrow> thesis) \<Longrightarrow> thesis"
  by (auto simp: readValid_def thenE_def split: sum.splits option.splits)

lemma thenInrE: "thenE s (\<lambda>x. Inr (f x)) = Inr y \<Longrightarrow> (\<And>x. s = Inr x \<Longrightarrow> y = f x \<Longrightarrow> thesis) \<Longrightarrow> thesis"
  by (cases s) simp_all

lemma readDependencyField_ok: "dependency_ok d \<Longrightarrow> readDependencyField key d v = Inr d' \<Longrightarrow> dependency_ok d'"
  unfolding readDependencyField_def
  by (elim chainE readSetE readValidE) (simp_all add: dependency_ok_def)

lemma readDependencies_ok:
  assumes "list_all dependency_ok ds" "readDependencies ds v = Inr ds'"
  shows "list_all dependency_ok ds'"
proof -
  have "list_all dependency_ok ys" if "list_all dependency_ok xs" "readDependency xs v = Inr ys" for xs ys v
  proof -
    obtain d where d: "readMapping ExpectedDependency ExpectedDependencyField readDependencyField zeroDependency v = Inr d" "ys = xs @ [d]"
      using \<open>readDependency xs v = Inr ys\<close> by (auto simp: readDependency_def thenE_def split: sum.splits)
    have "dependency_ok d"
      by (rule readMapping_keeps [OF readDependencyField_ok _ d(1)]) (simp_all add: dependency_ok_def zeroDependency_def)
    then show ?thesis using that(1) d(2) by simp
  qed
  then show ?thesis using assms unfolding readDependencies_def by (rule readSequence_keeps)
qed

definition metadata_ok :: "Metadata \<Rightarrow> bool" where
  "metadata_ok m \<longleftrightarrow>
     checked validatePackageName (md_name m) \<and> checked validateSemanticVersion (md_version m) \<and>
     checked validateLicenseIdentifier (md_license m) \<and> checked validateGitRepository (md_repository m) \<and>
     list_all dependency_ok (md_dependencies m) \<and> list_all dependency_ok (md_devDependencies m)"

lemma readPackageField_ok: "metadata_ok m \<Longrightarrow> readPackageField key m v = Inr m' \<Longrightarrow> metadata_ok m'"
  unfolding readPackageField_def
  by (elim chainE readSetE readValidE) (simp_all add: metadata_ok_def)

lemma readPackageSection_ok: "metadata_ok m \<Longrightarrow> readPackageSection m v = Inr m' \<Longrightarrow> metadata_ok m'"
  unfolding readPackageSection_def by (rule readMapping_keeps [where P = metadata_ok, OF readPackageField_ok])

lemma readRootField_ok: "metadata_ok m \<Longrightarrow> readRootField key m v = Inr m' \<Longrightarrow> metadata_ok m'"
  unfolding readRootField_def
  by (elim chainE thenInrE) (simp_all add: readPackageSection_ok, auto simp: metadata_ok_def intro: readDependencies_ok)

lemma readCxyfile_ok:
  assumes "readCxyfile v = Inr m"
  shows "metadata_ok m"
proof -
  have "metadata_ok initPackageMetadata" by (simp add: metadata_ok_def initPackageMetadata_def)
  from _ this assms [unfolded readCxyfile_def] show ?thesis by (rule readMapping_keeps) (rule readRootField_ok)
qed

text \<open>C27: A package file that is read and passes the validation has a valid name and version, an author, and a license and
  repository that are valid when they are given; each dependency has a valid name, a repository or a path, a
  valid repository and a valid constraint when it has one.\<close>

theorem package_file_is_valid:
  assumes "parseCxyfile (Some (StreamStart # DocumentStart # eventsOf v @ r, broken)) = Some (Inr m)" "validatePackageMetadata m = []"
  shows "(\<exists>s. md_name m = Some s \<and> validatePackageName (Some s) = None) \<and>
     (\<exists>s. md_version m = Some s \<and> validateSemanticVersion (Some s) = None) \<and>
     (\<exists>s. md_author m = Some s \<and> s \<noteq> []) \<and>
     (\<forall>s. md_license m = Some s \<longrightarrow> validateLicenseIdentifier (Some s) = None) \<and>
     (\<forall>s. md_repository m = Some s \<longrightarrow> validateGitRepository (Some s) = None) \<and>
     (\<forall>d\<in>set (md_dependencies m). (\<exists>s. fd_name d = Some s \<and> validatePackageName (Some s) = None) \<and>
        ((\<exists>s. fd_repository d = Some s \<and> validateGitRepository (Some s) = None) \<or> (\<exists>s. fd_path d = Some s \<and> s \<noteq> [])) \<and>
        (\<forall>s. fd_version d = Some s \<longrightarrow> validateConstraint (Some s) = None))"
proof -
  have ok: "metadata_ok m" using assms(1) readCxyfile_ok by (simp add: parseCxyfile_tree)
  have none: "\<not> missing (md_name m)" "\<not> missing (md_version m)" "\<not> missing (md_author m)"
    "\<forall>d\<in>set (md_dependencies m). dependencyErrors d = []"
    using assms(2) by (auto simp: validatePackageMetadata_def required_def split: if_splits)
  have dependency: "(\<exists>s. fd_name d = Some s \<and> validatePackageName (Some s) = None) \<and>
        ((\<exists>s. fd_repository d = Some s \<and> validateGitRepository (Some s) = None) \<or> (\<exists>s. fd_path d = Some s \<and> s \<noteq> [])) \<and>
        (\<forall>s. fd_version d = Some s \<longrightarrow> validateConstraint (Some s) = None)" if d: "d \<in> set (md_dependencies m)" for d
  proof -
    have "dependency_ok d" "dependencyErrors d = []" using ok none(4) d by (simp_all add: metadata_ok_def list_all_iff)
    then have "\<not> missing (fd_name d)" "\<not> missing (fd_repository d) \<or> \<not> missing (fd_path d)"
      "checked validatePackageName (fd_name d)" "checked validateGitRepository (fd_repository d)" "checked validateConstraint (fd_version d)"
      by (simp_all add: dependency_ok_def dependencyErrors_def split: if_splits)
    then show ?thesis using checked_present [of validatePackageName] checked_present [of validateGitRepository]
      by (cases "fd_path d") (auto simp: missing_def)
  qed
  have "checked validatePackageName (md_name m)" "checked validateSemanticVersion (md_version m)"
    "checked validateLicenseIdentifier (md_license m)" "checked validateGitRepository (md_repository m)"
    using ok by (simp_all add: metadata_ok_def)
  moreover have "\<exists>s. md_author m = Some s \<and> s \<noteq> []" using none(3) by (auto simp: missing_def)
  ultimately show ?thesis using none(1,2) dependency checked_present [of validatePackageName "md_name m"]
      checked_present [of validateSemanticVersion "md_version m"] by auto
qed

definition demo_file :: yaml where
  "demo_file = YMap
     [(YScalar ''package'', YMap [(YScalar ''name'', YScalar ''demo''), (YScalar ''version'', YScalar ''1.2.3''), (YScalar ''author'', YScalar ''me'')]),
      (YScalar ''extra'', YSeq [YMap [(YScalar ''a'', YSeq [])], YAlias ''b'']),
      (YScalar ''dependencies'', YSeq [YMap [(YScalar ''name'', YScalar ''json''), (YScalar ''path'', YScalar ''../json''), (YScalar ''version'', YScalar ''^1.0.0'')]])]"

theorem package_file_is_valid_witness:
  "\<exists>m. parseCxyfile (Some (StreamStart # DocumentStart # eventsOf demo_file @ [DocumentEnd, StreamEnd], False)) = Some (Inr m) \<and>
     md_name m = Some ''demo'' \<and> (\<exists>s. md_version m = Some s \<and> validateSemanticVersion (Some s) = None)"
proof -
  obtain m where m: "readCxyfile demo_file = Inr m" "md_name m = Some ''demo''" "validatePackageMetadata m = []"
  proof -
    have "case readCxyfile demo_file of Inr m \<Rightarrow> md_name m = Some ''demo'' \<and> validatePackageMetadata m = [] | Inl _ \<Rightarrow> False"
      by code_simp
    then show thesis using that by (auto split: sum.splits)
  qed
  have run: "parseCxyfile (Some (StreamStart # DocumentStart # eventsOf demo_file @ [DocumentEnd, StreamEnd], False)) = Some (Inr m)"
    using m(1) by (simp only: parseCxyfile_tree)
  show ?thesis using package_file_is_valid [OF run m(3)] run m(2) by auto
qed

text \<open>The dependencies of both sections are read alike: no dependency is marked as a development dependency, so the resolver,
  which sorts the lock file by that mark, takes all of them for ordinary ones.\<close>

theorem dev_dependencies_unmarked:
  assumes "parseCxyfile (Some (StreamStart # DocumentStart # eventsOf v @ r, broken)) = Some (Inr m)"
  shows "\<forall>d\<in>set (md_dependencies m @ md_devDependencies m). \<not> fd_isDev d"
proof -
  have "metadata_ok m" using assms readCxyfile_ok by (simp add: parseCxyfile_tree)
  then show ?thesis by (auto simp: metadata_ok_def list_all_iff dependency_ok_def)
qed

theorem dev_dependencies_unmarked_witness:
  "\<exists>m d. parseCxyfile (Some (StreamStart # DocumentStart # eventsOf (YMap [(YScalar ''dev-dependencies'', YSeq [YMap []])]) @ [], False)) = Some (Inr m) \<and>
     md_devDependencies m = [d] \<and> \<not> fd_isDev d"
proof -
  let ?v = "YMap [(YScalar ''dev-dependencies'', YSeq [YMap []])]"
  obtain m where m: "readCxyfile ?v = Inr m" "md_devDependencies m = [zeroDependency]"
    by (simp add: readCxyfile_def readMapping_def readScalar_def readRootField_def readDependencies_def readSequence_def readDependency_def
        initPackageMetadata_def)
  have run: "parseCxyfile (Some (StreamStart # DocumentStart # eventsOf ?v @ [], False)) = Some (Inr m)"
    using m(1) by (simp only: parseCxyfile_tree)
  show ?thesis using dev_dependencies_unmarked [OF run] run m(2) by auto
qed

end
