(* ===== verification/Cxy_PackageInstall.thy ===== *)
theory Cxy_PackageInstall
  imports Cxy_PackageProps
begin

text \<open>
  Finding the package file above a directory, and installing a dependency (\<open>package/cxyfile.c\<close>), with the git commands of
  \<open>package/gitops.c\<close> and \<open>makeDirectory\<close> of \<open>core/utils.c\<close>. The file system is a state of any type; what the operating system
  answers (\<open>stat\<close>, \<open>mkdir\<close>, the exit status of a command) is a record of functions over it.
\<close>

section \<open>Finding the package file\<close>

text \<open>Paths are built in buffers of 1024 bytes.\<close>

definition cxyfilePath :: "cstring \<Rightarrow> cstring" where
  "cxyfilePath dir = take 1023 (dir @ ''/Cxyfile.yaml'')"

function searchUp :: "(cstring \<Rightarrow> bool) \<Rightarrow> cstring \<Rightarrow> cstring option" where
  "searchUp regular dir =
     (if regular (cxyfilePath dir) then Some dir
      else case strrchr dir (CHR ''/'') of
             None \<Rightarrow> None
           | Some i \<Rightarrow> if i = 0 then None else searchUp regular (take i dir))"
  by auto
termination by (relation "measure (\<lambda>(_, dir). length dir)") (auto dest: strrchr_Some(1))

declare searchUp.simps [simp del]

datatype search_error = NoCurrentDirectory | NoCxyfile

definition findAndLoadFile ::
  "(cstring \<Rightarrow> bool) \<Rightarrow> (cstring \<Rightarrow> (yaml_event list \<times> bool) option) \<Rightarrow> cstring option \<Rightarrow> cstring option \<Rightarrow>
   search_error + cstring \<times> (file_error + Metadata) option" where
  "findAndLoadFile regular files cwd startDir =
     (case (case startDir of Some d \<Rightarrow> Some (take 1023 d) | None \<Rightarrow> cwd) of
        None \<Rightarrow> Inl NoCurrentDirectory
      | Some dir \<Rightarrow>
          case searchUp regular dir of
            None \<Rightarrow> Inl NoCxyfile
          | Some dir \<Rightarrow> Inr (dir, parseCxyfile (files (cxyfilePath dir))))"

text \<open>A directory as its components, written as an absolute or as a relative path.\<close>

fun dirPath :: "bool \<Rightarrow> cstring list \<Rightarrow> cstring" where
  "dirPath absolute [] = []"
| "dirPath absolute (c # cs) = (if absolute then CHR ''/'' # c else c) @ concat (map (\<lambda>c. CHR ''/'' # c) cs)"

lemma dirPath_snoc: "cs \<noteq> [] \<Longrightarrow> dirPath absolute (cs @ [c]) = dirPath absolute cs @ CHR ''/'' # c"
  by (cases cs) auto

lemma dirPath_nonempty: "cs \<noteq> [] \<Longrightarrow> [] \<notin> set cs \<Longrightarrow> dirPath absolute cs \<noteq> []"
  by (cases cs) auto

lemma dirPath_take: "length (dirPath absolute (take k cs)) \<le> length (dirPath absolute cs)"
proof (cases cs)
  case (Cons c ds)
  have "length (concat (map (\<lambda>c. CHR ''/'' # c) (take n ds))) \<le> length (concat (map (\<lambda>c. CHR ''/'' # c) ds))" for n
    by (metis append_take_drop_id concat_append le_add1 length_append map_append)
  with Cons show ?thesis by (cases k) auto
qed simp

lemma strrchr_last: "CHR ''/'' \<notin> set c \<Longrightarrow> strrchr (p @ CHR ''/'' # c) (CHR ''/'') = Some (length p)"
proof -
  assume "CHR ''/'' \<notin> set c"
  then have "takeWhile (\<lambda>x. x \<noteq> CHR ''/'') (rev (p @ CHR ''/'' # c)) = rev c"
    by (simp add: takeWhile_tail) (metis (mono_tags, lifting) append.right_neutral set_rev takeWhile_append2 takeWhile.simps(1))
  then show ?thesis by (simp add: strrchr_def)
qed

text \<open>The search looks at the start, then drops component after component, down to the first.\<close>

lemma searchUp_components:
  "comps \<noteq> [] \<Longrightarrow> [] \<notin> set comps \<Longrightarrow> \<forall>c\<in>set comps. CHR ''/'' \<notin> set c \<Longrightarrow>
   searchUp regular (dirPath absolute comps) = map_option (\<lambda>k. dirPath absolute (take k comps))
     (List.find (\<lambda>k. regular (cxyfilePath (dirPath absolute (take k comps)))) (rev [1..<Suc (length comps)]))"
proof (induction comps rule: rev_induct)
  case (snoc c cs)
  show ?case
  proof (cases "cs = []")
    case True
    have "strrchr (dirPath absolute [c]) (CHR ''/'') = (if absolute then Some 0 else None)"
      using snoc.prems strrchr_last [of c "[]"] by (auto simp: strrchr_def)
    with True show ?thesis by (subst searchUp.simps) simp
  next
    case False
    let ?dir = "dirPath absolute (cs @ [c])"
    have up: "strrchr ?dir (CHR ''/'') = Some (length (dirPath absolute cs))"
      using snoc.prems strrchr_last by (simp add: dirPath_snoc [OF False])
    have pos: "length (dirPath absolute cs) \<noteq> 0" using dirPath_nonempty [OF False] snoc.prems by simp
    have parent: "take (length (dirPath absolute cs)) ?dir = dirPath absolute cs" by (simp add: dirPath_snoc [OF False])
    have ks: "rev [1..<Suc (length (cs @ [c]))] = Suc (length cs) # rev [1..<Suc (length cs)]" by simp
    have same: "List.find (\<lambda>k. regular (cxyfilePath (dirPath absolute (take k (cs @ [c]))))) (rev [1..<Suc (length cs)]) =
        List.find (\<lambda>k. regular (cxyfilePath (dirPath absolute (take k cs)))) (rev [1..<Suc (length cs)])"
      by (rule find_cong) auto
    have small: "k \<le> length cs" if "List.find P (rev [1..<Suc (length cs)]) = Some k" for P k
    proof -
      from that have "k \<in> set (rev [1..<Suc (length cs)])" by (metis find_Some_iff nth_mem)
      then show ?thesis by auto
    qed
    have IH: "searchUp regular (dirPath absolute cs) = map_option (\<lambda>k. dirPath absolute (take k cs))
       (List.find (\<lambda>k. regular (cxyfilePath (dirPath absolute (take k cs)))) (rev [1..<Suc (length cs)]))"
      using snoc False by simp
    have "map_option (\<lambda>k. dirPath absolute (take k (cs @ [c]))) (List.find P (rev [1..<Suc (length cs)])) =
        map_option (\<lambda>k. dirPath absolute (take k cs)) (List.find P (rev [1..<Suc (length cs)]))" for P
    proof (cases "List.find P (rev [1..<Suc (length cs)])")
      case (Some k)
      with small [OF Some] show ?thesis by (simp only: option.map take_append take_all_iff) simp
    qed (simp only: option.map)
    then have rest: "searchUp regular (dirPath absolute cs) = map_option (\<lambda>k. dirPath absolute (take k (cs @ [c])))
       (List.find (\<lambda>k. regular (cxyfilePath (dirPath absolute (take k (cs @ [c]))))) (rev [1..<Suc (length cs)]))"
      unfolding IH same by simp
    have "searchUp regular ?dir = (if regular (cxyfilePath ?dir) then Some ?dir else searchUp regular (dirPath absolute cs))"
      using up pos parent by (subst searchUp.simps) simp
    then show ?thesis unfolding ks rest by (simp del: upt_Suc)
  qed
qed simp

text \<open>C31: for a start directory (given, or else the current directory) written as non-empty
  components, absolute or relative, that fits the buffers of 1024 bytes with the file name
  behind it, the package file loaded is that of the longest prefix of the components that has
  one, and the search ends without a result exactly if no prefix has one. The shortest prefix
  looked at is the first component: neither the root directory nor, for a relative path, a
  directory above its first component is searched.\<close>

theorem findAndLoad_nearest:
  assumes "comps \<noteq> []" "[] \<notin> set comps" "\<forall>c\<in>set comps. CHR ''/'' \<notin> set c"
    and "length (dirPath absolute comps) + length ''/Cxyfile.yaml'' < 1024"
    and "start = Some (dirPath absolute comps) \<or> start = None \<and> cwd = Some (dirPath absolute comps)"
  shows "findAndLoadFile regular files cwd start =
     (case List.find (\<lambda>k. regular (dirPath absolute (take k comps) @ ''/Cxyfile.yaml'')) (rev [1..<length comps + 1]) of
        None \<Rightarrow> Inl NoCxyfile
      | Some k \<Rightarrow> Inr (dirPath absolute (take k comps), parseCxyfile (files (dirPath absolute (take k comps) @ ''/Cxyfile.yaml''))))"
proof -
  have path: "cxyfilePath (dirPath absolute (take k comps)) = dirPath absolute (take k comps) @ ''/Cxyfile.yaml''" for k
    using assms(4) dirPath_take [of absolute k comps] unfolding cxyfilePath_def by (intro take_all) simp
  have "findAndLoadFile regular files cwd start = (case searchUp regular (dirPath absolute comps) of
      None \<Rightarrow> Inl NoCxyfile | Some dir \<Rightarrow> Inr (dir, parseCxyfile (files (cxyfilePath dir))))"
    using assms(4,5) by (auto simp: findAndLoadFile_def)
  then show ?thesis
    unfolding searchUp_components [OF assms(1-3)] path
    by (auto simp: path simp del: upt_Suc split: option.splits)
qed

theorem findAndLoad_nearest_witness:
  "findAndLoadFile (\<lambda>p. p = ''/home/app/Cxyfile.yaml'') (\<lambda>_. None) None (Some ''/home/app/src'') =
     Inr (''/home/app'', parseCxyfile ((\<lambda>_. None) ''/home/app/Cxyfile.yaml'')) \<and>
   findAndLoadFile (\<lambda>p. p \<in> {''/Cxyfile.yaml'', ''Cxyfile.yaml'', ''./Cxyfile.yaml'', ''../Cxyfile.yaml''}) (\<lambda>_. None) None (Some ''app/src'') = Inl NoCxyfile"
  using findAndLoad_nearest [of "[''home'', ''app'', ''src'']" True "Some ''/home/app/src''" None "\<lambda>p. p = ''/home/app/Cxyfile.yaml''" "\<lambda>_. None"]
    findAndLoad_nearest [of "[''app'', ''src'']" False "Some ''app/src''" None
      "\<lambda>p. p \<in> {''/Cxyfile.yaml'', ''Cxyfile.yaml'', ''./Cxyfile.yaml'', ''../Cxyfile.yaml''}" "\<lambda>_. None"]
  by (simp add: upt_rec)

section \<open>Commands\<close>

datatype file_kind = Directory | Regular | OtherFile

datatype mkdir_result = Made | Exists | Failed

record 'w host =
  host_stat :: "'w \<Rightarrow> cstring \<Rightarrow> file_kind option"
  host_mkdir :: "cstring \<Rightarrow> 'w \<Rightarrow> mkdir_result \<times> 'w"
  host_run :: "cstring \<Rightarrow> 'w \<Rightarrow> bool \<times> 'w"
  host_env :: resolver_env

definition quotedArg :: "cstring \<Rightarrow> cstring" where
  "quotedArg s = CHR '' '' # CHR 0x22 # s @ [CHR 0x22]"

definition gitClone :: "'w host \<Rightarrow> cstring \<Rightarrow> cstring \<Rightarrow> bool \<Rightarrow> 'w \<Rightarrow> bool \<times> 'w" where
  "gitClone H repositoryUrl destination shallow w =
     (if cur repositoryUrl = nul \<or> cur destination = nul then (False, w)
      else host_run H ((if shallow then ''git clone --depth 1'' else ''git clone'') @ quotedArg repositoryUrl @ quotedArg destination @ '' 2>&1'') w)"

definition gitCloneBranch :: "'w host \<Rightarrow> cstring \<Rightarrow> cstring \<Rightarrow> cstring \<Rightarrow> bool \<Rightarrow> 'w \<Rightarrow> bool \<times> 'w" where
  "gitCloneBranch H repositoryUrl branch destination shallow w =
     (if cur repositoryUrl = nul \<or> cur branch = nul \<or> cur destination = nul then (False, w)
      else host_run H ((if shallow then ''git clone --depth 1 --branch'' else ''git clone --branch'') @
        quotedArg branch @ quotedArg repositoryUrl @ quotedArg destination @ '' 2>&1'') w)"

definition gitCloneTag :: "'w host \<Rightarrow> cstring \<Rightarrow> cstring \<Rightarrow> cstring \<Rightarrow> 'w \<Rightarrow> bool \<times> 'w" where
  "gitCloneTag H repositoryUrl tagName destination w =
     (if cur repositoryUrl = nul \<or> cur tagName = nul \<or> cur destination = nul then (False, w)
      else host_run H (''git clone --depth 1 --branch'' @ quotedArg tagName @ quotedArg repositoryUrl @ quotedArg destination @ '' 2>&1'') w)"

text \<open>The loop over the parents: each prefix that ends before a slash is created.\<close>

function makeParents :: "'w host \<Rightarrow> cstring \<Rightarrow> nat \<Rightarrow> 'w \<Rightarrow> bool \<times> 'w" where
  "makeParents H path i w =
     (if i \<ge> length path then (True, w)
      else if path ! i = CHR ''/''
      then (case host_mkdir H (take i path) w of
              (Failed, w) \<Rightarrow> (False, w)
            | (_, w) \<Rightarrow> makeParents H path (i + 1) w)
      else makeParents H path (i + 1) w)"
  by pat_completeness auto
termination by (relation "measure (\<lambda>(_, path, i, _). length path - i)") auto

declare makeParents.simps [simp del]

definition makeDirectory :: "'w host \<Rightarrow> cstring \<Rightarrow> bool \<Rightarrow> 'w \<Rightarrow> bool \<times> 'w" where
  "makeDirectory H path createParents w =
     (if cur path = nul then (False, w)
      else case host_stat H w path of
        Some kind \<Rightarrow> (kind = Directory, w)
      | None \<Rightarrow>
          if \<not> createParents then (case host_mkdir H path w of (r, w) \<Rightarrow> (r = Made, w))
          else case makeParents H path (if cur path = CHR ''/'' then 1 else 0) w of
            (False, w) \<Rightarrow> (False, w)
          | (True, w) \<Rightarrow> (case host_mkdir H path w of (r, w) \<Rightarrow> (r \<noteq> Failed, w)))"

section \<open>Installing a dependency\<close>

definition removeTree :: "'w host \<Rightarrow> cstring \<Rightarrow> 'w \<Rightarrow> 'w" where
  "removeTree H path w = snd (host_run H (''rm -rf'' @ quotedArg path) w)"

definition targetPath :: "cstring \<Rightarrow> cstring \<Rightarrow> cstring" where
  "targetPath packagesDir name = take 1023 (packagesDir @ ''/'' @ name)"

text \<open>What is cloned: the tag, the branch, the best version for the constraint, or the default branch. The first component is
  whether there was anything to clone; a constraint that cannot be parsed or met is an error of its own.\<close>

definition cloneDependency :: "'w host \<Rightarrow> FileDependency \<Rightarrow> cstring \<Rightarrow> cstring \<Rightarrow> 'w \<Rightarrow> bool \<times> 'w" where
  "cloneDependency H d repository target w =
     (if \<not> missing (fd_tag d) then gitCloneTag H repository (the (fd_tag d)) target w
      else if \<not> missing (fd_branch d) then gitCloneBranch H repository (the (fd_branch d)) target True w
      else if \<not> missing (fd_version d) \<and> fd_version d \<noteq> Some ''*''
      then (case parseVersionConstraint (fd_version d) zero_constraint of
              Inl e \<Rightarrow> (False, w)
            | Inr constraint \<Rightarrow>
                (case findBestMatchingVersion (host_env H) repository [constraint] of
                   None \<Rightarrow> (False, w)
                 | Some bestTag \<Rightarrow> gitCloneTag H repository (tag_name bestTag) target w))
      else gitClone H repository target True w)"

definition installRemote :: "'w host \<Rightarrow> FileDependency \<Rightarrow> cstring \<Rightarrow> cstring \<Rightarrow> 'w \<Rightarrow> bool \<times> 'w" where
  "installRemote H d packagesDir target w =
     (case makeDirectory H packagesDir True w of
        (False, w) \<Rightarrow> (False, w)
      | (True, w) \<Rightarrow>
          (case cloneDependency H d (the (fd_repository d)) target w of
             (False, w) \<Rightarrow> (False, w)
           | (True, w) \<Rightarrow>
               if host_stat H w (cxyfilePath target) \<noteq> Some Regular then (False, removeTree H target w) else (True, w)))"

definition installLocal :: "'w host \<Rightarrow> cstring \<Rightarrow> 'w \<Rightarrow> bool" where
  "installLocal H path w \<longleftrightarrow> host_stat H w path = Some Directory \<and> host_stat H w (cxyfilePath path) = Some Regular"

definition installDependency :: "'w host \<Rightarrow> FileDependency \<Rightarrow> cstring \<Rightarrow> bool \<Rightarrow> 'w \<Rightarrow> bool \<times> 'w" where
  "installDependency H d packagesDir noInstall w =
     (case fd_name d of
        None \<Rightarrow> (False, w)
      | Some name \<Rightarrow>
          let target = targetPath packagesDir name; present = host_stat H w target = Some Directory in
          if present \<and> host_stat H w (cxyfilePath target) = Some Regular then (True, w)
          else
            let w = (if present then removeTree H target w else w) in
            if noInstall then (True, w)
            else if missing (fd_repository d)
            then (if missing (fd_path d) then (False, w) else (installLocal H (the (fd_path d)) w, w))
            else installRemote H d packagesDir target w)"

definition cleared :: "'w host \<Rightarrow> cstring \<Rightarrow> 'w \<Rightarrow> 'w" where
  "cleared H target w = (if host_stat H w target = Some Directory then removeTree H target w else w)"

lemma installDependency_absent:
  assumes "fd_name d = Some name"
    and "(host_stat H w (targetPath dir name) = Some Directory \<and> host_stat H w (cxyfilePath (targetPath dir name)) = Some Regular) = False"
  shows "installDependency H d dir False w =
     (let w = cleared H (targetPath dir name) w in
      if missing (fd_repository d)
      then (if missing (fd_path d) then (False, w) else (installLocal H (the (fd_path d)) w, w))
      else installRemote H d dir (targetPath dir name) w)"
  by (simp only: installDependency_def Let_def assms option.case if_False cleared_def)

lemma installRemote_package:
  "installRemote H d dir target w = (True, w') \<Longrightarrow> host_stat H w' (cxyfilePath target) = Some Regular"
  by (auto simp: installRemote_def split: prod.splits bool.splits if_splits)

text \<open>C29: An installation that succeeds leaves a package: its package file is in the directory of the dependency, or the
  dependency has no repository and its local path is a directory with a package file; only with the option that forbids
  installing is nothing checked.\<close>

theorem installed_has_package:
  assumes "installDependency H d dir noInstall w = (True, w')" "\<not> noInstall"
  shows "\<exists>name. fd_name d = Some name \<and>
     (host_stat H w' (cxyfilePath (targetPath dir name)) = Some Regular \<or>
      missing (fd_repository d) \<and> (\<exists>path. fd_path d = Some path \<and> path \<noteq> [] \<and>
        host_stat H w' path = Some Directory \<and> host_stat H w' (cxyfilePath path) = Some Regular))"
proof -
  obtain name where name: "fd_name d = Some name" using assms(1) by (auto simp: installDependency_def split: option.splits)
  let ?target = "targetPath dir name"
  define w0 where "w0 = cleared H ?target w"
  show ?thesis
  proof (cases "host_stat H w ?target = Some Directory \<and> host_stat H w (cxyfilePath ?target) = Some Regular")
    case True
    then have "w' = w" using assms(1) name by (simp add: installDependency_def Let_def)
    then show ?thesis using True name by simp
  next
    case False
    then have run: "(True, w') = (if missing (fd_repository d)
        then (if missing (fd_path d) then (False, w0) else (installLocal H (the (fd_path d)) w0, w0))
        else installRemote H d dir ?target w0)"
      using assms installDependency_absent [OF name, of H w dir] by (simp only: w0_def Let_def)
    show ?thesis
    proof (cases "missing (fd_repository d)")
      case True
      then show ?thesis using run name by (auto simp: installLocal_def missing_def split: if_splits)
    next
      case False
      then show ?thesis using run name installRemote_package [of H d dir ?target w0 w'] by simp
    qed
  qed
qed

section \<open>Versions\<close>

lemma dropWhile_blanks: "isdigit (cur (dropWhile (\<lambda>c. c = CHR '' '') t)) \<Longrightarrow> dropWhile isspace t = dropWhile (\<lambda>c. c = CHR '' '') t"
  by (induction t) (auto simp: ctype_defs)

lemma digit_facts:
  assumes "isdigit (cur b)"
  shows "dropWhile isspace b = b" "cur b \<noteq> CHR ''*''" "cur b \<noteq> CHR ''^''" "cur b \<noteq> CHR ''~''" "cur b \<noteq> CHR ''>''" "cur b \<noteq> CHR ''<''"
    "cur b \<noteq> nul"
  using assms by (cases b; auto simp: ctype_defs nul_def)+

lemma operator_chars:
  "\<not> isspace CHR ''^''" "\<not> isspace CHR ''~''" "\<not> isspace CHR ''>''" "\<not> isspace CHR ''<''"
  "CHR ''^'' \<noteq> nul" "CHR ''~'' \<noteq> nul" "CHR ''>'' \<noteq> nul" "CHR ''<'' \<noteq> nul"
  by (simp_all add: ctype_defs nul_def)

text \<open>The operator that the validator passes over is the one that the parser reads.\<close>

lemma constraint_operator_base:
  assumes digit: "isdigit (cur (constraintBase s))"
  shows "cur s \<noteq> nul \<and> cur (dropWhile isspace s) \<noteq> CHR ''*'' \<and>
     (let (ty, p) = constraintOperator (dropWhile isspace s) in dropWhile isspace p = constraintBase s)"
proof -
  consider (caret) c t where "s = c # t" "c = CHR ''^'' \<or> c = CHR ''~''"
    | (ordered) c e t where "s = c # e # t" "c = CHR ''>'' \<or> c = CHR ''<''" "e = CHR ''=''"
    | (strict) c e t where "s = c # e # t" "c = CHR ''>'' \<or> c = CHR ''<''" "e \<noteq> CHR ''=''"
    | (plain) "constraintBase s = dropWhile (\<lambda>c. c = CHR '' '') s"
  proof -
    consider "s = []" | c where "s = [c]" | c e t where "s = c # e # t" by (cases s; cases "tl s") auto
    then show thesis
    proof cases
      case 2
      then show ?thesis using caret plain
        by (cases "c = CHR ''^'' \<or> c = CHR ''~''") (auto simp: constraintBase_def)
    next
      case 3
      then show ?thesis using caret ordered strict plain
        by (cases "c = CHR ''^'' \<or> c = CHR ''~''"; cases "c = CHR ''>'' \<or> c = CHR ''<''"; cases "e = CHR ''=''")
          (auto simp: constraintBase_def)
    qed (use plain in \<open>simp add: constraintBase_def nul_def\<close>)
  qed
  then show ?thesis
  proof cases
    case caret
    then have b: "constraintBase s = dropWhile (\<lambda>c. c = CHR '' '') t" by (auto simp: constraintBase_def)
    then have "dropWhile isspace t = constraintBase s" using digit dropWhile_blanks [of t] by simp
    then show ?thesis using caret by (elim disjE) (simp_all add: constraintOperator_def operator_chars)
  next
    case ordered
    then have b: "constraintBase s = dropWhile (\<lambda>c. c = CHR '' '') t" by (auto simp: constraintBase_def)
    then have "dropWhile isspace t = constraintBase s" using digit dropWhile_blanks [of t] by simp
    then show ?thesis using ordered by (elim disjE) (simp_all add: constraintOperator_def operator_chars)
  next
    case strict
    then have b: "constraintBase s = dropWhile (\<lambda>c. c = CHR '' '') (e # t)" by (auto simp: constraintBase_def)
    then have "dropWhile isspace (e # t) = constraintBase s" using digit dropWhile_blanks [of "e # t"] by simp
    then show ?thesis using strict by (elim disjE) (simp_all add: constraintOperator_def operator_chars)
  next
    case plain
    then have eq: "dropWhile isspace s = constraintBase s" using digit dropWhile_blanks by simp
    have "cur s \<noteq> nul" using digit plain by (cases s) (auto simp: ctype_defs nul_def)
    then show ?thesis using digit_facts [OF digit] by (simp add: eq constraintOperator_def)
  qed
qed

text \<open>A version constraint that the reader of package files accepts is understood by the parser of constraints, if the numbers of
  its version fit 32 bits, which the validator does not check.\<close>

theorem validated_constraint_parses:
  assumes valid: "validateConstraint (Some s) = None"
    and fits: "list_all (\<lambda>ds. dec_val 0 ds < 2 ^ 32) (components (constraintBase s))"
  shows "\<exists>c. parseVersionConstraint (Some s) c0 = Inr c"
proof (cases "s = ''*''")
  case True
  then show ?thesis by (simp add: parseVersionConstraint_def nul_def ctype_defs)
next
  case False
  then have ok: "validateSemanticVersion (Some (constraintBase s)) = None" using valid by (simp add: validateConstraint_def)
  then have "isdigit (cur (constraintBase s))" by (auto simp: validateSemanticVersion_def split: if_splits)
  note base = constraint_operator_base [OF this]
  obtain v where v: "parseSemanticVersion (Some (constraintBase s)) = Inr v" using valid_version_parses [OF ok] fits by blast
  obtain ty p where op: "constraintOperator (dropWhile isspace s) = (ty, p)" by (cases "constraintOperator (dropWhile isspace s)")
  then have "dropWhile isspace p = constraintBase s" "cur s \<noteq> nul" "cur (dropWhile isspace s) \<noteq> CHR ''*''" using base by simp_all
  then show ?thesis using op v by (simp add: parseVersionConstraint_def Let_def)
qed

theorem validated_constraint_parses_witness: "\<exists>c. parseVersionConstraint (Some ''>= 1.2.3'') zero_constraint = Inr c"
proof -
  have "validateConstraint (Some ''>= 1.2.3'') = None" by code_simp
  moreover have "list_all (\<lambda>ds. dec_val 0 ds < 2 ^ 32) (components (constraintBase ''>= 1.2.3''))"
    by (simp add: constraintBase_def components_def strtoul_end_def ctype_defs digit_val_def)
  ultimately show ?thesis by (rule validated_constraint_parses)
qed

text \<open>C30: An installation that succeeds, of a dependency that has no directory yet and names a repository (whose version tags have no
  prerelease and no build part), a constraint other than a star, and neither a tag nor a branch, clones a tag of the repository that
  satisfies the constraint and is not older than any that does; the command that is run last has this tag, the repository and the
  directory of the dependency. (A directory that exists is taken as it is, whatever its version.)\<close>

theorem installed_version_is_best:
  assumes sorts: "sorts compareGitTagsByVersion (qsortTags (host_env H))"
    and d: "fd_name d = Some name" "fd_repository d = Some repo" "cur repo \<noteq> nul" "missing (fd_tag d)" "missing (fd_branch d)"
      "fd_version d = Some v" "v \<noteq> []" "v \<noteq> ''*''"
    and listing: "lsRemoteTags (host_env H) repo = Some listing"
      "\<forall>t\<in>set (parseTags listing). prerelease (tag_version t) = None \<and> build (tag_version t) = None"
    and absent: "host_stat H w (targetPath dir name) \<noteq> Some Directory"
    and success: "installDependency H d dir False w = (True, w')"
  shows "\<exists>c tag w0. parseVersionConstraint (Some v) zero_constraint = Inr c \<and> tag \<in> set (parseTags listing) \<and>
     versionSatisfiesConstraint (tag_version tag) c \<and>
     (\<forall>t\<in>set (parseTags listing). versionSatisfiesConstraint (tag_version t) c \<longrightarrow>
        compareSemanticVersions (tag_version t) (tag_version tag) \<le> 0) \<and>
     host_run H (''git clone --depth 1 --branch'' @ quotedArg (tag_name tag) @ quotedArg repo @
       quotedArg (targetPath dir name) @ '' 2>&1'') w0 = (True, w')"
proof -
  let ?target = "targetPath dir name"
  have "installRemote H d dir ?target w = (True, w')"
    using success absent d(2,3) installDependency_absent [OF d(1), of H w dir] by (cases repo) (auto simp: cleared_def missing_def Let_def)
  then obtain w0 where clone: "cloneDependency H d repo ?target w0 = (True, w')"
    using d(2) by (auto simp: installRemote_def split: prod.splits bool.splits if_splits)
  then obtain c tag where c: "parseVersionConstraint (Some v) zero_constraint = Inr c"
    and tag: "findBestMatchingVersion (host_env H) repo [c] = Some tag" and run: "gitCloneTag H repo (tag_name tag) ?target w0 = (True, w')"
    using d(4-8) by (auto simp: cloneDependency_def missing_def split: sum.splits option.splits if_splits)
  have "case findBestMatchingVersion (host_env H) repo [c] of
      None \<Rightarrow> \<not> (\<exists>t\<in>set (parseTags listing). satisfiesAll (tag_version t) [c])
    | Some tag \<Rightarrow> tag \<in> set (parseTags listing) \<and>
        (\<forall>c\<in>set [c]. versionSatisfiesConstraint (tag_version tag) c) \<and>
        (\<forall>t\<in>set (parseTags listing). (\<forall>c\<in>set [c]. versionSatisfiesConstraint (tag_version t) c) \<longrightarrow>
           compareSemanticVersions (tag_version t) (tag_version tag) \<le> 0)"
    by (rule bestVersion_greatest [OF sorts d(3) listing])
  then show ?thesis using c tag run by (auto simp: gitCloneTag_def split: if_splits)
qed

section \<open>A host\<close>

text \<open>The state is the list of the commands that were run; a clone that was run leaves the package file.\<close>

definition demo_target :: cstring where
  "demo_target = ''pkgs/json''"

definition demo_host :: "cstring list host" where
  "demo_host = \<lparr>host_stat = (\<lambda>w path. if path = demo_target @ ''/Cxyfile.yaml'' \<and> w \<noteq> [] then Some Regular else None),
     host_mkdir = (\<lambda>path w. (Made, w)), host_run = (\<lambda>cmd w. (True, cmd # w)), host_env = demo_env\<rparr>"

definition demo_dependency :: FileDependency where
  "demo_dependency = zeroDependency\<lparr>fd_name := Some ''json'', fd_repository := Some ''r'', fd_version := Some ''^1.0.0''\<rparr>"

lemma demo_install: "fst (installDependency demo_host demo_dependency ''pkgs'' False [])"
  by code_simp

theorem installed_has_package_witness:
  "\<exists>w'. installDependency demo_host demo_dependency ''pkgs'' False [] = (True, w') \<and>
     host_stat demo_host w' (cxyfilePath (targetPath ''pkgs'' ''json'')) = Some Regular"
proof -
  obtain w' where w': "installDependency demo_host demo_dependency ''pkgs'' False [] = (True, w')"
    using demo_install by (cases "installDependency demo_host demo_dependency ''pkgs'' False []") simp
  from installed_has_package [OF this] show ?thesis using w'
    by (auto simp: demo_dependency_def zeroDependency_def missing_def)
qed

theorem installed_version_is_best_witness:
  "\<exists>c tag w0 w'. parseVersionConstraint (Some ''^1.0.0'') zero_constraint = Inr c \<and> tag \<in> set (parseTags demo_listing) \<and>
     versionSatisfiesConstraint (tag_version tag) c \<and>
     host_run demo_host (''git clone --depth 1 --branch'' @ quotedArg (tag_name tag) @ quotedArg ''r'' @
       quotedArg (targetPath ''pkgs'' ''json'') @ '' 2>&1'') w0 = (True, w')"
proof -
  obtain w' where w': "installDependency demo_host demo_dependency ''pkgs'' False [] = (True, w')"
    using demo_install by (cases "installDependency demo_host demo_dependency ''pkgs'' False []") simp
  have sorts: "sorts compareGitTagsByVersion (qsortTags (host_env demo_host))" using demo_env_sorts by (simp add: demo_host_def)
  have d: "fd_name demo_dependency = Some ''json''" "fd_repository demo_dependency = Some ''r''" "cur ''r'' \<noteq> nul"
    "missing (fd_tag demo_dependency)" "missing (fd_branch demo_dependency)" "fd_version demo_dependency = Some ''^1.0.0''"
    "''^1.0.0'' \<noteq> []" "''^1.0.0'' \<noteq> ''*''"
    by (simp_all add: demo_dependency_def zeroDependency_def missing_def nul_def)
  have listing: "lsRemoteTags (host_env demo_host) ''r'' = Some demo_listing" by (simp add: demo_host_def demo_env_def)
  have absent: "host_stat demo_host [] (targetPath ''pkgs'' ''json'') \<noteq> Some Directory" by (simp add: demo_host_def)
  from installed_version_is_best [OF sorts d listing demo_listing_releases absent w'] show ?thesis by blast
qed

text \<open>A repository is valid whatever its path has in it, and becomes part of a command for the shell, which replaces a dollar sign
  with parentheses inside the quotes.\<close>

theorem repository_reaches_shell:
  "validateGitRepository (Some ''https://h/$(id)'') = None \<and>
   gitClone H ''https://h/$(id)'' ''p'' True w = host_run H (''git clone --depth 1'' @ quotedArg ''https://h/$(id)'' @ quotedArg ''p'' @ '' 2>&1'') w"
proof
  show "validateGitRepository (Some ''https://h/$(id)'') = None" by code_simp
qed (simp add: gitClone_def nul_def)

text \<open>A dependency that is there already is taken as it is: nothing of the constraint, tag or branch is looked at.\<close>

theorem installed_is_not_checked:
  assumes "fd_name d = Some name" "host_stat H w (targetPath dir name) = Some Directory" "host_stat H w (cxyfilePath (targetPath dir name)) = Some Regular"
  shows "installDependency H d dir noInstall w = (True, w)"
  using assms by (simp add: installDependency_def Let_def)

end
