(* ===== verification/Cxy_Hmap.thy ===== *)
theory Cxy_Hmap
  imports Cxy_Hash "HOL-Library.Multiset"
begin

text \<open>
  The Robin-Hood hash map (\<open>core/hmap.c\<close>) and its client, the table of variables of the memory pass
  (\<open>lang/middle/mem/manage.c\<close>).

  A slot stores the home index of its element, so that the distance from it is known: an insertion takes the slot of an element that is
  not farther from its home than the element to be inserted, and goes on with the displaced one; a lookup stops at an element
  that is nearer to its home than the element sought would be; a removal shifts elements back. The loops are partial functions:
  a table without a free slot keeps an insertion going for ever.
\<close>

section \<open>Model\<close>

type_synonym 'a slot = "(nat \<times> 'a) option"

record 'a Hmap =
  hm_slots :: "'a slot list"
  hm_nitems :: nat

definition HMAP_PRIMES :: "nat list" where
  "HMAP_PRIMES = [0, 1, 5, 11, 23, 53, 101, 197, 389, 683, 1259, 2417, 4733, 9371, 18617, 37097, 74093, 148073, 296099, 592019,
     1100009, 2200013, 4400021, 8800019]"

function doubleUntil :: "nat \<Rightarrow> nat \<Rightarrow> nat" where
  "doubleUntil lst n = (if 0 < lst \<and> lst < n then doubleUntil (2 * lst) n else lst)"
  by auto
termination by (relation "measure (\<lambda>(lst, n). n - lst)") auto

declare doubleUntil.simps [simp del]

text \<open>The quotient by the load factor 0.9 is computed in floating point; below \<open>2 ^ 49\<close> its integral part is the exact one.\<close>

definition hmapIdealSize :: "nat \<Rightarrow> nat" where
  "hmapIdealSize n =
     (let n = (n + 1) * 10 div 9 in
      case List.find (\<lambda>p. p \<ge> n) HMAP_PRIMES of Some p \<Rightarrow> p | None \<Rightarrow> doubleUntil (last HMAP_PRIMES) n)"

definition hmapProbe :: "nat \<Rightarrow> nat \<Rightarrow> nat \<Rightarrow> nat" where
  "hmapProbe nslots i home = (let v = int i - int home in nat (if v < 0 then int nslots + v else v))"

partial_function (option) putLoop ::
  "('a \<Rightarrow> 'a \<Rightarrow> bool) \<Rightarrow> 'a slot list \<Rightarrow> nat \<times> 'a \<Rightarrow> nat \<Rightarrow> nat \<Rightarrow> ('a slot list \<times> nat \<times> bool) option" where
  "putLoop equal S y i j =
     (case S ! i of
        None \<Rightarrow> Some (S[i := Some y], i, True)
      | Some z \<Rightarrow>
          if equal (snd z) (snd y) then Some (S[i := Some y], i, False)
          else if j \<ge> hmapProbe (length S) i (fst z)
          then putLoop equal (S[i := Some y]) z ((i + 1) mod length S) (hmapProbe (length S) i (fst z) + 1)
          else putLoop equal S y ((i + 1) mod length S) (j + 1))"

text \<open>The result has the slot that was written last and whether the number of items grew; \<open>None\<close> also stands for the division by the
  number of slots of a map that was cleared.\<close>

definition hmapPutInternal ::
  "('a \<Rightarrow> HashCode) \<Rightarrow> ('a \<Rightarrow> 'a \<Rightarrow> bool) \<Rightarrow> 'a Hmap \<Rightarrow> 'a \<Rightarrow> ('a Hmap \<times> nat \<times> bool) option" where
  "hmapPutInternal hash equal m x =
     (if hm_slots m = [] then None
      else let home = unat (hash x) mod length (hm_slots m) in
        map_option (\<lambda>(S, i, new). (m\<lparr>hm_slots := S, hm_nitems := hm_nitems m + (if new then 1 else 0)\<rparr>, i, new))
          (putLoop equal (hm_slots m) (home, x) home 0))"

definition emptyMap :: "nat \<Rightarrow> 'a Hmap" where
  "emptyMap nslots = \<lparr>hm_slots = replicate nslots None, hm_nitems = 0\<rparr>"

definition slotItems :: "'a slot list \<Rightarrow> 'a list" where
  "slotItems S = map snd (List.map_filter id S)"

text \<open>The loop of \<open>hmapRehash\<close> over items, whose body is \<open>hmapPut\<close> with the growth in it.\<close>

partial_function (option) putItems ::
  "('a \<Rightarrow> HashCode) \<Rightarrow> ('a \<Rightarrow> 'a \<Rightarrow> bool) \<Rightarrow> 'a Hmap \<Rightarrow> 'a list \<Rightarrow> 'a Hmap option" where
  "putItems hash equal m xs =
     (case xs of
        [] \<Rightarrow> Some m
      | x # xs \<Rightarrow>
          Option.bind (hmapPutInternal hash equal m x) (\<lambda>r.
            Option.bind
              (if snd (snd r) \<and> hmapIdealSize (hm_nitems (fst r)) > length (hm_slots (fst r))
               then putItems hash equal (emptyMap (hmapIdealSize (hm_nitems (fst r)))) (slotItems (hm_slots (fst r)))
               else Some (fst r))
              (\<lambda>m. putItems hash equal m xs)))"

definition hmapRehash :: "('a \<Rightarrow> HashCode) \<Rightarrow> ('a \<Rightarrow> 'a \<Rightarrow> bool) \<Rightarrow> 'a Hmap \<Rightarrow> nat \<Rightarrow> 'a Hmap option" where
  "hmapRehash hash equal m newCapacity = putItems hash equal (emptyMap newCapacity) (slotItems (hm_slots m))"

definition hmapResizeMore :: "('a \<Rightarrow> HashCode) \<Rightarrow> ('a \<Rightarrow> 'a \<Rightarrow> bool) \<Rightarrow> 'a Hmap \<Rightarrow> 'a Hmap option" where
  "hmapResizeMore hash equal m =
     (if hmapIdealSize (hm_nitems m) > length (hm_slots m) then hmapRehash hash equal m (hmapIdealSize (hm_nitems m)) else Some m)"

definition hmapResizeLess :: "('a \<Rightarrow> HashCode) \<Rightarrow> ('a \<Rightarrow> 'a \<Rightarrow> bool) \<Rightarrow> 'a Hmap \<Rightarrow> 'a Hmap option" where
  "hmapResizeLess hash equal m =
     (if hmapIdealSize (hm_nitems m) < length (hm_slots m) then hmapRehash hash equal m (hmapIdealSize (hm_nitems m)) else Some m)"

definition hmapPut :: "('a \<Rightarrow> HashCode) \<Rightarrow> ('a \<Rightarrow> 'a \<Rightarrow> bool) \<Rightarrow> 'a Hmap \<Rightarrow> 'a \<Rightarrow> ('a Hmap \<times> nat \<times> bool) option" where
  "hmapPut hash equal m x =
     Option.bind (hmapPutInternal hash equal m x) (\<lambda>(m, i, new).
       if new then map_option (\<lambda>m. (m, i, new)) (hmapResizeMore hash equal m) else Some (m, i, new))"

definition hmapInitWithCapacity :: "nat \<Rightarrow> 'a Hmap" where
  "hmapInitWithCapacity capacity = emptyMap (hmapIdealSize capacity)"

definition hmapCreate :: "'a Hmap" where
  "hmapCreate = hmapInitWithCapacity 0"

definition hmapClear :: "'a Hmap \<Rightarrow> 'a Hmap" where
  "hmapClear m = emptyMap 0"

text \<open>The search that \<open>hmapGet\<close> and \<open>hmapRemove\<close> share: the slot of an equal element, if there is one.\<close>

partial_function (option) findLoop :: "('a \<Rightarrow> 'a \<Rightarrow> bool) \<Rightarrow> 'a slot list \<Rightarrow> 'a \<Rightarrow> nat \<Rightarrow> nat \<Rightarrow> nat option option" where
  "findLoop equal S x i j =
     (case S ! i of
        None \<Rightarrow> Some None
      | Some z \<Rightarrow>
          if j > hmapProbe (length S) i (fst z) then Some None
          else if equal (snd z) x then Some (Some i)
          else findLoop equal S x ((i + 1) mod length S) (j + 1))"

definition findSlot :: "('a \<Rightarrow> HashCode) \<Rightarrow> ('a \<Rightarrow> 'a \<Rightarrow> bool) \<Rightarrow> 'a Hmap \<Rightarrow> 'a \<Rightarrow> nat option option" where
  "findSlot hash equal m x =
     (if hm_slots m = [] then Some None
      else findLoop equal (hm_slots m) x (unat (hash x) mod length (hm_slots m)) 0)"

text \<open>The argument is an object elsewhere or the address of a slot of the table itself, whose element is then returned.\<close>

datatype 'a hmap_key = Elsewhere 'a | InTable nat

definition hmapGet :: "('a \<Rightarrow> HashCode) \<Rightarrow> ('a \<Rightarrow> 'a \<Rightarrow> bool) \<Rightarrow> 'a Hmap \<Rightarrow> 'a hmap_key \<Rightarrow> 'a option option" where
  "hmapGet hash equal m key =
     (case key of
        InTable i \<Rightarrow> Some (map_option snd (hm_slots m ! i))
      | Elsewhere x \<Rightarrow> map_option (\<lambda>r. Option.bind r (\<lambda>i. map_option snd (hm_slots m ! i))) (findSlot hash equal m x))"

partial_function (option) shiftLoop :: "'a slot list \<Rightarrow> nat \<Rightarrow> 'a slot list option" where
  "shiftLoop S i =
     (case S ! ((i + 1) mod length S) of
        None \<Rightarrow> Some S
      | Some z \<Rightarrow>
          if hmapProbe (length S) ((i + 1) mod length S) (fst z) > 0
          then shiftLoop (S[i := Some z, (i + 1) mod length S := None]) ((i + 1) mod length S)
          else Some S)"

definition hmapRemove :: "('a \<Rightarrow> HashCode) \<Rightarrow> ('a \<Rightarrow> 'a \<Rightarrow> bool) \<Rightarrow> 'a Hmap \<Rightarrow> 'a \<Rightarrow> 'a Hmap option" where
  "hmapRemove hash equal m x =
     Option.bind (findSlot hash equal m x) (\<lambda>r.
       case r of
         None \<Rightarrow> Some m
       | Some i \<Rightarrow>
           Option.bind (shiftLoop ((hm_slots m)[i := None]) i) (\<lambda>S.
             hmapResizeLess hash equal (m\<lparr>hm_slots := S, hm_nitems := hm_nitems m - 1\<rparr>)))"

text \<open>An iterator is the index from which it goes on.\<close>

function hmapNext :: "'a Hmap \<Rightarrow> nat \<Rightarrow> 'a option \<times> nat" where
  "hmapNext m index =
     (if index < length (hm_slots m)
      then (case hm_slots m ! index of None \<Rightarrow> hmapNext m (index + 1) | Some z \<Rightarrow> (Some (snd z), index + 1))
      else (None, index))"
  by auto
termination by (relation "measure (\<lambda>(m, index). length (hm_slots m) - index)") auto

declare hmapNext.simps [simp del]

lemmas hmapFunctions [code] = putLoop.simps putItems.simps findLoop.simps shiftLoop.simps

section \<open>The table of variables\<close>

datatype VariableState = vtsUninitialized | vtsAssigned | vtsNullified | vtsMaybeAssigned | vtsMoved | vtsDropped

record VariableTrace =
  vt_variable :: u64
  vt_state :: VariableState
  vt_dropFlags :: u64
  vt_scope :: u64
  vt_lastDropScope :: u64
  vt_used :: bool
  vt_destroyed :: bool
  vt_idx :: u32

definition compareVariableTrace :: "VariableTrace \<Rightarrow> VariableTrace \<Rightarrow> bool" where
  "compareVariableTrace lhs rhs = (vt_variable lhs = vt_variable rhs)"

definition hashVariableTrace :: "VariableTrace \<Rightarrow> HashCode" where
  "hashVariableTrace vt = hashPtr hashInit (vt_variable vt)"

text \<open>A trace as the initialiser builds it: the members that are not named are zero.\<close>

definition variableTrace :: "u64 \<Rightarrow> u64 \<Rightarrow> VariableState \<Rightarrow> u32 \<Rightarrow> VariableTrace" where
  "variableTrace node scope state idx = \<lparr>vt_variable = node, vt_state = state, vt_dropFlags = 0, vt_scope = scope, vt_lastDropScope = 0,
     vt_used = False, vt_destroyed = False, vt_idx = idx\<rparr>"

definition findVariableTrace :: "VariableTrace Hmap \<Rightarrow> u64 \<Rightarrow> VariableTrace option option" where
  "findVariableTrace vars node = hmapGet hashVariableTrace compareVariableTrace vars (Elsewhere (variableTrace node 0 vtsUninitialized 0))"

text \<open>The assertion that the variable is new is a failure of its own.\<close>

definition insertVariableTrace :: "VariableTrace Hmap \<Rightarrow> u64 \<Rightarrow> u64 \<Rightarrow> VariableState \<Rightarrow> VariableTrace Hmap option" where
  "insertVariableTrace vars node currentBlock state =
     Option.bind
       (hmapPut hashVariableTrace compareVariableTrace vars (variableTrace node currentBlock state (of_nat (hm_nitems vars))))
       (\<lambda>(vars, i, new). if new then Some vars else None)"

section \<open>Distances\<close>

lemma hmapProbe_cdist: "hmapProbe n i home = cdist n home i" if "home < n"
  using that by (auto simp: hmapProbe_def cdist_def Let_def)

lemma hmapProbe_less: "home < n \<Longrightarrow> i < n \<Longrightarrow> hmapProbe n i home < n"
  by (simp add: hmapProbe_cdist cdist_less)

lemma hmapProbe_step:
  assumes "home < n" "i < n"
  shows "hmapProbe n ((i + 1) mod n) home = (if hmapProbe n i home + 1 = n then 0 else hmapProbe n i home + 1)"
  using assms by (cases "i + 1 = n") (auto simp: hmapProbe_cdist cdist_def)

lemma hmapProbe_back:
  assumes "home < n" "i < n" "0 < hmapProbe n ((i + 1) mod n) home"
  shows "hmapProbe n ((i + 1) mod n) home = hmapProbe n i home + 1"
  using assms hmapProbe_step by (auto split: if_splits)

lemma next_inj: "(i::nat) < n \<Longrightarrow> k < n \<Longrightarrow> (i + 1) mod n = (k + 1) mod n \<Longrightarrow> i = k"
  by (cases "i + 1 = n"; cases "k + 1 = n") auto

lemma next_less: "(i::nat) < n \<Longrightarrow> (i + 1) mod n < n"
  by auto

lemma next_cyc: "(cyc n i k + 1) mod n = cyc n i (k + 1)"
  by (simp add: cyc_def mod_Suc_eq)

section \<open>Entries\<close>

definition entries :: "'a slot list \<Rightarrow> (nat \<times> 'a) multiset" where
  "entries S = mset (List.map_filter id S)"

lemma entries_simps [simp]: "entries [] = {#}" "entries (None # S) = entries S" "entries (Some z # S) = add_mset z (entries S)"
  "entries (S @ S') = entries S + entries S'"
  by (simp_all add: entries_def map_filter_simps) (simp add: map_filter_def)

lemma entries_replicate [simp]: "entries (replicate n None) = {#}"
  by (induction n) simp_all

lemma entries_split:
  assumes "i < length S"
  shows "entries (S[i := v]) = entries (take i S) + entries (drop (Suc i) S) + (case v of None \<Rightarrow> {#} | Some z \<Rightarrow> {#z#})"
    "entries S = entries (take i S) + entries (drop (Suc i) S) + (case S ! i of None \<Rightarrow> {#} | Some z \<Rightarrow> {#z#})"
proof -
  have "entries (T @ v # U) = entries T + entries U + (case v of None \<Rightarrow> {#} | Some z \<Rightarrow> {#z#})" for T U and v :: "'a slot"
    by (cases v) simp_all
  then show "entries (S[i := v]) = entries (take i S) + entries (drop (Suc i) S) + (case v of None \<Rightarrow> {#} | Some z \<Rightarrow> {#z#})"
    "entries S = entries (take i S) + entries (drop (Suc i) S) + (case S ! i of None \<Rightarrow> {#} | Some z \<Rightarrow> {#z#})"
    using assms by (metis upd_conv_take_nth_drop, metis id_take_nth_drop)
qed

lemma entries_update:
  assumes "i < length S"
  shows "S ! i = None \<Longrightarrow> entries (S[i := Some y]) = add_mset y (entries S)"
    "S ! i = Some z \<Longrightarrow> add_mset z (entries (S[i := Some y])) = add_mset y (entries S)"
    "S ! i = Some z \<Longrightarrow> add_mset z (entries (S[i := None])) = entries S"
  using entries_split(1) [OF assms, of "Some y"] entries_split(1) [OF assms, of None] entries_split(2) [OF assms] by auto

lemma entries_nth: "i < length S \<Longrightarrow> S ! i = Some z \<Longrightarrow> z \<in># entries S"
  using entries_split(2) [of i S] by simp

lemma in_entries: "z \<in># entries S \<longleftrightarrow> (\<exists>i<length S. S ! i = Some z)"
proof
  assume "z \<in># entries S"
  then have "Some z \<in> set S" by (auto simp: entries_def map_filter_def)
  then show "\<exists>i<length S. S ! i = Some z" by (metis in_set_conv_nth)
qed (auto intro: entries_nth)

lemma size_entries: "size (entries S) + length (filter (\<lambda>s. s = None) S) = length S"
proof (induction S)
  case (Cons s S)
  then show ?case by (cases s) simp_all
qed simp

section \<open>The order of the slots\<close>

text \<open>An element that is not at home follows one that is at most one step nearer to its home.\<close>

definition distanceAt :: "'a slot list \<Rightarrow> nat \<Rightarrow> nat \<times> 'a \<Rightarrow> nat" where
  "distanceAt S i z = hmapProbe (length S) i (fst z)"

definition follows :: "'a slot list \<Rightarrow> nat \<Rightarrow> nat \<Rightarrow> bool" where
  "follows S q d \<longleftrightarrow> (\<exists>y. S ! q = Some y \<and> d \<le> distanceAt S q y + 1)"

definition robin :: "'a slot list \<Rightarrow> bool" where
  "robin S \<longleftrightarrow>
     (\<forall>q<length S. \<forall>z. S ! ((q + 1) mod length S) = Some z \<longrightarrow> 0 < distanceAt S ((q + 1) mod length S) z \<longrightarrow>
        follows S q (distanceAt S ((q + 1) mod length S) z))"

definition homed :: "nat \<Rightarrow> (nat \<times> 'a) multiset \<Rightarrow> bool" where
  "homed n M \<longleftrightarrow> (\<forall>z\<in>#M. fst z < n)"

lemma robinD:
  "robin S \<Longrightarrow> q < length S \<Longrightarrow> S ! ((q + 1) mod length S) = Some z \<Longrightarrow> 0 < distanceAt S ((q + 1) mod length S) z \<Longrightarrow>
     follows S q (distanceAt S ((q + 1) mod length S) z)"
  unfolding robin_def by blast

lemma robin_empty [simp]: "robin (replicate n None)"
  by (auto simp: robin_def)

lemma distanceAt_update [simp]: "distanceAt (S[i := v]) = distanceAt S"
  by (auto simp: distanceAt_def fun_eq_iff)

lemma follows_other: "q \<noteq> i \<Longrightarrow> follows (S[i := v]) q d = follows S q d"
  by (simp add: follows_def)

text \<open>Putting an element into a slot keeps the order if it follows what is before it and what is behind follows it.\<close>

lemma robin_update:
  assumes S: "robin S" and i: "i < length S" and y: "fst y < length S"
    and pre: "\<And>q. q < length S \<Longrightarrow> (q + 1) mod length S = i \<Longrightarrow> 0 < distanceAt S i y \<Longrightarrow> follows S q (distanceAt S i y)"
    and post: "\<And>z. S ! ((i + 1) mod length S) = Some z \<Longrightarrow> distanceAt S ((i + 1) mod length S) z \<le> distanceAt S i y + 1"
  shows "robin (S[i := Some y])"
  unfolding robin_def length_list_update distanceAt_update
proof (intro allI impI)
  fix q z
  assume q: "q < length S" and z: "S[i := Some y] ! ((q + 1) mod length S) = Some z" and d: "0 < distanceAt S ((q + 1) mod length S) z"
  show "follows (S[i := Some y]) q (distanceAt S ((q + 1) mod length S) z)"
  proof (cases "(q + 1) mod length S = i")
    case True
    then have "z = y" using z i by simp
    moreover have "q \<noteq> i"
    proof
      assume "q = i"
      then have "length S = 1" using True q by (cases "i + 1 = length S") auto
      then show False using d y \<open>z = y\<close> hmapProbe_less [of "fst y" "length S" i] i True by (simp add: distanceAt_def)
    qed
    ultimately show ?thesis using pre [OF q True] d True by (simp add: follows_other)
  next
    case False
    then have z': "S ! ((q + 1) mod length S) = Some z" using z by simp
    show ?thesis
    proof (cases "q = i")
      case True
      then show ?thesis using post z' i by (simp add: follows_def)
    next
      case False
      then show ?thesis using robinD [OF S q z' d] by (simp add: follows_other)
    qed
  qed
qed

lemma robin_fill:
  assumes S: "robin S" and i: "i < length S" "S ! i = None" and y: "fst y < length S"
    and pre: "\<And>q. q < length S \<Longrightarrow> (q + 1) mod length S = i \<Longrightarrow> 0 < distanceAt S i y \<Longrightarrow> follows S q (distanceAt S i y)"
  shows "robin (S[i := Some y])"
proof (rule robin_update [OF S i(1) y pre])
  fix z assume z: "S ! ((i + 1) mod length S) = Some z"
  have "\<not> follows S i (distanceAt S ((i + 1) mod length S) z)" using i(2) by (simp add: follows_def)
  then have "distanceAt S ((i + 1) mod length S) z = 0" using robinD [OF S i(1) z] by blast
  then show "distanceAt S ((i + 1) mod length S) z \<le> distanceAt S i y + 1" by simp
qed

lemma robin_clear:
  assumes S: "robin S" and i: "i < length S"
    and post: "\<And>z. i \<noteq> (i + 1) mod length S \<Longrightarrow> S ! ((i + 1) mod length S) = Some z \<Longrightarrow> distanceAt S ((i + 1) mod length S) z = 0"
  shows "robin (S[i := None])"
  unfolding robin_def length_list_update distanceAt_update
proof (intro allI impI)
  fix q z
  assume q: "q < length S" and z: "S[i := None] ! ((q + 1) mod length S) = Some z" and d: "0 < distanceAt S ((q + 1) mod length S) z"
  have ne: "(q + 1) mod length S \<noteq> i" using z i by auto
  then have z': "S ! ((q + 1) mod length S) = Some z" using z by simp
  then have "q \<noteq> i" using post [of z] ne d by auto
  then show "follows (S[i := None]) q (distanceAt S ((q + 1) mod length S) z)" using robinD [OF S q z' d] by (simp add: follows_other)
qed

text \<open>All slots between the home of an element and its own are taken, by elements that are at least as far from their homes.\<close>

lemma robin_run:
  assumes S: "robin S" and z: "i < length S" "S ! i = Some z" "fst z < length S" and k: "k \<le> distanceAt S i z"
  shows "\<exists>w. S ! cyc (length S) (fst z) k = Some w \<and> k \<le> distanceAt S (cyc (length S) (fst z) k) w"
  using k
proof (induction rule: inc_induct)
  case base
  have "cyc (length S) (fst z) (distanceAt S i z) = i" using z by (simp add: distanceAt_def hmapProbe_cdist cyc_cdist)
  then show ?case using z by simp
next
  case (step k)
  let ?q = "cyc (length S) (fst z) k"
  obtain w where w: "S ! cyc (length S) (fst z) (Suc k) = Some w" "Suc k \<le> distanceAt S (cyc (length S) (fst z) (Suc k)) w"
    using step.IH by blast
  have "0 < length S" using z(1) by auto
  then have "?q < length S" by (rule cyc_less)
  then have "follows S ?q (distanceAt S (cyc (length S) (fst z) (Suc k)) w)"
    using robinD [OF S, of ?q w] w unfolding next_cyc by auto
  then show ?case using w(2) by (auto simp: follows_def)
qed

text \<open>With a free slot no element has gone all the way round.\<close>

lemma distance_bound:
  assumes S: "robin S" and z: "i < length S" "S ! i = Some z" "fst z < length S" and free: "f < length S" "S ! f = None"
  shows "distanceAt S i z + 1 < length S"
proof (rule ccontr)
  assume "\<not> ?thesis"
  moreover have "distanceAt S i z < length S" using z by (simp add: distanceAt_def hmapProbe_less)
  ultimately have d: "distanceAt S i z = length S - 1" by simp
  have "cdist (length S) (fst z) f \<le> distanceAt S i z" using cdist_less [of "fst z" "length S" f] z free d by simp
  from robin_run [OF S z this] show False using z free by (simp add: cyc_cdist)
qed

section \<open>Insertion\<close>

definition apart :: "('a \<Rightarrow> 'a \<Rightarrow> bool) \<Rightarrow> (nat \<times> 'a) multiset \<Rightarrow> bool" where
  "apart equal M \<longleftrightarrow> (\<forall>y z. {#y, z#} \<subseteq># M \<longrightarrow> \<not> equal (snd y) (snd z))"

lemma subset_add_mset_notin:
  assumes "A \<subseteq># add_mset x B" "x \<notin># A"
  shows "A \<subseteq># B"
proof (rule mset_subset_eqI)
  fix v
  show "count A v \<le> count B v"
    using mset_subset_eq_count [OF assms(1), of v] assms(2) by (cases "v = x") (simp_all add: not_in_iff)
qed

lemma apart_add: "apart equal (add_mset y M) \<Longrightarrow> z \<in># M \<Longrightarrow> \<not> equal (snd z) (snd y)"
proof -
  assume a: "apart equal (add_mset y M)" and z: "z \<in># M"
  then obtain M' where "M = add_mset z M'" by (metis mset_add)
  then have "{#z, y#} \<subseteq># add_mset y M" by (simp add: add_mset_commute)
  then show ?thesis using a unfolding apart_def by blast
qed

lemma putLoop_new:
  assumes "robin S" "homed (length S) (add_mset y (entries S))" "apart equal (add_mset y (entries S))"
    and "i < length S" "j = distanceAt S i y" "S ! cyc (length S) i k = None"
    and "\<And>q. q < length S \<Longrightarrow> (q + 1) mod length S = i \<Longrightarrow> 0 < j \<Longrightarrow> follows S q j"
  shows "\<exists>S' p. putLoop equal S y i j = Some (S', p, True) \<and> length S' = length S \<and> robin S' \<and> entries S' = add_mset y (entries S)"
  using assms
proof (induction k arbitrary: S y i j)
  case 0
  then have free: "S ! i = None" by (simp add: cyc_0)
  have "robin (S[i := Some y])" using 0 free by (intro robin_fill) (auto simp: homed_def)
  then show ?case using 0 free by (subst putLoop.simps) (simp add: entries_update)
next
  case (Suc k)
  let ?n = "length S"
  have n: "0 < ?n" "(i + 1) mod ?n < ?n" using Suc.prems(4) next_less [of i ?n] by auto
  have free: "S ! cyc ?n i (Suc k) = None" "cyc ?n i (Suc k) < ?n" using Suc.prems(6) n by simp_all
  have y: "fst y < ?n" and hom: "homed ?n (entries S)" using Suc.prems(2) by (auto simp: homed_def)
  show ?case
  proof (cases "S ! i")
    case None
    have "robin (S[i := Some y])" using Suc.prems None y by (intro robin_fill) auto
    then show ?thesis using Suc.prems None by (subst putLoop.simps) (simp add: entries_update)
  next
    case (Some z)
    have z: "fst z < ?n" "\<not> equal (snd z) (snd y)"
      using Some Suc.prems(3,4) hom entries_nth [of i S z] apart_add [of equal y "entries S" z] by (auto simp: homed_def)
    have next_free: "S[i := Some v] ! cyc ?n ((i + 1) mod ?n) k = None" for v
    proof -
      have "cyc ?n ((i + 1) mod ?n) k = cyc ?n i (Suc k)" by (simp add: cyc_def mod_simps)
      moreover have "cyc ?n i (Suc k) \<noteq> i" using free(1) Some by auto
      ultimately show ?thesis using free(1) by simp
    qed
    show ?thesis
    proof (cases "j \<ge> distanceAt S i z")
      case True
      let ?S = "S[i := Some y]"
      have post: "distanceAt S ((i + 1) mod ?n) w \<le> distanceAt S i z + 1" if "S ! ((i + 1) mod ?n) = Some w" for w
        using robinD [OF Suc.prems(1,4) that] Some by (cases "distanceAt S ((i + 1) mod ?n) w = 0") (auto simp: follows_def)
      have "robin ?S"
        using Suc.prems y True post by (intro robin_update) (auto intro: order_trans)
      moreover have "distanceAt S i z + 1 < ?n" using distance_bound Suc.prems(1,4) Some z(1) free by blast
      then have step: "distanceAt S i z + 1 = distanceAt ?S ((i + 1) mod ?n) z"
        using hmapProbe_step [OF z(1) Suc.prems(4)] by (simp add: distanceAt_def)
      moreover have all: "add_mset z (entries ?S) = add_mset y (entries S)" using entries_update(2) Some Suc.prems(4) by blast
      moreover have "follows ?S q (distanceAt S i z + 1)" if "q < length ?S" "(q + 1) mod length ?S = (i + 1) mod ?n" for q
        using that next_inj [of q ?n i] Suc.prems(4,5) True by (simp add: follows_def)
      ultimately obtain S' p where "putLoop equal ?S z ((i + 1) mod ?n) (distanceAt S i z + 1) = Some (S', p, True)" "length S' = length ?S"
        "robin S'" "entries S' = add_mset z (entries ?S)"
        using Suc.IH [of ?S z "(i + 1) mod ?n" "distanceAt S i z + 1"] Suc.prems(2,3) n next_free by auto
      then show ?thesis using Some z(2) True all by (subst putLoop.simps) (simp add: distanceAt_def)
    next
      case False
      have "distanceAt S i z < ?n" using z(1) Suc.prems(4) by (simp add: distanceAt_def hmapProbe_less)
      then have step: "j + 1 = distanceAt S ((i + 1) mod ?n) y"
        using False hmapProbe_step [OF y Suc.prems(4)] Suc.prems(5) by (simp add: distanceAt_def)
      have "follows S q (j + 1)" if "q < ?n" "(q + 1) mod ?n = (i + 1) mod ?n" for q
        using that next_inj [of q ?n i] Suc.prems(4) False Some by (simp add: follows_def)
      moreover have "S ! cyc ?n ((i + 1) mod ?n) k = None" using free by (simp add: cyc_def mod_simps)
      ultimately obtain S' p where "putLoop equal S y ((i + 1) mod ?n) (j + 1) = Some (S', p, True)" "length S' = ?n" "robin S'"
        "entries S' = add_mset y (entries S)"
        using Suc.IH [of S y "(i + 1) mod ?n" "j + 1"] Suc.prems(1-3) n step by auto
      then show ?thesis using Some z(2) False by (subst putLoop.simps) (simp add: distanceAt_def)
    qed
  qed
qed

section \<open>Search and removal\<close>

text \<open>A search that meets no equal element ends without a result, at the latest after a round.\<close>

lemma findLoop_absent:
  assumes hom: "homed (length S) (entries S)" and none: "\<And>z. z \<in># entries S \<Longrightarrow> \<not> equal (snd z) x" and i: "i < length S"
  shows "findLoop equal S x i j = Some None"
  using i
proof (induction "length S - j" arbitrary: i j rule: less_induct)
  case less
  show ?case
  proof (cases "S ! i")
    case None
    then show ?thesis by (subst findLoop.simps) simp
  next
    case (Some z)
    have z: "hmapProbe (length S) i (fst z) < length S" "\<not> equal (snd z) x"
      using entries_nth [OF less.prems Some] hom none less.prems by (auto simp: homed_def hmapProbe_less)
    show ?thesis
    proof (cases "j > hmapProbe (length S) i (fst z)")
      case True
      then show ?thesis using Some by (subst findLoop.simps) simp
    next
      case False
      then have "findLoop equal S x ((i + 1) mod length S) (j + 1) = Some None"
        using z(1) next_less [OF less.prems] by (intro less.hyps) auto
      then show ?thesis using Some z(2) False by (subst findLoop.simps) simp
    qed
  qed
qed

text \<open>From the home of an element the search goes on up to it.\<close>

lemma findLoop_present:
  assumes S: "robin S" and z: "i < length S" "S ! i = Some z" "fst z < length S" "equal (snd z) x" and k: "k \<le> distanceAt S i z"
  shows "\<exists>r w. findLoop equal S x (cyc (length S) (fst z) k) k = Some (Some r) \<and> r < length S \<and> S ! r = Some w \<and> equal (snd w) x"
  using k
proof (induction rule: inc_induct)
  case base
  have "cyc (length S) (fst z) (distanceAt S i z) = i" using z by (simp add: distanceAt_def hmapProbe_cdist cyc_cdist)
  then have "findLoop equal S x (cyc (length S) (fst z) (distanceAt S i z)) (distanceAt S i z) = Some (Some i)"
    using z by (subst findLoop.simps) (simp add: distanceAt_def)
  then show ?case using z by blast
next
  case (step k)
  let ?q = "cyc (length S) (fst z) k"
  obtain w where w: "S ! ?q = Some w" "k \<le> distanceAt S ?q w" using robin_run [OF S z(1-3), of k] step.hyps by auto
  have "?q < length S" using z(1) by (intro cyc_less) auto
  show ?case
  proof (cases "equal (snd w) x")
    case True
    then have "findLoop equal S x ?q k = Some (Some ?q)" using w by (subst findLoop.simps) (simp add: distanceAt_def)
    then show ?thesis using True w(1) \<open>?q < length S\<close> by blast
  next
    case False
    then have "findLoop equal S x ?q k = findLoop equal S x (cyc (length S) (fst z) (Suc k)) (Suc k)"
      using w next_cyc [of "length S" "fst z" k] by (subst findLoop.simps) (simp add: distanceAt_def)
    then show ?thesis using step.IH by simp
  qed
qed

text \<open>The shift: in the table \<open>T\<close>, whose slot \<open>i\<close> is to be cleared, elements move back until one is at home.\<close>

lemma shiftLoop_clears:
  assumes "robin T" "i < length T" "T ! i = Some y" "homed (length T) (entries T)" "T ! cyc (length T) i (Suc k) = None"
  shows "\<exists>S'. shiftLoop (T[i := None]) i = Some S' \<and> length S' = length T \<and> robin S' \<and> add_mset y (entries S') = entries T"
  using assms
proof (induction k arbitrary: T i y)
  case 0
  let ?ni = "(i + 1) mod length T"
  have "T ! ?ni = None" using 0(5) by (simp add: cyc_def)
  then show ?case using 0 robin_clear [OF 0(1,2)] by (subst shiftLoop.simps) (auto simp: entries_update(3) nth_list_update)
next
  case (Suc k)
  let ?n = "length T" and ?ni = "(i + 1) mod length T"
  have ni: "?ni < ?n" using Suc.prems(2) by (rule next_less)
  show ?case
  proof (cases "\<exists>z. ?ni \<noteq> i \<and> T ! ?ni = Some z \<and> 0 < distanceAt T ?ni z")
    case False
    then have "robin (T[i := None])" using Suc.prems by (intro robin_clear) auto
    moreover have "shiftLoop (T[i := None]) i = Some (T[i := None])"
      using False Suc.prems(2) by (subst shiftLoop.simps) (auto split: option.split simp: distanceAt_def nth_list_update)
    ultimately show ?thesis using Suc.prems by (simp add: entries_update(3))
  next
    case True
    then obtain z where ne: "?ni \<noteq> i" and z: "T ! ?ni = Some z" "0 < distanceAt T ?ni z" by blast
    have home: "fst z < ?n" using entries_nth [OF ni z(1)] Suc.prems(4) by (simp add: homed_def)
    have shifted: "distanceAt T ?ni z = distanceAt T i z + 1"
      using hmapProbe_back [OF home Suc.prems(2)] z(2) by (simp add: distanceAt_def)
    have y: "distanceAt T ?ni z \<le> distanceAt T i y + 1" using robinD [OF Suc.prems(1,2) z] Suc.prems(3) by (simp add: follows_def)
    let ?T = "T[i := Some z]"
    have "robin ?T"
    proof (rule robin_update [OF Suc.prems(1,2) home])
      fix q assume q: "q < ?n" "(q + 1) mod ?n = i" "0 < distanceAt T i z"
      then have "follows T q (distanceAt T i y)" using robinD [OF Suc.prems(1) q(1), of y] Suc.prems(3) y shifted by simp
      then show "follows T q (distanceAt T i z)" using y shifted by (auto simp: follows_def)
    next
      fix w assume "T ! ?ni = Some w"
      then show "distanceAt T ?ni w \<le> distanceAt T i z + 1" using z shifted by simp
    qed
    moreover have all: "add_mset y (entries ?T) = add_mset z (entries T)" using entries_update(2) [OF Suc.prems(2,3)] .
    then have "homed ?n (entries ?T)" using Suc.prems(4) home unfolding homed_def by (metis insert_iff set_mset_add_mset_insert)
    moreover have "cyc ?n ?ni (Suc k) = cyc ?n i (Suc (Suc k))" using cyc_cyc [of ?n i 1 "Suc k"] by (simp add: cyc_def)
    moreover have "cyc ?n i (Suc (Suc k)) \<noteq> i" using Suc.prems(3,5) by auto
    ultimately have "robin ?T" "homed ?n (entries ?T)" "?T ! cyc ?n ?ni (Suc k) = None" using Suc.prems(5) by simp_all
    then obtain S' where S': "shiftLoop (?T[?ni := None]) ?ni = Some S'" "length S' = length ?T" "robin S'" "add_mset z (entries S') = entries ?T"
      using Suc.IH [of ?T ?ni z] ni z(1) ne by auto
    have "shiftLoop (T[i := None]) i = shiftLoop (T[i := None, i := Some z, ?ni := None]) ?ni"
      using z ne ni by (subst shiftLoop.simps) (simp add: distanceAt_def)
    moreover have "add_mset y (entries S') = entries T" using all S'(4) by (metis add_mset_add_mset_same_iff add_mset_commute)
    ultimately show ?thesis using S' by auto
  qed
qed

section \<open>Sizes\<close>

lemma doubleUntil_ge: "0 < lst \<Longrightarrow> n \<le> doubleUntil lst n \<and> lst \<le> doubleUntil lst n"
proof (induction lst n rule: doubleUntil.induct)
  case (1 lst n)
  then show ?case by (subst (1 2) doubleUntil.simps) auto
qed

lemma doubleUntil_mono: "0 < lst \<Longrightarrow> n \<le> n' \<Longrightarrow> doubleUntil lst n \<le> doubleUntil lst n'"
proof (induction lst n' rule: doubleUntil.induct)
  case (1 lst n')
  show ?case
  proof (cases "lst < n")
    case True
    then show ?thesis using 1 by (subst (1 2) doubleUntil.simps) simp
  next
    case False
    then show ?thesis using doubleUntil_ge [OF 1(2), of n'] by (subst doubleUntil.simps) simp
  qed
qed

lemma find_least:
  assumes "sorted ps" "List.find (\<lambda>p. n \<le> p) ps = Some p" "q \<in> set ps" "n \<le> q"
  shows "p \<le> (q::nat)"
  using assms by (induction ps) (auto split: if_splits)

lemma primes_facts: "sorted HMAP_PRIMES" "last HMAP_PRIMES = 8800019" "\<forall>p\<in>set HMAP_PRIMES. p \<le> 8800019"
  by (simp_all add: HMAP_PRIMES_def)

definition capacityFor :: "nat \<Rightarrow> nat" where
  "capacityFor n = (case List.find (\<lambda>p. p \<ge> n) HMAP_PRIMES of Some p \<Rightarrow> p | None \<Rightarrow> doubleUntil (last HMAP_PRIMES) n)"

lemma capacityFor_ge: "n \<le> capacityFor n"
  using doubleUntil_ge [of 8800019 n] by (auto simp: capacityFor_def primes_facts find_Some_iff split: option.split)

lemma capacityFor_mono:
  assumes "n \<le> n'"
  shows "capacityFor n \<le> capacityFor n'"
proof (cases "List.find (\<lambda>p. n' \<le> p) HMAP_PRIMES")
  case None
  then show ?thesis
  proof (cases "List.find (\<lambda>p. n \<le> p) HMAP_PRIMES")
    case (Some p)
    then have "p \<le> 8800019" using primes_facts(3) by (auto simp: find_Some_iff)
    then show ?thesis using None Some doubleUntil_ge [of 8800019 n'] by (simp add: capacityFor_def primes_facts)
  qed (use None doubleUntil_mono [OF _ assms, of 8800019] in \<open>simp add: capacityFor_def primes_facts\<close>)
next
  case (Some p')
  then have p': "p' \<in> set HMAP_PRIMES" "n \<le> p'" using assms by (auto simp: find_Some_iff)
  then obtain p where p: "List.find (\<lambda>p. n \<le> p) HMAP_PRIMES = Some p"
    by (cases "List.find (\<lambda>p. n \<le> p) HMAP_PRIMES") (auto simp: find_None_iff)
  then have "p \<le> p'" using find_least [OF primes_facts(1) p p'] by simp
  then show ?thesis using Some p by (simp add: capacityFor_def)
qed

lemma hmapIdealSize_ge: "n < hmapIdealSize n"
proof -
  have "(n + 1) * 9 div 9 \<le> (n + 1) * 10 div 9" by (intro div_le_mono) simp
  then have "n + 1 \<le> (n + 1) * 10 div 9" by simp
  then show ?thesis using capacityFor_ge [of "(n + 1) * 10 div 9"] by (simp add: hmapIdealSize_def capacityFor_def Let_def)
qed

lemma hmapIdealSize_mono: "n \<le> n' \<Longrightarrow> hmapIdealSize n \<le> hmapIdealSize n'"
  unfolding hmapIdealSize_def capacityFor_def [symmetric] Let_def by (intro capacityFor_mono div_le_mono mult_le_mono) auto

section \<open>Maps\<close>

definition items :: "'a Hmap \<Rightarrow> 'a multiset" where
  "items m = image_mset snd (entries (hm_slots m))"

definition unrelated :: "('a \<Rightarrow> 'a \<Rightarrow> bool) \<Rightarrow> 'a multiset \<Rightarrow> bool" where
  "unrelated equal M \<longleftrightarrow> (\<forall>y z. {#y, z#} \<subseteq># M \<longrightarrow> \<not> equal y z)"

definition hmap_ok :: "('a \<Rightarrow> HashCode) \<Rightarrow> ('a \<Rightarrow> 'a \<Rightarrow> bool) \<Rightarrow> 'a Hmap \<Rightarrow> bool" where
  "hmap_ok hash equal m \<longleftrightarrow>
     robin (hm_slots m) \<and>
     (\<forall>z\<in>#entries (hm_slots m). fst z = unat (hash (snd z)) mod length (hm_slots m)) \<and>
     hm_nitems m = size (items m) \<and> hmapIdealSize (hm_nitems m) \<le> length (hm_slots m) \<and> unrelated equal (items m)"

lemma slotItems_items: "mset (slotItems (hm_slots m)) = items m"
  by (simp add: slotItems_def items_def entries_def)

lemma apart_unrelated: "unrelated equal (image_mset snd M) \<Longrightarrow> apart equal M"
  unfolding unrelated_def apart_def
proof (intro allI impI)
  fix y z assume all: "\<forall>y z. {#y, z#} \<subseteq># image_mset snd M \<longrightarrow> \<not> equal y z" and "{#y, z#} \<subseteq># M"
  then have "image_mset snd {#y, z#} \<subseteq># image_mset snd M" by (intro image_mset_subseteq_mono)
  then have "{#snd y, snd z#} \<subseteq># image_mset snd M" by simp
  then show "\<not> equal (snd y) (snd z)" using all by blast
qed

lemma unrelated_mono: "unrelated equal M \<Longrightarrow> N \<subseteq># M \<Longrightarrow> unrelated equal N"
  unfolding unrelated_def by (meson subset_mset.order_trans)

lemma hmap_ok_emptyMap: "hmapIdealSize 0 \<le> n \<Longrightarrow> hmap_ok hash equal (emptyMap n)"
  by (simp add: hmap_ok_def emptyMap_def items_def unrelated_def)

lemma free_slot:
  assumes "hmap_ok hash equal m"
  shows "\<exists>f<length (hm_slots m). hm_slots m ! f = None"
proof -
  have "size (entries (hm_slots m)) < length (hm_slots m)"
    using assms hmapIdealSize_ge [of "hm_nitems m"] by (auto simp: hmap_ok_def items_def)
  then have "filter (\<lambda>s. s = None) (hm_slots m) \<noteq> []" using size_entries [of "hm_slots m"] by auto
  then have "None \<in> set (hm_slots m)" by (auto simp: filter_empty_conv simp del: split_paired_All not_None_eq)
  then show ?thesis by (auto simp: in_set_conv_nth)
qed

lemma hmap_ok_homed: "hmap_ok hash equal m \<Longrightarrow> homed (length (hm_slots m)) (entries (hm_slots m))"
  using free_slot [of hash equal m] by (auto simp: hmap_ok_def homed_def intro!: mod_less_divisor)

text \<open>An insertion of an element that is not there.\<close>

lemma hmapPutInternal_new:
  assumes m: "hmap_ok hash equal m" and new: "unrelated equal (add_mset x (items m))"
  shows "\<exists>m' i. hmapPutInternal hash equal m x = Some (m', i, True) \<and> length (hm_slots m') = length (hm_slots m) \<and> robin (hm_slots m') \<and>
     (\<forall>z\<in>#entries (hm_slots m'). fst z = unat (hash (snd z)) mod length (hm_slots m')) \<and>
     hm_nitems m' = size (items m') \<and> items m' = add_mset x (items m)"
proof -
  let ?S = "hm_slots m" and ?n = "length (hm_slots m)" and ?h = "unat (hash x) mod length (hm_slots m)"
  obtain f where f: "f < ?n" "?S ! f = None" using free_slot [OF m] by blast
  then have h: "?h < ?n" by (intro mod_less_divisor) auto
  have "homed ?n (add_mset (?h, x) (entries ?S))" using hmap_ok_homed [OF m] h by (simp add: homed_def)
  moreover have "apart equal (add_mset (?h, x) (entries ?S))" using new by (intro apart_unrelated) (simp add: items_def)
  moreover have dist: "0 = distanceAt ?S ?h (?h, x)" using h by (simp add: distanceAt_def hmapProbe_cdist)
  moreover have "?S ! cyc ?n ?h (cdist ?n ?h f) = None" using h f by (simp add: cyc_cdist)
  ultimately obtain S' p where S': "putLoop equal ?S (?h, x) ?h 0 = Some (S', p, True)" "length S' = ?n" "robin S'"
    "entries S' = add_mset (?h, x) (entries ?S)"
    using putLoop_new [of ?S "(?h, x)" equal ?h 0 "cdist ?n ?h f"] m h by (auto simp: hmap_ok_def)
  let ?m = "m\<lparr>hm_slots := S', hm_nitems := hm_nitems m + 1\<rparr>"
  have "hmapPutInternal hash equal m x = Some (?m, p, True)" using S'(1) f(1) by (auto simp: hmapPutInternal_def Let_def)
  moreover have "items ?m = add_mset x (items m)" using S'(4) by (simp add: items_def)
  ultimately show ?thesis using S' m by (intro exI [of _ ?m] exI [of _ p]) (auto simp: hmap_ok_def)
qed

lemma putItems_new:
  "hmap_ok hash equal m \<Longrightarrow> unrelated equal (items m + mset xs) \<Longrightarrow> hmapIdealSize (hm_nitems m + length xs) \<le> length (hm_slots m) \<Longrightarrow>
     \<exists>m'. putItems hash equal m xs = Some m' \<and> hmap_ok hash equal m' \<and> items m' = items m + mset xs \<and> length (hm_slots m') = length (hm_slots m)"
proof (induction xs arbitrary: m)
  case Nil
  then show ?case by (subst putItems.simps) simp
next
  case (Cons x xs)
  have sub: "unrelated equal (add_mset x (items m))"
    by (rule unrelated_mono [OF Cons.prems(2)]) (simp add: subset_mset.add_increasing2)
  obtain m' i where m': "hmapPutInternal hash equal m x = Some (m', i, True)" "length (hm_slots m') = length (hm_slots m)" "robin (hm_slots m')"
    "\<forall>z\<in>#entries (hm_slots m'). fst z = unat (hash (snd z)) mod length (hm_slots m')" "hm_nitems m' = size (items m')"
    "items m' = add_mset x (items m)"
    using hmapPutInternal_new [OF Cons.prems(1) sub] by blast
  have n: "hm_nitems m' = hm_nitems m + 1" using m'(5,6) Cons.prems(1) by (simp add: hmap_ok_def)
  then have size: "hmapIdealSize (hm_nitems m') \<le> length (hm_slots m')"
    using Cons.prems(3) m'(2) hmapIdealSize_mono [of "hm_nitems m'" "hm_nitems m + length (x # xs)"] by simp
  then have "hmap_ok hash equal m'" using m' sub by (simp add: hmap_ok_def)
  then obtain m'' where "putItems hash equal m' xs = Some m''" "hmap_ok hash equal m''" "items m'' = items m' + mset xs"
    "length (hm_slots m'') = length (hm_slots m')"
    using Cons.IH [of m'] Cons.prems m' n by auto
  then show ?case using m'(1,2,6) size by (subst putItems.simps) simp
qed

lemma hmapRehash_ok:
  assumes "unrelated equal (items m)" "hm_nitems m = size (items m)"
  shows "\<exists>m'. hmapRehash hash equal m (hmapIdealSize (hm_nitems m)) = Some m' \<and> hmap_ok hash equal m' \<and> items m' = items m"
proof -
  define e :: "'a Hmap" where "e = emptyMap (hmapIdealSize (hm_nitems m))"
  have e: "items e = {#}" "hm_nitems e = 0" "length (hm_slots e) = hmapIdealSize (hm_nitems m)"
    by (simp_all add: e_def emptyMap_def items_def)
  have ok: "hmap_ok hash equal e" unfolding e_def by (rule hmap_ok_emptyMap) (rule hmapIdealSize_mono, simp)
  have unrel: "unrelated equal (items e + mset (slotItems (hm_slots m)))" using assms(1) e(1) by (simp add: slotItems_items)
  have "length (slotItems (hm_slots m)) = hm_nitems m" using slotItems_items [of m] assms(2) by (metis size_mset)
  then have "hmapIdealSize (hm_nitems e + length (slotItems (hm_slots m))) \<le> length (hm_slots e)" using e by simp
  then obtain m' where "putItems hash equal e (slotItems (hm_slots m)) = Some m'" "hmap_ok hash equal m'" "items m' = items m"
    using putItems_new [OF ok unrel] e(1) slotItems_items [of m] by auto
  then show ?thesis unfolding e_def by (simp add: hmapRehash_def)
qed

section \<open>Elements with an equality\<close>

text \<open>What the map relies on: the comparison is an equivalence, and equal elements have equal hashes.\<close>

locale hmap_elements =
  fixes hash :: "'a \<Rightarrow> HashCode" and equal :: "'a \<Rightarrow> 'a \<Rightarrow> bool"
  assumes equal_sym: "equal x y \<Longrightarrow> equal y x"
    and equal_trans: "equal x y \<Longrightarrow> equal y z \<Longrightarrow> equal x z"
    and equal_hash: "equal x y \<Longrightarrow> hash x = hash y"
begin

lemma unrelated_add:
  assumes "unrelated equal M" "\<And>y. y \<in># M \<Longrightarrow> \<not> equal y x"
  shows "unrelated equal (add_mset x M)"
  unfolding unrelated_def
proof (intro allI impI)
  fix y z assume sub: "{#y, z#} \<subseteq># add_mset x M"
  consider "y = x" "z \<in># M" | "z = x" "y \<in># M" | "{#y, z#} \<subseteq># M"
  proof (cases "y = x")
    case True
    then have "{#z#} \<subseteq># M" using sub by simp
    then show thesis using True that(1) by simp
  next
    case y: False
    show thesis
    proof (cases "z = x")
      case True
      then have "{#y#} \<subseteq># M" using sub by (simp add: add_mset_commute)
      then show thesis using True that(2) by simp
    next
      case False
      then have "{#y, z#} \<subseteq># M" using sub y subset_add_mset_notin [of "{#y, z#}" x M] by simp
      then show thesis by (rule that(3))
    qed
  qed
  then show "\<not> equal y z"
  proof cases
    case 1
    then show ?thesis using assms(2) [of z] equal_sym [of y z] by blast
  next
    case 2
    then show ?thesis using assms(2) [of y] by blast
  next
    case 3
    then show ?thesis using assms(1) unfolding unrelated_def by blast
  qed
qed

lemma put_new:
  assumes m: "hmap_ok hash equal m" and new: "\<And>y. y \<in># items m \<Longrightarrow> \<not> equal y x"
  shows "\<exists>m' i. hmapPut hash equal m x = Some (m', i, True) \<and> hmap_ok hash equal m' \<and> items m' = add_mset x (items m)"
proof -
  have unrel: "unrelated equal (add_mset x (items m))" using m new by (intro unrelated_add) (simp_all add: hmap_ok_def)
  obtain m' i where m': "hmapPutInternal hash equal m x = Some (m', i, True)" "length (hm_slots m') = length (hm_slots m)" "robin (hm_slots m')"
    "\<forall>z\<in>#entries (hm_slots m'). fst z = unat (hash (snd z)) mod length (hm_slots m')" "hm_nitems m' = size (items m')"
    "items m' = add_mset x (items m)"
    using hmapPutInternal_new [OF m unrel] by blast
  show ?thesis
  proof (cases "hmapIdealSize (hm_nitems m') > length (hm_slots m')")
    case True
    obtain m'' where "hmapRehash hash equal m' (hmapIdealSize (hm_nitems m')) = Some m''" "hmap_ok hash equal m''" "items m'' = items m'"
      using hmapRehash_ok [of equal m'] unrel m' by auto
    then show ?thesis using m' True by (simp add: hmapPut_def hmapResizeMore_def)
  next
    case False
    then have "hmap_ok hash equal m'" using m' unrel by (simp add: hmap_ok_def)
    then show ?thesis using m' False by (simp add: hmapPut_def hmapResizeMore_def)
  qed
qed

lemma find_present:
  assumes m: "hmap_ok hash equal m" and y: "y \<in># items m" "equal y x"
  shows "\<exists>i h. findSlot hash equal m x = Some (Some i) \<and> i < length (hm_slots m) \<and> hm_slots m ! i = Some (h, y)"
proof -
  let ?S = "hm_slots m" and ?h = "unat (hash x) mod length (hm_slots m)"
  obtain z where "z \<in># entries ?S" "snd z = y" using y(1) by (auto simp: items_def)
  then obtain i where i: "i < length ?S" "?S ! i = Some z" "snd z = y" by (auto simp: in_entries)
  have z: "fst z = ?h" using m \<open>z \<in># entries ?S\<close> equal_hash [OF y(2)] i(3) by (simp add: hmap_ok_def)
  have h: "?h < length ?S" using i(1) by (intro mod_less_divisor) auto
  then obtain r w where r: "findLoop equal ?S x ?h 0 = Some (Some r)" "r < length ?S" "?S ! r = Some w" "equal (snd w) x"
    using findLoop_present [of ?S i z equal x 0] m i y(2) z by (auto simp: hmap_ok_def cyc_0)
  have "snd w = y"
  proof (rule ccontr)
    assume ne: "snd w \<noteq> y"
    have "w \<in># entries ?S" using entries_nth r(2,3) by blast
    then have "snd w \<in># items m" by (simp add: items_def)
    then have "{#snd w, y#} \<subseteq># items m" using y(1) ne by (simp add: insert_subset_eq_iff in_diff_count)
    then show False using m equal_trans [OF r(4) equal_sym [OF y(2)]] by (auto simp: hmap_ok_def unrelated_def)
  qed
  then show ?thesis using r i(1) by (intro exI [of _ r] exI [of _ "fst w"]) (auto simp: findSlot_def)
qed

lemma find_absent:
  assumes m: "hmap_ok hash equal m" and none: "\<And>y. y \<in># items m \<Longrightarrow> \<not> equal y x"
  shows "findSlot hash equal m x = Some None"
proof (cases "hm_slots m = []")
  case False
  then have "unat (hash x) mod length (hm_slots m) < length (hm_slots m)" by simp
  then show ?thesis using False none findLoop_absent [OF hmap_ok_homed [OF m], of equal x]
    by (auto simp: findSlot_def items_def)
qed (simp add: findSlot_def)

lemma get_present: "hmap_ok hash equal m \<Longrightarrow> y \<in># items m \<Longrightarrow> equal y x \<Longrightarrow> hmapGet hash equal m (Elsewhere x) = Some (Some y)"
  using find_present [of m y x] by (auto simp: hmapGet_def)

lemma get_absent: "hmap_ok hash equal m \<Longrightarrow> (\<And>y. y \<in># items m \<Longrightarrow> \<not> equal y x) \<Longrightarrow> hmapGet hash equal m (Elsewhere x) = Some None"
  using find_absent [of m x] by (auto simp: hmapGet_def)

lemma remove_present:
  assumes m: "hmap_ok hash equal m" and y: "y \<in># items m" "equal y x"
  shows "\<exists>m'. hmapRemove hash equal m x = Some m' \<and> hmap_ok hash equal m' \<and> add_mset y (items m') = items m"
proof -
  let ?S = "hm_slots m"
  obtain i h where i: "findSlot hash equal m x = Some (Some i)" "i < length ?S" "?S ! i = Some (h, y)"
    using find_present [OF m y] by blast
  obtain f where f: "f < length ?S" "?S ! f = None" using free_slot [OF m] by blast
  then have "cdist (length ?S) i f \<noteq> 0" using i cyc_cdist [OF i(2) f(1)] cyc_0 [OF i(2)] by (cases "cdist (length ?S) i f") auto
  then obtain k where "cdist (length ?S) i f = Suc k" by (cases "cdist (length ?S) i f") auto
  then have "?S ! cyc (length ?S) i (Suc k) = None" using cyc_cdist [OF i(2) f(1)] f(2) by simp
  then obtain S' where S': "shiftLoop (?S[i := None]) i = Some S'" "length S' = length ?S" "robin S'" "add_mset (h, y) (entries S') = entries ?S"
    using shiftLoop_clears [of ?S i "(h, y)" k] m i hmap_ok_homed [OF m] by (auto simp: hmap_ok_def)
  let ?m = "m\<lparr>hm_slots := S', hm_nitems := hm_nitems m - 1\<rparr>"
  have all: "add_mset y (items ?m) = items m" using S'(4) by (simp add: items_def flip: S'(4))
  then have sub: "items ?m \<subseteq># items m" by (metis mset_subset_eq_add_left add_mset_add_single)
  have unrel: "unrelated equal (items ?m)" using m sub by (auto simp: hmap_ok_def intro: unrelated_mono)
  have size: "hm_nitems ?m = size (items ?m)" using m all by (metis (no_types, lifting) hmap_ok_def Hmap.select_convs(2) Hmap.surjective Hmap.update_convs(2) size_add_mset diff_Suc_1 Hmap.simps(4))
  show ?thesis
  proof (cases "hmapIdealSize (hm_nitems ?m) < length (hm_slots ?m)")
    case True
    obtain m'' where "hmapRehash hash equal ?m (hmapIdealSize (hm_nitems ?m)) = Some m''" "hmap_ok hash equal m''" "items m'' = items ?m"
      using hmapRehash_ok [OF unrel size] by blast
    then show ?thesis using i(1) S'(1) True all by (simp add: hmapRemove_def hmapResizeLess_def)
  next
    case False
    have "\<forall>z\<in>#entries S'. fst z = unat (hash (snd z)) mod length S'"
      using m S'(2) by (auto simp: hmap_ok_def simp flip: S'(4))
    moreover have "hmapIdealSize (hm_nitems ?m) \<le> length S'"
      using m S'(2) hmapIdealSize_mono [of "hm_nitems ?m" "hm_nitems m"] by (auto simp: hmap_ok_def)
    ultimately have "hmap_ok hash equal ?m" using S'(3) unrel size by (simp add: hmap_ok_def)
    then show ?thesis using i(1) S'(1) False all by (simp add: hmapRemove_def hmapResizeLess_def)
  qed
qed

lemma remove_absent: "hmap_ok hash equal m \<Longrightarrow> (\<And>y. y \<in># items m \<Longrightarrow> \<not> equal y x) \<Longrightarrow> hmapRemove hash equal m x = Some m"
  using find_absent [of m x] by (auto simp: hmapRemove_def)

end

interpretation variables: hmap_elements hashVariableTrace compareVariableTrace
  by unfold_locales (auto simp: compareVariableTrace_def hashVariableTrace_def)

section \<open>The table of variables is a map\<close>

text \<open>The operations of the memory pass: a variable is declared once while it is in scope, and removed at the end of its block.\<close>

datatype variable_op = Declare u64 u64 VariableState | Leave u64

definition leaveVariable :: "VariableTrace Hmap \<Rightarrow> u64 \<Rightarrow> VariableTrace Hmap option" where
  "leaveVariable vars node = hmapRemove hashVariableTrace compareVariableTrace vars (variableTrace node 0 vtsUninitialized 0)"

fun runVariables :: "VariableTrace Hmap \<Rightarrow> variable_op list \<Rightarrow> VariableTrace Hmap option" where
  "runVariables vars [] = Some vars"
| "runVariables vars (Declare node scope state # ops) =
     Option.bind (insertVariableTrace vars node scope state) (\<lambda>vars. runVariables vars ops)"
| "runVariables vars (Leave node # ops) = Option.bind (leaveVariable vars node) (\<lambda>vars. runVariables vars ops)"

fun stepVariables :: "(u64 \<rightharpoonup> VariableTrace) \<Rightarrow> variable_op \<Rightarrow> (u64 \<rightharpoonup> VariableTrace)" where
  "stepVariables f (Declare node scope state) = f(node \<mapsto> variableTrace node scope state (of_nat (card (dom f))))"
| "stepVariables f (Leave node) = f(node := None)"

fun declaredOnce :: "(u64 \<rightharpoonup> VariableTrace) \<Rightarrow> variable_op list \<Rightarrow> bool" where
  "declaredOnce f [] = True"
| "declaredOnce f (op # ops) =
     ((case op of Declare node _ _ \<Rightarrow> f node = None | Leave node \<Rightarrow> True) \<and> declaredOnce (stepVariables f op) ops)"

definition traces :: "VariableTrace Hmap \<Rightarrow> (u64 \<rightharpoonup> VariableTrace) \<Rightarrow> bool" where
  "traces vars f \<longleftrightarrow>
     hmap_ok hashVariableTrace compareVariableTrace vars \<and> (\<forall>t. t \<in># items vars \<longleftrightarrow> f (vt_variable t) = Some t) \<and>
     (\<forall>node t. f node = Some t \<longrightarrow> vt_variable t = node) \<and> finite (dom f) \<and> hm_nitems vars = card (dom f)"

lemma vt_variable_trace [simp]: "vt_variable (variableTrace node scope state idx) = node"
  by (simp add: variableTrace_def)

lemma compare_trace [simp]: "compareVariableTrace t (variableTrace node scope state idx) \<longleftrightarrow> vt_variable t = node"
  by (simp add: compareVariableTrace_def)

lemma tracesD:
  assumes "traces vars f"
  shows "hmap_ok hashVariableTrace compareVariableTrace vars" "t \<in># items vars \<longleftrightarrow> f (vt_variable t) = Some t"
    "f node = Some t \<Longrightarrow> vt_variable t = node" "finite (dom f)" "hm_nitems vars = card (dom f)"
  using assms unfolding traces_def by blast+

lemma tracesI:
  assumes "hmap_ok hashVariableTrace compareVariableTrace vars" "\<And>t. t \<in># items vars \<longleftrightarrow> f (vt_variable t) = Some t"
    "\<And>node t. f node = Some t \<Longrightarrow> vt_variable t = node" "finite (dom f)" "hm_nitems vars = card (dom f)"
  shows "traces vars f"
  using assms unfolding traces_def by blast

lemma traces_absent: "traces vars f \<Longrightarrow> f node = None \<Longrightarrow> y \<in># items vars \<Longrightarrow> vt_variable y \<noteq> node"
  using tracesD(2) [of vars f y] by auto

lemma declare_variable:
  assumes t: "traces vars f" and new: "f node = None"
  shows "\<exists>vars'. insertVariableTrace vars node scope state = Some vars' \<and> traces vars' (stepVariables f (Declare node scope state))"
proof -
  let ?t = "variableTrace node scope state (of_nat (hm_nitems vars))"
  note ok = tracesD(1) [OF t]
  have absent: "\<not> compareVariableTrace y ?t" if "y \<in># items vars" for y using traces_absent [OF t new that] by simp
  obtain vars' i where v: "hmapPut hashVariableTrace compareVariableTrace vars ?t = Some (vars', i, True)"
    "hmap_ok hashVariableTrace compareVariableTrace vars'" "items vars' = add_mset ?t (items vars)"
    using variables.put_new [OF ok absent] by blast
  have n: "hm_nitems vars' = hm_nitems vars + 1" using v(2,3) ok by (simp add: hmap_ok_def)
  have "traces vars' (f(node \<mapsto> ?t))"
  proof (rule tracesI)
    fix u
    show "u \<in># items vars' \<longleftrightarrow> (f(node \<mapsto> ?t)) (vt_variable u) = Some u"
      using tracesD(2) [OF t, of u] new v(3) by (cases "vt_variable u = node") auto
  next
    fix node' u assume "(f(node \<mapsto> ?t)) node' = Some u"
    then show "vt_variable u = node'" using tracesD(3) [OF t, of node' u] by (cases "node' = node") auto
  next
    have "node \<notin> dom f" using new by (simp add: domIff)
    then show "hm_nitems vars' = card (dom (f(node \<mapsto> ?t)))" using n tracesD(4,5) [OF t] by simp
  qed (use v(2) tracesD(4) [OF t] in simp_all)
  then have "traces vars' (stepVariables f (Declare node scope state))" using tracesD(5) [OF t] by simp
  then show ?thesis using v(1) by (simp add: insertVariableTrace_def)
qed

lemma leave_unrelated:
  assumes "hmap_ok hashVariableTrace compareVariableTrace vars" "add_mset y M = items vars" "z \<in># M"
  shows "vt_variable z \<noteq> vt_variable y"
proof -
  have "{#y, z#} \<subseteq># items vars" unfolding assms(2) [symmetric] using assms(3) by simp
  moreover have "unrelated compareVariableTrace (items vars)" using assms(1) unfolding hmap_ok_def by blast
  ultimately have "\<not> compareVariableTrace y z" unfolding unrelated_def by blast
  then show ?thesis by (simp add: compareVariableTrace_def)
qed

lemma leave_variable:
  assumes t: "traces vars f"
  shows "\<exists>vars'. leaveVariable vars node = Some vars' \<and> traces vars' (stepVariables f (Leave node))"
proof -
  note ok = tracesD(1) [OF t]
  show ?thesis
  proof (cases "f node")
    case None
    then have "leaveVariable vars node = Some vars"
      unfolding leaveVariable_def by (intro variables.remove_absent [OF ok]) (simp add: traces_absent [OF t])
    moreover have "f(node := None) = f" using None by (simp add: fun_upd_idem)
    ultimately show ?thesis using t by simp
  next
    case (Some y)
    have y: "vt_variable y = node" "y \<in># items vars" using tracesD(2) [OF t, of y] tracesD(3) [OF t Some] Some by simp_all
    obtain vars' where v: "leaveVariable vars node = Some vars'" "hmap_ok hashVariableTrace compareVariableTrace vars'"
      "add_mset y (items vars') = items vars"
      unfolding leaveVariable_def using variables.remove_present [OF ok y(2), of "variableTrace node 0 vtsUninitialized 0"] y(1) by auto
    have mem: "z \<in># items vars' \<longleftrightarrow> vt_variable z \<noteq> node \<and> z \<in># items vars" for z
      using leave_unrelated [OF ok v(3), of z] y(1) by (auto simp flip: v(3))
    have n: "hm_nitems vars' + 1 = hm_nitems vars" using v(2) ok by (simp add: hmap_ok_def flip: v(3))
    have "traces vars' (f(node := None))"
    proof (rule tracesI)
      fix u
      show "u \<in># items vars' \<longleftrightarrow> (f(node := None)) (vt_variable u) = Some u"
        using tracesD(2) [OF t, of u] mem [of u] by (cases "vt_variable u = node") auto
    next
      fix node' u assume "(f(node := None)) node' = Some u"
      then show "vt_variable u = node'" using tracesD(3) [OF t, of node' u] by (cases "node' = node") auto
    next
      have "node \<in> dom f" using Some by (rule domI)
      then show "hm_nitems vars' = card (dom (f(node := None)))" using n tracesD(4,5) [OF t] by simp
    qed (use v(2) tracesD(4) [OF t] in simp_all)
    then show ?thesis using v(1) by simp
  qed
qed

lemma find_variable:
  assumes t: "traces vars f"
  shows "findVariableTrace vars node = Some (f node)"
proof (cases "f node")
  case None
  then show ?thesis using variables.get_absent [OF tracesD(1) [OF t], of "variableTrace node 0 vtsUninitialized 0"] traces_absent [OF t None]
    by (simp add: findVariableTrace_def)
next
  case (Some y)
  have "vt_variable y = node" "y \<in># items vars" using tracesD(2) [OF t, of y] tracesD(3) [OF t Some] Some by simp_all
  then show ?thesis using Some variables.get_present [OF tracesD(1) [OF t], of y "variableTrace node 0 vtsUninitialized 0"]
    by (simp add: findVariableTrace_def)
qed

lemma run_variables:
  "traces vars f \<Longrightarrow> declaredOnce f ops \<Longrightarrow> \<exists>vars'. runVariables vars ops = Some vars' \<and> traces vars' (foldl stepVariables f ops)"
proof (induction ops arbitrary: vars f)
  case (Cons op ops)
  show ?case
  proof (cases op)
    case (Declare node scope state)
    then show ?thesis using Cons declare_variable [OF Cons.prems(1), of node scope state] by auto
  next
    case (Leave node)
    then show ?thesis using Cons leave_variable [OF Cons.prems(1), of node] by auto
  qed
qed simp

lemma traces_create: "traces hmapCreate Map.empty"
proof -
  have "hmap_ok hashVariableTrace compareVariableTrace hmapCreate"
    unfolding hmapCreate_def hmapInitWithCapacity_def by (rule hmap_ok_emptyMap) simp
  then show ?thesis by (simp add: traces_def hmapCreate_def hmapInitWithCapacity_def emptyMap_def items_def)
qed

text \<open>C13: The table of variables is a map from the nodes of variables to their traces: for every sequence of declarations and ends of
  scopes in which no variable is declared twice, the operations end, also when the table grows and shrinks, and afterwards
  the lookup of every node gives what the map has.\<close>

theorem variables_refine_map:
  assumes "declaredOnce Map.empty ops"
  shows "\<exists>vars. runVariables hmapCreate ops = Some vars \<and>
     (\<forall>node. findVariableTrace vars node = Some (foldl stepVariables Map.empty ops node))"
proof -
  obtain vars where "runVariables hmapCreate ops = Some vars" "traces vars (foldl stepVariables Map.empty ops)"
    using run_variables [OF traces_create assms] by blast
  then show ?thesis using find_variable by blast
qed

theorem variables_refine_map_witness:
  "\<exists>vars. runVariables hmapCreate [Declare 0x1000 0 vtsAssigned, Declare 0x1030 0 vtsMoved, Leave 0x1000] = Some vars \<and>
     findVariableTrace vars 0x1030 = Some (Some (variableTrace 0x1030 0 vtsMoved 1)) \<and> findVariableTrace vars 0x1000 = Some None"
proof -
  have "declaredOnce Map.empty [Declare 0x1000 0 vtsAssigned, Declare 0x1030 0 vtsMoved, Leave 0x1000]" by simp
  from variables_refine_map [OF this] show ?thesis by (auto simp: variableTrace_def)
qed

text \<open>An element that is put again is not found if one of the same distance stands before it: its slot is taken over, and the
  element is in the table twice. The status says that it is new, so the assertion of the client does not notice, and after the
  variable is removed it is still found.\<close>

lemma hashVariableTrace_home:
  "hashVariableTrace (variableTrace 0x1000 scope state idx) = 1451991477" "hashVariableTrace (variableTrace 0x1030 scope state idx) = 1668880197"
  by (simp_all add: hashVariableTrace_def variableTrace_def hash_defs)

lemma hmapIdealSize_small: "hmapIdealSize 0 = 1" "hmapIdealSize (Suc 0) = 5" "hmapIdealSize (Suc (Suc 0)) = 5"
    "hmapIdealSize (Suc (Suc (Suc 0))) = 5" "hmapIdealSize 2 = 5" "hmapIdealSize 3 = 5"
  by (simp_all add: hmapIdealSize_def HMAP_PRIMES_def)

lemmas hmap_steps = hmapIdealSize_small hashVariableTrace_home hmapPut_def hmapPutInternal_def putLoop.simps hmapProbe_def
  hmapResizeMore_def hmapRehash_def putItems.simps slotItems_def List.map_filter_simps hmapRemove_def findSlot_def findLoop.simps
  shiftLoop.simps hmapResizeLess_def hmapGet_def emptyMap_def

theorem put_again_duplicates:
  "case runVariables hmapCreate [Declare 0x1000 0 vtsAssigned, Declare 0x1030 0 vtsAssigned, Declare 0x1000 0 vtsMoved, Leave 0x1000] of
     None \<Rightarrow> False
   | Some vars \<Rightarrow> hm_nitems vars = 2 \<and> findVariableTrace vars 0x1000 = Some (Some (variableTrace 0x1000 0 vtsAssigned 0))"
proof -
  let ?A = "variableTrace 0x1000 0 vtsAssigned 0" and ?B = "variableTrace 0x1030 0 vtsAssigned 1" and ?C = "variableTrace 0x1000 0 vtsMoved 2"
  have five: "replicate 5 x = [x, x, x, x, x]" for x :: "VariableTrace slot" by (simp add: numeral_nat)
  have 1: "insertVariableTrace hmapCreate 0x1000 0 vtsAssigned = Some \<lparr>hm_slots = [None, None, Some (2, ?A), None, None], hm_nitems = Suc 0\<rparr>"
    by (simp add: insertVariableTrace_def hmapCreate_def hmapInitWithCapacity_def five hmap_steps)
  have 2: "insertVariableTrace \<lparr>hm_slots = [None, None, Some (2, ?A), None, None], hm_nitems = Suc 0\<rparr> 0x1030 0 vtsAssigned =
     Some \<lparr>hm_slots = [None, None, Some (2, ?B), Some (2, ?A), None], hm_nitems = 2\<rparr>"
    by (simp add: insertVariableTrace_def hmap_steps)
  have 3: "insertVariableTrace \<lparr>hm_slots = [None, None, Some (2, ?B), Some (2, ?A), None], hm_nitems = 2\<rparr> 0x1000 0 vtsMoved =
     Some \<lparr>hm_slots = [None, None, Some (2, ?C), Some (2, ?B), Some (2, ?A)], hm_nitems = 3\<rparr>"
    by (simp add: insertVariableTrace_def hmap_steps)
  have 4: "leaveVariable \<lparr>hm_slots = [None, None, Some (2, ?C), Some (2, ?B), Some (2, ?A)], hm_nitems = 3\<rparr> 0x1000 =
     Some \<lparr>hm_slots = [None, None, Some (2, ?B), Some (2, ?A), None], hm_nitems = 2\<rparr>"
    by (simp add: leaveVariable_def hmap_steps)
  have 5: "findVariableTrace \<lparr>hm_slots = [None, None, Some (2, ?B), Some (2, ?A), None], hm_nitems = 2\<rparr> 0x1000 = Some (Some ?A)"
    by (simp add: findVariableTrace_def hmap_steps)
  show ?thesis by (simp add: 1 2 3 4 5)
qed

text \<open>A map that was cleared has no slots, and the next insertion divides by their number.\<close>

theorem put_after_clear: "hmapPut hash equal (hmapClear m) x = None"
  by (simp add: hmapPut_def hmapPutInternal_def hmapClear_def emptyMap_def)

end
