(* ===== verification/Cxy_MemStates.thy ===== *)
theory Cxy_MemStates
  imports Cxy_Hmap Cxy_Buffers "HOL-Library.Monad_Syntax"
begin

text \<open>
  The states of variables in the memory pass (\<open>lang/middle/mem/manage.c\<close>).

  The pass follows the state of every local variable through a function: assigned, null, moved, deleted. At a branch it takes a
  snapshot of the table of variables, visits one way, exchanges the states with those of the snapshot, visits the other way,
  and merges the two. A visit of a part of the syntax tree is a function on the context; the visits of the parts of a statement are
  arguments of the visit of the statement. \<open>None\<close> stands for a failed assertion, for an access outside of an array and for memory
  that was not written.
\<close>

section \<open>Model\<close>

datatype use_report = UseOf string u64 | UseMaybeUninitialized u64

record MemContext =
  mc_variables :: "VariableTrace Hmap"
  mc_currentBlock :: u64
  mc_inLoop :: bool
  mc_log :: "use_report list"

type_synonym visit = "MemContext \<Rightarrow> MemContext option"

text \<open>A write through the pointer that \<open>findVariableTrace\<close> returns; the pointer is asserted not to be null.\<close>

definition updateTrace :: "MemContext \<Rightarrow> u64 \<Rightarrow> (VariableTrace \<Rightarrow> VariableTrace) \<Rightarrow> MemContext option" where
  "updateTrace ctx node g =
     (let m = mc_variables ctx in
      Option.bind (findSlot hashVariableTrace compareVariableTrace m (variableTrace node 0 vtsUninitialized 0)) (\<lambda>slot.
      Option.bind slot (\<lambda>i.
        Some (ctx\<lparr>mc_variables := m\<lparr>hm_slots := (hm_slots m)[i := map_option (map_prod id g) (hm_slots m ! i)]\<rparr>\<rparr>))))"

definition assertTrace :: "MemContext \<Rightarrow> u64 \<Rightarrow> VariableTrace option" where
  "assertTrace ctx node = Option.bind (findVariableTrace (mc_variables ctx) node) id"

subsection \<open>Snapshots\<close>

lemma hmapNext_progress: "hmapNext m i = (Some x, j) \<Longrightarrow> i < j \<and> j \<le> length (hm_slots m)"
  by (induction m i rule: hmapNext.induct)
    (subst (asm) (2) hmapNext.simps, fastforce split: if_splits option.splits)

definition captureStep :: "VariableTrace DynArray \<Rightarrow> VariableTrace \<Rightarrow> VariableTrace DynArray option" where
  "captureStep vars vt =
     (let vars = fst (pushOnDynArrayExplicit vars vt) in
      if unat (vt_idx vt) < da_capacity vars
      then Some (vars\<lparr>da_elems := (da_elems vars)[unat (vt_idx vt) := Some vt]\<rparr>)
      else None)"

function captureLoop :: "VariableTrace Hmap \<Rightarrow> nat \<Rightarrow> VariableTrace DynArray \<Rightarrow> VariableTrace DynArray option" where
  "captureLoop m it vars =
     (case hmapNext m it of
        (None, _) \<Rightarrow> Some vars
      | (Some vt, it') \<Rightarrow> (case captureStep vars vt of None \<Rightarrow> None | Some vars \<Rightarrow> captureLoop m it' vars))"
  by auto
termination
  by (relation "measure (\<lambda>(m, it, vars). length (hm_slots m) - it)") (auto dest!: hmapNext_progress [OF HOL.sym])

declare captureLoop.simps [simp del]

definition captureVariableState :: "MemContext \<Rightarrow> VariableTrace DynArray option" where
  "captureVariableState ctx =
     (let n = hm_nitems (mc_variables ctx) in
      map_option (\<lambda>vars. vars\<lparr>da_size := n\<rparr>) (captureLoop (mc_variables ctx) 0 (newDynArrayWithSize n)))"

definition setState :: "VariableState \<Rightarrow> VariableTrace \<Rightarrow> VariableTrace" where
  "setState s t = t\<lparr>vt_state := s\<rparr>"

definition restoreStep :: "MemContext \<times> VariableTrace DynArray \<Rightarrow> nat \<Rightarrow> (MemContext \<times> VariableTrace DynArray) option" where
  "restoreStep = (\<lambda>(ctx, vars) i.
     Option.bind (da_elems vars ! i) (\<lambda>var.
     Option.bind (assertTrace ctx (vt_variable var)) (\<lambda>vt.
     Option.bind (updateTrace ctx (vt_variable var) (setState (vt_state var))) (\<lambda>ctx.
       Some (ctx, vars\<lparr>da_elems := (da_elems vars)[i := Some (setState (vt_state vt) var)]\<rparr>)))))"

definition restoreVariableState :: "MemContext \<Rightarrow> VariableTrace DynArray \<Rightarrow> (MemContext \<times> VariableTrace DynArray) option" where
  "restoreVariableState ctx vars = addAll restoreStep (ctx, vars) [0..<da_size vars]"

subsection \<open>Merging\<close>

definition mergedState :: "VariableState \<Rightarrow> VariableState \<Rightarrow> VariableState" where
  "mergedState l r =
     (if l = r then l
      else if l = vtsAssigned \<or> r = vtsAssigned \<or> l = vtsNullified \<or> r = vtsNullified then vtsMaybeAssigned
      else vtsUninitialized)"

definition mergeStep ::
  "VariableTrace DynArray \<Rightarrow> VariableTrace DynArray \<times> bool \<Rightarrow> nat \<Rightarrow> (VariableTrace DynArray \<times> bool) option" where
  "mergeStep rhs = (\<lambda>(lhs, allMaybeAssigned) i.
     Option.bind (da_elems lhs ! i) (\<lambda>varLhs.
     Option.bind (da_elems rhs ! i) (\<lambda>varRhs.
       if vt_variable varLhs = vt_variable varRhs
       then let state = mergedState (vt_state varLhs) (vt_state varRhs) in
         Some (lhs\<lparr>da_elems := (da_elems lhs)[i := Some (setState state varLhs)]\<rparr>, allMaybeAssigned \<and> state = vtsMaybeAssigned)
       else None)))"

definition mergeVariableStates :: "VariableTrace DynArray \<Rightarrow> VariableTrace DynArray \<Rightarrow> (VariableTrace DynArray \<times> bool) option" where
  "mergeVariableStates lhs rhs = addAll (mergeStep rhs) (lhs, True) [0..<da_size lhs]"

definition mergedUpdateState :: "VariableState \<Rightarrow> VariableState \<Rightarrow> VariableState" where
  "mergedUpdateState l r =
     (if l = r then l
      else if l = vtsAssigned \<or> r = vtsAssigned \<or> l = vtsMaybeAssigned \<or> r = vtsMaybeAssigned then vtsMaybeAssigned
      else vtsUninitialized)"

definition mergeUpdateStep ::
  "VariableTrace DynArray \<Rightarrow> MemContext \<times> VariableTrace DynArray \<Rightarrow> nat \<Rightarrow> (MemContext \<times> VariableTrace DynArray) option" where
  "mergeUpdateStep rhs = (\<lambda>(ctx, lhs) i.
     Option.bind (da_elems lhs ! i) (\<lambda>varLhs.
     Option.bind (da_elems rhs ! i) (\<lambda>varRhs.
       if vt_variable varLhs = vt_variable varRhs
       then let state = mergedUpdateState (vt_state varLhs) (vt_state varRhs) in
         Option.bind (updateTrace ctx (vt_variable varLhs) (setState state)) (\<lambda>ctx.
           Some (ctx, lhs\<lparr>da_elems := (da_elems lhs)[i := Some (setState state varLhs)]\<rparr>))
       else None)))"

definition mergeUpdateVariableStates ::
  "MemContext \<Rightarrow> VariableTrace DynArray \<Rightarrow> VariableTrace DynArray \<Rightarrow> (MemContext \<times> VariableTrace DynArray) option" where
  "mergeUpdateVariableStates ctx lhs rhs = addAll (mergeUpdateStep rhs) (ctx, lhs) [0..<da_size lhs]"

definition updateVariableStates :: "MemContext \<Rightarrow> VariableTrace DynArray \<Rightarrow> MemContext option" where
  "updateVariableStates ctx vars =
     addAll (\<lambda>ctx i. Option.bind (da_elems vars ! i) (\<lambda>var. updateTrace ctx (vt_variable var) (setState (vt_state var))))
       ctx [0..<da_size vars]"

subsection \<open>Visits\<close>

text \<open>The dispatch saves the members of the stack of the context around every visit; of those this model has the current block and
  whether it is in a loop. A node that is marked as unmanaged is not visited: its visit is \<open>Some\<close>.\<close>

definition withSavedStack :: "visit \<Rightarrow> visit" where
  "withSavedStack func ctx =
     map_option (\<lambda>ctx'. ctx'\<lparr>mc_currentBlock := mc_currentBlock ctx, mc_inLoop := mc_inLoop ctx\<rparr>) (func ctx)"

definition visitIfStmt :: "visit \<Rightarrow> visit option \<Rightarrow> visit option \<Rightarrow> visit" where
  "visitIfStmt cond body otherwise ctx = do {
     ctx \<leftarrow> withSavedStack cond ctx;
     then' \<leftarrow> captureVariableState ctx;
     esle \<leftarrow> captureVariableState ctx;
     (ctx, then') \<leftarrow> (case body of
        None \<Rightarrow> Some (ctx, then')
      | Some body \<Rightarrow> do { ctx \<leftarrow> withSavedStack body ctx; restoreVariableState ctx then' });
     (ctx, esle) \<leftarrow> (case otherwise of
        None \<Rightarrow> Some (ctx, esle)
      | Some otherwise \<Rightarrow> do { ctx \<leftarrow> withSavedStack otherwise ctx; restoreVariableState ctx esle });
     map_option fst (mergeUpdateVariableStates ctx then' esle)
   }"

definition visitWhileStmt :: "visit \<Rightarrow> visit \<Rightarrow> visit" where
  "visitWhileStmt cond body ctx = do {
     ctx \<leftarrow> withSavedStack cond ctx;
     lhs \<leftarrow> captureVariableState ctx;
     rhs \<leftarrow> captureVariableState ctx;
     ctx \<leftarrow> withSavedStack body (ctx\<lparr>mc_inLoop := True\<rparr>);
     (ctx, lhs) \<leftarrow> restoreVariableState ctx lhs;
     (ctx, rhs) \<leftarrow> restoreVariableState ctx rhs;
     map_option fst (mergeUpdateVariableStates ctx lhs rhs)
   }"

fun switchCases :: "visit list \<Rightarrow> MemContext \<Rightarrow> VariableTrace DynArray \<Rightarrow> (MemContext \<times> VariableTrace DynArray) option" where
  "switchCases [] ctx lhs = Some (ctx, lhs)"
| "switchCases (esac # cases) ctx lhs = do {
     rhs \<leftarrow> captureVariableState ctx;
     ctx \<leftarrow> withSavedStack esac ctx;
     (ctx, rhs) \<leftarrow> restoreVariableState ctx rhs;
     (lhs, _) \<leftarrow> mergeVariableStates lhs rhs;
     switchCases cases ctx lhs
   }"

definition visitSwitch :: "visit \<Rightarrow> visit list \<Rightarrow> visit" where
  "visitSwitch cond cases ctx = do {
     ctx \<leftarrow> withSavedStack cond ctx;
     lhs \<leftarrow> captureVariableState ctx;
     (ctx, lhs) \<leftarrow> switchCases cases ctx lhs;
     updateVariableStates ctx lhs
   }"

text \<open>A block that is a statement of a block.\<close>

definition visitInnerBlock :: "visit \<Rightarrow> visit" where
  "visitInnerBlock stmt ctx = do {
     outer \<leftarrow> captureVariableState ctx;
     child \<leftarrow> captureVariableState ctx;
     ctx \<leftarrow> withSavedStack stmt ctx;
     (ctx, child) \<leftarrow> restoreVariableState ctx child;
     map_option fst (mergeUpdateVariableStates ctx child child)
   }"

definition reportUseUnassigned :: "MemContext \<Rightarrow> u64 \<Rightarrow> VariableTrace \<Rightarrow> MemContext" where
  "reportUseUnassigned ctx node vt =
     (let report = (\<lambda>r. ctx\<lparr>mc_log := mc_log ctx @ [r]\<rparr>) in
      case vt_state vt of
        vtsAssigned \<Rightarrow> ctx
      | vtsNullified \<Rightarrow> ctx
      | vtsMaybeAssigned \<Rightarrow> report (UseMaybeUninitialized node)
      | vtsUninitialized \<Rightarrow> report (UseOf ''an uninitialized'' node)
      | vtsMoved \<Rightarrow> report (UseOf ''a moved'' node)
      | vtsDropped \<Rightarrow> report (UseOf ''a deleted'' node))"

definition markUsed :: "VariableTrace \<Rightarrow> VariableTrace" where
  "markUsed t = t\<lparr>vt_used := True\<rparr>"

text \<open>The visit of an identifier that is resolved to a local variable, and the states that \<open>move\<close>, \<open>delete\<close> and an assignment leave.\<close>

definition visitIdentifier :: "u64 \<Rightarrow> visit" where
  "visitIdentifier resolved ctx = do {
     vt \<leftarrow> assertTrace ctx resolved;
     ctx \<leftarrow> updateTrace ctx resolved markUsed;
     Some (reportUseUnassigned ctx resolved (markUsed vt))
   }"

definition visitLocalUnary :: "VariableState \<Rightarrow> u64 \<Rightarrow> visit" where
  "visitLocalUnary state variable ctx = do { ctx \<leftarrow> withSavedStack (visitIdentifier variable) ctx; updateTrace ctx variable (setState state) }"

text \<open>Whether the rest of the pass drops the value of a variable before it is written or left; \<open>managed\<close> is the answer of
  \<open>nodeNeedsMemMgmt\<close> for it.\<close>

definition vtIsUpdatedInChildScopeLoop :: "MemContext \<Rightarrow> VariableTrace \<Rightarrow> bool" where
  "vtIsUpdatedInChildScopeLoop ctx vt \<longleftrightarrow>
     mc_inLoop ctx \<and> vt_scope vt \<noteq> mc_currentBlock ctx \<and> vt_lastDropScope vt \<noteq> mc_currentBlock ctx"

definition vtNeedsMemMgmt :: "MemContext \<Rightarrow> bool \<Rightarrow> VariableTrace \<Rightarrow> bool" where
  "vtNeedsMemMgmt ctx managed vt =
     (if vt_state vt = vtsMaybeAssigned \<or> vt_state vt = vtsAssigned then managed
      else vtIsUpdatedInChildScopeLoop ctx vt \<and> managed)"

definition vtNeedsDropFlags :: "bool \<Rightarrow> VariableTrace \<Rightarrow> bool" where
  "vtNeedsDropFlags managed vt = (if vt_state vt = vtsMaybeAssigned \<and> vt_dropFlags vt = 0 then managed else False)"

section \<open>Writing into the table\<close>

context hmap_elements
begin

lemma update_ok:
  assumes m: "hmap_ok hash equal m" and i: "i < length (hm_slots m)" "hm_slots m ! i = Some (h, y)" and x: "equal x y"
  shows "hmap_ok hash equal (m\<lparr>hm_slots := (hm_slots m)[i := Some (h, x)]\<rparr>) \<and>
     add_mset y (items (m\<lparr>hm_slots := (hm_slots m)[i := Some (h, x)]\<rparr>)) = add_mset x (items m)"
proof -
  let ?S = "hm_slots m" and ?S' = "(hm_slots m)[i := Some (h, x)]"
  have entries: "add_mset (h, y) (entries ?S') = add_mset (h, x) (entries ?S)" using entries_update(2) [OF i] .
  obtain N where N: "entries ?S = add_mset (h, y) N" using entries_nth [OF i] by (metis mset_add)
  then have N': "entries ?S' = add_mset (h, x) N" using entries by (simp add: add_mset_commute)
  have S: "robin ?S" and home: "\<And>z. z \<in># entries ?S \<Longrightarrow> fst z = unat (hash (snd z)) mod length ?S"
    and unrel: "unrelated equal (items m)" using m unfolding hmap_ok_def by blast+
  have h: "h < length ?S" using hmap_ok_homed [OF m] N by (simp add: homed_def)
  have d: "distanceAt ?S i (h, x) = distanceAt ?S i (h, y)" by (simp add: distanceAt_def)
  have "robin ?S'"
  proof (rule robin_update [OF S i(1)])
    fix q assume "q < length ?S" "(q + 1) mod length ?S = i" "0 < distanceAt ?S i (h, x)"
    then show "follows ?S q (distanceAt ?S i (h, x))" using robinD [OF S, of q "(h, y)"] i d by simp
  next
    fix z assume "?S ! ((i + 1) mod length ?S) = Some z"
    then show "distanceAt ?S ((i + 1) mod length ?S) z \<le> distanceAt ?S i (h, x) + 1"
      using robinD [OF S i(1), of z] i(2) d by (cases "distanceAt ?S ((i + 1) mod length ?S) z = 0") (auto simp: follows_def)
  qed (use h in simp)
  moreover have "fst z = unat (hash (snd z)) mod length ?S" if "z \<in># entries ?S'" for z
    using that home [of z] home [of "(h, y)"] equal_hash [OF x] unfolding N N' by auto
  moreover have "unrelated equal (image_mset snd (entries ?S'))"
    unfolding N' image_mset_add_mset
  proof (rule unrelated_add)
    show "unrelated equal (image_mset snd N)" using unrel N by (auto simp: items_def intro: unrelated_mono)
  next
    fix w assume w: "w \<in># image_mset snd N"
    then have "{#w, y#} \<subseteq># items m" using N by (simp add: items_def add_mset_commute)
    then show "\<not> equal w (snd (h, x))" using unrel equal_trans [OF _ x, of w] unfolding unrelated_def by auto
  qed
  moreover have "hm_nitems m = size (image_mset snd (entries ?S'))" using m N N' unfolding hmap_ok_def items_def by simp
  moreover have "hmapIdealSize (hm_nitems m) \<le> length ?S" using m unfolding hmap_ok_def by blast
  ultimately have "hmap_ok hash equal (m\<lparr>hm_slots := ?S'\<rparr>)"
    unfolding hmap_ok_def items_def by simp
  then show ?thesis using entries by (simp add: items_def N N' add_mset_commute)
qed

end

lemma traces_update:
  assumes m: "mc_variables ctx = m" and t: "traces m f" and x: "f node = Some x" and g: "vt_variable (g x) = node"
  shows "\<exists>m'. updateTrace ctx node g = Some (ctx\<lparr>mc_variables := m'\<rparr>) \<and> traces m' (f(node \<mapsto> g x))"
proof -
  have xn: "vt_variable x = node" using tracesD(3) [OF t x] .
  then have mem: "x \<in># items m" using tracesD(2) [OF t, of x] x by simp
  obtain i h where i: "findSlot hashVariableTrace compareVariableTrace m (variableTrace node 0 vtsUninitialized 0) = Some (Some i)"
    "i < length (hm_slots m)" "hm_slots m ! i = Some (h, x)"
    using variables.find_present [OF tracesD(1) [OF t] mem, of "variableTrace node 0 vtsUninitialized 0"] xn by auto
  let ?m = "m\<lparr>hm_slots := (hm_slots m)[i := Some (h, g x)]\<rparr>"
  have ok: "hmap_ok hashVariableTrace compareVariableTrace ?m" and all: "add_mset x (items ?m) = add_mset (g x) (items m)"
    using variables.update_ok [OF tracesD(1) [OF t] i(2,3), of "g x"] g xn by (auto simp: compareVariableTrace_def)
  obtain N where N: "items m = add_mset x N" using mem by (metis mset_add)
  then have N': "items ?m = add_mset (g x) N" using all by (simp add: add_mset_commute)
  have other: "vt_variable u \<noteq> node" if "u \<in># N" for u using leave_unrelated [OF tracesD(1) [OF t] N [symmetric] that] xn by simp
  have "traces ?m (f(node \<mapsto> g x))"
  proof (rule tracesI)
    fix u
    show "u \<in># items ?m \<longleftrightarrow> (f(node \<mapsto> g x)) (vt_variable u) = Some u"
      using tracesD(2) [OF t, of u] N N' other [of u] xn g by (cases "vt_variable u = node") auto
  next
    fix node' u assume "(f(node \<mapsto> g x)) node' = Some u"
    then show "vt_variable u = node'" using tracesD(3) [OF t, of node' u] g by (cases "node' = node") auto
  next
    show "hm_nitems ?m = card (dom (f(node \<mapsto> g x)))" using tracesD(5) [OF t] x by (simp add: insert_absorb domI)
  qed (use ok tracesD(4) [OF t] in simp_all)
  then show ?thesis using i m by (auto simp: updateTrace_def Let_def)
qed

section \<open>Variables in the order of their declarations\<close>

text \<open>The table of variables as a list of nodes, in which the index of a trace is its position, and a map.\<close>

definition scoped :: "MemContext \<Rightarrow> u64 list \<Rightarrow> (u64 \<rightharpoonup> VariableTrace) \<Rightarrow> bool" where
  "scoped ctx nodes f \<longleftrightarrow>
     traces (mc_variables ctx) f \<and> distinct nodes \<and> set nodes = dom f \<and> length nodes < 2 ^ 32 \<and>
     (\<forall>i<length nodes. map_option vt_idx (f (nodes ! i)) = Some (of_nat i))"

lemma scopedD:
  assumes "scoped ctx nodes f"
  shows "traces (mc_variables ctx) f" "distinct nodes" "set nodes = dom f" "length nodes < 2 ^ 32"
    "i < length nodes \<Longrightarrow> map_option vt_idx (f (nodes ! i)) = Some (of_nat i)"
  using assms unfolding scoped_def by blast+

lemma scoped_cong: "mc_variables ctx = mc_variables ctx' \<Longrightarrow> scoped ctx nodes f = scoped ctx' nodes f"
  by (simp add: scoped_def)

lemma scoped_declared:
  assumes "scoped ctx nodes f" "n \<in> set nodes"
  obtains t where "f n = Some t" "vt_variable t = n" "assertTrace ctx n = Some t"
proof -
  obtain t where t: "f n = Some t" using assms scopedD(3) by blast
  then have "vt_variable t = n" using tracesD(3) [OF scopedD(1) [OF assms(1)]] by blast
  then show thesis using that t find_variable [OF scopedD(1) [OF assms(1)], of n] by (simp add: assertTrace_def)
qed

text \<open>Writing a member that is neither the node nor the index.\<close>

lemma updateTrace_scoped:
  assumes s: "scoped ctx nodes f" and n: "n \<in> set nodes" and g: "\<And>t. vt_variable (g t) = vt_variable t" "\<And>t. vt_idx (g t) = vt_idx t"
  shows "\<exists>ctx'. updateTrace ctx n g = Some ctx' \<and> scoped ctx' nodes (f(n := map_option g (f n)))"
proof -
  obtain t where t: "f n = Some t" "vt_variable t = n" using scoped_declared [OF s n] .
  obtain m' where m': "updateTrace ctx n g = Some (ctx\<lparr>mc_variables := m'\<rparr>)" "traces m' (f(n \<mapsto> g t))"
    using traces_update [OF refl scopedD(1) [OF s] t(1), of g] g t by auto
  have "map_option vt_idx ((f(n \<mapsto> g t)) (nodes ! i)) = Some (of_nat i)" if "i < length nodes" for i
    using scopedD(5) [OF s that] t(1) g by (cases "nodes ! i = n") auto
  then have "scoped (ctx\<lparr>mc_variables := m'\<rparr>) nodes (f(n \<mapsto> g t))"
    using scopedD [OF s] m'(2) n by (auto simp: scoped_def insert_absorb)
  then show ?thesis using m'(1) t(1) by simp
qed

section \<open>Snapshots\<close>

lemma hmapNext_items:
  "case hmapNext m it of
     (None, _) \<Rightarrow> slotItems (drop it (hm_slots m)) = []
   | (Some x, it') \<Rightarrow> slotItems (drop it (hm_slots m)) = x # slotItems (drop it' (hm_slots m))"
proof (induction m it rule: hmapNext.induct)
  case (1 m it)
  show ?case
  proof (cases "it < length (hm_slots m)")
    case True
    then have "drop it (hm_slots m) = hm_slots m ! it # drop (it + 1) (hm_slots m)" by (simp add: Cons_nth_drop_Suc)
    then show ?thesis using 1 True by (subst hmapNext.simps) (auto simp: slotItems_def map_filter_simps split: option.splits)
  qed (subst hmapNext.simps, simp add: slotItems_def map_filter_simps)
qed

lemma captureLoop_items: "captureLoop m it vars = addAll captureStep vars (slotItems (drop it (hm_slots m)))"
proof (induction m it vars rule: captureLoop.induct)
  case (1 m it vars)
  show ?case using 1 hmapNext_items [where m = m and it = it] by (subst captureLoop.simps) (auto split: prod.splits option.splits)
qed

lemma captureStep_ok:
  assumes "da_inv vars" "n \<le> da_size vars" "unat (vt_idx vt) < n"
  obtains vars' where "captureStep vars vt = Some vars'" "da_inv vars'" "n \<le> da_size vars'" "da_elems vars' ! unat (vt_idx vt) = Some vt"
    "\<And>i. i < n \<Longrightarrow> i \<noteq> unat (vt_idx vt) \<Longrightarrow> da_elems vars' ! i = da_elems vars ! i"
proof -
  define p where "p = fst (pushOnDynArrayExplicit vars vt)"
  have p: "da_inv p" "da_contents p = da_contents vars @ [Some vt]" "da_size p = da_size vars + 1"
    using push_ok [OF assms(1), of vt] by (simp_all add: p_def)
  have cap: "da_size vars + 1 \<le> length (da_elems p)" "length (da_elems p) = da_capacity p" using p by (auto simp: da_inv_def)
  have keep: "da_elems p ! i = da_elems vars ! i" if "i < n" for i
  proof -
    have "da_elems p ! i = da_contents p ! i" using that assms p(3) by (simp add: da_contents_def)
    also have "\<dots> = (da_contents vars @ [Some vt]) ! i" by (simp only: p(2))
    also have "\<dots> = da_contents vars ! i" using that assms by (simp add: nth_append da_contents_def da_inv_def)
    also have "\<dots> = da_elems vars ! i" using that assms by (simp add: da_contents_def)
    finally show ?thesis .
  qed
  show thesis
  proof (rule that)
    show "captureStep vars vt = Some (p\<lparr>da_elems := (da_elems p)[unat (vt_idx vt) := Some vt]\<rparr>)"
      using assms cap by (simp add: captureStep_def p_def Let_def)
  qed (use p cap keep assms in \<open>auto simp: da_inv_def\<close>)
qed

lemma capture_all:
  assumes "da_inv vars" "n \<le> da_size vars" "\<And>vt. vt \<in> set vts \<Longrightarrow> unat (vt_idx vt) < n" "distinct (map vt_idx vts)"
  shows "\<exists>vars'. addAll captureStep vars vts = Some vars' \<and> da_inv vars' \<and> n \<le> da_size vars' \<and>
     (\<forall>vt\<in>set vts. da_elems vars' ! unat (vt_idx vt) = Some vt) \<and>
     (\<forall>i<n. (\<forall>vt\<in>set vts. unat (vt_idx vt) \<noteq> i) \<longrightarrow> da_elems vars' ! i = da_elems vars ! i)"
  using assms
proof (induction vts arbitrary: vars)
  case (Cons vt vts)
  obtain v where v: "captureStep vars vt = Some v" "da_inv v" "n \<le> da_size v" "da_elems v ! unat (vt_idx vt) = Some vt"
    "\<And>i. i < n \<Longrightarrow> i \<noteq> unat (vt_idx vt) \<Longrightarrow> da_elems v ! i = da_elems vars ! i"
    using captureStep_ok [of vars n vt] Cons.prems by auto
  obtain vars' where vars': "addAll captureStep v vts = Some vars'" "da_inv vars'" "n \<le> da_size vars'"
    "\<forall>vt\<in>set vts. da_elems vars' ! unat (vt_idx vt) = Some vt"
    "\<forall>i<n. (\<forall>vt\<in>set vts. unat (vt_idx vt) \<noteq> i) \<longrightarrow> da_elems vars' ! i = da_elems v ! i"
    using Cons.IH [OF v(2,3)] Cons.prems by auto
  have "unat (vt_idx u) \<noteq> unat (vt_idx vt)" if "u \<in> set vts" for u
    using Cons.prems(4) that by (auto simp: word_unat_eq_iff image_iff)
  then have "da_elems vars' ! unat (vt_idx vt) = Some vt" using vars'(5) Cons.prems(3) [of vt] v(4) by simp
  then have "\<forall>u\<in>set (vt # vts). da_elems vars' ! unat (vt_idx u) = Some u" using vars'(4) by simp
  moreover have "da_elems vars' ! i = da_elems vars ! i" if "i < n" "\<forall>u\<in>set (vt # vts). unat (vt_idx u) \<noteq> i" for i
    using vars'(5) v(5) [of i] that by simp
  ultimately show ?case using v(1) vars'(1-3) by simp
qed simp

text \<open>A snapshot has the traces of the variables in the order of their declarations.\<close>

definition snapshot :: "u64 list \<Rightarrow> (u64 \<rightharpoonup> VariableTrace) \<Rightarrow> VariableTrace DynArray \<Rightarrow> bool" where
  "snapshot nodes g vars \<longleftrightarrow>
     da_size vars = length nodes \<and> length nodes \<le> length (da_elems vars) \<and>
     (\<forall>i<length nodes. da_elems vars ! i = g (nodes ! i)) \<and> (\<forall>n\<in>set nodes. \<exists>u. g n = Some u \<and> vt_variable u = n)"

lemma capture_scoped:
  assumes s: "scoped ctx nodes f"
  shows "\<exists>vars. captureVariableState ctx = Some vars \<and> snapshot nodes f vars"
proof -
  define m where "m = mc_variables ctx"
  note t = scopedD(1) [OF s, folded m_def]
  let ?n = "length nodes" and ?vts = "slotItems (hm_slots m)"
  have n: "hm_nitems m = ?n" using tracesD(5) [OF t] scopedD(2,3) [OF s] by (metis distinct_card)
  have items: "vt \<in> set ?vts \<longleftrightarrow> f (vt_variable vt) = Some vt" for vt
    using tracesD(2) [OF t, of vt] slotItems_items [of m] by (metis set_mset_mset)
  have at: "\<exists>i<?n. nodes ! i = vt_variable vt \<and> vt_idx vt = of_nat i \<and> unat (vt_idx vt) = i" if "vt \<in> set ?vts" for vt
  proof -
    have "vt_variable vt \<in> set nodes" using that items [of vt] scopedD(3) [OF s] by auto
    then obtain i where i: "i < ?n" "nodes ! i = vt_variable vt" by (metis in_set_conv_nth)
    then have "vt_idx vt = of_nat i" using scopedD(5) [OF s i(1)] that items [of vt] by simp
    moreover have "i < 2 ^ 32" using i(1) scopedD(4) [OF s] by simp
    ultimately show ?thesis using i by (auto simp: unat_of_nat)
  qed
  have less: "unat (vt_idx vt) < ?n" if "vt \<in> set ?vts" for vt using at [OF that] by auto
  have inj: "vt = vt'" if "vt \<in> set ?vts" "vt' \<in> set ?vts" "vt_idx vt = vt_idx vt'" for vt vt'
    using at [OF that(1)] at [OF that(2)] that items [of vt] items [of vt'] by (metis option.inject)
  have "distinct ?vts"
  proof -
    have "card (set ?vts) = ?n"
    proof -
      have "bij_betw vt_variable (set ?vts) (dom f)"
      proof (rule bij_betwI')
        fix u u' assume "u \<in> set ?vts" "u' \<in> set ?vts"
        then show "vt_variable u = vt_variable u' \<longleftrightarrow> u = u'" using items [of u] items [of u'] by (metis option.inject)
      next
        fix u assume "u \<in> set ?vts"
        then show "vt_variable u \<in> dom f" using items [of u] by (simp add: domI)
      next
        fix n assume "n \<in> dom f"
        then obtain u where u: "f n = Some u" by blast
        then have "vt_variable u = n" by (rule tracesD(3) [OF t])
        then show "\<exists>u\<in>set ?vts. n = vt_variable u" using u items [of u] by auto
      qed
      then show ?thesis using tracesD(5) [OF t] n by (simp add: bij_betw_same_card)
    qed
    moreover have "length ?vts = ?n" using n tracesD(1) [OF t] slotItems_items [of m] by (metis hmap_ok_def size_mset)
    ultimately show ?thesis by (simp add: card_distinct)
  qed
  then have "distinct (map vt_idx ?vts)" using inj by (simp add: distinct_map inj_on_def)
  moreover have "da_inv (newDynArrayWithSize ?n)" by (simp add: newDynArrayWithSize_def newDynArrayWithCapacity_def da_inv_def)
  ultimately obtain vars where vars: "addAll captureStep (newDynArrayWithSize ?n) ?vts = Some vars" "da_inv vars" "?n \<le> da_size vars"
    "\<forall>vt\<in>set ?vts. da_elems vars ! unat (vt_idx vt) = Some vt"
    using capture_all [of "newDynArrayWithSize ?n" ?n ?vts] less by (auto simp: newDynArrayWithSize_def)
  have "da_elems vars ! i = f (nodes ! i)" if i: "i < ?n" for i
  proof -
    obtain vt where vt: "f (nodes ! i) = Some vt" "vt_variable vt = nodes ! i" using scoped_declared [OF s nth_mem [OF i]] .
    then have "vt \<in> set ?vts" "vt_idx vt = of_nat i" using items [of vt] scopedD(5) [OF s i] by simp_all
    then show ?thesis using vars(4) vt(1) i scopedD(4) [OF s] by (auto simp: unat_of_nat)
  qed
  moreover have "\<exists>u. f n = Some u \<and> vt_variable u = n" if "n \<in> set nodes" for n using scoped_declared [OF s that] by blast
  ultimately have "snapshot nodes f (vars\<lparr>da_size := ?n\<rparr>)" using vars(2,3) by (simp add: snapshot_def da_inv_def)
  then show ?thesis using vars(1) n by (simp add: captureVariableState_def captureLoop_items flip: m_def)
qed

section \<open>Exchanging and merging states\<close>

text \<open>The traces of \<open>f\<close> with the states that \<open>\<sigma>\<close> has for them.\<close>

definition restate :: "(u64 \<rightharpoonup> VariableState) \<Rightarrow> (u64 \<rightharpoonup> VariableTrace) \<Rightarrow> (u64 \<rightharpoonup> VariableTrace)" where
  "restate \<sigma> f = (\<lambda>n. map_option (\<lambda>t. case \<sigma> n of None \<Rightarrow> t | Some s \<Rightarrow> setState s t) (f n))"

definition states :: "(u64 \<rightharpoonup> VariableTrace) \<Rightarrow> (u64 \<rightharpoonup> VariableState)" where
  "states f = (\<lambda>n. map_option vt_state (f n))"

definition mergedStates ::
  "(VariableState \<Rightarrow> VariableState \<Rightarrow> VariableState) \<Rightarrow> (u64 \<rightharpoonup> VariableState) \<Rightarrow> (u64 \<rightharpoonup> VariableState) \<Rightarrow> (u64 \<rightharpoonup> VariableState)" where
  "mergedStates merge l r = (\<lambda>n. case l n of None \<Rightarrow> None | Some s \<Rightarrow> map_option (merge s) (r n))"

lemma setState_simps [simp]: "vt_variable (setState s t) = vt_variable t" "vt_idx (setState s t) = vt_idx t" "vt_state (setState s t) = s"
  by (simp_all add: setState_def)

lemma setState_same [simp]: "setState (vt_state t) t = t"
  by (simp add: setState_def)

lemma restate_empty [simp]: "restate Map.empty f = f"
  by (simp add: restate_def option.map_ident)

lemma dom_restate [simp]: "dom (restate \<sigma> f) = dom f"
  by (auto simp: restate_def)

lemma restate_insert: "\<sigma> n = Some s \<Longrightarrow> restate (\<sigma> |` insert n A) f = (restate (\<sigma> |` A) f)(n := map_option (setState s) (f n))"
  by (auto simp: restate_def restrict_map_def fun_eq_iff)

lemma restate_outside: "n \<notin> A \<Longrightarrow> restate (\<sigma> |` A) f n = f n"
  by (simp add: restate_def option.map_ident)

lemma restate_self [simp]: "restate (states f) f = f"
proof
  fix n show "restate (states f) f n = f n" by (cases "f n") (simp_all add: restate_def states_def)
qed

lemma restate_idem [simp]: "restate \<sigma> (restate \<sigma> f) = restate \<sigma> f"
  by (auto simp: restate_def setState_def option.map_comp comp_def fun_eq_iff intro!: option.map_cong split: option.splits)

lemma states_restate: "states (restate \<sigma> f) n = (if f n = None then None else case \<sigma> n of None \<Rightarrow> states f n | Some s \<Rightarrow> Some s)"
  by (auto simp: restate_def states_def split: option.splits)

lemma addAll_upt:
  assumes "I 0 s" "\<And>k s. k < n \<Longrightarrow> I k s \<Longrightarrow> \<exists>s'. add s k = Some s' \<and> I (Suc k) s'"
  shows "\<exists>s'. addAll add s [0..<n] = Some s' \<and> I n s'"
proof -
  have app: "addAll add s (xs @ [x]) = Option.bind (addAll add s xs) (\<lambda>s. add s x)" for s xs x
    by (induction xs arbitrary: s) (auto split: option.splits)
  have "k \<le> n \<Longrightarrow> \<exists>s'. addAll add s [0..<k] = Some s' \<and> I k s'" for k
  proof (induction k)
    case (Suc k)
    then show ?case using assms(2) [of k] app by (auto simp del: addAll.simps)
  qed (use assms(1) in simp)
  then show ?thesis by simp
qed

lemma take_Suc_set: "k < length nodes \<Longrightarrow> set (take (Suc k) nodes) = insert (nodes ! k) (set (take k nodes))"
  by (simp add: take_Suc_conv_app_nth)

lemma not_in_take: "distinct nodes \<Longrightarrow> k < length nodes \<Longrightarrow> nodes ! k \<notin> set (take k nodes)"
  by (auto simp: in_set_conv_nth nth_eq_iff_index_eq)

lemma restrict_all: "set nodes = dom f \<Longrightarrow> restate (\<sigma> |` set nodes) f = restate \<sigma> f"
  by (rule ext) (auto simp: restate_def restrict_map_def domIff)

lemma snapshotD:
  assumes "snapshot nodes g vars"
  shows "da_size vars = length nodes" "i < length nodes \<Longrightarrow> da_elems vars ! i = g (nodes ! i)"
    "n \<in> set nodes \<Longrightarrow> \<exists>u. g n = Some u \<and> vt_variable u = n"
  using assms unfolding snapshot_def by blast+

lemma snapshot_restrict:
  assumes "snapshot nodes (restate (\<sigma> |` set nodes) g) vars"
  shows "snapshot nodes (restate \<sigma> g) vars"
proof -
  have "restate (\<sigma> |` set nodes) g n = restate \<sigma> g n" if "n \<in> set nodes" for n using that by (simp add: restate_def)
  then show ?thesis using assms unfolding snapshot_def by simp
qed

text \<open>One step of a loop over a snapshot: the state at an index.\<close>

lemma snapshot_step:
  assumes g: "snapshot nodes (restate (\<sigma> |` set (take k nodes)) g) vars" and k: "k < length nodes" and d: "distinct nodes"
    and u: "g (nodes ! k) = Some u" and \<sigma>: "\<sigma> (nodes ! k) = Some s"
  shows "snapshot nodes (restate (\<sigma> |` set (take (Suc k) nodes)) g) (vars\<lparr>da_elems := (da_elems vars)[k := Some (setState s u)]\<rparr>)"
proof -
  let ?g = "restate (\<sigma> |` set (take k nodes)) g"
  have g': "restate (\<sigma> |` set (take (Suc k) nodes)) g = ?g(nodes ! k \<mapsto> setState s u)"
    using u \<sigma> by (simp add: take_Suc_set [OF k] restate_insert)
  have "?g (nodes ! k) = Some u" using u by (simp add: restate_outside [OF not_in_take [OF d k]])
  then have "vt_variable u = nodes ! k" using snapshotD(3) [OF g nth_mem [OF k]] by simp
  then show ?thesis using g k d unfolding g' snapshot_def by (auto simp: nth_list_update nth_eq_iff_index_eq)
qed

lemma scoped_step:
  assumes s: "scoped ctx nodes (restate (\<sigma> |` set (take k nodes)) f)" and k: "k < length nodes" and \<sigma>: "\<sigma> (nodes ! k) = Some s"
  shows "\<exists>ctx'. updateTrace ctx (nodes ! k) (setState s) = Some ctx' \<and> scoped ctx' nodes (restate (\<sigma> |` set (take (Suc k) nodes)) f)"
  using updateTrace_scoped [OF s nth_mem [OF k], of "setState s"] restate_outside [OF not_in_take [OF scopedD(2) [OF s] k], of \<sigma> f]
  by (simp add: take_Suc_set [OF k] restate_insert [of \<sigma>, OF \<sigma>])

lemma restore_scoped:
  assumes s: "scoped ctx nodes f" and g: "snapshot nodes g vars"
  shows "\<exists>ctx' vars'. restoreVariableState ctx vars = Some (ctx', vars') \<and> scoped ctx' nodes (restate (states g) f) \<and>
     snapshot nodes (restate (states f) g) vars'"
proof -
  let ?I = "\<lambda>k (ctx, vars). scoped ctx nodes (restate (states g |` set (take k nodes)) f) \<and>
     snapshot nodes (restate (states f |` set (take k nodes)) g) vars"
  have step: "\<exists>p'. restoreStep p k = Some p' \<and> ?I (Suc k) p'" if k: "k < length nodes" and I: "?I k p" for k p
  proof -
    obtain c v where p: "p = (c, v)" by (cases p)
    have I: "scoped c nodes (restate (states g |` set (take k nodes)) f)" "snapshot nodes (restate (states f |` set (take k nodes)) g) v"
      using I p by simp_all
    note out = restate_outside [OF not_in_take [OF scopedD(2) [OF s] k]]
    obtain t where t: "f (nodes ! k) = Some t" "vt_variable t = nodes ! k" "assertTrace c (nodes ! k) = Some t"
      using scoped_declared [OF I(1) nth_mem [OF k]] out by metis
    obtain u where u: "g (nodes ! k) = Some u" "vt_variable u = nodes ! k" "da_elems v ! k = Some u"
      using snapshotD(3) [OF g nth_mem [OF k]] snapshotD(2) [OF I(2) k] out by auto
    obtain c' where c': "updateTrace c (nodes ! k) (setState (vt_state u)) = Some c'"
      "scoped c' nodes (restate (states g |` set (take (Suc k) nodes)) f)"
      using scoped_step [OF I(1) k, of "vt_state u"] u by (auto simp: states_def)
    have "snapshot nodes (restate (states f |` set (take (Suc k) nodes)) g) (v\<lparr>da_elems := (da_elems v)[k := Some (setState (vt_state t) u)]\<rparr>)"
      by (rule snapshot_step [OF I(2) k scopedD(2) [OF s] u(1)]) (use t in \<open>simp add: states_def\<close>)
    then show ?thesis using c' t u by (auto simp: p restoreStep_def)
  qed
  obtain p where "addAll restoreStep (ctx, vars) [0..<length nodes] = Some p" "?I (length nodes) p"
    using addAll_upt [of ?I "(ctx, vars)" "length nodes" restoreStep] step s g by auto
  then show ?thesis using snapshotD(1) [OF g] snapshot_restrict restrict_all [OF scopedD(3) [OF s]]
    by (cases p) (auto simp: restoreVariableState_def)
qed

lemma mergedStates_at: "l n = Some s \<Longrightarrow> r n = Some s' \<Longrightarrow> mergedStates merge l r n = Some (merge s s')"
  by (simp add: mergedStates_def)

lemma mergeUpdate_scoped:
  assumes s: "scoped ctx nodes f" and l: "snapshot nodes l lhs" and r: "snapshot nodes r rhs"
  shows "\<exists>ctx' lhs'. mergeUpdateVariableStates ctx lhs rhs = Some (ctx', lhs') \<and>
     scoped ctx' nodes (restate (mergedStates mergedUpdateState (states l) (states r)) f)"
proof -
  define \<sigma> where "\<sigma> = mergedStates mergedUpdateState (states l) (states r)"
  let ?I = "\<lambda>k (ctx, lhs). scoped ctx nodes (restate (\<sigma> |` set (take k nodes)) f) \<and> snapshot nodes (restate (\<sigma> |` set (take k nodes)) l) lhs"
  have step: "\<exists>p'. mergeUpdateStep rhs p k = Some p' \<and> ?I (Suc k) p'" if k: "k < length nodes" and I: "?I k p" for k p
  proof -
    obtain c v where p: "p = (c, v)" by (cases p)
    have I: "scoped c nodes (restate (\<sigma> |` set (take k nodes)) f)" "snapshot nodes (restate (\<sigma> |` set (take k nodes)) l) v"
      using I p by simp_all
    note out = restate_outside [OF not_in_take [OF scopedD(2) [OF s] k]]
    obtain u where u: "l (nodes ! k) = Some u" "vt_variable u = nodes ! k" "da_elems v ! k = Some u"
      using snapshotD(3) [OF l nth_mem [OF k]] snapshotD(2) [OF I(2) k] out by auto
    obtain w where w: "r (nodes ! k) = Some w" "vt_variable w = nodes ! k" "da_elems rhs ! k = Some w"
      using snapshotD(3) [OF r nth_mem [OF k]] snapshotD(2) [OF r k] by auto
    have \<sigma>: "\<sigma> (nodes ! k) = Some (mergedUpdateState (vt_state u) (vt_state w))"
      unfolding \<sigma>_def using u w by (intro mergedStates_at) (simp_all add: states_def)
    obtain c' where "updateTrace c (nodes ! k) (setState (mergedUpdateState (vt_state u) (vt_state w))) = Some c'"
      "scoped c' nodes (restate (\<sigma> |` set (take (Suc k) nodes)) f)"
      using scoped_step [OF I(1) k \<sigma>] by blast
    then show ?thesis using u w snapshot_step [OF I(2) k scopedD(2) [OF s] u(1) \<sigma>] by (auto simp: p mergeUpdateStep_def Let_def)
  qed
  obtain p where "addAll (mergeUpdateStep rhs) (ctx, lhs) [0..<length nodes] = Some p" "?I (length nodes) p"
    using addAll_upt [of ?I "(ctx, lhs)" "length nodes" "mergeUpdateStep rhs"] step s l by auto
  then show ?thesis using snapshotD(1) [OF l] restrict_all [OF scopedD(3) [OF s]]
    by (cases p) (auto simp: mergeUpdateVariableStates_def \<sigma>_def)
qed

lemma merge_snapshot:
  assumes d: "distinct nodes" and l: "snapshot nodes l lhs" and r: "snapshot nodes r rhs"
  shows "\<exists>lhs' all. mergeVariableStates lhs rhs = Some (lhs', all) \<and>
     snapshot nodes (restate (mergedStates mergedState (states l) (states r)) l) lhs'"
proof -
  define \<sigma> where "\<sigma> = mergedStates mergedState (states l) (states r)"
  let ?I = "\<lambda>k (lhs, all). snapshot nodes (restate (\<sigma> |` set (take k nodes)) l) lhs"
  have step: "\<exists>p'. mergeStep rhs p k = Some p' \<and> ?I (Suc k) p'" if k: "k < length nodes" and I: "?I k p" for k p
  proof -
    obtain v all where p: "p = (v, all)" by (cases p)
    have I: "snapshot nodes (restate (\<sigma> |` set (take k nodes)) l) v" using I p by simp
    obtain u where u: "l (nodes ! k) = Some u" "vt_variable u = nodes ! k" "da_elems v ! k = Some u"
      using snapshotD(3) [OF l nth_mem [OF k]] snapshotD(2) [OF I k] restate_outside [OF not_in_take [OF d k]] by auto
    obtain w where w: "r (nodes ! k) = Some w" "vt_variable w = nodes ! k" "da_elems rhs ! k = Some w"
      using snapshotD(3) [OF r nth_mem [OF k]] snapshotD(2) [OF r k] by auto
    have \<sigma>: "\<sigma> (nodes ! k) = Some (mergedState (vt_state u) (vt_state w))"
      unfolding \<sigma>_def using u w by (intro mergedStates_at) (simp_all add: states_def)
    then show ?thesis using u w snapshot_step [OF I k d u(1) \<sigma>] by (auto simp: p mergeStep_def Let_def)
  qed
  obtain p where "addAll (mergeStep rhs) (lhs, True) [0..<length nodes] = Some p" "?I (length nodes) p"
    using addAll_upt [of ?I "(lhs, True)" "length nodes" "mergeStep rhs"] step l by auto
  then show ?thesis using snapshotD(1) [OF l] snapshot_restrict
    by (cases p) (auto simp: mergeVariableStates_def \<sigma>_def)
qed

lemma update_scoped:
  assumes s: "scoped ctx nodes f" and g: "snapshot nodes g vars"
  shows "\<exists>ctx'. updateVariableStates ctx vars = Some ctx' \<and> scoped ctx' nodes (restate (states g) f)"
proof -
  let ?add = "\<lambda>ctx i. Option.bind (da_elems vars ! i) (\<lambda>var. updateTrace ctx (vt_variable var) (setState (vt_state var)))"
  let ?I = "\<lambda>k ctx. scoped ctx nodes (restate (states g |` set (take k nodes)) f)"
  have step: "\<exists>c'. ?add c k = Some c' \<and> ?I (Suc k) c'" if k: "k < length nodes" and I: "?I k c" for k c
  proof -
    obtain u where "g (nodes ! k) = Some u" "vt_variable u = nodes ! k" "da_elems vars ! k = Some u"
      using snapshotD(3) [OF g nth_mem [OF k]] snapshotD(2) [OF g k] by auto
    then show ?thesis using scoped_step [OF I k, of "vt_state u"] by (auto simp: states_def)
  qed
  obtain c where "addAll ?add ctx [0..<length nodes] = Some c" "?I (length nodes) c"
    using addAll_upt [of ?I ctx "length nodes" ?add] step s by auto
  then show ?thesis using snapshotD(1) [OF g] restrict_all [OF scopedD(3) [OF s]] by (auto simp: updateVariableStates_def)
qed

section \<open>Visits\<close>

text \<open>A visit that keeps the variables that are in scope and has the effect \<open>\<phi>\<close> on their traces; a part that is missing has none.\<close>

definition refinesVisit :: "u64 list \<Rightarrow> visit \<Rightarrow> ((u64 \<rightharpoonup> VariableTrace) \<Rightarrow> (u64 \<rightharpoonup> VariableTrace)) \<Rightarrow> bool" where
  "refinesVisit nodes v \<phi> \<longleftrightarrow> (\<forall>ctx f. scoped ctx nodes f \<longrightarrow> (\<exists>ctx'. v ctx = Some ctx' \<and> scoped ctx' nodes (\<phi> f)))"

definition refinesBranch :: "u64 list \<Rightarrow> visit option \<Rightarrow> ((u64 \<rightharpoonup> VariableTrace) \<Rightarrow> (u64 \<rightharpoonup> VariableTrace)) \<Rightarrow> bool" where
  "refinesBranch nodes v \<phi> = (case v of None \<Rightarrow> \<phi> = id | Some v \<Rightarrow> refinesVisit nodes v \<phi>)"

lemma refinesVisitD:
  assumes "refinesVisit nodes v \<phi>" "scoped ctx nodes f"
  shows "\<exists>ctx'. withSavedStack v ctx = Some ctx' \<and> scoped ctx' nodes (\<phi> f)"
proof -
  obtain c where c: "v ctx = Some c" "scoped c nodes (\<phi> f)" using assms unfolding refinesVisit_def by blast
  then show ?thesis using scoped_cong [of "c\<lparr>mc_currentBlock := mc_currentBlock ctx, mc_inLoop := mc_inLoop ctx\<rparr>" c nodes]
    by (simp add: withSavedStack_def)
qed

lemma refinesBranchD:
  assumes v: "refinesBranch nodes v \<phi>" and s: "scoped ctx nodes f" and g: "snapshot nodes g vars" and id: "v = None \<Longrightarrow> restate (states g) f = f \<and> restate (states f) g = g"
  shows "\<exists>ctx' vars'. (case v of None \<Rightarrow> Some (ctx, vars) | Some body \<Rightarrow> do { ctx \<leftarrow> withSavedStack body ctx; restoreVariableState ctx vars }) = Some (ctx', vars') \<and>
     scoped ctx' nodes (restate (states g) (\<phi> f)) \<and> snapshot nodes (restate (states (\<phi> f)) g) vars'"
proof (cases v)
  case None
  then show ?thesis using v s g id by (simp add: refinesBranch_def)
next
  case (Some w)
  then obtain c where "withSavedStack w ctx = Some c" "scoped c nodes (\<phi> f)" using v s refinesVisitD [of nodes w \<phi>] by (auto simp: refinesBranch_def)
  then show ?thesis using restore_scoped [OF _ g, of c "\<phi> f"] Some by auto
qed

text \<open>The traces after the branch that is taken first have their old states when the other one is visited.\<close>

definition otherwiseEffect ::
  "((u64 \<rightharpoonup> VariableTrace) \<Rightarrow> (u64 \<rightharpoonup> VariableTrace)) \<Rightarrow> ((u64 \<rightharpoonup> VariableTrace) \<Rightarrow> (u64 \<rightharpoonup> VariableTrace)) \<Rightarrow>
   (u64 \<rightharpoonup> VariableTrace) \<Rightarrow> (u64 \<rightharpoonup> VariableTrace)" where
  "otherwiseEffect b e f = e (restate (states f) (b f))"

lemma restate_states_restate: "set nodes = dom f \<Longrightarrow> set nodes = dom h \<Longrightarrow> restate (states (restate (states f) h)) f = f"
proof (rule ext)
  fix n assume d: "set nodes = dom f" "set nodes = dom h"
  then have "f n = None \<longleftrightarrow> h n = None" by (metis domIff)
  then show "restate (states (restate (states f) h)) f n = f n" by (cases "f n") (auto simp: restate_def states_def)
qed

lemma visitIf_scoped:
  assumes s: "scoped ctx nodes f" and c: "refinesVisit nodes cond c" and b: "refinesBranch nodes body b" and e: "refinesBranch nodes otherwise e"
  shows "\<exists>ctx' f'. visitIfStmt cond body otherwise ctx = Some ctx' \<and> scoped ctx' nodes f' \<and>
     (\<forall>n\<in>set nodes. \<exists>s s'. states (b (c f)) n = Some s \<and> states (otherwiseEffect b e (c f)) n = Some s' \<and>
        states f' n = Some (mergedUpdateState s s'))"
proof -
  define g where "g = c f"
  obtain c1 where c1: "withSavedStack cond ctx = Some c1" "scoped c1 nodes g" using refinesVisitD [OF c s] by (auto simp: g_def)
  obtain t where t: "captureVariableState c1 = Some t" "snapshot nodes g t" using capture_scoped [OF c1(2)] by blast
  obtain c2 t2 where c2: "(case body of None \<Rightarrow> Some (c1, t) | Some body \<Rightarrow> do { ctx \<leftarrow> withSavedStack body c1; restoreVariableState ctx t }) = Some (c2, t2)"
    "scoped c2 nodes (restate (states g) (b g))" "snapshot nodes (restate (states (b g)) g) t2"
    using refinesBranchD [OF b c1(2) t(2)] by auto
  note doms = scopedD(3) [OF c1(2)] scopedD(3) [OF c2(2)]
  let ?f = "restate (states g) (b g)"
  have id: "restate (states g) ?f = ?f \<and> restate (states ?f) g = g"
    using doms restate_states_restate [of nodes g "b g"] by simp
  obtain c3 e3 where c3: "(case otherwise of None \<Rightarrow> Some (c2, t) | Some body \<Rightarrow> do { ctx \<leftarrow> withSavedStack body c2; restoreVariableState ctx t }) = Some (c3, e3)"
    "scoped c3 nodes (restate (states g) (e ?f))" "snapshot nodes (restate (states (e ?f)) g) e3"
    using refinesBranchD [OF e c2(2) t(2)] id by auto
  let ?\<sigma> = "mergedStates mergedUpdateState (states (restate (states (b g)) g)) (states (restate (states (e ?f)) g))"
  obtain c4 l where c4: "mergeUpdateVariableStates c3 t2 e3 = Some (c4, l)" "scoped c4 nodes (restate ?\<sigma> (restate (states g) (e ?f)))"
    using mergeUpdate_scoped [OF c3(2) c2(3) c3(3)] by blast
  have "visitIfStmt cond body otherwise ctx = Some c4"
    using c1(1) t(1) c2(1) c3(1) c4(1) by (simp add: visitIfStmt_def)
  moreover have "\<exists>s s'. states (b g) n = Some s \<and> states (otherwiseEffect b e g) n = Some s' \<and>
     states (restate ?\<sigma> (restate (states g) (e ?f))) n = Some (mergedUpdateState s s')" if n: "n \<in> set nodes" for n
  proof -
    have "n \<in> dom g" "n \<in> dom (b g)" "n \<in> dom (e ?f)" using n doms scopedD(3) [OF c3(2)] by auto
    then obtain x y z where "g n = Some x" "b g n = Some y" "e ?f n = Some z" by blast
    then show ?thesis by (simp add: states_def restate_def otherwiseEffect_def mergedStates_def)
  qed
  ultimately show ?thesis using c4(2) unfolding g_def by blast
qed

lemma visitWhile_scoped:
  assumes s: "scoped ctx nodes f" and c: "refinesVisit nodes cond c" and b: "refinesVisit nodes body b"
  shows "\<exists>ctx' f'. visitWhileStmt cond body ctx = Some ctx' \<and> scoped ctx' nodes f' \<and>
     (\<forall>n\<in>set nodes. \<exists>s s'. states (b (c f)) n = Some s \<and> states (c f) n = Some s' \<and> states f' n = Some (mergedUpdateState s s'))"
proof -
  define g where "g = c f"
  obtain c1 where c1: "withSavedStack cond ctx = Some c1" "scoped c1 nodes g" using refinesVisitD [OF c s] by (auto simp: g_def)
  obtain t where t: "captureVariableState c1 = Some t" "snapshot nodes g t" using capture_scoped [OF c1(2)] by blast
  have "scoped (c1\<lparr>mc_inLoop := True\<rparr>) nodes g" using c1(2) scoped_cong [of "c1\<lparr>mc_inLoop := True\<rparr>" c1] by simp
  then obtain c2 where c2: "withSavedStack body (c1\<lparr>mc_inLoop := True\<rparr>) = Some c2" "scoped c2 nodes (b g)" using refinesVisitD [OF b] by blast
  obtain c3 l where c3: "restoreVariableState c2 t = Some (c3, l)" "scoped c3 nodes (restate (states g) (b g))" "snapshot nodes (restate (states (b g)) g) l"
    using restore_scoped [OF c2(2) t(2)] by blast
  note doms = scopedD(3) [OF c1(2)] scopedD(3) [OF c2(2)]
  obtain c4 r where c4: "restoreVariableState c3 t = Some (c4, r)" "scoped c4 nodes (restate (states g) (b g))" "snapshot nodes g r"
    using restore_scoped [OF c3(2) t(2)] restate_states_restate [OF doms] by auto
  let ?\<sigma> = "mergedStates mergedUpdateState (states (restate (states (b g)) g)) (states g)"
  obtain c5 l' where c5: "mergeUpdateVariableStates c4 l r = Some (c5, l')" "scoped c5 nodes (restate ?\<sigma> (restate (states g) (b g)))"
    using mergeUpdate_scoped [OF c4(2) c3(3) c4(3)] by blast
  have "visitWhileStmt cond body ctx = Some c5"
    using c1(1) t(1) c2(1) c3(1) c4(1) c5(1) by (simp add: visitWhileStmt_def)
  moreover have "\<exists>s s'. states (b g) n = Some s \<and> states g n = Some s' \<and>
     states (restate ?\<sigma> (restate (states g) (b g))) n = Some (mergedUpdateState s s')" if n: "n \<in> set nodes" for n
  proof -
    have "n \<in> dom g" "n \<in> dom (b g)" using n doms by auto
    then obtain x y where "g n = Some x" "b g n = Some y" by blast
    then show ?thesis by (simp add: states_def restate_def mergedStates_def)
  qed
  ultimately show ?thesis using c5(2) unfolding g_def by blast
qed

text \<open>The cases of a switch one after the other, each from the states before it, and the merge of the ends.\<close>

fun caseStates ::
  "((u64 \<rightharpoonup> VariableTrace) \<Rightarrow> (u64 \<rightharpoonup> VariableTrace)) list \<Rightarrow> (u64 \<rightharpoonup> VariableTrace) \<Rightarrow> (u64 \<rightharpoonup> VariableState) list" where
  "caseStates [] f = []"
| "caseStates (\<phi> # \<phi>s) f = states (\<phi> f) # caseStates \<phi>s (restate (states f) (\<phi> f))"

lemma switchCases_scoped:
  assumes "scoped ctx nodes f" "snapshot nodes l lhs" "list_all2 (refinesVisit nodes) cases \<phi>s"
  shows "\<exists>ctx' f' lhs' l'. switchCases cases ctx lhs = Some (ctx', lhs') \<and> scoped ctx' nodes f' \<and> snapshot nodes l' lhs' \<and>
     (\<forall>n\<in>set nodes. states l' n = foldl (\<lambda>s \<sigma>. mergedStates mergedState (\<lambda>_. s) \<sigma> n) (states l n) (caseStates \<phi>s f))"
  using assms
proof (induction cases arbitrary: ctx f lhs l \<phi>s)
  case Nil
  then show ?case by auto
next
  case (Cons esac cases)
  then obtain \<phi> \<phi>s' where \<phi>s: "\<phi>s = \<phi> # \<phi>s'" "refinesVisit nodes esac \<phi>" "list_all2 (refinesVisit nodes) cases \<phi>s'"
    by (auto simp: list_all2_Cons1)
  obtain r where r: "captureVariableState ctx = Some r" "snapshot nodes f r" using capture_scoped [OF Cons.prems(1)] by blast
  obtain c1 where c1: "withSavedStack esac ctx = Some c1" "scoped c1 nodes (\<phi> f)" using refinesVisitD [OF \<phi>s(2) Cons.prems(1)] by blast
  obtain c2 r2 where c2: "restoreVariableState c1 r = Some (c2, r2)" "scoped c2 nodes (restate (states f) (\<phi> f))" "snapshot nodes (restate (states (\<phi> f)) f) r2"
    using restore_scoped [OF c1(2) r(2)] by blast
  let ?l = "restate (mergedStates mergedState (states l) (states (restate (states (\<phi> f)) f))) l"
  obtain l2 all where l2: "mergeVariableStates lhs r2 = Some (l2, all)" "snapshot nodes ?l l2"
    using merge_snapshot [OF scopedD(2) [OF c2(2)] Cons.prems(2) c2(3)] by blast
  obtain ctx' f' lhs' l' where IH: "switchCases cases c2 l2 = Some (ctx', lhs')" "scoped ctx' nodes f'" "snapshot nodes l' lhs'"
    "\<forall>n\<in>set nodes. states l' n = foldl (\<lambda>s \<sigma>. mergedStates mergedState (\<lambda>_. s) \<sigma> n) (states ?l n) (caseStates \<phi>s' (restate (states f) (\<phi> f)))"
    using Cons.IH [OF c2(2) l2(2) \<phi>s(3)] by blast
  have "states ?l n = mergedStates mergedState (\<lambda>_. states l n) (states (\<phi> f)) n" if n: "n \<in> set nodes" for n
  proof -
    have "n \<in> dom f" "n \<in> dom (\<phi> f)" using n scopedD(3) [OF Cons.prems(1)] scopedD(3) [OF c1(2)] by auto
    moreover obtain x where "l n = Some x" using snapshotD(3) [OF Cons.prems(2) n] by blast
    ultimately show ?thesis by (auto simp: states_def restate_def mergedStates_def)
  qed
  then show ?case using r(1) c1(1) c2(1) l2(1) IH \<phi>s(1) by auto
qed

lemma visitSwitch_scoped:
  assumes s: "scoped ctx nodes f" and c: "refinesVisit nodes cond c" and cases: "list_all2 (refinesVisit nodes) cases \<phi>s"
  shows "\<exists>ctx' f'. visitSwitch cond cases ctx = Some ctx' \<and> scoped ctx' nodes f' \<and>
     (\<forall>n\<in>set nodes. states f' n = foldl (\<lambda>s \<sigma>. mergedStates mergedState (\<lambda>_. s) \<sigma> n) (states (c f) n) (caseStates \<phi>s (c f)))"
proof -
  obtain c1 where c1: "withSavedStack cond ctx = Some c1" "scoped c1 nodes (c f)" using refinesVisitD [OF c s] by blast
  obtain l where l: "captureVariableState c1 = Some l" "snapshot nodes (c f) l" using capture_scoped [OF c1(2)] by blast
  obtain c2 f2 l2 g2 where c2: "switchCases cases c1 l = Some (c2, l2)" "scoped c2 nodes f2" "snapshot nodes g2 l2"
    "\<forall>n\<in>set nodes. states g2 n = foldl (\<lambda>s \<sigma>. mergedStates mergedState (\<lambda>_. s) \<sigma> n) (states (c f) n) (caseStates \<phi>s (c f))"
    using switchCases_scoped [OF c1(2) l(2) cases] by blast
  obtain c3 where c3: "updateVariableStates c2 l2 = Some c3" "scoped c3 nodes (restate (states g2) f2)" using update_scoped [OF c2(2,3)] by blast
  have "states (restate (states g2) f2) n = states g2 n" if n: "n \<in> set nodes" for n
  proof -
    have "n \<in> dom f2" using n scopedD(3) [OF c2(2)] by auto
    then show ?thesis using snapshotD(3) [OF c2(3) n] by (auto simp: states_def restate_def)
  qed
  then show ?thesis using c1(1) l(1) c2(1,4) c3 by (auto simp: visitSwitch_def)
qed

lemma visitInnerBlock_scoped:
  assumes s: "scoped ctx nodes f" and b: "refinesVisit nodes stmt b"
  shows "\<exists>ctx' f'. visitInnerBlock stmt ctx = Some ctx' \<and> scoped ctx' nodes f' \<and> (\<forall>n\<in>set nodes. states f' n = states (b f) n)"
proof -
  obtain t where t: "captureVariableState ctx = Some t" "snapshot nodes f t" using capture_scoped [OF s] by blast
  obtain c2 where c2: "withSavedStack stmt ctx = Some c2" "scoped c2 nodes (b f)" using refinesVisitD [OF b s] by blast
  obtain c3 l where c3: "restoreVariableState c2 t = Some (c3, l)" "scoped c3 nodes (restate (states f) (b f))" "snapshot nodes (restate (states (b f)) f) l"
    using restore_scoped [OF c2(2) t(2)] by blast
  let ?\<sigma> = "mergedStates mergedUpdateState (states (restate (states (b f)) f)) (states (restate (states (b f)) f))"
  obtain c4 l' where c4: "mergeUpdateVariableStates c3 l l = Some (c4, l')" "scoped c4 nodes (restate ?\<sigma> (restate (states f) (b f)))"
    using mergeUpdate_scoped [OF c3(2) c3(3) c3(3)] by blast
  have "states (restate ?\<sigma> (restate (states f) (b f))) n = states (b f) n" if n: "n \<in> set nodes" for n
  proof -
    have "n \<in> dom f" "n \<in> dom (b f)" using n scopedD(3) [OF s] scopedD(3) [OF c2(2)] by auto
    then obtain x y where "f n = Some x" "b f n = Some y" by blast
    then show ?thesis by (simp add: states_def restate_def mergedStates_def mergedUpdateState_def)
  qed
  then show ?thesis using t(1) c2(1) c3(1) c4 by (auto simp: visitInnerBlock_def)
qed

lemma markUsed_simps [simp]: "vt_variable (markUsed t) = vt_variable t" "vt_idx (markUsed t) = vt_idx t" "vt_state (markUsed t) = vt_state t"
  by (simp_all add: markUsed_def)

lemma report_variables [simp]: "mc_variables (reportUseUnassigned ctx n vt) = mc_variables ctx"
  by (simp add: reportUseUnassigned_def split: VariableState.split)

lemma identifier_refines:
  assumes n: "n \<in> set nodes"
  shows "refinesVisit nodes (visitIdentifier n) (\<lambda>f. f(n := map_option markUsed (f n)))"
  unfolding refinesVisit_def
proof (intro allI impI)
  fix ctx f assume s: "scoped ctx nodes f"
  obtain t where t: "assertTrace ctx n = Some t" using scoped_declared [OF s n] by blast
  obtain c where c: "updateTrace ctx n markUsed = Some c" "scoped c nodes (f(n := map_option markUsed (f n)))"
    using updateTrace_scoped [OF s n, of markUsed] by auto
  then show "\<exists>ctx'. visitIdentifier n ctx = Some ctx' \<and> scoped ctx' nodes (f(n := map_option markUsed (f n)))"
    using t scoped_cong [of "reportUseUnassigned c n (markUsed t)" c nodes] by (simp add: visitIdentifier_def)
qed

lemma unary_refines:
  assumes n: "n \<in> set nodes"
  shows "refinesVisit nodes (visitLocalUnary st n) (\<lambda>f. f(n := map_option (\<lambda>t. setState st (markUsed t)) (f n)))"
  unfolding refinesVisit_def
proof (intro allI impI)
  fix ctx f assume s: "scoped ctx nodes f"
  let ?f = "f(n := map_option markUsed (f n))"
  obtain c where c: "withSavedStack (visitIdentifier n) ctx = Some c" "scoped c nodes ?f"
    using refinesVisitD [OF identifier_refines [OF n] s] by blast
  obtain c' where "updateTrace c n (setState st) = Some c'" "scoped c' nodes (?f(n := map_option (setState st) (?f n)))"
    using updateTrace_scoped [OF c(2) n, of "setState st"] by auto
  then show "\<exists>ctx'. visitLocalUnary st n ctx = Some ctx' \<and> scoped ctx' nodes (f(n := map_option (\<lambda>t. setState st (markUsed t)) (f n)))"
    using c(1) by (simp add: visitLocalUnary_def option.map_comp comp_def)
qed

section \<open>What the states say\<close>

text \<open>Whether the state alone has a value dropped, and whether a use is silent.\<close>

definition needsDrop :: "VariableState \<Rightarrow> bool" where
  "needsDrop s \<longleftrightarrow> s = vtsMaybeAssigned \<or> s = vtsAssigned"

definition silentUse :: "VariableState \<Rightarrow> bool" where
  "silentUse s \<longleftrightarrow> s = vtsAssigned \<or> s = vtsNullified"

lemma vtNeedsMemMgmt_needsDrop:
  "vtNeedsMemMgmt ctx managed vt \<longleftrightarrow> managed \<and> (needsDrop (vt_state vt) \<or>
     mc_inLoop ctx \<and> vt_scope vt \<noteq> mc_currentBlock ctx \<and> vt_lastDropScope vt \<noteq> mc_currentBlock ctx)"
  by (auto simp: vtNeedsMemMgmt_def needsDrop_def vtIsUpdatedInChildScopeLoop_def)

lemma reportUse_silent: "mc_log (reportUseUnassigned ctx n vt) = mc_log ctx \<longleftrightarrow> silentUse (vt_state vt)"
  by (simp add: reportUseUnassigned_def silentUse_def split: VariableState.split)

lemma mergedUpdate_facts:
  "needsDrop (mergedUpdateState s s') \<longleftrightarrow> needsDrop s \<or> needsDrop s'" "silentUse (mergedUpdateState s s') \<longleftrightarrow> s = s' \<and> silentUse s"
  by (auto simp: mergedUpdateState_def needsDrop_def silentUse_def)

text \<open>C14: After the visit of an if statement every variable in scope has the merge of its states at the ends of the two branches, each
  entered with the states behind the condition. Wherever the value of a managed variable is then checked, it is dropped exactly if one of
  the branches leaves it assigned or perhaps assigned, or if the check stands in a loop, in a block that neither declares the variable nor is the
  last one to have dropped it; there a value that neither branch leaves is dropped as well. A use goes unreported exactly if both branches leave
  the variable in the same state, assigned or null.\<close>

theorem if_merges_branches:
  assumes "scoped ctx nodes f" "refinesVisit nodes cond c" "refinesBranch nodes body b" "refinesBranch nodes otherwise e" "n \<in> set nodes"
  shows "\<exists>ctx' vt s s'. visitIfStmt cond body otherwise ctx = Some ctx' \<and> assertTrace ctx' n = Some vt \<and>
     states (b (c f)) n = Some s \<and> states (otherwiseEffect b e (c f)) n = Some s' \<and>
     (\<forall>d managed. vtNeedsMemMgmt d managed vt \<longleftrightarrow> managed \<and> (needsDrop s \<or> needsDrop s' \<or>
        mc_inLoop d \<and> vt_scope vt \<noteq> mc_currentBlock d \<and> vt_lastDropScope vt \<noteq> mc_currentBlock d)) \<and>
     (\<forall>d. mc_log (reportUseUnassigned d n vt) = mc_log d \<longleftrightarrow> s = s' \<and> silentUse s)"
proof -
  obtain ctx' f' s s' where v: "visitIfStmt cond body otherwise ctx = Some ctx'" "scoped ctx' nodes f'"
    "states (b (c f)) n = Some s" "states (otherwiseEffect b e (c f)) n = Some s'" "states f' n = Some (mergedUpdateState s s')"
    using visitIf_scoped [OF assms(1-4)] assms(5) by blast
  obtain vt where vt: "f' n = Some vt" "assertTrace ctx' n = Some vt" using scoped_declared [OF v(2) assms(5)] .
  then have "vt_state vt = mergedUpdateState s s'" using v(5) by (simp add: states_def)
  then show ?thesis using v vt(2) by (auto simp: vtNeedsMemMgmt_needsDrop reportUse_silent mergedUpdate_facts)
qed

lemma scoped_single:
  assumes "insertVariableTrace hmapCreate n 0 st = Some vars"
  shows "scoped \<lparr>mc_variables = vars, mc_currentBlock = block, mc_inLoop = l, mc_log = log\<rparr> [n] [n \<mapsto> variableTrace n 0 st 0]"
  using declare_variable [OF traces_create, of n 0 st] assms by (auto simp: scoped_def variableTrace_def)

theorem if_merges_branches_witness:
  "\<exists>vars ctx' vt. insertVariableTrace hmapCreate 0x1000 0 vtsAssigned = Some vars \<and>
     visitIfStmt (visitIdentifier 0x1000) (Some (visitLocalUnary vtsMoved 0x1000)) None
       \<lparr>mc_variables = vars, mc_currentBlock = 0, mc_inLoop = False, mc_log = []\<rparr> = Some ctx' \<and>
     assertTrace ctx' 0x1000 = Some vt \<and> vtNeedsMemMgmt (ctx'\<lparr>mc_inLoop := False\<rparr>) True vt \<and>
     mc_log (reportUseUnassigned ctx' 0x1000 vt) \<noteq> mc_log ctx'"
proof -
  obtain vars where vars: "insertVariableTrace hmapCreate 0x1000 0 vtsAssigned = Some vars"
    using declare_variable [OF traces_create, of "0x1000" 0 vtsAssigned] by auto
  have n: "(0x1000 :: u64) \<in> set [0x1000]" by simp
  have none: "refinesBranch [0x1000] None id" by (simp add: refinesBranch_def)
  have some: "refinesBranch [0x1000] (Some (visitLocalUnary vtsMoved 0x1000))
     (\<lambda>f. f(0x1000 := map_option (\<lambda>t. setState vtsMoved (markUsed t)) (f 0x1000)))"
    using unary_refines [OF n] by (simp add: refinesBranch_def)
  from if_merges_branches [OF scoped_single [OF vars, of 0 False "[]"] identifier_refines [OF n] some none n]
  show ?thesis using vars
    by (auto simp: otherwiseEffect_def states_def restate_def needsDrop_def silentUse_def variableTrace_def markUsed_def setState_def)
qed

text \<open>The merge of the cases of a switch has another condition: after two cases that move a variable it counts as not initialised, and its
  value is not dropped when no case was taken. The order of the cases matters.\<close>

theorem switch_forgets_value:
  assumes s: "scoped ctx nodes f" and n: "n \<in> set nodes" and st: "states f n = Some vtsAssigned"
  shows "\<exists>ctx' vt. visitSwitch Some [visitLocalUnary vtsMoved n, visitLocalUnary vtsMoved n] ctx = Some ctx' \<and>
     assertTrace ctx' n = Some vt \<and> \<not> needsDrop (vt_state vt)"
proof -
  let ?\<phi> = "\<lambda>f. f(n := map_option (\<lambda>t. setState vtsMoved (markUsed t)) (f n))"
  have id: "refinesVisit nodes Some id" by (simp add: refinesVisit_def)
  have moves: "list_all2 (refinesVisit nodes) [visitLocalUnary vtsMoved n, visitLocalUnary vtsMoved n] [?\<phi>, ?\<phi>]"
    using unary_refines [OF n] by simp
  obtain ctx' f' where v: "visitSwitch Some [visitLocalUnary vtsMoved n, visitLocalUnary vtsMoved n] ctx = Some ctx'" "scoped ctx' nodes f'"
    "states f' n = foldl (\<lambda>s \<sigma>. mergedStates mergedState (\<lambda>_. s) \<sigma> n) (states (id f) n) (caseStates [?\<phi>, ?\<phi>] (id f))"
    using visitSwitch_scoped [OF s id moves] n by blast
  obtain vt where vt: "f' n = Some vt" "assertTrace ctx' n = Some vt" using scoped_declared [OF v(2) n] .
  have "states f' n = Some vtsUninitialized"
    using v(3) st by (auto simp: states_def restate_def mergedStates_def mergedState_def)
  then show ?thesis using v(1) vt by (auto simp: states_def needsDrop_def)
qed

text \<open>The body of a loop is visited once, with the states before the loop: a value that the first turn moves is used again by the second
  one without a report.\<close>

lemma updateTrace_log: "updateTrace ctx n g = Some ctx' \<Longrightarrow> mc_log ctx' = mc_log ctx"
  by (auto simp: updateTrace_def Let_def bind_eq_Some_conv)

lemma addAll_keeps:
  assumes "\<And>s x s'. add s x = Some s' \<Longrightarrow> P s' = P s"
  shows "addAll add s xs = Some s' \<Longrightarrow> P s' = P s"
  by (induction xs arbitrary: s) (auto dest!: assms split: option.splits)

lemma restore_log: "restoreVariableState ctx vars = Some (ctx', vars') \<Longrightarrow> mc_log ctx' = mc_log ctx"
  unfolding restoreVariableState_def
  by (drule addAll_keeps [where P = "\<lambda>p. mc_log (fst p)", rotated])
    (auto simp: restoreStep_def bind_eq_Some_conv dest: updateTrace_log split: prod.splits)

lemma mergeUpdate_log: "mergeUpdateVariableStates ctx lhs rhs = Some (ctx', lhs') \<Longrightarrow> mc_log ctx' = mc_log ctx"
  unfolding mergeUpdateVariableStates_def
  by (drule addAll_keeps [where P = "\<lambda>p. mc_log (fst p)", rotated])
    (auto simp: mergeUpdateStep_def Let_def bind_eq_Some_conv dest: updateTrace_log split: prod.splits if_splits)

lemma withSavedStack_log: "withSavedStack v ctx = Some ctx' \<Longrightarrow> \<exists>c. v ctx = Some c \<and> mc_log ctx' = mc_log c"
  by (auto simp: withSavedStack_def)

lemma unary_log:
  assumes "visitLocalUnary st n ctx = Some ctx'" "assertTrace ctx n = Some vt" "silentUse (vt_state vt)"
  shows "mc_log ctx' = mc_log ctx"
proof -
  obtain c d where c: "visitIdentifier n ctx = Some c" "mc_log d = mc_log c" "updateTrace d n (setState st) = Some ctx'"
    using assms(1) withSavedStack_log [of "visitIdentifier n" ctx] by (auto simp: visitLocalUnary_def bind_eq_Some_conv)
  obtain e where "updateTrace ctx n markUsed = Some e" "c = reportUseUnassigned e n (markUsed vt)"
    using c(1) assms(2) by (auto simp: visitIdentifier_def bind_eq_Some_conv)
  then show ?thesis using c(2,3) updateTrace_log reportUse_silent [of e n "markUsed vt"] assms(3) by simp
qed

theorem while_misses_move:
  assumes s: "scoped ctx nodes f" and n: "n \<in> set nodes" and st: "states f n = Some vtsAssigned"
  shows "\<exists>ctx'. visitWhileStmt Some (visitLocalUnary vtsMoved n) ctx = Some ctx' \<and> mc_log ctx' = mc_log ctx"
proof -
  have "refinesVisit nodes Some id" by (simp add: refinesVisit_def)
  then obtain ctx' where v: "visitWhileStmt Some (visitLocalUnary vtsMoved n) ctx = Some ctx'"
    using visitWhile_scoped [OF s _ unary_refines [OF n]] by blast
  then obtain lhs rhs c c1 c2 lhs' rhs' lhs'' where steps: "withSavedStack (visitLocalUnary vtsMoved n) (ctx\<lparr>mc_inLoop := True\<rparr>) = Some c"
    "restoreVariableState c lhs = Some (c1, lhs')" "restoreVariableState c1 rhs = Some (c2, rhs')"
    "mergeUpdateVariableStates c2 lhs' rhs' = Some (ctx', lhs'')"
    by (auto simp: visitWhileStmt_def bind_eq_Some_conv withSavedStack_def)
  obtain vt where vt: "f n = Some vt" "assertTrace ctx n = Some vt" using scoped_declared [OF s n] .
  have "mc_log c = mc_log ctx"
    using withSavedStack_log [OF steps(1)] unary_log [of vtsMoved n "ctx\<lparr>mc_inLoop := True\<rparr>" _ vt] vt st
    by (auto simp: assertTrace_def states_def silentUse_def)
  then show ?thesis using v restore_log [OF steps(2)] restore_log [OF steps(3)] mergeUpdate_log [OF steps(4)] by simp
qed

end
