(* ===== verification/Spec2Isabelle.thy ===== *)
theory Spec2Isabelle
  imports Cxy_Resolver Cxy_Scripts Cxy_Validators Cxy_StrPool Cxy_MemPool Cxy_Buffers Cxy_LexerProps
    Cxy_ParserReports Cxy_ParserQuirks Cxy_Scope Cxy_TypeRel Cxy_PackageRound Cxy_PackageInstall Cxy_MemStates
begin

text \<open>
  A verification library for the compiler and package manager of the Cxy language, a C program
  under \<open>src/src/cxy\<close>.

  \<^bold>\<open>The program.\<close> The driver reads the options, and for a build runs the compiler: the front end
  (\<open>lang/frontend\<close>: lexer, parser, types) produces a syntax tree, the middle end (\<open>lang/middle\<close>)
  binds names, checks types, evaluates compile-time code and simplifies, and a back end
  (\<open>lang/backend\<close>) emits code. All of it stands on the containers and helpers of \<open>core\<close>: memory
  and string pools, hash tables, dynamic arrays, string builders, number and character
  conversion. The package manager (\<open>package\<close>) reads a package file, validates its fields, lists
  the tags of git repositories, chooses a version for each dependency, follows the dependencies
  of local packages, and writes and verifies a lock file; packages carry scripts that depend on
  each other. This library models the lexer and the parser, the types and their table, the scopes of the binder, most of \<open>core\<close> and the algorithmic
  part of \<open>package\<close>.

  \<^bold>\<open>The theories.\<close>

  \<^item> \<open>Cxy_Prelude\<close>: widths of integers, C strings (a terminating NUL is the end of the list), the
    character classes of the C library, \<open>strcmp\<close>, arithmetic on cyclic indices, and the locale
    \<open>comparator\<close>, the contract of a three-way comparison, with the greatest element found by a
    scan from the end of a sorted list. It is interpreted on \<open>strcmp\<close>, on versions, on git tags
    and on the comparison given to binary search.

  \<^item> \<open>Cxy_Hash\<close> (\<open>core/hash.c\<close>), \<open>Cxy_Primes\<close> (\<open>core/primes.h\<close>), \<open>Cxy_HashTable\<close> (\<open>core/htable.c\<close>):
    FNV-1a at 32 bits; the capacities; open addressing with linear probing, rehashing at 70
    percent, removal by backward shift, iteration. A table is a record of two arrays, a
    capacity and a size; the search loop is a partial function of option type. The invariant
    \<open>ht_inv\<close> says that hashes are marked, every entry is reached from its home bucket over
    occupied ones and the load is below 70 percent; every operation keeps it and ends. The
    locale \<open>hashed_store\<close> is the contract the clients use (string pool and keyword table), with
    the interpretation \<open>ht\<close>. Removal is correct when the run of buckets does not wrap around the
    end of the array, and a theorem shows an element lost when it does.

  \<^item> \<open>Cxy_Hmap\<close> (\<open>core/hmap.c\<close>): the Robin-Hood map. A slot is empty or has the home index of its element;
    insertion, lookup, backward shift and the growth inside an insertion are partial functions. The
    invariant \<open>hmap_ok\<close> has the order of distances (\<open>robin\<close>), unrelated elements, their homes and
    the load; the locale \<open>hmap_elements\<close> states what the map needs of hash and comparison and proves
    insertion of new elements, lookup and removal correct and ending. It is interpreted on the variable traces of
    \<open>lang/middle/mem/manage.c\<close>, whose table then refines a map; a key that is put again may be stored
    twice. The quotient by the load factor, in floating point in the code, is exact here.

  \<^item> \<open>Cxy_MemStates\<close> (\<open>lang/middle/mem/manage.c\<close>): the states of variables in the memory pass. A visit is a
    function on the context (table of variables, log); the visits of if, while and switch statements take those of
    their parts. \<open>scoped\<close> relates the table to a list of nodes and a map of traces; snapshots, exchange and merge of
    states are then functions on maps, and every visit with the contract \<open>refinesVisit\<close> composes. The merge of
    branches keeps values that are to be dropped and reports uses; the merge of switch cases does not, and a loop
    does not see what its previous turn moved. The rewriting of the tree is left out.

  \<^item> \<open>Cxy_StrPool\<close> (\<open>core/strpool.c\<close>): interning over the hash table; addresses are numbers.

  \<^item> \<open>Cxy_MemPool\<close> (\<open>core/mempool.c\<close>): blocks, allocation, caches, tracked memory. An address is a
    block and an offset, sizes wrap at 64 bits; regions served are disjoint and inside their block for
    requests that leave room for alignment and header below the end of the range, and a theorem shows two requests
    beyond it served at one address.

  \<^item> \<open>Cxy_Buffers\<close> (\<open>core/array.c\<close>, \<open>core/sb.c\<close>): dynamic arrays and string builders, both
    instances of the locale \<open>appendable\<close>: a container to which chunks are appended.

  \<^item> \<open>Cxy_Numbers\<close> and \<open>Cxy_Chars\<close> (\<open>core/utils.c\<close>, \<open>core/sb.c\<close>): 128-bit numbers to and from text,
    binary search, UTF-8, escape sequences.

  \<^item> \<open>Cxy_Lexer\<close> (\<open>lang/frontend/lexer.c\<close>, \<open>token.h\<close>): the state is the stack of buffers, those that
    were left, and the flags; every function of the file is a definition of the same name, and
    the long body of \<open>advanceLexer\<close> is split at its tests into \<open>lexOnce\<close>, \<open>lexToken\<close>, \<open>lexSymbol\<close>,
    \<open>lexSlash\<close>, \<open>lexLiteral\<close>, \<open>lexString\<close>, \<open>lexCharLiteral\<close>, \<open>lexIdent\<close> and \<open>lexNumber\<close>. The nested
    tests for symbols are data, a tree of characters read by \<open>lexTree\<close>. \<open>Cxy_LexerProps\<close> has the
    proofs: the operations as functions of the text that is left, maximal munch for any such
    tree, keywords, integer literals, and that files without quotes are read to their end.

  \<^item> \<open>Cxy_Operators\<close> (\<open>lang/frontend/operator.h\<close>, \<open>operator.c\<close>, \<open>flag.h\<close>): the tables of operators with
    their precedences and tokens, and the flags. \<open>Cxy_Ast\<close> (\<open>ast.h\<close>, \<open>ast.c\<close>): a node is its tag, flags,
    attributes and named members; a pointer to a node is the chain of nodes that starts there.

  \<^item> The parser (\<open>lang/frontend/parser.c\<close>), one definition per function: \<open>Cxy_ParserCore\<close> has the state, the
    access to tokens, the errors and the combinators for loops and lists; \<open>Cxy_ParserTypes\<close> literals,
    attributes, paths and types; \<open>Cxy_ParserExpr\<close> expressions; \<open>Cxy_ParserStmt\<close> statements and functions;
    \<open>Cxy_ParserDecl\<close> declarations, imports and programs. Its input is the list of tokens of a file, with
    the text each covers; an exception is a result that carries the state it leaves. Functions take
    the calls that go back into the recursion as an argument \<open>R\<close>, and \<open>runParser n\<close> serves them with at
    most \<open>n\<close> nested. The driver (preprocessor, module loader, plugins) is a record of functions.

  \<^item> \<open>Cxy_Include\<close> (\<open>advanceLexer_\<close> of \<open>parser.c\<close>, the search for files of \<open>driver/driver.c\<close>): how tokens reach the
    parser, with included files in the place of their includes, and every reason for which the delivery aborts it.
    The grammar is modelled on the tokens after delivery: an abort of the delivery in the middle of a
    declaration is not interleaved with the calls of the parser.

  \<^item> \<open>Cxy_ParserTotal\<close> proves with weakest preconditions that every function consumes a token where the
    recursion needs it, in the locale \<open>parser_calls\<close> whose assumption is that contract for the
    recursive calls, interpreted on \<open>runParser\<close>: the parser always returns. \<open>Cxy_ParserReports\<close>
    proves in the locale \<open>reporting_calls\<close> that no error on delivered tokens is silent, and of the delivery only
    that of a missing relative include. \<open>Cxy_ParserPrint\<close> prints expressions and
    shows that they are read back, by the levels of the grammar. \<open>Cxy_ParserQuirks\<close> has inputs that the
    parser refuses or reads in part against its comments.

  \<^item> \<open>Cxy_Types\<close> (\<open>lang/frontend/types.h\<close>, \<open>types.c\<close>, \<open>ttable.c\<close>): types are objects in a heap that refer to each other
    by address; the members of the union are the constructors of \<open>body\<close>. Resolution of names, wrappers and
    self types, the tests of kinds, members and inheritance, comparison, hashing, assignability, casts and promotion are
    partial functions over the heap: types may be cyclic, and a member of the union that is not there may be
    read. \<open>Cxy_TypeTable\<close> has the table: its constructors, replacements and lookups, over \<open>Cxy_HashTable\<close>.
    \<open>Cxy_TypeIntern\<close> reads a type as a head and children and shows that comparison and hashing depend on these
    alone, for types that are not names or wrappers, and that the table has one object for each;
    \<open>Cxy_TypeTrees\<close> lifts this to trees: two requests give the same object exactly when they name the same
    type. \<open>Cxy_TypeRel\<close> has the rules for integers (assignment against the ranges of values, promotion,
    literals), the end of resolution when names are not circular, and a pair of types that compare equal and hash apart.

  \<^item> \<open>Cxy_Scope\<close> (\<open>lang/middle/bind/scope.c\<close>): environments of nested scopes over the hash table, definitions,
    forward declarations, overloads, lookups with suggestions, enclosing constructs and block
    scopes. A table is read as a map from names to symbols; an environment refines a stack of such
    maps, for every sequence of operations. The edit distance behind suggestions is related to
    sequences of edits, an inductive predicate.

  \<^item> \<open>Cxy_SemVer\<close>, \<open>Cxy_Scripts\<close> (\<open>package/types.c\<close>): parsing and comparing versions, constraints;
    the order of scripts by depth-first search and the validation of the script graph.

  \<^item> \<open>Cxy_Resolver\<close> (\<open>package/resolver.c\<close>, \<open>package/gitops.c\<close>): the tags in the output of git, the
    choice of a version, recursive resolution with conflicts, the lock file as a sequence of
    YAML events in both directions, and its verification. The answers of git, the package
    files, the checksums, \<open>qsort\<close>, the files, libyaml's emitter and parser, and what is found behind
    pointers into freed text (the prereleases of tags) are arguments; what is assumed of them is stated
    in each theorem (\<open>qsort\<close> returns a sorted permutation, libyaml reads back the events it wrote).

  \<^item> \<open>Cxy_Validators\<close> (\<open>package/validators.c\<close>): the fields of a package file.

  \<^item> \<open>Cxy_PackageFile\<close> (\<open>package/cxyfile.c\<close>): the readers of the sections of \<open>Cxyfile.yaml\<close> over the events of libyaml,
    which are the input. \<open>Cxy_PackageTree\<close> gives the meaning of a tree of YAML nodes and shows in the locales
    \<open>reads_value\<close>, \<open>reads_element\<close> and \<open>reads_fields\<close> that each reader consumes the events of one node and returns its
    meaning. \<open>Cxy_PackageProps\<close> has the validation and what a valid file promises. \<open>Cxy_PackageWriter\<close> is the text that
    \<open>writeCxyfile\<close> puts into a file, and shows that it is the block layout of a document; \<open>Cxy_PackageRound\<close> gives the values of
    presented scalars by the rules of YAML and shows that a package that is written reads back, if libyaml, a parameter, reads this
    document by these rules, and which ones do not.
    \<open>Cxy_PackageInstall\<close> searches for the package file and installs dependencies; the file system is a state of any type,
    and what the operating system answers (\<open>stat\<close>, \<open>mkdir\<close>, commands) is a record of functions.

  \<^bold>\<open>Errors, loops and bounds.\<close> A diagnostic and an early return are values of a sum or option
  type. Loops that end are total functions. Loops that may not end in the source (probing, growth
  by doubling, the loops over literals, the main loop of the lexer) are partial functions whose
  value is \<open>None\<close> when they do not end, and that they end, or do not, is proved. The recursion
  over local packages takes fuel, of which the number of package names is shown to be enough; the
  recursion over scripts is total, by the scripts not yet visited. The recursion of the parser takes
  fuel, of which one more than the number of tokens is shown to be enough for every function; its loops are
  bounded in the same way. Offsets into a file and the sizes and capacities of tables and arrays are natural numbers:
  the objects they measure are in memory, so they do not overflow; the sizes requested of the memory pool wrap
  at 64 bits; hashes, flags, rows, columns and literal values have their width.

  \<^bold>\<open>What is not modelled.\<close> Input and output, processes, the log; floating-point conversion (the
  text of a float literal is kept); the locations of syntax nodes; the printing of types, container types, and the references to self
  types that wait for a declaration; the passes behind the parser, but for the scopes of the binder and the states of
  variables;
  the scanner behind the YAML events and the registry client; the back ends; the library written in
  Cxy and all third-party code.

  \<^bold>\<open>Plan.\<close> Next the preprocessor behind compile-time conditions, the evaluation of constant expressions; then the environment file and the commands of the package manager.
\<close>

end
